(* ===== verification/Prelude.thy ===== *)
theory Prelude
  imports Main "HOL-Library.Sublist"
begin

text \<open>
  Shared vocabulary of the development: Go strings as byte lists (\<open>string\<close>), the
  functions of Go's \<^verbatim>\<open>strings\<close>, \<^verbatim>\<open>unicode/utf8\<close> and \<^verbatim>\<open>unicode\<close> packages that the modelled code
  calls, and the list lemmas the components share.

  Case folding, Unicode normalization and the script tables are data of the Unicode
  standard (Go's \<^verbatim>\<open>unicode\<close> tables, \<^verbatim>\<open>golang.org/x/text/unicode/norm\<close>). They enter as one
  parameter, the record \<open>unicode\<close>, which is consulted for strings that hold a non-ASCII
  byte; on ASCII strings the functions are written out. \<open>plain_unicode\<close> is the instance
  used by the witnesses.
\<close>

named_theorems bytes_simps \<open>equations between byte-string functions and list functions\<close>
named_theorems path_simps \<open>facts about cleaned paths and their segments\<close>

section \<open>Time and results\<close>

type_synonym time = int
  \<comment> \<open>an instant or a duration, in nanoseconds, as Go's \<open>time.Duration\<close> counts them\<close>

abbreviation second :: time where "second \<equiv> 1000000000"
abbreviation minute :: time where "minute \<equiv> 60 * second"
abbreviation hour :: time where "hour \<equiv> 60 * minute"

section \<open>Unicode tables as a parameter\<close>

record unicode =
  u_lower :: "string \<Rightarrow> string"
  u_upper :: "string \<Rightarrow> string"
  u_fold :: "string \<Rightarrow> string \<Rightarrow> bool"
  u_nfc :: "string \<Rightarrow> string"
  u_letter :: "nat \<Rightarrow> bool"
  u_latin :: "nat \<Rightarrow> bool"
  u_cyrillic :: "nat \<Rightarrow> bool"
  u_greek :: "nat \<Rightarrow> bool"

definition ascii_byte :: "char \<Rightarrow> bool" where
  "ascii_byte c \<longleftrightarrow> (of_char c :: nat) < 128"

definition ascii :: "string \<Rightarrow> bool" where
  "ascii s \<longleftrightarrow> list_all ascii_byte s"

definition lower_byte :: "char \<Rightarrow> char" where
  "lower_byte c = (let n = (of_char c :: nat) in if 65 \<le> n \<and> n \<le> 90 then char_of (n + 32) else c)"

definition upper_byte :: "char \<Rightarrow> char" where
  "upper_byte c = (let n = (of_char c :: nat) in if 97 \<le> n \<and> n \<le> 122 then char_of (n - 32) else c)"

definition to_lower :: "unicode \<Rightarrow> string \<Rightarrow> string" where
  "to_lower u s = (if ascii s then map lower_byte s else u_lower u s)"

definition to_upper :: "unicode \<Rightarrow> string \<Rightarrow> string" where
  "to_upper u s = (if ascii s then map upper_byte s else u_upper u s)"

definition equal_fold :: "unicode \<Rightarrow> string \<Rightarrow> string \<Rightarrow> bool" where
  "equal_fold u s t =
     (if ascii s \<and> ascii t then map lower_byte s = map lower_byte t else u_fold u s t)"

definition nfc :: "unicode \<Rightarrow> string \<Rightarrow> string" where
  "nfc u s = (if ascii s then s else u_nfc u s)"

definition plain_unicode :: unicode where
  "plain_unicode = \<lparr>u_lower = (\<lambda>s. s), u_upper = (\<lambda>s. s), u_fold = (=), u_nfc = (\<lambda>s. s),
     u_letter = (\<lambda>r. (65 \<le> r \<and> r \<le> 90) \<or> (97 \<le> r \<and> r \<le> 122) \<or> (1024 \<le> r \<and> r \<le> 1153)),
     u_latin = (\<lambda>r. (65 \<le> r \<and> r \<le> 90) \<or> (97 \<le> r \<and> r \<le> 122)),
     u_cyrillic = (\<lambda>r. 1024 \<le> r \<and> r \<le> 1153), u_greek = (\<lambda>r. 913 \<le> r \<and> r \<le> 1000)\<rparr>"

lemma lower_byte_idem [simp]: "lower_byte (lower_byte c) = lower_byte c"
  by (auto simp: lower_byte_def Let_def)

lemma ascii_lower_byte [simp]: "ascii_byte (lower_byte c) = ascii_byte c"
  by (auto simp: lower_byte_def ascii_byte_def Let_def)

lemma ascii_Nil [simp]: "ascii []"
  by (simp add: ascii_def)

lemma ascii_Cons [simp]: "ascii (c # s) \<longleftrightarrow> ascii_byte c \<and> ascii s"
  by (simp add: ascii_def)

lemma ascii_append [simp]: "ascii (s @ t) \<longleftrightarrow> ascii s \<and> ascii t"
  by (simp add: ascii_def)

lemma ascii_map_lower [simp]: "ascii (map lower_byte s) = ascii s"
  by (induction s) auto

lemma to_lower_idem: "ascii s \<Longrightarrow> to_lower u (to_lower u s) = to_lower u s"
  by (simp add: to_lower_def comp_def)

lemma equal_fold_refl_ascii: "ascii s \<Longrightarrow> equal_fold u s s"
  by (simp add: equal_fold_def)

section \<open>Go's strings package\<close>

fun has_prefix :: "string \<Rightarrow> string \<Rightarrow> bool" where
  "has_prefix s [] = True"
| "has_prefix [] (c # p) = False"
| "has_prefix (a # s) (c # p) = (a = c \<and> has_prefix s p)"

definition has_suffix :: "string \<Rightarrow> string \<Rightarrow> bool" where
  "has_suffix s p = has_prefix (rev s) (rev p)"

fun contains :: "string \<Rightarrow> string \<Rightarrow> bool" where
  "contains [] p = (p = [])"
| "contains (c # s) p = (has_prefix (c # s) p \<or> contains s p)"

definition contains_byte :: "string \<Rightarrow> char \<Rightarrow> bool" where
  "contains_byte s c = List.member s c"

definition trim_suffix :: "string \<Rightarrow> string \<Rightarrow> string" where
  "trim_suffix s p = (if has_suffix s p then take (length s - length p) s else s)"

definition trim_prefix :: "string \<Rightarrow> string \<Rightarrow> string" where
  "trim_prefix s p = (if has_prefix s p then drop (length p) s else s)"

definition replace_byte :: "char \<Rightarrow> char \<Rightarrow> string \<Rightarrow> string" where
  "replace_byte a b s = map (\<lambda>c. if c = a then b else c) s"

fun split_on :: "char \<Rightarrow> string \<Rightarrow> string list" where
  "split_on c [] = [[]]"
| "split_on c (x # xs) =
     (if x = c then [] # split_on c xs
      else (case split_on c xs of [] \<Rightarrow> [[x]] | s # ss \<Rightarrow> (x # s) # ss))"

fun join_with :: "string \<Rightarrow> string list \<Rightarrow> string" where
  "join_with d [] = []"
| "join_with d [x] = x"
| "join_with d (x # y # ys) = x @ d @ join_with d (y # ys)"

text \<open>The bytes after the first occurrence of \<open>c\<close> (\<open>strings.IndexByte\<close> and a slice).\<close>

fun after_byte :: "char \<Rightarrow> string \<Rightarrow> string option" where
  "after_byte c [] = None"
| "after_byte c (x # xs) = (if x = c then Some xs else after_byte c xs)"

fun before_byte :: "char \<Rightarrow> string \<Rightarrow> string" where
  "before_byte c [] = []"
| "before_byte c (x # xs) = (if x = c then [] else x # before_byte c xs)"

text \<open>
  The encodings of the runes \<open>unicode.IsSpace\<close> accepts; \<open>strings.TrimSpace\<close> strips them
  at both ends.
\<close>

definition space_encodings :: "string list" where
  "space_encodings =
     [[CHR 0x09], [CHR 0x0A], [CHR 0x0B], [CHR 0x0C], [CHR 0x0D], [CHR 0x20],
      [CHR 0xC2, CHR 0x85], [CHR 0xC2, CHR 0xA0],
      [CHR 0xE1, CHR 0x9A, CHR 0x80],
      [CHR 0xE2, CHR 0x80, CHR 0x80], [CHR 0xE2, CHR 0x80, CHR 0x81], [CHR 0xE2, CHR 0x80, CHR 0x82],
      [CHR 0xE2, CHR 0x80, CHR 0x83], [CHR 0xE2, CHR 0x80, CHR 0x84], [CHR 0xE2, CHR 0x80, CHR 0x85],
      [CHR 0xE2, CHR 0x80, CHR 0x86], [CHR 0xE2, CHR 0x80, CHR 0x87], [CHR 0xE2, CHR 0x80, CHR 0x88],
      [CHR 0xE2, CHR 0x80, CHR 0x89], [CHR 0xE2, CHR 0x80, CHR 0x8A],
      [CHR 0xE2, CHR 0x80, CHR 0xA8], [CHR 0xE2, CHR 0x80, CHR 0xA9], [CHR 0xE2, CHR 0x80, CHR 0xAF],
      [CHR 0xE2, CHR 0x81, CHR 0x9F], [CHR 0xE3, CHR 0x80, CHR 0x80]]"

fun strip_prefixes :: "string list \<Rightarrow> nat \<Rightarrow> string \<Rightarrow> string" where
  "strip_prefixes ps 0 s = s"
| "strip_prefixes ps (Suc n) s =
     (case List.find (has_prefix s) ps of
        None \<Rightarrow> s
      | Some p \<Rightarrow> strip_prefixes ps n (drop (length p) s))"

definition trim_space :: "string \<Rightarrow> string" where
  "trim_space s =
     (let l = strip_prefixes space_encodings (length s) s
      in rev (strip_prefixes (map rev space_encodings) (length l) (rev l)))"

lemma has_prefix_iff [bytes_simps]: "has_prefix s p \<longleftrightarrow> prefix p s"
  by (induction s p rule: has_prefix.induct) (auto simp: prefix_def)

lemma has_prefix_append [simp]: "has_prefix (p @ s) p"
  by (simp add: bytes_simps)

lemma has_suffix_iff [bytes_simps]: "has_suffix s p \<longleftrightarrow> suffix p s"
  by (simp add: has_suffix_def bytes_simps suffix_to_prefix)

lemma contains_byte_iff [bytes_simps]: "contains_byte s c \<longleftrightarrow> c \<in> set s"
  by (simp add: contains_byte_def)

lemma contains_iff [bytes_simps]: "contains s p \<longleftrightarrow> sublist p s"
  by (induction s p rule: contains.induct)
    (auto simp: bytes_simps sublist_Cons_right)

lemma contains_singleton [bytes_simps]: "contains s [c] \<longleftrightarrow> c \<in> set s"
  by (auto simp: bytes_simps sublist_def in_set_conv_decomp)

lemma after_byte_None [bytes_simps]: "after_byte c s = None \<longleftrightarrow> c \<notin> set s"
  by (induction s) auto

lemma split_on_not_Nil [simp]: "split_on c s \<noteq> []"
  by (induction s) (auto split: list.splits)

lemma split_on_no_sep: "c \<notin> set s \<Longrightarrow> split_on c s = [s]"
  by (induction s) auto

lemma split_on_append:
  "c \<notin> set s \<Longrightarrow> split_on c (s @ c # t) = s # split_on c t"
  by (induction s) auto

lemma split_on_seg: "x \<in> set (split_on c s) \<Longrightarrow> c \<notin> set x"
proof (induction s arbitrary: x)
  case Nil
  then show ?case by simp
next
  case (Cons a s)
  then show ?case
    by (cases "split_on c s") (auto split: if_splits)
qed

lemma split_on_subset: "x \<in> set (split_on c s) \<Longrightarrow> set x \<subseteq> set s"
proof (induction s arbitrary: x)
  case Nil
  then show ?case by simp
next
  case (Cons a s)
  obtain y ys where ys: "split_on c s = y # ys"
    by (cases "split_on c s") auto
  with Cons.IH have "set y \<subseteq> set s" and "\<And>z. z \<in> set ys \<Longrightarrow> set z \<subseteq> set s"
    by auto
  with Cons.prems ys Cons.IH show ?case
    by (fastforce split: if_splits)
qed

lemma split_join:
  assumes "xs \<noteq> []" and "\<forall>x \<in> set xs. c \<notin> set x"
  shows "split_on c (join_with [c] xs) = xs"
  using assms
proof (induction "[c]" xs rule: join_with.induct)
  case (2 x)
  then show ?case by (simp add: split_on_no_sep)
next
  case (3 x y ys)
  then show ?case by (simp add: split_on_append)
qed simp

lemma join_split [simp]: "join_with [c] (split_on c s) = s"
proof (induction s)
  case Nil
  then show ?case by simp
next
  case (Cons a s)
  obtain y ys where ys: "split_on c s = y # ys"
    by (cases "split_on c s") auto
  with Cons show ?case
    by (cases ys) auto
qed

lemma join_with_append:
  "xs \<noteq> [] \<Longrightarrow> ys \<noteq> [] \<Longrightarrow> join_with d (xs @ ys) = join_with d xs @ d @ join_with d ys"
proof (induction d xs rule: join_with.induct)
  case (2 d x)
  then show ?case by (cases ys) auto
qed auto

section \<open>Go's unicode/utf8 package\<close>

definition rune_error :: nat where "rune_error = 0xFFFD"

definition in_range :: "nat \<Rightarrow> nat \<Rightarrow> nat \<Rightarrow> bool" where
  "in_range lo hi n \<longleftrightarrow> lo \<le> n \<and> n \<le> hi"

text \<open>
  \<open>utf8.DecodeRuneInString\<close>: the rune and the number of bytes it takes. A byte that
  starts no valid encoding is \<open>RuneError\<close> of width 1, the empty string has width 0.
\<close>

definition decode_rune :: "string \<Rightarrow> nat \<times> nat" where
  "decode_rune s =
     (case map of_char (take 4 s) of
        [] \<Rightarrow> (rune_error, 0)
      | b0 # bs \<Rightarrow>
          if b0 < 0x80 then (b0, 1)
          else if in_range 0xC2 0xDF b0 then
            (case bs of b1 # _ \<Rightarrow>
               if in_range 0x80 0xBF b1 then ((b0 - 0xC0) * 64 + (b1 - 0x80), 2)
               else (rune_error, 1)
             | _ \<Rightarrow> (rune_error, 1))
          else if in_range 0xE0 0xEF b0 then
            (case bs of b1 # b2 # _ \<Rightarrow>
               if in_range (if b0 = 0xE0 then 0xA0 else 0x80) (if b0 = 0xED then 0x9F else 0xBF) b1
                  \<and> in_range 0x80 0xBF b2
               then ((b0 - 0xE0) * 4096 + (b1 - 0x80) * 64 + (b2 - 0x80), 3)
               else (rune_error, 1)
             | _ \<Rightarrow> (rune_error, 1))
          else if in_range 0xF0 0xF4 b0 then
            (case bs of b1 # b2 # b3 # _ \<Rightarrow>
               if in_range (if b0 = 0xF0 then 0x90 else 0x80) (if b0 = 0xF4 then 0x8F else 0xBF) b1
                  \<and> in_range 0x80 0xBF b2 \<and> in_range 0x80 0xBF b3
               then ((b0 - 0xF0) * 262144 + (b1 - 0x80) * 4096 + (b2 - 0x80) * 64 + (b3 - 0x80), 4)
               else (rune_error, 1)
             | _ \<Rightarrow> (rune_error, 1))
          else (rune_error, 1))"

lemma decode_rune_width: "s \<noteq> [] \<Longrightarrow> 0 < snd (decode_rune s)"
  by (cases s) (auto simp: decode_rune_def split: list.splits)

text \<open>The runes of a string, as \<open>for _, r := range s\<close> visits them, with their widths.\<close>

function runes :: "string \<Rightarrow> (nat \<times> nat) list" where
  "runes s = (if s = [] then [] else decode_rune s # runes (drop (snd (decode_rune s)) s))"
  by pat_completeness auto
termination
  by (relation "measure length") (auto simp: decode_rune_width)

declare runes.simps [simp del]

lemma runes_Nil [simp]: "runes [] = []"
  by (simp add: runes.simps)

definition valid_string :: "string \<Rightarrow> bool" where
  "valid_string s = list_all (\<lambda>(r, n). \<not> (r = rune_error \<and> n = 1)) (runes s)"

lemma decode_rune_ascii: "ascii_byte c \<Longrightarrow> decode_rune (c # s) = (of_char c, 1)"
  by (simp add: decode_rune_def ascii_byte_def)

lemma runes_ascii_Cons: "ascii_byte c \<Longrightarrow> runes (c # s) = (of_char c, 1) # runes s"
  by (subst runes.simps) (simp add: decode_rune_ascii)

lemma runes_ascii: "ascii s \<Longrightarrow> runes s = map (\<lambda>c. (of_char c, 1)) s"
  by (induction s) (auto simp: runes_ascii_Cons)

lemma valid_string_ascii: "ascii s \<Longrightarrow> valid_string s"
  by (auto simp: valid_string_def runes_ascii ascii_def list_all_iff ascii_byte_def rune_error_def)

section \<open>List and option helpers\<close>

text \<open>The first success of a list of checks, as a chain of early returns.\<close>

fun first_some :: "('a \<Rightarrow> 'b option) \<Rightarrow> 'a list \<Rightarrow> 'b option" where
  "first_some f [] = None"
| "first_some f (x # xs) = (case f x of Some y \<Rightarrow> Some y | None \<Rightarrow> first_some f xs)"

lemma first_some_None [simp]: "first_some f xs = None \<longleftrightarrow> (\<forall>x \<in> set xs. f x = None)"
  by (induction xs) (auto split: option.splits)

lemma first_some_SomeD:
  "first_some f xs = Some y \<Longrightarrow> \<exists>ys x zs. xs = ys @ x # zs \<and> f x = Some y \<and> (\<forall>z \<in> set ys. f z = None)"
proof (induction xs)
  case Nil
  then show ?case by simp
next
  case (Cons a xs)
  show ?case
  proof (cases "f a")
    case None
    with Cons obtain ys x zs where "xs = ys @ x # zs" "f x = Some y" "\<forall>z \<in> set ys. f z = None"
      by auto
    with None have "a # xs = (a # ys) @ x # zs \<and> f x = Some y \<and> (\<forall>z \<in> set (a # ys). f z = None)"
      by simp
    then show ?thesis by blast
  next
    case (Some b)
    with Cons.prems have "a # xs = [] @ a # xs \<and> f a = Some y \<and> (\<forall>z \<in> set []. f z = None)"
      by simp
    then show ?thesis by blast
  qed
qed

lemma find_SomeD: "List.find P xs = Some x \<Longrightarrow> x \<in> set xs \<and> P x"
  by (induction xs) (auto split: if_splits)

end
