(* ===== verification/GoPath.thy ===== *)
theory GoPath
  imports Prelude
begin

text \<open>
  The functions of Go's \<^verbatim>\<open>path\<close> and (on Unix) \<^verbatim>\<open>path/filepath\<close> packages that the modelled
  code calls: \<open>Clean\<close>, \<open>Base\<close>, \<open>Join\<close>, \<open>IsAbs\<close> and the glob matcher \<open>Match\<close>. On Unix
  \<^verbatim>\<open>filepath\<close> agrees with \<^verbatim>\<open>path\<close> and \<open>FromSlash\<close>/\<open>ToSlash\<close> are the identity. The lemmas
  give the shape of a cleaned path and turn the string test "equal to root, or prefixed
  by root and a separator" into a comparison of path segments.
\<close>

abbreviation slash :: char where "slash \<equiv> CHR ''/''"
abbreviation dot :: string where "dot \<equiv> ''.''"
abbreviation dotdot :: string where "dotdot \<equiv> ''..''"

definition backslash :: char where "backslash = CHR 0x5C"

section \<open>Clean, Base, Join\<close>

text \<open>
  \<open>Clean\<close> on segments. The first argument says whether the path is rooted, the second is
  the output so far in reverse: empty and \<open>.\<close> segments vanish, \<open>..\<close> removes the segment
  before it, is dropped at a root and kept at the start of a relative path.
\<close>

fun clean_segs :: "bool \<Rightarrow> string list \<Rightarrow> string list \<Rightarrow> string list" where
  "clean_segs rooted st [] = rev st"
| "clean_segs rooted st (x # xs) =
     (if x = [] \<or> x = dot then clean_segs rooted st xs
      else if x = dotdot then
        (case st of
           [] \<Rightarrow> clean_segs rooted (if rooted then [] else [dotdot]) xs
         | y # ys \<Rightarrow> if y = dotdot then clean_segs rooted (dotdot # st) xs
                     else clean_segs rooted ys xs)
      else clean_segs rooted (x # st) xs)"

definition clean :: "string \<Rightarrow> string" where
  "clean p =
     (let rooted = has_prefix p [slash];
          out = clean_segs rooted [] (split_on slash p)
      in if rooted then slash # join_with [slash] out
         else if out = [] then dot else join_with [slash] out)"

fun strip_slashes :: "string \<Rightarrow> string" where
  "strip_slashes [] = []"
| "strip_slashes (c # s) = (if c = slash then strip_slashes s else c # s)"

definition path_base :: "string \<Rightarrow> string" where
  "path_base p =
     (if p = [] then dot
      else let q = rev (strip_slashes (rev p))
           in if q = [] then [slash] else last (split_on slash q))"

text \<open>\<open>path.Join\<close> skips the leading empty elements, joins the rest and cleans the result.\<close>

definition path_join :: "string list \<Rightarrow> string" where
  "path_join elems =
     (case dropWhile (\<lambda>e. e = []) elems of
        [] \<Rightarrow> []
      | es \<Rightarrow> clean (join_with [slash] es))"

definition is_abs :: "string \<Rightarrow> bool" where
  "is_abs p = has_prefix p [slash]"

text \<open>The non-empty segments of a path.\<close>

definition segs :: "string \<Rightarrow> string list" where
  "segs p = filter (\<lambda>s. s \<noteq> []) (split_on slash p)"

definition plain_seg :: "string \<Rightarrow> bool" where
  "plain_seg s \<longleftrightarrow> s \<noteq> [] \<and> s \<noteq> dot \<and> s \<noteq> dotdot \<and> slash \<notin> set s"

section \<open>Match\<close>

datatype match_error = ErrBadPattern

definition get_esc :: "string \<Rightarrow> match_error + (nat \<times> string)" where
  "get_esc chunk =
     (if chunk = [] \<or> hd chunk = CHR ''-'' \<or> hd chunk = CHR '']'' then Inl ErrBadPattern
      else let chunk1 = (if hd chunk = CHR 0x5C then tl chunk else chunk)
           in if chunk1 = [] then Inl ErrBadPattern
              else let (r, n) = decode_rune chunk1; nchunk = drop n chunk1
                   in if (r = rune_error \<and> n = 1) \<or> nchunk = [] then Inl ErrBadPattern
                      else Inr (r, nchunk))"

lemma get_esc_shorter: "get_esc chunk = Inr (r, rest) \<Longrightarrow> length rest < length chunk"
proof -
  assume a: "get_esc chunk = Inr (r, rest)"
  define c1 where "c1 = (if hd chunk = CHR 0x5C then tl chunk else chunk)"
  from a have ne: "chunk \<noteq> []" and c1: "c1 \<noteq> []" and rest: "rest = drop (snd (decode_rune c1)) c1"
    by (auto simp: get_esc_def c1_def Let_def split: if_splits prod.splits)
  have "length rest < length c1"
    using decode_rune_width [OF c1] c1 by (simp add: rest)
  moreover have "length c1 \<le> length chunk"
    by (simp add: c1_def)
  ultimately show ?thesis by simp
qed

text \<open>The ranges of one character class; \<open>seen\<close> says that a range has been read.\<close>

function class_loop :: "nat \<Rightarrow> bool \<Rightarrow> bool \<Rightarrow> string \<Rightarrow> match_error + (bool \<times> string)" where
  "class_loop r seen m chunk =
     (if chunk \<noteq> [] \<and> hd chunk = CHR '']'' \<and> seen then Inr (m, tl chunk)
      else (case get_esc chunk of
          Inl e \<Rightarrow> Inl e
        | Inr (lo, c1) \<Rightarrow>
            if hd c1 = CHR ''-'' then
              (case get_esc (tl c1) of
                 Inl e \<Rightarrow> Inl e
               | Inr (hi, c2) \<Rightarrow> class_loop r True (m \<or> (lo \<le> r \<and> r \<le> hi)) c2)
            else class_loop r True (m \<or> r = lo) c1))"
  by pat_completeness auto
termination
proof (relation "measure (\<lambda>(r, seen, m, chunk). length chunk)", goal_cases)
  case (2 r seen m chunk x lo c1 y hi c2)
  then have "length c1 < length chunk" "length c2 < length (tl c1)"
    using get_esc_shorter by blast+
  then show ?case by simp
next
  case (3 r seen m chunk x lo c1)
  then show ?case
    using get_esc_shorter by auto
qed simp

declare class_loop.simps [simp del]

lemma class_loop_shorter: "class_loop r seen m chunk = Inr (m', rest) \<Longrightarrow> length rest < length chunk"
proof (induction r seen m chunk rule: class_loop.induct)
  case (1 r seen m chunk)
  show ?case
  proof (cases "chunk \<noteq> [] \<and> hd chunk = CHR '']'' \<and> seen")
    case True
    with "1.prems" show ?thesis
      by (subst (asm) class_loop.simps) (cases chunk, auto)
  next
    case False
    then obtain lo c1 where c1: "get_esc chunk = Inr (lo, c1)"
      using "1.prems" by (cases "get_esc chunk") (auto simp: class_loop.simps [of r seen m chunk])
    have l1: "length c1 < length chunk" by (rule get_esc_shorter [OF c1])
    show ?thesis
    proof (cases "hd c1 = CHR ''-''")
      case True
      then obtain hi c2 where c2: "get_esc (tl c1) = Inr (hi, c2)"
        using "1.prems" False c1
        by (cases "get_esc (tl c1)") (auto simp: class_loop.simps [of r seen m chunk])
      have "length rest < length c2"
        using "1.IH"(1) [OF False c1 _ True c2] "1.prems" False True c1 c2
        by (simp add: class_loop.simps [of r seen m chunk])
      with get_esc_shorter [OF c2] l1 show ?thesis by simp
    next
      case notdash: False
      have "length rest < length c1"
        using "1.IH"(2) [OF False c1 _ notdash] "1.prems" False notdash c1
        by (simp add: class_loop.simps [of r seen m chunk])
      with l1 show ?thesis by simp
    qed
  qed
qed

text \<open>
  \<open>matchChunk\<close>: whether a star-free chunk matches a prefix of \<open>s\<close>, and what remains of
  \<open>s\<close>. After a mismatch the loop goes on only to check the chunk's syntax.
\<close>

function match_chunk :: "bool \<Rightarrow> string \<Rightarrow> string \<Rightarrow> match_error + string option" where
  "match_chunk failed0 chunk s =
     (case chunk of
        [] \<Rightarrow> Inr (if failed0 then None else Some s)
      | c # ch \<Rightarrow>
          let failed = (failed0 \<or> s = []) in
          if c = CHR ''['' then
            (let r = (if failed then 0 else fst (decode_rune s));
                 s1 = (if failed then s else drop (snd (decode_rune s)) s);
                 neg = (ch \<noteq> [] \<and> hd ch = CHR ''^'');
                 ch1 = (if neg then tl ch else ch)
             in case class_loop r False False ch1 of
                  Inl e \<Rightarrow> Inl e
                | Inr (m, ch2) \<Rightarrow> match_chunk (failed \<or> m = neg) ch2 s1)
          else if c = CHR ''?'' then
            match_chunk (failed \<or> hd s = slash) ch
              (if failed then s else drop (snd (decode_rune s)) s)
          else if c = CHR 0x5C then
            (case ch of
               [] \<Rightarrow> Inl ErrBadPattern
             | d # ch1 \<Rightarrow> match_chunk (failed \<or> d \<noteq> hd s) ch1 (if failed then s else tl s))
          else match_chunk (failed \<or> c \<noteq> hd s) ch (if failed then s else tl s))"
  by pat_completeness auto
termination
  by (relation "measure (\<lambda>(f, chunk, s). length chunk)")
    (auto dest!: class_loop_shorter split: if_splits simp: less_Suc_eq_le)

declare match_chunk.simps [simp del]

fun take_chunk :: "bool \<Rightarrow> string \<Rightarrow> string \<times> string" where
  "take_chunk inrange [] = ([], [])"
| "take_chunk inrange (c # p) =
     (if c = CHR 0x5C then
        (case p of
           [] \<Rightarrow> ([c], [])
         | d # q \<Rightarrow> let (a, b) = take_chunk inrange q in (c # d # a, b))
      else if c = CHR ''*'' \<and> \<not> inrange then ([], c # p)
      else let inrange1 = (if c = CHR ''['' then True else if c = CHR '']'' then False else inrange);
               (a, b) = take_chunk inrange1 p
           in (c # a, b))"

definition scan_chunk :: "string \<Rightarrow> bool \<times> string \<times> string" where
  "scan_chunk p =
     (let q = dropWhile (\<lambda>c. c = CHR ''*'') p
      in (p \<noteq> [] \<and> hd p = CHR ''*'', take_chunk False q))"

lemma take_chunk_append: "take_chunk i p = (a, b) \<Longrightarrow> p = a @ b"
proof (induction i p arbitrary: a b rule: take_chunk.induct)
  case (2 i c p)
  show ?case
  proof (cases "c = CHR 0x5C")
    case True
    with 2 show ?thesis by (cases p) (auto split: prod.splits)
  next
    case False
    with 2 show ?thesis by (auto simp: Let_def split: prod.splits if_splits)
  qed
qed simp

lemma take_chunk_nonempty: "p \<noteq> [] \<Longrightarrow> hd p \<noteq> CHR ''*'' \<Longrightarrow> fst (take_chunk False p) \<noteq> []"
  by (cases p; cases "tl p") (simp_all add: split_beta)

lemma scan_chunk_shorter:
  assumes "p \<noteq> []" and "scan_chunk p = (star, chunk, rest)"
  shows "length rest < length p"
proof -
  define q where "q = dropWhile (\<lambda>c. c = CHR ''*'') p"
  from assms(2) have cr: "take_chunk False q = (chunk, rest)" and
      st: "star = (hd p = CHR ''*'')"
    using assms(1) by (auto simp: scan_chunk_def q_def Let_def)
  have q: "q = chunk @ rest" by (rule take_chunk_append [OF cr])
  have lq: "length q \<le> length p" by (simp add: q_def length_dropWhile_le)
  show ?thesis
  proof (cases "hd p = CHR ''*''")
    case True
    then have "length q < length p"
      using assms(1) by (cases p) (auto simp: q_def length_dropWhile_le less_Suc_eq_le)
    with q show ?thesis by simp
  next
    case False
    then have qp: "q = p" using assms(1) by (cases p) (auto simp: q_def)
    have "chunk \<noteq> []"
      using take_chunk_nonempty [OF assms(1) False] cr qp by simp
    with q qp show ?thesis by simp
  qed
qed

lemma scan_chunk_rest: "p \<noteq> [] \<Longrightarrow> length (snd (snd (scan_chunk p))) < length p"
  by (rule scan_chunk_shorter [where star = "fst (scan_chunk p)" and chunk = "fst (snd (scan_chunk p))"])
    (assumption, simp only: prod.collapse)

text \<open>The loop behind a star: the chunk is tried after each further byte but a separator.\<close>

fun star_loop :: "string \<Rightarrow> bool \<Rightarrow> string \<Rightarrow> match_error + string option" where
  "star_loop chunk final [] = Inr None"
| "star_loop chunk final (c # cs) =
     (if c = slash then Inr None
      else (case match_chunk False chunk cs of
          Inl e \<Rightarrow> Inl e
        | Inr (Some t) \<Rightarrow> if final \<and> t \<noteq> [] then star_loop chunk final cs else Inr (Some t)
        | Inr None \<Rightarrow> star_loop chunk final cs))"

text \<open>Before a mismatch is reported, the rest of the pattern is checked for its syntax.\<close>

function check_rest :: "string \<Rightarrow> match_error + bool" where
  "check_rest p =
     (if p = [] then Inr False
      else (case match_chunk False (fst (snd (scan_chunk p))) [] of
          Inl e \<Rightarrow> Inl e
        | Inr _ \<Rightarrow> check_rest (snd (snd (scan_chunk p)))))"
  by pat_completeness auto
termination
  by (relation "measure length") (simp_all add: scan_chunk_rest)

text \<open>Whether a chunk's match is taken: the last chunk has to exhaust the name.\<close>

definition takes :: "string \<Rightarrow> string option \<Rightarrow> bool" where
  "takes rest m = (case m of None \<Rightarrow> False | Some t \<Rightarrow> t = [] \<or> rest \<noteq> [])"

function path_match :: "string \<Rightarrow> string \<Rightarrow> match_error + bool" where
  "path_match p name =
     (if p = [] then Inr (name = [])
      else
        if fst (scan_chunk p) \<and> fst (snd (scan_chunk p)) = [] then Inr (\<not> contains_byte name slash)
        else (case match_chunk False (fst (snd (scan_chunk p))) name of
            Inl e \<Rightarrow> Inl e
          | Inr m \<Rightarrow>
              if takes (snd (snd (scan_chunk p))) m then path_match (snd (snd (scan_chunk p))) (the m)
              else if fst (scan_chunk p) then
                (case star_loop (fst (snd (scan_chunk p))) (snd (snd (scan_chunk p)) = []) name of
                   Inl e \<Rightarrow> Inl e
                 | Inr (Some t) \<Rightarrow> path_match (snd (snd (scan_chunk p))) t
                 | Inr None \<Rightarrow> check_rest (snd (snd (scan_chunk p))))
              else check_rest (snd (snd (scan_chunk p)))))"
  by pat_completeness auto
termination
  by (relation "measure (\<lambda>(p, name). length p)") (simp_all add: scan_chunk_rest)

declare check_rest.simps [simp del] path_match.simps [simp del]

definition glob_ok :: "string \<Rightarrow> string \<Rightarrow> bool" where
  "glob_ok p name = (path_match p name = Inr True)"

section \<open>The shape of cleaned paths\<close>

lemma segs_Nil [simp]: "segs [] = []"
  by (simp add: segs_def)

lemma segs_slash [simp]: "segs (slash # p) = segs p"
  by (simp add: segs_def)

lemma segs_append [path_simps]: "segs (a @ slash # b) = segs a @ segs b"
proof (induction a)
  case Nil
  then show ?case by (simp add: segs_def)
next
  case (Cons x a)
  have "split_on slash (a @ slash # b) = split_on slash a @ split_on slash b" for a
    by (induction a) (auto split: list.splits)
  then show ?case by (simp add: segs_def del: append_Cons split_on.simps)
qed

lemma segs_join [path_simps]:
  assumes "list_all plain_seg xs"
  shows "segs (join_with [slash] xs) = xs"
proof (cases "xs = []")
  case False
  with assms have "split_on slash (join_with [slash] xs) = xs"
    by (intro split_join) (auto simp: list_all_iff plain_seg_def)
  with assms show ?thesis
    by (auto simp: segs_def list_all_iff plain_seg_def filter_id_conv)
qed simp

lemma clean_segs_plain:
  assumes "list_all plain_seg xs"
  shows "clean_segs rooted st xs = rev st @ xs"
  using assms by (induction xs arbitrary: st) (auto simp: plain_seg_def)

lemma clean_segs_rooted_plain:
  assumes "\<forall>x \<in> set xs. slash \<notin> set x" and "list_all plain_seg st"
  shows "list_all plain_seg (clean_segs True st xs)"
  using assms
proof (induction "True" st xs rule: clean_segs.induct)
  case (1 st)
  then show ?case by (simp add: list_all_iff)
next
  case (2 st x xs)
  then show ?case by (cases st) (auto simp: plain_seg_def)
qed

lemma clean_abs_eq:
  "is_abs p \<Longrightarrow> clean p = slash # join_with [slash] (clean_segs True [] (split_on slash p))"
  by (simp add: clean_def is_abs_def)

lemma segs_clean_abs [path_simps]:
  "is_abs p \<Longrightarrow> segs (clean p) = clean_segs True [] (split_on slash p)"
  by (simp add: clean_abs_eq segs_join clean_segs_rooted_plain split_on_seg)

lemma segs_clean_abs_plain: "is_abs p \<Longrightarrow> list_all plain_seg (segs (clean p))"
  by (simp add: segs_clean_abs clean_segs_rooted_plain split_on_seg)

lemma is_abs_clean: "is_abs p \<Longrightarrow> is_abs (clean p)"
  by (simp add: clean_abs_eq is_abs_def)

definition clean_abs :: "string \<Rightarrow> bool" where
  "clean_abs p \<longleftrightarrow> is_abs p \<and> clean p = p"

lemma clean_abs_shape:
  "clean_abs p \<Longrightarrow> p = slash # join_with [slash] (segs p) \<and> list_all plain_seg (segs p)"
  by (metis clean_abs_def clean_abs_eq segs_clean_abs segs_clean_abs_plain)

lemma clean_absI:
  assumes "list_all plain_seg xs"
  shows "clean_abs (slash # join_with [slash] xs)"
proof -
  have "clean_segs True [] (split_on slash (slash # join_with [slash] xs)) = xs"
  proof (cases "xs = []")
    case False
    with assms have "split_on slash (join_with [slash] xs) = xs"
      by (intro split_join) (auto simp: list_all_iff plain_seg_def)
    with assms show ?thesis by (simp add: clean_segs_plain)
  qed simp
  then show ?thesis by (simp add: clean_abs_def is_abs_def clean_def)
qed

lemma clean_clean_abs: "is_abs p \<Longrightarrow> clean_abs (clean p)"
  using clean_absI [OF clean_segs_rooted_plain [of "split_on slash p" "[]"]] split_on_seg
  by (simp add: clean_abs_eq)

text \<open>
  The boundary test of the code, "the path is the root or starts with the root and a
  separator", says exactly that the root's segments begin the path's segments.
\<close>

lemma within_root_iff:
  assumes "clean_abs root" and "clean_abs p" and "root \<noteq> [slash]"
  shows "(p = root \<or> has_prefix p (root @ [slash])) \<longleftrightarrow> prefix (segs root) (segs p)"
proof
  assume "p = root \<or> has_prefix p (root @ [slash])"
  then consider "p = root" | t where "p = root @ slash # t"
    by (auto simp: bytes_simps prefix_def)
  then show "prefix (segs root) (segs p)"
    by cases (auto simp: segs_append)
next
  assume "prefix (segs root) (segs p)"
  then obtain q where q: "segs p = segs root @ q" by (auto simp: prefix_def)
  have r: "root = slash # join_with [slash] (segs root)" and p: "p = slash # join_with [slash] (segs p)"
    using assms clean_abs_shape by blast+
  have ne: "segs root \<noteq> []"
    using r assms(3) by (metis join_with.simps(1))
  show "p = root \<or> has_prefix p (root @ [slash])"
  proof (cases "q = []")
    case True
    with q p r show ?thesis by simp
  next
    case False
    with q ne have "join_with [slash] (segs p) = join_with [slash] (segs root) @ [slash] @ join_with [slash] q"
      by (simp add: join_with_append)
    with p r have "p = (root @ [slash]) @ join_with [slash] q"
      by (metis append_Cons append_assoc)
    then show ?thesis
      by (simp only: has_prefix_append simp_thms)
  qed
qed

section \<open>Cleaned relative paths\<close>

lemma clean_segs_rel_shape:
  assumes "\<forall>x \<in> set xs. slash \<notin> set x" and "list_all plain_seg ys"
  shows "\<exists>n zs. clean_segs False (ys @ replicate m dotdot) xs = replicate n dotdot @ zs \<and> list_all plain_seg zs"
  using assms
proof (induction xs arbitrary: ys m)
  case Nil
  have "clean_segs False (ys @ replicate m dotdot) [] = replicate m dotdot @ rev ys"
    by simp
  with Nil show ?case by (metis list_all_rev)
next
  case (Cons x xs)
  have plain: "list_all plain_seg (x # ys)" if "x \<noteq> []" "x \<noteq> dot" "x \<noteq> dotdot"
    using that Cons.prems by (simp add: plain_seg_def [of x])
  have tl: "list_all plain_seg (tl ys)"
    using Cons.prems(2) by (cases ys) auto
  have up: "clean_segs False (ys @ replicate m dotdot) (x # xs) =
      clean_segs False (if ys = [] then [] @ replicate (Suc m) dotdot else tl ys @ replicate m dotdot) xs"
    if "x = dotdot"
    using that Cons.prems(2) by (cases ys; cases m) (auto simp: plain_seg_def)
  show ?case
  proof (cases "x = dotdot")
    case True
    show ?thesis
      using Cons.IH [of "[]" "Suc m"] Cons.IH [of "tl ys" m] Cons.prems tl
      unfolding up [OF True] by (auto split: if_splits)
  next
    case False
    then show ?thesis
      using Cons.IH [of ys m] Cons.IH [of "x # ys" m] Cons.prems plain by auto
  qed
qed

lemma clean_segs_bytes:
  "x \<in> set (clean_segs r st xs) \<Longrightarrow> x \<in> set st \<or> x \<in> set xs"
proof (induction r st xs rule: clean_segs.induct)
  case (2 r st x xs)
  show ?case
  proof (cases "x = [] \<or> x = dot")
    case True
    with 2 show ?thesis by auto
  next
    case False
    with 2 show ?thesis by (cases st) (auto split: if_splits)
  qed
qed simp

abbreviation seg_len :: "string list \<Rightarrow> nat" where
  "seg_len xs \<equiv> sum_list (map (\<lambda>x. Suc (length x)) xs)"

lemma clean_segs_len: "seg_len (clean_segs r st xs) \<le> seg_len st + seg_len xs"
proof (induction r st xs rule: clean_segs.induct)
  case (1 r st)
  then show ?case by (simp add: rev_map [symmetric] sum_list_rev)
next
  case (2 r st x xs)
  then show ?case
    by (cases "x = [] \<or> x = dot"; cases st) (auto split: if_splits)
qed

lemma length_join: "xs \<noteq> [] \<Longrightarrow> Suc (length (join_with [c] xs)) = seg_len xs"
  by (induction "[c]" xs rule: join_with.induct) auto

lemma set_join: "xs \<noteq> [] \<Longrightarrow> set (join_with [c] xs) \<subseteq> {c} \<union> \<Union> (set ` set xs)"
  by (induction "[c]" xs rule: join_with.induct) auto

text \<open>
  A relative path that stays below its start is cleaned to its plain segments, which are
  not longer than the path and hold no byte the path does not hold.
\<close>

lemma clean_relative:
  assumes "\<not> has_prefix p [slash]"
    and "clean p \<noteq> dot" and "clean p \<noteq> dotdot" and "\<not> has_prefix (clean p) ''../''"
  shows "\<exists>zs. clean p = join_with [slash] zs \<and> zs \<noteq> [] \<and> list_all plain_seg zs"
    and "length (clean p) \<le> length p"
    and "set (clean p) \<subseteq> set p \<union> {slash}"
proof -
  let ?out = "clean_segs False [] (split_on slash p)"
  obtain n zs where out: "?out = replicate n dotdot @ zs" and zs: "list_all plain_seg zs"
    using clean_segs_rel_shape [of "split_on slash p" "[]" 0] split_on_seg by auto
  have c: "clean p = (if ?out = [] then dot else join_with [slash] ?out)"
    using assms(1) by (simp add: clean_def Let_def)
  with assms(2) have ne: "?out \<noteq> []" by auto
  have n: "n = 0"
  proof (rule ccontr)
    assume "n \<noteq> 0"
    then obtain rest where r: "?out = dotdot # rest"
      using out by (cases n) auto
    then have "clean p = dotdot \<or> has_prefix (clean p) ''../''"
      using c by (cases rest) auto
    with assms(3,4) show False by blast
  qed
  show "\<exists>zs. clean p = join_with [slash] zs \<and> zs \<noteq> [] \<and> list_all plain_seg zs"
    using c ne out n zs by auto
  have "Suc (length (clean p)) = seg_len ?out"
    using c ne by (simp add: length_join)
  also have "\<dots> \<le> seg_len (split_on slash p)"
    using clean_segs_len [of False "[]"] by simp
  also have "\<dots> = Suc (length (join_with [slash] (split_on slash p)))"
    by (rule length_join [symmetric]) simp
  finally show "length (clean p) \<le> length p" by simp
  have "x \<in> set ?out \<Longrightarrow> set x \<subseteq> set p" for x
    using clean_segs_bytes [of x False "[]"] split_on_subset by fastforce
  then show "set (clean p) \<subseteq> set p \<union> {slash}"
    using set_join [OF ne, of slash] c ne by fastforce
qed

lemma clean_join_plain:
  assumes "list_all plain_seg xs" and "xs \<noteq> []"
  shows "clean (join_with [slash] xs) = join_with [slash] xs"
    and "\<not> has_prefix (join_with [slash] xs) [slash]"
    and "join_with [slash] xs \<noteq> dot" and "join_with [slash] xs \<noteq> dotdot"
    and "\<not> has_prefix (join_with [slash] xs) ''../''"
proof -
  have sp: "split_on slash (join_with [slash] xs) = xs"
    using assms by (intro split_join) (auto simp: list_all_iff plain_seg_def)
  obtain x ys where xs: "xs = x # ys" using assms by (cases xs) auto
  with assms have x: "plain_seg x" by simp
  then obtain a b where ab: "x = a # b" "a \<noteq> slash"
    by (cases x) (auto simp: plain_seg_def)
  show np: "\<not> has_prefix (join_with [slash] xs) [slash]"
    using xs ab by (cases ys) auto
  show "clean (join_with [slash] xs) = join_with [slash] xs"
    using np assms by (simp add: clean_def sp clean_segs_plain)
  have seg1: "split_on slash s \<noteq> xs" if "s = dot \<or> s = dotdot" for s
    using that xs x by (auto simp: plain_seg_def)
  show "join_with [slash] xs \<noteq> dot" "join_with [slash] xs \<noteq> dotdot"
    using seg1 sp by metis+
  show "\<not> has_prefix (join_with [slash] xs) ''../''"
  proof
    assume "has_prefix (join_with [slash] xs) ''../''"
    then obtain t where "join_with [slash] xs = dotdot @ slash # t"
      by (auto simp: bytes_simps prefix_def)
    then have "xs = dotdot # split_on slash t"
      using sp split_on_append [of slash dotdot t] by simp
    with xs x show False by (simp add: plain_seg_def)
  qed
qed

lemma clean_segs_skip: "clean_segs r st (filter (\<lambda>s. s \<noteq> []) xs) = clean_segs r st xs"
  by (induction r st xs rule: clean_segs.induct) (auto split: list.splits)

lemma join_below:
  assumes "clean_abs root" and "list_all plain_seg cs" and "cs \<noteq> []"
  shows "path_join [root, join_with [slash] cs] = slash # join_with [slash] (segs root @ cs)"
    and "segs (path_join [root, join_with [slash] cs]) = segs root @ cs"
    and "clean_abs (path_join [root, join_with [slash] cs])"
proof -
  let ?p = "root @ slash # join_with [slash] cs"
  obtain r where r: "root = slash # r"
    using assms(1) by (auto simp: clean_abs_def is_abs_def bytes_simps prefix_def)
  then have a: "is_abs ?p" by (simp add: is_abs_def)
  have "segs ?p = segs root @ cs"
    using assms(2) by (simp add: path_simps)
  moreover have "list_all plain_seg (segs root @ cs)"
    using assms clean_abs_shape by simp
  ultimately have "clean_segs True [] (split_on slash ?p) = segs root @ cs"
    using clean_segs_skip [of True "[]" "split_on slash ?p"] by (simp add: segs_def clean_segs_plain)
  then have j: "path_join [root, join_with [slash] cs] = slash # join_with [slash] (segs root @ cs)"
    using clean_abs_eq [OF a] r by (simp add: path_join_def)
  then show "path_join [root, join_with [slash] cs] = slash # join_with [slash] (segs root @ cs)" .
  show "segs (path_join [root, join_with [slash] cs]) = segs root @ cs"
    using assms clean_abs_shape by (simp add: j segs_join)
  show "clean_abs (path_join [root, join_with [slash] cs])"
    using assms clean_abs_shape by (simp add: j clean_absI)
qed

section \<open>Simple patterns\<close>

definition literal_byte :: "char \<Rightarrow> bool" where
  "literal_byte c = (\<not> List.member [CHR ''*'', CHR ''?'', CHR ''['', CHR 0x5C] c)"

lemma match_chunk_literal:
  "list_all literal_byte l \<Longrightarrow>
     match_chunk failed l s =
       Inr (if \<not> failed \<and> has_prefix s l then Some (drop (length l) s) else None)"
proof (induction l arbitrary: failed s)
  case Nil
  then show ?case by (simp add: match_chunk.simps)
next
  case (Cons c l)
  then show ?case
    by (cases s; subst match_chunk.simps) (auto simp: literal_byte_def Let_def)
qed

lemma take_chunk_literal: "list_all literal_byte l \<Longrightarrow> take_chunk False l = (l, [])"
  by (induction l) (auto simp: literal_byte_def)

lemma scan_chunk_literal: "list_all literal_byte l \<Longrightarrow> scan_chunk l = (False, l, [])"
  by (cases l) (auto simp: scan_chunk_def take_chunk_literal literal_byte_def)

lemma scan_chunk_star_literal:
  "list_all literal_byte l \<Longrightarrow> scan_chunk (CHR ''*'' # l) = (True, l, [])"
  using scan_chunk_literal [of l] by (cases l) (auto simp: scan_chunk_def take_chunk_literal literal_byte_def)

lemma check_rest_Nil [simp]: "check_rest [] = Inr False"
  by (simp add: check_rest.simps)

lemma path_match_Nil [simp]: "path_match [] name = Inr (name = [])"
  by (simp add: path_match.simps)

text \<open>A pattern without meta characters matches itself only.\<close>

lemma path_match_literal:
  assumes "list_all literal_byte l"
  shows "path_match l name = Inr (name = l)"
proof (cases "l = []")
  case False
  have "has_prefix name l \<and> drop (length l) name = [] \<longleftrightarrow> name = l"
    by (auto simp: bytes_simps prefix_def)
  with False assms show ?thesis
    by (subst path_match.simps) (auto simp: scan_chunk_literal match_chunk_literal takes_def)
qed simp

lemma star_loop_literal:
  assumes "list_all literal_byte l"
  shows "star_loop l True name =
     Inr (if \<exists>a. a \<noteq> [] \<and> slash \<notin> set a \<and> name = a @ l then Some [] else None)"
proof (induction name)
  case Nil
  then show ?case by simp
next
  case (Cons c cs)
  have step: "(\<exists>a. a \<noteq> [] \<and> slash \<notin> set a \<and> c # cs = a @ l) \<longleftrightarrow>
      c \<noteq> slash \<and> (cs = l \<or> (\<exists>a. a \<noteq> [] \<and> slash \<notin> set a \<and> cs = a @ l))" (is "?L = ?R")
  proof
    assume ?L
    then obtain a where "a \<noteq> []" "slash \<notin> set a" "c # cs = a @ l" by blast
    then show ?R by (cases a) auto
  next
    assume r: ?R
    then consider "cs = l" | a where "slash \<notin> set a" "cs = a @ l" by blast
    then show ?L
    proof cases
      case 1
      with r have "[c] \<noteq> [] \<and> slash \<notin> set [c] \<and> c # cs = [c] @ l" by simp
      then show ?thesis by blast
    next
      case (2 a)
      with r have "c # a \<noteq> [] \<and> slash \<notin> set (c # a) \<and> c # cs = (c # a) @ l" by simp
      then show ?thesis by blast
    qed
  qed
  have "has_prefix cs l \<and> drop (length l) cs = [] \<longleftrightarrow> cs = l"
    by (auto simp: bytes_simps prefix_def)
  with assms Cons show ?case
    unfolding step by (auto simp: match_chunk_literal)
qed

text \<open>A star before a literal matches the names that end in it after a slash-free part.\<close>

lemma path_match_star_literal:
  assumes "list_all literal_byte l" and "l \<noteq> []"
  shows "path_match (CHR ''*'' # l) name = Inr (\<exists>a. slash \<notin> set a \<and> name = a @ l)"
proof -
  have whole: "has_prefix name l \<and> drop (length l) name = [] \<longleftrightarrow> name = l"
    by (auto simp: bytes_simps prefix_def)
  have split: "(\<exists>a. slash \<notin> set a \<and> name = a @ l) \<longleftrightarrow>
      name = l \<or> (\<exists>a. a \<noteq> [] \<and> slash \<notin> set a \<and> name = a @ l)"
    by (metis append_Nil empty_iff empty_set)
  show ?thesis
    using assms whole unfolding split
    by (subst path_match.simps)
      (auto simp: scan_chunk_star_literal match_chunk_literal takes_def star_loop_literal)
qed

lemma glob_ok_literal: "list_all literal_byte l \<Longrightarrow> glob_ok l name \<longleftrightarrow> name = l"
  by (simp add: glob_ok_def path_match_literal)

lemma glob_ok_star_literal:
  "list_all literal_byte l \<Longrightarrow> l \<noteq> [] \<Longrightarrow>
     glob_ok (CHR ''*'' # l) name \<longleftrightarrow> (\<exists>a. slash \<notin> set a \<and> name = a @ l)"
  by (simp add: glob_ok_def path_match_star_literal)

lemma take_chunk_literal_star: "list_all literal_byte l \<Longrightarrow> take_chunk False (l @ ''*'') = (l, ''*'')"
  by (induction l) (auto simp: literal_byte_def)

lemma glob_ok_literal_star:
  assumes "list_all literal_byte l" and "l \<noteq> []"
  shows "glob_ok (l @ ''*'') name \<longleftrightarrow> has_prefix name l \<and> slash \<notin> set (drop (length l) name)"
proof -
  have sc: "scan_chunk (l @ ''*'') = (False, l, ''*'')"
    using assms take_chunk_literal_star [OF assms(1)]
    by (cases l) (auto simp: scan_chunk_def literal_byte_def)
  have st: "scan_chunk ''*'' = (True, [], [])" by (simp add: scan_chunk_def)
  have "path_match ''*'' t = Inr (slash \<notin> set t)" for t
    by (subst path_match.simps) (simp add: st contains_byte_iff)
  moreover have "check_rest ''*'' = Inr False"
    by (subst check_rest.simps) (simp add: st match_chunk.simps)
  ultimately show ?thesis
    by (simp add: glob_ok_def, subst path_match.simps)
      (simp add: sc match_chunk_literal [OF assms(1)] takes_def)
qed

end
