(* ===== verification/CappedSink.thy ===== *)
theory CappedSink
  imports Prelude
begin

text \<open>
  The interface of an output sink that keeps the first bytes written to it and counts the
  rest: what the command runner's \<open>capWriter\<close> (\<^verbatim>\<open>cmdexec/output.go\<close>) and the task table's
  \<open>buffer\<close> (\<^verbatim>\<open>tasks/buffer.go\<close>) both promise. The client's facts, about a whole run of
  writes, are proved once here.
\<close>

locale capped_sink =
  fixes fresh :: "int \<Rightarrow> 'w"
    and sink_write :: "'w \<Rightarrow> string \<Rightarrow> 'w \<times> int"
    and kept :: "'w \<Rightarrow> string"
    and written :: "'w \<Rightarrow> int"
    and cap :: "'w \<Rightarrow> int"
  assumes kept_fresh: "kept (fresh n) = []"
    and written_fresh: "written (fresh n) = 0"
    and cap_fresh: "cap (fresh n) = n"
    and kept_write: "length (kept w) \<le> nat (cap w) \<Longrightarrow>
      kept (fst (sink_write w p)) = take (nat (cap w)) (kept w @ p)"
    and written_write: "written (fst (sink_write w p)) = written w + int (length p)"
    and cap_write: "cap (fst (sink_write w p)) = cap w"
    and write_reports_all: "snd (sink_write w p) = int (length p)"
begin

definition write_all :: "'w \<Rightarrow> string list \<Rightarrow> 'w" where
  "write_all w ps = foldl (\<lambda>w p. fst (sink_write w p)) w ps"

lemma write_all_simps [simp]:
  "write_all w [] = w"
  "write_all w (p # ps) = write_all (fst (sink_write w p)) ps"
  by (simp_all add: write_all_def)

lemma write_bounded:
  assumes "length (kept w) \<le> nat (cap w)"
  shows "length (kept (fst (sink_write w p))) \<le> nat (cap (fst (sink_write w p)))"
  using assms by (simp add: kept_write cap_write)

lemma write_all_kept:
  "length (kept w) \<le> nat (cap w) \<Longrightarrow> kept (write_all w ps) = take (nat (cap w)) (kept w @ concat ps)"
proof (induction ps arbitrary: w)
  case Nil
  then show ?case by simp
next
  case (Cons p ps)
  from Cons.IH [OF write_bounded [OF Cons.prems]]
  have "kept (write_all w (p # ps)) =
      take (nat (cap w)) (take (nat (cap w)) (kept w @ p) @ concat ps)"
    by (simp add: kept_write [OF Cons.prems] cap_write)
  also have "\<dots> = take (nat (cap w)) (kept w @ concat (p # ps))"
    using Cons.prems by (simp add: min_def)
  finally show ?case .
qed

lemma write_all_written: "written (write_all w ps) = written w + int (length (concat ps))"
  by (induction ps arbitrary: w) (simp_all add: written_write)

lemma write_all_cap: "cap (write_all w ps) = cap w"
  by (induction ps arbitrary: w) (simp_all add: cap_write)

text \<open>The stream seen through a fresh sink: its prefix is kept, its length is known.\<close>

lemma stream_kept: "kept (write_all (fresh n) ps) = take (nat n) (concat ps)"
  by (simp add: write_all_kept kept_fresh cap_fresh)

lemma stream_truncated: "written (write_all (fresh n) ps) > cap (write_all (fresh n) ps)
    \<longleftrightarrow> int (length (concat ps)) > n"
  by (simp add: write_all_written write_all_cap written_fresh cap_fresh)

lemma stream_complete:
  "int (length (concat ps)) \<le> n \<Longrightarrow> kept (write_all (fresh n) ps) = concat ps"
  by (simp add: stream_kept)

end

end
