(* ===== verification/CmdExec.thy ===== *)
theory CmdExec
  imports GoPath CappedSink
begin

text \<open>
  The pure parts of \<^verbatim>\<open>companion/internal/cmdexec\<close>: the comparable name of a program, the
  shell and launcher tests (\<^verbatim>\<open>cmdexec.go\<close>, \<^verbatim>\<open>launcher.go\<close>), the environment whitelist
  (\<^verbatim>\<open>env.go\<close>), the capped writer (\<^verbatim>\<open>output.go\<close>) and the clamping of a run's bounds.
  The runner itself is in \<^verbatim>\<open>CmdRun\<close>.
\<close>

section \<open>Program names\<close>

text \<open>\<open>path.Ext\<close>: from the last dot of the last segment.\<close>

definition path_ext :: "string \<Rightarrow> string" where
  "path_ext p =
     (let tailr = takeWhile (\<lambda>c. c \<noteq> CHR ''.'' \<and> c \<noteq> slash) (rev p);
          restr = dropWhile (\<lambda>c. c \<noteq> CHR ''.'' \<and> c \<noteq> slash) (rev p)
      in case restr of [] \<Rightarrow> [] | c # _ \<Rightarrow> if c = CHR ''.'' then CHR ''.'' # rev tailr else [])"


definition program_name :: "unicode \<Rightarrow> string \<Rightarrow> string" where
  "program_name u arg =
     (let slashed = replace_byte backslash slash (trim_space arg);
          base = to_lower u (path_base slashed);
          ext = path_ext base
      in if ext = ''.exe'' \<or> ext = ''.cmd'' \<or> ext = ''.bat''
         then take (length base - length ext) base else base)"

section \<open>Shells and launchers\<close>

definition shell_interpreters :: "string list" where
  "shell_interpreters =
     [''ash'', ''bash'', ''busybox'', ''cmd'', ''command'', ''csh'', ''dash'', ''fish'', ''ksh'',
      ''powershell'', ''pwsh'', ''sh'', ''tcsh'', ''zsh'']"

definition is_shell_interpreter :: "unicode \<Rightarrow> string \<Rightarrow> bool" where
  "is_shell_interpreter u name = List.member shell_interpreters (program_name u name)"

definition exec_wrappers :: "string list" where
  "exec_wrappers =
     [''env'', ''timeout'', ''nohup'', ''nice'', ''ionice'', ''setsid'', ''stdbuf'', ''script'',
      ''watch'', ''time'', ''chroot'', ''unshare'', ''flock'', ''ssh'', ''docker'', ''podman'',
      ''kubectl'', ''find'']"

fun spells_a_shell :: "unicode \<Rightarrow> string list \<Rightarrow> bool" where
  "spells_a_shell u [] = False"
| "spells_a_shell u (prog # args) =
     (if is_shell_interpreter u prog then True
      else if \<not> List.member exec_wrappers (program_name u prog) then False
      else list_ex (is_shell_interpreter u) args)"

definition launchers :: "(string \<times> string) list" where
  "launchers =
     [(''npx'', ''downloads and runs a package''), (''pnpx'', ''downloads and runs a package''),
      (''bunx'', ''downloads and runs a package''), (''uvx'', ''downloads and runs a package'')]"

definition launcher_subcommands :: "(string \<times> string list) list" where
  "launcher_subcommands =
     [(''npm'', [''exec'', ''x'']), (''pnpm'', [''dlx'', ''exec'']), (''yarn'', [''dlx'']),
      (''bun'', [''x'']), (''uv'', [''tool'', ''run'']), (''pipx'', [''run'']), (''go'', [''run'']),
      (''deno'', [''run'']), (''cargo'', [''install'']), (''nix'', [''run'']),
      (''docker'', [''run'']), (''podman'', [''run''])]"

text \<open>Why a command line downloads its own program, or the empty string.\<close>

definition fetches_and_runs :: "unicode \<Rightarrow> string list \<Rightarrow> string" where
  "fetches_and_runs u argv =
     (case argv of
        [] \<Rightarrow> []
      | a0 # args \<Rightarrow>
          let prog = program_name u a0 in
          (case map_of launchers prog of
             Some why \<Rightarrow> why
           | None \<Rightarrow>
              (case map_of launcher_subcommands prog of
                 None \<Rightarrow> []
               | Some subs \<Rightarrow>
                  (case dropWhile (\<lambda>a. has_prefix a ''-'') args of
                     [] \<Rightarrow> []
                   | a # _ \<Rightarrow>
                       if List.member subs a
                       then ''runs `'' @ prog @ '' '' @ a @ ''`, which downloads the program it runs''
                       else []))))"

lemma spells_a_shell_iff:
  "spells_a_shell u argv \<longleftrightarrow>
     (\<exists>prog args. argv = prog # args \<and>
        (is_shell_interpreter u prog \<or>
         List.member exec_wrappers (program_name u prog) \<and> (\<exists>a \<in> set args. is_shell_interpreter u a)))"
  by (cases argv) (auto simp: list_ex_iff)

section \<open>The child's environment\<close>

definition allowed_env :: "string list" where
  "allowed_env =
     [''HOME'', ''LANG'', ''LC_ALL'', ''LC_CTYPE'', ''PATH'', ''TMPDIR'', ''TZ'',
      ''APPDATA'', ''COMSPEC'', ''HOMEDRIVE'', ''HOMEPATH'', ''LOCALAPPDATA'',
      ''NUMBER_OF_PROCESSORS'', ''OS'', ''PATHEXT'', ''ProgramData'', ''ProgramFiles'',
      ''ProgramFiles(x86)'', ''SystemDrive'', ''SystemRoot'', ''TEMP'', ''TMP'',
      ''USERPROFILE'', ''windir'']"

definition fixed_env :: "(string \<times> string) list" where
  "fixed_env = [(''TERM'', ''dumb''), (''NO_COLOR'', ''1'')]"

definition windows_only :: "string list" where
  "windows_only =
     [''APPDATA'', ''COMSPEC'', ''HOMEDRIVE'', ''HOMEPATH'', ''LOCALAPPDATA'',
      ''NUMBER_OF_PROCESSORS'', ''OS'', ''PATHEXT'', ''ProgramData'', ''ProgramFiles'',
      ''ProgramFiles(x86)'', ''SystemDrive'', ''SystemRoot'', ''TEMP'', ''TMP'',
      ''USERPROFILE'', ''windir'']"

fun env_entries :: "bool \<Rightarrow> (string \<rightharpoonup> string) \<Rightarrow> string list \<Rightarrow> string list" where
  "env_entries windows lookup [] = []"
| "env_entries windows lookup (name # names) =
     (if \<not> windows \<and> List.member windows_only name then env_entries windows lookup names
      else (case lookup name of
          Some v \<Rightarrow> (name @ ''='' @ v) # env_entries windows lookup names
        | None \<Rightarrow> env_entries windows lookup names))"

text \<open>\<open>windows\<close> is \<open>runtime.GOOS == "windows"\<close>, \<open>lookup\<close> the parent's environment.\<close>

definition build_env_with :: "bool \<Rightarrow> (string \<rightharpoonup> string) \<Rightarrow> string list \<Rightarrow> string list" where
  "build_env_with windows lookup passthrough =
     env_entries windows lookup (if passthrough = [] then allowed_env else allowed_env @ passthrough)
       @ map (\<lambda>(k, v). k @ ''='' @ v) fixed_env"

definition build_env :: "bool \<Rightarrow> (string \<rightharpoonup> string) \<Rightarrow> string list" where
  "build_env windows lookup = build_env_with windows lookup []"

lemma env_entries_set:
  "e \<in> set (env_entries windows lookup names) \<longleftrightarrow>
     (\<exists>name v. name \<in> set names \<and> lookup name = Some v \<and> e = name @ ''='' @ v \<and>
        (windows \<or> name \<notin> set windows_only))"
proof (induction names)
  case (Cons n names)
  show ?case
  proof (cases "lookup n")
    case None
    with Cons show ?thesis by auto
  next
    case (Some v)
    with Cons show ?thesis by auto
  qed
qed simp

section \<open>The capped writer\<close>

record cap_writer =
  cw_limit :: int
  cw_buf :: string
  cw_seen :: int

definition new_cap_writer :: "int \<Rightarrow> cap_writer" where
  "new_cap_writer limit = \<lparr>cw_limit = limit, cw_buf = [], cw_seen = 0\<rparr>"

definition cap_write :: "cap_writer \<Rightarrow> string \<Rightarrow> cap_writer \<times> int" where
  "cap_write w p =
     (let n = int (length p);
          w1 = w\<lparr>cw_seen := cw_seen w + n\<rparr>;
          room = cw_limit w - int (length (cw_buf w))
      in (if room > 0
          then w1\<lparr>cw_buf := cw_buf w @ (if n > room then take (nat room) p else p)\<rparr>
          else w1, n))"

definition cap_truncated :: "cap_writer \<Rightarrow> bool" where
  "cap_truncated w \<longleftrightarrow> cw_seen w > cw_limit w"

interpretation cw: capped_sink new_cap_writer cap_write cw_buf cw_seen cw_limit
proof (unfold_locales, goal_cases)
  case (4 w p)
  then show ?case
    by (auto simp: cap_write_def Let_def take_append nat_diff_distrib)
qed (simp_all add: new_cap_writer_def cap_write_def Let_def)

section \<open>Bounds of a run\<close>

definition default_timeout :: time where "default_timeout = 50 * second"
definition max_timeout :: time where "max_timeout = 30 * minute"
definition default_max_output :: int where "default_max_output = 256 * 1024"
definition max_output :: int where "max_output = 4 * 1024 * 1024"

definition clamp_timeout :: "time \<Rightarrow> time" where
  "clamp_timeout t =
     (let t1 = (if t \<le> 0 then default_timeout else t)
      in if t1 > max_timeout then max_timeout else t1)"

definition clamp_output :: "int \<Rightarrow> int" where
  "clamp_output n =
     (let n1 = (if n \<le> 0 then default_max_output else n)
      in if n1 > max_output then max_output else n1)"

end
