(* ===== verification/CmdRule.thy ===== *)
theory CmdRule
  imports CmdExec
begin

text \<open>
  The command rule table, \<^verbatim>\<open>companion/internal/cmdrule/cmdrule.go\<close>: the shallow parse of
  an argv, the lexical workspace boundary, one predicate per rule, the three tiers in the
  source's order and \<open>Check\<close>. Paths are Unix paths (\<^verbatim>\<open>filepath\<close> = \<^verbatim>\<open>path\<close>).
\<close>

datatype verdict = Allow | Confirm | Disclose | Block

record decision =
  d_verdict :: verdict
  d_rule :: string
  d_reason :: string

record request =
  rq_argv :: "string list"
  rq_root :: string
  rq_dir :: string

record cmdline =
  cl_req :: request
  cl_argv :: "string list"
  cl_prog :: string
  cl_args :: "string list"

definition is_in :: "string \<Rightarrow> string list \<Rightarrow> bool" where
  "is_in v xs = List.member xs v"

lemma is_in_iff [simp]: "is_in v xs \<longleftrightarrow> v \<in> set xs"
  by (simp add: is_in_def)

section \<open>Parsing\<close>

definition slashed :: "string \<Rightarrow> string" where
  "slashed s = replace_byte backslash slash s"

definition normalize_prog :: "unicode \<Rightarrow> string \<Rightarrow> string" where
  "normalize_prog u name =
     (let base = to_lower u (path_base (slashed (trim_space name)))
      in trim_suffix base ''.exe'')"

definition parse_cmd :: "unicode \<Rightarrow> request \<Rightarrow> cmdline" where
  "parse_cmd u req =
     (case rq_argv req of
        [] \<Rightarrow> \<lparr>cl_req = req, cl_argv = [], cl_prog = [], cl_args = []\<rparr>
      | a0 # args \<Rightarrow> \<lparr>cl_req = req, cl_argv = a0 # args, cl_prog = normalize_prog u a0, cl_args = args\<rparr>)"

definition is_flag :: "string \<Rightarrow> bool" where
  "is_flag a = has_prefix a ''-''"

definition execs_a_program :: "cmdline \<Rightarrow> bool" where
  "execs_a_program c = list_ex (\<lambda>a. \<not> is_flag a \<and> \<not> contains a ''='') (cl_args c)"

text \<open>The nth non-flag argument, lower-cased, or the empty string.\<close>

definition sub_arg :: "unicode \<Rightarrow> cmdline \<Rightarrow> nat \<Rightarrow> string" where
  "sub_arg u c n =
     (case drop n (filter (\<lambda>a. \<not> is_flag a) (cl_args c)) of
        [] \<Rightarrow> []
      | a # _ \<Rightarrow> to_lower u a)"

definition sub :: "unicode \<Rightarrow> cmdline \<Rightarrow> string" where
  "sub u c = sub_arg u c 0"

definition has_short_opt :: "cmdline \<Rightarrow> char \<Rightarrow> bool" where
  "has_short_opt c letter =
     list_ex (\<lambda>a. has_prefix a ''-'' \<and> \<not> has_prefix a ''--'' \<and> a \<noteq> ''-'' \<and> contains_byte (tl a) letter)
       (cl_args c)"

definition has_long_opt :: "cmdline \<Rightarrow> string \<Rightarrow> bool" where
  "has_long_opt c name =
     list_ex (\<lambda>a. a = ''--'' @ name \<or> has_prefix a (''--'' @ name @ ''='')) (cl_args c)"

definition windows_switch_progs :: "string list" where
  "windows_switch_progs =
     [''icacls'', ''cacls'', ''takeown'', ''attrib'', ''schtasks'', ''sc'', ''reg'', ''net'',
      ''robocopy'', ''xcopy'']"

definition windows_switch :: "cmdline \<Rightarrow> string \<Rightarrow> bool" where
  "windows_switch c arg = (has_prefix arg [slash] \<and> is_in (cl_prog c) windows_switch_progs)"

text \<open>What one argument contributes to the path arguments: nothing, or one path.\<close>

definition path_arg :: "cmdline \<Rightarrow> string \<Rightarrow> string option" where
  "path_arg c a =
     (if windows_switch c a then None
      else if is_flag a \<and> a \<noteq> ''-'' then after_byte CHR ''='' a
      else if contains a ''='' \<and> is_in (cl_prog c) [''dd'', ''rsync''] then after_byte CHR ''='' a
      else Some a)"

definition path_args :: "cmdline \<Rightarrow> string list" where
  "path_args c =
     (let out = List.map_filter (path_arg c) (cl_args c)
      in if is_in (cl_prog c) [''chmod'', ''chown'', ''chgrp''] \<and> out \<noteq> [] then tl out else out)"

section \<open>The lexical workspace boundary\<close>

definition abs_arg :: "cmdline \<Rightarrow> string \<Rightarrow> string option" where
  "abs_arg c arg =
     (let root = rq_root (cl_req c) in
      if arg = [] \<or> root = [] then None
      else Some (clean (if is_abs arg then arg else path_join [root, rq_dir (cl_req c), arg])))"

definition outside_workspace :: "cmdline \<Rightarrow> string \<Rightarrow> bool" where
  "outside_workspace c arg =
     (case abs_arg c arg of
        None \<Rightarrow> False
      | Some p \<Rightarrow> p \<noteq> rq_root (cl_req c) \<and> \<not> has_prefix p (rq_root (cl_req c) @ [slash]))"

definition is_workspace_root :: "cmdline \<Rightarrow> string \<Rightarrow> bool" where
  "is_workspace_root c arg = (abs_arg c arg = Some (rq_root (cl_req c)))"

section \<open>Block rules\<close>

definition mutators :: "string list" where
  "mutators =
     [''rm'', ''rmdir'', ''unlink'', ''mv'', ''cp'', ''chmod'', ''chown'', ''chgrp'',
      ''ln'', ''tee'', ''install'', ''truncate'', ''touch'', ''mkdir'', ''dd'', ''rsync'']"

definition deleters :: "string list" where
  "deleters = [''rm'', ''rmdir'', ''unlink'', ''shred'']"

definition m_privilege :: "unicode \<Rightarrow> cmdline \<Rightarrow> bool" where
  "m_privilege u c =
     is_in (cl_prog c) [''sudo'', ''doas'', ''su'', ''runas'', ''pkexec'', ''gsudo'']"

definition m_shell :: "unicode \<Rightarrow> cmdline \<Rightarrow> bool" where
  "m_shell u c = spells_a_shell u (cl_argv c)"

definition m_builds_lines :: "unicode \<Rightarrow> cmdline \<Rightarrow> bool" where
  "m_builds_lines u c = is_in (cl_prog c) [''xargs'', ''parallel'']"

definition m_raw_device :: "unicode \<Rightarrow> cmdline \<Rightarrow> bool" where
  "m_raw_device u c =
     (is_in (cl_prog c)
        [''fdisk'', ''sfdisk'', ''parted'', ''diskutil'', ''mkswap'', ''wipefs'', ''badblocks'']
      \<or> has_prefix (cl_prog c) ''mkfs''
      \<or> (cl_prog c = ''dd'' \<and> list_ex (\<lambda>a. has_prefix a ''of='') (cl_args c)))"

definition m_git_internals :: "unicode \<Rightarrow> cmdline \<Rightarrow> bool" where
  "m_git_internals u c =
     (is_in (cl_prog c) mutators \<and>
      list_ex (\<lambda>p. list_ex (\<lambda>comp. equal_fold u comp ''.git'') (split_on slash (slashed p))) (path_args c))"

definition m_delete_root :: "unicode \<Rightarrow> cmdline \<Rightarrow> bool" where
  "m_delete_root u c = (is_in (cl_prog c) deleters \<and> list_ex (is_workspace_root c) (path_args c))"

definition m_delete_outside :: "unicode \<Rightarrow> cmdline \<Rightarrow> bool" where
  "m_delete_outside u c = (is_in (cl_prog c) deleters \<and> list_ex (outside_workspace c) (path_args c))"

section \<open>Disclose rules\<close>

definition m_credential_store :: "unicode \<Rightarrow> cmdline \<Rightarrow> bool" where
  "m_credential_store u c =
     (if is_in (cl_prog c) [''printenv'', ''security'', ''dscl'', ''defaults''] then True
      else if cl_prog c = ''env'' then \<not> execs_a_program c
      else False)"

definition m_touches_outside :: "unicode \<Rightarrow> cmdline \<Rightarrow> bool" where
  "m_touches_outside u c = list_ex (outside_workspace c) (path_args c)"

section \<open>Confirm rules\<close>

definition m_machine_state :: "unicode \<Rightarrow> cmdline \<Rightarrow> bool" where
  "m_machine_state u c =
     (if is_in (cl_prog c)
          [''ps'', ''top'', ''htop'', ''pgrep'', ''pidof'', ''lsof'', ''netstat'', ''ss'',
           ''ioreg'', ''dmesg'', ''journalctl'', ''last''] then True
      else if is_in (cl_prog c) [''launchctl'', ''systemctl'', ''service'', ''sc''] then
        is_in (sub u c) [''list'', ''list-units'', ''list-unit-files'', ''status'', ''show'',
          ''print'', ''dumpstate'', ''query'']
      else False)"

definition m_recursive_delete :: "unicode \<Rightarrow> cmdline \<Rightarrow> bool" where
  "m_recursive_delete u c =
     (is_in (cl_prog c) [''rm'', ''rmdir''] \<and>
      (has_short_opt c CHR ''r'' \<or> has_short_opt c CHR ''R'' \<or> has_long_opt c ''recursive''))"

definition m_discards_work :: "unicode \<Rightarrow> cmdline \<Rightarrow> bool" where
  "m_discards_work u c =
     (if cl_prog c \<noteq> ''git'' then False
      else if sub u c = ''reset'' then has_long_opt c ''hard''
      else if sub u c = ''clean'' then has_short_opt c CHR ''f'' \<or> has_long_opt c ''force''
      else if is_in (sub u c) [''checkout'', ''switch'', ''restore''] then
        has_short_opt c CHR ''f'' \<or> has_long_opt c ''force''
      else if sub u c = ''stash'' then is_in (sub_arg u c 1) [''drop'', ''clear'']
      else False)"

definition m_rewrites_history :: "unicode \<Rightarrow> cmdline \<Rightarrow> bool" where
  "m_rewrites_history u c =
     (cl_prog c = ''git'' \<and> sub u c = ''push'' \<and>
      (has_short_opt c CHR ''f'' \<or> has_long_opt c ''force'' \<or> has_long_opt c ''force-with-lease''))"

definition uploads_a_file :: "cmdline \<Rightarrow> bool" where
  "uploads_a_file c =
     (if cl_prog c = ''curl'' \<and> (has_short_opt c CHR ''T'' \<or> has_long_opt c ''upload-file'') then True
      else if cl_prog c = ''wget'' \<and> (has_long_opt c ''post-file'' \<or> has_long_opt c ''body-file'') then True
      else list_ex (\<lambda>a. has_prefix a ''@'' \<or> contains a ''=@'') (cl_args c))"

definition contains_arg :: "string list \<Rightarrow> string list \<Rightarrow> bool" where
  "contains_arg args want = list_ex (\<lambda>a. is_in a want) args"

definition infra_clis :: "string list" where
  "infra_clis =
     [''aws'', ''gcloud'', ''az'', ''kubectl'', ''terraform'', ''flyctl'', ''vercel'', ''netlify'',
      ''wrangler'']"

definition m_leaves_machine :: "unicode \<Rightarrow> cmdline \<Rightarrow> bool" where
  "m_leaves_machine u c =
     (let prog = cl_prog c; s = sub u c; s1 = sub_arg u c 1 in
      if is_in prog [''curl'', ''wget'', ''http'', ''https'', ''xh''] then uploads_a_file c
      else if is_in prog [''nc'', ''ncat'', ''netcat'', ''socat'', ''telnet''] then True
      else if prog = ''git'' then s = ''push''
      else if is_in prog [''npm'', ''pnpm'', ''yarn'', ''bun''] then s = ''publish''
      else if is_in prog [''cargo'', ''poetry'', ''gem''] then is_in s [''publish'', ''push'']
      else if prog = ''twine'' then s = ''upload''
      else if is_in prog [''docker'', ''podman''] then s = ''push''
      else if is_in prog [''gh'', ''glab''] then
        s = ''release'' \<and> is_in s1 [''create'', ''upload'', ''delete'']
      else if is_in prog [''ssh'', ''scp'', ''sftp'', ''rsync''] then True
      else if prog = ''mvn'' then contains_arg (cl_args c) [''deploy'']
      else if prog = ''dotnet'' then s = ''nuget'' \<and> s1 = ''push''
      else if is_in prog infra_clis then True
      else False)"

definition m_widens_permissions :: "unicode \<Rightarrow> cmdline \<Rightarrow> bool" where
  "m_widens_permissions u c =
     is_in (cl_prog c) [''chmod'', ''chown'', ''chgrp'', ''setfacl'', ''icacls'', ''takeown'']"

definition m_changes_machine :: "unicode \<Rightarrow> cmdline \<Rightarrow> bool" where
  "m_changes_machine u c =
     (let prog = cl_prog c; s = sub u c in
      if is_in prog [''crontab'', ''at'', ''batch''] then \<not> has_short_opt c CHR ''l''
      else if prog = ''schtasks'' then True
      else if is_in prog [''npm'', ''pnpm'', ''yarn'', ''bun''] then
        is_in s [''install'', ''add'', ''i'', ''uninstall'', ''remove''] \<and>
        (has_short_opt c CHR ''g'' \<or> has_long_opt c ''global'' \<or> has_long_opt c ''location=global'')
      else if is_in prog [''brew'', ''apt'', ''apt-get'', ''yum'', ''dnf'', ''pacman'', ''apk'',
          ''choco'', ''winget'', ''scoop'', ''port''] then True
      else if is_in prog [''pipx'', ''gem''] then is_in s [''install'', ''uninstall'']
      else if prog = ''cargo'' then is_in s [''install'', ''uninstall'']
      else if prog = ''go'' then s = ''install''
      else if is_in prog [''rustup'', ''nvm'', ''asdf'', ''systemctl'', ''launchctl'', ''sc''] then True
      else False)"

definition m_nested_command :: "unicode \<Rightarrow> cmdline \<Rightarrow> bool" where
  "m_nested_command u c =
     (cl_prog c = ''find'' \<and> contains_arg (cl_args c) [''-exec'', ''-execdir'', ''-ok'', ''-okdir''])"

section \<open>The table and Check\<close>

record rule =
  r_id :: string
  r_reason :: string
  r_match :: "unicode \<Rightarrow> cmdline \<Rightarrow> bool"

definition em_dash :: string where "em_dash = [CHR 0xE2, CHR 0x80, CHR 0x94]"

definition block_rules :: "rule list" where
  "block_rules =
     [\<lparr>r_id = ''privilege-escalation'',
       r_reason = ''runs the command as another user, outside anything the workspace can bound'',
       r_match = m_privilege\<rparr>,
      \<lparr>r_id = ''shell-in-arguments'',
       r_reason = ''an argument names a shell interpreter, which would bring back the shell grammar the engine refuses'',
       r_match = m_shell\<rparr>,
      \<lparr>r_id = ''builds-command-lines'',
       r_reason = ''constructs and runs command lines of its own, which this table cannot inspect'',
       r_match = m_builds_lines\<rparr>,
      \<lparr>r_id = ''raw-device-access'',
       r_reason = ''writes to disks or devices rather than to files'',
       r_match = m_raw_device\<rparr>,
      \<lparr>r_id = ''git-internals'',
       r_reason = ''modifies git's own object store, which corrupts history rather than changing it'',
       r_match = m_git_internals\<rparr>,
      \<lparr>r_id = ''delete-workspace-root'',
       r_reason = ''deletes the workspace itself'',
       r_match = m_delete_root\<rparr>,
      \<lparr>r_id = ''delete-outside-workspace'',
       r_reason = ''deletes a path outside the workspace'',
       r_match = m_delete_outside\<rparr>]"

definition disclose_rules :: "rule list" where
  "disclose_rules =
     [\<lparr>r_id = ''reads-credential-store'',
       r_reason = ''reads where this machine keeps its secrets '' @ em_dash @
         '' environment variables and the keychain are the store itself, not a report about the machine'',
       r_match = m_credential_store\<rparr>,
      \<lparr>r_id = ''touches-outside-workspace'',
       r_reason = ''names a path outside the workspace, which is the boundary the caller was given'',
       r_match = m_touches_outside\<rparr>]"

definition confirm_rules :: "rule list" where
  "confirm_rules =
     [\<lparr>r_id = ''reads-machine-state'',
       r_reason = ''reports the state of this whole machine rather than of the workspace, and command lines routinely carry credentials'',
       r_match = m_machine_state\<rparr>,
      \<lparr>r_id = ''recursive-delete'',
       r_reason = ''removes a directory and everything under it'',
       r_match = m_recursive_delete\<rparr>,
      \<lparr>r_id = ''discards-uncommitted-work'',
       r_reason = ''throws away uncommitted changes, which no backup in this tool can restore'',
       r_match = m_discards_work\<rparr>,
      \<lparr>r_id = ''rewrites-published-history'',
       r_reason = ''force-pushes, which overwrites history other people may already have'',
       r_match = m_rewrites_history\<rparr>,
      \<lparr>r_id = ''leaves-this-machine'',
       r_reason = ''sends code or artifacts to a remote, which cannot be undone locally'',
       r_match = m_leaves_machine\<rparr>,
      \<lparr>r_id = ''widens-permissions'',
       r_reason = ''changes file permissions or ownership'',
       r_match = m_widens_permissions\<rparr>,
      \<lparr>r_id = ''changes-the-machine'',
       r_reason = ''installs software, or schedules work that outlives this session, outside this workspace'',
       r_match = m_changes_machine\<rparr>,
      \<lparr>r_id = ''runs-a-nested-command'',
       r_reason = ''runs another command per match, which this table judges only as a whole'',
       r_match = m_nested_command\<rparr>]"

definition tier_match :: "unicode \<Rightarrow> cmdline \<Rightarrow> verdict \<times> rule list \<Rightarrow> decision option" where
  "tier_match u c tier =
     first_some (\<lambda>r. if r_match r u c
         then Some \<lparr>d_verdict = fst tier, d_rule = r_id r, d_reason = r_reason r\<rparr> else None) (snd tier)"

definition tiers :: "(verdict \<times> rule list) list" where
  "tiers = [(Block, block_rules), (Disclose, disclose_rules), (Confirm, confirm_rules)]"

definition allow_decision :: decision where
  "allow_decision = \<lparr>d_verdict = Allow, d_rule = [], d_reason = []\<rparr>"

definition check :: "unicode \<Rightarrow> request \<Rightarrow> decision" where
  "check u req =
     (let c = parse_cmd u req in
      if cl_prog c = [] then allow_decision
      else (case first_some (tier_match u c) tiers of
          Some d \<Rightarrow> d
        | None \<Rightarrow> allow_decision))"

section \<open>What Check answers\<close>

definition tier_hits :: "unicode \<Rightarrow> cmdline \<Rightarrow> rule list \<Rightarrow> bool" where
  "tier_hits u c rs = list_ex (\<lambda>r. r_match r u c) rs"

lemma tier_match_None: "tier_match u c (v, rs) = None \<longleftrightarrow> \<not> tier_hits u c rs"
  by (auto simp: tier_match_def tier_hits_def list_ex_iff split: if_splits)

lemma tier_match_Some:
  "tier_hits u c rs \<Longrightarrow> \<exists>d. tier_match u c (v, rs) = Some d"
  using tier_match_None [of u c v rs] by (cases "tier_match u c (v, rs)") auto

lemma tier_match_first:
  assumes "tier_match u c (v, rs) = Some d"
  obtains ys r zs where "rs = ys @ r # zs" "r_match r u c" "\<not> tier_hits u c ys"
    "d = \<lparr>d_verdict = v, d_rule = r_id r, d_reason = r_reason r\<rparr>"
proof -
  obtain ys r zs where s: "rs = ys @ r # zs"
    "(if r_match r u c then Some \<lparr>d_verdict = v, d_rule = r_id r, d_reason = r_reason r\<rparr> else None) = Some d"
    "\<forall>z \<in> set ys. (if r_match z u c then Some \<lparr>d_verdict = v, d_rule = r_id z, d_reason = r_reason z\<rparr> else None) = None"
    using first_some_SomeD [OF assms [unfolded tier_match_def fst_conv snd_conv]] by blast
  from s(3) have "\<not> tier_hits u c ys"
    by (auto simp: tier_hits_def list_ex_iff split: if_splits)
  with s(1,2) show ?thesis by (auto intro: that split: if_splits)
qed

lemma tier_match_verdict: "tier_match u c (v, rs) = Some d \<Longrightarrow> d_verdict d = v"
  by (erule tier_match_first) simp

definition first_decision :: "unicode \<Rightarrow> cmdline \<Rightarrow> verdict \<Rightarrow> rule list \<Rightarrow> decision" where
  "first_decision u c v rs = the (tier_match u c (v, rs))"

lemma tier_match_if:
  "tier_match u c (v, rs) = (if tier_hits u c rs then Some (first_decision u c v rs) else None)"
  using tier_match_Some [of u c rs v] tier_match_None [of u c v rs] by (auto simp: first_decision_def)

lemma first_decision_verdict [simp]: "tier_hits u c rs \<Longrightarrow> d_verdict (first_decision u c v rs) = v"
  by (rule tier_match_verdict [of u c v rs]) (simp add: tier_match_if)

lemma check_eq:
  "check u req =
     (let c = parse_cmd u req in
      if cl_prog c = [] then allow_decision
      else if tier_hits u c block_rules then first_decision u c Block block_rules
      else if tier_hits u c disclose_rules then first_decision u c Disclose disclose_rules
      else if tier_hits u c confirm_rules then first_decision u c Confirm confirm_rules
      else allow_decision)"
  by (simp add: check_def tiers_def tier_match_if Let_def)

lemma allow_decision_simps [simp]:
  "d_verdict allow_decision = Allow" "d_rule allow_decision = []" "d_reason allow_decision = []"
  by (simp_all add: allow_decision_def)

lemma check_verdict:
  "d_verdict (check u req) =
     (let c = parse_cmd u req in
      if cl_prog c = [] then Allow
      else if tier_hits u c block_rules then Block
      else if tier_hits u c disclose_rules then Disclose
      else if tier_hits u c confirm_rules then Confirm
      else Allow)"
  by (simp add: check_eq Let_def)

lemma first_decision_first:
  assumes "tier_hits u c rs"
  shows "\<exists>ys r zs. rs = ys @ r # zs \<and> r_match r u c \<and> \<not> tier_hits u c ys \<and>
    first_decision u c v rs = \<lparr>d_verdict = v, d_rule = r_id r, d_reason = r_reason r\<rparr>"
proof -
  from assms have "tier_match u c (v, rs) = Some (first_decision u c v rs)"
    by (simp add: tier_match_if)
  then show ?thesis by (rule tier_match_first) blast
qed

section \<open>Severity\<close>

text \<open>How strict an answer is, from the comments of the verdicts, least first.\<close>

instantiation verdict :: linorder
begin

definition severity :: "verdict \<Rightarrow> nat" where
  "severity v = (case v of Allow \<Rightarrow> 0 | Confirm \<Rightarrow> 1 | Disclose \<Rightarrow> 2 | Block \<Rightarrow> 3)"

definition less_eq_verdict :: "verdict \<Rightarrow> verdict \<Rightarrow> bool" where
  "less_eq_verdict v w = (severity v \<le> severity w)"

definition less_verdict :: "verdict \<Rightarrow> verdict \<Rightarrow> bool" where
  "less_verdict v w = (severity v < severity w)"

instance
  by standard (auto simp: less_eq_verdict_def less_verdict_def severity_def split: verdict.splits)

end

text \<open>
  The table as the documentation lists it: every rule under its identifier, with the verdict
  it asks for.
\<close>

definition rule_catalogue :: "(string \<times> verdict \<times> (unicode \<Rightarrow> cmdline \<Rightarrow> bool)) list" where
  "rule_catalogue =
     [(''privilege-escalation'', Block, m_privilege), (''shell-in-arguments'', Block, m_shell),
      (''builds-command-lines'', Block, m_builds_lines), (''raw-device-access'', Block, m_raw_device),
      (''git-internals'', Block, m_git_internals), (''delete-workspace-root'', Block, m_delete_root),
      (''delete-outside-workspace'', Block, m_delete_outside),
      (''reads-machine-state'', Confirm, m_machine_state), (''recursive-delete'', Confirm, m_recursive_delete),
      (''discards-uncommitted-work'', Confirm, m_discards_work),
      (''rewrites-published-history'', Confirm, m_rewrites_history),
      (''leaves-this-machine'', Confirm, m_leaves_machine), (''widens-permissions'', Confirm, m_widens_permissions),
      (''changes-the-machine'', Confirm, m_changes_machine), (''runs-a-nested-command'', Confirm, m_nested_command),
      (''reads-credential-store'', Disclose, m_credential_store), (''touches-outside-workspace'', Disclose, m_touches_outside)]"

definition catalogue_hits :: "unicode \<Rightarrow> cmdline \<Rightarrow> (string \<times> verdict) list" where
  "catalogue_hits u c =
     (if cl_prog c = [] then [] else map (\<lambda>(i, v, m). (i, v)) (filter (\<lambda>(i, v, m). m u c) rule_catalogue))"

definition tier_ids :: "unicode \<Rightarrow> cmdline \<Rightarrow> verdict \<Rightarrow> rule list \<Rightarrow> (string \<times> verdict) list" where
  "tier_ids u c v rs = map (\<lambda>r. (r_id r, v)) (filter (\<lambda>r. r_match r u c) rs)"

lemma tier_ids_empty: "tier_ids u c v rs = [] \<longleftrightarrow> \<not> tier_hits u c rs"
  by (auto simp: tier_ids_def tier_hits_def filter_empty_conv list_ex_iff)

lemma tier_ids_verdict: "set (map snd (tier_ids u c v rs)) = (if tier_hits u c rs then {v} else {})"
  by (auto simp: tier_ids_def tier_hits_def list_ex_iff)

lemma tier_ids_filter: "filter (\<lambda>h. snd h = w) (tier_ids u c v rs) = (if v = w then tier_ids u c v rs else [])"
  by (auto simp: tier_ids_def filter_empty_conv)

lemma first_decision_id:
  assumes "tier_hits u c rs"
  shows "d_rule (first_decision u c v rs) = fst (hd (tier_ids u c v rs))"
proof -
  from assms have "tier_match u c (v, rs) = Some (first_decision u c v rs)" by (simp add: tier_match_if)
  then show ?thesis
  proof (rule tier_match_first)
    fix ys r zs
    assume "rs = ys @ r # zs" "r_match r u c" "\<not> tier_hits u c ys"
      "first_decision u c v rs = \<lparr>d_verdict = v, d_rule = r_id r, d_reason = r_reason r\<rparr>"
    then show ?thesis using tier_ids_empty [of u c v ys] by (simp add: tier_ids_def)
  qed
qed

lemma catalogue_tiers:
  "catalogue_hits u c =
     (if cl_prog c = [] then []
      else tier_ids u c Block block_rules @ tier_ids u c Confirm confirm_rules @ tier_ids u c Disclose disclose_rules)"
proof -
  have "map (\<lambda>r. (r_id r, Block, r_match r)) block_rules @ map (\<lambda>r. (r_id r, Confirm, r_match r)) confirm_rules
      @ map (\<lambda>r. (r_id r, Disclose, r_match r)) disclose_rules = rule_catalogue"
    by (simp add: block_rules_def confirm_rules_def disclose_rules_def rule_catalogue_def)
  then show ?thesis
    by (simp add: catalogue_hits_def tier_ids_def filter_map comp_def flip: \<open>_ = rule_catalogue\<close>)
qed

text \<open>
  C13. Check answers with the most serious reason to stop. Of the seventeen rules, each listed
  with its identifier and its verdict, the answer carries the greatest verdict among the rules
  that match, in the order Allow, Confirm, Disclose, Block, and the identifier of the first
  matching rule of that verdict. It is Allow, with no rule, when none matches or the argv has
  no program name.
\<close>

theorem check_most_severe:
  "let hits = catalogue_hits u (parse_cmd u req); d = check u req
   in d_verdict d = Max (set (Allow # map snd hits)) \<and>
      d_rule d = (case filter (\<lambda>h. snd h = d_verdict d) hits of [] \<Rightarrow> [] | h # _ \<Rightarrow> fst h)"
proof -
  let ?c = "parse_cmd u req"
  have mx: "max Allow v = v" "max v Allow = v" "max Block v = Block" "max v Block = Block"
    "max Confirm Disclose = Disclose" "max Disclose Confirm = Disclose" for v
    by (cases v; simp add: max_def less_eq_verdict_def severity_def)+
  have hd: "(case xs of [] \<Rightarrow> [] | h # _ \<Rightarrow> fst h) = fst (hd xs)" if "xs \<noteq> []" for xs :: "(string \<times> verdict) list"
    using that by (cases xs) simp_all
  have v: "set (map snd (catalogue_hits u ?c)) = (if cl_prog ?c = [] then {} else
      (if tier_hits u ?c block_rules then {Block} else {}) \<union> (if tier_hits u ?c confirm_rules then {Confirm} else {})
      \<union> (if tier_hits u ?c disclose_rules then {Disclose} else {}))"
    by (simp add: catalogue_tiers tier_ids_verdict [simplified] image_Un)
  have "d_verdict (check u req) = Max (set (Allow # map snd (catalogue_hits u ?c)))"
    using v by (simp add: check_verdict Let_def mx)
  moreover have "d_rule (check u req)
      = (case filter (\<lambda>h. snd h = d_verdict (check u req)) (catalogue_hits u ?c) of [] \<Rightarrow> [] | h # _ \<Rightarrow> fst h)"
    by (simp add: check_verdict check_eq catalogue_tiers Let_def tier_ids_filter tier_ids_empty first_decision_id hd)
  ultimately show ?thesis by (simp add: Let_def)
qed

definition req_in :: "string list \<Rightarrow> request" where
  "req_in argv = \<lparr>rq_argv = argv, rq_root = ''/home/u/ws'', rq_dir = []\<rparr>"

section \<open>Bounds of the table\<close>

lemma is_abs_join: "is_abs r \<Longrightarrow> is_abs (join_with [slash] (r # xs))"
  by (cases r; cases xs) (auto simp: is_abs_def)

lemma abs_arg_clean_abs:
  assumes "abs_arg c arg = Some q" and "is_abs (rq_root (cl_req c))"
  shows "clean_abs q"
proof -
  let ?r = "rq_root (cl_req c)"
  have ne: "?r \<noteq> []" using assms(2) by (auto simp: is_abs_def)
  have "is_abs (join_with [slash] [?r, rq_dir (cl_req c), arg])"
    by (rule is_abs_join [OF assms(2)])
  with ne have "is_abs (path_join [?r, rq_dir (cl_req c), arg])"
    by (simp add: path_join_def is_abs_clean)
  then show ?thesis
    using assms(1) ne by (auto simp: abs_arg_def Let_def clean_clean_abs split: if_splits)
qed

lemma outside_workspace_iff:
  assumes "clean_abs (rq_root (cl_req c))" and "rq_root (cl_req c) \<noteq> [slash]"
  shows "outside_workspace c arg \<longleftrightarrow>
    (\<exists>q. abs_arg c arg = Some q \<and> \<not> prefix (segs (rq_root (cl_req c))) (segs q))"
proof (cases "abs_arg c arg")
  case None
  then show ?thesis by (simp add: outside_workspace_def)
next
  case (Some q)
  have "clean_abs q"
    using abs_arg_clean_abs [OF Some] assms(1) by (simp add: clean_abs_def)
  from within_root_iff [OF assms(1) this assms(2)] Some show ?thesis
    by (auto simp: outside_workspace_def)
qed

lemma disclose_rules_hit:
  "tier_hits u c disclose_rules \<longleftrightarrow> m_credential_store u c \<or> m_touches_outside u c"
  by (simp add: tier_hits_def disclose_rules_def)

lemma block_rules_hit:
  "tier_hits u c block_rules \<longleftrightarrow> m_privilege u c \<or> m_shell u c \<or> m_builds_lines u c \<or>
     m_raw_device u c \<or> m_git_internals u c \<or> m_delete_root u c \<or> m_delete_outside u c"
  by (simp add: tier_hits_def block_rules_def)

lemma confirm_rules_hit:
  "tier_hits u c confirm_rules \<longleftrightarrow> m_machine_state u c \<or> m_recursive_delete u c \<or> m_discards_work u c \<or>
     m_rewrites_history u c \<or> m_leaves_machine u c \<or> m_widens_permissions u c \<or>
     m_changes_machine u c \<or> m_nested_command u c"
  by (simp add: tier_hits_def confirm_rules_def)

lemma parse_cmd_simps [simp]:
  "cl_req (parse_cmd u req) = req"
  "cl_argv (parse_cmd u req) = rq_argv req"
  "cl_args (parse_cmd u req) = tl (rq_argv req)"
  by (simp_all add: parse_cmd_def split: list.splits)

text \<open>
  C14. The boundary promise: a command that names a path outside the workspace is never
  allowed silently nor left to a rung-dependent confirmation. If the segments of the
  workspace root do not begin those of the cleaned target, the verdict is Block or
  Disclose, whatever the program is, with one exception that is the code's: a program name
  that normalises to nothing, as \<open>./.exe\<close> does, is allowed before any rule is asked.
\<close>

theorem outside_never_silent:
  assumes "clean_abs (rq_root req)" and "rq_root req \<noteq> [slash]"
    and "a \<in> set (path_args (parse_cmd u req))"
    and "abs_arg (parse_cmd u req) a = Some q"
    and "\<not> prefix (segs (rq_root req)) (segs q)"
  shows "if cl_prog (parse_cmd u req) = [] then d_verdict (check u req) = Allow
    else d_verdict (check u req) \<in> {Block, Disclose}"
proof -
  let ?c = "parse_cmd u req"
  have "outside_workspace ?c a"
    using assms outside_workspace_iff [of ?c a] by auto
  with assms(3) have "tier_hits u ?c disclose_rules"
    by (auto simp: disclose_rules_hit m_touches_outside_def list_ex_iff)
  then show ?thesis
    by (simp add: check_verdict Let_def)
qed

theorem outside_never_silent_witness:
  "d_verdict (check plain_unicode (req_in [''cat'', ''src/../../other/x''])) \<in> {Block, Disclose}"
proof -
  have "clean_abs (rq_root (req_in [''cat'', ''src/../../other/x'']))"
    by (simp add: clean_abs_def is_abs_def req_in_def) code_simp
  moreover have "rq_root (req_in [''cat'', ''src/../../other/x'']) \<noteq> [slash]"
    "''src/../../other/x'' \<in> set (path_args (parse_cmd plain_unicode (req_in [''cat'', ''src/../../other/x''])))"
    "abs_arg (parse_cmd plain_unicode (req_in [''cat'', ''src/../../other/x''])) ''src/../../other/x'' = Some ''/home/u/other/x''"
    "\<not> prefix (segs (rq_root (req_in [''cat'', ''src/../../other/x'']))) (segs ''/home/u/other/x'')"
    by code_simp+
  ultimately have "if cl_prog (parse_cmd plain_unicode (req_in [''cat'', ''src/../../other/x''])) = []
      then d_verdict (check plain_unicode (req_in [''cat'', ''src/../../other/x''])) = Allow
      else d_verdict (check plain_unicode (req_in [''cat'', ''src/../../other/x''])) \<in> {Block, Disclose}"
    by (rule outside_never_silent)
  moreover have "cl_prog (parse_cmd plain_unicode (req_in [''cat'', ''src/../../other/x''])) \<noteq> []" by code_simp
  ultimately show ?thesis by (simp only: if_False)
qed

lemma normalize_prog_empty:
  assumes "normalize_prog u a = []"
  shows "program_name u a = []"
proof -
  define base where "base = to_lower u (path_base (slashed (trim_space a)))"
  from assms have "base = [] \<or> base = ''.exe''"
    by (auto simp: normalize_prog_def base_def [symmetric] trim_suffix_def bytes_simps suffix_def split: if_splits)
  moreover have "program_name u a = (let ext = path_ext base in
     if ext = ''.exe'' \<or> ext = ''.cmd'' \<or> ext = ''.bat'' then take (length base - length ext) base else base)"
    by (simp add: program_name_def base_def slashed_def Let_def)
  moreover have "path_ext ''.exe'' = ''.exe''" by code_simp
  ultimately show ?thesis by (auto simp: Let_def path_ext_def)
qed

section \<open>Spelling a shell\<close>

text \<open>
  A program written as one of the given names: after any directory, with slashes of either
  kind, in any letter case, and with or without a suffix that Windows runs.
\<close>

definition run_suffixes :: "string list" where "run_suffixes = [[], ''.exe'', ''.cmd'', ''.bat'']"

definition written_as :: "string list \<Rightarrow> string \<Rightarrow> bool" where
  "written_as names arg \<longleftrightarrow>
     (\<exists>dir word ext. arg = dir @ word @ ext \<and> (dir = [] \<or> last dir = slash \<or> last dir = backslash)
        \<and> map lower_byte word \<in> set names \<and> map lower_byte ext \<in> set run_suffixes)"

definition word_bytes :: string where "word_bytes = ''abcdefghijklmnopqrstuvwxyz.''"

definition wordy :: "string \<Rightarrow> bool" where
  "wordy v \<longleftrightarrow> v \<noteq> [] \<and> set (map lower_byte v) \<subseteq> set word_bytes"

lemma word_byte:
  assumes "lower_byte c \<in> set word_bytes"
  shows "ascii_byte c" and "c \<noteq> slash" and "c \<noteq> backslash"
    and "c \<notin> hd ` set space_encodings" and "c \<notin> last ` set space_encodings"
proof -
  show "ascii_byte c"
  proof (rule ccontr)
    assume n: "\<not> ascii_byte c"
    then have "lower_byte c = c" by (simp add: lower_byte_def ascii_byte_def)
    with assms n show False by (auto simp: word_bytes_def ascii_byte_def)
  qed
  have "lower_byte slash \<notin> set word_bytes" "lower_byte backslash \<notin> set word_bytes" by code_simp+
  with assms show "c \<noteq> slash" "c \<noteq> backslash" by auto
  have "\<forall>d \<in> set [CHR 0x09, CHR 0x0A, CHR 0x0B, CHR 0x0C, CHR 0x0D, CHR 0x20, CHR 0xC2, CHR 0xE1, CHR 0xE2, CHR 0xE3,
      CHR 0x85, CHR 0xA0, CHR 0x80, CHR 0x81, CHR 0x82, CHR 0x83, CHR 0x84, CHR 0x86, CHR 0x87, CHR 0x88, CHR 0x89,
      CHR 0x8A, CHR 0xA8, CHR 0xA9, CHR 0xAF, CHR 0x9F]. c \<noteq> d"
    using assms by (auto simp: lower_byte_def word_bytes_def)
  then show "c \<notin> hd ` set space_encodings" "c \<notin> last ` set space_encodings"
    by (auto simp: space_encodings_def)
qed

lemma space_not_slash: "p \<in> set space_encodings \<Longrightarrow> p \<noteq> [] \<and> slash \<notin> set p \<and> backslash \<notin> set p"
proof -
  have "list_all (\<lambda>p. p \<noteq> [] \<and> slash \<notin> set p \<and> backslash \<notin> set p) space_encodings" by code_simp
  then show "p \<in> set space_encodings \<Longrightarrow> ?thesis" by (simp add: list_all_iff)
qed

definition dir_like :: "string \<Rightarrow> bool" where
  "dir_like d \<longleftrightarrow> d = [] \<or> last d = slash \<or> last d = backslash"

lemma strip_dir:
  assumes "dir_like d" and "wordy v"
  shows "\<exists>d'. strip_prefixes space_encodings n (d @ v) = d' @ v \<and> dir_like d'"
  using assms(1)
proof (induction n arbitrary: d)
  case (Suc n)
  show ?case
  proof (cases "List.find (has_prefix (d @ v)) space_encodings")
    case None
    with Suc.prems show ?thesis by auto
  next
    case (Some p)
    then have p: "p \<in> set space_encodings" "prefix p (d @ v)"
      by (auto simp: find_Some_iff has_prefix_iff)
    obtain c p' where pc: "p = c # p'" using space_not_slash [OF p(1)] by (cases p) auto
    have "d \<noteq> []"
    proof
      assume "d = []"
      with p(2) pc assms(2) have "c \<in> set v" by (cases v) auto
      then have "c \<notin> hd ` set space_encodings" using assms(2) by (intro word_byte) (auto simp: wordy_def)
      with p(1) pc show False by force
    qed
    then have l: "last d \<in> {slash, backslash}" using Suc.prems by (auto simp: dir_like_def)
    have "\<not> prefix d p"
      using space_not_slash [OF p(1)] l \<open>d \<noteq> []\<close> by (metis insert_iff empty_iff last_in_set set_mono_prefix subsetD)
    then obtain r where r: "d = p @ r" "r \<noteq> []"
      using p(2) by (metis append_Nil2 prefix_append prefix_def prefix_same_cases)
    then have "dir_like r" using Suc.prems by (simp add: dir_like_def)
    with Suc.IH [of r] Some r(1) show ?thesis by simp
  qed
qed auto

lemma trim_dir:
  assumes "dir_like d" and "wordy v"
  shows "\<exists>d'. trim_space (d @ v) = d' @ v \<and> dir_like d'"
proof -
  obtain d' where d': "strip_prefixes space_encodings (length (d @ v)) (d @ v) = d' @ v" "dir_like d'"
    using strip_dir [OF assms] by blast
  obtain c v' where v: "rev v = c # v'" using assms(2) by (cases "rev v") (auto simp: wordy_def)
  then have "c \<in> set v" by (metis list.set_intros(1) set_rev)
  then have "c \<notin> last ` set space_encodings" using assms(2) by (intro word_byte) (auto simp: wordy_def)
  then have "\<not> has_prefix (rev (d' @ v)) (rev p)" if "p \<in> set space_encodings" for p
    using that v space_not_slash [OF that] by (cases p rule: rev_cases) (force simp: has_prefix_iff image_iff)+
  then have "List.find (has_prefix (rev (d' @ v))) (map rev space_encodings) = None"
    by (auto simp: find_None_iff)
  then have "strip_prefixes (map rev space_encodings) n (rev (d' @ v)) = rev (d' @ v)" for n
    by (cases n) (simp_all del: rev_append)
  with d' show ?thesis by (auto simp: trim_space_def Let_def)
qed

lemma split_on_length: "length (split_on c t) < length (split_on c (s @ c # t))"
  by (induction s) (auto split: list.splits)

lemma split_on_snoc: "\<exists>xs. split_on c (s @ c # t) = xs @ split_on c t"
proof (induction s)
  case (Cons a s)
  then obtain xs where xs: "split_on c (s @ c # t) = xs @ split_on c t" by blast
  show ?case
  proof (cases "a = c")
    case False
    show ?thesis
    proof (cases xs)
      case Nil
      then show ?thesis using False xs split_on_length [where c = c and s = s and t = t] by simp
    next
      case (Cons x xs')
      then show ?thesis using False xs by (auto intro: exI [where x = "(a # x) # xs'"])
    qed
  qed (use xs in auto)
qed auto

lemma last_split: "last (split_on c (s @ c # t)) = last (split_on c t)"
  using split_on_snoc [of c s t] by auto

lemma path_base_dir:
  assumes "dir_like d" and "wordy v"
  shows "path_base (slashed (d @ v)) = v"
proof -
  have v: "slash \<notin> set v" "backslash \<notin> set v" "v \<noteq> []"
    using assms(2) word_byte(2,3) by (fastforce simp: wordy_def)+
  then have sv: "slashed v = v" by (auto simp: slashed_def replace_byte_def intro: map_idI)
  obtain c v' where r: "rev v = c # v'" using v(3) by (cases "rev v") auto
  then have "c \<noteq> slash" using v(1) by (metis list.set_intros(1) set_rev)
  then have st: "strip_slashes (rev (x @ v)) = rev (x @ v)" for x using r by simp
  have app: "slashed (d @ v) = slashed d @ v" using sv by (simp add: slashed_def replace_byte_def)
  have "last (split_on slash (slashed d @ v)) = v"
  proof (cases d rule: rev_cases)
    case Nil
    then show ?thesis using v(1) by (simp add: slashed_def replace_byte_def split_on_no_sep)
  next
    case (snoc d0 x)
    then have "slashed d = slashed d0 @ [slash]" using assms(1) by (auto simp: dir_like_def slashed_def replace_byte_def)
    then show ?thesis using v(1) last_split [of slash "slashed d0" v] by (simp add: split_on_no_sep)
  qed
  then show ?thesis using v(3) by (simp add: app path_base_def st Let_def del: rev_append)
qed

lemma path_ext_none:
  assumes "CHR ''.'' \<notin> set s" and "slash \<notin> set s"
  shows "path_ext s = []"
proof -
  have e: "dropWhile (\<lambda>c. c \<noteq> CHR ''.'' \<and> c \<noteq> slash) (rev s) = []"
    unfolding dropWhile_eq_Nil_conv using assms by auto
  show ?thesis unfolding path_ext_def Let_def e by simp
qed

lemma program_name_written:
  assumes "written_as names arg" and "list_all (\<lambda>n. n \<noteq> [] \<and> set n \<subseteq> set (butlast word_bytes)) names"
  shows "program_name u arg \<in> set names"
proof -
  from assms(1) obtain d w e where a: "arg = d @ w @ e" "dir_like d" "map lower_byte w \<in> set names"
    "map lower_byte e \<in> set run_suffixes"
    unfolding written_as_def dir_like_def by blast
  let ?n = "map lower_byte w" let ?e = "map lower_byte e"
  have n: "?n \<noteq> []" "set ?n \<subseteq> set (butlast word_bytes)"
    using assms(2) [unfolded list_all_iff, THEN bspec, OF a(3)] by blast+
  have "CHR ''.'' \<notin> set (butlast word_bytes)" "slash \<notin> set (butlast word_bytes)" by code_simp+
  with n have nd: "CHR ''.'' \<notin> set ?n" "slash \<notin> set ?n" by blast+
  have "x \<in> set run_suffixes \<Longrightarrow> set x \<subseteq> set word_bytes" for x by (auto simp: word_bytes_def run_suffixes_def)
  then have "set ?e \<subseteq> set word_bytes" using a(4) .
  moreover have sub: "set x \<subseteq> set (butlast y) \<Longrightarrow> set x \<subseteq> set y" for x y :: string by (auto dest: in_set_butlastD)
  moreover have "set ?n \<subseteq> set word_bytes" by (rule sub [OF n(2)])
  ultimately have v: "wordy (w @ e)" using n(1) by (auto simp: wordy_def)
  obtain d' where t: "trim_space arg = d' @ w @ e" "dir_like d'" using trim_dir [OF a(2) v] a(1) by auto
  have "ascii (w @ e)" using v word_byte(1) by (force simp: ascii_def list_all_iff wordy_def)
  then have base: "to_lower u (path_base (replace_byte backslash slash (trim_space arg))) = ?n @ ?e"
    using path_base_dir [OF t(2) v] by (simp add: t(1) to_lower_def slashed_def)
  have "path_ext ?n = []" by (rule path_ext_none [OF nd])
  then have "(let ext = path_ext (?n @ ?e) in if ext = ''.exe'' \<or> ext = ''.cmd'' \<or> ext = ''.bat''
      then take (length (?n @ ?e) - length ext) (?n @ ?e) else ?n @ ?e) = ?n"
    using a(4) unfolding run_suffixes_def list.set by (elim insertE emptyE) (simp_all add: path_ext_def Let_def)
  then show ?thesis using a(3) unfolding program_name_def base Let_def by (simp only:)
qed

lemma spelled_shell_blocked:
  assumes "spells_a_shell u (rq_argv req)"
  shows "d_verdict (check u req) = Block"
proof -
  let ?c = "parse_cmd u req"
  obtain prog args where argv: "rq_argv req = prog # args"
    using assms by (cases "rq_argv req") auto
  have "program_name u prog \<noteq> []"
    using assms argv by (auto simp: is_shell_interpreter_def shell_interpreters_def exec_wrappers_def split: if_splits)
  then have "cl_prog ?c \<noteq> []"
    using normalize_prog_empty by (auto simp: parse_cmd_def argv)
  moreover have "tier_hits u ?c block_rules"
    using assms by (simp add: block_rules_hit m_shell_def)
  ultimately show ?thesis by (simp add: check_verdict Let_def)
qed

text \<open>
  C21. No shell by spelling. An argv is blocked if its program is written as one of the
  fourteen shells below, or is written as one of the eighteen programs that run another one
  and some argument is written as a shell: after any directory, with slashes of either kind,
  in any letter case, and with or without the suffix \<open>.exe\<close>, \<open>.cmd\<close> or \<open>.bat\<close>.
\<close>

theorem shells_are_blocked:
  assumes "rq_argv req = prog # args"
    and "shells = [''ash'', ''bash'', ''busybox'', ''cmd'', ''command'', ''csh'', ''dash'', ''fish'', ''ksh'',
      ''powershell'', ''pwsh'', ''sh'', ''tcsh'', ''zsh'']"
    and "wrappers = [''env'', ''timeout'', ''nohup'', ''nice'', ''ionice'', ''setsid'', ''stdbuf'', ''script'',
      ''watch'', ''time'', ''chroot'', ''unshare'', ''flock'', ''ssh'', ''docker'', ''podman'', ''kubectl'', ''find'']"
    and "written_as shells prog \<or> written_as wrappers prog \<and> list_ex (written_as shells) args"
  shows "d_verdict (check u req) = Block"
proof (rule spelled_shell_blocked)
  have sh: "List.member shell_interpreters (program_name u a)" if "written_as shells a" for a
    using program_name_written [OF that] unfolding assms(2) shell_interpreters_def by (simp add: word_bytes_def)
  have "List.member exec_wrappers (program_name u a)" if "written_as wrappers a" for a
    using program_name_written [OF that] unfolding assms(3) exec_wrappers_def by (simp add: word_bytes_def)
  with sh assms(4) show "spells_a_shell u (rq_argv req)"
    unfolding spells_a_shell_iff assms(1) is_shell_interpreter_def by (auto simp: list_ex_iff)
qed

theorem shells_are_blocked_witness:
  "d_verdict (check plain_unicode (req_in [''C:'' @ [backslash] @ ''TimeOut.EXE'', ''5'', ''/bin/BASH.exe''])) = Block"
proof -
  have "written_as names (d @ w @ e)" if "d = [] \<or> last d = slash \<or> last d = backslash"
    "map lower_byte w \<in> set names" "map lower_byte e \<in> set run_suffixes" for names d w e
    unfolding written_as_def using that by blast
  note w = this
  let ?p = "(''C:'' @ [backslash]) @ ''TimeOut'' @ ''.EXE''" let ?a = "''/bin/'' @ ''BASH'' @ ''.exe''"
  have l: "map lower_byte ''TimeOut'' = ''timeout''" "map lower_byte ''.EXE'' = ''.exe''"
    "map lower_byte ''BASH'' = ''bash''" "map lower_byte ''.exe'' = ''.exe''"
    by code_simp+
  have "written_as (''env'' # ''timeout'' # ns) ?p" "written_as (''ash'' # ''bash'' # ms) ?a" for ns ms
    by (rule w; simp add: l run_suffixes_def del: list.map)+
  then have "list_ex (written_as (''ash'' # ''bash'' # ms)) [''5'', ?a]" for ms by (simp del: append_Cons append_Nil)
  moreover have "rq_argv (req_in [?p, ''5'', ?a]) = ?p # [''5'', ?a]" by (simp add: req_in_def)
  ultimately have "d_verdict (check plain_unicode (req_in [?p, ''5'', ?a])) = Block"
    using \<open>\<And>ns. written_as (''env'' # ''timeout'' # ns) ?p\<close>
    by (intro shells_are_blocked [OF _ refl refl]) (assumption, blast)
  then show ?thesis by simp
qed

text \<open>
  C22. Deleting the workspace root, or anything outside the workspace, by a deleting program
  is blocked: no rung and no approval can let it run.
\<close>

theorem deletes_at_the_boundary_are_blocked:
  assumes "clean_abs (rq_root req)" and "rq_root req \<noteq> [slash]"
    and "cl_prog (parse_cmd u req) \<in> set deleters"
    and "a \<in> set (path_args (parse_cmd u req))"
    and "abs_arg (parse_cmd u req) a = Some q"
    and "q = rq_root req \<or> \<not> prefix (segs (rq_root req)) (segs q)"
  shows "d_verdict (check u req) = Block"
proof -
  let ?c = "parse_cmd u req"
  have "outside_workspace ?c a \<or> is_workspace_root ?c a"
    using assms outside_workspace_iff [of ?c a] by (auto simp: is_workspace_root_def)
  with assms(3,4) have "tier_hits u ?c block_rules"
    by (auto simp: block_rules_hit m_delete_root_def m_delete_outside_def list_ex_iff)
  moreover have "cl_prog ?c \<noteq> []"
    using assms(3) by (auto simp: deleters_def)
  ultimately show ?thesis by (simp add: check_verdict Let_def)
qed

theorem deletes_at_the_boundary_are_blocked_witness:
  "d_verdict (check plain_unicode (req_in [''rm'', ''-rf'', ''src/..''])) = Block"
proof (rule deletes_at_the_boundary_are_blocked [where a = "''src/..''" and q = "''/home/u/ws''"])
  show "clean_abs (rq_root (req_in [''rm'', ''-rf'', ''src/..'']))"
    by (simp add: clean_abs_def is_abs_def req_in_def) code_simp
qed code_simp+

definition named_programs :: "string list" where
  "named_programs =
     [''sudo'', ''doas'', ''su'', ''runas'', ''pkexec'', ''gsudo'', ''xargs'', ''parallel'',
      ''fdisk'', ''sfdisk'', ''parted'', ''diskutil'', ''mkswap'', ''wipefs'', ''badblocks'', ''dd'']
     @ mutators @ deleters
     @ [''printenv'', ''security'', ''dscl'', ''defaults'', ''env'',
      ''ps'', ''top'', ''htop'', ''pgrep'', ''pidof'', ''lsof'', ''netstat'', ''ss'',
      ''ioreg'', ''dmesg'', ''journalctl'', ''last'', ''launchctl'', ''systemctl'', ''service'', ''sc'',
      ''git'', ''curl'', ''wget'', ''http'', ''https'', ''xh'', ''nc'', ''ncat'', ''netcat'', ''socat'',
      ''telnet'', ''npm'', ''pnpm'', ''yarn'', ''bun'', ''cargo'', ''poetry'', ''gem'', ''twine'',
      ''docker'', ''podman'', ''gh'', ''glab'', ''ssh'', ''scp'', ''sftp'', ''mvn'', ''dotnet'']
     @ infra_clis
     @ [''setfacl'', ''icacls'', ''takeown'', ''crontab'', ''at'', ''batch'', ''schtasks'',
      ''brew'', ''apt'', ''apt-get'', ''yum'', ''dnf'', ''pacman'', ''apk'', ''choco'', ''winget'',
      ''scoop'', ''port'', ''pipx'', ''go'', ''rustup'', ''nvm'', ''asdf'', ''find'']"

lemma unnamed_tiers:
  assumes "cl_prog c \<notin> set named_programs"
  shows "\<not> m_privilege u c" "\<not> m_builds_lines u c" "\<not> m_git_internals u c" "\<not> m_delete_root u c"
    "\<not> m_delete_outside u c" "\<not> m_credential_store u c" "\<not> m_machine_state u c"
    "\<not> m_recursive_delete u c" "\<not> m_discards_work u c" "\<not> m_rewrites_history u c"
    "\<not> m_leaves_machine u c" "\<not> m_widens_permissions u c" "\<not> m_changes_machine u c"
    "\<not> m_nested_command u c"
    "m_raw_device u c = has_prefix (cl_prog c) ''mkfs''"
  using assms
  by (simp_all add: named_programs_def m_privilege_def m_builds_lines_def m_git_internals_def
      m_delete_root_def m_delete_outside_def m_credential_store_def m_machine_state_def
      m_recursive_delete_def m_discards_work_def m_rewrites_history_def m_leaves_machine_def
      m_widens_permissions_def m_changes_machine_def m_nested_command_def m_raw_device_def
      deleters_def mutators_def infra_clis_def Let_def)

text \<open>
  The table is exact on programs it does not name: such a command (with no shell spelled)
  is allowed if every path argument stays in the workspace and asks for a disclosure
  otherwise, so the boundary rule needs no list of readers.
\<close>

theorem unnamed_program_verdict:
  assumes "cl_prog (parse_cmd u req) \<noteq> []"
    and "cl_prog (parse_cmd u req) \<notin> set named_programs"
    and "\<not> has_prefix (cl_prog (parse_cmd u req)) ''mkfs''"
    and "\<not> spells_a_shell u (rq_argv req)"
  shows "d_verdict (check u req) =
    (if list_ex (outside_workspace (parse_cmd u req)) (path_args (parse_cmd u req)) then Disclose else Allow)"
  using assms unnamed_tiers [OF assms(2), of u]
  by (simp add: check_verdict Let_def block_rules_hit disclose_rules_hit confirm_rules_hit
      m_shell_def m_touches_outside_def)

theorem unnamed_program_verdict_witness:
  "d_verdict (check plain_unicode (req_in [''jq'', ''.'', ''a.json''])) = Allow"
  by (subst unnamed_program_verdict) code_simp+

text \<open>
  What the shallow parse does not see: a global option with a separate value, a command
  behind \<open>env\<close>, a Windows \<open>.cmd\<close> suffix, and a program whose name is only \<open>.exe\<close> are
  allowed although the plain spelling of the same command is gated.
\<close>

theorem shallow_parse_gaps:
  "d_verdict (check u (req_in [''git'', ''push'', ''--force''])) = Confirm \<and>
   d_verdict (check u (req_in [''git'', ''-C'', ''.'', ''push'', ''--force''])) = Allow \<and>
   d_verdict (check u (req_in [''env'', ''git'', ''push'', ''--force''])) = Allow \<and>
   d_verdict (check u (req_in [''npm'', ''publish''])) = Confirm \<and>
   d_verdict (check u (req_in [''npm.cmd'', ''publish''])) = Allow \<and>
   d_verdict (check u (req_in [''cat'', ''/etc/passwd''])) = Disclose \<and>
   d_verdict (check u (req_in [''./.exe'', ''/etc/passwd''])) = Allow"
  by code_simp

end
