(* ===== verification/TimeText.thy ===== *)
theory TimeText
  imports Prelude "HOL-Library.Char_ord" "HOL-Library.List_Lexorder"
begin

text \<open>
  How the local database stores an instant (\<^verbatim>\<open>formatTime\<close> in
  \<^verbatim>\<open>companion/internal/store/store.go\<close>): the text of \<open>time.RFC3339Nano\<close> in UTC, in which the
  fraction's trailing zeros are dropped. Queries that order by such a column compare the
  texts byte by byte. An instant is the number of nanoseconds since 0001-01-01T00:00:00Z.
\<close>

fun digits_of :: "nat \<Rightarrow> int \<Rightarrow> string" where
  "digits_of 0 n = []"
| "digits_of (Suc w) n = digits_of w (n div 10) @ [char_of (48 + n mod 10)]"

text \<open>The civil date of a day number counted from 0001-01-01.\<close>

definition civil :: "int \<Rightarrow> int \<times> int \<times> int" where
  "civil d =
     (let z = d + 306; era = z div 146097; doe = z mod 146097;
          yoe = (doe - doe div 1460 + doe div 36524 - doe div 146096) div 365;
          doy = doe - (365 * yoe + yoe div 4 - yoe div 100);
          mp = (5 * doy + 2) div 153;
          day = doy - (153 * mp + 2) div 5 + 1;
          month = (if mp < 10 then mp + 3 else mp - 9);
          year = yoe + era * 400 + (if month \<le> 2 then 1 else 0)
      in (year, month, day))"

definition strip_zeros :: "string \<Rightarrow> string" where
  "strip_zeros s = rev (dropWhile (\<lambda>c. c = CHR ''0'') (rev s))"

definition frac_text :: "int \<Rightarrow> string" where
  "frac_text ns = (let f = strip_zeros (digits_of 9 ns) in if f = [] then [] else CHR ''.'' # f)"

definition format_time :: "time \<Rightarrow> string" where
  "format_time t =
     (let ns = t mod 1000000000; secs = t div 1000000000;
          day = secs div 86400; sod = secs mod 86400; (y, mo, d) = civil day
      in digits_of 4 y @ ''-'' @ digits_of 2 mo @ ''-'' @ digits_of 2 d @ ''T'' @
         digits_of 2 (sod div 3600) @ '':'' @ digits_of 2 (sod div 60 mod 60) @ '':'' @
         digits_of 2 (sod mod 60) @ frac_text ns @ ''Z'')"

end
