(* ===== verification/CommandGrants.thy ===== *)
theory CommandGrants
  imports TimeText "HOL-Library.AList" "HOL-Library.Multiset"
begin

text \<open>
  The command grants of the local database, \<^verbatim>\<open>companion/internal/store/grants.go\<close>: one row
  per workspace (the table's conflict clause replaces it). A database call may fail; its
  error is an input of the model. Instants are nanoseconds since Go's zero time.
\<close>

datatype store_error = ErrNotFound | ErrMissing string | ErrDB string

record command_grant =
  cg_workspace :: string
  cg_rung :: string
  cg_at :: time

type_synonym grant_table = "(string \<times> command_grant) list"

definition grant_commands ::
  "string option \<Rightarrow> time \<Rightarrow> grant_table \<Rightarrow> string \<Rightarrow> string \<Rightarrow> time \<Rightarrow> grant_table \<times> store_error option" where
  "grant_commands err now db ws rung at =
     (if ws = [] \<or> rung = [] then (db, Some (ErrMissing ''command grant: workspace and rung are required''))
      else let at1 = (if at = 0 then now else at) in
        (case err of
           Some e \<Rightarrow> (db, Some (ErrDB e))
         | None \<Rightarrow> (AList.update ws \<lparr>cg_workspace = ws, cg_rung = rung, cg_at = at1\<rparr> db, None)))"

definition command_grant_for ::
  "string option \<Rightarrow> grant_table \<Rightarrow> string \<Rightarrow> store_error + command_grant" where
  "command_grant_for err db ws =
     (case err of
        Some e \<Rightarrow> Inl (ErrDB e)
      | None \<Rightarrow> (case map_of db ws of None \<Rightarrow> Inl ErrNotFound | Some g \<Rightarrow> Inr g))"

definition revoke_commands ::
  "string option \<Rightarrow> grant_table \<Rightarrow> string \<Rightarrow> grant_table \<times> store_error option" where
  "revoke_commands err db ws =
     (case err of Some e \<Rightarrow> (db, Some (ErrDB e)) | None \<Rightarrow> (AList.delete ws db, None))"

text \<open>
  \<open>ORDER BY granted_at DESC\<close> compares the stored texts; rows with the same text come in no
  specified order.
\<close>

definition list_command_grants ::
  "string option \<Rightarrow> grant_table \<Rightarrow> store_error + command_grant list" where
  "list_command_grants err db =
     (case err of
        Some e \<Rightarrow> Inl (ErrDB e)
      | None \<Rightarrow> Inr (rev (sort_key (\<lambda>g. format_time (cg_at g)) (map snd db))))"

text \<open>The table's invariant: one row per workspace, filed under its own id, with a rung.\<close>

definition grants_inv :: "grant_table \<Rightarrow> bool" where
  "grants_inv db \<longleftrightarrow> distinct (map fst db) \<and>
     list_all (\<lambda>(k, g). cg_workspace g = k \<and> k \<noteq> [] \<and> cg_rung g \<noteq> []) db"

lemma grants_inv_lookup:
  "grants_inv db \<Longrightarrow> command_grant_for err db ws = Inr g \<Longrightarrow> cg_workspace g = ws \<and> ws \<noteq> [] \<and> cg_rung g \<noteq> []"
  by (auto simp: grants_inv_def command_grant_for_def list_all_iff
      split: option.splits dest!: map_of_SomeD)

lemma set_update: "set (AList.update k v al) \<subseteq> insert (k, v) (set al)"
  by (induction al) auto

lemma set_delete: "set (AList.delete k al) \<subseteq> set al"
  by (induction al) auto

lemma grants_inv_grant: "grants_inv db \<Longrightarrow> grants_inv (fst (grant_commands err now db ws rung at))"
  using set_update [of ws _ db]
  by (fastforce simp: grants_inv_def grant_commands_def Let_def list_all_iff distinct_update
      split: option.splits)

lemma grants_inv_revoke: "grants_inv db \<Longrightarrow> grants_inv (fst (revoke_commands err db ws))"
  by (auto simp: grants_inv_def revoke_commands_def list_all_iff distinct_delete
      split: option.splits dest: set_mp [OF set_delete])

definition early_grant :: command_grant where
  "early_grant = \<lparr>cg_workspace = ''a'', cg_rung = ''workspace'', cg_at = 63900000000000000000\<rparr>"

definition late_grant :: command_grant where
  "late_grant = \<lparr>cg_workspace = ''b'', cg_rung = ''workspace'', cg_at = 63900000000500000000\<rparr>"

lemma grant_stamps:
  "format_time (cg_at early_grant) = ''2025-11-29T08:00:00Z''"
  "format_time (cg_at late_grant) = ''2025-11-29T08:00:00.5Z''"
  by code_simp+

text \<open>
  The listing of grants holds exactly the rows of the table, but it is not always newest
  first: a stamp on a whole second sorts after a later stamp with a fraction, because the
  stored text drops trailing zeros and the texts are compared byte by byte.
\<close>

theorem grant_listing_order:
  "(\<forall>rows. \<exists>gs. list_command_grants None rows = Inr gs \<and> mset gs = mset (map snd rows)) \<and>
   cg_at early_grant < cg_at late_grant \<and>
   list_command_grants None [(''a'', early_grant), (''b'', late_grant)] = Inr [early_grant, late_grant]"
proof (intro conjI)
  show "\<forall>rows. \<exists>gs. list_command_grants None rows = Inr gs \<and> mset gs = mset (map snd rows)"
    by (simp add: list_command_grants_def)
  show "cg_at early_grant < cg_at late_grant"
    by (simp add: early_grant_def late_grant_def)
  show "list_command_grants None [(''a'', early_grant), (''b'', late_grant)] = Inr [early_grant, late_grant]"
    by (simp add: list_command_grants_def grant_stamps)
qed

section \<open>What a gate relies on\<close>

text \<open>
  The contract the command gate needs of its grant storage: what a lookup returns after a
  grant and after a revocation.
\<close>

locale grant_store =
  fixes lookup :: "'s \<Rightarrow> string \<Rightarrow> store_error + command_grant"
    and put :: "'s \<Rightarrow> string \<Rightarrow> string \<Rightarrow> time \<Rightarrow> 's"
    and withdraw :: "'s \<Rightarrow> string \<Rightarrow> 's"
  assumes lookup_put_same: "ws \<noteq> [] \<Longrightarrow> rung \<noteq> [] \<Longrightarrow>
      \<exists>g. lookup (put s ws rung at) ws = Inr g \<and> cg_rung g = rung"
    and lookup_put_other: "ws' \<noteq> ws \<Longrightarrow> lookup (put s ws rung at) ws' = lookup s ws'"
    and lookup_withdraw_same: "lookup (withdraw s ws) ws = Inl ErrNotFound"
    and lookup_withdraw_other: "ws' \<noteq> ws \<Longrightarrow> lookup (withdraw s ws) ws' = lookup s ws'"

interpretation db: grant_store "command_grant_for None"
  "\<lambda>db ws rung at. fst (grant_commands None now db ws rung at)"
  "\<lambda>db ws. fst (revoke_commands None db ws)" for now
  by unfold_locales
    (auto simp: command_grant_for_def grant_commands_def revoke_commands_def Let_def
      update_conv' delete_conv')

end
