(* ===== verification/CmdGate.thy ===== *)
theory CmdGate
  imports CmdRule CommandGrants
begin

text \<open>
  The command gate, \<^verbatim>\<open>companion/internal/cmdgate\<close>: the approval rung and the decision
  (\<^verbatim>\<open>cmdgate.go\<close>), and the time-bounded delegations to coding agents (\<^verbatim>\<open>delegation.go\<close>).
  The grant storage is the interface \<open>grant_store\<close>; a gate without one has \<open>None\<close>.
\<close>

section \<open>The rung\<close>

abbreviation strict :: string where "strict \<equiv> ''strict''"
abbreviation workspace_rung :: string where "workspace_rung \<equiv> ''workspace''"
abbreviation open_rung :: string where "open_rung \<equiv> ''open''"

definition default_rung :: string where "default_rung = workspace_rung"

datatype gate_error = ErrConfirmationRequired | ErrUnknownRung string | ErrPersist string
  | ErrNoGrantStorage | ErrStore store_error

definition new_gate :: "string \<Rightarrow> string" where
  "new_gate rung =
     (if rung = strict \<or> rung = workspace_rung \<or> rung = open_rung then rung else default_rung)"

text \<open>
  \<open>SetRung\<close>: \<open>persist\<close> is \<open>None\<close> when nothing stores the rung, otherwise the outcome of
  storing it. The rung in memory has changed even when storing it fails.
\<close>

definition set_rung ::
  "(string \<Rightarrow> string option) option \<Rightarrow> string \<Rightarrow> string \<Rightarrow> bool \<Rightarrow> string \<times> gate_error option" where
  "set_rung persist cur rung confirm =
     (if rung = strict \<or> rung = workspace_rung \<or> (rung = open_rung \<and> confirm) then
        (rung, case persist of
            None \<Rightarrow> None
          | Some f \<Rightarrow> (case f rung of None \<Rightarrow> None | Some e \<Rightarrow> Some (ErrPersist e)))
      else if rung = open_rung then (cur, Some ErrConfirmationRequired)
      else (cur, Some (ErrUnknownRung rung)))"

definition valid_rung :: "string \<Rightarrow> bool" where
  "valid_rung r \<longleftrightarrow> r = strict \<or> r = workspace_rung \<or> r = open_rung"

lemma valid_rung_new: "valid_rung (new_gate r)"
  by (simp add: valid_rung_def new_gate_def default_rung_def)

lemma valid_rung_set: "valid_rung cur \<Longrightarrow> valid_rung (fst (set_rung persist cur r c))"
  by (auto simp: valid_rung_def set_rung_def)

text \<open>A history of settings requests, as (rung, confirm) pairs.\<close>

fun rung_after :: "(string \<Rightarrow> string option) option \<Rightarrow> string \<Rightarrow> (string \<times> bool) list \<Rightarrow> string" where
  "rung_after persist cur [] = cur"
| "rung_after persist cur ((r, c) # reqs) = rung_after persist (fst (set_rung persist cur r c)) reqs"

lemma rung_after_open:
  "rung_after persist cur reqs = open_rung \<Longrightarrow> cur \<noteq> open_rung \<Longrightarrow> (open_rung, True) \<in> set reqs"
  by (induction persist cur reqs rule: rung_after.induct) (auto simp: set_rung_def split: if_splits)

lemma rung_after_valid: "valid_rung cur \<Longrightarrow> valid_rung (rung_after persist cur reqs)"
  by (induction persist cur reqs rule: rung_after.induct) (auto simp: valid_rung_set)

section \<open>Decide\<close>

datatype need = Allowed | Approval | Refused

record gverdict =
  v_need :: need
  v_grant :: bool
  v_rung :: string
  v_rule :: decision

type_synonym grant_lookup = "string \<Rightarrow> store_error + command_grant"

definition granted :: "grant_lookup option \<Rightarrow> string \<Rightarrow> string \<Rightarrow> store_error + bool" where
  "granted grants ws rung =
     (case grants of
        None \<Rightarrow> Inr False
      | Some lookup \<Rightarrow>
          if ws = [] then Inr False
          else (case lookup ws of
              Inl ErrNotFound \<Rightarrow> Inr False
            | Inl e \<Rightarrow> Inl e
            | Inr g \<Rightarrow> Inr (cg_rung g = rung)))"

definition decide ::
  "string \<Rightarrow> grant_lookup option \<Rightarrow> string \<Rightarrow> decision \<Rightarrow> store_error + gverdict" where
  "decide rung grants ws d =
     (let v = (\<lambda>n g. Inr \<lparr>v_need = n, v_grant = g, v_rung = rung, v_rule = d\<rparr>) in
      if d_verdict d = Block then v Refused False
      else if d_verdict d = Disclose then v Approval False
      else if rung = open_rung then v Allowed False
      else if d_verdict d = Confirm then v Approval False
      else if rung = strict then v Approval False
      else (case granted grants ws rung of
          Inl e \<Rightarrow> Inl e
        | Inr True \<Rightarrow> v Allowed False
        | Inr False \<Rightarrow> v Approval True))"

definition gate_grant ::
  "string \<Rightarrow> string option \<Rightarrow> time \<Rightarrow> grant_table option \<Rightarrow> string \<Rightarrow> grant_table option \<times> gate_error option" where
  "gate_grant rung err now grants ws =
     (case grants of
        None \<Rightarrow> (None, Some ErrNoGrantStorage)
      | Some tbl \<Rightarrow>
          let (tbl1, e) = grant_commands err now tbl ws rung now
          in (Some tbl1, map_option ErrStore e))"

definition gate_revoke ::
  "string option \<Rightarrow> grant_table option \<Rightarrow> string \<Rightarrow> grant_table option \<times> gate_error option" where
  "gate_revoke err grants ws =
     (case grants of
        None \<Rightarrow> (None, Some ErrNoGrantStorage)
      | Some tbl \<Rightarrow>
          let (tbl1, e) = revoke_commands err tbl ws
          in (Some tbl1, map_option ErrStore e))"

definition gate_list :: "string option \<Rightarrow> grant_table option \<Rightarrow> store_error + command_grant list" where
  "gate_list err grants =
     (case grants of None \<Rightarrow> Inr [] | Some tbl \<Rightarrow> list_command_grants err tbl)"

lemma decide_block: "d_verdict d = Block \<Longrightarrow>
    decide rung grants ws d = Inr \<lparr>v_need = Refused, v_grant = False, v_rung = rung, v_rule = d\<rparr>"
  by (simp add: decide_def)

lemma decide_disclose: "d_verdict d = Disclose \<Longrightarrow>
    decide rung grants ws d = Inr \<lparr>v_need = Approval, v_grant = False, v_rung = rung, v_rule = d\<rparr>"
  by (simp add: decide_def)

lemma granted_true:
  "granted grants ws rung = Inr True \<longleftrightarrow>
     ws \<noteq> [] \<and> (\<exists>lookup g. grants = Some lookup \<and> lookup ws = Inr g \<and> cg_rung g = rung)"
  by (auto simp: granted_def split: option.splits sum.splits store_error.splits)

text \<open>
  C15. When a command may run unasked: exactly on the open rung for a command the table
  allows or would only confirm, or on a rung other than open and strict for an allowed
  command in a workspace whose stored grant was taken at the very rung in force. A blocked
  command is refused and a disclosure is asked about on every rung and under every grant.
\<close>

theorem decide_runs_unasked_iff:
  "(\<exists>v. decide rung grants ws d = Inr v \<and> v_need v = Allowed) \<longleftrightarrow>
     (rung = open_rung \<and> d_verdict d \<in> {Allow, Confirm}) \<or>
     (rung \<noteq> open_rung \<and> rung \<noteq> strict \<and> d_verdict d = Allow \<and> ws \<noteq> [] \<and>
      (\<exists>lookup g. grants = Some lookup \<and> lookup ws = Inr g \<and> cg_rung g = rung))"
proof (cases "d_verdict d")
  case Allow
  then show ?thesis
    using granted_true [of grants ws rung]
    by (auto simp: decide_def Let_def split: sum.splits bool.splits)
qed (auto simp: decide_def Let_def)

text \<open>
  C17. The open rung is only ever reached by a confirmed request: if the rung in force after
  any sequence of settings requests is open and the Companion did not start there, one of
  the requests asked for open with the confirmation set; and the rung is always one of the
  three, whatever was stored or requested.
\<close>

theorem open_needs_confirmation:
  assumes "rung_after persist (new_gate stored) reqs = open_rung" and "stored \<noteq> open_rung"
  shows "(open_rung, True) \<in> set reqs"
  using rung_after_open [OF assms(1)] assms(2)
  by (simp add: new_gate_def default_rung_def split: if_splits)

theorem open_needs_confirmation_witness:
  "(open_rung, True) \<in> set [(strict, False), (open_rung, False), (open_rung, True)]"
  by (rule open_needs_confirmation [where persist = None and stored = "''bogus''"]) code_simp+

section \<open>The gate over its grant storage\<close>

context grant_store
begin

lemma ask_then_run:
  assumes "d_verdict d = Allow" and "ws \<noteq> []" and "rung \<noteq> []"
  shows "\<exists>v. decide rung (Some (lookup (put s ws rung at))) ws d = Inr v \<and>
    (v_need v = Allowed \<longleftrightarrow> rung \<noteq> strict) \<and> v_need v \<noteq> Refused"
proof -
  obtain g where g: "lookup (put s ws rung at) ws = Inr g" "cg_rung g = rung"
    using lookup_put_same [OF assms(2,3)] by blast
  with assms show ?thesis by (simp add: decide_def granted_def)
qed

lemma withdrawn_asks_again:
  assumes "d_verdict d = Allow"
  shows "\<exists>v. decide workspace_rung (Some (lookup (withdraw s ws))) ws d = Inr v \<and>
    v_need v = Approval \<and> v_grant v"
  using assms by (simp add: decide_def granted_def lookup_withdraw_same)

lemma other_rung_asks_again:
  assumes "d_verdict d = Allow" and "ws \<noteq> []" and "taken \<noteq> []" and "taken \<noteq> workspace_rung"
  shows "\<exists>v. decide workspace_rung (Some (lookup (put s ws taken at))) ws d = Inr v \<and>
    v_need v = Approval \<and> v_grant v"
proof -
  obtain g where g: "lookup (put s ws taken at) ws = Inr g" "cg_rung g = taken"
    using lookup_put_same [OF assms(2,3)] by blast
  with assms show ?thesis by (simp add: decide_def granted_def)
qed

lemma grant_is_local:
  assumes "ws' \<noteq> ws"
  shows "decide rung (Some (lookup (put s ws taken at))) ws' d = decide rung (Some (lookup s)) ws' d"
  using assms by (simp add: decide_def granted_def lookup_put_other)

end

text \<open>
  C23. The life of a workspace grant over the database: a grant taken at the workspace rung
  lets the next allowed command run; withdrawing it makes the very next one ask the
  one-time question again; a grant taken at another rung does not carry over; and a grant
  for one workspace changes no answer for another.
\<close>

theorem grant_lifecycle:
  assumes "d_verdict d = Allow" and "ws \<noteq> []" and "ws' \<noteq> ws" and "taken \<noteq> []" and "taken \<noteq> workspace_rung"
  shows "(\<exists>v. decide workspace_rung
              (Some (command_grant_for None (fst (grant_commands None now tbl ws workspace_rung at)))) ws d = Inr v
            \<and> v_need v = Allowed) \<and>
    (\<exists>v. decide workspace_rung
              (Some (command_grant_for None (fst (revoke_commands None tbl ws)))) ws d = Inr v
            \<and> v_need v = Approval \<and> v_grant v) \<and>
    (\<exists>v. decide workspace_rung
              (Some (command_grant_for None (fst (grant_commands None now tbl ws taken at)))) ws d = Inr v
            \<and> v_need v = Approval \<and> v_grant v) \<and>
    decide workspace_rung
        (Some (command_grant_for None (fst (grant_commands None now tbl ws taken at)))) ws' d =
      decide workspace_rung (Some (command_grant_for None tbl)) ws' d"
proof (intro conjI)
  show "\<exists>v. decide workspace_rung
              (Some (command_grant_for None (fst (grant_commands None now tbl ws workspace_rung at)))) ws d = Inr v
            \<and> v_need v = Allowed"
    using db.ask_then_run [OF assms(1,2), of workspace_rung] by fastforce
qed (rule db.withdrawn_asks_again db.other_rung_asks_again db.grant_is_local; fact assms)+

theorem grant_lifecycle_witness:
  "\<exists>v. decide workspace_rung
     (Some (command_grant_for None (fst (grant_commands None 5 [] ''ws_1'' workspace_rung 7)))) ''ws_1'' allow_decision
     = Inr v \<and> v_need v = Allowed"
  using grant_lifecycle [of allow_decision "''ws_1''" "''ws_2''" "strict" 5 "[]" 7] by simp

section \<open>Delegations\<close>

definition delegation_ttl :: time where "delegation_ttl = 8 * hour"

record delegation_grant =
  dg_workspace :: string
  dg_agent :: string
  dg_granted :: time
  dg_expires :: time

type_synonym delegations = "((string \<times> string) \<times> delegation_grant) list"

definition dlg_granted :: "delegations option \<Rightarrow> time \<Rightarrow> string \<Rightarrow> string \<Rightarrow> bool" where
  "dlg_granted ds now ws agent =
     (case ds of
        None \<Rightarrow> False
      | Some m \<Rightarrow>
          if ws = [] \<or> agent = [] then False
          else (case map_of m (ws, agent) of None \<Rightarrow> False | Some g \<Rightarrow> now < dg_expires g))"

definition dlg_grant :: "delegations \<Rightarrow> time \<Rightarrow> string \<Rightarrow> string \<Rightarrow> delegations \<times> delegation_grant" where
  "dlg_grant m now ws agent =
     (let g = \<lparr>dg_workspace = ws, dg_agent = agent, dg_granted = now, dg_expires = now + delegation_ttl\<rparr>
      in (AList.update (ws, agent) g m, g))"

definition dlg_revoke :: "delegations \<Rightarrow> string \<Rightarrow> string \<Rightarrow> delegations \<times> bool" where
  "dlg_revoke m ws agent = (AList.delete (ws, agent) m, map_of m (ws, agent) \<noteq> None)"

text \<open>
  \<open>List\<close> drops what has expired and sorts the rest by expiry (entries that expire at the
  same instant come in no specified order in Go, in insertion order here).
\<close>

definition dlg_list :: "delegations \<Rightarrow> time \<Rightarrow> delegations \<times> delegation_grant list" where
  "dlg_list m now =
     (let alive = filter (\<lambda>(k, g). now < dg_expires g) m
      in (alive, sort_key dg_expires (map snd alive)))"

text \<open>The operations of one Companion run, at the instants its clock showed.\<close>

datatype dlg_op = DGrant time string string | DRevoke string string | DList time

fun dlg_step :: "delegations \<Rightarrow> dlg_op \<Rightarrow> delegations" where
  "dlg_step m (DGrant now ws a) = fst (dlg_grant m now ws a)"
| "dlg_step m (DRevoke ws a) = fst (dlg_revoke m ws a)"
| "dlg_step m (DList now) = fst (dlg_list m now)"

definition dlg_inv :: "delegations \<Rightarrow> bool" where
  "dlg_inv m \<longleftrightarrow> distinct (map fst m) \<and>
     list_all (\<lambda>(k, g). (dg_workspace g, dg_agent g) = k \<and> dg_expires g = dg_granted g + delegation_ttl) m"

lemma dlg_inv_step: "dlg_inv m \<Longrightarrow> dlg_inv (dlg_step m op)"
proof (cases op)
  case (DGrant now ws a)
  assume "dlg_inv m"
  with DGrant show ?thesis
    using set_update [of "(ws, a)" _ m]
    by (fastforce simp: dlg_inv_def dlg_grant_def Let_def list_all_iff distinct_update)
next
  case (DRevoke ws a)
  assume "dlg_inv m"
  with DRevoke show ?thesis
    by (auto simp: dlg_inv_def dlg_revoke_def list_all_iff distinct_delete dest: set_mp [OF set_delete])
next
  case (DList now)
  assume "dlg_inv m"
  with DList show ?thesis
    by (auto simp: dlg_inv_def dlg_list_def Let_def list_all_iff intro: distinct_map_filter)
qed

lemma dlg_inv_run: "dlg_inv m \<Longrightarrow> dlg_inv (foldl dlg_step m ops)"
  by (induction ops arbitrary: m) (auto simp: dlg_inv_step)

lemma map_of_update_key [simp]: "map_of (AList.update k v m) = (map_of m)(k \<mapsto> v)"
  by (rule update_conv')

lemma map_of_delete_key [simp]: "map_of (AList.delete k m) = (map_of m)(k := None)"
  by (rule delete_conv')

lemma map_of_alive:
  "distinct (map fst m) \<Longrightarrow> map_of (filter (\<lambda>(k, g). P g) m) k =
     (case map_of m k of None \<Rightarrow> None | Some g \<Rightarrow> if P g then Some g else None)"
proof (induction m)
  case (Cons x m)
  obtain k' g where x: "x = (k', g)" by (cases x)
  show ?case
  proof (cases "k' = k")
    case True
    with Cons.prems x have "map_of m k = None" by (auto simp: map_of_eq_None_iff)
    with Cons x True show ?thesis by simp
  next
    case False
    with Cons x show ?thesis by simp
  qed
qed simp

text \<open>The yes on record for a pair: the instant of the last grant that was not revoked.\<close>

fun last_yes :: "string \<Rightarrow> string \<Rightarrow> time option \<Rightarrow> dlg_op list \<Rightarrow> time option" where
  "last_yes ws a y [] = y"
| "last_yes ws a y (DGrant now w b # ops) = last_yes ws a (if w = ws \<and> b = a then Some now else y) ops"
| "last_yes ws a y (DRevoke w b # ops) = last_yes ws a (if w = ws \<and> b = a then None else y) ops"
| "last_yes ws a y (DList now # ops) = last_yes ws a y ops"

lemma dlg_tracks_last_yes:
  assumes "dlg_inv m" and "\<forall>n. DList n \<in> set ops \<longrightarrow> n \<le> now"
    and "\<forall>g. map_of m (ws, a) = Some g \<longrightarrow> y = Some (dg_granted g)"
    and "\<forall>t. y = Some t \<and> now < t + delegation_ttl \<longrightarrow>
           (\<exists>g. map_of m (ws, a) = Some g \<and> dg_granted g = t)"
  shows "(case map_of (foldl dlg_step m ops) (ws, a) of None \<Rightarrow> False | Some g \<Rightarrow> now < dg_expires g) \<longleftrightarrow>
    (\<exists>t. last_yes ws a y ops = Some t \<and> now < t + delegation_ttl)"
  using assms
proof (induction ops arbitrary: m y)
  case Nil
  have "dg_expires g = dg_granted g + delegation_ttl" if "map_of m (ws, a) = Some g" for g
    using Nil.prems(1) that by (auto simp: dlg_inv_def list_all_iff dest: map_of_SomeD)
  with Nil.prems(3,4) show ?case by (fastforce split: option.splits)
next
  case (Cons op ops)
  have inv: "dlg_inv (dlg_step m op)" by (rule dlg_inv_step [OF Cons.prems(1)])
  have le: "\<forall>n. DList n \<in> set ops \<longrightarrow> n \<le> now" using Cons.prems(2) by simp
  have d: "distinct (map fst m)" and
    e: "map_of m (ws, a) = Some g \<Longrightarrow> dg_expires g = dg_granted g + delegation_ttl" for g
    using Cons.prems(1) by (auto simp: dlg_inv_def list_all_iff dest: map_of_SomeD)
  show ?case
  proof (cases op)
    case (DGrant n w b)
    let ?y = "if w = ws \<and> b = a then Some n else y"
    have "\<forall>g. map_of (dlg_step m op) (ws, a) = Some g \<longrightarrow> ?y = Some (dg_granted g)"
      and "\<forall>t. ?y = Some t \<and> now < t + delegation_ttl \<longrightarrow>
           (\<exists>g. map_of (dlg_step m op) (ws, a) = Some g \<and> dg_granted g = t)"
      using Cons.prems(3,4) by (auto simp: DGrant dlg_grant_def Let_def)
    from Cons.IH [OF inv le this] show ?thesis by (simp add: DGrant)
  next
    case (DRevoke w b)
    let ?y = "if w = ws \<and> b = a then None else y"
    have "\<forall>g. map_of (dlg_step m op) (ws, a) = Some g \<longrightarrow> ?y = Some (dg_granted g)"
      and "\<forall>t. ?y = Some t \<and> now < t + delegation_ttl \<longrightarrow>
           (\<exists>g. map_of (dlg_step m op) (ws, a) = Some g \<and> dg_granted g = t)"
      using Cons.prems(3,4) by (auto simp: DRevoke dlg_revoke_def)
    from Cons.IH [OF inv le this] show ?thesis by (simp add: DRevoke)
  next
    case (DList n)
    have n: "n \<le> now" using Cons.prems(2) DList by simp
    have "\<forall>g. map_of (dlg_step m op) (ws, a) = Some g \<longrightarrow> y = Some (dg_granted g)"
      using Cons.prems(3)
      by (auto simp: DList dlg_list_def Let_def map_of_alive [OF d] split: option.splits if_splits)
    moreover have "\<forall>t. y = Some t \<and> now < t + delegation_ttl \<longrightarrow>
           (\<exists>g. map_of (dlg_step m op) (ws, a) = Some g \<and> dg_granted g = t)"
      using Cons.prems(4) e n
      by (fastforce simp: DList dlg_list_def Let_def map_of_alive [OF d])
    ultimately show ?thesis using Cons.IH [OF inv le] by (simp add: DList)
  qed
qed

text \<open>
  C24. What one yes to an agent buys: after any sequence of grants, revocations and listings
  whose listings lie in the past, the agent may work in the workspace exactly if its last
  grant there was not revoked and is less than eight hours old. A second yes restarts the
  clock, and neither listings nor other agents' operations change the answer.
\<close>

theorem delegation_window:
  assumes "\<forall>n. DList n \<in> set ops \<longrightarrow> n \<le> now"
  shows "dlg_granted (Some (foldl dlg_step [] ops)) now ws a \<longleftrightarrow>
    ws \<noteq> [] \<and> a \<noteq> [] \<and> (\<exists>t. last_yes ws a None ops = Some t \<and> now < t + 8 * hour)"
  using dlg_tracks_last_yes [of "[]" ops now ws a None] assms
  by (simp add: dlg_granted_def dlg_inv_def delegation_ttl_def)

theorem delegation_window_witness:
  "dlg_granted (Some (foldl dlg_step [] [DGrant 0 ''ws'' ''codex'', DList hour, DGrant hour ''ws'' ''codex''])) (8 * hour) ''ws'' ''codex''"
  by (subst delegation_window) (auto simp: delegation_ttl_def)

end
