(* ===== verification/FileSys.thy ===== *)
theory FileSys
  imports GoPath "HOL-Library.AList"
begin

text \<open>
  The file system the Companion runs on, as far as the modelled code observes it: a finite
  tree of nodes keyed by absolute paths (segment lists), case sensitive and without hard
  links; symbolic links are followed in every directory position, as the kernel does, and
  by \<open>Stat\<close>, \<open>ReadFile\<close> and \<open>EvalSymlinks\<close> also at the end of a path. Each call that changes
  the disk takes one entry of a schedule of faults, so that a theorem covers every pattern
  of failing calls; \<open>denied\<close> holds the paths the system refuses to inspect or read.
\<close>

type_synonym path = "string list"

datatype node = File string nat | Dir | Link string | Special

type_synonym nodes = "(path \<times> node) list"

datatype os_error = ENOENT | ENOTDIR | EISDIR | EEXIST | ENOTEMPTY | ELOOP | EACCES | EFAULTED string

record disk =
  nodes :: nodes
  denied :: "path \<Rightarrow> bool"
  faults :: "string option list"

section \<open>Following links\<close>

text \<open>Resolution of segments below \<open>dest\<close>, following at most \<open>n\<close> links.\<close>

function walk :: "nodes \<Rightarrow> nat \<Rightarrow> path \<Rightarrow> string list \<Rightarrow> os_error + path" where
  "walk ns n dest [] = Inr dest"
| "walk ns n dest (s # rest) =
     (if s = [] \<or> s = dot then walk ns n dest rest
      else if s = dotdot then walk ns n (butlast dest) rest
      else (case map_of ns (dest @ [s]) of
          None \<Rightarrow> Inl ENOENT
        | Some Dir \<Rightarrow> walk ns n (dest @ [s]) rest
        | Some (Link t) \<Rightarrow>
            (case n of
               0 \<Rightarrow> Inl ELOOP
             | Suc m \<Rightarrow> walk ns m (if is_abs t then [] else dest) (split_on slash t @ rest))
        | Some (File c m) \<Rightarrow> if rest = [] then Inr (dest @ [s]) else Inl ENOTDIR
        | Some Special \<Rightarrow> if rest = [] then Inr (dest @ [s]) else Inl ENOTDIR))"
  by pat_completeness auto
termination
  by (relation "measures [\<lambda>(ns, n, d, r). n, \<lambda>(ns, n, d, r). length r]") auto

definition kernel_links :: nat where "kernel_links = 40"
definition eval_links :: nat where "eval_links = 255"

text \<open>Where a path leads with its last component not followed.\<close>

definition locate :: "nodes \<Rightarrow> path \<Rightarrow> os_error + path" where
  "locate ns p =
     (if p = [] then Inr []
      else (case walk ns kernel_links [] (butlast p) of
          Inl e \<Rightarrow> Inl e
        | Inr d \<Rightarrow>
            if d = [] \<or> map_of ns d = Some Dir then Inr (d @ [last p]) else Inl ENOTDIR))"

definition node_at :: "nodes \<Rightarrow> path \<Rightarrow> node option" where
  "node_at ns p = (if p = [] then Some Dir else map_of ns p)"

section \<open>Calls that only look\<close>

definition lstat :: "disk \<Rightarrow> path \<Rightarrow> os_error + node" where
  "lstat d p =
     (case locate (nodes d) p of
        Inl e \<Rightarrow> Inl e
      | Inr q \<Rightarrow>
          if denied d q then Inl EACCES
          else (case node_at (nodes d) q of None \<Rightarrow> Inl ENOENT | Some n \<Rightarrow> Inr n))"

definition follow :: "disk \<Rightarrow> path \<Rightarrow> os_error + path \<times> node" where
  "follow d p =
     (case walk (nodes d) kernel_links [] p of
        Inl e \<Rightarrow> Inl e
      | Inr q \<Rightarrow>
          if denied d q then Inl EACCES
          else (case node_at (nodes d) q of None \<Rightarrow> Inl ENOENT | Some n \<Rightarrow> Inr (q, n)))"

definition eval_symlinks :: "disk \<Rightarrow> path \<Rightarrow> os_error + path" where
  "eval_symlinks d p =
     (case walk (nodes d) eval_links [] p of
        Inl e \<Rightarrow> Inl e
      | Inr q \<Rightarrow> if denied d q then Inl EACCES else Inr q)"

definition read_file :: "disk \<Rightarrow> path \<Rightarrow> os_error + string" where
  "read_file d p =
     (case follow d p of
        Inl e \<Rightarrow> Inl e
      | Inr (q, File c m) \<Rightarrow> Inr c
      | Inr (q, Dir) \<Rightarrow> Inl EISDIR
      | Inr (q, _) \<Rightarrow> Inl EACCES)"

text \<open>The names in a directory.\<close>

definition children :: "nodes \<Rightarrow> path \<Rightarrow> string list" where
  "children ns p =
     List.map_filter (\<lambda>(q, n). if q \<noteq> [] \<and> butlast q = p then Some (last q) else None) ns"

definition read_dir :: "disk \<Rightarrow> path \<Rightarrow> os_error + string list" where
  "read_dir d p =
     (case follow d p of
        Inl e \<Rightarrow> Inl e
      | Inr (q, Dir) \<Rightarrow> Inr (children (nodes d) q)
      | Inr (q, _) \<Rightarrow> Inl ENOTDIR)"

section \<open>Calls that change the disk\<close>

text \<open>One entry of the fault schedule; an exhausted schedule has no more faults.\<close>

definition next_fault :: "disk \<Rightarrow> string option \<times> disk" where
  "next_fault d =
     (case faults d of [] \<Rightarrow> (None, d) | f # fs \<Rightarrow> (f, d\<lparr>faults := fs\<rparr>))"

definition put_node :: "path \<Rightarrow> node \<Rightarrow> disk \<Rightarrow> disk" where
  "put_node q n d = d\<lparr>nodes := AList.update q n (nodes d)\<rparr>"

definition drop_node :: "path \<Rightarrow> disk \<Rightarrow> disk" where
  "drop_node q d = d\<lparr>nodes := AList.delete q (nodes d)\<rparr>"

definition drop_tree :: "path \<Rightarrow> disk \<Rightarrow> disk" where
  "drop_tree q d = d\<lparr>nodes := filter (\<lambda>(p, n). \<not> prefix q p) (nodes d)\<rparr>"

definition os_remove :: "path \<Rightarrow> disk \<Rightarrow> os_error option \<times> disk" where
  "os_remove p d0 =
     (let (f, d) = next_fault d0 in
      case f of
        Some e \<Rightarrow> (Some (EFAULTED e), d)
      | None \<Rightarrow>
         (case locate (nodes d) p of
            Inl e \<Rightarrow> (Some e, d)
          | Inr q \<Rightarrow>
             (case node_at (nodes d) q of
                None \<Rightarrow> (Some ENOENT, d)
              | Some Dir \<Rightarrow> if q = [] \<or> children (nodes d) q \<noteq> [] then (Some ENOTEMPTY, d) else (None, drop_node q d)
              | Some _ \<Rightarrow> (None, drop_node q d))))"

text \<open>\<open>RemoveAll\<close> of a missing path succeeds; a fault leaves the tree as it was.\<close>

definition os_remove_all :: "path \<Rightarrow> disk \<Rightarrow> os_error option \<times> disk" where
  "os_remove_all p d0 =
     (let (f, d) = next_fault d0 in
      case f of
        Some e \<Rightarrow> (Some (EFAULTED e), d)
      | None \<Rightarrow>
         (case locate (nodes d) p of
            Inl ENOENT \<Rightarrow> (None, d)
          | Inl e \<Rightarrow> (Some e, d)
          | Inr q \<Rightarrow> if q = [] then (Some EACCES, d) else (None, drop_tree q d)))"

text \<open>
  \<open>Rename\<close>: a directory moves with what is below it; an existing file at the target is
  replaced, a directory target must not have entries.
\<close>

definition move_tree :: "path \<Rightarrow> path \<Rightarrow> nodes \<Rightarrow> nodes" where
  "move_tree a b ns =
     map (\<lambda>(p, n). if prefix a p then (b @ drop (length a) p, n) else (p, n))
       (filter (\<lambda>(p, n). \<not> prefix b p) ns)"

definition os_rename :: "path \<Rightarrow> path \<Rightarrow> disk \<Rightarrow> os_error option \<times> disk" where
  "os_rename from to d0 =
     (let (f, d) = next_fault d0 in
      case f of
        Some e \<Rightarrow> (Some (EFAULTED e), d)
      | None \<Rightarrow>
         (case locate (nodes d) from of
            Inl e \<Rightarrow> (Some e, d)
          | Inr a \<Rightarrow>
             (case locate (nodes d) to of
                Inl e \<Rightarrow> (Some e, d)
              | Inr b \<Rightarrow>
                 (case (map_of (nodes d) a, map_of (nodes d) b) of
                    (None, _) \<Rightarrow> (Some ENOENT, d)
                  | (Some Dir, Some Dir) \<Rightarrow>
                      if a = b then (None, d)
                      else if children (nodes d) b \<noteq> [] \<or> prefix a b then (Some ENOTEMPTY, d)
                      else (None, d\<lparr>nodes := move_tree a b (nodes d)\<rparr>)
                  | (Some Dir, Some _) \<Rightarrow> (Some ENOTDIR, d)
                  | (Some _, Some Dir) \<Rightarrow> (Some EISDIR, d)
                  | (Some Dir, None) \<Rightarrow>
                      if prefix a b then (Some EACCES, d)
                      else (None, d\<lparr>nodes := move_tree a b (nodes d)\<rparr>)
                  | (Some n, _) \<Rightarrow>
                      if a = b then (None, d) else (None, put_node b n (drop_node a d))))))"

text \<open>
  \<open>MkdirAll\<close>: every missing directory on the way, from the top; it stops at the first
  component that is there and is not a directory.
\<close>

fun mkdir_from :: "path \<Rightarrow> string list \<Rightarrow> disk \<Rightarrow> os_error option \<times> disk" where
  "mkdir_from done [] d = (None, d)"
| "mkdir_from done (s # rest) d =
     (case follow d (done @ [s]) of
        Inr (q, Dir) \<Rightarrow> mkdir_from (done @ [s]) rest d
      | Inr (q, _) \<Rightarrow> (Some ENOTDIR, d)
      | Inl ENOENT \<Rightarrow>
          (case locate (nodes d) (done @ [s]) of
             Inl e \<Rightarrow> (Some e, d)
           | Inr q \<Rightarrow>
               (if map_of (nodes d) q \<noteq> None then (Some EEXIST, d)
                else mkdir_from (done @ [s]) rest (put_node q Dir d)))
      | Inl e \<Rightarrow> (Some e, d))"

definition mkdir_all :: "path \<Rightarrow> disk \<Rightarrow> os_error option \<times> disk" where
  "mkdir_all p d0 =
     (let (f, d) = next_fault d0 in
      case f of Some e \<Rightarrow> (Some (EFAULTED e), d) | None \<Rightarrow> mkdir_from [] p d)"

section \<open>Paths without links\<close>

text \<open>Every proper prefix of the path is a directory: no link is met on the way to it.\<close>

definition dirs_to :: "nodes \<Rightarrow> path \<Rightarrow> bool" where
  "dirs_to ns p \<longleftrightarrow> list_all plain_seg p \<and>
     (\<forall>k < length p. 0 < k \<longrightarrow> map_of ns (take k p) = Some Dir)"

text \<open>The path is a directory that is reached without a link.\<close>

definition real_dir :: "nodes \<Rightarrow> path \<Rightarrow> bool" where
  "real_dir ns p \<longleftrightarrow> list_all plain_seg p \<and>
     (\<forall>k \<le> length p. 0 < k \<longrightarrow> map_of ns (take k p) = Some Dir)"

lemma real_dir_Nil [simp]: "real_dir ns []"
  by (simp add: real_dir_def)

lemma real_dir_node: "real_dir ns p \<Longrightarrow> p = [] \<or> map_of ns p = Some Dir"
  by (auto simp: real_dir_def dest: spec [where x = "length p"])

lemma real_dir_snoc:
  "real_dir ns (p @ [s]) \<longleftrightarrow> real_dir ns p \<and> plain_seg s \<and> map_of ns (p @ [s]) = Some Dir"
  by (auto simp: real_dir_def le_Suc_eq)

lemma dirs_to_snoc: "dirs_to ns (p @ [s]) \<longleftrightarrow> real_dir ns p \<and> plain_seg s"
  by (auto simp: real_dir_def dirs_to_def less_Suc_eq_le)

lemma real_dir_take: "real_dir ns p \<Longrightarrow> real_dir ns (take k p)"
  by (auto simp: real_dir_def list_all_iff min_def dest: in_set_takeD)

lemma dirs_to_take: "dirs_to ns p \<Longrightarrow> dirs_to ns (take k p)"
  by (auto simp: dirs_to_def list_all_iff min_def dest: in_set_takeD)

lemma walk_through:
  assumes "list_all plain_seg rest"
    and "\<forall>k \<le> length rest. 0 < k \<longrightarrow> map_of ns (dest @ take k rest) = Some Dir"
  shows "walk ns n dest (rest @ below) = walk ns n (dest @ rest) below"
  using assms
proof (induction rest arbitrary: dest)
  case (Cons s rest)
  from Cons.prems(2) have s: "map_of ns (dest @ [s]) = Some Dir"
    by (auto dest: spec [where x = 1])
  have "\<forall>k \<le> length rest. 0 < k \<longrightarrow> map_of ns ((dest @ [s]) @ take k rest) = Some Dir"
    using Cons.prems(2) by (auto dest: spec [where x = "Suc _"])
  with Cons.IH [of "dest @ [s]"] Cons.prems(1) s show ?case
    by (simp add: plain_seg_def)
qed simp

lemma walk_real_dir: "real_dir ns p \<Longrightarrow> walk ns n [] (p @ below) = walk ns n p below"
  using walk_through [of p ns "[]" n below] by (simp add: real_dir_def)

lemma locate_dirs:
  assumes "dirs_to ns p"
  shows "locate ns p = Inr p"
proof (cases p rule: rev_cases)
  case (snoc q s)
  with assms have "real_dir ns q" by (simp add: dirs_to_snoc)
  then show ?thesis
    using walk_real_dir [of ns q kernel_links "[]"] real_dir_node [of ns q] snoc
    by (simp add: locate_def)
qed (simp add: locate_def)

lemma walk_last:
  assumes "real_dir ns q" and "plain_seg s" and "map_of ns (q @ [s]) = Some n" and "\<forall>t. n \<noteq> Link t"
  shows "walk ns m [] (q @ [s]) = Inr (q @ [s])"
  using walk_real_dir [OF assms(1), of m "[s]"] assms(2-4)
  by (cases n) (auto simp: plain_seg_def)

text \<open>A path whose first missing component comes after real directories only.\<close>

lemma walk_missing:
  assumes "dirs_to ns p" and "p \<noteq> []" and "map_of ns p = None"
  shows "walk ns n [] (p @ below) = Inl ENOENT"
proof -
  obtain q s where p: "p = q @ [s]" using assms(2) by (cases p rule: rev_cases) auto
  with assms have "real_dir ns q" "plain_seg s" by (simp_all add: dirs_to_snoc)
  with p assms(3) show ?thesis
    using walk_real_dir [of ns q n "s # below"] by (simp add: plain_seg_def)
qed

lemma locate_missing:
  assumes "dirs_to ns p" and "p \<noteq> []" and "map_of ns p = None" and "below \<noteq> []"
  shows "locate ns (p @ below) = Inl ENOENT"
  using assms walk_missing [of ns p kernel_links "butlast below"]
  by (simp add: locate_def butlast_append)

text \<open>Following links always ends in a place that is reached without one.\<close>

lemma real_dir_butlast: "real_dir ns p \<Longrightarrow> real_dir ns (butlast p)"
  by (simp add: butlast_conv_take real_dir_take)

lemma walk_arrives:
  assumes "walk ns n dest rest = Inr q" and "real_dir ns dest" and "list_all (\<lambda>s. slash \<notin> set s) rest"
  shows "real_dir ns q \<or> (dirs_to ns q \<and> (\<exists>m. map_of ns q = Some m \<and> (\<forall>t. m \<noteq> Link t)))"
  using assms
proof (induction ns n dest rest rule: walk.induct)
  case (2 ns n dest s rest)
  note pr = "2.prems"
  consider "s = [] \<or> s = dot" | "s \<noteq> [] \<and> s \<noteq> dot \<and> s = dotdot" | "plain_seg s"
    using pr(3) by (auto simp: plain_seg_def)
  then show ?case
  proof cases
    case 1
    with "2.IH"(1) pr show ?thesis by auto
  next
    case 2
    with "2.IH"(2) pr show ?thesis by (auto simp: real_dir_butlast)
  next
    case 3
    then have ns: "s \<noteq> []" "s \<noteq> dot" "s \<noteq> dotdot" by (auto simp: plain_seg_def)
    have dt: "dirs_to ns (dest @ [s])" using 3 pr(2) by (simp add: dirs_to_snoc)
    show ?thesis
    proof (cases "map_of ns (dest @ [s])")
      case None
      with pr(1) ns show ?thesis by simp
    next
      case (Some m)
      show ?thesis
      proof (cases m)
        case Dir
        with Some have "real_dir ns (dest @ [s])" using 3 pr(2) by (simp add: real_dir_snoc)
        with "2.IH"(3) [OF _ _ Some Dir] ns pr Some Dir show ?thesis by simp
      next
        case (Link t)
        have "list_all (\<lambda>s. slash \<notin> set s) (split_on slash t @ rest)"
          using pr(3) split_on_seg by (auto simp: list_all_iff)
        with "2.IH"(4) [OF _ _ Some Link] ns pr Some Link show ?thesis
          by (cases n) (auto split: if_splits)
      qed (use pr(1) ns Some dt in \<open>auto split: if_splits\<close>)
    qed
  qed
qed simp

end
