(* ===== verification/TxnFs.thy ===== *)
theory TxnFs
  imports FileSys "HOL-Library.Char_ord" "HOL-Library.List_Lexorder"
begin

text \<open>
  The file routines of the transaction engine (\<^verbatim>\<open>internal/txn/fs.go\<close>) as sequences of
  system calls on the disk model: the atomic write through a staging file, and the durable
  copies behind backups. Every call can fail, by the disk's state or by its fault schedule.
\<close>

text \<open>One call after another, stopping at the first error.\<close>

definition and_then ::
  "os_error option \<times> disk \<Rightarrow> (disk \<Rightarrow> os_error option \<times> disk) \<Rightarrow> os_error option \<times> disk" where
  "and_then r k = (case r of (Some e, d) \<Rightarrow> (Some e, d) | (None, d) \<Rightarrow> k d)"

text \<open>A call with no effect of its own but the chance to fail (\<open>Sync\<close>, \<open>Close\<close>).\<close>

definition os_flush :: "disk \<Rightarrow> os_error option \<times> disk" where
  "os_flush d0 =
     (let (f, d) = next_fault d0 in case f of Some e \<Rightarrow> (Some (EFAULTED e), d) | None \<Rightarrow> (None, d))"

text \<open>Writing through an open handle: the handle is the node's place in the tree.\<close>

definition os_write :: "path \<Rightarrow> string \<Rightarrow> disk \<Rightarrow> os_error option \<times> disk" where
  "os_write q data d0 =
     (let (f, d) = next_fault d0 in
      case f of
        Some e \<Rightarrow> (Some (EFAULTED e), d)
      | None \<Rightarrow>
          (case map_of (nodes d) q of
             Some (File c m) \<Rightarrow> (None, put_node q (File data m) d)
           | _ \<Rightarrow> (Some ENOENT, d)))"

definition os_chmod :: "path \<Rightarrow> nat \<Rightarrow> disk \<Rightarrow> os_error option \<times> disk" where
  "os_chmod p mode d0 =
     (let (f, d) = next_fault d0 in
      case f of
        Some e \<Rightarrow> (Some (EFAULTED e), d)
      | None \<Rightarrow>
          (case follow d p of
             Inl e \<Rightarrow> (Some e, d)
           | Inr (q, File c m) \<Rightarrow> (None, put_node q (File c mode) d)
           | Inr (q, _) \<Rightarrow> (None, d)))"

text \<open>
  \<open>CreateTemp\<close> takes a random name that is free; the model takes one that is longer than
  every name on the disk.
\<close>

definition tmp_prefix :: string where "tmp_prefix = ''.fylane-tmp-''"

definition longest_name :: "nodes \<Rightarrow> nat" where
  "longest_name ns = foldr (\<lambda>(p, n) m. max (length (last p)) m) ns 0"

definition temp_name :: "nodes \<Rightarrow> string" where
  "temp_name ns = tmp_prefix @ replicate (longest_name ns) CHR ''0''"

definition create_temp :: "path \<Rightarrow> disk \<Rightarrow> (os_error + path \<times> path) \<times> disk" where
  "create_temp dir d0 =
     (let (f, d) = next_fault d0 in
      case f of
        Some e \<Rightarrow> (Inl (EFAULTED e), d)
      | None \<Rightarrow>
          (let t = dir @ [temp_name (nodes d)] in
           case locate (nodes d) t of
             Inl e \<Rightarrow> (Inl e, d)
           | Inr q \<Rightarrow> (Inr (t, q), put_node q (File [] 384) d)))"

definition perm_of :: "node \<Rightarrow> nat" where
  "perm_of n = (case n of File c m \<Rightarrow> m | _ \<Rightarrow> 493)"

definition target_mode :: "path \<Rightarrow> nat \<Rightarrow> disk \<Rightarrow> nat" where
  "target_mode p mode d = (case follow d p of Inr (q, n) \<Rightarrow> perm_of n | Inl e \<Rightarrow> mode)"

definition stage_and_rename ::
  "path \<Rightarrow> path \<Rightarrow> path \<Rightarrow> string \<Rightarrow> nat \<Rightarrow> disk \<Rightarrow> os_error option \<times> disk" where
  "stage_and_rename t q p data mode d0 =
     and_then (os_write q data d0) (\<lambda>d1.
     and_then (os_flush d1) (\<lambda>d2.
     and_then (os_flush d2) (\<lambda>d3.
     and_then (os_chmod t (target_mode p mode d3) d3) (\<lambda>d4.
     os_rename t p d4))))"

definition atomic_write :: "path \<Rightarrow> string \<Rightarrow> nat \<Rightarrow> disk \<Rightarrow> os_error option \<times> disk" where
  "atomic_write p data mode d0 =
     and_then (mkdir_all (butlast p) d0) (\<lambda>d1.
       (case create_temp (butlast p) d1 of
          (Inl e, d2) \<Rightarrow> (Some e, d2)
        | (Inr (t, q), d2) \<Rightarrow>
            (case stage_and_rename t q p data mode d2 of
               (None, d3) \<Rightarrow> (None, d3)
             | (Some e, d3) \<Rightarrow> (Some e, snd (os_remove t d3)))))"

text \<open>\<open>OpenFile\<close> with create and truncate; an existing file keeps its mode.\<close>

definition os_truncate :: "path \<Rightarrow> nat \<Rightarrow> disk \<Rightarrow> (os_error + path) \<times> disk" where
  "os_truncate p mode d0 =
     (let (f, d) = next_fault d0 in
      case f of
        Some e \<Rightarrow> (Inl (EFAULTED e), d)
      | None \<Rightarrow>
          (case follow d p of
             Inr (q, File c m) \<Rightarrow> (Inr q, put_node q (File [] m) d)
           | Inr (q, Dir) \<Rightarrow> (Inl EISDIR, d)
           | Inr (q, _) \<Rightarrow> (Inl EACCES, d)
           | Inl ENOENT \<Rightarrow>
               (case locate (nodes d) p of
                  Inl e \<Rightarrow> (Inl e, d)
                | Inr q \<Rightarrow> if map_of (nodes d) q \<noteq> None then (Inl ENOENT, d)
                           else (Inr q, put_node q (File [] mode) d))
           | Inl e \<Rightarrow> (Inl e, d)))"

definition copy_file_durable :: "path \<Rightarrow> path \<Rightarrow> disk \<Rightarrow> os_error option \<times> disk" where
  "copy_file_durable src dst d0 =
     (case follow d0 src of
        Inl e \<Rightarrow> (Some e, d0)
      | Inr (q, n) \<Rightarrow>
          (case read_file d0 src of
             Inl e \<Rightarrow> (Some e, d0)
           | Inr content \<Rightarrow>
               and_then (mkdir_all (butlast dst) d0) (\<lambda>d1.
                 (case os_truncate dst (perm_of n) d1 of
                    (Inl e, d2) \<Rightarrow> (Some e, d2)
                  | (Inr q', d2) \<Rightarrow>
                      and_then (os_write q' content d2) (\<lambda>d3.
                      and_then (os_flush d3) os_flush)))))"

definition copy_entry :: "nat \<Rightarrow> path \<Rightarrow> path \<times> node \<Rightarrow> disk \<Rightarrow> os_error option \<times> disk" where
  "copy_entry k dst x d =
     (let p = fst x; target = dst @ drop k p in
      if denied d p then (Some EACCES, d)
      else (case snd x of
          Link t \<Rightarrow> (None, d)
        | Dir \<Rightarrow> mkdir_all target d
        | File c m \<Rightarrow> copy_file_durable p target d
        | Special \<Rightarrow> (Some (EFAULTED ''unsupported special file''), d)))"

fun copy_entries :: "nat \<Rightarrow> path \<Rightarrow> (path \<times> node) list \<Rightarrow> disk \<Rightarrow> os_error option \<times> disk" where
  "copy_entries k dst [] d = (None, d)"
| "copy_entries k dst (x # xs) d = and_then (copy_entry k dst x d) (copy_entries k dst xs)"

text \<open>The tree at the source, in the lexical order of \<open>WalkDir\<close>, as it is when the walk starts.\<close>

definition copy_tree_durable :: "path \<Rightarrow> path \<Rightarrow> disk \<Rightarrow> os_error option \<times> disk" where
  "copy_tree_durable src dst d =
     (case locate (nodes d) src of
        Inl e \<Rightarrow> (Some e, d)
      | Inr q \<Rightarrow>
          (case node_at (nodes d) q of
             None \<Rightarrow> (Some ENOENT, d)
           | Some n \<Rightarrow>
               copy_entries (length q) dst
                 (sort_key fst ((q, n) # filter (\<lambda>(p, m). strict_prefix q p) (nodes d))) d))"

section \<open>What the disk looks like after a call\<close>

lemma next_fault_keeps [simp]:
  "nodes (snd (next_fault d)) = nodes d" "denied (snd (next_fault d)) = denied d"
  by (simp_all add: next_fault_def split: list.splits)

lemma map_of_put [simp]: "map_of (nodes (put_node q n d)) = (map_of (nodes d))(q \<mapsto> n)"
  by (simp add: put_node_def update_conv')

lemma map_of_drop [simp]: "map_of (nodes (drop_node q d)) = (map_of (nodes d))(q := None)"
  by (simp add: drop_node_def delete_conv')

lemma real_dir_cong:
  assumes "real_dir ns p" and "\<And>k. k \<le> length p \<Longrightarrow> 0 < k \<Longrightarrow> map_of ns' (take k p) = map_of ns (take k p)"
  shows "real_dir ns' p"
  using assms by (auto simp: real_dir_def)

lemma real_dir_longer:
  assumes "real_dir ns p" and "length p < length t" and "\<And>x. x \<noteq> t \<Longrightarrow> map_of ns' x = map_of ns x"
  shows "real_dir ns' p"
proof (rule real_dir_cong [OF assms(1)])
  fix k
  have "length (take k p) < length t" using assms(2) by simp
  then have "take k p \<noteq> t" by auto
  then show "map_of ns' (take k p) = map_of ns (take k p)" by (rule assms(3))
qed

lemma mkdir_from_real: "real_dir (nodes d) (done @ rest) \<Longrightarrow> nodes (snd (mkdir_from done rest d)) = nodes d"
proof (induction rest arbitrary: "done")
  case (Cons s rest)
  have rd: "real_dir (nodes d) (done @ [s])"
    using real_dir_take [OF Cons.prems, of "Suc (length done)"] by simp
  have "walk (nodes d) kernel_links [] (done @ [s]) = Inr (done @ [s])"
    using walk_real_dir [OF rd, of kernel_links "[]"] by simp
  moreover have "node_at (nodes d) (done @ [s]) = Some Dir"
    using real_dir_node [OF rd] by (simp add: node_at_def)
  ultimately show ?case
    using Cons.IH [of "done @ [s]"] Cons.prems by (simp add: follow_def)
qed simp

lemma mkdir_all_real: "real_dir (nodes d) p \<Longrightarrow> nodes (snd (mkdir_all p d)) = nodes d"
  by (simp add: mkdir_all_def split_beta mkdir_from_real split: option.splits)

lemma longest_name_le: "map_of ns p = Some n \<Longrightarrow> length (last p) \<le> longest_name ns"
  by (induction ns) (auto simp: longest_name_def split: if_splits)

lemma temp_name_free: "map_of ns (dir @ [temp_name ns]) = None"
proof (rule ccontr)
  assume "map_of ns (dir @ [temp_name ns]) \<noteq> None"
  then obtain n where "map_of ns (dir @ [temp_name ns]) = Some n" by blast
  from longest_name_le [OF this] have "length (temp_name ns) \<le> longest_name ns" by simp
  then show False by (simp add: temp_name_def tmp_prefix_def)
qed

lemma temp_name_plain: "plain_seg (temp_name ns)"
  by (auto simp: plain_seg_def temp_name_def tmp_prefix_def)

lemma temp_name_prefix: "has_prefix (temp_name ns) tmp_prefix"
  by (simp add: temp_name_def)

text \<open>Along a staged write every node but the staging file is as it was.\<close>

definition staged :: "nodes \<Rightarrow> path \<Rightarrow> disk \<Rightarrow> bool" where
  "staged ns t d \<longleftrightarrow> (\<forall>x. x \<noteq> t \<longrightarrow> map_of (nodes d) x = map_of ns x)"

definition holds_file :: "path \<Rightarrow> string \<Rightarrow> disk \<Rightarrow> bool" where
  "holds_file t c d \<longleftrightarrow> (\<exists>m. map_of (nodes d) t = Some (File c m))"

lemma flush_nodes [simp]: "nodes (snd (os_flush d)) = nodes d"
  by (simp add: os_flush_def split_beta split: option.splits)

lemma staged_write: "staged ns t d \<Longrightarrow> staged ns t (snd (os_write t data d))"
  by (simp add: os_write_def split_beta staged_def split: option.splits node.splits)

lemma write_None: "fst (os_write t data d) = None \<Longrightarrow> holds_file t data (snd (os_write t data d))"
  by (simp add: os_write_def split_beta holds_file_def split: option.splits node.splits if_splits)

text \<open>A staging file next to the target.\<close>

definition staging :: "nodes \<Rightarrow> path \<Rightarrow> path \<Rightarrow> bool" where
  "staging ns t p \<longleftrightarrow> t \<noteq> p \<and> t \<noteq> [] \<and> p \<noteq> [] \<and> butlast t = butlast p \<and> real_dir ns (butlast p)
     \<and> plain_seg (last t) \<and> plain_seg (last p)"

lemma staging_dir:
  assumes "staging ns t p" and "staged ns t d"
  shows "real_dir (nodes d) (butlast p)"
proof -
  have "length (butlast p) < length t"
    using assms(1) by (cases t rule: rev_cases) (auto simp: staging_def)
  moreover have "real_dir ns (butlast p)" using assms(1) by (simp add: staging_def)
  ultimately show ?thesis
    using assms(2) real_dir_longer [of ns "butlast p" t "nodes d"] by (simp add: staged_def)
qed

lemma staging_locate:
  assumes "staging ns t p" and "staged ns t d"
  shows "locate (nodes d) t = Inr t" "locate (nodes d) p = Inr p"
proof -
  have "dirs_to (nodes d) (butlast q @ [last q])" if "butlast q = butlast p" "plain_seg (last q)" for q
    using staging_dir [OF assms] that by (simp add: dirs_to_snoc)
  with assms(1) show "locate (nodes d) t = Inr t" "locate (nodes d) p = Inr p"
    by (metis append_butlast_last_id locate_dirs staging_def)+
qed

lemma staging_follow:
  assumes "staging ns t p" and "staged ns t d" and "holds_file t c d"
  shows "follow d t = (if denied d t then Inl EACCES else Inr (t, the (map_of (nodes d) t)))"
proof -
  obtain m where m: "map_of (nodes d) t = Some (File c m)" using assms(3) by (auto simp: holds_file_def)
  have t: "t = butlast p @ [last t]" using assms(1) by (metis append_butlast_last_id staging_def)
  have "walk (nodes d) kernel_links [] (butlast p @ [last t]) = Inr (butlast p @ [last t])"
    using walk_last [OF staging_dir [OF assms(1,2)], of "last t" "File c m"] assms(1) m t
    by (auto simp: staging_def)
  with t m show ?thesis
    using assms(1) by (auto simp: follow_def node_at_def staging_def)
qed

lemma staged_chmod:
  assumes "staging ns t p" and "staged ns t d" and "holds_file t c d"
  shows "staged ns t (snd (os_chmod t m d)) \<and> holds_file t c (snd (os_chmod t m d))"
proof -
  obtain m' where m: "map_of (nodes d) t = Some (File c m')" using assms(3) by (auto simp: holds_file_def)
  let ?d = "snd (next_fault d)"
  have "staged ns t ?d" "holds_file t c ?d" using assms by (simp_all add: staged_def holds_file_def)
  from staging_follow [OF assms(1) this] m assms(2,3) show ?thesis
    by (auto simp: os_chmod_def split_beta staged_def holds_file_def split: option.splits)
qed

lemma rename_staged:
  assumes "staging ns t p" and "staged ns t d" and "holds_file t c d"
  shows "case fst (os_rename t p d) of
      Some e \<Rightarrow> nodes (snd (os_rename t p d)) = nodes d
    | None \<Rightarrow> holds_file p c (snd (os_rename t p d))
        \<and> (\<forall>x. x \<noteq> p \<longrightarrow> x \<noteq> t \<longrightarrow> map_of (nodes (snd (os_rename t p d))) x = map_of ns x)
        \<and> map_of (nodes (snd (os_rename t p d))) t = None"
proof -
  let ?d = "snd (next_fault d)"
  obtain m where m: "map_of (nodes d) t = Some (File c m)" using assms(3) by (auto simp: holds_file_def)
  have tp: "t \<noteq> p" using assms(1) by (simp add: staging_def)
  note loc = staging_locate [OF assms(1,2)]
  show ?thesis
    using m tp assms(2)
    by (auto simp: os_rename_def split_beta loc holds_file_def staged_def split: option.splits node.splits)
qed

lemma and_then_cases:
  assumes "fst r \<noteq> None \<Longrightarrow> P r" and "fst r = None \<Longrightarrow> P (k (snd r))"
  shows "P (and_then r k)"
  using assms by (cases r; cases "fst r") (auto simp: and_then_def)

definition stage_outcome :: "nodes \<Rightarrow> path \<Rightarrow> path \<Rightarrow> string \<Rightarrow> os_error option \<times> disk \<Rightarrow> bool" where
  "stage_outcome ns t p data r \<longleftrightarrow>
     (if fst r = None
      then holds_file p data (snd r)
        \<and> (\<forall>x. x \<noteq> p \<longrightarrow> x \<noteq> t \<longrightarrow> map_of (nodes (snd r)) x = map_of ns x) \<and> map_of (nodes (snd r)) t = None
      else staged ns t (snd r))"

lemma stage_result:
  assumes "staging ns t p" and "staged ns t d" and "holds_file t c d"
  shows "stage_outcome ns t p data (stage_and_rename t t p data mode d)"
  unfolding stage_and_rename_def
proof (rule and_then_cases)
  assume "fst (os_write t data d) \<noteq> None"
  then show "stage_outcome ns t p data (os_write t data d)"
    using staged_write [OF assms(2)] by (auto simp: stage_outcome_def)
next
  assume w: "fst (os_write t data d) = None"
  let ?d1 = "snd (os_write t data d)"
  have d1: "staged ns t ?d1" "holds_file t data ?d1"
    using staged_write [OF assms(2)] write_None [OF w] by auto
  let ?d2 = "snd (os_flush ?d1)" let ?d3 = "snd (os_flush ?d2)"
  have d2: "staged ns t ?d2" "holds_file t data ?d2" "staged ns t ?d3" "holds_file t data ?d3"
    using d1 by (simp_all add: staged_def holds_file_def)
  let ?m = "target_mode p mode ?d3"
  have d4: "staged ns t (snd (os_chmod t ?m ?d3))" "holds_file t data (snd (os_chmod t ?m ?d3))"
    using staged_chmod [OF assms(1) d2(3,4)] by auto
  let ?Q = "stage_outcome ns t p data"
  have failed: "?Q r" if "fst r \<noteq> None" "staged ns t (snd r)" for r
    using that by (auto simp: stage_outcome_def)
  have r3: "?Q (and_then (os_chmod t ?m ?d3) (\<lambda>d4. os_rename t p d4))"
  proof (rule and_then_cases)
    show "?Q (os_rename t p (snd (os_chmod t ?m ?d3)))"
      using rename_staged [OF assms(1) d4] d4(1)
      by (auto simp: stage_outcome_def staged_def split: option.splits)
  qed (rule failed [OF _ d4(1)])
  have r2: "?Q (and_then (os_flush ?d2) (\<lambda>d3.
      and_then (os_chmod t (target_mode p mode d3) d3) (\<lambda>d4. os_rename t p d4)))"
    by (rule and_then_cases) (rule failed [OF _ d2(3)], assumption, rule r3)
  show "?Q (and_then (os_flush ?d1) (\<lambda>d2. and_then (os_flush d2) (\<lambda>d3.
      and_then (os_chmod t (target_mode p mode d3) d3) (\<lambda>d4. os_rename t p d4))))"
    by (rule and_then_cases) (rule failed [OF _ d2(1)], assumption, rule r2)
qed

lemma staged_remove:
  assumes "staging ns t p" and "staged ns t d"
  shows "staged ns t (snd (os_remove t d))"
  using staging_locate(1) [OF assms] assms(2)
  by (auto simp: os_remove_def split_beta staged_def split: option.splits node.splits)

text \<open>
  The directories a write may meet on its way and those it makes. A path is open to it when
  every component is a directory or missing; the disk has grown along a path when nothing has
  changed but that missing components of the path are directories now.
\<close>

definition open_way :: "nodes \<Rightarrow> path \<Rightarrow> bool" where
  "open_way ns q \<longleftrightarrow> list_all plain_seg q
     \<and> (\<forall>k \<le> length q. 0 < k \<longrightarrow> map_of ns (take k q) = None \<or> map_of ns (take k q) = Some Dir)"

definition as_before :: "nodes \<Rightarrow> nodes \<Rightarrow> path \<Rightarrow> path \<Rightarrow> bool" where
  "as_before ns ns' q x \<longleftrightarrow> map_of ns' x = map_of ns x
     \<or> (prefix x q \<and> map_of ns x = None \<and> map_of ns' x = Some Dir)"

lemma open_way_Nil [simp]: "open_way ns []"
  by (simp add: open_way_def)

lemma open_way_snoc: "open_way ns (q @ [s]) \<longleftrightarrow>
    open_way ns q \<and> plain_seg s \<and> (map_of ns (q @ [s]) = None \<or> map_of ns (q @ [s]) = Some Dir)"
  by (auto simp: open_way_def le_Suc_eq)

lemma as_before_refl [simp]: "as_before ns ns q x"
  by (simp add: as_before_def)

lemma as_before_cong: "as_before ns ns' q x \<Longrightarrow> map_of ns'' x = map_of ns' x \<Longrightarrow> as_before ns ns'' q x"
  by (simp add: as_before_def)

lemma as_before_put:
  assumes "map_of (nodes d) q = None" and "prefix q p" and "as_before (nodes (put_node q Dir d)) ns p x"
  shows "as_before (nodes d) ns p x"
  using assms by (cases "x = q") (simp_all add: as_before_def)

lemma mkdir_from_open:
  assumes "real_dir (nodes d) done" and "open_way (nodes d) (done @ rest)"
  shows "(\<forall>x. as_before (nodes d) (nodes (snd (mkdir_from done rest d))) (done @ rest) x)
    \<and> (fst (mkdir_from done rest d) = None \<longrightarrow> real_dir (nodes (snd (mkdir_from done rest d))) (done @ rest))"
  using assms
proof (induction rest arbitrary: "done" d)
  case (Cons s rest)
  let ?q = "done @ [s]"
  have s: "plain_seg s" using Cons.prems(2) by (simp add: open_way_def)
  have at: "map_of (nodes d) ?q = None \<or> map_of (nodes d) ?q = Some Dir"
    using Cons.prems(2) unfolding open_way_def by (auto dest!: spec [where x = "Suc (length done)"])
  show ?case
  proof (cases "map_of (nodes d) ?q")
    case None
    let ?d = "put_node ?q Dir d"
    have dt: "dirs_to (nodes d) ?q" using Cons.prems(1) s by (simp add: dirs_to_snoc)
    have fo: "follow d ?q = Inl ENOENT"
      using walk_missing [OF dt _ None, of kernel_links "[]"] by (simp add: follow_def)
    have "real_dir (nodes ?d) done"
      by (rule real_dir_longer [OF Cons.prems(1), where t = ?q]) simp_all
    then have rd: "real_dir (nodes ?d) ?q" using s by (simp add: real_dir_snoc)
    have ow: "open_way (nodes ?d) (?q @ rest)"
      using Cons.prems(2) by (simp add: open_way_def)
    have eq: "mkdir_from done (s # rest) d = mkdir_from ?q rest ?d"
      using fo locate_dirs [OF dt] None by simp
    show ?thesis
      using Cons.IH [OF rd ow] as_before_put [OF None, of "done @ s # rest"] unfolding eq by simp
  next
    case (Some n)
    with at have rd: "real_dir (nodes d) ?q" using Cons.prems(1) s by (simp add: real_dir_snoc)
    have "follow d ?q = (if denied d ?q then Inl EACCES else Inr (?q, Dir))"
      using walk_real_dir [OF rd, of kernel_links "[]"] real_dir_node [OF rd] by (simp add: follow_def node_at_def)
    then show ?thesis using Cons.IH [OF rd] Cons.prems(2) by auto
  qed
qed auto

lemma mkdir_all_open:
  assumes "open_way (nodes d) q"
  shows "as_before (nodes d) (nodes (snd (mkdir_all q d))) q x"
    "fst (mkdir_all q d) = None \<Longrightarrow> real_dir (nodes (snd (mkdir_all q d))) q"
  using assms mkdir_from_open [of "snd (next_fault d)" "[]" q]
  by (auto simp: mkdir_all_def split_beta split: option.splits)

text \<open>A write whose directory is there: at most the target and one staging name change.\<close>

definition write_outcome :: "nodes \<Rightarrow> path \<Rightarrow> path \<Rightarrow> string \<Rightarrow> os_error option \<times> disk \<Rightarrow> bool" where
  "write_outcome ns t p data r \<longleftrightarrow>
     (if fst r = None
      then holds_file p data (snd r) \<and> (\<forall>x. x \<noteq> p \<longrightarrow> map_of (nodes (snd r)) x = map_of ns x)
      else staged ns t (snd r))"

lemma write_in_directory:
  assumes "real_dir (nodes d) (butlast p)" and "p \<noteq> []" and "plain_seg (last p)"
    and "\<not> has_prefix (last p) tmp_prefix"
  shows "write_outcome (nodes d) (butlast p @ [temp_name (nodes d)]) p data
    (case create_temp (butlast p) d of
          (Inl e, d2) \<Rightarrow> (Some e, d2)
        | (Inr (t, q), d2) \<Rightarrow>
            (case stage_and_rename t q p data mode d2 of
               (None, d3) \<Rightarrow> (None, d3)
             | (Some e, d3) \<Rightarrow> (Some e, snd (os_remove t d3))))"
proof -
  let ?ns = "nodes d" let ?t = "butlast p @ [temp_name (nodes d)]"
  have "?t \<noteq> p" using assms(4) temp_name_prefix [of ?ns] by (metis last_snoc)
  then have st: "staging ?ns ?t p"
    using assms temp_name_plain [of ?ns] by (auto simp: staging_def)
  have st1: "staged ?ns ?t (snd (next_fault d))" by (simp add: staged_def)
  show ?thesis
  proof (cases "fst (next_fault d)")
    case (Some e)
    then show ?thesis using st1 by (simp add: create_temp_def split_beta write_outcome_def)
  next
    case None
    let ?d2 = "put_node ?t (File [] 384) (snd (next_fault d))"
    have ct: "create_temp (butlast p) d = (Inr (?t, ?t), ?d2)"
      using None staging_locate(1) [OF st st1] by (simp add: create_temp_def split_beta Let_def)
    have d2: "staged ?ns ?t ?d2" "holds_file ?t [] ?d2"
      using st1 by (auto simp: staged_def holds_file_def)
    obtain r d3 where sr: "stage_and_rename ?t ?t p data mode ?d2 = (r, d3)"
      by (cases "stage_and_rename ?t ?t p data mode ?d2")
    note out = stage_result [OF st d2, of data mode, unfolded sr]
    show ?thesis
    proof (cases r)
      case None
      with out have "holds_file p data d3" "\<forall>x. x \<noteq> p \<longrightarrow> x \<noteq> ?t \<longrightarrow> map_of (nodes d3) x = map_of ?ns x"
        "map_of (nodes d3) ?t = None"
        by (simp_all add: stage_outcome_def)
      then show ?thesis
        using None sr temp_name_free [of ?ns "butlast p"] by (auto simp: ct write_outcome_def)
    next
      case (Some e)
      with out have "staged ?ns ?t d3" by (simp add: stage_outcome_def)
      from staged_remove [OF st this] show ?thesis
        using Some sr by (simp add: ct write_outcome_def)
    qed
  qed
qed

text \<open>
  C12. The atomic write is all or nothing, for every pattern of failing calls. The way to the
  target may be there or not, as long as every component is a directory or missing. If the
  write succeeds, the target's directory is there, the target holds exactly the new bytes,
  and nothing else on the disk has changed but that missing directories on the way have been
  made. If any call fails, cleaning up included, the same holds of every path, the target
  included, but for a single staging file next to the target, under a name that was free. No
  reader of the target, and no crash between two calls, ever meets a partial file.
\<close>
theorem atomic_write_all_or_nothing:
  assumes "open_way (nodes d) (butlast p)" and "p \<noteq> []" and "plain_seg (last p)"
    and "\<not> has_prefix (last p) tmp_prefix"
  shows "case atomic_write p data mode d of
      (None, d') \<Rightarrow> real_dir (nodes d') (butlast p) \<and> holds_file p data d'
        \<and> (\<forall>x. x = p \<or> as_before (nodes d) (nodes d') (butlast p) x)
    | (Some e, d') \<Rightarrow> \<exists>t. butlast t = butlast p \<and> has_prefix (last t) tmp_prefix \<and> map_of (nodes d) t = None
        \<and> (\<forall>x. x = t \<or> as_before (nodes d) (nodes d') (butlast p) x)"
proof -
  let ?m = "mkdir_all (butlast p) d"
  let ?t = "butlast p @ [temp_name (nodes (snd ?m))]"
  note grown = mkdir_all_open(1) [OF assms(1)]
  have free: "map_of (nodes d) ?t = None"
    using grown [of ?t] temp_name_free [of "nodes (snd ?m)" "butlast p"] by (simp add: as_before_def)
  show ?thesis
  proof (cases "fst ?m")
    case (Some e)
    then have "atomic_write p data mode d = (Some e, snd ?m)"
      by (simp add: atomic_write_def and_then_def split_beta)
    then show ?thesis using grown free temp_name_prefix by (auto intro!: exI [where x = ?t])
  next
    case None
    obtain r d' where aw: "atomic_write p data mode d = (r, d')" by (cases "atomic_write p data mode d")
    have out: "write_outcome (nodes (snd ?m)) ?t p data (r, d')"
      using write_in_directory [OF mkdir_all_open(2) [OF assms(1) None] assms(2-4), of data mode] None
      unfolding aw [symmetric] by (simp add: atomic_write_def and_then_def split_beta)
    show ?thesis
    proof (cases r)
      case None
      with out have h: "holds_file p data d'" "\<forall>x. x \<noteq> p \<longrightarrow> map_of (nodes d') x = map_of (nodes (snd ?m)) x"
        by (simp_all add: write_outcome_def)
      have "real_dir (nodes d') (butlast p)"
        using h(2) assms(2) by (intro real_dir_longer [OF mkdir_all_open(2) [OF assms(1) \<open>fst ?m = None\<close>], of p])
          (auto simp: neq_Nil_conv)
      then show ?thesis using aw None h as_before_cong [OF grown] by auto
    next
      case (Some e)
      with out have "\<forall>x. x \<noteq> ?t \<longrightarrow> map_of (nodes d') x = map_of (nodes (snd ?m)) x"
        by (simp add: write_outcome_def staged_def)
      then have "\<forall>x. x = ?t \<or> as_before (nodes d) (nodes d') (butlast p) x"
        using as_before_cong [OF grown] by auto
      then show ?thesis
        using aw Some free temp_name_prefix by (auto intro!: exI [where x = ?t])
    qed
  qed
qed

definition one_file :: disk where
  "one_file = \<lparr>nodes = [([''w''], Dir), ([''w'', ''a''], File ''old'' 420)], denied = (\<lambda>p. False),
     faults = [None, None, None, None, None, None, Some ''EIO'', Some ''EIO'']\<rparr>"

text \<open>A new file two missing directories down, and a failing replacement of the old one.\<close>

theorem atomic_write_all_or_nothing_witness:
  "(case atomic_write [''w'', ''n'', ''m'', ''f''] ''new'' 420 (one_file\<lparr>faults := []\<rparr>) of
      (None, d') \<Rightarrow> holds_file [''w'', ''n'', ''m'', ''f''] ''new'' d' \<and> real_dir (nodes d') [''w'', ''n'', ''m'']
        \<and> map_of (nodes d') [''w'', ''a''] = Some (File ''old'' 420)
    | (Some e, d') \<Rightarrow> False)
   \<and> map_of (nodes (snd (atomic_write [''w'', ''a''] ''new'' 420 one_file))) [''w'', ''a''] = Some (File ''old'' 420)"
proof -
  let ?p = "[''w'', ''n'', ''m'', ''f'']" let ?a = "[''w'', ''a'']"
  let ?d = "one_file\<lparr>faults := []\<rparr>"
  have ok: "fst (atomic_write ?p ''new'' 420 ?d) = None" "fst (atomic_write ?a ''new'' 420 one_file) \<noteq> None"
    by code_simp+
  have h: "open_way (nodes ?d) (butlast ?p)" "plain_seg (last ?p)" "\<not> has_prefix (last ?p) tmp_prefix"
    "open_way (nodes one_file) (butlast ?a)" "plain_seg (last ?a)" "\<not> has_prefix (last ?a) tmp_prefix"
    using open_way_snoc [of "nodes one_file" "[''w'', ''n'']" "''m''"] open_way_snoc [of "nodes one_file" "[''w'']" "''n''"]
      open_way_snoc [of "nodes one_file" "[]" "''w''"]
    by (simp_all add: plain_seg_def tmp_prefix_def one_file_def)
  obtain d1 where d1: "atomic_write ?p ''new'' 420 ?d = (None, d1)"
    using ok(1) by (cases "atomic_write ?p ''new'' 420 ?d") auto
  obtain e d2 where d2: "atomic_write ?a ''new'' 420 one_file = (Some e, d2)"
    using ok(2) by (cases "atomic_write ?a ''new'' 420 one_file") auto
  have w: "real_dir (nodes d1) (butlast ?p) \<and> holds_file ?p ''new'' d1
      \<and> (\<forall>x. x = ?p \<or> as_before (nodes ?d) (nodes d1) (butlast ?p) x)"
    using atomic_write_all_or_nothing [OF h(1) _ h(2,3), of "''new''" 420] unfolding d1 by auto
  obtain t where t: "has_prefix (last t) tmp_prefix" "\<forall>x. x = t \<or> as_before (nodes one_file) (nodes d2) (butlast ?a) x"
    using atomic_write_all_or_nothing [OF h(4) _ h(5,6), of "''new''" 420] unfolding d2 by auto
  have "?a \<noteq> t" using t(1) h(6) by blast
  with t(2) have "as_before (nodes one_file) (nodes d2) (butlast ?a) ?a" by blast
  moreover have "as_before (nodes ?d) (nodes d1) (butlast ?p) ?a"
    using w [THEN conjunct2, THEN conjunct2, THEN spec, of ?a] by simp
  ultimately have "map_of (nodes d1) ?a = Some (File ''old'' 420)" "map_of (nodes d2) ?a = Some (File ''old'' 420)"
    by (simp_all add: as_before_def one_file_def)
  with w show ?thesis unfolding d1 d2 by simp
qed

end
