(* ===== verification/TxnTypes.thy ===== *)
theory TxnTypes
  imports Prelude
begin

text \<open>
  The data of a change set (\<^verbatim>\<open>internal/txn/txn.go\<close>): operations, what the approver is
  shown, what it answers, and the result of a transaction. The fields that only carry text
  for a screen (summaries, workspace names, tree sizes, impact) are left out.
\<close>

datatype op_type = Create | Update | Move | Delete | OtherOp string

record operation =
  op_kind :: op_type
  op_path :: string
  op_from :: string
  op_to :: string
  op_content :: string
  op_expected :: string
  op_recursive :: bool

datatype approval_kind = KindWrite | KindCommand | KindDisclosure | KindDelegation | KindProxy

record op_preview =
  pv_type :: op_type
  pv_path :: string
  pv_to :: string
  pv_sensitive :: bool
  pv_recursive :: bool

record approval_request =
  ar_change_set :: string
  ar_workspace :: string
  ar_provider :: string
  ar_operations :: "op_preview list"
  ar_kind :: approval_kind
  ar_must_ask :: bool
  ar_command :: "string list"
  ar_rule :: string
  ar_reason :: string
  ar_dir :: string
  ar_grant :: bool

record approval_decision =
  ad_approved :: bool
  ad_pending :: bool
  ad_reason :: string

end
