(* ===== verification/Sandbox.thy ===== *)
theory Sandbox
  imports FileSys
begin

text \<open>
  The path sandbox: \<^verbatim>\<open>internal/sandbox/sandbox.go\<close> (what a workspace-relative path may be
  called) and \<^verbatim>\<open>internal/sandbox/resolve.go\<close> (what it may lead through on the disk). A
  refusal is a value of \<open>path_error\<close>; \<open>clean_path\<close> and \<open>resolve\<close> follow the order of the
  checks of the code.
\<close>

datatype path_error =
    ErrEmptyPath | ErrAbsolutePath | ErrPathTraversal | ErrInvalidChar | ErrWorkspaceRoot
  | ErrPathTooLong | ErrReservedName | ErrSymlink | ErrSpecialFile | ErrConfusableName
  | ErrProtectedPath | ErrNotDirectory
  | Inspecting os_error | ResolvingReal os_error

section \<open>Names\<close>

definition max_path_len :: int where "max_path_len = 1024"

definition is_windows_drive_path :: "string \<Rightarrow> bool" where
  "is_windows_drive_path p =
     (case p of
        a # b # _ \<Rightarrow>
          b = CHR '':'' \<and> (let c = (of_char a :: nat) in
             (97 \<le> c \<and> c \<le> 122) \<or> (65 \<le> c \<and> c \<le> 90))
      | _ \<Rightarrow> False)"

definition is_deceptive_rune :: "nat \<Rightarrow> bool" where
  "is_deceptive_rune r =
     (r = 0xAD \<or> r = 0x200B \<or> r = 0x200C \<or> r = 0x200D \<or> r = 0x200E \<or> r = 0x200F
      \<or> r = 0x2028 \<or> r = 0x2029 \<or> r = 0xFEFF
      \<or> (0x202A \<le> r \<and> r \<le> 0x202E) \<or> (0x2066 \<le> r \<and> r \<le> 0x2069))"

definition trim_right :: "char \<Rightarrow> string \<Rightarrow> string" where
  "trim_right c s = rev (dropWhile (\<lambda>x. x = c) (rev s))"

definition is_reserved_name :: "unicode \<Rightarrow> string \<Rightarrow> bool" where
  "is_reserved_name u name =
     (let base = to_upper u (trim_right CHR '' '' (before_byte CHR ''.'' name)) in
      if List.member [''CON'', ''PRN'', ''AUX'', ''NUL''] base then True
      else if length base = 4 \<and> (has_prefix base ''COM'' \<or> has_prefix base ''LPT'')
      then (let c = (of_char (base ! 3) :: nat) in 49 \<le> c \<and> c \<le> 57)
      else False)"

datatype script = Latin | Cyrillic | Greek

text \<open>The first script table that lists the rune, in the order of the code's table.\<close>

definition script_of :: "unicode \<Rightarrow> nat \<Rightarrow> script option" where
  "script_of u r =
     (if u_latin u r then Some Latin
      else if u_cyrillic u r then Some Cyrillic
      else if u_greek u r then Some Greek
      else None)"

fun mixed_from :: "unicode \<Rightarrow> script option \<Rightarrow> nat list \<Rightarrow> (script \<times> script) option" where
  "mixed_from u first [] = None"
| "mixed_from u first (r # rs) =
     (if \<not> u_letter u r then mixed_from u first rs
      else (case script_of u r of
          None \<Rightarrow> mixed_from u first rs
        | Some sc \<Rightarrow>
            (case first of
               None \<Rightarrow> mixed_from u (Some sc) rs
             | Some f \<Rightarrow> if f \<noteq> sc then Some (f, sc) else mixed_from u first rs)))"

definition mixed_scripts :: "unicode \<Rightarrow> string \<Rightarrow> (script \<times> script) option" where
  "mixed_scripts u s = mixed_from u None (map fst (runes s))"

definition bad_rune :: "nat \<Rightarrow> bool" where
  "bad_rune r = (r < 0x20 \<or> r = 0x7F \<or> is_deceptive_rune r)"

definition validate_component :: "unicode \<Rightarrow> string \<Rightarrow> path_error option" where
  "validate_component u name =
     (if \<not> valid_string name then Some ErrInvalidChar
      else if has_suffix name ''.'' \<or> has_suffix name '' '' then Some ErrInvalidChar
      else if list_ex (\<lambda>(r, n). bad_rune r) (runes name) then Some ErrInvalidChar
      else if is_reserved_name u name then Some ErrReservedName
      else if list_ex (\<lambda>part. mixed_scripts u part \<noteq> None) (split_on CHR ''.'' name)
      then Some ErrConfusableName
      else None)"

definition nul :: char where "nul = CHR 0x00"

definition clean_path :: "unicode \<Rightarrow> string \<Rightarrow> path_error + string" where
  "clean_path u p =
     (if p = [] then Inl ErrEmptyPath
      else if max_path_len < int (length p) then Inl ErrPathTooLong
      else if contains_byte p nul then Inl ErrInvalidChar
      else let slashed = replace_byte backslash slash p in
        if has_prefix slashed [slash] then Inl ErrAbsolutePath
        else if is_windows_drive_path slashed then Inl ErrAbsolutePath
        else if contains_byte slashed CHR '':'' then Inl ErrInvalidChar
        else let cleaned = clean slashed in
          if cleaned = dot then Inl ErrWorkspaceRoot
          else if cleaned = dotdot \<or> has_prefix cleaned ''../'' then Inl ErrPathTraversal
          else (case first_some (validate_component u) (split_on slash cleaned) of
                  Some e \<Rightarrow> Inl e
                | None \<Rightarrow> Inr cleaned))"

lemma deceptive_ascii: "r < 128 \<Longrightarrow> \<not> is_deceptive_rune r"
  by (simp add: is_deceptive_rune_def)

lemma validate_component_ascii:
  assumes "ascii name"
  shows "validate_component u name =
     (if has_suffix name ''.'' \<or> has_suffix name '' '' then Some ErrInvalidChar
      else if list_ex (\<lambda>c. (of_char c :: nat) < 32 \<or> (of_char c :: nat) = 127) name then Some ErrInvalidChar
      else if is_reserved_name u name then Some ErrReservedName
      else if list_ex (\<lambda>part. mixed_scripts u part \<noteq> None) (split_on CHR ''.'' name)
      then Some ErrConfusableName
      else None)"
proof -
  have "list_ex (\<lambda>(r, n). bad_rune r) (runes name) =
      list_ex (\<lambda>c. (of_char c :: nat) < 32 \<or> (of_char c :: nat) = 127) name"
    using assms by (auto simp: runes_ascii list_ex_iff ascii_def list_all_iff ascii_byte_def bad_rune_def deceptive_ascii)
  with assms show ?thesis
    by (simp add: validate_component_def valid_string_ascii)
qed


section \<open>The disk below the root\<close>

datatype op = OpRead | OpWrite | OpDelete

definition max_abs_path_len :: int where "max_abs_path_len = 4096"

text \<open>\<open>Lstat\<close> on every component; \<open>cur\<close> is the path inspected last.\<close>

fun inspect :: "disk \<Rightarrow> string \<Rightarrow> string list \<Rightarrow> path_error option" where
  "inspect d cur [] = None"
| "inspect d cur (c # cs) =
     (let cur' = path_join [cur, c] in
      case lstat d (segs cur') of
        Inl ENOENT \<Rightarrow> None
      | Inl e \<Rightarrow> Some (Inspecting e)
      | Inr n \<Rightarrow>
          (if (case n of Link t \<Rightarrow> True | _ \<Rightarrow> False) then Some ErrSymlink
           else if cs \<noteq> [] then
             (if n \<noteq> Dir then Some ErrNotDirectory else inspect d cur' cs)
           else if n = Special then Some ErrSpecialFile
           else None))"

text \<open>
  The deepest existing ancestor of the path, every link followed, lies under the root. The
  path is given by its segments; the parent of \<open>/\<close> is \<open>/\<close> itself.
\<close>

fun verify_real_path :: "disk \<Rightarrow> string \<Rightarrow> path \<Rightarrow> path_error option" where
  "verify_real_path d root p =
     (case eval_symlinks d p of
        Inr q \<Rightarrow>
          (let real = slash # join_with [slash] q in
           if real \<noteq> root \<and> \<not> has_prefix real (root @ [slash]) then Some ErrPathTraversal
           else None)
      | Inl ENOENT \<Rightarrow>
          (if p = [] then Some ErrPathTraversal else verify_real_path d root (butlast p))
      | Inl e \<Rightarrow> Some (ResolvingReal e))"

declare verify_real_path.simps [simp del]

definition resolve :: "unicode \<Rightarrow> disk \<Rightarrow> string \<Rightarrow> string \<Rightarrow> op \<Rightarrow> path_error + string \<times> string" where
  "resolve u d root rel op =
     (case clean_path u rel of
        Inl e \<Rightarrow> Inl e
      | Inr canonical \<Rightarrow>
          (let comps = split_on slash canonical in
           if op \<noteq> OpRead \<and> list_ex (\<lambda>c. equal_fold u c ''.git'') comps then Inl ErrProtectedPath
           else let abs = path_join [root, canonical] in
             if max_abs_path_len < int (length abs) then Inl ErrPathTooLong
             else (case inspect d root comps of
                 Some e \<Rightarrow> Inl e
               | None \<Rightarrow>
                   (case verify_real_path d root (segs abs) of
                      Some e \<Rightarrow> Inl e
                    | None \<Rightarrow> Inr (abs, canonical)))))"

section \<open>Canonical paths\<close>

definition canonical :: "unicode \<Rightarrow> string \<Rightarrow> bool" where
  "canonical u c \<longleftrightarrow>
     list_all plain_seg (split_on slash c)
     \<and> list_all (\<lambda>s. validate_component u s = None) (split_on slash c)
     \<and> backslash \<notin> set c \<and> nul \<notin> set c \<and> CHR '':'' \<notin> set c
     \<and> int (length c) \<le> max_path_len"

lemma replace_byte_absent: "a \<notin> set s \<Longrightarrow> replace_byte a b s = s"
  by (induction s) (auto simp: replace_byte_def)

lemma replace_byte_set: "set (replace_byte a b s) \<subseteq> set s \<union> {b}"
  by (auto simp: replace_byte_def)

lemma replace_byte_gone: "a \<noteq> b \<Longrightarrow> a \<notin> set (replace_byte a b s)"
  by (auto simp: replace_byte_def)

lemma length_replace_byte [simp]: "length (replace_byte a b s) = length s"
  by (simp add: replace_byte_def)

lemma drive_path_colon: "is_windows_drive_path p \<Longrightarrow> CHR '':'' \<in> set p"
  by (auto simp: is_windows_drive_path_def split: list.splits)

lemma special_bytes [simp]:
  "backslash \<noteq> slash" "nul \<noteq> slash" "slash \<noteq> backslash" "slash \<noteq> nul"
  by (simp_all add: backslash_def nul_def)

lemma clean_path_canonical:
  assumes "canonical u c"
  shows "clean_path u c = Inr c"
proof -
  let ?cs = "split_on slash c"
  have j: "join_with [slash] ?cs = c" by simp
  have v: "first_some (validate_component u) ?cs = None"
    using assms by (simp add: canonical_def list_all_iff)
  have pl: "list_all plain_seg ?cs" using assms by (simp add: canonical_def)
  note cj = clean_join_plain [OF pl split_on_not_Nil, unfolded j]
  have "c \<noteq> []" using pl by (auto simp: plain_seg_def)
  moreover have "\<not> is_windows_drive_path c"
    using assms drive_path_colon by (auto simp: canonical_def)
  moreover have "replace_byte backslash slash c = c"
    using assms by (simp add: canonical_def replace_byte_absent)
  ultimately show ?thesis
    using assms cj by (simp add: clean_path_def canonical_def contains_byte_iff Let_def v)
qed

lemma clean_path_InrD:
  assumes "clean_path u p = Inr c"
  shows "canonical u c"
proof -
  let ?s = "replace_byte backslash slash p"
  from assms have c: "c = clean ?s"
    and ns: "\<not> has_prefix ?s [slash]" and colon: "CHR '':'' \<notin> set ?s"
    and n0: "nul \<notin> set p" and len: "int (length p) \<le> max_path_len"
    and cl: "clean ?s \<noteq> dot" "clean ?s \<noteq> dotdot" "\<not> has_prefix (clean ?s) ''../''"
    and v: "first_some (validate_component u) (split_on slash (clean ?s)) = None"
    by (auto simp: clean_path_def contains_byte_iff Let_def split: if_splits option.splits)
  from clean_relative [OF ns cl] obtain zs
    where zs: "clean ?s = join_with [slash] zs" "zs \<noteq> []" "list_all plain_seg zs"
      and l: "length (clean ?s) \<le> length ?s" and b: "set (clean ?s) \<subseteq> set ?s \<union> {slash}"
    by blast
  have sp: "split_on slash c = zs"
    unfolding c zs(1) using zs by (intro split_join) (auto simp: list_all_iff plain_seg_def)
  have "backslash \<notin> set c" "nul \<notin> set c" "CHR '':'' \<notin> set c"
    using b c colon n0 replace_byte_gone [of backslash slash p] replace_byte_set [of backslash slash p]
      special_bytes by blast+
  then show ?thesis
    using sp zs v l len c by (simp add: canonical_def list_all_iff)
qed

lemma canonical_segs:
  assumes "canonical u c"
  shows "list_all plain_seg (split_on slash c)" and "c = join_with [slash] (split_on slash c)"
  using assms by (simp_all add: canonical_def)

text \<open>
  C18. What \<open>clean_path\<close> lets through is canonical: non-empty segments none of which is
  \<open>.\<close> or \<open>..\<close>, all of them valid names, no backslash, NUL or colon, at most 1024 bytes; and
  validation is idempotent, because the canonical paths are exactly its fixed points. No
  spelling of a path is therefore validated as one file and used as another.
\<close>
theorem clean_path_fixed_points:
  "(clean_path u c = Inr c \<longleftrightarrow> canonical u c)
   \<and> (case clean_path u p of Inl e \<Rightarrow> True
      | Inr q \<Rightarrow> canonical u q \<and> clean_path u q = Inr q \<and> length q \<le> length p)"
proof -
  have len: "length q \<le> length p" if "clean_path u p = Inr q" for q
  proof -
    let ?s = "replace_byte backslash slash p"
    from that have "q = clean ?s" "\<not> has_prefix ?s [slash]"
      "clean ?s \<noteq> dot" "clean ?s \<noteq> dotdot" "\<not> has_prefix (clean ?s) ''../''"
      by (auto simp: clean_path_def Let_def split: if_splits option.splits)
    then show ?thesis using clean_relative(2) [of ?s] by simp
  qed
  show ?thesis
    using clean_path_InrD [of u c c] clean_path_InrD [of u p] clean_path_canonical [of u] len
    by (auto split: sum.splits)
qed

section \<open>Resolution stays below the root\<close>

lemma inspect_prefix:
  assumes "inspect d cur cs = None" and "clean_abs cur" and "real_dir (nodes d) (segs cur)"
    and "list_all plain_seg cs" and "cs \<noteq> []"
  shows "\<exists>k < length cs. real_dir (nodes d) (segs cur @ take k cs) \<and>
    (case map_of (nodes d) (segs cur @ take (Suc k) cs) of
       None \<Rightarrow> True
     | Some n \<Rightarrow> Suc k = length cs \<and> (\<forall>t. n \<noteq> Link t) \<and> n \<noteq> Special)"
  using assms
proof (induction cs arbitrary: cur)
  case (Cons c cs)
  let ?cur = "path_join [cur, c]"
  have c: "plain_seg c" using Cons.prems by simp
  have cur: "segs ?cur = segs cur @ [c]" "clean_abs ?cur"
    using join_below [OF Cons.prems(2), of "[c]"] c by simp_all
  have loc: "locate (nodes d) (segs ?cur) = Inr (segs ?cur)"
    using Cons.prems(3) c by (simp add: cur locate_dirs dirs_to_snoc)
  have ok: "inspect d cur (c # cs) = None" using Cons.prems by simp
  show ?case
  proof (cases "map_of (nodes d) (segs ?cur)")
    case None
    then show ?thesis using Cons.prems(3) by (intro exI [where x = 0]) (simp add: cur)
  next
    case (Some n)
    have "lstat d (segs ?cur) = Inr n"
      using ok Some loc by (auto simp: lstat_def node_at_def cur Let_def split: if_splits)
    note step = ok [unfolded inspect.simps Let_def this]
    show ?thesis
    proof (cases "cs = []")
      case True
      with step Some Cons.prems(3) show ?thesis
        by (intro exI [where x = 0]) (auto simp: cur split: node.splits if_splits)
    next
      case False
      with step have n: "n = Dir" "inspect d ?cur cs = None"
        by (auto split: node.splits if_splits)
      have "real_dir (nodes d) (segs ?cur)"
        using Cons.prems(3) c n Some by (simp add: cur real_dir_snoc)
      from Cons.IH [OF n(2) cur(2) this _ False] Cons.prems(4) obtain k where
        "k < length cs" "real_dir (nodes d) (segs ?cur @ take k cs)"
        "case map_of (nodes d) (segs ?cur @ take (Suc k) cs) of None \<Rightarrow> True
         | Some n \<Rightarrow> Suc k = length cs \<and> (\<forall>t. n \<noteq> Link t) \<and> n \<noteq> Special"
        by auto
      then show ?thesis
        by (intro exI [where x = "Suc k"]) (simp add: cur split: option.splits)
    qed
  qed
qed simp

text \<open>Opening such a path, with every link followed, reaches the path itself or nothing.\<close>

definition opens_itself :: "nodes \<Rightarrow> path \<Rightarrow> bool" where
  "opens_itself ns p \<longleftrightarrow>
     (\<forall>n. walk ns n [] p = Inr p \<or> walk ns n [] p = Inl ENOENT)
     \<and> (locate ns p = Inr p \<or> locate ns p = Inl ENOENT)
     \<and> map_of ns p \<noteq> Some Special \<and> (\<forall>t. map_of ns p \<noteq> Some (Link t))"

definition nodes_ok :: "nodes \<Rightarrow> bool" where
  "nodes_ok ns \<longleftrightarrow> (\<forall>p n. map_of ns p = Some n \<longrightarrow> (\<forall>k < length p. 0 < k \<longrightarrow> map_of ns (take k p) = Some Dir))"

lemma opens_itselfI:
  assumes k: "k < length cs" and rd: "real_dir (nodes d) (base @ take k cs)"
    and n: "case map_of (nodes d) (base @ take (Suc k) cs) of
       None \<Rightarrow> True
     | Some n \<Rightarrow> Suc k = length cs \<and> (\<forall>t. n \<noteq> Link t) \<and> n \<noteq> Special"
    and pl: "list_all plain_seg cs" and ok: "nodes_ok (nodes d)"
  shows "opens_itself (nodes d) (base @ cs)"
proof -
  let ?ns = "nodes d" and ?q = "base @ take (Suc k) cs"
  have q: "?q = (base @ take k cs) @ [cs ! k]" using k by (simp add: take_Suc_conv_app_nth)
  have pk: "plain_seg (cs ! k)" using pl k by (simp add: list_all_length)
  have dt: "dirs_to ?ns ?q" using rd pk by (simp add: q dirs_to_snoc flip: append_assoc)
  show ?thesis
  proof (cases "map_of ?ns ?q")
    case (Some n)
    with n have e: "Suc k = length cs" "\<forall>t. n \<noteq> Link t" "n \<noteq> Special" by auto
    then have b: "base @ cs = ?q" by simp
    have "walk ?ns m [] ?q = Inr ?q" for m
      using walk_last [OF rd pk, of n m] Some e(2) by (simp add: q)
    with dt Some e show ?thesis
      unfolding b by (auto simp: opens_itself_def locate_dirs)
  next
    case None
    have b: "base @ cs = ?q @ drop (Suc k) cs" by simp
    have w: "walk ?ns m [] (base @ cs) = Inl ENOENT" for m
      unfolding b using walk_missing [OF dt _ None] q by (metis append_is_Nil_conv not_Cons_self2)
    have nm: "map_of ?ns (base @ cs) = None"
    proof (rule ccontr)
      assume "map_of ?ns (base @ cs) \<noteq> None"
      then obtain n where n: "map_of ?ns (base @ cs) = Some n" by blast
      with None have "Suc k < length cs" using k by (cases "Suc k = length cs") auto
      with ok n have "map_of ?ns (take (length base + Suc k) (base @ cs)) = Some Dir"
        unfolding nodes_ok_def by (metis add_gr_0 length_append nat_add_left_cancel_less zero_less_Suc)
      with None show False by simp
    qed
    have "locate ?ns (base @ cs) = Inr (base @ cs) \<or> locate ?ns (base @ cs) = Inl ENOENT"
    proof (cases "Suc k = length cs")
      case True
      then show ?thesis using locate_dirs [OF dt] by simp
    next
      case False
      then show ?thesis
        unfolding b using locate_missing [OF dt _ None, of "drop (Suc k) cs"] k q by auto
    qed
    with w nm show ?thesis by (simp add: opens_itself_def)
  qed
qed

lemma resolve_InrD:
  assumes "resolve u d root rel op = Inr (full, c)"
  shows "clean_path u rel = Inr c" and "full = path_join [root, c]"
    and "inspect d root (split_on slash c) = None"
    and "op \<noteq> OpRead \<Longrightarrow> list_all (\<lambda>s. \<not> equal_fold u s ''.git'') (split_on slash c)"
    and "int (length full) \<le> max_abs_path_len"
  using assms
  by (auto simp: resolve_def Let_def list_all_iff list_ex_iff split: sum.splits if_splits option.splits)

lemma resolve_segs:
  assumes "resolve u d root rel op = Inr (full, c)" and "clean_abs root"
  shows "segs full = segs root @ split_on slash c" and "clean_abs full" and "canonical u c"
proof -
  show c: "canonical u c" using clean_path_InrD resolve_InrD(1) [OF assms(1)] .
  show "segs full = segs root @ split_on slash c" "clean_abs full"
    using join_below [OF assms(2) canonical_segs(1) [OF c] split_on_not_Nil]
      resolve_InrD(2) [OF assms(1)] canonical_segs(2) [OF c] by simp_all
qed

lemma resolve_opens_itself:
  assumes "resolve u d root rel op = Inr (full, c)"
    and "clean_abs root" and "real_dir (nodes d) (segs root)" and "nodes_ok (nodes d)"
  shows "opens_itself (nodes d) (segs full)"
proof -
  note r = resolve_InrD [OF assms(1)] and s = resolve_segs [OF assms(1,2)]
  obtain k where "k < length (split_on slash c)"
    "real_dir (nodes d) (segs root @ take k (split_on slash c))"
    "case map_of (nodes d) (segs root @ take (Suc k) (split_on slash c)) of None \<Rightarrow> True
     | Some n \<Rightarrow> Suc k = length (split_on slash c) \<and> (\<forall>t. n \<noteq> Link t) \<and> n \<noteq> Special"
    using inspect_prefix [OF r(3) assms(2,3) canonical_segs(1) [OF s(3)] split_on_not_Nil] by blast
  then show ?thesis
    unfolding s(1) using canonical_segs(1) [OF s(3)] assms(4) by (rule opens_itselfI)
qed

text \<open>
  C8. On a well-formed disk whose workspace root is a real directory, a path that
  \<open>resolve\<close> accepts is canonical, names the root's segments followed by its own, and opens itself:
  the kernel, following every link it meets, arrives exactly there or finds nothing. No
  component of it is a link, the target is not a device, pipe or socket, the joined path is
  at most 4096 bytes, and for writes and deletes no component is \<open>.git\<close> in any case.
\<close>
theorem resolve_stays_below:
  assumes "resolve u d root rel op = Inr (full, c)"
    and "clean_abs root" and "real_dir (nodes d) (segs root)" and "nodes_ok (nodes d)"
  shows "canonical u c \<and> segs full = segs root @ split_on slash c
    \<and> opens_itself (nodes d) (segs full)
    \<and> int (length full) \<le> max_abs_path_len
    \<and> (op = OpRead \<or> list_all (\<lambda>s. \<not> equal_fold u s ''.git'') (split_on slash c))"
  using resolve_InrD [OF assms(1)] resolve_segs [OF assms(1,2)] resolve_opens_itself [OF assms] by blast

definition sample_disk :: disk where
  "sample_disk = \<lparr>nodes = [([''w''], Dir), ([''w'', ''src''], Dir), ([''w'', ''ln''], Link ''/etc''),
      ([''etc''], Dir), ([''w'', ''src'', ''a.go''], File ''x'' 420)],
     denied = (\<lambda>p. False), faults = []\<rparr>"

lemma sample_names:
  "validate_component plain_unicode ''src'' = None"
  "validate_component plain_unicode ''a.go'' = None"
  by (subst validate_component_ascii, code_simp, code_simp)+

lemma sample_clean:
  "clean ''src/./a.go'' = ''src/a.go''" "split_on slash ''src/a.go'' = [''src'', ''a.go'']"
  by code_simp+

lemma sample_clean_path: "clean_path plain_unicode ''src/./a.go'' = Inr ''src/a.go''"
  by (simp add: clean_path_def max_path_len_def replace_byte_def backslash_def nul_def
      contains_byte_iff is_windows_drive_path_def sample_clean sample_names)

lemma sample_walk:
  "inspect sample_disk ''/w'' [''src'', ''a.go''] = None"
  "segs ''/w/src/a.go'' = [''w'', ''src'', ''a.go'']"
  "verify_real_path sample_disk ''/w'' [''w'', ''src'', ''a.go''] = None"
  "path_join [''/w'', ''src/a.go''] = ''/w/src/a.go''"
  "equal_fold plain_unicode ''src'' ''.git'' = False"
  "equal_fold plain_unicode ''a.go'' ''.git'' = False"
  by code_simp+

lemma sample_resolve:
  "resolve plain_unicode sample_disk ''/w'' ''src/./a.go'' OpWrite = Inr (''/w/src/a.go'', ''src/a.go'')"
  by (simp add: resolve_def sample_clean_path sample_clean sample_walk max_abs_path_len_def Let_def
      del: inspect.simps segs_slash)

lemma sample_root:
  "clean_abs ''/w''" "real_dir (nodes sample_disk) (segs ''/w'')" "nodes_ok (nodes sample_disk)"
  by (auto simp: clean_abs_def is_abs_def clean_def real_dir_def nodes_ok_def sample_disk_def segs_def
      plain_seg_def take_Cons' split: if_splits)

theorem resolve_stays_below_witness:
  "resolve plain_unicode sample_disk ''/w'' ''src/./a.go'' OpWrite = Inr (''/w/src/a.go'', ''src/a.go'')
   \<and> opens_itself (nodes sample_disk) [''w'', ''src'', ''a.go'']"
  using resolve_stays_below [OF sample_resolve sample_root] sample_resolve sample_walk(2)
  by (simp del: segs_slash)

end
