(* ===== verification/Workspace.thy ===== *)
theory Workspace
  imports Sandbox
begin

text \<open>
  Workspaces: the exclude and sensitive rules (\<^verbatim>\<open>internal/workspace/rules.go\<close>), the
  repository's ignore files (\<^verbatim>\<open>gitignore.go\<close>), and the handle that joins them with the
  sandbox (\<^verbatim>\<open>workspace.go\<close>). The ignore cache is modelled twice: without the memo
  (\<open>ignored\<close>) and with the two maps of the code threaded through (\<open>ignored_memo\<close>).
\<close>

section \<open>Rules\<close>

definition default_exclude_rules :: "string list" where
  "default_exclude_rules =
     [''.git/'', ''node_modules/'', ''vendor/'', ''dist/'', ''build/'',
      ''.next/'', ''.cache/'', ''coverage/'', ''*.lock'']"

definition default_sensitive_rules :: "string list" where
  "default_sensitive_rules =
     [''.env'', ''.env.*'', ''*.pem'', ''*.key'', ''id_rsa'', ''id_ed25519'',
      ''credentials*'', ''secrets*'']"

definition fold_for_match :: "unicode \<Rightarrow> string \<Rightarrow> string" where
  "fold_for_match u s = nfc u (to_lower u s)"

text \<open>One rule of the loop, already folded, against the folded path.\<close>

definition rule_matches :: "string \<Rightarrow> string \<Rightarrow> bool" where
  "rule_matches rule rel =
     (if rule = [] then False
      else if has_suffix rule [slash]
      then List.member (split_on slash rel) (trim_suffix rule [slash])
      else if contains rule [slash] then glob_ok rule rel
      else list_ex (glob_ok rule) (split_on slash rel))"

definition matches_any :: "unicode \<Rightarrow> string list \<Rightarrow> string \<Rightarrow> bool" where
  "matches_any u rules rel =
     list_ex (\<lambda>rule. rule_matches (fold_for_match u (trim_space rule)) (fold_for_match u rel)) rules"

section \<open>Ignore files\<close>

definition max_ignore_file_bytes :: nat where "max_ignore_file_bytes = 262144"
definition max_ignore_patterns :: nat where "max_ignore_patterns = 2000"
definition max_scan_token :: nat where "max_scan_token = 65536"

record ignore_pattern =
  ip_segs :: "string list"
  ip_negate :: bool
  ip_dir_only :: bool

text \<open>
  Trailing spaces, on the reversed line: one goes while the backslashes before it are even
  in number. What is left has its escaped spaces unescaped, left to right.
\<close>

fun drop_spaces :: "string \<Rightarrow> string" where
  "drop_spaces [] = []"
| "drop_spaces (c # cs) =
     (if c \<noteq> CHR '' '' then c # cs
      else if odd (length (takeWhile (\<lambda>b. b = backslash) cs)) then c # cs
      else drop_spaces cs)"

fun unescape_spaces :: "string \<Rightarrow> string" where
  "unescape_spaces (a # b # cs) =
     (if a = backslash \<and> b = CHR '' '' then CHR '' '' # unescape_spaces cs
      else a # unescape_spaces (b # cs))"
| "unescape_spaces cs = cs"

definition trim_unescaped_trailing_space :: "string \<Rightarrow> string" where
  "trim_unescaped_trailing_space line = unescape_spaces (rev (drop_spaces (rev line)))"

definition parse_ignore_line :: "unicode \<Rightarrow> string \<Rightarrow> ignore_pattern option" where
  "parse_ignore_line u line0 =
     (let line = trim_unescaped_trailing_space line0 in
      if line = [] \<or> has_prefix line ''#'' then None
      else let negate = has_prefix line ''!'';
               l1 = (if negate then tl line else line);
               l2 = (if has_prefix l1 [backslash, CHR ''#''] \<or> has_prefix l1 [backslash, CHR ''!'']
                     then tl l1 else l1)
        in if l2 = [] then None
           else let dir_only = has_suffix l2 [slash]; l3 = trim_suffix l2 [slash]
             in if l3 = [] then None
                else let anchored = contains l3 [slash];
                         ss = split_on slash (fold_for_match u (trim_prefix l3 [slash]))
                  in Some \<lparr>ip_segs = (if anchored then ss else ''**'' # ss),
                           ip_negate = negate, ip_dir_only = dir_only\<rparr>)"

text \<open>
  \<open>bufio.Scanner\<close> over the first 256 KiB: lines without their newline and carriage return,
  up to the first line that does not fit the scanner's buffer, which ends the scan.
\<close>

definition drop_cr :: "string \<Rightarrow> string" where
  "drop_cr line = trim_suffix line [CHR 0x0D]"

definition scan_lines :: "string \<Rightarrow> string list" where
  "scan_lines content =
     (let ls = split_on CHR 0x0A (take max_ignore_file_bytes content);
          ls' = (if last ls = [] then butlast ls else ls)
      in map drop_cr (takeWhile (\<lambda>l. length l < max_scan_token) ls'))"

definition parse_ignore_file :: "unicode \<Rightarrow> string \<Rightarrow> ignore_pattern list" where
  "parse_ignore_file u content =
     take max_ignore_patterns (List.map_filter (parse_ignore_line u) (scan_lines content))"

definition read_ignore_file :: "unicode \<Rightarrow> disk \<Rightarrow> string \<Rightarrow> ignore_pattern list" where
  "read_ignore_file u d dir =
     (case read_file d (segs (path_join [dir, ''.gitignore''])) of
        Inl e \<Rightarrow> []
      | Inr content \<Rightarrow> parse_ignore_file u content)"

fun match_segments :: "string list \<Rightarrow> string list \<Rightarrow> bool" where
  "match_segments [] name = (name = [])"
| "match_segments (p # ps) name =
     (if p = ''**'' then list_ex (\<lambda>i. match_segments ps (drop i name)) [0..<Suc (length name)]
      else (case name of
          [] \<Rightarrow> False
        | n # ns \<Rightarrow> if \<not> glob_ok p n then False else match_segments ps ns))"

definition pattern_matches :: "ignore_pattern \<Rightarrow> string list \<Rightarrow> bool \<Rightarrow> bool" where
  "pattern_matches p rest is_dir =
     (if ip_dir_only p \<and> \<not> is_dir then False else match_segments (ip_segs p) rest)"

text \<open>The verdict of all files from the root down; \<open>rules\<close> gives each directory's patterns.\<close>

definition apply_patterns :: "ignore_pattern list \<Rightarrow> string list \<Rightarrow> bool \<Rightarrow> bool \<Rightarrow> bool" where
  "apply_patterns ps rest is_dir ignored =
     foldl (\<lambda>ign p. if pattern_matches p rest is_dir then \<not> ip_negate p else ign) ignored ps"

definition ignore_verdict ::
  "(string list \<Rightarrow> ignore_pattern list) \<Rightarrow> string list \<Rightarrow> string list \<Rightarrow> bool \<Rightarrow> bool" where
  "ignore_verdict rules ss folded is_dir =
     foldl (\<lambda>ign depth. apply_patterns (rules (take depth ss)) (drop depth folded) is_dir ign)
       False [0..<length ss]"

text \<open>What is before the last separator, when that is not the first byte.\<close>

definition parent_of :: "string \<Rightarrow> string option" where
  "parent_of rel =
     (case dropWhile (\<lambda>c. c \<noteq> slash) (rev rel) of
        [] \<Rightarrow> None
      | _ # r \<Rightarrow> if r = [] then None else Some (rev r))"

lemma parent_of_shorter: "parent_of rel = Some p \<Longrightarrow> length p < length rel"
  using length_dropWhile_le [of "\<lambda>c. c \<noteq> slash" "rev rel"]
  by (auto simp: parent_of_def split: list.splits if_splits)

function ignored :: "unicode \<Rightarrow> (string list \<Rightarrow> ignore_pattern list) \<Rightarrow> string \<Rightarrow> bool \<Rightarrow> bool" where
  "ignored u rules rel is_dir =
     (if rel = [] then False
      else if (case parent_of rel of None \<Rightarrow> False | Some p \<Rightarrow> ignored u rules p True) then True
      else ignore_verdict rules (split_on slash rel) (split_on slash (fold_for_match u rel)) is_dir)"
  by pat_completeness auto
termination
  by (relation "measure (\<lambda>(u, rules, rel, is_dir). length rel)") (auto dest: parent_of_shorter)

declare ignored.simps [simp del]

definition dir_rules :: "unicode \<Rightarrow> disk \<Rightarrow> string \<Rightarrow> string list \<Rightarrow> ignore_pattern list" where
  "dir_rules u d root dir = read_ignore_file u d (path_join (root # dir))"

section \<open>The cache\<close>

record ignore_cache =
  ic_dirs :: "string \<rightharpoonup> ignore_pattern list"
  ic_verdict :: "string \<rightharpoonup> bool"

definition new_ignore_cache :: ignore_cache where
  "new_ignore_cache = \<lparr>ic_dirs = Map.empty, ic_verdict = Map.empty\<rparr>"

definition rules_for ::
  "unicode \<Rightarrow> disk \<Rightarrow> string \<Rightarrow> string list \<Rightarrow> ignore_cache \<Rightarrow> ignore_pattern list \<times> ignore_cache" where
  "rules_for u d root dir c =
     (let key = join_with [slash] dir in
      case ic_dirs c key of
        Some r \<Rightarrow> (r, c)
      | None \<Rightarrow> (let r = dir_rules u d root dir in (r, c\<lparr>ic_dirs := (ic_dirs c)(key \<mapsto> r)\<rparr>)))"

fun verdict_memo ::
  "unicode \<Rightarrow> disk \<Rightarrow> string \<Rightarrow> string list \<Rightarrow> string list \<Rightarrow> bool \<Rightarrow> bool \<Rightarrow> nat list \<Rightarrow> ignore_cache
     \<Rightarrow> bool \<times> ignore_cache" where
  "verdict_memo u d root ss folded is_dir ign [] c = (ign, c)"
| "verdict_memo u d root ss folded is_dir ign (k # ks) c =
     (let (ps, c') = rules_for u d root (take k ss) c in
      if ps = [] then verdict_memo u d root ss folded is_dir ign ks c'
      else verdict_memo u d root ss folded is_dir
             (apply_patterns ps (drop k folded) is_dir ign) ks c')"

text \<open>\<open>ignored_memo\<close> and, inlined for the parent, \<open>dirIgnored\<close>.\<close>

function ignored_memo ::
  "unicode \<Rightarrow> disk \<Rightarrow> string \<Rightarrow> string \<Rightarrow> bool \<Rightarrow> ignore_cache \<Rightarrow> bool \<times> ignore_cache"
  and dir_ignored :: "unicode \<Rightarrow> disk \<Rightarrow> string \<Rightarrow> string \<Rightarrow> ignore_cache \<Rightarrow> bool \<times> ignore_cache" where
  "ignored_memo u d root rel is_dir c =
     (if rel = [] then (False, c)
      else let (above, c') = (case parent_of rel of
                                None \<Rightarrow> (False, c)
                              | Some p \<Rightarrow> dir_ignored u d root p c)
        in if above then (True, c')
           else verdict_memo u d root (split_on slash rel) (split_on slash (fold_for_match u rel))
                  is_dir False [0..<length (split_on slash rel)] c')"
| "dir_ignored u d root rel c =
     (case ic_verdict c rel of
        Some v \<Rightarrow> (v, c)
      | None \<Rightarrow>
          (let (v, c') = ignored_memo u d root rel True c
           in (v, c'\<lparr>ic_verdict := (ic_verdict c')(rel \<mapsto> v)\<rparr>)))"
  by pat_completeness auto
termination
  by (relation "measure (\<lambda>x. case x of
        Inl (u, d, root, rel, is_dir, c) \<Rightarrow> 2 * length rel
      | Inr (u, d, root, rel, c) \<Rightarrow> Suc (2 * length rel))") (auto dest: parent_of_shorter)

declare ignored_memo.simps [simp del] dir_ignored.simps [simp del]

section \<open>The handle\<close>

datatype root_error = RootResolve os_error | RootCheck os_error | RootNotDirectory | ErrRemoteRoot | RootFilesystem string

text \<open>
  The kind of file system a path sits on is the platform's answer (\<^verbatim>\<open>nonLocalFS\<close>): empty
  for a local one, an error when it cannot be asked. \<open>cwd\<close> is the process's directory.
\<close>

record machine =
  nonlocal_fs :: "string \<Rightarrow> string + string"
  cwd :: string

definition check_local_root :: "machine \<Rightarrow> string \<Rightarrow> root_error option" where
  "check_local_root m real =
     (case nonlocal_fs m real of
        Inl e \<Rightarrow> Some (RootFilesystem e)
      | Inr kind \<Rightarrow> if kind = [] then None else Some ErrRemoteRoot)"

definition file_abs :: "machine \<Rightarrow> string \<Rightarrow> string" where
  "file_abs m p = (if is_abs p then clean p else path_join [cwd m, p])"

definition resolve_root :: "machine \<Rightarrow> disk \<Rightarrow> string \<Rightarrow> root_error + string" where
  "resolve_root m d root =
     (case eval_symlinks d (segs (file_abs m root)) of
        Inl e \<Rightarrow> Inl (RootResolve e)
      | Inr q \<Rightarrow>
          (case follow d q of
             Inl e \<Rightarrow> Inl (RootCheck e)
           | Inr (q', n) \<Rightarrow>
               if n \<noteq> Dir then Inl RootNotDirectory
               else let real = slash # join_with [slash] q in
                 (case check_local_root m real of Some e \<Rightarrow> Inl e | None \<Rightarrow> Inr real)))"

record workspace =
  ws_id :: string
  ws_name :: string
  ws_root :: string
  ws_writable :: bool
  ws_exclude :: "string list"
  ws_sensitive :: "string list"
  ws_network :: bool

text \<open>The stored row (\<^verbatim>\<open>store/workspace.go\<close>) a handle is built from.\<close>

datatype ws_mode = ReadOnly | ReadWrite | OtherMode string

record workspace_row =
  wr_id :: string
  wr_name :: string
  wr_root :: string
  wr_mode :: ws_mode
  wr_exclude :: "string list"
  wr_sensitive :: "string list"
  wr_status :: string
  wr_network :: string

definition new_workspace :: "(string \<Rightarrow> string) \<Rightarrow> machine \<Rightarrow> disk \<Rightarrow> string \<Rightarrow> root_error + workspace" where
  "new_workspace sha_id m d root =
     (case resolve_root m d root of
        Inl e \<Rightarrow> Inl e
      | Inr real \<Rightarrow> Inr \<lparr>ws_id = ''ws_'' @ sha_id real, ws_name = path_base real, ws_root = real,
          ws_writable = True, ws_exclude = default_exclude_rules,
          ws_sensitive = default_sensitive_rules, ws_network = False\<rparr>)"

definition from_record :: "machine \<Rightarrow> disk \<Rightarrow> workspace_row \<Rightarrow> root_error + workspace" where
  "from_record m d rec =
     (case resolve_root m d (wr_root rec) of
        Inl e \<Rightarrow> Inl e
      | Inr real \<Rightarrow> Inr \<lparr>ws_id = wr_id rec, ws_name = wr_name rec, ws_root = real,
          ws_writable = (wr_mode rec = ReadWrite), ws_exclude = wr_exclude rec,
          ws_sensitive = wr_sensitive rec, ws_network = (wr_network rec \<noteq> ''deny'')\<rparr>)"

definition excluded :: "unicode \<Rightarrow> disk \<Rightarrow> workspace \<Rightarrow> string \<Rightarrow> bool \<Rightarrow> bool" where
  "excluded u d w rel is_dir =
     (matches_any u (ws_exclude w) rel \<or> ignored u (dir_rules u d (ws_root w)) rel is_dir)"

definition sensitive :: "unicode \<Rightarrow> workspace \<Rightarrow> string \<Rightarrow> bool" where
  "sensitive u w rel = matches_any u (ws_sensitive w) rel"

definition ws_resolve :: "unicode \<Rightarrow> disk \<Rightarrow> workspace \<Rightarrow> string \<Rightarrow> op \<Rightarrow> path_error + string \<times> string" where
  "ws_resolve u d w rel op = resolve u d (ws_root w) rel op"

section \<open>Segment patterns\<close>

lemma chunks_Cons:
  "(\<exists>chunks. concat chunks = name \<and> list_all2 R (p # ps) chunks) \<longleftrightarrow>
   (\<exists>ch rest. name = ch @ rest \<and> R p ch \<and> (\<exists>cs. concat cs = rest \<and> list_all2 R ps cs))"
proof
  assume "\<exists>chunks. concat chunks = name \<and> list_all2 R (p # ps) chunks"
  then show "\<exists>ch rest. name = ch @ rest \<and> R p ch \<and> (\<exists>cs. concat cs = rest \<and> list_all2 R ps cs)"
    by (auto simp: list_all2_Cons1) blast
next
  assume "\<exists>ch rest. name = ch @ rest \<and> R p ch \<and> (\<exists>cs. concat cs = rest \<and> list_all2 R ps cs)"
  then obtain ch cs where "name = concat (ch # cs)" "list_all2 R (p # ps) (ch # cs)" by auto
  then show "\<exists>chunks. concat chunks = name \<and> list_all2 R (p # ps) chunks" by blast
qed

text \<open>
  C25. The matcher of ignore patterns against its specification: the name is cut into one
  chunk per pattern segment, any chunk at all for a \<^verbatim>\<open>**\<close> and one matching segment for
  every other.
\<close>
theorem match_segments_spec:
  "match_segments ps name \<longleftrightarrow>
     (\<exists>chunks. concat chunks = name \<and>
       list_all2 (\<lambda>p ch. if p = ''**'' then True else \<exists>n. ch = [n] \<and> glob_ok p n) ps chunks)"
proof (induction ps arbitrary: name)
  case (Cons p ps)
  let ?R = "\<lambda>p ch. if p = ''**'' then True else \<exists>n. ch = [n] \<and> glob_ok p n"
  have split: "(\<exists>chunks. concat chunks = name \<and> list_all2 ?R (p # ps) chunks) \<longleftrightarrow>
      (\<exists>ch rest. name = ch @ rest \<and> ?R p ch \<and> match_segments ps rest)"
    unfolding Cons.IH by (rule chunks_Cons)
  show ?case
  proof (cases "p = ''**''")
    case True
    have "list_ex (\<lambda>i. match_segments ps (drop i name)) [0..<Suc (length name)] \<longleftrightarrow>
        (\<exists>ch rest. name = ch @ rest \<and> match_segments ps rest)"
    proof
      assume "list_ex (\<lambda>i. match_segments ps (drop i name)) [0..<Suc (length name)]"
      then obtain i where "match_segments ps (drop i name)" unfolding list_ex_iff by blast
      then show "\<exists>ch rest. name = ch @ rest \<and> match_segments ps rest"
        by (metis append_take_drop_id)
    next
      assume "\<exists>ch rest. name = ch @ rest \<and> match_segments ps rest"
      then obtain ch rest where "name = ch @ rest" "match_segments ps rest" by blast
      then show "list_ex (\<lambda>i. match_segments ps (drop i name)) [0..<Suc (length name)]"
        by (auto simp: list_ex_iff intro!: bexI [where x = "length ch"])
    qed
    with True show ?thesis unfolding split by simp
  next
    case False
    have "(\<exists>ch rest. name = ch @ rest \<and> (\<exists>n. ch = [n] \<and> glob_ok p n) \<and> match_segments ps rest) \<longleftrightarrow>
        (\<exists>n rest. name = n # rest \<and> glob_ok p n \<and> match_segments ps rest)"
      by (metis append_Cons append_Nil)
    with False show ?thesis unfolding split by (auto split: list.splits)
  qed
qed auto

section \<open>Below an ignored directory\<close>

lemma parent_of_below:
  assumes "a \<noteq> []"
  shows "\<exists>p. parent_of (a @ slash # b) = Some p \<and> (p = a \<or> (\<exists>b'. p = a @ slash # b' \<and> length b' < length b))"
proof (cases "slash \<in> set b")
  case False
  then have "dropWhile (\<lambda>c. c \<noteq> slash) (rev (a @ slash # b)) = slash # rev a"
    by (auto simp: dropWhile_append3 dropWhile_append2)
  with assms show ?thesis by (simp add: parent_of_def)
next
  case True
  then obtain b1 b2 where b: "b = b1 @ slash # b2" "slash \<notin> set b2"
    by (metis split_list_last)
  have "dropWhile (\<lambda>c. c \<noteq> slash) (rev (a @ slash # b)) = slash # rev (a @ slash # b1)"
    using b by (auto simp: dropWhile_append3 dropWhile_append2)
  then have "parent_of (a @ slash # b) = Some (a @ slash # b1)"
    by (simp add: parent_of_def)
  with b show ?thesis by auto
qed

lemma ignored_below:
  "ignored u rules a True \<Longrightarrow> ignored u rules (a @ slash # b) is_dir"
proof (induction "length b" arbitrary: b is_dir rule: less_induct)
  case less
  have a: "a \<noteq> []" using less.prems by (auto simp: ignored.simps)
  from parent_of_below [OF this, of b] obtain p where
    p: "parent_of (a @ slash # b) = Some p" "p = a \<or> (\<exists>b'. p = a @ slash # b' \<and> length b' < length b)"
    by blast
  have "ignored u rules p True"
    using p(2) less.prems less.hyps by blast
  with p(1) show ?case by (subst ignored.simps) simp
qed

section \<open>The line that decides\<close>

text \<open>
  The lines of all ignore files that match a path, from the root down and each file in its
  order, and what the last of them says.
\<close>

definition matching_lines ::
  "unicode \<Rightarrow> (string list \<Rightarrow> ignore_pattern list) \<Rightarrow> string list \<Rightarrow> bool \<Rightarrow> ignore_pattern list" where
  "matching_lines u rules ss is_dir =
     concat (map (\<lambda>depth. filter (\<lambda>p. pattern_matches p
         (drop depth (split_on slash (fold_for_match u (join_with [slash] ss)))) is_dir) (rules (take depth ss)))
       [0..<length ss])"

definition last_line_hides :: "bool \<Rightarrow> ignore_pattern list \<Rightarrow> bool" where
  "last_line_hides before ps = (case rev ps of [] \<Rightarrow> before | p # _ \<Rightarrow> \<not> ip_negate p)"

lemma last_line_append: "last_line_hides b (ps @ qs) = last_line_hides (last_line_hides b ps) qs"
  by (cases "rev qs") (simp_all add: last_line_hides_def)

lemma apply_patterns_last:
  "apply_patterns ps rest is_dir b = last_line_hides b (filter (\<lambda>p. pattern_matches p rest is_dir) ps)"
proof (induction ps arbitrary: b)
  case Nil
  then show ?case by (simp add: apply_patterns_def last_line_hides_def)
next
  case (Cons p ps)
  then show ?case
    using last_line_append [of b "[p]" "filter (\<lambda>p. pattern_matches p rest is_dir) ps"]
    by (simp add: apply_patterns_def) (simp add: last_line_hides_def)
qed

lemma ignore_verdict_last:
  "ignore_verdict rules ss folded is_dir = last_line_hides False
     (concat (map (\<lambda>depth. filter (\<lambda>p. pattern_matches p (drop depth folded) is_dir) (rules (take depth ss))) [0..<length ss]))"
proof -
  have "foldl (\<lambda>ign depth. apply_patterns (rules (take depth ss)) (drop depth folded) is_dir ign) b ds = last_line_hides b
     (concat (map (\<lambda>depth. filter (\<lambda>p. pattern_matches p (drop depth folded) is_dir) (rules (take depth ss))) ds))" for b ds
    by (induction ds arbitrary: b) (simp_all add: apply_patterns_last last_line_append, simp add: last_line_hides_def)
  then show ?thesis by (simp add: ignore_verdict_def)
qed

lemma split_on_at: "split_on c (a @ c # b) = split_on c a @ split_on c b"
  by (induction a) (auto split: list.splits)

lemma parent_segments:
  assumes "list_all plain_seg (split_on slash rel)"
  shows "case parent_of rel of None \<Rightarrow> length (split_on slash rel) = 1
    | Some p \<Rightarrow> \<exists>s. split_on slash rel = split_on slash p @ [s]"
proof -
  define t where "t = takeWhile (\<lambda>c. c \<noteq> slash) (rev rel)"
  define r where "r = dropWhile (\<lambda>c. c \<noteq> slash) (rev rel)"
  have tr: "rev rel = t @ r" by (simp add: t_def r_def)
  have t: "slash \<notin> set (rev t)" by (auto simp: t_def dest: set_takeWhileD)
  show ?thesis
  proof (cases r)
    case Nil
    then have "rel = rev t" using tr by (metis append_Nil2 rev_rev_ident)
    then have "split_on slash rel = [rel]" using t split_on_no_sep by simp
    moreover have "parent_of rel = None" unfolding parent_of_def Nil [unfolded r_def] by simp
    ultimately show ?thesis by simp
  next
    case (Cons c q)
    have "c = slash" using Cons hd_dropWhile [of "\<lambda>c. c \<noteq> slash" "rev rel"] by (auto simp: r_def)
    then have rel: "rel = rev q @ slash # rev t"
      using tr Cons by (metis append.assoc append_Cons append_Nil rev.simps(2) rev_append rev_rev_ident)
    then have sp: "split_on slash rel = split_on slash (rev q) @ [rev t]"
      using t by (simp add: split_on_at split_on_no_sep)
    have "q \<noteq> []" using assms sp by (auto simp: plain_seg_def)
    then have "parent_of rel = Some (rev q)" using Cons by (simp add: parent_of_def r_def)
    with sp show ?thesis by simp
  qed
qed

lemma ignored_lines:
  assumes "list_all plain_seg (split_on slash rel)"
  shows "ignored u rules rel is_dir \<longleftrightarrow>
    list_ex (\<lambda>k. last_line_hides False (matching_lines u rules (take k (split_on slash rel))
      (k < length (split_on slash rel) \<or> is_dir))) [1..<Suc (length (split_on slash rel))]"
  using assms
proof (induction "length rel" arbitrary: rel is_dir rule: less_induct)
  case less
  let ?ss = "split_on slash rel"
  let ?h = "\<lambda>ss is_dir. last_line_hides False (matching_lines u rules ss is_dir)"
  have ne: "rel \<noteq> []" using less.prems by (auto simp: plain_seg_def)
  have v: "ignore_verdict rules ?ss (split_on slash (fold_for_match u rel)) is_dir = ?h ?ss is_dir"
    by (simp add: ignore_verdict_last matching_lines_def)
  show ?case
  proof (cases "parent_of rel")
    case None
    with parent_segments [OF less.prems] have "length ?ss = 1" by simp
    with None ne show ?thesis by (subst ignored.simps) (simp add: v)
  next
    case (Some p)
    with parent_segments [OF less.prems] obtain s where sp: "?ss = split_on slash p @ [s]" by auto
    let ?n = "length (split_on slash p)"
    have "list_all plain_seg (split_on slash p)" using less.prems sp by simp
    from less.hyps [OF parent_of_shorter [OF Some] this, of True]
    have IH: "ignored u rules p True \<longleftrightarrow> list_ex (\<lambda>k. ?h (take k (split_on slash p)) True) [1..<Suc ?n]" by simp
    have "ignored u rules rel is_dir \<longleftrightarrow> ignored u rules p True \<or> ?h ?ss is_dir"
      using Some ne v by (subst ignored.simps) auto
    also have "\<dots> \<longleftrightarrow> (\<exists>k \<in> {1..<Suc ?n}. ?h (take k ?ss) True) \<or> ?h ?ss is_dir"
      by (simp add: IH sp list_ex_iff del: upt_Suc)
    also have "\<dots> \<longleftrightarrow> (\<exists>k \<in> {1..<Suc (Suc ?n)}. ?h (take k ?ss) (k < Suc ?n \<or> is_dir))"
    proof -
      have "{1..<Suc (Suc ?n)} = insert (Suc ?n) {1..<Suc ?n}" by auto
      then show ?thesis by (simp add: sp) auto
    qed
    finally show ?thesis by (simp add: sp list_ex_iff del: upt_Suc take_append)
  qed
qed

section \<open>The memo changes no answer\<close>

definition cache_ok :: "unicode \<Rightarrow> disk \<Rightarrow> string \<Rightarrow> ignore_cache \<Rightarrow> bool" where
  "cache_ok u d root c \<longleftrightarrow>
     (\<forall>dir r. list_all plain_seg dir \<longrightarrow> ic_dirs c (join_with [slash] dir) = Some r \<longrightarrow>
        r = dir_rules u d root dir)
     \<and> (\<forall>rel v. ic_verdict c rel = Some v \<longrightarrow> v = ignored u (dir_rules u d root) rel True)"

lemma cache_ok_new: "cache_ok u d root new_ignore_cache"
  by (simp add: cache_ok_def new_ignore_cache_def)

lemma rules_for_ok:
  assumes "cache_ok u d root c" and "list_all plain_seg dir"
  shows "fst (rules_for u d root dir c) = dir_rules u d root dir \<and> cache_ok u d root (snd (rules_for u d root dir c))"
proof (cases "ic_dirs c (join_with [slash] dir)")
  case (Some r)
  with assms show ?thesis by (auto simp: rules_for_def cache_ok_def)
next
  case None
  have "dir' = dir" if "list_all plain_seg dir'" "join_with [slash] dir' = join_with [slash] dir" for dir'
    using that assms(2) segs_join by metis
  with assms None show ?thesis by (auto simp: rules_for_def cache_ok_def Let_def)
qed

lemma verdict_memo_ok:
  assumes "cache_ok u d root c" and "list_all plain_seg ss"
  shows "fst (verdict_memo u d root ss folded is_dir ign ks c) =
       foldl (\<lambda>ign depth. apply_patterns (dir_rules u d root (take depth ss)) (drop depth folded) is_dir ign) ign ks
     \<and> cache_ok u d root (snd (verdict_memo u d root ss folded is_dir ign ks c))"
  using assms(1)
proof (induction ks arbitrary: ign c)
  case (Cons k ks)
  have "list_all plain_seg (take k ss)"
    using assms(2) by (auto simp: list_all_iff dest: in_set_takeD)
  from rules_for_ok [OF Cons.prems this] obtain ps c' where
    r: "rules_for u d root (take k ss) c = (ps, c')" "ps = dir_rules u d root (take k ss)" "cache_ok u d root c'"
    by (metis prod.collapse)
  show ?case
    using Cons.IH [OF r(3)] r by (simp add: apply_patterns_def)
qed simp

lemma parent_plain:
  assumes "list_all plain_seg (split_on slash rel)" and "parent_of rel = Some p"
  shows "list_all plain_seg (split_on slash p)"
proof -
  define r where "r = dropWhile (\<lambda>c. c \<noteq> slash) (rev rel)"
  from assms(2) obtain c cs where r': "r = c # cs" "p = rev cs"
    by (auto simp: parent_of_def r_def split: list.splits if_splits)
  then have "c = slash" using hd_dropWhile [of "\<lambda>c. c \<noteq> slash" "rev rel"] by (auto simp: r_def)
  moreover have "rev rel = takeWhile (\<lambda>c. c \<noteq> slash) (rev rel) @ r" by (simp add: r_def)
  ultimately have "rel = p @ slash # rev (takeWhile (\<lambda>c. c \<noteq> slash) (rev rel))"
    using r' by (metis append.assoc append_Cons append_Nil rev.simps(2) rev_append rev_rev_ident)
  moreover have "split_on slash (a @ slash # b) = split_on slash a @ split_on slash b" for a b
    by (induction a) (auto split: list.splits)
  ultimately show ?thesis using assms(1) by (metis list_all_append)
qed

lemma ignored_memo_ok:
  assumes "cache_ok u d root c" and "list_all plain_seg (split_on slash rel)"
  shows "fst (ignored_memo u d root rel is_dir c) = ignored u (dir_rules u d root) rel is_dir
     \<and> cache_ok u d root (snd (ignored_memo u d root rel is_dir c))"
  using assms
proof (induction "length rel" arbitrary: rel is_dir c rule: less_induct)
  case less
  let ?ans = "case parent_of rel of None \<Rightarrow> (False, c) | Some p \<Rightarrow> dir_ignored u d root p c"
  have above: "fst ?ans = (case parent_of rel of None \<Rightarrow> False | Some p \<Rightarrow> ignored u (dir_rules u d root) p True)
      \<and> cache_ok u d root (snd ?ans)"
  proof (cases "parent_of rel")
    case (Some p)
    note IH = less.hyps [OF parent_of_shorter [OF Some] less.prems(1) parent_plain [OF less.prems(2) Some], of True]
    show ?thesis
    proof (cases "ic_verdict c p")
      case None
      with IH Some show ?thesis
        by (auto simp: dir_ignored.simps cache_ok_def split_beta)
    qed (use less.prems(1) Some in \<open>auto simp: dir_ignored.simps cache_ok_def\<close>)
  qed (use less.prems in simp)
  obtain v c' where vc: "?ans = (v, c')" by (cases ?ans)
  show ?case
    using verdict_memo_ok [OF _ less.prems(2), of u d root c' "split_on slash (fold_for_match u rel)" is_dir False
        "[0..<length (split_on slash rel)]"] above less.prems(1)
    unfolding ignored_memo.simps [of u d root rel is_dir c] ignored.simps [of u "dir_rules u d root" rel is_dir] vc
    by (auto simp: ignore_verdict_def)
qed

text \<open>One listing or search: its questions in order, over one cache.\<close>

fun ask_all :: "unicode \<Rightarrow> disk \<Rightarrow> string \<Rightarrow> (string \<times> bool) list \<Rightarrow> ignore_cache \<Rightarrow> bool list" where
  "ask_all u d root [] c = []"
| "ask_all u d root ((rel, is_dir) # qs) c =
     (let (v, c') = ignored_memo u d root rel is_dir c in v # ask_all u d root qs c')"

lemma ask_all_ok:
  assumes "cache_ok u d root c" and "list_all (\<lambda>(rel, is_dir). list_all plain_seg (split_on slash rel)) qs"
  shows "ask_all u d root qs c = map (\<lambda>(rel, is_dir). ignored u (dir_rules u d root) rel is_dir) qs"
  using assms
proof (induction qs arbitrary: c)
  case (Cons q qs)
  obtain rel b where q: "q = (rel, b)" by (cases q)
  from ignored_memo_ok [of u d root c rel b] Cons.prems q
  obtain c' where "ignored_memo u d root rel b c = (ignored u (dir_rules u d root) rel b, c')" "cache_ok u d root c'"
    by (cases "ignored_memo u d root rel b c") auto
  with Cons q show ?case by simp
qed simp

section \<open>What a handle promises\<close>

lemma resolve_root_real:
  assumes "resolve_root m d root = Inr real"
  shows "clean_abs real" and "real_dir (nodes d) (segs real)" and "nonlocal_fs m real = Inr []"
proof -
  from assms obtain q q' where e: "eval_symlinks d (segs (file_abs m root)) = Inr q"
    and f: "follow d q = Inr (q', Dir)" and r: "real = slash # join_with [slash] q"
    and l: "check_local_root m real = None"
    by (auto simp: resolve_root_def Let_def split: sum.splits if_splits option.splits)
  from e have w: "walk (nodes d) eval_links [] (segs (file_abs m root)) = Inr q"
    by (auto simp: eval_symlinks_def split: sum.splits if_splits)
  have "list_all (\<lambda>s. slash \<notin> set s) (segs (file_abs m root))"
    using split_on_seg by (auto simp: segs_def list_all_iff)
  from walk_arrives [OF w _ this] consider
      "real_dir (nodes d) q"
    | "dirs_to (nodes d) q" "\<exists>n. map_of (nodes d) q = Some n \<and> (\<forall>t. n \<noteq> Link t)"
    by auto
  then have rd: "real_dir (nodes d) q"
  proof cases
    case 2
    then obtain n where n: "map_of (nodes d) q = Some n" "\<forall>t. n \<noteq> Link t" by blast
    show ?thesis
    proof (cases q rule: rev_cases)
      case (snoc p s)
      with 2 have "real_dir (nodes d) p" "plain_seg s" by (simp_all add: dirs_to_snoc)
      with n f walk_last [of "nodes d" p s n kernel_links] snoc show ?thesis
        by (auto simp: follow_def node_at_def real_dir_snoc split: if_splits option.splits)
    qed simp
  qed
  then have pl: "list_all plain_seg q" by (simp add: real_dir_def)
  show "clean_abs real" unfolding r by (rule clean_absI [OF pl])
  show "real_dir (nodes d) (segs real)" using rd pl by (simp add: r segs_join)
  show "nonlocal_fs m real = Inr []" using l by (auto simp: check_local_root_def split: sum.splits if_splits)
qed

text \<open>
  C19. A handle opened from a stored row, whatever links the row's path leads through, has a
  root on a local file system, and every path its \<open>Resolve\<close> hands out lies below that root
  and opens itself: no link leads out of the workspace.
\<close>
theorem opened_workspace_confines:
  assumes "from_record m d rec = Inr w" and "ws_resolve u d w rel op = Inr (full, c)" and "nodes_ok (nodes d)"
  shows "nonlocal_fs m (ws_root w) = Inr []
    \<and> strict_prefix (segs (ws_root w)) (segs full) \<and> opens_itself (nodes d) (segs full)"
proof -
  from assms(1) have r: "resolve_root m d (wr_root rec) = Inr (ws_root w)"
    by (auto simp: from_record_def split: sum.splits)
  note rr = resolve_root_real [OF r]
  have res: "resolve u d (ws_root w) rel op = Inr (full, c)" using assms(2) by (simp add: ws_resolve_def)
  note s = resolve_segs [OF res rr(1)]
  have "strict_prefix (segs (ws_root w)) (segs full)"
    by (simp add: s(1) strict_prefix_def)
  with rr(3) resolve_opens_itself [OF res rr(1,2) assms(3)] show ?thesis by blast
qed

definition sample_machine :: machine where
  "sample_machine = \<lparr>nonlocal_fs = (\<lambda>p. Inr []), cwd = ''/''\<rparr>"

definition sample_row :: workspace_row where
  "sample_row = \<lparr>wr_id = ''ws_1'', wr_name = ''w'', wr_root = ''/etc/../w'', wr_mode = ReadWrite,
     wr_exclude = default_exclude_rules, wr_sensitive = default_sensitive_rules,
     wr_status = ''active'', wr_network = ''allow''\<rparr>"

definition sample_ws :: workspace where
  "sample_ws = \<lparr>ws_id = ''ws_1'', ws_name = ''w'', ws_root = ''/w'', ws_writable = True,
     ws_exclude = default_exclude_rules, ws_sensitive = default_sensitive_rules, ws_network = True\<rparr>"

lemma sample_opened: "from_record sample_machine sample_disk sample_row = Inr sample_ws"
  by code_simp

theorem opened_workspace_confines_witness:
  "from_record sample_machine sample_disk sample_row = Inr sample_ws
   \<and> strict_prefix (segs ''/w'') (segs ''/w/src/a.go'')"
  using opened_workspace_confines [OF sample_opened, of plain_unicode "''src/./a.go''" OpWrite "''/w/src/a.go''" "''src/a.go''"]
    sample_resolve sample_root(3) sample_opened
  by (simp add: ws_resolve_def sample_ws_def)

definition ignore_text :: string where
  "ignore_text = ''out/'' @ [CHR 0x0A] @ ''!out/keep.txt''"

definition ignore_disk :: disk where
  "ignore_disk = \<lparr>nodes = [([''w''], Dir), ([''w'', ''out''], Dir),
      ([''w'', ''.gitignore''], File ignore_text 420)],
     denied = (\<lambda>p. False), faults = []\<rparr>"

lemma ignore_disk_lines:
  "scan_lines ignore_text = [''out/'', ''!out/keep.txt'']"
  by (simp add: ignore_text_def scan_lines_def max_ignore_file_bytes_def max_scan_token_def drop_cr_def trim_suffix_def has_suffix_def)

lemma ignore_disk_file:
  "read_file ignore_disk (segs (path_join [path_join [''/w''], ''.gitignore''])) =
     Inr ignore_text"
  by code_simp

lemma ignore_disk_patterns:
  "parse_ignore_line plain_unicode ''out/'' =
     Some \<lparr>ip_segs = [''**'', ''out''], ip_negate = False, ip_dir_only = True\<rparr>"
  "parse_ignore_line plain_unicode ''!out/keep.txt'' =
     Some \<lparr>ip_segs = [''out'', ''keep.txt''], ip_negate = True, ip_dir_only = False\<rparr>"
  by code_simp+

lemma ignore_disk_rules:
  "dir_rules plain_unicode ignore_disk ''/w'' [] =
     [\<lparr>ip_segs = [''**'', ''out''], ip_negate = False, ip_dir_only = True\<rparr>,
      \<lparr>ip_segs = [''out'', ''keep.txt''], ip_negate = True, ip_dir_only = False\<rparr>]"
  by (simp add: dir_rules_def read_ignore_file_def ignore_disk_file parse_ignore_file_def ignore_disk_lines
      ignore_disk_patterns max_ignore_patterns_def)

lemma ignore_disk_out: "ignored plain_unicode (dir_rules plain_unicode ignore_disk ''/w'') ''out'' True"
proof -
  have a: "ignore_verdict (\<lambda>_. [\<lparr>ip_segs = [''**'', ''out''], ip_negate = False, ip_dir_only = True\<rparr>,
      \<lparr>ip_segs = [''out'', ''keep.txt''], ip_negate = True, ip_dir_only = False\<rparr>]) [''out''] [''out''] True"
    by code_simp
  have b: "parent_of ''out'' = None" "split_on slash ''out'' = [''out'']" "fold_for_match plain_unicode ''out'' = ''out''" by code_simp+
  show ?thesis using a by (subst ignored.simps) (simp add: b ignore_verdict_def ignore_disk_rules)
qed

text \<open>
  C28. What is hidden, for every canonical path, at the top level or below. A path is excluded
  exactly when one of the workspace's own rules matches it, or the last line that matches it,
  or the last one that matches some directory above it, reading the ignore files from the root
  downwards, is not a negation. So the files on the disk only ever hide more than the
  workspace's rules do, a negation undoes lines about the same path only, and nothing below a
  hidden directory comes back.
\<close>
theorem ignore_rules_only_hide:
  assumes "canonical u rel" and "ss = split_on slash rel"
  shows "excluded u d w rel is_dir \<longleftrightarrow>
    matches_any u (ws_exclude w) rel
    \<or> list_ex (\<lambda>k. last_line_hides False
         (matching_lines u (dir_rules u d (ws_root w)) (take k ss) (k < length ss \<or> is_dir))) [1..<Suc (length ss)]"
  using assms ignored_lines [of rel u "dir_rules u d (ws_root w)" is_dir]
  by (simp add: excluded_def canonical_def del: upt_Suc)

lemma out_name: "validate_component plain_unicode ''out'' = None"
  by (subst validate_component_ascii, code_simp, code_simp)

theorem ignore_rules_only_hide_witness:
  "excluded plain_unicode ignore_disk (sample_ws\<lparr>ws_exclude := []\<rparr>) ''out'' True
   \<and> \<not> excluded plain_unicode ignore_disk (sample_ws\<lparr>ws_exclude := []\<rparr>) ''src'' True"
proof -
  have c: "canonical plain_unicode ''out''" "canonical plain_unicode ''src''"
    by (simp_all add: canonical_def plain_seg_def backslash_def nul_def max_path_len_def sample_names out_name)
  have m: "\<not> matches_any plain_unicode [] rel" for rel by (simp add: matches_any_def Let_def)
  have f: "fold_for_match plain_unicode ''out'' = ''out''" "fold_for_match plain_unicode ''src'' = ''src''" by code_simp+
  have v: "pattern_matches \<lparr>ip_segs = [''**'', ''out''], ip_negate = False, ip_dir_only = True\<rparr> [''out''] True"
    "\<not> pattern_matches \<lparr>ip_segs = [''out'', ''keep.txt''], ip_negate = True, ip_dir_only = False\<rparr> [''out''] True"
    "\<not> pattern_matches \<lparr>ip_segs = [''**'', ''out''], ip_negate = False, ip_dir_only = True\<rparr> [''src''] True"
    "\<not> pattern_matches \<lparr>ip_segs = [''out'', ''keep.txt''], ip_negate = True, ip_dir_only = False\<rparr> [''src''] True"
    by code_simp+
  have r: "dir_rules plain_unicode ignore_disk ''/w'' [] =
     [\<lparr>ip_segs = [''**'', ''out''], ip_negate = False, ip_dir_only = True\<rparr>,
      \<lparr>ip_segs = [''out'', ''keep.txt''], ip_negate = True, ip_dir_only = False\<rparr>]" by (rule ignore_disk_rules)
  have "ws_exclude (sample_ws\<lparr>ws_exclude := []\<rparr>) = []" "ws_root (sample_ws\<lparr>ws_exclude := []\<rparr>) = ''/w''"
    by (simp_all add: sample_ws_def)
  note o = ignore_rules_only_hide [OF c(1) refl, of ignore_disk "sample_ws\<lparr>ws_exclude := []\<rparr>" True, unfolded this]
    and n = ignore_rules_only_hide [OF c(2) refl, of ignore_disk "sample_ws\<lparr>ws_exclude := []\<rparr>" True, unfolded this]
  have l: "matching_lines plain_unicode (dir_rules plain_unicode ignore_disk ''/w'') [''out''] True
      = [\<lparr>ip_segs = [''**'', ''out''], ip_negate = False, ip_dir_only = True\<rparr>]"
    "matching_lines plain_unicode (dir_rules plain_unicode ignore_disk ''/w'') [''src''] True = []"
    using v by (simp_all add: matching_lines_def r f)
  have sp: "split_on slash ''out'' = [''out'']" "split_on slash ''src'' = [''src'']" by simp_all
  show ?thesis unfolding o n sp by (simp add: m l last_line_hides_def)
qed

text \<open>
  C26. One listing or search asks its questions over one cache of parsed ignore files and
  directory verdicts; every answer is the one the ignore files on the disk give afresh.
\<close>
theorem ignore_cache_transparent:
  assumes "list_all (\<lambda>(rel, is_dir). canonical u rel) qs"
  shows "ask_all u d root qs new_ignore_cache =
    map (\<lambda>(rel, is_dir). ignored u (dir_rules u d root) rel is_dir) qs"
  using assms by (intro ask_all_ok cache_ok_new) (auto simp: list_all_iff canonical_def)

theorem ignore_cache_transparent_witness:
  "ask_all plain_unicode ignore_disk ''/w'' [(''src'', True), (''a.go'', False)] new_ignore_cache =
     [ignored plain_unicode (dir_rules plain_unicode ignore_disk ''/w'') ''src'' True,
      ignored plain_unicode (dir_rules plain_unicode ignore_disk ''/w'') ''a.go'' False]"
proof -
  have "canonical plain_unicode ''src''" "canonical plain_unicode ''a.go''"
    by (simp_all add: canonical_def sample_names plain_seg_def backslash_def nul_def max_path_len_def)
  then show ?thesis
    using ignore_cache_transparent [of plain_unicode "[(''src'', True), (''a.go'', False)]"] by simp
qed

section \<open>The built-in rule sets\<close>

lemma folded_exclude:
  "map (\<lambda>r. fold_for_match u (trim_space r)) default_exclude_rules = default_exclude_rules"
  by code_simp
lemma folded_sensitive:
  "map (\<lambda>r. fold_for_match u (trim_space r)) default_sensitive_rules = default_sensitive_rules"
  by code_simp

definition default_excluded_name :: "string \<Rightarrow> bool" where
  "default_excluded_name s \<longleftrightarrow>
     s \<in> {''.git'', ''node_modules'', ''vendor'', ''dist'', ''build'', ''.next'', ''.cache'', ''coverage''}
     \<or> suffix ''.lock'' s"

definition default_sensitive_name :: "string \<Rightarrow> bool" where
  "default_sensitive_name s \<longleftrightarrow>
     s \<in> {''.env'', ''id_rsa'', ''id_ed25519''} \<or> prefix ''.env.'' s \<or> suffix ''.pem'' s \<or> suffix ''.key'' s
     \<or> prefix ''credentials'' s \<or> prefix ''secrets'' s"

lemma star_suffix:
  "list_all literal_byte l \<Longrightarrow> l \<noteq> [] \<Longrightarrow> slash \<notin> set s \<Longrightarrow> glob_ok (CHR ''*'' # l) s \<longleftrightarrow> suffix l s"
  by (auto simp: glob_ok_star_literal suffix_def)

lemma star_prefix:
  "list_all literal_byte l \<Longrightarrow> l \<noteq> [] \<Longrightarrow> slash \<notin> set s \<Longrightarrow> glob_ok (l @ ''*'') s \<longleftrightarrow> prefix l s"
  by (auto simp: glob_ok_literal_star bytes_simps dest: in_set_dropD)

lemma literal_bytes:
  "list_all literal_byte ''.lock''" "list_all literal_byte ''.pem''" "list_all literal_byte ''.key''"
  "list_all literal_byte ''.env''" "list_all literal_byte ''id_rsa''" "list_all literal_byte ''id_ed25519''"
  "list_all literal_byte ''.env.''" "list_all literal_byte ''credentials''" "list_all literal_byte ''secrets''"
  by (simp_all add: literal_byte_def)

lemma matches_any_ascii:
  assumes "ascii rel" and "map (\<lambda>r. fold_for_match u (trim_space r)) rules = rules"
  shows "matches_any u rules rel = list_ex (\<lambda>r. rule_matches r (map lower_byte rel)) rules"
proof -
  have "fold_for_match u rel = map lower_byte rel"
    using assms(1) by (simp add: fold_for_match_def to_lower_def nfc_def)
  then have "matches_any u rules rel =
      list_ex (\<lambda>r. rule_matches r (map lower_byte rel)) (map (\<lambda>r. fold_for_match u (trim_space r)) rules)"
    by (simp add: matches_any_def list_ex_iff)
  with assms(2) show ?thesis by simp
qed

lemma rule_matches_segment:
  assumes "slash \<notin> set rule" and "rule \<noteq> []"
  shows "rule_matches rule rel = list_ex (glob_ok rule) (split_on slash rel)"
  using assms by (auto simp: rule_matches_def has_suffix_iff contains_singleton suffix_def)

lemma exclude_rules_on:
  assumes "\<forall>s \<in> set (split_on slash rel). slash \<notin> set s"
  shows "list_ex (\<lambda>r. rule_matches r rel) default_exclude_rules = list_ex default_excluded_name (split_on slash rel)"
proof -
  have "rule_matches ''*.lock'' rel = list_ex (suffix ''.lock'') (split_on slash rel)"
    using assms star_suffix [OF literal_bytes(1)] by (auto simp: rule_matches_segment list_ex_iff)
  then show ?thesis
    by (auto simp: default_exclude_rules_def rule_matches_def [of "_ # _ # _"] has_suffix_def trim_suffix_def
        default_excluded_name_def list_ex_iff)
qed

lemma list_ex_disj: "list_ex (\<lambda>s. P s \<or> Q s) xs \<longleftrightarrow> list_ex P xs \<or> list_ex Q xs"
  by (auto simp: list_ex_iff)

lemma sensitive_rules_on:
  assumes "\<forall>s \<in> set (split_on slash rel). slash \<notin> set s"
  shows "list_ex (\<lambda>r. rule_matches r rel) default_sensitive_rules = list_ex default_sensitive_name (split_on slash rel)"
proof -
  have st: "rule_matches (CHR ''*'' # l) rel = list_ex (suffix l) (split_on slash rel)"
    "rule_matches (l @ ''*'') rel = list_ex (prefix l) (split_on slash rel)"
    if "list_all literal_byte l" "l \<noteq> []" "slash \<notin> set l" for l
    using that assms star_suffix [of l] star_prefix [of l] by (auto simp: rule_matches_segment list_ex_iff)
  have lit: "rule_matches l rel = list_ex (\<lambda>s. s = l) (split_on slash rel)"
    if "list_all literal_byte l" "l \<noteq> []" "slash \<notin> set l" for l
    using that by (simp add: rule_matches_segment list_ex_iff glob_ok_literal)
  note each = st(1) [OF literal_bytes(2), simplified] st(1) [OF literal_bytes(3), simplified]
    lit [OF literal_bytes(4), simplified] lit [OF literal_bytes(5), simplified] lit [OF literal_bytes(6), simplified]
    st(2) [OF literal_bytes(7), simplified] st(2) [OF literal_bytes(8), simplified] st(2) [OF literal_bytes(9), simplified]
  show ?thesis
    by (simp only: default_sensitive_rules_def list_ex_Nil_iff list_ex_Cons_iff each
        default_sensitive_name_def [abs_def] insert_iff empty_iff list_ex_disj simp_thms disj_ac)
qed

text \<open>
  On ASCII paths, of any case, the built-in rules are rules about names: a path is
  excluded exactly when a segment of it is one of the listed directories or ends in
  \<^verbatim>\<open>.lock\<close>, and sensitive exactly when a segment is an environment file, a private key by
  name or suffix, or starts with \<^verbatim>\<open>credentials\<close> or \<^verbatim>\<open>secrets\<close>, at any depth.
\<close>
theorem default_rules_by_name:
  assumes "ascii rel"
  shows "matches_any u default_exclude_rules rel = list_ex default_excluded_name (split_on slash (map lower_byte rel))
    \<and> matches_any u default_sensitive_rules rel = list_ex default_sensitive_name (split_on slash (map lower_byte rel))"
proof -
  have "\<forall>s \<in> set (split_on slash (map lower_byte rel)). slash \<notin> set s"
    using split_on_seg by blast
  note on = exclude_rules_on [OF this] sensitive_rules_on [OF this]
  show ?thesis
    by (simp only: matches_any_ascii [OF assms folded_exclude] matches_any_ascii [OF assms folded_sensitive]
        on simp_thms)
qed

theorem default_rules_by_name_witness:
  "matches_any plain_unicode default_sensitive_rules ''src/.ENV.local''
   \<and> matches_any plain_unicode default_exclude_rules ''a/.Git/config''"
proof -
  have a: "ascii ''src/.ENV.local''" "ascii ''a/.Git/config''"
    "split_on slash (map lower_byte ''src/.ENV.local'') = [''src'', ''.env.local'']"
    "split_on slash (map lower_byte ''a/.Git/config'') = [''a'', ''.git'', ''config'']"
    by code_simp+
  note s = conjunct2 [OF default_rules_by_name [OF a(1), of plain_unicode], unfolded a(3)]
  note e = conjunct1 [OF default_rules_by_name [OF a(2), of plain_unicode], unfolded a(4)]
  have "list_ex default_sensitive_name [''src'', ''.env.local'']"
    by (simp add: default_sensitive_name_def)
  moreover have "list_ex default_excluded_name [''a'', ''.git'', ''config'']"
    by (simp add: default_excluded_name_def)
  ultimately show ?thesis unfolding s e by (rule conjI)
qed

section \<open>Where ignore files are read from\<close>

definition linked_disk :: disk where
  "linked_disk = \<lparr>nodes = [([''w''], Dir), ([''etc''], Dir), ([''etc'', ''ign''], File ''src'' 420),
      ([''w'', ''.gitignore''], Link ''/etc/ign'')],
     denied = (\<lambda>p. False), faults = []\<rparr>"

text \<open>
  The reader of ignore files opens \<^verbatim>\<open>.gitignore\<close> without the sandbox: when it is a link
  to a file outside the workspace, the rules come from that file, while \<open>Resolve\<close> refuses
  the same path as a link.
\<close>
theorem ignore_file_may_be_a_link:
  "dir_rules plain_unicode linked_disk ''/w'' [] =
     [\<lparr>ip_segs = [''**'', ''src''], ip_negate = False, ip_dir_only = False\<rparr>]
   \<and> resolve plain_unicode linked_disk ''/w'' ''.gitignore'' OpRead = Inl ErrSymlink"
proof
  have "read_file linked_disk (segs (path_join [path_join [''/w''], ''.gitignore''])) = Inr ''src''"
    "parse_ignore_line plain_unicode ''src'' =
      Some \<lparr>ip_segs = [''**'', ''src''], ip_negate = False, ip_dir_only = False\<rparr>"
    by code_simp+
  moreover have "scan_lines ''src'' = [''src'']"
    by (simp add: scan_lines_def max_ignore_file_bytes_def max_scan_token_def drop_cr_def trim_suffix_def has_suffix_def)
  ultimately show "dir_rules plain_unicode linked_disk ''/w'' [] =
     [\<lparr>ip_segs = [''**'', ''src''], ip_negate = False, ip_dir_only = False\<rparr>]"
    by (simp add: dir_rules_def read_ignore_file_def parse_ignore_file_def max_ignore_patterns_def)
  have v: "validate_component plain_unicode ''.gitignore'' = None"
    by (subst validate_component_ascii, code_simp, code_simp)
  have c: "clean ''.gitignore'' = ''.gitignore''" "split_on slash ''.gitignore'' = [''.gitignore'']" by code_simp+
  have cp: "clean_path plain_unicode ''.gitignore'' = Inr ''.gitignore''"
    by (simp add: clean_path_def max_path_len_def replace_byte_def backslash_def nul_def
      contains_byte_iff is_windows_drive_path_def c v)
  have "inspect linked_disk ''/w'' [''.gitignore''] = Some ErrSymlink"
    "path_join [''/w'', ''.gitignore''] = ''/w/.gitignore''"
    by code_simp+
  then show "resolve plain_unicode linked_disk ''/w'' ''.gitignore'' OpRead = Inl ErrSymlink"
    by (simp add: resolve_def cp c max_abs_path_len_def Let_def del: inspect.simps)
qed

end
