(* ===== verification/TxnEngine.thy ===== *)
theory TxnEngine
  imports TxnFs TxnTypes Workspace
begin

text \<open>
  The change-set transaction, \<^verbatim>\<open>internal/txn/engine.go\<close>: claim, plan, approval, backup,
  apply with re-verification and undo, journal. The engine is a function on a state that
  holds the disk, the change-set table and the audit log; the time, the hash and the
  approver are parameters. The approver may change the disk while it waits, as the user and
  other programs can. A failing database call is an entry of the schedule \<open>es_db\<close>.
\<close>

section \<open>Records\<close>

datatype cs_status = CsPending | CsApproved | CsApplied | CsDenied | CsFailed | CsRolledBack

record change_set =
  cs_id :: string
  cs_workspace :: string
  cs_provider :: string
  cs_operations :: "operation list"
  cs_state :: cs_status
  cs_before :: "(string \<times> string) list"
  cs_after :: "(string \<times> string) list"
  cs_backup :: string
  cs_applied :: "time option"
  cs_deadline :: "time option"

record txn_request =
  rq_id :: string
  rq_provider :: string
  rq_operations :: "operation list"
  rq_must_ask :: bool

datatype op_status = Created | Updated | Moved | Deleted

record planned_op =
  po_op :: operation
  po_canonical :: string
  po_to_canonical :: string
  po_abs :: path
  po_to_abs :: path
  po_old_data :: string
  po_old_mode :: nat
  po_is_dir :: bool
  po_before :: string
  po_after :: string
  po_status :: op_status
  po_preview :: op_preview

record conflict =
  cf_path :: string
  cf_reason :: string
  cf_current :: string

datatype apply_error =
    Appeared string | WriteFailed string os_error | ChangedWhileWaiting string
  | MoveFailed string os_error | DeleteFailed string os_error | VerifyFailed string
  | RestoreFailed apply_error os_error

datatype txn_error =
    ReadOnlyWorkspace | NoOperations | TooManyOperations | AlreadyExecuting | DbError
  | DifferentOperations | ContentTooLarge nat | UnknownType nat | PlanFailed nat plan_error
  | DuplicatePath string | ApprovalError string | UnknownChangeSet | WrongWorkspace
  | BackupMissing string os_error
  and plan_error =
    PathRefused path_error | OsFailed os_error | NotRegular string | TooLarge string | NonEmptyDirectory string

datatype effect = NotStarted | StateChanged | OutcomeUnknown

datatype result_status = Applied | Conflicted | Denied | Failed | Pended | RolledBack

datatype reason = NoReason | Says string | ApplyFailed apply_error | BackupFailed os_error | AlreadyFinished cs_status

record txn_result =
  rs_status :: result_status
  rs_id :: string
  rs_operations :: "(string \<times> string \<times> string) list"
  rs_deadline :: "time option"
  rs_conflict :: "conflict option"
  rs_reason :: reason
  rs_effects :: "(string \<times> effect) list"
  rs_replayed :: bool

definition plain_result :: "result_status \<Rightarrow> string \<Rightarrow> txn_result" where
  "plain_result st cid = \<lparr>rs_status = st, rs_id = cid, rs_operations = [], rs_deadline = None,
     rs_conflict = None, rs_reason = NoReason, rs_effects = [], rs_replayed = False\<rparr>"

record audit_event =
  ae_change_set :: string
  ae_type :: string
  ae_path :: string

record engine_state =
  es_disk :: disk
  es_sets :: "(string \<times> change_set) list"
  es_audit :: "audit_event list"
  es_inflight :: "string list"
  es_db :: "bool list"

text \<open>The parts of the engine and its environment that do not change during a call.\<close>

record engine =
  en_unicode :: unicode
  en_sha :: "string \<Rightarrow> string"
  en_new_id :: string
  en_backup_root :: string
  en_applied_at :: time
  en_approver :: "approval_request \<Rightarrow> disk \<Rightarrow> (string + approval_decision) \<times> disk"

definition max_ops :: nat where "max_ops = 100"
definition max_op_content_bytes :: int where "max_op_content_bytes = 16777216"
definition rollback_retention :: time where "rollback_retention = 7 * 24 * hour"

section \<open>Hashes\<close>

definition hash_file :: "(string \<Rightarrow> string) \<Rightarrow> disk \<Rightarrow> path \<Rightarrow> string" where
  "hash_file sha d p = (case read_file d p of Inl e \<Rightarrow> [] | Inr c \<Rightarrow> sha c)"

datatype path_state = Absent | Readable string | Unreadable

definition hash_now :: "(string \<Rightarrow> string) \<Rightarrow> disk \<Rightarrow> path \<Rightarrow> path_state" where
  "hash_now sha d p =
     (case read_file d p of
        Inr c \<Rightarrow> Readable (sha c)
      | Inl ENOENT \<Rightarrow> Absent
      | Inl e \<Rightarrow> Unreadable)"

section \<open>Plan\<close>

type_synonym planning = "plan_error + (conflict + planned_op)"

abbreviation refuse :: "plan_error \<Rightarrow> planning" where "refuse e \<equiv> Inl e"
abbreviation conflicts :: "string \<Rightarrow> string \<Rightarrow> string \<Rightarrow> planning" where
  "conflicts p r c \<equiv> Inr (Inl \<lparr>cf_path = p, cf_reason = r, cf_current = c\<rparr>)"
abbreviation plans :: "planned_op \<Rightarrow> planning" where "plans p \<equiv> Inr (Inr p)"

definition preview :: "op_type \<Rightarrow> string \<Rightarrow> string \<Rightarrow> bool \<Rightarrow> bool \<Rightarrow> op_preview" where
  "preview t p to sens rec = \<lparr>pv_type = t, pv_path = p, pv_to = to, pv_sensitive = sens, pv_recursive = rec\<rparr>"

definition blank_op :: "operation \<Rightarrow> string \<Rightarrow> path \<Rightarrow> planned_op" where
  "blank_op op canon p = \<lparr>po_op = op, po_canonical = canon, po_to_canonical = [], po_abs = p,
     po_to_abs = [], po_old_data = [], po_old_mode = 0, po_is_dir = False, po_before = [], po_after = [],
     po_status = Created, po_preview = preview (op_kind op) canon [] False False\<rparr>"

definition plan_create :: "engine \<Rightarrow> disk \<Rightarrow> workspace \<Rightarrow> operation \<Rightarrow> planning" where
  "plan_create en d w op =
     (case ws_resolve (en_unicode en) d w (op_path op) OpWrite of
        Inl e \<Rightarrow> refuse (PathRefused e)
      | Inr (full, canon) \<Rightarrow>
          (case lstat d (segs full) of
             Inr n \<Rightarrow> conflicts canon ''already_exists''
                 (case n of File c m \<Rightarrow> hash_file (en_sha en) d (segs full) | _ \<Rightarrow> [])
           | Inl e \<Rightarrow> plans ((blank_op op canon (segs full))
                 \<lparr>po_after := en_sha en (op_content op), po_status := Created,
                  po_preview := preview Create canon [] (sensitive (en_unicode en) w canon) False\<rparr>)))"

text \<open>\<open>loadBase\<close>: the current content and mode, when its hash is the expected one.\<close>

definition load_base ::
  "engine \<Rightarrow> disk \<Rightarrow> operation \<Rightarrow> path \<Rightarrow> string \<Rightarrow> plan_error + (conflict + string \<times> nat \<times> string)" where
  "load_base en d op p canon =
     (case lstat d p of
        Inl ENOENT \<Rightarrow> Inr (Inl \<lparr>cf_path = canon, cf_reason = ''target_missing'', cf_current = []\<rparr>)
      | Inl e \<Rightarrow> Inl (OsFailed e)
      | Inr (File c m) \<Rightarrow>
          if max_op_content_bytes < int (length c) then Inl (TooLarge canon)
          else (case read_file d p of
              Inl e \<Rightarrow> Inl (OsFailed e)
            | Inr data \<Rightarrow>
                (let digest = en_sha en data in
                 if op_expected op = [] then
                   Inr (Inl \<lparr>cf_path = canon, cf_reason = ''expected_sha256_missing'', cf_current = digest\<rparr>)
                 else if \<not> equal_fold (en_unicode en) (op_expected op) digest then
                   Inr (Inl \<lparr>cf_path = canon, cf_reason = ''base_hash_mismatch'', cf_current = digest\<rparr>)
                 else Inr (Inr (data, m, digest))))
      | Inr _ \<Rightarrow> Inl (NotRegular canon))"

definition plan_update :: "engine \<Rightarrow> disk \<Rightarrow> workspace \<Rightarrow> operation \<Rightarrow> planning" where
  "plan_update en d w op =
     (case ws_resolve (en_unicode en) d w (op_path op) OpWrite of
        Inl e \<Rightarrow> refuse (PathRefused e)
      | Inr (full, canon) \<Rightarrow>
          (case load_base en d op (segs full) canon of
             Inl e \<Rightarrow> refuse e
           | Inr (Inl c) \<Rightarrow> Inr (Inl c)
           | Inr (Inr (data, m, digest)) \<Rightarrow> plans ((blank_op op canon (segs full))
                 \<lparr>po_old_data := data, po_old_mode := m, po_before := digest,
                  po_after := en_sha en (op_content op), po_status := Updated,
                  po_preview := preview Update canon [] (sensitive (en_unicode en) w canon) False\<rparr>)))"

definition same_file :: "disk \<Rightarrow> path \<Rightarrow> path \<Rightarrow> bool" where
  "same_file d p q = (locate (nodes d) p = locate (nodes d) q)"

definition plan_move :: "engine \<Rightarrow> disk \<Rightarrow> workspace \<Rightarrow> operation \<Rightarrow> planning" where
  "plan_move en d w op =
     (case ws_resolve (en_unicode en) d w (op_from op) OpDelete of
        Inl e \<Rightarrow> refuse (PathRefused e)
      | Inr (full, canon) \<Rightarrow>
          (case ws_resolve (en_unicode en) d w (op_to op) OpWrite of
             Inl e \<Rightarrow> refuse (PathRefused e)
           | Inr (to_full, to_canon) \<Rightarrow>
               (case load_base en d op (segs full) canon of
                  Inl e \<Rightarrow> refuse e
                | Inr (Inl c) \<Rightarrow> Inr (Inl c)
                | Inr (Inr (data, m, digest)) \<Rightarrow>
                    if (case lstat d (segs to_full) of
                          Inr n \<Rightarrow> (case lstat d (segs full) of
                                     Inl e \<Rightarrow> True
                                   | Inr n' \<Rightarrow> \<not> same_file d (segs full) (segs to_full))
                        | Inl e \<Rightarrow> False)
                    then conflicts to_canon ''target_exists'' []
                    else plans ((blank_op op canon (segs full))
                      \<lparr>po_to_canonical := to_canon, po_to_abs := segs to_full,
                       po_old_data := data, po_old_mode := m, po_before := digest, po_after := digest,
                       po_status := Moved,
                       po_preview := preview Move canon to_canon
                         (sensitive (en_unicode en) w canon \<or> sensitive (en_unicode en) w to_canon) False\<rparr>))))"

definition plan_delete :: "engine \<Rightarrow> disk \<Rightarrow> workspace \<Rightarrow> operation \<Rightarrow> planning" where
  "plan_delete en d w op =
     (case ws_resolve (en_unicode en) d w (op_path op) OpDelete of
        Inl e \<Rightarrow> refuse (PathRefused e)
      | Inr (full, canon) \<Rightarrow>
          (let p = segs full; sens = sensitive (en_unicode en) w canon in
           case lstat d p of
             Inl ENOENT \<Rightarrow> conflicts canon ''target_missing'' []
           | Inl e \<Rightarrow> refuse (OsFailed e)
           | Inr Dir \<Rightarrow>
               (case read_dir d p of
                  Inl e \<Rightarrow> refuse (OsFailed e)
                | Inr entries \<Rightarrow>
                    if entries \<noteq> [] \<and> \<not> op_recursive op then refuse (NonEmptyDirectory canon)
                    else plans ((blank_op op canon p)
                      \<lparr>po_is_dir := True, po_status := Deleted,
                       po_preview := preview Delete canon [] sens (entries \<noteq> [])\<rparr>))
           | Inr (File c m) \<Rightarrow>
               (case load_base en d op p canon of
                  Inl e \<Rightarrow> refuse e
                | Inr (Inl c) \<Rightarrow> Inr (Inl c)
                | Inr (Inr (data, m, digest)) \<Rightarrow> plans ((blank_op op canon p)
                    \<lparr>po_old_data := data, po_old_mode := m, po_before := digest, po_status := Deleted,
                     po_preview := preview Delete canon [] sens False\<rparr>))
           | Inr _ \<Rightarrow> refuse (NotRegular canon)))"

definition plan_op :: "engine \<Rightarrow> disk \<Rightarrow> workspace \<Rightarrow> nat \<Rightarrow> operation \<Rightarrow> txn_error + (conflict + planned_op)" where
  "plan_op en d w i op =
     (if max_op_content_bytes < int (length (op_content op)) then Inl (ContentTooLarge i)
      else (case op_kind op of
          Create \<Rightarrow> map_sum (PlanFailed i) id (plan_create en d w op)
        | Update \<Rightarrow> map_sum (PlanFailed i) id (plan_update en d w op)
        | Move \<Rightarrow> map_sum (PlanFailed i) id (plan_move en d w op)
        | Delete \<Rightarrow> map_sum (PlanFailed i) id (plan_delete en d w op)
        | OtherOp t \<Rightarrow> Inl (UnknownType i)))"

fun plan_ops ::
  "engine \<Rightarrow> disk \<Rightarrow> workspace \<Rightarrow> nat \<Rightarrow> string list \<Rightarrow> operation list \<Rightarrow> txn_error + (conflict + planned_op list)" where
  "plan_ops en d w i seen [] = Inr (Inr [])"
| "plan_ops en d w i seen (op # ops) =
     (case plan_op en d w i op of
        Inl e \<Rightarrow> Inl e
      | Inr (Inl c) \<Rightarrow> Inr (Inl c)
      | Inr (Inr p) \<Rightarrow>
          if List.member seen (po_canonical p) then Inl (DuplicatePath (po_canonical p))
          else let seen1 = po_canonical p # seen in
            if po_to_canonical p \<noteq> [] \<and> List.member seen1 (po_to_canonical p)
            then Inl (DuplicatePath (po_to_canonical p))
            else let seen2 = (if po_to_canonical p = [] then seen1 else po_to_canonical p # seen1) in
              (case plan_ops en d w (Suc i) seen2 ops of
                 Inl e \<Rightarrow> Inl e
               | Inr (Inl c) \<Rightarrow> Inr (Inl c)
               | Inr (Inr ps) \<Rightarrow> Inr (Inr (p # ps))))"

definition plan :: "engine \<Rightarrow> disk \<Rightarrow> workspace \<Rightarrow> operation list \<Rightarrow> txn_error + (conflict + planned_op list)" where
  "plan en d w ops = plan_ops en d w 0 [] ops"

definition result_path :: "planned_op \<Rightarrow> string" where
  "result_path p = (if op_kind (po_op p) = Move then po_to_canonical p else po_canonical p)"

section \<open>Backup, apply, undo\<close>

definition backup_path :: "path \<Rightarrow> string \<Rightarrow> path" where
  "backup_path dir canon = dir @ [''files''] @ split_on slash canon"

definition backup_op :: "path \<Rightarrow> planned_op \<Rightarrow> disk \<Rightarrow> os_error option \<times> disk" where
  "backup_op dir p d =
     (if op_kind (po_op p) = Create then (None, d)
      else if po_is_dir p then copy_tree_durable (po_abs p) (backup_path dir (po_canonical p)) d
      else copy_file_durable (po_abs p) (backup_path dir (po_canonical p)) d)"

fun backup :: "path \<Rightarrow> planned_op list \<Rightarrow> disk \<Rightarrow> os_error option \<times> disk" where
  "backup dir [] d = (None, d)"
| "backup dir (p # ps) d = and_then (backup_op dir p d) (backup dir ps)"

text \<open>The closures of the undo list, newest first.\<close>

datatype undo = UndoRemove path | UndoWrite path string nat | UndoRename path path | UndoTree path path

fun run_undo :: "undo \<Rightarrow> disk \<Rightarrow> os_error option \<times> disk" where
  "run_undo (UndoRemove p) d = os_remove p d"
| "run_undo (UndoWrite p data mode) d = atomic_write p data mode d"
| "run_undo (UndoRename a b) d = os_rename a b d"
| "run_undo (UndoTree b p) d = copy_tree_durable b p d"

fun unwind :: "undo list \<Rightarrow> apply_error \<Rightarrow> disk \<Rightarrow> apply_error \<times> disk" where
  "unwind [] e d = (e, d)"
| "unwind (u # us) e d =
     (case run_undo u d of
        (None, d') \<Rightarrow> unwind us e d'
      | (Some f, d') \<Rightarrow> unwind us (RestoreFailed e f) d')"

definition still_at_base :: "engine \<Rightarrow> disk \<Rightarrow> planned_op \<Rightarrow> bool" where
  "still_at_base en d p = equal_fold (en_unicode en) (hash_file (en_sha en) d (po_abs p)) (po_before p)"

text \<open>One operation of step 11: its error, or the undo entry it leaves.\<close>

definition apply_op :: "engine \<Rightarrow> path \<Rightarrow> planned_op \<Rightarrow> disk \<Rightarrow> (apply_error + undo option) \<times> disk" where
  "apply_op en dir p d =
     (let a = po_abs p; name = po_canonical p in
      case op_kind (po_op p) of
        Create \<Rightarrow>
          (case lstat d a of
             Inr n \<Rightarrow> (Inl (Appeared name), d)
           | Inl _ \<Rightarrow>
               (case atomic_write a (op_content (po_op p)) 420 d of
                  (Some e, d') \<Rightarrow> (Inl (WriteFailed name e), d')
                | (None, d') \<Rightarrow> (Inr (Some (UndoRemove a)), d')))
      | Update \<Rightarrow>
          if \<not> still_at_base en d p then (Inl (ChangedWhileWaiting name), d)
          else (case atomic_write a (op_content (po_op p)) (po_old_mode p) d of
              (Some e, d') \<Rightarrow> (Inl (WriteFailed name e), d')
            | (None, d') \<Rightarrow> (Inr (Some (UndoWrite a (po_old_data p) (po_old_mode p))), d'))
      | Move \<Rightarrow>
          if \<not> still_at_base en d p then (Inl (ChangedWhileWaiting name), d)
          else (case os_rename a (po_to_abs p) d of
              (Some e, d') \<Rightarrow> (Inl (MoveFailed name e), d')
            | (None, d') \<Rightarrow> (Inr (Some (UndoRename (po_to_abs p) a)), d'))
      | Delete \<Rightarrow>
          if po_is_dir p then
            (case os_remove_all a d of
               (Some e, d') \<Rightarrow> (Inl (DeleteFailed name e), d')
             | (None, d') \<Rightarrow> (Inr (Some (UndoTree (backup_path dir name) a)), d'))
          else if \<not> still_at_base en d p then (Inl (ChangedWhileWaiting name), d)
          else (case os_remove a d of
              (Some e, d') \<Rightarrow> (Inl (DeleteFailed name e), d')
            | (None, d') \<Rightarrow> (Inr (Some (UndoWrite a (po_old_data p) (po_old_mode p))), d'))
      | OtherOp t \<Rightarrow> (Inr None, d))"

definition verify_op :: "engine \<Rightarrow> disk \<Rightarrow> planned_op \<Rightarrow> bool" where
  "verify_op en d p =
     (case op_kind (po_op p) of
        Create \<Rightarrow> hash_file (en_sha en) d (po_abs p) = po_after p
      | Update \<Rightarrow> hash_file (en_sha en) d (po_abs p) = po_after p
      | Move \<Rightarrow> hash_file (en_sha en) d (po_to_abs p) = po_after p
      | Delete \<Rightarrow> lstat d (po_abs p) = Inl ENOENT
      | OtherOp t \<Rightarrow> True)"

fun apply_ops :: "engine \<Rightarrow> path \<Rightarrow> undo list \<Rightarrow> planned_op list \<Rightarrow> disk \<Rightarrow> (apply_error + undo list) \<times> undo list \<times> disk" where
  "apply_ops en dir us [] d = (Inr us, us, d)"
| "apply_ops en dir us (p # ps) d =
     (case apply_op en dir p d of
        (Inl e, d') \<Rightarrow> (Inl e, us, d')
      | (Inr None, d') \<Rightarrow> apply_ops en dir us ps d'
      | (Inr (Some u), d') \<Rightarrow> apply_ops en dir (u # us) ps d')"

definition apply_plan :: "engine \<Rightarrow> path \<Rightarrow> planned_op list \<Rightarrow> disk \<Rightarrow> apply_error option \<times> disk" where
  "apply_plan en dir ps d =
     (case apply_ops en dir [] ps d of
        (Inl e, us, d') \<Rightarrow> map_prod Some id (unwind us e d')
      | (Inr _, us, d') \<Rightarrow>
          (case List.find (\<lambda>p. \<not> verify_op en d' p) ps of
             None \<Rightarrow> (None, d')
           | Some p \<Rightarrow> map_prod Some id (unwind us (VerifyFailed (result_path p)) d')))"

section \<open>What happened, by looking\<close>

definition effect_of :: "engine \<Rightarrow> disk \<Rightarrow> planned_op \<Rightarrow> effect" where
  "effect_of en d p =
     (let sha = en_sha en in
      case op_kind (po_op p) of
        Create \<Rightarrow>
          (case hash_now sha d (po_abs p) of
             Absent \<Rightarrow> NotStarted
           | Readable s \<Rightarrow> if s = po_after p then StateChanged else OutcomeUnknown
           | Unreadable \<Rightarrow> OutcomeUnknown)
      | Update \<Rightarrow>
          (case hash_now sha d (po_abs p) of
             Readable s \<Rightarrow> if s = po_before p then NotStarted else if s = po_after p then StateChanged else OutcomeUnknown
           | _ \<Rightarrow> OutcomeUnknown)
      | Move \<Rightarrow>
          if hash_now sha d (po_abs p) = Readable (po_before p) \<and> hash_now sha d (po_to_abs p) = Absent then NotStarted
          else if hash_now sha d (po_abs p) = Absent \<and> hash_now sha d (po_to_abs p) = Readable (po_after p)
          then StateChanged else OutcomeUnknown
      | Delete \<Rightarrow>
          if po_is_dir p then (if lstat d (po_abs p) = Inl ENOENT then StateChanged else OutcomeUnknown)
          else (case hash_now sha d (po_abs p) of
              Absent \<Rightarrow> StateChanged
            | Readable s \<Rightarrow> if s = po_before p then NotStarted else OutcomeUnknown
            | Unreadable \<Rightarrow> OutcomeUnknown)
      | OtherOp t \<Rightarrow> OutcomeUnknown)"

definition reconcile :: "engine \<Rightarrow> disk \<Rightarrow> planned_op list \<Rightarrow> (string \<times> effect) list" where
  "reconcile en d ps = map (\<lambda>p. (result_path p, effect_of en d p)) ps"

definition not_started_effects :: "planned_op list \<Rightarrow> (string \<times> effect) list" where
  "not_started_effects ps = map (\<lambda>p. (result_path p, NotStarted)) ps"

section \<open>The journal\<close>

definition db_call :: "engine_state \<Rightarrow> bool \<times> engine_state" where
  "db_call st = (case es_db st of [] \<Rightarrow> (True, st) | f # fs \<Rightarrow> (\<not> f, st\<lparr>es_db := fs\<rparr>))"

definition put_set :: "string \<Rightarrow> change_set \<Rightarrow> engine_state \<Rightarrow> engine_state" where
  "put_set cid row st = st\<lparr>es_sets := AList.update cid row (es_sets st)\<rparr>"

definition create_change_set :: "change_set \<Rightarrow> engine_state \<Rightarrow> bool \<times> engine_state" where
  "create_change_set rec st0 =
     (let (ok, st) = db_call st0 in
      if \<not> ok \<or> cs_id rec = [] \<or> cs_workspace rec = [] \<or> map_of (es_sets st) (cs_id rec) \<noteq> None then (False, st)
      else (True, put_set (cs_id rec) rec st))"

text \<open>The update writes the lifecycle fields; workspace, provider and operations keep.\<close>

definition update_change_set :: "change_set \<Rightarrow> engine_state \<Rightarrow> bool \<times> engine_state" where
  "update_change_set rec st0 =
     (let (ok, st) = db_call st0 in
      if \<not> ok \<or> cs_id rec = [] \<or> cs_workspace rec = [] then (False, st)
      else (case map_of (es_sets st) (cs_id rec) of
          None \<Rightarrow> (False, st)
        | Some old \<Rightarrow> (True, put_set (cs_id rec) (old\<lparr>cs_state := cs_state rec, cs_before := cs_before rec,
              cs_after := cs_after rec, cs_backup := cs_backup rec, cs_applied := cs_applied rec, cs_deadline := cs_deadline rec\<rparr>) st)))"

definition append_audit :: "audit_event \<Rightarrow> engine_state \<Rightarrow> engine_state" where
  "append_audit ev st0 =
     (let (ok, st) = db_call st0 in if ok then st\<lparr>es_audit := es_audit st @ [ev]\<rparr> else st)"

definition status_name :: "cs_status \<Rightarrow> string" where
  "status_name s = (case s of CsPending \<Rightarrow> ''pending'' | CsApproved \<Rightarrow> ''approved'' | CsApplied \<Rightarrow> ''applied''
     | CsDenied \<Rightarrow> ''denied'' | CsFailed \<Rightarrow> ''failed'' | CsRolledBack \<Rightarrow> ''rolled_back'')"

definition type_name :: "op_type \<Rightarrow> string" where
  "type_name t = (case t of Create \<Rightarrow> ''create'' | Update \<Rightarrow> ''update'' | Move \<Rightarrow> ''move'' | Delete \<Rightarrow> ''delete''
     | OtherOp s \<Rightarrow> s)"

definition finish :: "change_set \<Rightarrow> cs_status \<Rightarrow> engine_state \<Rightarrow> engine_state" where
  "finish rec status st0 =
     (let (ok, st) = update_change_set (rec\<lparr>cs_state := status\<rparr>) st0 in
      if \<not> ok then st
      else append_audit \<lparr>ae_change_set = cs_id rec, ae_type = ''change_set_'' @ status_name status, ae_path = []\<rparr> st)"

definition audit_applied :: "change_set \<Rightarrow> planned_op list \<Rightarrow> engine_state \<Rightarrow> engine_state" where
  "audit_applied rec ps st =
     append_audit \<lparr>ae_change_set = cs_id rec, ae_type = ''change_set_applied'', ae_path = []\<rparr>
       (fold (\<lambda>p. append_audit \<lparr>ae_change_set = cs_id rec, ae_type = type_name (op_kind (po_op p)),
                               ae_path = result_path p\<rparr>) ps st)"

definition before_hashes :: "planned_op list \<Rightarrow> (string \<times> string) list" where
  "before_hashes ps = map (\<lambda>p. (po_canonical p, po_before p)) (filter (\<lambda>p. po_before p \<noteq> []) ps)"

definition after_hashes :: "planned_op list \<Rightarrow> (string \<times> string) list" where
  "after_hashes ps = map (\<lambda>p. (result_path p, po_after p)) (filter (\<lambda>p. po_after p \<noteq> []) ps)"

definition release :: "string \<Rightarrow> engine_state \<Rightarrow> engine_state" where
  "release k st = st\<lparr>es_inflight := removeAll k (es_inflight st)\<rparr>"

text \<open>The result of a change set that was applied before, built from its row.\<close>

definition replayed_op :: "change_set \<Rightarrow> operation \<Rightarrow> string \<times> string \<times> string" where
  "replayed_op rec op =
     (let target = (if op_kind op = Move then op_to op else op_path op);
          status = (if op_kind op = Move then ''moved'' else type_name (op_kind op) @ ''d'')
      in (target, status, case map_of (cs_after rec) target of None \<Rightarrow> [] | Some h \<Rightarrow> h))"

definition replayed_result :: "change_set \<Rightarrow> txn_result" where
  "replayed_result rec =
     (case cs_state rec of
        CsApplied \<Rightarrow> (plain_result Applied (cs_id rec))\<lparr>rs_deadline := cs_deadline rec, rs_replayed := True,
          rs_operations := map (replayed_op rec) (cs_operations rec)\<rparr>
      | CsDenied \<Rightarrow> (plain_result Denied (cs_id rec))\<lparr>rs_reason := Says ''user_rejected'', rs_replayed := True\<rparr>
      | s \<Rightarrow> (plain_result Failed (cs_id rec))\<lparr>rs_reason := AlreadyFinished s, rs_replayed := True\<rparr>)"

datatype claimed = Fresh | Resume change_set | Finished txn_result | Busy | ClaimFailed

definition claim :: "string \<Rightarrow> engine_state \<Rightarrow> claimed \<times> engine_state" where
  "claim cid st0 =
     (if List.member (es_inflight st0) cid then (Busy, st0)
      else let st1 = st0\<lparr>es_inflight := cid # es_inflight st0\<rparr>; (ok, st) = db_call st1 in
        if \<not> ok then (ClaimFailed, release cid st)
        else (case map_of (es_sets st) cid of
            None \<Rightarrow> (Fresh, st)
          | Some rec \<Rightarrow>
              if cs_state rec = CsPending then (Resume rec, st)
              else (Finished (replayed_result rec), release cid st)))"

section \<open>What the journal keeps of a request\<close>

text \<open>
  \<^verbatim>\<open>json.Marshal\<close> writes every byte that starts no valid UTF-8 encoding as U+FFFD, so the
  operations read back from a row are the request's with those bytes replaced. The
  replacement is all that \<^verbatim>\<open>normalizeJSON\<close> leaves between two lists that compare equal.
\<close>

function json_text :: "string \<Rightarrow> string" where
  "json_text s =
     (if s = [] then []
      else (let (r, n) = decode_rune s in
            (if r = rune_error \<and> n = 1 then [CHR 0xEF, CHR 0xBF, CHR 0xBD] else take n s) @ json_text (drop n s)))"
  by pat_completeness auto
termination
proof (relation "measure length", simp)
  fix s :: string and x r n
  assume "s \<noteq> []" and "x = decode_rune s" and "(r, n) = x"
  then show "(drop n s, s) \<in> measure length" using decode_rune_width [of s] by (cases "decode_rune s") simp
qed

declare json_text.simps [simp del]

lemma json_text_ascii: "ascii s \<Longrightarrow> json_text s = s"
proof (induction s)
  case Nil
  then show ?case by (simp add: json_text.simps)
next
  case (Cons c s)
  then have "ascii_byte c" "ascii s" by (auto simp: ascii_def)
  with Cons.IH show ?case
    by (subst json_text.simps) (auto simp: decode_rune_ascii ascii_byte_def rune_error_def)
qed

definition json_operation :: "operation \<Rightarrow> operation" where
  "json_operation op = op\<lparr>op_kind := (case op_kind op of OtherOp k \<Rightarrow> OtherOp (json_text k) | k \<Rightarrow> k),
     op_path := json_text (op_path op), op_from := json_text (op_from op), op_to := json_text (op_to op),
     op_content := json_text (op_content op), op_expected := json_text (op_expected op)\<rparr>"

lemma json_operation_ascii:
  assumes "list_all ascii [op_path op, op_from op, op_to op, op_content op, op_expected op]"
    and "case op_kind op of OtherOp k \<Rightarrow> ascii k | _ \<Rightarrow> True"
  shows "json_operation op = op"
  using assms by (cases op) (auto simp: json_operation_def json_text_ascii split: op_type.splits)

section \<open>Execute\<close>

definition write_request :: "workspace \<Rightarrow> txn_request \<Rightarrow> string \<Rightarrow> planned_op list \<Rightarrow> approval_request" where
  "write_request w rq cid ps =
     \<lparr>ar_change_set = cid, ar_workspace = ws_id w, ar_provider = rq_provider rq,
      ar_operations = map po_preview ps, ar_kind = KindWrite, ar_must_ask = rq_must_ask rq,
      ar_command = [], ar_rule = [], ar_reason = [], ar_dir = [], ar_grant = False\<rparr>"

definition backup_dir :: "engine \<Rightarrow> string \<Rightarrow> path" where
  "backup_dir en cid = segs (path_join [en_backup_root en, cid])"

text \<open>Steps 10 to 14, once the change set is approved and recorded as such.\<close>

definition commit ::
  "engine \<Rightarrow> change_set \<Rightarrow> planned_op list \<Rightarrow> engine_state \<Rightarrow> (txn_error + txn_result) \<times> engine_state" where
  "commit en rec ps st =
     (let dir = backup_dir en (cs_id rec) in
      case backup dir ps (es_disk st) of
        (Some e, d) \<Rightarrow>
          (Inr ((plain_result Failed (cs_id rec))\<lparr>rs_reason := BackupFailed e, rs_effects := not_started_effects ps\<rparr>),
           finish rec CsFailed (st\<lparr>es_disk := snd (os_remove_all dir d)\<rparr>))
      | (None, d) \<Rightarrow>
          (let rec1 = rec\<lparr>cs_backup := cs_id rec\<rparr> in
           case apply_plan en dir ps d of
             (Some e, d') \<Rightarrow>
               (Inr ((plain_result Failed (cs_id rec))\<lparr>rs_reason := ApplyFailed e, rs_effects := reconcile en d' ps\<rparr>),
                finish rec1 CsFailed (st\<lparr>es_disk := d'\<rparr>))
           | (None, d') \<Rightarrow>
               (let deadline = Some (en_applied_at en + rollback_retention);
                    rec2 = rec1\<lparr>cs_state := CsApplied, cs_after := after_hashes ps,
                      cs_applied := Some (en_applied_at en), cs_deadline := deadline\<rparr>;
                    (ok, st') = update_change_set rec2 (st\<lparr>es_disk := d'\<rparr>)
                in if \<not> ok then (Inl DbError, st')
                   else (Inr ((plain_result Applied (cs_id rec))\<lparr>rs_deadline := deadline,
                           rs_operations := map (\<lambda>p. (result_path p, case po_status p of Created \<Rightarrow> ''created''
                              | Updated \<Rightarrow> ''updated'' | Moved \<Rightarrow> ''moved'' | Deleted \<Rightarrow> ''deleted'', po_after p)) ps\<rparr>),
                         audit_applied rec2 ps st'))))"

text \<open>Step 9 and what follows each answer of the approver.\<close>

definition approve_and_commit ::
  "engine \<Rightarrow> workspace \<Rightarrow> txn_request \<Rightarrow> change_set \<Rightarrow> planned_op list \<Rightarrow> engine_state
     \<Rightarrow> (txn_error + txn_result) \<times> engine_state" where
  "approve_and_commit en w rq rec ps st0 =
     (case en_approver en (write_request w rq (cs_id rec) ps) (es_disk st0) of
        (Inl e, d) \<Rightarrow> (Inl (ApprovalError e), finish rec CsFailed (st0\<lparr>es_disk := d\<rparr>))
      | (Inr dec, d) \<Rightarrow>
          (let st = st0\<lparr>es_disk := d\<rparr> in
           if ad_pending dec then
             (Inr ((plain_result Pended (cs_id rec))\<lparr>rs_reason := Says ''waiting for local approval; retry this call with the same change_set_id''\<rparr>), st)
           else if \<not> ad_approved dec then
             (Inr ((plain_result Denied (cs_id rec))\<lparr>rs_reason :=
                 Says (if ad_reason dec = [] then ''user_rejected'' else ad_reason dec)\<rparr>),
              finish rec CsDenied st)
           else (let rec1 = rec\<lparr>cs_state := CsApproved\<rparr>; (ok, st1) = update_change_set rec1 st in
                 if \<not> ok then (Inl DbError, st1) else commit en rec1 ps st1)))"

text \<open>Steps 2 to 8 for a claimed change set, fresh or resumed.\<close>

definition run_claimed ::
  "engine \<Rightarrow> workspace \<Rightarrow> txn_request \<Rightarrow> string \<Rightarrow> change_set option \<Rightarrow> engine_state
     \<Rightarrow> (txn_error + txn_result) \<times> engine_state" where
  "run_claimed en w rq cid resume st =
     (if (case resume of Some rec \<Rightarrow> cs_operations rec \<noteq> map json_operation (rq_operations rq) | None \<Rightarrow> False)
      then (Inl DifferentOperations, st)
      else (case plan en (es_disk st) w (rq_operations rq) of
          Inl e \<Rightarrow> (Inl e, st)
        | Inr (Inl c) \<Rightarrow>
            (Inr ((plain_result Conflicted [])\<lparr>rs_conflict := Some c\<rparr>),
             case resume of None \<Rightarrow> st | Some rec \<Rightarrow> finish rec CsFailed st)
        | Inr (Inr ps) \<Rightarrow>
            (case resume of
               Some rec \<Rightarrow> approve_and_commit en w rq rec ps st
             | None \<Rightarrow>
                 (let rec = \<lparr>cs_id = cid, cs_workspace = ws_id w, cs_provider = rq_provider rq,
                        cs_operations = map json_operation (rq_operations rq), cs_state = CsPending,
                        cs_before = before_hashes ps, cs_after = [], cs_backup = [], cs_applied = None, cs_deadline = None\<rparr>;
                      (ok, st1) = create_change_set rec st
                  in if \<not> ok then (Inl DbError, st1) else approve_and_commit en w rq rec ps st1))))"

definition execute ::
  "engine \<Rightarrow> workspace \<Rightarrow> txn_request \<Rightarrow> engine_state \<Rightarrow> (txn_error + txn_result) \<times> engine_state" where
  "execute en w rq st0 =
     (if \<not> ws_writable w then (Inl ReadOnlyWorkspace, st0)
      else if rq_operations rq = [] then (Inl NoOperations, st0)
      else if max_ops < length (rq_operations rq) then (Inl TooManyOperations, st0)
      else let cid = (if rq_id rq = [] then en_new_id en else rq_id rq) in
        (case claim cid st0 of
           (Busy, st) \<Rightarrow> (Inl AlreadyExecuting, st)
         | (ClaimFailed, st) \<Rightarrow> (Inl DbError, st)
         | (Finished res, st) \<Rightarrow> (Inr res, st)
         | (Fresh, st) \<Rightarrow> map_prod id (release cid) (run_claimed en w rq cid None st)
         | (Resume rec, st) \<Rightarrow> map_prod id (release cid) (run_claimed en w rq cid (Some rec) st)))"

section \<open>Journal calls leave the disk alone\<close>

lemma db_call_keeps [simp]:
  "es_disk (snd (db_call st)) = es_disk st" "es_sets (snd (db_call st)) = es_sets st"
  "es_inflight (snd (db_call st)) = es_inflight st"
  by (simp_all add: db_call_def split: list.splits)

lemma put_set_keeps [simp]: "es_disk (put_set k r st) = es_disk st" "es_inflight (put_set k r st) = es_inflight st"
  by (simp_all add: put_set_def)

lemma put_set_sets [simp]: "map_of (es_sets (put_set k r st)) = (map_of (es_sets st))(k \<mapsto> r)"
  by (simp add: put_set_def update_conv')

lemma create_change_set_keeps [simp]:
  "es_disk (snd (create_change_set r st)) = es_disk st" "es_inflight (snd (create_change_set r st)) = es_inflight st"
  by (simp_all add: create_change_set_def split_beta)

lemma update_change_set_keeps [simp]:
  "es_disk (snd (update_change_set r st)) = es_disk st" "es_inflight (snd (update_change_set r st)) = es_inflight st"
  by (simp_all add: update_change_set_def split_beta split: option.splits)

lemma append_audit_keeps [simp]:
  "es_disk (append_audit ev st) = es_disk st" "es_sets (append_audit ev st) = es_sets st"
  "es_inflight (append_audit ev st) = es_inflight st"
  by (simp_all add: append_audit_def split_beta)

lemma finish_keeps [simp]: "es_disk (finish r s st) = es_disk st" "es_inflight (finish r s st) = es_inflight st"
  by (simp_all add: finish_def split_beta)

lemma fold_audit_keeps [simp]:
  "es_disk (fold (\<lambda>p. append_audit (f p)) ps st) = es_disk st"
  "es_sets (fold (\<lambda>p. append_audit (f p)) ps st) = es_sets st"
  "es_inflight (fold (\<lambda>p. append_audit (f p)) ps st) = es_inflight st"
  by (induction ps arbitrary: st) auto

lemma audit_applied_keeps [simp]:
  "es_disk (audit_applied r ps st) = es_disk st" "es_sets (audit_applied r ps st) = es_sets st"
  "es_inflight (audit_applied r ps st) = es_inflight st"
  by (simp_all add: audit_applied_def)

lemma release_keeps [simp]: "es_disk (release k st) = es_disk st" "es_sets (release k st) = es_sets st"
  by (simp_all add: release_def)

lemma claim_keeps [simp]: "es_disk (snd (claim cid st)) = es_disk st" "es_sets (snd (claim cid st)) = es_sets st"
  by (auto simp: claim_def split_beta Let_def split: option.splits)

section \<open>What a call did\<close>

text \<open>The approver's answer is a yes.\<close>

definition says_yes :: "(string + approval_decision) \<times> disk \<Rightarrow> bool" where
  "says_yes r = (case fst r of Inl e \<Rightarrow> False | Inr dec \<Rightarrow> ad_approved dec \<and> \<not> ad_pending dec)"

definition fresh_applied :: "(txn_error + txn_result) \<times> engine_state \<Rightarrow> bool" where
  "fresh_applied r =
     (case fst r of Inl e \<Rightarrow> False | Inr res \<Rightarrow> rs_status res = Applied \<and> \<not> rs_replayed res)"

definition reports_applied :: "(txn_error + txn_result) \<times> engine_state \<Rightarrow> bool" where
  "reports_applied r = (case fst r of Inl e \<Rightarrow> False | Inr res \<Rightarrow> rs_status res = Applied)"

definition replays :: "(txn_error + txn_result) \<times> engine_state \<Rightarrow> bool" where
  "replays r = (case fst r of Inl e \<Rightarrow> False | Inr res \<Rightarrow> rs_replayed res)"

text \<open>What the journal holds under an identifier.\<close>

definition row_state :: "engine_state \<Rightarrow> string \<Rightarrow> cs_status option" where
  "row_state st cid = map_option cs_state (map_of (es_sets st) cid)"

lemma fresh_applied_iff: "fresh_applied r \<longleftrightarrow> reports_applied r \<and> \<not> replays r"
  by (auto simp: fresh_applied_def reports_applied_def replays_def split: sum.splits)

lemma unwind_not_None [simp]: "map_prod Some id x \<noteq> (None, y)"
  by (cases x) simp

lemma apply_plan_None:
  assumes "apply_plan en dir ps d = (None, d')"
  shows "list_all (verify_op en d') ps"
  using assms
  by (auto simp: apply_plan_def list_all_iff find_None_iff split: prod.splits sum.splits option.splits)

lemma commit_applied:
  assumes "commit en rec ps st = (r, st')" and "fresh_applied (r, st')"
  shows "list_all (verify_op en (es_disk st')) ps
    \<and> (\<exists>row. map_of (es_sets st') (cs_id rec) = Some row \<and> cs_state row = CsApplied)"
proof -
  let ?dir = "backup_dir en (cs_id rec)"
  from assms obtain d where b: "backup ?dir ps (es_disk st) = (None, d)"
    by (auto simp: commit_def Let_def fresh_applied_def plain_result_def split: prod.splits option.splits)
  with assms obtain d' where a: "apply_plan en ?dir ps d = (None, d')"
    by (auto simp: commit_def Let_def fresh_applied_def plain_result_def split: prod.splits option.splits)
  define rec2 where "rec2 = rec\<lparr>cs_backup := cs_id rec, cs_state := CsApplied, cs_after := after_hashes ps,
      cs_applied := Some (en_applied_at en), cs_deadline := Some (en_applied_at en + rollback_retention)\<rparr>"
  let ?u = "update_change_set rec2 (st\<lparr>es_disk := d'\<rparr>)"
  have st': "fst ?u" "st' = audit_applied rec2 ps (snd ?u)"
    using assms(1,2) a b by (auto simp: commit_def Let_def rec2_def fresh_applied_def split_beta split: if_splits)
  then obtain old where old: "map_of (es_sets st) (cs_id rec) = Some old"
    by (auto simp: update_change_set_def split_beta rec2_def split: if_splits option.splits)
  show ?thesis
    using apply_plan_None [OF a] st' old
    by (auto simp: update_change_set_def split_beta rec2_def split: if_splits)
qed


lemma approve_and_commit_cases:
  fixes en w rq rec ps st
  defines "ans \<equiv> en_approver en (write_request w rq (cs_id rec) ps) (es_disk st)"
    and "out \<equiv> approve_and_commit en w rq rec ps st"
  shows "if says_yes ans then fresh_applied out \<longrightarrow> list_all (verify_op en (es_disk (snd out))) ps
        \<and> (\<exists>row. map_of (es_sets (snd out)) (cs_id rec) = Some row \<and> cs_state row = CsApplied)
      else es_disk (snd out) = snd ans \<and> \<not> fresh_applied out"
proof -
  obtain r d where ans: "ans = (r, d)" by (cases ans)
  show ?thesis
  proof (cases "says_yes ans")
    case False
    then show ?thesis
      using ans unfolding ans_def out_def
      by (auto simp: says_yes_def approve_and_commit_def Let_def fresh_applied_def plain_result_def split: sum.splits)
  next
    case True
    then obtain dec where dec: "r = Inr dec" "ad_approved dec" "\<not> ad_pending dec"
      using ans by (auto simp: says_yes_def split: sum.splits)
    let ?rec1 = "rec\<lparr>cs_state := CsApproved\<rparr>"
    let ?u = "update_change_set ?rec1 (st\<lparr>es_disk := d\<rparr>)"
    have out: "out = (if \<not> fst ?u then (Inl DbError, snd ?u) else commit en ?rec1 ps (snd ?u))"
      using ans dec unfolding ans_def out_def by (simp add: approve_and_commit_def Let_def split_beta)
    have "list_all (verify_op en (es_disk (snd out))) ps
        \<and> (\<exists>row. map_of (es_sets (snd out)) (cs_id rec) = Some row \<and> cs_state row = CsApplied)"
      if fa: "fresh_applied out"
    proof -
      from fa out have u: "fst ?u" by (auto simp: fresh_applied_def split: if_splits)
      with out have o: "out = commit en ?rec1 ps (snd ?u)" by simp
      obtain r' st' where rs: "commit en ?rec1 ps (snd ?u) = (r', st')" by (cases "commit en ?rec1 ps (snd ?u)")
      from commit_applied [OF rs] fa o rs show ?thesis by simp
    qed
    with True show ?thesis by simp
  qed
qed

text \<open>The plan a call works with, and the request it shows.\<close>

definition call_id :: "engine \<Rightarrow> txn_request \<Rightarrow> string" where
  "call_id en rq = (if rq_id rq = [] then en_new_id en else rq_id rq)"

definition call_plan :: "engine \<Rightarrow> workspace \<Rightarrow> txn_request \<Rightarrow> engine_state \<Rightarrow> planned_op list option" where
  "call_plan en w rq st =
     (case plan en (es_disk st) w (rq_operations rq) of Inr (Inr ps) \<Rightarrow> Some ps | _ \<Rightarrow> None)"

text \<open>What the approver answered to the request for this plan, were it asked now.\<close>

definition call_answer ::
  "engine \<Rightarrow> workspace \<Rightarrow> txn_request \<Rightarrow> string \<Rightarrow> planned_op list \<Rightarrow> engine_state \<Rightarrow> (string + approval_decision) \<times> disk" where
  "call_answer en w rq cid ps st = en_approver en (write_request w rq cid ps) (es_disk st)"

definition rows_named :: "engine_state \<Rightarrow> bool" where
  "rows_named st \<longleftrightarrow> (\<forall>k row. map_of (es_sets st) k = Some row \<longrightarrow> cs_id row = k)"

lemma run_claimed_outcome:
  assumes "case resume of None \<Rightarrow> True | Some rec \<Rightarrow> cs_id rec = cid"
  shows "(es_disk (snd (run_claimed en w rq cid resume st)) = es_disk st
        \<and> \<not> fresh_applied (run_claimed en w rq cid resume st))
    \<or> (\<exists>ps. call_plan en w rq st = Some ps \<and>
        (if says_yes (call_answer en w rq cid ps st)
         then fresh_applied (run_claimed en w rq cid resume st) \<longrightarrow>
             list_all (verify_op en (es_disk (snd (run_claimed en w rq cid resume st)))) ps
             \<and> (\<exists>row. map_of (es_sets (snd (run_claimed en w rq cid resume st))) cid = Some row \<and> cs_state row = CsApplied)
         else es_disk (snd (run_claimed en w rq cid resume st)) = snd (call_answer en w rq cid ps st)
             \<and> \<not> fresh_applied (run_claimed en w rq cid resume st)))"
proof -
  let ?out = "run_claimed en w rq cid resume st"
  let ?none = "es_disk (snd ?out) = es_disk st \<and> \<not> fresh_applied ?out"
  show ?thesis
  proof (cases "(case resume of Some rec \<Rightarrow> cs_operations rec \<noteq> map json_operation (rq_operations rq) | None \<Rightarrow> False)")
    case True
    then have "?out = (Inl DifferentOperations, st)" by (simp add: run_claimed_def)
    then show ?thesis by (simp add: fresh_applied_def)
  next
    case same: False
    show ?thesis
    proof (cases "call_plan en w rq st")
      case None
      then have ?none
        using same by (auto simp: run_claimed_def call_plan_def fresh_applied_def plain_result_def
            split: sum.splits option.splits)
      then show ?thesis by blast
    next
      case (Some ps)
      then have pl: "plan en (es_disk st) w (rq_operations rq) = Inr (Inr ps)"
        by (auto simp: call_plan_def split: sum.splits)
      have via: "?thesis" if o: "?out = approve_and_commit en w rq rec ps st1" and d: "es_disk st1 = es_disk st"
        and i: "cs_id rec = cid" for rec st1
        using approve_and_commit_cases [of en w rq rec ps st1] Some d i
        unfolding o call_answer_def by auto
      show ?thesis
      proof (cases resume)
        case (Some rec)
        with same pl have "?out = approve_and_commit en w rq rec ps st" by (simp add: run_claimed_def)
        then show ?thesis by (rule via) (use assms Some in simp_all)
      next
        case None
        define rec where "rec = \<lparr>cs_id = cid, cs_workspace = ws_id w, cs_provider = rq_provider rq,
          cs_operations = map json_operation (rq_operations rq), cs_state = CsPending,
          cs_before = before_hashes ps, cs_after = [], cs_backup = [], cs_applied = None, cs_deadline = None\<rparr>"
        have o: "?out = (if \<not> fst (create_change_set rec st) then (Inl DbError, snd (create_change_set rec st))
            else approve_and_commit en w rq rec ps (snd (create_change_set rec st)))"
          using None pl by (simp add: run_claimed_def Let_def rec_def split_beta)
        show ?thesis
        proof (cases "fst (create_change_set rec st)")
          case True
          with o have "?out = approve_and_commit en w rq rec ps (snd (create_change_set rec st))" by simp
          then show ?thesis by (rule via) (simp_all add: rec_def)
        next
          case False
          with o have ?none by (simp add: fresh_applied_def)
          then show ?thesis by blast
        qed
      qed
    qed
  qed
qed

lemma release_outcome:
  "es_disk (snd (map_prod id (release cid) r)) = es_disk (snd r)"
  "es_sets (snd (map_prod id (release cid) r)) = es_sets (snd r)"
  "fresh_applied (map_prod id (release cid) r) = fresh_applied r"
  by (cases r; simp add: fresh_applied_def)+

lemma execute_outcome:
  assumes "rows_named st"
  shows "(es_disk (snd (execute en w rq st)) = es_disk st \<and> \<not> fresh_applied (execute en w rq st))
    \<or> (\<exists>ps. call_plan en w rq st = Some ps \<and>
        (if says_yes (call_answer en w rq (call_id en rq) ps st)
         then fresh_applied (execute en w rq st) \<longrightarrow>
             list_all (verify_op en (es_disk (snd (execute en w rq st)))) ps
             \<and> (\<exists>row. map_of (es_sets (snd (execute en w rq st))) (call_id en rq) = Some row \<and> cs_state row = CsApplied)
         else es_disk (snd (execute en w rq st)) = snd (call_answer en w rq (call_id en rq) ps st)
             \<and> \<not> fresh_applied (execute en w rq st)))"
proof -
  let ?cid = "call_id en rq" let ?out = "execute en w rq st"
  let ?none = "es_disk (snd ?out) = es_disk st \<and> \<not> fresh_applied ?out"
  obtain c st1 where cl: "claim ?cid st = (c, st1)" by (cases "claim ?cid st")
  have d: "es_disk st1 = es_disk st" using claim_keeps(1) [of ?cid st] cl by simp
  have pa: "call_plan en w rq st1 = call_plan en w rq st"
    "call_answer en w rq ?cid ps st1 = call_answer en w rq ?cid ps st" for ps
    by (simp_all add: call_plan_def call_answer_def d)
  show ?thesis
  proof (cases "ws_writable w \<and> rq_operations rq \<noteq> [] \<and> length (rq_operations rq) \<le> max_ops")
    case False
    then have ?none by (auto simp: execute_def fresh_applied_def)
    then show ?thesis by blast
  next
    case go: True
    show ?thesis
    proof (cases c)
      case Fresh
      with go cl have o: "?out = map_prod id (release ?cid) (run_claimed en w rq ?cid None st1)"
        by (simp add: execute_def call_id_def [symmetric] Let_def)
      show ?thesis
        using run_claimed_outcome [where resume = None and cid = ?cid and en = en and w = w and rq = rq and st = st1]
        unfolding o release_outcome pa d by simp
    next
      case (Resume rec)
      with go cl have o: "?out = map_prod id (release ?cid) (run_claimed en w rq ?cid (Some rec) st1)"
        by (simp add: execute_def call_id_def [symmetric] Let_def)
      have "map_of (es_sets st) ?cid = Some rec"
        using cl Resume by (auto simp: claim_def split_beta Let_def split: if_splits option.splits)
      then have "cs_id rec = ?cid" using assms by (simp add: rows_named_def)
      then show ?thesis
        using run_claimed_outcome [where resume = "Some rec" and cid = ?cid and en = en and w = w and rq = rq and st = st1]
        unfolding o release_outcome pa d by simp
    next
      case (Finished res)
      have "?out = (Inr res, st1)" using Finished go cl by (simp add: execute_def call_id_def [symmetric] Let_def)
      moreover have "rs_status res \<noteq> Applied \<or> rs_replayed res"
        using cl Finished
        by (auto simp: claim_def split_beta Let_def replayed_result_def plain_result_def
            split: if_splits option.splits cs_status.splits)
      ultimately have ?none using d by (auto simp: fresh_applied_def)
      then show ?thesis by blast
    qed (use go cl d in \<open>auto simp: execute_def call_id_def [symmetric] Let_def fresh_applied_def\<close>)
  qed
qed


section \<open>Rows keep their names\<close>

lemma rows_named_cong: "es_sets st' = es_sets st \<Longrightarrow> rows_named st' = rows_named st"
  by (simp add: rows_named_def)

lemma rows_named_put: "rows_named st \<Longrightarrow> cs_id row = k \<Longrightarrow> rows_named (put_set k row st)"
  by (auto simp: rows_named_def)

lemma rows_named_create: "rows_named st \<Longrightarrow> rows_named (snd (create_change_set rec st))"
  by (auto simp: create_change_set_def split_beta rows_named_cong [of "snd (db_call _)"] intro!: rows_named_put)

lemma rows_named_update: "rows_named st \<Longrightarrow> rows_named (snd (update_change_set rec st))"
proof -
  assume "rows_named st"
  then have r: "rows_named (snd (db_call st))" by (simp add: rows_named_def)
  show ?thesis
  proof (cases "map_of (es_sets st) (cs_id rec)")
    case None
    with r show ?thesis by (simp add: update_change_set_def split_beta)
  next
    case (Some old)
    then have "cs_id old = cs_id rec" using \<open>rows_named st\<close> by (simp add: rows_named_def)
    then have "rows_named (put_set (cs_id rec) (old\<lparr>cs_state := cs_state rec, cs_before := cs_before rec,
              cs_after := cs_after rec, cs_backup := cs_backup rec, cs_applied := cs_applied rec, cs_deadline := cs_deadline rec\<rparr>) (snd (db_call st)))"
      by (intro rows_named_put r) simp
    with r Some show ?thesis by (simp add: update_change_set_def split_beta)
  qed
qed

lemma rows_named_audit [simp]: "rows_named (append_audit ev st) = rows_named st" "rows_named (audit_applied rec ps st) = rows_named st"
  "rows_named (release k st) = rows_named st" "rows_named (st\<lparr>es_disk := d\<rparr>) = rows_named st"
  by (simp_all add: rows_named_def)

lemma rows_named_finish: "rows_named st \<Longrightarrow> rows_named (finish rec s st)"
  using rows_named_update [of st "rec\<lparr>cs_state := s\<rparr>"]
  by (simp add: finish_def split_beta)

lemma rows_named_commit:
  assumes "rows_named st"
  shows "rows_named (snd (commit en rec ps st))"
proof -
  have "rows_named (snd (update_change_set r (st\<lparr>es_disk := d\<rparr>)))" for r d
    using assms by (intro rows_named_update) simp
  then show ?thesis
    using assms by (auto simp: commit_def Let_def split_beta split: option.splits intro!: rows_named_finish)
qed

lemma rows_named_approve:
  assumes "rows_named st"
  shows "rows_named (snd (approve_and_commit en w rq rec ps st))"
proof -
  have "rows_named (snd (update_change_set r (st\<lparr>es_disk := d\<rparr>)))" for r d
    using assms by (intro rows_named_update) simp
  then show ?thesis
    using assms
    by (auto simp: approve_and_commit_def Let_def split_beta split: sum.splits intro!: rows_named_finish rows_named_commit)
qed

lemma rows_named_run: "rows_named st \<Longrightarrow> rows_named (snd (run_claimed en w rq cid resume st))"
  by (auto simp: run_claimed_def Let_def split_beta split: sum.splits option.splits
      intro!: rows_named_finish rows_named_approve rows_named_create)

lemma rows_named_execute:
  assumes "rows_named st"
  shows "rows_named (snd (execute en w rq st))"
proof -
  obtain c st1 where cl: "claim (call_id en rq) st = (c, st1)" by (cases "claim (call_id en rq) st")
  have st1: "rows_named st1"
    using assms claim_keeps(2) [of "call_id en rq" st] cl by (simp add: rows_named_def)
  have rel: "rows_named (snd (map_prod id (release k) r)) = rows_named (snd r)" for k and r :: "'c \<times> engine_state"
    by (cases r) simp
  show ?thesis
    using assms st1 cl
    by (auto simp: execute_def call_id_def [symmetric] Let_def rel split: claimed.splits intro!: rows_named_run)
qed

section \<open>Replays\<close>

text \<open>
  A call that finds its change set finished answers from the row and is marked as replayed;
  no other path of the engine sets that mark.
\<close>

lemma claim_finished:
  assumes "claim cid st = (Finished res, st1)"
  obtains row where "map_of (es_sets st) cid = Some row" and "cs_state row \<noteq> CsPending" and "res = replayed_result row"
    and "st1 = release cid (snd (db_call (st\<lparr>es_inflight := cid # es_inflight st\<rparr>)))"
proof -
  from assms that show ?thesis
    by (auto simp: claim_def split_beta Let_def split: if_splits option.splits)
qed

lemma replayed_result_sel [simp]:
  "rs_replayed (replayed_result row)"
  "rs_status (replayed_result row) = Applied \<longleftrightarrow> cs_state row = CsApplied"
  by (cases "cs_state row"; simp add: replayed_result_def plain_result_def)+

lemma commit_fresh: "\<not> replays (commit en rec ps st)"
  by (auto simp: commit_def replays_def Let_def plain_result_def split: prod.splits option.splits sum.splits)

lemma approve_fresh: "\<not> replays (approve_and_commit en w rq rec ps st)"
proof -
  have "\<not> replays (Inl e, t)" "\<not> replays (Inr (plain_result k c\<lparr>rs_reason := x\<rparr>), t)" for e k c x t
    by (simp_all add: replays_def plain_result_def)
  then show ?thesis
    by (auto simp: approve_and_commit_def Let_def commit_fresh split: prod.splits sum.splits)
qed

lemma run_fresh: "\<not> replays (run_claimed en w rq cid resume st)"
  by (auto simp: run_claimed_def Let_def approve_fresh split: prod.splits sum.splits option.splits)
    (auto simp: replays_def plain_result_def split: sum.splits option.splits prod.splits)

lemma map_prod_replays [simp]: "replays (map_prod id f r) = replays r"
  by (cases r) (simp add: replays_def)

lemma db_call_audit [simp]: "es_audit (snd (db_call st)) = es_audit st"
  by (simp add: db_call_def split: list.splits)

lemma release_audit [simp]: "es_audit (release k st) = es_audit st"
  by (simp add: release_def)

lemma execute_replay:
  assumes "replays (execute en w rq st)"
  shows "es_disk (snd (execute en w rq st)) = es_disk st \<and> es_sets (snd (execute en w rq st)) = es_sets st
    \<and> es_audit (snd (execute en w rq st)) = es_audit st
    \<and> (reports_applied (execute en w rq st) \<longrightarrow> row_state st (call_id en rq) = Some CsApplied)"
proof -
  let ?cid = "call_id en rq"
  obtain c st1 where cl: "claim ?cid st = (c, st1)" by (cases "claim ?cid st")
  have "\<exists>res. c = Finished res \<and> execute en w rq st = (Inr res, st1)"
    using assms cl run_fresh
    by (auto simp: execute_def call_id_def [symmetric] Let_def split: if_splits claimed.splits)
      (auto simp: replays_def)
  then obtain res where res: "c = Finished res" "execute en w rq st = (Inr res, st1)" by blast
  with cl obtain row where "map_of (es_sets st) ?cid = Some row" "res = replayed_result row"
    "st1 = release ?cid (snd (db_call (st\<lparr>es_inflight := ?cid # es_inflight st\<rparr>)))"
    by (blast elim: claim_finished)
  with res show ?thesis by (simp add: reports_applied_def row_state_def)
qed

text \<open>
  C1. A change set reaches the disk through the approver only. Unless the approver is asked
  with exactly the previews of the planned operations and answers yes, the disk is the one
  the call found, or the one the approver's wait left: the engine itself has written nothing.
  The call then reports "applied" in one case only, the replay of a change set whose row says
  it was applied before, and that answer changes neither the disk nor the journal. This covers
  read-only workspaces, malformed and oversized requests, refused paths, conflicts, retries of
  finished change sets, denials, timeouts, errors of the approver and failing database calls.
\<close>
theorem nothing_without_approval:
  assumes "rows_named st"
    and "case call_plan en w rq st of None \<Rightarrow> True
      | Some ps \<Rightarrow> \<not> says_yes (call_answer en w rq (call_id en rq) ps st)"
  shows "(es_disk (snd (execute en w rq st)) = es_disk st
     \<or> (\<exists>ps. call_plan en w rq st = Some ps \<and>
          es_disk (snd (execute en w rq st)) = snd (call_answer en w rq (call_id en rq) ps st)))
    \<and> (reports_applied (execute en w rq st) \<longrightarrow>
        replays (execute en w rq st) \<and> row_state st (call_id en rq) = Some CsApplied
        \<and> es_disk (snd (execute en w rq st)) = es_disk st \<and> es_sets (snd (execute en w rq st)) = es_sets st)"
  using execute_outcome [OF assms(1), of en w rq] execute_replay [of en w rq st] assms(2)
  by (auto simp: fresh_applied_iff)

text \<open>
  C2. "Applied" is said only after looking. A call that reports a change set applied is
  either the replay of one whose row already said so, which leaves the disk and the journal as
  they are, or the approver has said yes to the plan made from the disk the call found and on
  the final disk every created and updated path has the planned hash, every moved file is at
  its target with the hash it had, and every deleted path is gone. Replays look at nothing:
  they repeat what was true when the row was written.
\<close>
theorem applied_is_verified:
  assumes "rows_named st" and "reports_applied (execute en w rq st)"
  shows "if replays (execute en w rq st)
    then row_state st (call_id en rq) = Some CsApplied
      \<and> es_disk (snd (execute en w rq st)) = es_disk st \<and> es_sets (snd (execute en w rq st)) = es_sets st
    else \<exists>ps. call_plan en w rq st = Some ps
      \<and> says_yes (call_answer en w rq (call_id en rq) ps st)
      \<and> list_all (verify_op en (es_disk (snd (execute en w rq st)))) ps
      \<and> row_state (snd (execute en w rq st)) (call_id en rq) = Some CsApplied"
proof (cases "replays (execute en w rq st)")
  case True
  with execute_replay [OF True] assms(2) show ?thesis by simp
next
  case False
  with assms(2) have "fresh_applied (execute en w rq st)" by (simp add: fresh_applied_iff)
  with execute_outcome [OF assms(1), of en w rq] False show ?thesis
    by (auto simp: row_state_def split: if_splits)
qed

text \<open>What a call does whose change set is finished, whatever its outcome was.\<close>

definition call_accepted :: "workspace \<Rightarrow> txn_request \<Rightarrow> engine_state \<Rightarrow> bool" where
  "call_accepted w rq st \<longleftrightarrow> ws_writable w \<and> rq_operations rq \<noteq> [] \<and> length (rq_operations rq) \<le> max_ops
     \<and> \<not> List.member (es_inflight st) (rq_id rq) \<and> fst (db_call st)"

lemma db_call_reserved: "fst (db_call (st\<lparr>es_inflight := is\<rparr>)) = fst (db_call st)"
  by (simp add: db_call_def split: list.splits)

lemma execute_finished:
  assumes "map_of (es_sets st) (rq_id rq) = Some row" and "cs_state row \<noteq> CsPending" and "rq_id rq \<noteq> []"
  shows "es_disk (snd (execute en w rq st)) = es_disk st" "es_sets (snd (execute en w rq st)) = es_sets st"
    "es_audit (snd (execute en w rq st)) = es_audit st"
    "if call_accepted w rq st then fst (execute en w rq st) = Inr (replayed_result row)
     else \<exists>e. fst (execute en w rq st) = Inl e"
proof -
  let ?c = "rq_id rq"
  let ?st1 = "snd (db_call (st\<lparr>es_inflight := ?c # es_inflight st\<rparr>))"
  have cl: "claim ?c st = (if List.member (es_inflight st) ?c then (Busy, st)
      else if fst (db_call st) then (Finished (replayed_result row), release ?c ?st1)
      else (ClaimFailed, release ?c ?st1))"
    using assms(1,2) by (simp add: claim_def Let_def split_beta db_call_reserved)
  show "es_disk (snd (execute en w rq st)) = es_disk st" "es_sets (snd (execute en w rq st)) = es_sets st"
    "es_audit (snd (execute en w rq st)) = es_audit st"
    "if call_accepted w rq st then fst (execute en w rq st) = Inr (replayed_result row)
     else \<exists>e. fst (execute en w rq st) = Inl e"
    using assms(3) by (simp_all add: execute_def Let_def cl call_accepted_def)
qed

text \<open>
  C16. Retrying is safe. Once a call has freshly applied a change set, its row says so, and in
  every later state in which the row is still applied, or has been rolled back, a call with
  the same identifier, through any handle and with any operations and approver, applies
  nothing: the disk, the change sets and the audit trail are as they were. It reports
  "applied", marked as replayed, exactly when the handle is writable, the request has between
  one and 100 operations, no call with the identifier is running, the database answers and
  the row has not been rolled back; otherwise it is refused with an error, or reported as
  failed when the row was rolled back.
\<close>
theorem retry_is_idempotent:
  assumes "rows_named st" and "fresh_applied (execute en w rq st)"
    and "rq_id rq' = call_id en rq" and "rq_id rq' \<noteq> []"
    and "row_state st' (rq_id rq') \<in> {row_state (snd (execute en w rq st)) (rq_id rq'), Some CsRolledBack}"
  shows "row_state (snd (execute en w rq st)) (rq_id rq') = Some CsApplied
    \<and> es_disk (snd (execute en' w' rq' st')) = es_disk st'
    \<and> es_sets (snd (execute en' w' rq' st')) = es_sets st'
    \<and> es_audit (snd (execute en' w' rq' st')) = es_audit st'
    \<and> \<not> fresh_applied (execute en' w' rq' st')
    \<and> (reports_applied (execute en' w' rq' st') \<longleftrightarrow>
        call_accepted w' rq' st' \<and> row_state st' (rq_id rq') = Some CsApplied)
    \<and> (replays (execute en' w' rq' st') \<longleftrightarrow> call_accepted w' rq' st')"
proof -
  have ap: "row_state (snd (execute en w rq st)) (rq_id rq') = Some CsApplied"
    using execute_outcome [OF assms(1), of en w rq] assms(2,3) by (auto simp: row_state_def split: if_splits)
  with assms(5) obtain row where row: "map_of (es_sets st') (rq_id rq') = Some row"
    "cs_state row \<in> {CsApplied, CsRolledBack}" by (auto simp: row_state_def)
  then have "cs_state row \<noteq> CsPending" by auto
  note f = execute_finished [where en = en' and w = w', OF row(1) this assms(4)]
  have "\<not> fresh_applied (execute en' w' rq' st')
    \<and> (reports_applied (execute en' w' rq' st') \<longleftrightarrow> call_accepted w' rq' st' \<and> cs_state row = CsApplied)
    \<and> (replays (execute en' w' rq' st') \<longleftrightarrow> call_accepted w' rq' st')"
    using f(4) by (auto simp: fresh_applied_iff reports_applied_def replays_def split: if_splits)
  with ap f(1-3) row(1) show ?thesis by (simp add: row_state_def)
qed

section \<open>A sample call\<close>

definition yes_dec :: approval_decision where
  "yes_dec = \<lparr>ad_approved = True, ad_pending = False, ad_reason = ''user_approved''\<rparr>"

definition no_dec :: approval_decision where
  "no_dec = \<lparr>ad_approved = False, ad_pending = False, ad_reason = []\<rparr>"

lemma yes_dec_sel [simp]: "ad_approved yes_dec" "\<not> ad_pending yes_dec"
  by (simp_all add: yes_dec_def)

definition open_engine :: "(approval_request \<Rightarrow> disk \<Rightarrow> (string + approval_decision) \<times> disk) \<Rightarrow> engine" where
  "open_engine f = \<lparr>en_unicode = plain_unicode, en_sha = (\<lambda>s. s), en_new_id = ''chg_0'', en_backup_root = ''/b'',
     en_applied_at = 5, en_approver = f\<rparr>"

definition plain_ws :: workspace where
  "plain_ws = \<lparr>ws_id = ''ws_1'', ws_name = ''w'', ws_root = ''/w'', ws_writable = True,
     ws_exclude = [], ws_sensitive = [], ws_network = True\<rparr>"

definition blank_operation :: operation where
  "blank_operation = \<lparr>op_kind = Create, op_path = [], op_from = [], op_to = [], op_content = [], op_expected = [],
     op_recursive = False\<rparr>"

definition create_b :: txn_request where
  "create_b = \<lparr>rq_id = ''chg_1'', rq_provider = ''claude'',
     rq_operations = [blank_operation\<lparr>op_path := ''src/b.go'', op_content := ''y''\<rparr>], rq_must_ask = False\<rparr>"

definition fresh_state :: "disk \<Rightarrow> engine_state" where
  "fresh_state d = \<lparr>es_disk = d, es_sets = [], es_audit = [], es_inflight = [], es_db = []\<rparr>"

lemma rows_named_fresh: "rows_named (fresh_state d)"
  by (simp add: rows_named_def fresh_state_def)

lemma more_names:
  "validate_component plain_unicode ''src'' = None" "validate_component plain_unicode ''b.go'' = None"
  by (subst validate_component_ascii, code_simp, code_simp)+

lemma clean_b: "clean ''src/b.go'' = ''src/b.go''" "split_on slash ''src/b.go'' = [''src'', ''b.go'']"
  by code_simp+

lemma clean_path_b: "clean_path plain_unicode ''src/b.go'' = Inr ''src/b.go''"
  by (simp add: clean_path_def max_path_len_def replace_byte_def backslash_def nul_def
      contains_byte_iff is_windows_drive_path_def clean_b more_names)

lemma walk_b:
  "inspect sample_disk ''/w'' [''src'', ''b.go''] = None"
  "segs ''/w/src/b.go'' = [''w'', ''src'', ''b.go'']"
  "verify_real_path sample_disk ''/w'' [''w'', ''src'', ''b.go''] = None"
  "path_join [''/w'', ''src/b.go''] = ''/w/src/b.go''"
  "equal_fold plain_unicode ''src'' ''.git'' = False"
  "equal_fold plain_unicode ''b.go'' ''.git'' = False"
  "lstat sample_disk [''w'', ''src'', ''b.go''] = Inl ENOENT"
  by code_simp+

lemma resolve_b: "ws_resolve plain_unicode sample_disk plain_ws ''src/b.go'' OpWrite = Inr (''/w/src/b.go'', ''src/b.go'')"
  by (simp add: ws_resolve_def plain_ws_def resolve_def clean_path_b clean_b walk_b max_abs_path_len_def Let_def
      del: inspect.simps segs_slash)

definition planned_b :: planned_op where
  "planned_b = (blank_op (blank_operation\<lparr>op_path := ''src/b.go'', op_content := ''y''\<rparr>) ''src/b.go'' [''w'', ''src'', ''b.go''])
     \<lparr>po_after := ''y''\<rparr>"

lemma open_engine_sel [simp]:
  "en_unicode (open_engine f) = plain_unicode" "en_sha (open_engine f) = (\<lambda>s. s)"
  "en_new_id (open_engine f) = ''chg_0''" "en_applied_at (open_engine f) = 5" "en_approver (open_engine f) = f"
  "en_backup_root (open_engine f) = ''/b''"
  by (simp_all add: open_engine_def)

lemma plain_ws_sel [simp]:
  "sensitive u plain_ws rel = False" "ws_id plain_ws = ''ws_1''" "ws_writable plain_ws"
  by (simp_all add: sensitive_def plain_ws_def matches_any_def)

lemma blank_operation_sel [simp]: "op_kind blank_operation = Create" "op_content blank_operation = []"
  by (simp_all add: blank_operation_def)

lemma create_b_sel [simp]:
  "rq_id create_b = ''chg_1''" "rq_operations create_b = [blank_operation\<lparr>op_path := ''src/b.go'', op_content := ''y''\<rparr>]"
  by (simp_all add: create_b_def)

lemma planned_b_sel [simp]:
  "po_canonical planned_b = ''src/b.go''" "po_to_canonical planned_b = []" "op_kind (po_op planned_b) = Create"
  by (simp_all add: planned_b_def blank_op_def blank_operation_def)

lemma plan_create_b:
  "plan_create (open_engine f) sample_disk plain_ws (blank_operation\<lparr>op_path := ''src/b.go'', op_content := ''y''\<rparr>)
     = plans planned_b"
  by (simp add: plan_create_def resolve_b walk_b planned_b_def blank_op_def blank_operation_def preview_def
      del: segs_slash)

lemma plan_b: "plan (open_engine f) sample_disk plain_ws (rq_operations create_b) = Inr (Inr [planned_b])"
  by (simp add: plan_def plan_op_def plan_create_b max_op_content_bytes_def)

lemma call_plan_b: "call_plan (open_engine f) plain_ws create_b (fresh_state sample_disk) = Some [planned_b]"
  using plan_b [of f] by (simp add: call_plan_def fresh_state_def)

abbreviation deny :: "approval_request \<Rightarrow> disk \<Rightarrow> (string + approval_decision) \<times> disk" where
  "deny req d \<equiv> (Inr no_dec, d)"

abbreviation accept :: "approval_request \<Rightarrow> disk \<Rightarrow> (string + approval_decision) \<times> disk" where
  "accept req d \<equiv> (Inr yes_dec, d)"

lemma row_state_fresh [simp]: "row_state (fresh_state d) cid = None"
  by (simp add: row_state_def fresh_state_def)

theorem nothing_without_approval_witness:
  "\<not> reports_applied (execute (open_engine deny) plain_ws create_b (fresh_state sample_disk))
   \<and> es_disk (snd (execute (open_engine deny) plain_ws create_b (fresh_state sample_disk))) = sample_disk"
proof -
  have d: "es_disk (fresh_state sample_disk) = sample_disk" by (simp add: fresh_state_def)
  have no: "\<not> says_yes (call_answer (open_engine deny) plain_ws create_b c ps (fresh_state sample_disk))"
    "snd (call_answer (open_engine deny) plain_ws create_b c ps (fresh_state sample_disk)) = sample_disk" for c ps
    by (simp_all add: call_answer_def says_yes_def no_dec_def d)
  then have "case call_plan (open_engine deny) plain_ws create_b (fresh_state sample_disk) of None \<Rightarrow> True
      | Some ps \<Rightarrow> \<not> says_yes (call_answer (open_engine deny) plain_ws create_b (call_id (open_engine deny) create_b) ps (fresh_state sample_disk))"
    by (simp split: option.splits)
  from nothing_without_approval [OF rows_named_fresh this] show ?thesis
    unfolding no(2) d by auto
qed

lemma apply_b:
  "fst (apply_plan (open_engine accept) [''b'', ''chg_1''] [planned_b] sample_disk) = None"
  "backup_dir (open_engine accept) ''chg_1'' = [''b'', ''chg_1'']"
  by code_simp+

lemma backup_b: "backup dir [planned_b] d = (None, d)"
  by (simp add: backup_op_def and_then_def)


lemma release_db: "es_db (release k st) = es_db st"
  by (simp add: release_def)

lemma append_audit_db: "es_db st = [] \<Longrightarrow> es_db (append_audit ev st) = []"
  by (simp add: append_audit_def db_call_def)

lemma audit_applied_db: "es_db st = [] \<Longrightarrow> es_db (audit_applied rec ps st) = []"
proof -
  have "es_db st = [] \<Longrightarrow> es_db (fold (\<lambda>p. append_audit (f p)) ps st) = []" for f st
    by (induction ps arbitrary: st) (simp_all add: append_audit_db)
  then show "es_db st = [] \<Longrightarrow> ?thesis" by (simp add: audit_applied_def append_audit_db)
qed

text \<open>A first call whose every step succeeds, evaluated step by step, and the row it leaves.\<close>

definition applied_row :: "engine \<Rightarrow> workspace \<Rightarrow> txn_request \<Rightarrow> planned_op list \<Rightarrow> change_set" where
  "applied_row en w rq ps = \<lparr>cs_id = rq_id rq, cs_workspace = ws_id w, cs_provider = rq_provider rq,
     cs_operations = map json_operation (rq_operations rq), cs_state = CsApplied, cs_before = before_hashes ps,
     cs_after = after_hashes ps, cs_backup = rq_id rq,
     cs_applied = Some (en_applied_at en), cs_deadline = Some (en_applied_at en + rollback_retention)\<rparr>"

lemma release_inflight: "es_inflight st = [k] \<Longrightarrow> es_inflight (release k st) = []"
  by (simp add: release_def)

lemma execute_first:
  assumes "ws_writable w" and "ws_id w \<noteq> []" and "rq_id rq \<noteq> []"
    and "rq_operations rq \<noteq> []" and "length (rq_operations rq) \<le> max_ops"
    and pl: "plan en d w (rq_operations rq) = Inr (Inr ps)"
    and ap: "en_approver en (write_request w rq (rq_id rq) ps) d = (Inr yes_dec, d1)"
    and bk: "backup (backup_dir en (rq_id rq)) ps d1 = (None, d2)"
    and ok: "apply_plan en (backup_dir en (rq_id rq)) ps d2 = (None, d3)"
  shows "fresh_applied (execute en w rq (fresh_state d))
    \<and> es_disk (snd (execute en w rq (fresh_state d))) = d3
    \<and> es_db (snd (execute en w rq (fresh_state d))) = []
    \<and> es_sets (snd (execute en w rq (fresh_state d))) = [(rq_id rq, applied_row en w rq ps)]
    \<and> es_inflight (snd (execute en w rq (fresh_state d))) = []"
proof -
  let ?c = "rq_id rq"
  define rec where "rec = \<lparr>cs_id = ?c, cs_workspace = ws_id w, cs_provider = rq_provider rq,
     cs_operations = map json_operation (rq_operations rq), cs_state = CsPending,
     cs_before = before_hashes ps, cs_after = [], cs_backup = [], cs_applied = None, cs_deadline = None\<rparr>"
  have rec [simp]: "cs_id rec = ?c" "cs_workspace rec = ws_id w" by (simp_all add: rec_def)
  let ?st = "\<lparr>es_disk = d, es_sets = [(?c, rec)], es_audit = [], es_inflight = [?c], es_db = []\<rparr>"
  let ?out = "approve_and_commit en w rq rec ps ?st"
  have cl: "claim ?c (fresh_state d) = (Fresh, (fresh_state d)\<lparr>es_inflight := [?c]\<rparr>)"
    by (simp add: claim_def fresh_state_def db_call_def Let_def)
  have run: "run_claimed en w rq ?c None ((fresh_state d)\<lparr>es_inflight := [?c]\<rparr>) = ?out"
    using assms(2,3)
    by (simp add: run_claimed_def fresh_state_def pl create_change_set_def db_call_def put_set_def Let_def rec_def)
  have "fresh_applied ?out \<and> es_disk (snd ?out) = d3 \<and> es_db (snd ?out) = []
      \<and> es_sets (snd ?out) = [(?c, applied_row en w rq ps)] \<and> es_inflight (snd ?out) = [?c]"
    using assms(2,3)
    by (simp add: approve_and_commit_def ap update_change_set_def db_call_def put_set_def commit_def Let_def
        bk ok fresh_applied_def plain_result_def audit_applied_db applied_row_def rec_def)
  moreover have "execute en w rq (fresh_state d) = map_prod id (release ?c) ?out"
    using assms(1,3-5) by (simp add: execute_def Let_def cl run)
  ultimately show ?thesis by (simp add: release_outcome release_db release_inflight)
qed

lemma execute_b:
  "fresh_applied (execute (open_engine accept) plain_ws create_b (fresh_state sample_disk))"
  "es_db (snd (execute (open_engine accept) plain_ws create_b (fresh_state sample_disk))) = []"
  "es_inflight (snd (execute (open_engine accept) plain_ws create_b (fresh_state sample_disk))) = []"
proof -
  obtain d' where "apply_plan (open_engine accept) [''b'', ''chg_1''] [planned_b] sample_disk = (None, d')"
    using apply_b(1) by (cases "apply_plan (open_engine accept) [''b'', ''chg_1''] [planned_b] sample_disk") simp
  then show "fresh_applied (execute (open_engine accept) plain_ws create_b (fresh_state sample_disk))"
    "es_db (snd (execute (open_engine accept) plain_ws create_b (fresh_state sample_disk))) = []"
    "es_inflight (snd (execute (open_engine accept) plain_ws create_b (fresh_state sample_disk))) = []"
    using execute_first [of plain_ws create_b "open_engine accept" sample_disk "[planned_b]" sample_disk sample_disk]
      plan_b [of accept] apply_b(2) backup_b
    by (simp_all add: max_ops_def del: backup.simps)
qed

lemma reports_b: "reports_applied (execute (open_engine accept) plain_ws create_b (fresh_state sample_disk))"
  "\<not> replays (execute (open_engine accept) plain_ws create_b (fresh_state sample_disk))"
  using execute_b(1) by (simp_all add: fresh_applied_iff)

theorem applied_is_verified_witness:
  "read_file (es_disk (snd (execute (open_engine accept) plain_ws create_b (fresh_state sample_disk))))
        [''w'', ''src'', ''b.go''] = Inr ''y''"
proof -
  have "verify_op (open_engine accept) d planned_b \<Longrightarrow> read_file d [''w'', ''src'', ''b.go''] = Inr ''y''" for d
    by (simp add: verify_op_def hash_file_def)
      (simp add: planned_b_def blank_op_def split: sum.splits)
  with applied_is_verified [OF rows_named_fresh reports_b(1)] reports_b(2) call_plan_b [of accept]
  show ?thesis by simp
qed

theorem retry_is_idempotent_witness:
  "let st' = snd (execute (open_engine accept) plain_ws create_b (fresh_state sample_disk));
       out = execute (open_engine deny) plain_ws create_b st'
   in reports_applied out \<and> replays out \<and> es_disk (snd out) = es_disk st' \<and> es_sets (snd out) = es_sets st'"
proof -
  let ?st = "snd (execute (open_engine accept) plain_ws create_b (fresh_state sample_disk))"
  have c: "rq_id create_b = call_id (open_engine accept) create_b" "rq_id create_b \<noteq> []" by (simp_all add: call_id_def)
  have "call_accepted plain_ws create_b ?st"
    using execute_b(2,3) by (simp add: call_accepted_def max_ops_def db_call_def)
  with retry_is_idempotent [OF rows_named_fresh execute_b(1) c, of ?st "open_engine deny" plain_ws]
  show ?thesis by (simp add: Let_def)
qed

section \<open>What can happen while the prompt is open\<close>

text \<open>Another program of the user, at work while the approver waits.\<close>

definition drop_in :: "approval_request \<Rightarrow> disk \<Rightarrow> (string + approval_decision) \<times> disk" where
  "drop_in req d = (Inr yes_dec, put_node [''w'', ''src'', ''b.go''] (File ''precious'' 420) d)"

definition swap_dir :: "approval_request \<Rightarrow> disk \<Rightarrow> (string + approval_decision) \<times> disk" where
  "swap_dir req d = (Inr yes_dec, put_node [''w'', ''src''] (Link ''/etc'') (drop_tree [''w'', ''src''] d))"

definition move_a :: txn_request where
  "move_a = \<lparr>rq_id = ''chg_1'', rq_provider = ''claude'',
     rq_operations = [blank_operation\<lparr>op_kind := Move, op_from := ''src/./a.go'', op_to := ''src/b.go'',
                                      op_expected := ''x''\<rparr>], rq_must_ask = False\<rparr>"

definition planned_move :: planned_op where
  "planned_move = (blank_op (blank_operation\<lparr>op_kind := Move, op_from := ''src/./a.go'', op_to := ''src/b.go'',
       op_expected := ''x''\<rparr>) ''src/a.go'' [''w'', ''src'', ''a.go''])
     \<lparr>po_to_canonical := ''src/b.go'', po_to_abs := [''w'', ''src'', ''b.go''], po_old_data := ''x'', po_old_mode := 420,
      po_before := ''x'', po_after := ''x'', po_status := Moved,
      po_preview := preview Move ''src/a.go'' ''src/b.go'' False False\<rparr>"

lemma resolve_a: "ws_resolve plain_unicode sample_disk plain_ws ''src/./a.go'' OpDelete = Inr (''/w/src/a.go'', ''src/a.go'')"
  by (simp add: ws_resolve_def plain_ws_def resolve_def sample_clean_path sample_clean sample_walk max_abs_path_len_def Let_def
      del: inspect.simps segs_slash)

lemma move_facts:
  "lstat sample_disk [''w'', ''src'', ''a.go''] = Inr (File ''x'' 420)"
  "read_file sample_disk [''w'', ''src'', ''a.go''] = Inr ''x''"
  "equal_fold plain_unicode ''x'' ''x''"
  by code_simp+

lemma load_base_a:
  "load_base (open_engine f) sample_disk (blank_operation\<lparr>op_kind := Move, op_from := ''src/./a.go'', op_to := ''src/b.go'',
     op_expected := ''x''\<rparr>) [''w'', ''src'', ''a.go''] ''src/a.go'' = Inr (Inr (''x'', 420, ''x''))"
  by (simp add: load_base_def move_facts max_op_content_bytes_def Let_def)

lemma plan_move_a: "plan (open_engine f) sample_disk plain_ws (rq_operations move_a) = Inr (Inr [planned_move])"
proof -
  have "plan_move (open_engine f) sample_disk plain_ws (blank_operation\<lparr>op_kind := Move, op_from := ''src/./a.go'',
      op_to := ''src/b.go'', op_expected := ''x''\<rparr>) = plans planned_move"
    by (simp add: plan_move_def resolve_a resolve_b sample_walk walk_b load_base_a planned_move_def del: segs_slash)
  then show ?thesis
    by (simp add: move_a_def plan_def plan_op_def max_op_content_bytes_def) (simp add: planned_move_def blank_op_def)
qed

lemma move_run:
  "fst (backup [''b'', ''chg_1''] [planned_move] (snd (drop_in req sample_disk))) = None"
  "fst (apply_plan (open_engine drop_in) [''b'', ''chg_1''] [planned_move]
     (snd (backup [''b'', ''chg_1''] [planned_move] (snd (drop_in req sample_disk))))) = None"
  "list_all (\<lambda>(p, n). n \<noteq> File ''precious'' 420) (nodes (snd (apply_plan (open_engine drop_in) [''b'', ''chg_1''] [planned_move]
     (snd (backup [''b'', ''chg_1''] [planned_move] (snd (drop_in req sample_disk)))))))"
  by code_simp+

lemma swap_run:
  "fst (apply_plan (open_engine swap_dir) [''b'', ''chg_1''] [planned_b] (snd (swap_dir req sample_disk))) = None"
  "map_of (nodes (snd (apply_plan (open_engine swap_dir) [''b'', ''chg_1''] [planned_b] (snd (swap_dir req sample_disk)))))
     [''etc'', ''b.go''] = Some (File ''y'' 420)"
  by code_simp+

text \<open>
  Not everything the plan checked is checked again after the wait. (1) A move whose target
  is created while the prompt is open replaces it: the file of another program is nowhere on
  the disk afterwards, backups included, and the result says applied and verified. (2) A
  directory on the way that is replaced by a link is followed: the approved file is created
  outside the workspace root.
\<close>
theorem waiting_is_a_window:
  "(let r = execute (open_engine drop_in) plain_ws move_a (fresh_state sample_disk)
    in fresh_applied r \<and> list_all (\<lambda>(p, n). n \<noteq> File ''precious'' 420) (nodes (es_disk (snd r))))
   \<and> (let r = execute (open_engine swap_dir) plain_ws create_b (fresh_state sample_disk)
    in fresh_applied r \<and> map_of (nodes (es_disk (snd r))) [''etc'', ''b.go''] = Some (File ''y'' 420))"
proof -
  have dir: "backup_dir (open_engine f) ''chg_1'' = [''b'', ''chg_1'']" for f
    using apply_b(2) by (simp add: backup_dir_def)
  define c1 where "c1 = put_node [''w'', ''src'', ''b.go''] (File ''precious'' 420) sample_disk"
  define e1 where "e1 = put_node [''w'', ''src''] (Link ''/etc'') (drop_tree [''w'', ''src''] sample_disk)"
  have c1: "drop_in req sample_disk = (Inr yes_dec, c1)" and e1: "swap_dir req sample_disk = (Inr yes_dec, e1)" for req
    by (simp_all add: drop_in_def swap_dir_def c1_def e1_def)
  obtain c2 where c2: "backup [''b'', ''chg_1''] [planned_move] c1 = (None, c2)"
    using move_run(1) [of undefined] by (cases "backup [''b'', ''chg_1''] [planned_move] c1") (simp add: c1)
  obtain c3 where c3: "apply_plan (open_engine drop_in) [''b'', ''chg_1''] [planned_move] c2 = (None, c3)"
    using move_run(2) [of undefined]
    by (cases "apply_plan (open_engine drop_in) [''b'', ''chg_1''] [planned_move] c2") (simp add: c1 c2 del: backup.simps)
  obtain e3 where e3: "apply_plan (open_engine swap_dir) [''b'', ''chg_1''] [planned_b] e1 = (None, e3)"
    using swap_run(1) [of undefined]
    by (cases "apply_plan (open_engine swap_dir) [''b'', ''chg_1''] [planned_b] e1") (simp add: e1)
  have "ws_writable plain_ws" "ws_id plain_ws \<noteq> []" by (simp_all add: plain_ws_def)
  note w = this
  have mv: "rq_id move_a = ''chg_1''" "rq_id move_a \<noteq> []" "rq_operations move_a \<noteq> []" "length (rq_operations move_a) \<le> max_ops"
    by (simp_all add: move_a_def max_ops_def)
  have cr: "rq_id create_b = ''chg_1''" "rq_id create_b \<noteq> []" "rq_operations create_b \<noteq> []" "length (rq_operations create_b) \<le> max_ops"
    by (simp_all add: create_b_def max_ops_def)
  have moved: "fresh_applied (execute (open_engine drop_in) plain_ws move_a (fresh_state sample_disk))"
    "es_disk (snd (execute (open_engine drop_in) plain_ws move_a (fresh_state sample_disk))) = c3"
    using execute_first [OF w mv(2-4) plan_move_a _ _ _, of drop_in c1 c2 c3]
    unfolding mv(1) dir using c1 c2 c3 by simp_all
  have made: "fresh_applied (execute (open_engine swap_dir) plain_ws create_b (fresh_state sample_disk))"
    "es_disk (snd (execute (open_engine swap_dir) plain_ws create_b (fresh_state sample_disk))) = e3"
    using execute_first [OF w cr(2-4) plan_b _ _ _, of swap_dir e1 e1 e3]
    unfolding cr(1) dir using e1 e3 by (simp_all add: backup_b del: backup.simps)
  have "list_all (\<lambda>(p, n). n \<noteq> File ''precious'' 420) (nodes c3)"
    using move_run(3) [of undefined] by (simp add: c1 c2 c3 del: backup.simps)
  moreover have "map_of (nodes e3) [''etc'', ''b.go''] = Some (File ''y'' 420)"
    using swap_run(2) [of undefined] by (simp add: e1 e3)
  ultimately show ?thesis using moved made by (simp only: Let_def simp_thms)
qed

end
