(* ===== verification/Approval.thy ===== *)
theory Approval
  imports TxnTypes "HOL-Library.Multiset"
begin

text \<open>
  The local approval authority, \<^verbatim>\<open>internal/approval/approval.go\<close>. A waiting approval is an
  object that several goroutines hold a pointer to, so the state has a heap of them and the
  two maps of the service hold addresses. The calls that take the service's lock more than
  once (\<open>Approve\<close>, \<open>Resolve\<close>) are cut into one step per locked section, and \<open>event\<close> names
  the steps, so that a history is any interleaving of callers, decisions and the clock.
\<close>

section \<open>Modes and budgets\<close>

abbreviation mode_safe :: string where "mode_safe \<equiv> ''safe''"
abbreviation mode_balanced :: string where "mode_balanced \<equiv> ''balanced''"
abbreviation mode_open :: string where "mode_open \<equiv> ''open''"

record budgets =
  bg_default :: time
  bg_provider :: "(string \<times> time) list"

definition default_budgets :: budgets where
  "default_budgets = \<lparr>bg_default = 50 * second, bg_provider = [(''claude'', 240 * second)]\<rparr>"

definition budget_for :: "budgets \<Rightarrow> string \<Rightarrow> time" where
  "budget_for b provider =
     (case map_of (bg_provider b) provider of Some d \<Rightarrow> d | None \<Rightarrow> bg_default b)"

definition decision_ttl :: time where "decision_ttl = 15 * minute"

section \<open>The service\<close>

record pending =
  pd_request :: approval_request
  pd_created :: time
  pd_decided :: "(time \<times> approval_decision) option"

record service =
  sv_mode :: string
  sv_pending :: "(string \<times> nat) list"
  sv_decided :: "(string \<times> nat) list"
  sv_heap :: "pending list"

datatype mode_error = UnknownMode string | BudgetNotPositive | ErrConfirmationRequired

definition new_service :: "string \<Rightarrow> budgets \<Rightarrow> mode_error + service" where
  "new_service mode b =
     (let m = (if mode = [] then mode_safe else mode) in
      if \<not> List.member [mode_safe, mode_balanced, mode_open] m then Inl (UnknownMode mode)
      else if bg_default b \<le> 0 then Inl BudgetNotPositive
      else Inr \<lparr>sv_mode = m, sv_pending = [], sv_decided = [], sv_heap = []\<rparr>)"

definition set_mode :: "string \<Rightarrow> bool \<Rightarrow> service \<Rightarrow> mode_error option \<times> service" where
  "set_mode mode confirm s =
     (if mode = mode_safe \<or> mode = mode_balanced then (None, s\<lparr>sv_mode := mode\<rparr>)
      else if mode = mode_open then
        (if \<not> confirm then (Some ErrConfirmationRequired, s) else (None, s\<lparr>sv_mode := mode\<rparr>))
      else (Some (UnknownMode mode), s))"

text \<open>One operation of the loop: whether the policy lets it pass in the mode.\<close>

definition op_passes :: "string \<Rightarrow> op_preview \<Rightarrow> bool" where
  "op_passes mode op =
     (if pv_sensitive op then False
      else (case pv_type op of
          Create \<Rightarrow> True
        | Update \<Rightarrow> mode = mode_open
        | Move \<Rightarrow> mode = mode_open
        | _ \<Rightarrow> False))"

definition auto_approved :: "service \<Rightarrow> approval_request \<Rightarrow> bool" where
  "auto_approved s req =
     (if ar_must_ask req then False
      else if sv_mode s \<noteq> mode_balanced \<and> sv_mode s \<noteq> mode_open then False
      else if ar_operations req = [] then False
      else if ar_command req \<noteq> [] then False
      else list_all (op_passes (sv_mode s)) (ar_operations req))"

definition put_key :: "string \<Rightarrow> nat \<Rightarrow> (string \<times> nat) list \<Rightarrow> (string \<times> nat) list" where
  "put_key k v m = (k, v) # filter (\<lambda>(k', _). k' \<noteq> k) m"

definition drop_key :: "string \<Rightarrow> (string \<times> nat) list \<Rightarrow> (string \<times> nat) list" where
  "drop_key k m = filter (\<lambda>(k', _). k' \<noteq> k) m"

text \<open>Whether the decision of the object at the address is younger than the limit.\<close>

definition fresh_at :: "time \<Rightarrow> service \<Rightarrow> nat \<Rightarrow> bool" where
  "fresh_at now s a =
     (case pd_decided (sv_heap s ! a) of Some (at, d) \<Rightarrow> now - at < decision_ttl | None \<Rightarrow> False)"

definition new_pending :: "time \<Rightarrow> approval_request \<Rightarrow> service \<Rightarrow> nat \<times> bool \<times> service" where
  "new_pending now req s =
     (let a = length (sv_heap s) in
      (a, True, s\<lparr>sv_heap := sv_heap s @ [\<lparr>pd_request = req, pd_created = now, pd_decided = None\<rparr>],
                  sv_pending := put_key (ar_change_set req) a (sv_pending s)\<rparr>))"

definition attach :: "time \<Rightarrow> approval_request \<Rightarrow> service \<Rightarrow> nat \<times> bool \<times> service" where
  "attach now req s =
     (let cid = ar_change_set req in
      case map_of (sv_pending s) cid of
        Some a \<Rightarrow> (a, False, s)
      | None \<Rightarrow>
          (case map_of (sv_decided s) cid of
             None \<Rightarrow> new_pending now req s
           | Some a \<Rightarrow>
               if fresh_at now s a \<and> ar_provider (pd_request (sv_heap s ! a)) = ar_provider req
               then (a, False, s\<lparr>sv_decided := drop_key cid (sv_decided s)\<rparr>)
               else if \<not> fresh_at now s a
               then new_pending now req (s\<lparr>sv_decided := drop_key cid (sv_decided s)\<rparr>)
               else new_pending now req s))"

definition sweep :: "time \<Rightarrow> service \<Rightarrow> service" where
  "sweep now s = s\<lparr>sv_decided := filter (\<lambda>(cid, a). fresh_at now s a) (sv_decided s)\<rparr>"

definition remove_id :: "string \<Rightarrow> service \<Rightarrow> service" where
  "remove_id cid s = s\<lparr>sv_pending := drop_key cid (sv_pending s), sv_decided := drop_key cid (sv_decided s)\<rparr>"

text \<open>The object's own \<open>resolve\<close>: the first decision is kept, later ones are refused.\<close>

definition resolve_object :: "time \<Rightarrow> nat \<Rightarrow> approval_decision \<Rightarrow> service \<Rightarrow> bool \<times> service" where
  "resolve_object now a d s =
     (case pd_decided (sv_heap s ! a) of
        Some _ \<Rightarrow> (False, s)
      | None \<Rightarrow> (True, s\<lparr>sv_heap := (sv_heap s)[a := (sv_heap s ! a)\<lparr>pd_decided := Some (now, d)\<rparr>]\<rparr>))"

definition local_decision :: "bool \<Rightarrow> string \<Rightarrow> approval_decision" where
  "local_decision approved reason =
     \<lparr>ad_approved = approved, ad_pending = False,
      ad_reason = (if reason \<noteq> [] then reason else if approved then ''user_approved'' else ''user_rejected'')\<rparr>"

text \<open>The last section of \<open>Resolve\<close>: the decided object moves to the other map.\<close>

definition file_decision :: "time \<Rightarrow> string \<Rightarrow> nat \<Rightarrow> service \<Rightarrow> service" where
  "file_decision now cid a s =
     sweep now (s\<lparr>sv_pending := drop_key cid (sv_pending s), sv_decided := put_key cid a (sv_decided s)\<rparr>)"

text \<open>The pending list, oldest first: \<open>sortPending\<close> sinks each entry into the sorted ones.\<close>

fun sink :: "pending \<Rightarrow> pending list \<Rightarrow> pending list" where
  "sink p [] = [p]"
| "sink p (q # qs) = (if pd_created p < pd_created q then q # sink p qs else p # q # qs)"

definition sort_pending :: "pending list \<Rightarrow> pending list" where
  "sort_pending ps = rev (foldl (\<lambda>done p. sink p done) [] ps)"

definition pending_list :: "service \<Rightarrow> pending list" where
  "pending_list s = sort_pending (map (\<lambda>(cid, a). sv_heap s ! a) (sv_pending s))"

definition read_request :: "string \<Rightarrow> string \<Rightarrow> string \<Rightarrow> approval_request" where
  "read_request provider ws path =
     (let who = (if provider = [] then ''the caller'' else provider) in
      \<lparr>ar_change_set = ''read:'' @ who @ '':'' @ ws @ '':'' @ path, ar_workspace = ws,
       ar_provider = provider,
       ar_operations = [\<lparr>pv_type = OtherOp ''read'', pv_path = path, pv_to = [], pv_sensitive = True,
                         pv_recursive = False\<rparr>],
       ar_kind = KindDisclosure, ar_must_ask = False, ar_command = [], ar_rule = [],
       ar_reason = ''the contents of this file would be sent to '' @ who, ar_dir = [], ar_grant = False\<rparr>)"

section \<open>Histories\<close>

text \<open>
  \<open>waiters\<close> are the calls of \<open>Approve\<close> between \<open>attach\<close> and their \<open>select\<close>; \<open>found\<close> the calls
  of \<open>Resolve\<close> that looked the object up; \<open>filing\<close> those that decided it and have not taken
  the lock again. \<open>answers\<close> is the log of what \<open>Approve\<close> returned, \<open>verdicts\<close> of what
  \<open>Resolve\<close> decided.
\<close>

record world =
  w_now :: time
  w_service :: service
  w_waiters :: "(approval_request \<times> nat \<times> time) list"
  w_found :: "(string \<times> nat \<times> approval_decision) list"
  w_filing :: "(string \<times> nat) list"
  w_answers :: "(approval_request \<times> approval_decision) list"
  w_verdicts :: "(string \<times> approval_decision) list"

datatype event =
    Tick nat
  | Call approval_request
  | Answered nat
  | TimedOut nat
  | CallerGone nat
  | Lookup string bool string
  | Decide nat
  | Filed nat
  | SwitchMode string bool

definition drop_nth :: "nat \<Rightarrow> 'a list \<Rightarrow> 'a list" where
  "drop_nth i xs = take i xs @ drop (Suc i) xs"

definition policy_approval :: approval_decision where
  "policy_approval = \<lparr>ad_approved = True, ad_pending = False, ad_reason = ''policy_auto_approved''\<rparr>"

definition still_pending :: "string \<Rightarrow> approval_decision" where
  "still_pending reason = \<lparr>ad_approved = False, ad_pending = True, ad_reason = reason\<rparr>"

text \<open>An event that is not enabled leaves the world as it is.\<close>

definition approve_call :: "budgets \<Rightarrow> approval_request \<Rightarrow> world \<Rightarrow> world" where
  "approve_call b req w =
     (let s = w_service w in
      if auto_approved s req then w\<lparr>w_answers := (req, policy_approval) # w_answers w\<rparr>
      else let (a, is_new, s') = attach (w_now w) req s in
        w\<lparr>w_service := s',
          w_waiters := w_waiters w @ [(req, a, w_now w + budget_for b (ar_provider req))]\<rparr>)"

definition approve_done :: "nat \<Rightarrow> world \<Rightarrow> world" where
  "approve_done i w =
     (if i < length (w_waiters w) then
        (case w_waiters w ! i of (req, a, until) \<Rightarrow>
           (case pd_decided (sv_heap (w_service w) ! a) of
              None \<Rightarrow> w
            | Some (at, d) \<Rightarrow>
                w\<lparr>w_service := remove_id (ar_change_set req) (w_service w),
                  w_waiters := drop_nth i (w_waiters w),
                  w_answers := (req, d) # w_answers w\<rparr>))
      else w)"

definition approve_expired :: "nat \<Rightarrow> world \<Rightarrow> world" where
  "approve_expired i w =
     (if i < length (w_waiters w) then
        (case w_waiters w ! i of (req, a, until) \<Rightarrow>
           if until \<le> w_now w
           then w\<lparr>w_waiters := drop_nth i (w_waiters w),
                  w_answers := (req, still_pending ''approval_budget_exceeded'') # w_answers w\<rparr>
           else w)
      else w)"

definition approve_cancelled :: "nat \<Rightarrow> world \<Rightarrow> world" where
  "approve_cancelled i w =
     (if i < length (w_waiters w) then
        (case w_waiters w ! i of (req, a, until) \<Rightarrow>
           w\<lparr>w_waiters := drop_nth i (w_waiters w),
             w_answers := (req, still_pending ''caller_disconnected'') # w_answers w\<rparr>)
      else w)"

definition resolve_lookup :: "string \<Rightarrow> bool \<Rightarrow> string \<Rightarrow> world \<Rightarrow> world" where
  "resolve_lookup cid approved reason w =
     (case map_of (sv_pending (w_service w)) cid of
        None \<Rightarrow> w
      | Some a \<Rightarrow> w\<lparr>w_found := w_found w @ [(cid, a, local_decision approved reason)]\<rparr>)"

definition resolve_decide :: "nat \<Rightarrow> world \<Rightarrow> world" where
  "resolve_decide i w =
     (if i < length (w_found w) then
        (case w_found w ! i of (cid, a, d) \<Rightarrow>
           (let (ok, s') = resolve_object (w_now w) a d (w_service w) in
            if ok then w\<lparr>w_service := s', w_found := drop_nth i (w_found w),
                         w_filing := w_filing w @ [(cid, a)], w_verdicts := (cid, d) # w_verdicts w\<rparr>
            else w\<lparr>w_found := drop_nth i (w_found w)\<rparr>))
      else w)"

definition resolve_file :: "nat \<Rightarrow> world \<Rightarrow> world" where
  "resolve_file i w =
     (if i < length (w_filing w) then
        (case w_filing w ! i of (cid, a) \<Rightarrow>
           w\<lparr>w_service := file_decision (w_now w) cid a (w_service w), w_filing := drop_nth i (w_filing w)\<rparr>)
      else w)"

fun happen :: "budgets \<Rightarrow> event \<Rightarrow> world \<Rightarrow> world" where
  "happen b (Tick n) w = w\<lparr>w_now := w_now w + int n\<rparr>"
| "happen b (Call req) w = approve_call b req w"
| "happen b (Answered i) w = approve_done i w"
| "happen b (TimedOut i) w = approve_expired i w"
| "happen b (CallerGone i) w = approve_cancelled i w"
| "happen b (Lookup cid approved reason) w = resolve_lookup cid approved reason w"
| "happen b (Decide i) w = resolve_decide i w"
| "happen b (Filed i) w = resolve_file i w"
| "happen b (SwitchMode m c) w = w\<lparr>w_service := snd (set_mode m c (w_service w))\<rparr>"

definition start_world :: "time \<Rightarrow> service \<Rightarrow> world" where
  "start_world t s = \<lparr>w_now = t, w_service = s, w_waiters = [], w_found = [], w_filing = [],
     w_answers = [], w_verdicts = []\<rparr>"

inductive history :: "budgets \<Rightarrow> service \<Rightarrow> world \<Rightarrow> bool" for b s0 where
  start: "history b s0 (start_world t s0)"
| step: "history b s0 w \<Longrightarrow> history b s0 (happen b e w)"

inductive_cases history_cases: "history b s0 w"

section \<open>The policy table\<close>

lemma op_passes_iff:
  "op_passes mode op \<longleftrightarrow> \<not> pv_sensitive op \<and>
     (pv_type op = Create \<or> mode = mode_open \<and> (pv_type op = Update \<or> pv_type op = Move))"
  by (cases "pv_type op") (auto simp: op_passes_def)

text \<open>What policy may let pass in some mode: plain files of a change set, nothing else.\<close>

definition may_pass :: "approval_request \<Rightarrow> bool" where
  "may_pass req \<longleftrightarrow> \<not> ar_must_ask req \<and> ar_operations req \<noteq> [] \<and> ar_command req = []
     \<and> list_all (\<lambda>op. \<not> pv_sensitive op \<and> List.member [Create, Update, Move] (pv_type op)) (ar_operations req)"

text \<open>
  Without a person, the policy approves exactly the requests that carry no \<open>MustAsk\<close> and
  no command, have at least one operation and none on a sensitive path, and consist of
  creates only in balanced mode, of creates, updates and moves in open mode; in every other
  mode, and for every delete, it approves nothing.
\<close>
theorem policy_table:
  "auto_approved s req \<longleftrightarrow>
     may_pass req \<and>
     (sv_mode s = mode_open
      \<or> sv_mode s = mode_balanced \<and> list_all (\<lambda>op. pv_type op = Create) (ar_operations req))"
  by (auto simp: auto_approved_def may_pass_def op_passes_iff list_all_iff)

lemma auto_approved_may_pass: "auto_approved s req \<Longrightarrow> may_pass req"
  by (auto simp: auto_approved_def may_pass_def op_passes_iff list_all_iff split: if_splits)

section \<open>Invariants of every history\<close>

definition addr_ok :: "service \<Rightarrow> string \<Rightarrow> nat \<Rightarrow> bool" where
  "addr_ok s cid a \<longleftrightarrow> a < length (sv_heap s) \<and> ar_change_set (pd_request (sv_heap s ! a)) = cid"

definition maps_ok :: "service \<Rightarrow> bool" where
  "maps_ok s \<longleftrightarrow> (\<forall>cid a. (cid, a) \<in> set (sv_pending s) \<longrightarrow> addr_ok s cid a)
     \<and> (\<forall>cid a. (cid, a) \<in> set (sv_decided s) \<longrightarrow> addr_ok s cid a)"

text \<open>The heap only grows, and an object keeps its request and its decision.\<close>

definition heap_extends :: "pending list \<Rightarrow> pending list \<Rightarrow> bool" where
  "heap_extends h h' \<longleftrightarrow> length h \<le> length h' \<and>
     (\<forall>a < length h. pd_request (h' ! a) = pd_request (h ! a) \<and>
        (pd_decided (h ! a) \<noteq> None \<longrightarrow> pd_decided (h' ! a) = pd_decided (h ! a)))"

lemma heap_extends_refl [simp]: "heap_extends h h"
  by (simp add: heap_extends_def)

lemma heap_extends_trans: "heap_extends a b \<Longrightarrow> heap_extends b c \<Longrightarrow> heap_extends a c"
  by (auto simp: heap_extends_def)

lemma heap_extends_snoc [simp]: "heap_extends h (h @ [x])"
  by (auto simp: heap_extends_def nth_append)

lemma addr_ok_extends: "heap_extends (sv_heap s) (sv_heap s') \<Longrightarrow> addr_ok s cid a \<Longrightarrow> addr_ok s' cid a"
  by (auto simp: heap_extends_def addr_ok_def)

lemma map_of_maps_ok:
  "maps_ok s \<Longrightarrow> map_of (sv_pending s) cid = Some a \<Longrightarrow> addr_ok s cid a"
  "maps_ok s \<Longrightarrow> map_of (sv_decided s) cid = Some a \<Longrightarrow> addr_ok s cid a"
  by (auto simp: maps_ok_def dest!: map_of_SomeD)

lemma attach_heap: "attach now req s = (a, n, s') \<Longrightarrow>
    sv_heap s' = sv_heap s \<or>
    sv_heap s' = sv_heap s @ [\<lparr>pd_request = req, pd_created = now, pd_decided = None\<rparr>]"
  by (auto simp: attach_def new_pending_def Let_def split: option.splits if_splits)

lemma attach_ok:
  assumes "attach now req s = (a, n, s')" and "maps_ok s"
  shows "maps_ok s' \<and> addr_ok s' (ar_change_set req) a"
proof -
  let ?c = "ar_change_set req"
  have new: "maps_ok t' \<and> addr_ok t' ?c b"
    if t: "new_pending now req t = (b, m, t')" "maps_ok t" "sv_heap t = sv_heap s" for t t' b m
  proof -
    have e: "heap_extends (sv_heap t) (sv_heap t')"
      using t(1) by (auto simp: new_pending_def Let_def)
    have "addr_ok t' ?c b" using t(1) by (auto simp: new_pending_def Let_def addr_ok_def)
    then show ?thesis
      using t addr_ok_extends [OF e]
      by (auto simp: new_pending_def Let_def maps_ok_def put_key_def)
  qed
  have drop: "maps_ok (s\<lparr>sv_decided := drop_key ?c (sv_decided s)\<rparr>)"
    using assms(2) by (auto simp: maps_ok_def drop_key_def addr_ok_def)
  show ?thesis
    using assms map_of_maps_ok [OF assms(2)] drop new [OF _ assms(2)] new [OF _ drop]
    by (auto simp: attach_def Let_def addr_ok_def split: option.splits if_splits)
qed

definition objects_ok :: "pending list \<Rightarrow> (string \<times> approval_decision) list \<Rightarrow> bool" where
  "objects_ok h vs \<longleftrightarrow> (\<forall>a t d. a < length h \<longrightarrow> pd_decided (h ! a) = Some (t, d) \<longrightarrow>
     (ar_change_set (pd_request (h ! a)), d) \<in> set vs)"

definition answer_ok :: "(string \<times> approval_decision) list \<Rightarrow> approval_request \<times> approval_decision \<Rightarrow> bool" where
  "answer_ok vs x \<longleftrightarrow> ad_approved (snd x) \<longrightarrow>
     may_pass (fst x) \<and> snd x = policy_approval \<or> (ar_change_set (fst x), snd x) \<in> set vs"

definition world_inv :: "world \<Rightarrow> bool" where
  "world_inv w \<longleftrightarrow>
     maps_ok (w_service w)
     \<and> (\<forall>x \<in> set (w_waiters w). addr_ok (w_service w) (ar_change_set (fst x)) (fst (snd x)))
     \<and> (\<forall>x \<in> set (w_found w). addr_ok (w_service w) (fst x) (fst (snd x)))
     \<and> (\<forall>x \<in> set (w_filing w). addr_ok (w_service w) (fst x) (snd x))
     \<and> objects_ok (sv_heap (w_service w)) (w_verdicts w)
     \<and> (\<forall>x \<in> set (w_answers w). answer_ok (w_verdicts w) x)"

lemma in_drop_nth: "x \<in> set (drop_nth i xs) \<Longrightarrow> x \<in> set xs"
  by (auto simp: drop_nth_def dest: in_set_takeD in_set_dropD)

lemma world_inv_start: "new_service m b = Inr s0 \<Longrightarrow> world_inv (start_world t s0)"
  by (auto simp: new_service_def world_inv_def start_world_def maps_ok_def objects_ok_def Let_def split: if_splits)

lemma addr_ok_heap: "sv_heap s' = sv_heap s \<Longrightarrow> addr_ok s' cid a = addr_ok s cid a"
  by (simp add: addr_ok_def)

lemma maps_ok_remove [simp]: "maps_ok s \<Longrightarrow> maps_ok (remove_id cid s)"
  by (auto simp: maps_ok_def remove_id_def drop_key_def addr_ok_def)

lemma maps_ok_file: "maps_ok s \<Longrightarrow> addr_ok s cid a \<Longrightarrow> maps_ok (file_decision now cid a s)"
  by (auto simp: maps_ok_def file_decision_def sweep_def drop_key_def put_key_def addr_ok_def)

lemma remove_heap [simp]: "sv_heap (remove_id cid s) = sv_heap s"
  by (simp add: remove_id_def)

lemma file_heap [simp]: "sv_heap (file_decision now cid a s) = sv_heap s"
  by (simp add: file_decision_def sweep_def)

lemma inv_approve_call:
  assumes "world_inv w"
  shows "world_inv (approve_call b req w)"
proof (cases "auto_approved (w_service w) req")
  case True
  with assms auto_approved_may_pass [OF True] show ?thesis
    by (simp add: approve_call_def world_inv_def Let_def answer_ok_def)
next
  case False
  obtain a n s' where at: "attach (w_now w) req (w_service w) = (a, n, s')"
    by (cases "attach (w_now w) req (w_service w)")
  have ok: "maps_ok s' \<and> addr_ok s' (ar_change_set req) a"
    using attach_ok [OF at] assms by (simp add: world_inv_def)
  note hp = attach_heap [OF at]
  have ext: "heap_extends (sv_heap (w_service w)) (sv_heap s')" using hp by auto
  have "objects_ok (sv_heap s') (w_verdicts w)"
    using hp assms by (auto simp: world_inv_def objects_ok_def nth_append less_Suc_eq)
  with assms ok addr_ok_extends [OF ext] False at show ?thesis
    by (simp add: approve_call_def world_inv_def Let_def)
qed

lemma inv_approve_done:
  assumes "world_inv w"
  shows "world_inv (approve_done i w)"
proof (cases "i < length (w_waiters w)")
  case True
  obtain req a u where wt: "w_waiters w ! i = (req, a, u)" by (cases "w_waiters w ! i")
  with True have mem: "(req, a, u) \<in> set (w_waiters w)" by (metis nth_mem)
  with assms have ok: "addr_ok (w_service w) (ar_change_set req) a" by (fastforce simp: world_inv_def)
  show ?thesis
  proof (cases "pd_decided (sv_heap (w_service w) ! a)")
    case (Some td)
    obtain t d where td: "td = (t, d)" by (cases td)
    have v: "answer_ok (w_verdicts w) (req, d)"
      using assms ok Some td by (auto simp: world_inv_def objects_ok_def answer_ok_def addr_ok_def)
    show ?thesis
      using assms v True wt Some td
      by (auto simp: approve_done_def world_inv_def addr_ok_heap [of "remove_id _ _"] dest: in_drop_nth)
  qed (use assms True wt in \<open>simp add: approve_done_def\<close>)
qed (use assms in \<open>simp add: approve_done_def\<close>)

lemma inv_waiter_leaves:
  assumes "world_inv w"
  shows "world_inv (approve_expired i w)" "world_inv (approve_cancelled i w)"
  using assms
  by (auto simp: approve_expired_def approve_cancelled_def world_inv_def still_pending_def answer_ok_def
      split: prod.splits dest: in_drop_nth)

lemma inv_resolve_lookup: "world_inv w \<Longrightarrow> world_inv (resolve_lookup cid ok reason w)"
  using map_of_maps_ok(1) [of "w_service w" cid]
  by (auto simp: resolve_lookup_def world_inv_def split: option.splits)

lemma inv_resolve_decide:
  assumes "world_inv w"
  shows "world_inv (resolve_decide i w)"
proof (cases "i < length (w_found w)")
  case True
  obtain cid a d where fd: "w_found w ! i = (cid, a, d)" by (cases "w_found w ! i")
  with True have "(cid, a, d) \<in> set (w_found w)" by (metis nth_mem)
  with assms have ok: "addr_ok (w_service w) cid a" by (fastforce simp: world_inv_def)
  let ?s = "w_service w"
  show ?thesis
  proof (cases "pd_decided (sv_heap ?s ! a)")
    case None
    define s' where "s' = ?s\<lparr>sv_heap := (sv_heap ?s)[a := (sv_heap ?s ! a)\<lparr>pd_decided := Some (w_now w, d)\<rparr>]\<rparr>"
    have ext: "heap_extends (sv_heap ?s) (sv_heap s')"
      using None ok by (auto simp: s'_def heap_extends_def addr_ok_def nth_list_update)
    note up = addr_ok_extends [OF ext]
    have objs: "objects_ok (sv_heap s') ((cid, d) # w_verdicts w)"
      using assms ok by (auto simp: s'_def world_inv_def objects_ok_def nth_list_update addr_ok_def split: if_splits)
    have maps: "maps_ok s'"
      using assms up by (auto simp: s'_def maps_ok_def world_inv_def)
    have ans: "\<forall>x \<in> set (w_answers w). answer_ok ((cid, d) # w_verdicts w) x"
      using assms by (auto simp: world_inv_def answer_ok_def)
    have eq: "resolve_decide i w = w\<lparr>w_service := s', w_found := drop_nth i (w_found w),
        w_filing := w_filing w @ [(cid, a)], w_verdicts := (cid, d) # w_verdicts w\<rparr>"
      using True fd None by (simp add: s'_def resolve_decide_def resolve_object_def)
    have "\<forall>x \<in> set (drop_nth i (w_found w)). addr_ok s' (fst x) (fst (snd x))"
      "\<forall>x \<in> set (w_waiters w). addr_ok s' (ar_change_set (fst x)) (fst (snd x))"
      "\<forall>x \<in> set (w_filing w). addr_ok s' (fst x) (snd x)"
      using assms up in_drop_nth [of _ i "w_found w"] unfolding world_inv_def by blast+
    with up [OF ok] objs maps ans show ?thesis
      unfolding eq world_inv_def by simp
  next
    case (Some x)
    then have "resolve_decide i w = w\<lparr>w_found := drop_nth i (w_found w)\<rparr>"
      using True fd by (simp add: resolve_decide_def resolve_object_def)
    with assms show ?thesis by (auto simp: world_inv_def dest: in_drop_nth)
  qed
qed (use assms in \<open>simp add: resolve_decide_def\<close>)

lemma inv_resolve_file:
  assumes "world_inv w"
  shows "world_inv (resolve_file i w)"
proof (cases "i < length (w_filing w)")
  case True
  obtain cid a where fd: "w_filing w ! i = (cid, a)" by (cases "w_filing w ! i")
  with True have "(cid, a) \<in> set (w_filing w)" by (metis nth_mem)
  with assms have ok: "addr_ok (w_service w) cid a" by (fastforce simp: world_inv_def)
  show ?thesis
    using assms fd True maps_ok_file [OF _ ok, of "w_now w"]
    by (auto simp: resolve_file_def world_inv_def addr_ok_heap [of "file_decision _ _ _ _"] dest: in_drop_nth)
qed (use assms in \<open>simp add: resolve_file_def\<close>)

lemma inv_set_mode:
  assumes "world_inv w"
  shows "world_inv (w\<lparr>w_service := snd (set_mode m c (w_service w))\<rparr>)"
proof -
  let ?s = "snd (set_mode m c (w_service w))"
  have "sv_heap ?s = sv_heap (w_service w)" "sv_pending ?s = sv_pending (w_service w)"
    "sv_decided ?s = sv_decided (w_service w)"
    by (auto simp: set_mode_def)
  with assms show ?thesis by (simp add: world_inv_def maps_ok_def addr_ok_def)
qed

lemma world_inv_happen: "world_inv w \<Longrightarrow> world_inv (happen b e w)"
  by (cases e)
    (simp_all add: inv_approve_call inv_approve_done inv_waiter_leaves inv_resolve_lookup
      inv_resolve_decide inv_resolve_file inv_set_mode, simp add: world_inv_def)

lemma history_inv: "history b s0 w \<Longrightarrow> new_service m b' = Inr s0 \<Longrightarrow> world_inv w"
  by (induction rule: history.induct) (auto simp: world_inv_start world_inv_happen)

section \<open>What every history guarantees\<close>

text \<open>
  C9. In every interleaving of callers, decisions, retries, cancellations, mode switches and
  the clock, a caller is told "approved" only when the policy table let the request pass, or
  when \<open>Resolve\<close> recorded that very decision for the request's change set.
\<close>
theorem approvals_come_from_a_person:
  assumes "new_service m b' = Inr s0" and "history b s0 w"
    and "(req, d) \<in> set (w_answers w)" and "ad_approved d"
  shows "may_pass req \<and> d = policy_approval \<or> (ar_change_set req, d) \<in> set (w_verdicts w)"
  using history_inv [OF assms(2,1)] assms(3,4) by (auto simp: world_inv_def answer_ok_def)

definition play :: "budgets \<Rightarrow> event list \<Rightarrow> world \<Rightarrow> world" where
  "play b es w = fold (happen b) es w"

lemma history_play: "history b s0 w \<Longrightarrow> history b s0 (play b es w)"
  unfolding play_def by (induction es arbitrary: w) (auto intro: history.step)

definition safe_service :: service where
  "safe_service = \<lparr>sv_mode = mode_safe, sv_pending = [], sv_decided = [], sv_heap = []\<rparr>"

definition env_read :: approval_request where
  "env_read = read_request ''claude'' ''ws'' ''.env''"

lemma safe_service_new: "new_service [] default_budgets = Inr safe_service"
  by code_simp

lemma approved_read:
  "w_answers (play default_budgets [Call env_read, Lookup (ar_change_set env_read) True [], Decide 0, Filed 0, Answered 0]
     (start_world 0 safe_service)) = [(env_read, local_decision True [])]"
  by code_simp

theorem approvals_come_from_a_person_witness:
  "(ar_change_set env_read, local_decision True []) \<in> set (w_verdicts (play default_budgets
     [Call env_read, Lookup (ar_change_set env_read) True [], Decide 0, Filed 0, Answered 0]
     (start_world 0 safe_service)))"
  using approvals_come_from_a_person [OF safe_service_new history_play [OF history.start], of env_read "local_decision True []"
      default_budgets "[Call env_read, Lookup (ar_change_set env_read) True [], Decide 0, Filed 0, Answered 0]" 0]
  by (simp add: approved_read) (simp add: local_decision_def policy_approval_def)

lemma attach_extends: "attach now req s = (a, n, s') \<Longrightarrow> heap_extends (sv_heap s) (sv_heap s')"
  using attach_heap by fastforce

lemma heap_extends_decide:
  "pd_decided (h ! a) = None \<Longrightarrow> heap_extends h (h[a := (h ! a)\<lparr>pd_decided := x\<rparr>])"
  by (cases "a < length h") (auto simp: heap_extends_def nth_list_update)

lemma happen_extends: "heap_extends (sv_heap (w_service w)) (sv_heap (w_service (happen b e w)))"
proof (cases e)
  case (Call req)
  obtain a n s' where "attach (w_now w) req (w_service w) = (a, n, s')"
    by (cases "attach (w_now w) req (w_service w)")
  with Call show ?thesis by (auto simp: approve_call_def Let_def attach_extends)
next
  case (Decide i)
  then show ?thesis
    by (auto simp: resolve_decide_def resolve_object_def heap_extends_decide split: prod.splits option.splits)
next
  case (SwitchMode m c)
  then show ?thesis by (simp add: set_mode_def)
qed (auto simp: approve_done_def approve_expired_def approve_cancelled_def resolve_lookup_def resolve_file_def
      split: prod.splits option.splits)

lemma play_extends: "heap_extends (sv_heap (w_service w)) (sv_heap (w_service (play b es w)))"
  unfolding play_def
  by (induction es arbitrary: w) (auto intro: heap_extends_trans happen_extends)

text \<open>
  A decision is written once: whatever happens afterwards, the object of a decided
  approval keeps its request and its decision, with the time it was made.
\<close>
theorem decision_is_final:
  assumes "a < length (sv_heap (w_service w))" and "pd_decided (sv_heap (w_service w) ! a) = Some td"
  shows "pd_decided (sv_heap (w_service (play b es w)) ! a) = Some td
    \<and> pd_request (sv_heap (w_service (play b es w)) ! a) = pd_request (sv_heap (w_service w) ! a)"
  using play_extends [of w b es] assms by (auto simp: heap_extends_def)

theorem decision_is_final_witness:
  "pd_decided (sv_heap (w_service (play default_budgets
     [Call env_read, Lookup (ar_change_set env_read) False []]
     (start_world 5 (safe_service\<lparr>sv_heap := [\<lparr>pd_request = env_read, pd_created = 1, pd_decided = Some (2, policy_approval)\<rparr>]\<rparr>)))) ! 0)
   = Some (2, policy_approval)"
  using decision_is_final [of 0 "start_world 5 (safe_service\<lparr>sv_heap := [\<lparr>pd_request = env_read, pd_created = 1,
      pd_decided = Some (2, policy_approval)\<rparr>]\<rparr>)"]
  by (simp add: start_world_def)

text \<open>
  C20. When no prompt for the change set is open, a call takes over an earlier decision only
  if that decision was filed for the same provider less than fifteen minutes ago; it is
  then gone from both maps, so the next call for the change set opens a new prompt.
\<close>
theorem replay_conditions:
  assumes "map_of (sv_pending s) (ar_change_set req) = None"
    and "attach now req s = (a, False, s')"
  shows "map_of (sv_decided s) (ar_change_set req) = Some a
    \<and> ar_provider (pd_request (sv_heap s ! a)) = ar_provider req
    \<and> (\<exists>at d. pd_decided (sv_heap s ! a) = Some (at, d) \<and> now - at < 15 * minute)
    \<and> fst (snd (attach now' req s'))"
proof -
  have dk: "map_of (drop_key k m) k = None" for k m
    by (auto simp: drop_key_def map_of_eq_None_iff)
  have a: "map_of (sv_decided s) (ar_change_set req) = Some a" "fresh_at now s a"
    "ar_provider (pd_request (sv_heap s ! a)) = ar_provider req"
    "s' = s\<lparr>sv_decided := drop_key (ar_change_set req) (sv_decided s)\<rparr>"
    using assms by (auto simp: attach_def new_pending_def Let_def split: option.splits if_splits)
  then show ?thesis
    using assms(1) by (auto simp: fresh_at_def decision_ttl_def attach_def new_pending_def Let_def dk split: option.splits)
qed

definition decided_service :: service where
  "decided_service = safe_service\<lparr>sv_decided := [(ar_change_set env_read, 0)],
     sv_heap := [\<lparr>pd_request = env_read, pd_created = 1, pd_decided = Some (2, policy_approval)\<rparr>]\<rparr>"

theorem replay_conditions_witness:
  "attach 7 env_read decided_service = (0, False, safe_service\<lparr>sv_heap := sv_heap decided_service\<rparr>)
   \<and> ar_provider (pd_request (sv_heap decided_service ! 0)) = ''claude''"
proof -
  have "attach 7 env_read decided_service = (0, False, safe_service\<lparr>sv_heap := sv_heap decided_service\<rparr>)"
    "map_of (sv_pending decided_service) (ar_change_set env_read) = None"
    "ar_provider env_read = ''claude''"
    by code_simp+
  with replay_conditions [of decided_service env_read 7 0] show ?thesis by simp
qed

section \<open>Gaps between the locked sections\<close>

definition chatgpt_read :: approval_request where
  "chatgpt_read = env_read\<lparr>ar_provider := ''chatgpt''\<rparr>"

text \<open>
  \<open>Resolve\<close> closes the object before it takes the lock again, which leaves three windows.
  (1) The waiting call collects the decision first and removes the entry; \<open>Resolve\<close> then files
  the spent decision, and the next call for the same change set, a sensitive read here, is
  approved with nobody asked: two approvals from one verdict. (2) A waiter that wakes late
  removes the prompt a later call has opened, which nobody can answer any more. (3) The
  provider is compared for filed decisions only: a second platform whose call has the same
  change set while the prompt is open receives the decision made for the first.
\<close>
theorem windows_of_resolve:
  "(let w = play default_budgets
       [Call env_read, Lookup (ar_change_set env_read) True [], Decide 0, Answered 0, Filed 0,
        Call env_read, Answered 0] (start_world 0 safe_service)
    in length (w_verdicts w) = 1 \<and> w_answers w = replicate 2 (env_read, local_decision True []))
   \<and> (let w = play default_budgets
       [Call env_read, Lookup (ar_change_set env_read) True [], Decide 0, Filed 0,
        Call env_read, Answered 1, Call env_read, Answered 0] (start_world 0 safe_service)
    in map (fst \<circ> snd) (w_waiters w) = [1] \<and> pending_list (w_service w) = []
       \<and> w_found (happen default_budgets (Lookup (ar_change_set env_read) True []) w) = [])
   \<and> (let w = play default_budgets
       [Call env_read, Call chatgpt_read, Lookup (ar_change_set env_read) True [], Decide 0, Filed 0, Answered 1]
       (start_world 0 safe_service)
    in w_answers w = [(chatgpt_read, local_decision True [])])"
  by code_simp

section \<open>The pending list\<close>

lemma mset_sink: "mset (sink p qs) = add_mset p (mset qs)"
  by (induction qs) auto

lemma sink_key: "filter (\<lambda>x. k = pd_created x) (rev (sink p qs)) = filter (\<lambda>x. k = pd_created x) (rev qs @ [p])"
  by (induction qs) auto

lemma sorted_sink:
  "sorted (map pd_created (rev qs)) \<Longrightarrow> sorted (map pd_created (rev (sink p qs)))"
proof (induction qs)
  case (Cons q qs)
  have "set (sink p qs) = insert p (set qs)" using mset_sink [of p qs] by (metis set_mset_add_mset_insert set_mset_mset)
  with Cons show ?case by (auto simp: sorted_append)
qed simp

text \<open>
  The pending list is the waiting approvals in order of creation, and approvals created
  at the same instant keep the order they came in: \<open>sortPending\<close> is a stable sort.
\<close>
theorem pending_oldest_first: "sort_pending ps = sort_key pd_created ps"
proof -
  have inv: "mset (foldl (\<lambda>done p. sink p done) [] ps) = mset ps
      \<and> sorted (map pd_created (rev (foldl (\<lambda>done p. sink p done) [] ps)))
      \<and> (\<forall>k. filter (\<lambda>x. k = pd_created x) (rev (foldl (\<lambda>done p. sink p done) [] ps)) = filter (\<lambda>x. k = pd_created x) ps)"
    by (induction ps rule: rev_induct) (auto simp: mset_sink sorted_sink sink_key)
  show ?thesis
    unfolding sort_pending_def
    by (rule properties_for_sort_key [symmetric]) (use inv in simp_all)
qed

end
