(* ===== verification/GatedWrites.thy ===== *)
theory GatedWrites
  imports TxnEngine Approval
begin

text \<open>
  The transaction engine (\<^verbatim>\<open>txn/engine.go\<close>) with the approval service (\<^verbatim>\<open>approval/approval.go\<close>) as
  its approver, the way \<^verbatim>\<open>app/app.go\<close> wires them: whose yes a write that reaches the disk had,
  and two ways in which the yes was given to something else.
\<close>

section \<open>The service behind the engine\<close>

text \<open>
  \<open>asked\<close> is the engine's approver when the service of a running companion stands behind it:
  the call joins the world \<open>w\<close>, the events \<open>es\<close> happen while it waits, and it returns what
  the service answered to it. A call the events leave waiting runs out its budget.
\<close>

definition answer_to :: "approval_request \<Rightarrow> world \<Rightarrow> world \<Rightarrow> approval_decision" where
  "answer_to req w w' =
     (case List.find (\<lambda>x. fst x = req) (rev (take (length (w_answers w') - length (w_answers w)) (w_answers w'))) of
        None \<Rightarrow> still_pending ''approval_budget_exceeded''
      | Some (_, d) \<Rightarrow> d)"

definition asked ::
  "budgets \<Rightarrow> world \<Rightarrow> event list \<Rightarrow> approval_request \<Rightarrow> disk \<Rightarrow> (string + approval_decision) \<times> disk" where
  "asked b w es req d = (Inr (answer_to req w (play b (Call req # es) w)), d)"

lemma answer_to_logged:
  "ad_approved (answer_to req w w') \<Longrightarrow> (req, answer_to req w w') \<in> set (w_answers w')"
proof -
  let ?new = "take (length (w_answers w') - length (w_answers w)) (w_answers w')"
  assume yes: "ad_approved (answer_to req w w')"
  show ?thesis
  proof (cases "List.find (\<lambda>x. fst x = req) (rev ?new)")
    case None
    with yes show ?thesis by (simp add: answer_to_def still_pending_def)
  next
    case (Some x)
    from find_SomeD [OF Some] have "fst x = req" and "x \<in> set ?new" by simp_all
    with Some show ?thesis by (cases x) (auto simp: answer_to_def dest: in_set_takeD)
  qed
qed

definition keeps_mode :: "event \<Rightarrow> bool" where
  "keeps_mode e = (case e of SwitchMode m c \<Rightarrow> False | _ \<Rightarrow> True)"

text \<open>In safe mode the policy adds no approval of its own to the log.\<close>

definition person_answers :: "world \<Rightarrow> world \<Rightarrow> bool" where
  "person_answers w w' \<longleftrightarrow> set (w_verdicts w) \<subseteq> set (w_verdicts w')
     \<and> (\<exists>new. w_answers w' = new @ w_answers w \<and>
          (\<forall>x \<in> set new. ad_approved (snd x) \<longrightarrow> (ar_change_set (fst x), snd x) \<in> set (w_verdicts w')))"

lemma person_answers_refl [simp]: "person_answers w w"
  by (simp add: person_answers_def)

lemma person_answers_trans: "person_answers a b \<Longrightarrow> person_answers b c \<Longrightarrow> person_answers a c"
  unfolding person_answers_def by (elim conjE exE, rename_tac x y, rule conjI, blast, rule_tac x = "y @ x" in exI) auto

lemma not_auto_safe: "sv_mode s = mode_safe \<Longrightarrow> \<not> auto_approved s req"
  by (simp add: auto_approved_def)

lemma safe_step:
  assumes "world_inv w" and "sv_mode (w_service w) = mode_safe" and "keeps_mode e"
  shows "sv_mode (w_service (happen b e w)) = mode_safe \<and> person_answers w (happen b e w)"
proof (cases e)
  case (Call req)
  obtain a n s' where at: "attach (w_now w) req (w_service w) = (a, n, s')"
    by (cases "attach (w_now w) req (w_service w)")
  then have "sv_mode s' = mode_safe"
    using assms(2) by (auto simp: attach_def new_pending_def Let_def split: option.splits if_splits)
  with Call at show ?thesis
    using not_auto_safe [OF assms(2)] by (simp add: approve_call_def Let_def person_answers_def)
next
  case (Answered i)
  show ?thesis
  proof (cases "i < length (w_waiters w)")
    case True
    obtain req a u where wt: "w_waiters w ! i = (req, a, u)" by (cases "w_waiters w ! i")
    with True have "(req, a, u) \<in> set (w_waiters w)" by (metis nth_mem)
    with assms(1) have "addr_ok (w_service w) (ar_change_set req) a" "objects_ok (sv_heap (w_service w)) (w_verdicts w)"
      by (fastforce simp: world_inv_def)+
    then show ?thesis
      using assms(2) True wt Answered
      by (auto simp: approve_done_def person_answers_def remove_id_def addr_ok_def objects_ok_def split: option.splits)
  qed (use assms Answered in \<open>simp add: approve_done_def\<close>)
qed (use assms in \<open>auto simp: approve_expired_def approve_cancelled_def resolve_lookup_def resolve_decide_def
      resolve_object_def resolve_file_def file_decision_def sweep_def keeps_mode_def still_pending_def person_answers_def
      split: prod.splits option.splits\<close>)

lemma safe_play:
  assumes "world_inv w" and "sv_mode (w_service w) = mode_safe" and "list_all keeps_mode es"
  shows "person_answers w (play b es w)"
  using assms
proof (induction es arbitrary: w)
  case (Cons e es)
  then have "person_answers w (happen b e w)" "sv_mode (w_service (happen b e w)) = mode_safe" "world_inv (happen b e w)"
    using safe_step [of w e b] world_inv_happen by simp_all
  with Cons show ?case by (simp add: play_def) (blast intro: person_answers_trans)
qed (simp add: play_def)

lemma answer_to_new:
  assumes "w_answers w' = new @ w_answers w" and "ad_approved (answer_to req w w')"
  shows "(req, answer_to req w w') \<in> set new"
proof (cases "List.find (\<lambda>x. fst x = req) (rev new)")
  case None
  with assms show ?thesis by (simp add: answer_to_def still_pending_def)
next
  case (Some x)
  with find_SomeD [OF Some] assms(1) show ?thesis by (cases x) (simp add: answer_to_def)
qed

text \<open>
  C3. The engine and the approval service together. When a change set is freshly reported
  applied by an engine whose approver is the service, at any point of any history and with
  any events during the wait, then \<open>Resolve\<close> recorded a yes for its identifier, or the
  request shown is one that policy may pass: no \<open>MustAsk\<close>, no sensitive path, no delete. While the
  service stays in safe mode, only the recorded yes remains.
\<close>
theorem applied_writes_were_allowed:
  assumes "new_service m b' = Inr s0" and "history b s0 w" and "rows_named st"
    and "en_approver en = asked b w es" and "fresh_applied (execute en ws rq st)"
  shows "\<exists>ps. call_plan en ws rq st = Some ps \<and>
    (let req = write_request ws rq (call_id en rq) ps in
     if \<exists>d. ad_approved d \<and> (call_id en rq, d) \<in> set (w_verdicts (play b (Call req # es) w)) then True
     else may_pass req \<and> \<not> (sv_mode (w_service w) = mode_safe \<and> list_all keeps_mode es))"
proof -
  from execute_outcome [OF assms(3), of en ws rq] assms(5) obtain ps where
    ps: "call_plan en ws rq st = Some ps" "says_yes (call_answer en ws rq (call_id en rq) ps st)"
    by (auto split: if_splits)
  let ?req = "write_request ws rq (call_id en rq) ps"
  let ?w' = "play b (Call ?req # es) w"
  from ps(2) assms(4) have yes: "ad_approved (answer_to ?req w ?w')"
    by (simp add: call_answer_def asked_def says_yes_def)
  have inv: "world_inv w" "world_inv ?w'"
    using history_inv [OF assms(2,1)] history_inv [OF history_play [OF assms(2)] assms(1)] by blast+
  have "answer_ok (w_verdicts ?w') (?req, answer_to ?req w ?w')"
    using inv(2) answer_to_logged [OF yes] by (auto simp: world_inv_def)
  moreover have "(call_id en rq, answer_to ?req w ?w') \<in> set (w_verdicts ?w')"
    if "sv_mode (w_service w) = mode_safe" "list_all keeps_mode es"
  proof -
    from that have "person_answers w ?w'" by (intro safe_play inv) (simp_all add: keeps_mode_def)
    with answer_to_new [OF _ yes] yes show ?thesis
      unfolding person_answers_def by (fastforce simp: write_request_def)
  qed
  ultimately show ?thesis using yes ps(1) by (auto simp: answer_ok_def Let_def write_request_def)
qed

text \<open>The prompt the user reads: a disclosure of a file, in safe mode.\<close>

definition asked_read :: approval_request where
  "asked_read = read_request ''claude'' ''ws_1'' ''.env''"

definition read_open :: world where
  "read_open = play default_budgets [Call asked_read] (start_world 0 safe_service)"

definition disguised :: txn_request where
  "disguised = create_b\<lparr>rq_id := ar_change_set asked_read\<rparr>"

abbreviation user_says_yes :: "event list" where
  "user_says_yes \<equiv> [Lookup (ar_change_set asked_read) True [], Decide 0, Filed 0, Answered 1]"

lemma disguised_sel [simp]:
  "rq_operations disguised = rq_operations create_b" "rq_id disguised = ''read:claude:ws_1:.env''"
  by (simp_all add: disguised_def) code_simp

lemma disguised_answer:
  "answer_to (write_request plain_ws disguised ''read:claude:ws_1:.env'' [planned_b]) read_open
     (play default_budgets (Call (write_request plain_ws disguised ''read:claude:ws_1:.env'' [planned_b]) # user_says_yes) read_open) = yes_dec"
  by code_simp

lemma disguised_prompt:
  "map pd_request (pending_list (w_service (happen default_budgets
     (Call (write_request plain_ws disguised ''read:claude:ws_1:.env'' [planned_b])) read_open))) = [asked_read]"
  by code_simp

lemma disguised_dir: "backup_dir (open_engine f) ''read:claude:ws_1:.env'' = [''b'', ''read:claude:ws_1:.env'']"
  by (simp add: backup_dir_def) code_simp


lemma apply_create_b: "fst (apply_plan (open_engine f) dir [planned_b] sample_disk) = None"
  by code_simp

lemma apply_create_b_reads:
  "read_file (snd (apply_plan (open_engine f) dir [planned_b] sample_disk)) [''w'', ''src'', ''b.go''] = Inr ''y''"
  by code_simp

abbreviation disguised_run :: "(txn_error + txn_result) \<times> engine_state" where
  "disguised_run \<equiv> execute (open_engine (asked default_budgets read_open user_says_yes)) plain_ws disguised (fresh_state sample_disk)"

lemma disguised_applied:
  "fresh_applied disguised_run" "read_file (es_disk (snd disguised_run)) [''w'', ''src'', ''b.go''] = Inr ''y''"
proof -
  let ?f = "asked default_budgets read_open user_says_yes"
  let ?dir = "[''b'', ''read:claude:ws_1:.env'']"
  obtain d3 where d3: "apply_plan (open_engine ?f) ?dir [planned_b] sample_disk = (None, d3)"
    using apply_create_b [of ?f ?dir] by (cases "apply_plan (open_engine ?f) ?dir [planned_b] sample_disk") simp
  have "en_approver (open_engine ?f) (write_request plain_ws disguised (rq_id disguised) [planned_b]) sample_disk = (Inr yes_dec, sample_disk)"
    using disguised_answer by (simp add: asked_def)
  from execute_first [OF _ _ _ _ _ _ this backup_b, of d3] d3
  have run: "fresh_applied disguised_run \<and> es_disk (snd disguised_run) = d3"
    using plan_b [of ?f] by (simp add: disguised_dir max_ops_def del: backup.simps)
  then show "fresh_applied disguised_run" "read_file (es_disk (snd disguised_run)) [''w'', ''src'', ''b.go''] = Inr ''y''"
    using apply_create_b_reads [of ?f ?dir] d3 by simp_all
qed

lemma read_open_history: "history default_budgets safe_service read_open"
  unfolding read_open_def by (intro history_play history.start)

theorem applied_writes_were_allowed_witness:
  "\<exists>d. ad_approved d \<and> (''read:claude:ws_1:.env'', d) \<in> set (w_verdicts (play default_budgets
     (Call (write_request plain_ws disguised ''read:claude:ws_1:.env'' [planned_b]) # user_says_yes) read_open))"
proof -
  have m: "sv_mode (w_service read_open) = mode_safe" by code_simp
  have k: "list_all keeps_mode user_says_yes" by (simp add: keeps_mode_def)
  have c: "call_id (open_engine f) disguised = ''read:claude:ws_1:.env''" for f by (simp add: call_id_def)
  have p: "call_plan (open_engine f) plain_ws disguised (fresh_state sample_disk) = Some [planned_b]" for f
    using plan_b [of f] by (simp add: call_plan_def fresh_state_def)
  show ?thesis
    using applied_writes_were_allowed [OF safe_service_new read_open_history rows_named_fresh open_engine_sel(5) disguised_applied(1)]
    unfolding p c option.inject Let_def using m k by (auto split: if_splits)
qed

text \<open>
  The keys of all prompts share one name space, and the identifier of a change set is the
  platform's choice. A write whose identifier is the key of an open prompt for a sensitive
  read joins that prompt: the list the user decides on shows only the disclosure of the file,
  and the yes to it applies the write, in safe mode.
\<close>
theorem one_answer_two_actions:
  "fresh_applied (execute (open_engine (asked default_budgets read_open user_says_yes)) plain_ws disguised (fresh_state sample_disk))
   \<and> read_file (es_disk (snd (execute (open_engine (asked default_budgets read_open user_says_yes)) plain_ws disguised
        (fresh_state sample_disk)))) [''w'', ''src'', ''b.go''] = Inr ''y''
   \<and> map pd_request (pending_list (w_service (happen default_budgets
     (Call (write_request plain_ws disguised (rq_id disguised) [planned_b])) read_open))) = [asked_read]"
  using disguised_applied disguised_prompt by simp

section \<open>A prompt that moves to another workspace\<close>

lemma execute_pended:
  assumes "ws_writable w" and "ws_id w \<noteq> []" and "rq_id rq \<noteq> []"
    and "rq_operations rq \<noteq> []" and "length (rq_operations rq) \<le> max_ops"
    and pl: "plan en d w (rq_operations rq) = Inr (Inr ps)"
    and ap: "en_approver en (write_request w rq (rq_id rq) ps) d = (Inr (still_pending why), d)"
  shows "snd (execute en w rq (fresh_state d)) = (fresh_state d)\<lparr>es_sets := [(rq_id rq,
     \<lparr>cs_id = rq_id rq, cs_workspace = ws_id w, cs_provider = rq_provider rq,
     cs_operations = map json_operation (rq_operations rq), cs_state = CsPending,
     cs_before = before_hashes ps, cs_after = [], cs_backup = [], cs_applied = None, cs_deadline = None\<rparr>)]\<rparr>"
  using assms
  by (simp add: execute_def claim_def fresh_state_def db_call_def run_claimed_def create_change_set_def put_set_def
      approve_and_commit_def still_pending_def release_def Let_def)

lemma execute_resumed:
  assumes "ws_writable w" and "rq_id rq \<noteq> []"
    and "rq_operations rq \<noteq> []" and "length (rq_operations rq) \<le> max_ops"
    and st: "st = (fresh_state d)\<lparr>es_sets := [(rq_id rq, rec)]\<rparr>"
    and rec: "cs_id rec = rq_id rq" "cs_state rec = CsPending" "cs_operations rec = map json_operation (rq_operations rq)" "cs_workspace rec \<noteq> []"
    and pl: "plan en d w (rq_operations rq) = Inr (Inr ps)"
    and ap: "en_approver en (write_request w rq (rq_id rq) ps) d = (Inr yes_dec, d1)"
    and bk: "backup (backup_dir en (rq_id rq)) ps d1 = (None, d2)"
    and ok: "apply_plan en (backup_dir en (rq_id rq)) ps d2 = (None, d3)"
  shows "fresh_applied (execute en w rq st) \<and> es_disk (snd (execute en w rq st)) = d3"
proof -
  let ?c = "rq_id rq"
  let ?st = "st\<lparr>es_inflight := [?c]\<rparr>"
  let ?out = "approve_and_commit en w rq rec ps ?st"
  have "fresh_applied ?out \<and> es_disk (snd ?out) = d3"
    using assms(2) rec
    by (simp add: st fresh_state_def approve_and_commit_def ap update_change_set_def db_call_def put_set_def commit_def Let_def
        bk ok fresh_applied_def plain_result_def audit_applied_db)
  moreover have "execute en w rq st = map_prod id (release ?c) ?out"
    using assms(1-4) rec pl
    by (simp add: execute_def claim_def st fresh_state_def db_call_def run_claimed_def Let_def)
  ultimately show ?thesis by (simp add: release_outcome)
qed

text \<open>A second workspace of the same user, and the file asked for in both.\<close>

definition inner_ws :: workspace where
  "inner_ws = plain_ws\<lparr>ws_id := ''ws_2'', ws_root := ''/w/src''\<rparr>"

definition create_c :: txn_request where
  "create_c = create_b\<lparr>rq_operations := [blank_operation\<lparr>op_path := ''c.go'', op_content := ''y''\<rparr>]\<rparr>"

definition planned_c :: "path \<Rightarrow> planned_op" where
  "planned_c p = (blank_op (blank_operation\<lparr>op_path := ''c.go'', op_content := ''y''\<rparr>) ''c.go'' p)\<lparr>po_after := ''y''\<rparr>"

lemma c_name: "validate_component plain_unicode ''c.go'' = None"
  by (subst validate_component_ascii, code_simp, code_simp)

lemma c_facts:
  "clean ''c.go'' = ''c.go''" "split_on slash ''c.go'' = [''c.go'']"
  "inspect sample_disk ''/w'' [''c.go''] = None" "inspect sample_disk ''/w/src'' [''c.go''] = None"
  "segs ''/w/c.go'' = [''w'', ''c.go'']" "segs ''/w/src/c.go'' = [''w'', ''src'', ''c.go'']"
  "verify_real_path sample_disk ''/w'' [''w'', ''c.go''] = None"
  "verify_real_path sample_disk ''/w/src'' [''w'', ''src'', ''c.go''] = None"
  "path_join [''/w'', ''c.go''] = ''/w/c.go''" "path_join [''/w/src'', ''c.go''] = ''/w/src/c.go''"
  "equal_fold plain_unicode ''c.go'' ''.git'' = False"
  "lstat sample_disk [''w'', ''c.go''] = Inl ENOENT" "lstat sample_disk [''w'', ''src'', ''c.go''] = Inl ENOENT"
  by code_simp+

lemma clean_path_c: "clean_path plain_unicode ''c.go'' = Inr ''c.go''"
  by (simp add: clean_path_def max_path_len_def replace_byte_def backslash_def nul_def
      contains_byte_iff is_windows_drive_path_def c_facts c_name)

lemma resolve_c:
  "ws_resolve plain_unicode sample_disk plain_ws ''c.go'' OpWrite = Inr (''/w/c.go'', ''c.go'')"
  "ws_resolve plain_unicode sample_disk inner_ws ''c.go'' OpWrite = Inr (''/w/src/c.go'', ''c.go'')"
  by (simp_all add: ws_resolve_def inner_ws_def plain_ws_def resolve_def clean_path_c c_facts max_abs_path_len_def Let_def
      del: inspect.simps segs_slash)

lemma inner_sel [simp]: "ws_id inner_ws = ''ws_2''" "ws_writable inner_ws" "sensitive u inner_ws rel = False"
  by (simp_all add: inner_ws_def sensitive_def plain_ws_def matches_any_def)

lemma create_c_sel [simp]:
  "rq_id create_c = ''chg_1''" "rq_operations create_c = [blank_operation\<lparr>op_path := ''c.go'', op_content := ''y''\<rparr>]"
  by (simp_all add: create_c_def)

lemma plan_c:
  "plan (open_engine f) sample_disk plain_ws (rq_operations create_c) = Inr (Inr [planned_c [''w'', ''c.go'']])"
  "plan (open_engine f) sample_disk inner_ws (rq_operations create_c) = Inr (Inr [planned_c [''w'', ''src'', ''c.go'']])"
  by (simp_all add: plan_def plan_op_def plan_create_def resolve_c c_facts planned_c_def blank_op_def
      blank_operation_def preview_def max_op_content_bytes_def del: segs_slash)

lemma apply_c:
  "fst (apply_plan (open_engine f) dir [planned_c [''w'', ''src'', ''c.go'']] sample_disk) = None"
  "read_file (snd (apply_plan (open_engine f) dir [planned_c [''w'', ''src'', ''c.go'']] sample_disk)) [''w'', ''src'', ''c.go''] = Inr ''y''"
  by code_simp+

text \<open>The first call gives up waiting; its prompt, which names \<^verbatim>\<open>ws_1\<close>, stays open.\<close>

abbreviation first_asked :: approval_request where
  "first_asked \<equiv> write_request plain_ws create_c ''chg_1'' [planned_c [''w'', ''c.go'']]"

abbreviation second_asked :: approval_request where
  "second_asked \<equiv> write_request inner_ws create_c ''chg_1'' [planned_c [''w'', ''src'', ''c.go'']]"

definition prompt_open :: world where
  "prompt_open = play default_budgets [Call first_asked, CallerGone 0] (start_world 0 safe_service)"

definition yes_to_first :: "event list" where
  "yes_to_first = [Lookup ''chg_1'' True [], Decide 0, Filed 0, Answered 0]"

lemma first_pended:
  "answer_to first_asked (start_world 0 safe_service)
     (play default_budgets [Call first_asked, CallerGone 0] (start_world 0 safe_service)) = still_pending ''caller_disconnected''"
  by code_simp

lemma second_answer:
  "answer_to second_asked prompt_open (play default_budgets (Call second_asked # yes_to_first) prompt_open) = yes_dec"
  by code_simp

lemma second_prompt:
  "map pd_request (pending_list (w_service (happen default_budgets (Call second_asked) prompt_open))) = [first_asked]"
  by code_simp

text \<open>
  A retry may name another workspace. \<open>claim\<close> hands a pending change set to any call with its
  identifier, only the operations are compared, and the prompt of the first call is joined:
  the user reads the name of the first workspace, says yes, and the file is written in the
  second one.
\<close>
theorem approval_changes_workspace:
  "(let first = execute (open_engine (asked default_budgets (start_world 0 safe_service) [CallerGone 0]))
        plain_ws create_c (fresh_state sample_disk);
       out = execute (open_engine (asked default_budgets prompt_open yes_to_first)) inner_ws create_c (snd first)
   in fresh_applied out \<and> read_file (es_disk (snd out)) [''w'', ''src'', ''c.go''] = Inr ''y'')
   \<and> map (ar_workspace \<circ> pd_request)
        (pending_list (w_service (happen default_budgets (Call second_asked) prompt_open))) = [''ws_1'']"
proof -
  let ?e1 = "open_engine (asked default_budgets (start_world 0 safe_service) [CallerGone 0])"
  let ?e2 = "open_engine (asked default_budgets prompt_open yes_to_first)"
  let ?p = "[planned_c [''w'', ''src'', ''c.go'']]"
  have len: "rq_id create_c \<noteq> []" "rq_operations create_c \<noteq> []" "length (rq_operations create_c) \<le> max_ops"
    by (simp_all add: max_ops_def)
  have "en_approver ?e1 (write_request plain_ws create_c (rq_id create_c) [planned_c [''w'', ''c.go'']]) sample_disk
      = (Inr (still_pending ''caller_disconnected''), sample_disk)"
    using first_pended by (simp add: asked_def)
  from execute_pended [OF _ _ len plan_c(1) this]
  obtain rec where rec: "snd (execute ?e1 plain_ws create_c (fresh_state sample_disk))
        = (fresh_state sample_disk)\<lparr>es_sets := [(rq_id create_c, rec)]\<rparr>"
      "cs_id rec = rq_id create_c" "cs_state rec = CsPending" "cs_operations rec = map json_operation (rq_operations create_c)" "cs_workspace rec \<noteq> []"
    by simp
  have yes: "en_approver ?e2 (write_request inner_ws create_c (rq_id create_c) ?p) sample_disk = (Inr yes_dec, sample_disk)"
    using second_answer by (simp add: asked_def)
  have bk: "backup dir ?p sample_disk = (None, sample_disk)" for dir
    by (simp add: backup_op_def and_then_def planned_c_def blank_op_def blank_operation_def)
  obtain d3 where d3: "apply_plan ?e2 (backup_dir ?e2 (rq_id create_c)) ?p sample_disk = (None, d3)"
    using apply_c(1) [of "asked default_budgets prompt_open yes_to_first" "backup_dir ?e2 (rq_id create_c)"]
    by (cases "apply_plan ?e2 (backup_dir ?e2 (rq_id create_c)) ?p sample_disk") simp
  from execute_resumed [OF inner_sel(2) len rec plan_c(2) yes bk d3]
  have "fresh_applied (execute ?e2 inner_ws create_c (snd (execute ?e1 plain_ws create_c (fresh_state sample_disk))))"
    "es_disk (snd (execute ?e2 inner_ws create_c (snd (execute ?e1 plain_ws create_c (fresh_state sample_disk))))) = d3"
    by simp_all
  moreover have "read_file d3 [''w'', ''src'', ''c.go''] = Inr ''y''"
    using apply_c(2) [of "asked default_budgets prompt_open yes_to_first" "backup_dir ?e2 (rq_id create_c)"] d3 by simp
  moreover have "map (ar_workspace \<circ> pd_request)
        (pending_list (w_service (happen default_budgets (Call second_asked) prompt_open))) = [''ws_1'']"
    using arg_cong [OF second_prompt, of "map ar_workspace"] by (simp add: write_request_def)
  ultimately show ?thesis by (simp only: Let_def simp_thms)
qed

end
