(* ===== verification/ExecLog.thy ===== *)
theory ExecLog
  imports CommandGrants
begin

text \<open>
  The journal of command attempts: the append-only table (\<^verbatim>\<open>store/exec.go\<close>), the auditor that
  fills it (\<^verbatim>\<open>app/execaudit.go\<close>) and what a restart does with the runs that never reported an
  end (\<^verbatim>\<open>app/reconcile.go\<close>). Each statement takes one entry of a schedule: a database error, or
  none. A row keeps the argv itself where the table keeps its JSON text.
\<close>

section \<open>The table\<close>

record exec_event =
  ee_id :: int
  ee_workspace :: string
  ee_dir :: string
  ee_argv :: "string list"
  ee_outcome :: string
  ee_exit :: int
  ee_duration_ms :: int
  ee_rule :: string
  ee_provider :: string
  ee_run :: string
  ee_reason :: string
  ee_created :: time

record exec_store =
  xs_rows :: "exec_event list"
  xs_faults :: "string option list"

abbreviation outcome_started :: string where "outcome_started \<equiv> ''started''"
abbreviation outcome_interrupted :: string where "outcome_interrupted \<equiv> ''interrupted''"

definition exec_db :: "exec_store \<Rightarrow> string option \<times> exec_store" where
  "exec_db st = (case xs_faults st of [] \<Rightarrow> (None, st) | f # fs \<Rightarrow> (f, st\<lparr>xs_faults := fs\<rparr>))"

text \<open>The key SQLite gives the next row of a table from which nothing is deleted.\<close>

definition next_row_id :: "exec_event list \<Rightarrow> int" where
  "next_row_id rows = (if rows = [] then 1 else ee_id (last rows) + 1)"

definition append_exec_event :: "time \<Rightarrow> exec_event \<Rightarrow> exec_store \<Rightarrow> store_error option \<times> exec_store" where
  "append_exec_event now e st0 =
     (if ee_argv e = [] then (Some (ErrMissing ''exec event: missing argv''), st0)
      else if ee_outcome e = [] then (Some (ErrMissing ''exec event: missing outcome''), st0)
      else let e1 = (if ee_created e = 0 then e\<lparr>ee_created := now\<rparr> else e); (f, st) = exec_db st0 in
        (case f of
           Some msg \<Rightarrow> (Some (ErrDB msg), st)
         | None \<Rightarrow> (None, st\<lparr>xs_rows := xs_rows st @ [e1\<lparr>ee_id := next_row_id (xs_rows st)\<rparr>]\<rparr>)))"

definition clamp_limit :: "int \<Rightarrow> nat" where
  "clamp_limit limit = nat (if limit \<le> 0 then 100 else limit)"

definition list_exec_events :: "int \<Rightarrow> exec_store \<Rightarrow> (store_error + exec_event list) \<times> exec_store" where
  "list_exec_events limit st0 =
     (let (f, st) = exec_db st0 in
      (case f of
         Some msg \<Rightarrow> Inl (ErrDB msg)
       | None \<Rightarrow> Inr (take (clamp_limit limit) (rev (filter (\<lambda>e. ee_outcome e \<noteq> outcome_started) (xs_rows st)))), st))"

text \<open>A row without a workspace holds NULL, which equals nothing.\<close>

definition list_exec_events_for :: "string \<Rightarrow> int \<Rightarrow> exec_store \<Rightarrow> (store_error + exec_event list) \<times> exec_store" where
  "list_exec_events_for ws limit st0 =
     (let (f, st) = exec_db st0 in
      (case f of
         Some msg \<Rightarrow> Inl (ErrDB msg)
       | None \<Rightarrow> Inr (take (clamp_limit limit) (rev (filter
           (\<lambda>e. ee_workspace e \<noteq> [] \<and> ee_workspace e = ws \<and> ee_outcome e \<noteq> outcome_started) (xs_rows st)))), st))"

definition ended :: "exec_event list \<Rightarrow> string \<Rightarrow> bool" where
  "ended rows run = list_ex (\<lambda>e. ee_run e = run \<and> ee_outcome e \<noteq> outcome_started) rows"

definition orphans :: "exec_event list \<Rightarrow> exec_event list" where
  "orphans rows = filter (\<lambda>e. ee_outcome e = outcome_started \<and> ee_run e \<noteq> [] \<and> \<not> ended rows (ee_run e)) rows"

definition orphaned_runs :: "exec_store \<Rightarrow> (store_error + exec_event list) \<times> exec_store" where
  "orphaned_runs st0 =
     (let (f, st) = exec_db st0 in
      (case f of Some msg \<Rightarrow> Inl (ErrDB msg) | None \<Rightarrow> Inr (orphans (xs_rows st)), st))"

definition last_end :: "exec_event list \<Rightarrow> string \<Rightarrow> exec_event option" where
  "last_end rows run = List.find (\<lambda>e. ee_run e = run \<and> ee_outcome e \<noteq> outcome_started) (rev rows)"

definition find_run :: "string \<Rightarrow> exec_store \<Rightarrow> (store_error + exec_event option) \<times> exec_store" where
  "find_run run st0 =
     (if run = [] then (Inr None, st0)
      else let (f, st) = exec_db st0 in
        (case f of Some msg \<Rightarrow> Inl (ErrDB msg) | None \<Rightarrow> Inr (last_end (xs_rows st) run), st))"

section \<open>The auditor\<close>

text \<open>What the execution engine and the tools report of an attempt (\<open>cmdexec.Record\<close>).\<close>

record exec_record =
  er_workspace :: string
  er_dir :: string
  er_argv :: "string list"
  er_outcome :: string
  er_exit :: int
  er_reason :: string
  er_rule :: string
  er_provider :: string
  er_run :: string
  er_duration :: time

text \<open>\<open>Duration.Milliseconds\<close>: division towards zero.\<close>

definition milliseconds :: "time \<Rightarrow> int" where
  "milliseconds d = (if d < 0 then - ((- d) div 1000000) else d div 1000000)"

definition event_of :: "exec_record \<Rightarrow> exec_event" where
  "event_of r =
     \<lparr>ee_id = 0, ee_workspace = er_workspace r, ee_dir = er_dir r, ee_argv = er_argv r, ee_outcome = er_outcome r,
      ee_exit = er_exit r, ee_duration_ms = milliseconds (er_duration r), ee_rule = er_rule r,
      ee_provider = er_provider r, ee_run = er_run r, ee_reason = er_reason r, ee_created = 0\<rparr>"

text \<open>A failed insert is logged and otherwise ignored.\<close>

definition exec_attempt :: "time \<Rightarrow> exec_record \<Rightarrow> exec_store \<Rightarrow> exec_store" where
  "exec_attempt now r st = snd (append_exec_event now (event_of r) st)"

section \<open>A restart\<close>

definition interrupted_answer :: "exec_event \<Rightarrow> exec_event" where
  "interrupted_answer e =
     \<lparr>ee_id = 0, ee_workspace = ee_workspace e, ee_dir = ee_dir e, ee_argv = ee_argv e, ee_outcome = outcome_interrupted,
      ee_exit = - 1, ee_duration_ms = 0, ee_rule = [], ee_provider = ee_provider e, ee_run = ee_run e,
      ee_reason = ''Fylane stopped while this command was running; whether it finished, and what it left behind, is not known'',
      ee_created = 0\<rparr>"

fun answer_orphans :: "time \<Rightarrow> exec_event list \<Rightarrow> exec_store \<Rightarrow> exec_store" where
  "answer_orphans now [] st = st"
| "answer_orphans now (e # es) st =
     (case append_exec_event now (interrupted_answer e) st of
        (Some err, st') \<Rightarrow> st'
      | (None, st') \<Rightarrow> answer_orphans now es st')"

definition reconcile_runs :: "time \<Rightarrow> exec_store \<Rightarrow> exec_store" where
  "reconcile_runs now st0 =
     (case orphaned_runs st0 of
        (Inl e, st) \<Rightarrow> st
      | (Inr es, st) \<Rightarrow> answer_orphans now es st)"


section \<open>Rows that were appended\<close>

lemma exec_db_rows [simp]: "xs_rows (snd (exec_db st)) = xs_rows st"
  by (simp add: exec_db_def split: list.splits)

lemma exec_db_quiet: "xs_faults st = [] \<Longrightarrow> exec_db st = (None, st)"
  by (simp add: exec_db_def)

lemma append_quiet:
  assumes "xs_faults st = []" and "ee_argv e \<noteq> []" and "ee_outcome e \<noteq> []"
  obtains row where "append_exec_event now e st = (None, st\<lparr>xs_rows := xs_rows st @ [row]\<rparr>)"
    and "ee_run row = ee_run e" "ee_outcome row = ee_outcome e" "ee_exit row = ee_exit e" "ee_argv row = ee_argv e"
    "ee_reason row = ee_reason e" "ee_duration_ms row = ee_duration_ms e"
proof (rule that)
  let ?row = "(if ee_created e = 0 then e\<lparr>ee_created := now\<rparr> else e)\<lparr>ee_id := next_row_id (xs_rows st)\<rparr>"
  show "append_exec_event now e st = (None, st\<lparr>xs_rows := xs_rows st @ [?row]\<rparr>)"
    using assms by (simp add: append_exec_event_def exec_db_quiet Let_def)
qed simp_all

lemma append_rows:
  "\<exists>added. xs_rows (snd (append_exec_event now e st)) = xs_rows st @ added
     \<and> list_all (\<lambda>row. ee_run row = ee_run e \<and> ee_outcome row = ee_outcome e) added"
  using exec_db_rows [of st]
  by (auto simp: append_exec_event_def Let_def split_beta simp del: exec_db_rows split: option.splits)

lemma ended_append: "ended (xs @ ys) run \<longleftrightarrow> ended xs run \<or> ended ys run"
  by (simp add: ended_def)

lemma orphans_append_ends:
  assumes "list_all (\<lambda>e. ee_outcome e \<noteq> outcome_started) added"
  shows "orphans (rows @ added) = filter (\<lambda>e. \<not> ended added (ee_run e)) (orphans rows)"
proof -
  have "filter (\<lambda>e. ee_outcome e = outcome_started \<and> ee_run e \<noteq> [] \<and> \<not> ended (rows @ added) (ee_run e)) added = []"
    using assms by (simp add: filter_empty_conv list_all_iff)
  then show ?thesis
    by (simp add: orphans_def ended_append conj_commute conj_left_commute cong: filter_cong)
qed

lemma answer_quiet:
  assumes "xs_faults st = []" and "list_all (\<lambda>e. ee_argv e \<noteq> []) es"
  shows "\<exists>added. answer_orphans now es st = st\<lparr>xs_rows := xs_rows st @ added\<rparr>
     \<and> map ee_run added = map ee_run es \<and> list_all (\<lambda>e. ee_outcome e = outcome_interrupted \<and> ee_exit e = - 1) added"
  using assms
proof (induction es arbitrary: st)
  case (Cons e es)
  obtain row where row: "append_exec_event now (interrupted_answer e) st = (None, st\<lparr>xs_rows := xs_rows st @ [row]\<rparr>)"
    "ee_run row = ee_run e" "ee_outcome row = outcome_interrupted" "ee_exit row = - 1"
    using Cons.prems append_quiet [of st "interrupted_answer e" now] by (auto simp: interrupted_answer_def)
  obtain added where "answer_orphans now es (st\<lparr>xs_rows := xs_rows st @ [row]\<rparr>) = st\<lparr>xs_rows := xs_rows st @ [row] @ added\<rparr>"
    "map ee_run added = map ee_run es" "list_all (\<lambda>e. ee_outcome e = outcome_interrupted \<and> ee_exit e = - 1) added"
    using Cons.IH [of "st\<lparr>xs_rows := xs_rows st @ [row]\<rparr>"] Cons.prems by auto
  with row show ?case by (intro exI [of _ "row # added"]) simp
qed (auto intro: exI [of _ "[]"])

text \<open>Every row of the table has an argv: an insert without one is refused.\<close>

definition rows_argued :: "exec_store \<Rightarrow> bool" where
  "rows_argued st = list_all (\<lambda>e. ee_argv e \<noteq> []) (xs_rows st)"

lemma rows_argued_append: "rows_argued st \<Longrightarrow> rows_argued (snd (append_exec_event now e st))"
  by (auto simp: rows_argued_def append_exec_event_def exec_db_def Let_def split: list.splits option.splits)

lemma last_end_append:
  "last_end (rows @ added) run = (case last_end added run of Some e \<Rightarrow> Some e | None \<Rightarrow> last_end rows run)"
proof -
  have "List.find P (xs @ ys) = (case List.find P xs of Some e \<Rightarrow> Some e | None \<Rightarrow> List.find P ys)" for P and xs ys :: "exec_event list"
    by (induction xs) auto
  then show ?thesis by (simp add: last_end_def split: option.split)
qed

lemma find_None: "List.find P xs = None \<longleftrightarrow> \<not> list_ex P xs"
  by (induction xs) auto

lemma last_end_None: "last_end rows run = None \<longleftrightarrow> \<not> ended rows run"
  unfolding last_end_def ended_def find_None by simp

lemma last_end_SomeD: "last_end rows run = Some e \<Longrightarrow> e \<in> set rows \<and> ee_run e = run \<and> ee_outcome e \<noteq> outcome_started"
  by (auto simp: last_end_def dest: find_SomeD)

lemma reconcile_quiet:
  assumes "xs_faults st = []" and "rows_argued st"
  obtains added where "reconcile_runs now st = st\<lparr>xs_rows := xs_rows st @ added\<rparr>"
    and "map ee_run added = map ee_run (orphans (xs_rows st))"
    and "list_all (\<lambda>e. ee_outcome e = outcome_interrupted \<and> ee_exit e = - 1) added"
proof -
  have "list_all (\<lambda>e. ee_argv e \<noteq> []) (orphans (xs_rows st))"
    using assms(2) by (auto simp: rows_argued_def orphans_def list_all_iff)
  from answer_quiet [OF assms(1) this, of now] show ?thesis
    using assms(1) by (auto intro: that simp: reconcile_runs_def orphaned_runs_def exec_db_quiet)
qed

lemma ended_by:
  assumes "map ee_run added = map ee_run es" and "list_all (\<lambda>e. ee_outcome e = outcome_interrupted \<and> ee_exit e = - 1) added"
    and "e \<in> set es"
  shows "ended added (ee_run e)"
proof -
  have "ee_run e \<in> set (map ee_run added)" using assms(1,3) by (simp add: image_iff) blast
  with assms(2) show ?thesis by (auto simp: ended_def list_ex_iff list_all_iff)
qed

lemma restart_find:
  assumes "xs_faults st = []" and "rows_argued st"
  shows "map_option ee_outcome (last_end (xs_rows (reconcile_runs now st)) run) =
    (if List.member (map ee_run (orphans (xs_rows st))) run then Some outcome_interrupted
     else map_option ee_outcome (last_end (xs_rows st) run))"
proof -
  obtain added where m: "reconcile_runs now st = st\<lparr>xs_rows := xs_rows st @ added\<rparr>"
    "map ee_run added = map ee_run (orphans (xs_rows st))"
    "list_all (\<lambda>e. ee_outcome e = outcome_interrupted \<and> ee_exit e = - 1) added"
    using reconcile_quiet [OF assms] .
  have run: "ended added run \<longleftrightarrow> run \<in> set (map ee_run (orphans (xs_rows st)))"
    using m(3) unfolding m(2) [symmetric] by (auto simp: ended_def list_ex_iff list_all_iff)
  show ?thesis
  proof (cases "last_end added run")
    case None
    with run last_end_None [of added run] show ?thesis by (simp add: m(1) last_end_append)
  next
    case (Some e)
    with last_end_SomeD [OF Some] m(3) run last_end_None [of added run] show ?thesis
      by (auto simp: m(1) last_end_append list_all_iff)
  qed
qed

lemma exec_attempt_quiet:
  assumes "xs_faults st = []" and "er_argv r \<noteq> []" and "er_outcome r \<noteq> []"
  obtains row where "exec_attempt now r st = st\<lparr>xs_rows := xs_rows st @ [row]\<rparr>"
    and "ee_run row = er_run r" "ee_outcome row = er_outcome r" "ee_argv row = er_argv r"
proof -
  have "ee_argv (event_of r) \<noteq> []" "ee_outcome (event_of r) \<noteq> []" using assms(2,3) by (simp_all add: event_of_def)
  from append_quiet [OF assms(1) this] obtain row where
    "append_exec_event now (event_of r) st = (None, st\<lparr>xs_rows := xs_rows st @ [row]\<rparr>)"
    "ee_run row = ee_run (event_of r)" "ee_outcome row = ee_outcome (event_of r)" "ee_argv row = ee_argv (event_of r)"
    by blast
  then show ?thesis by (intro that [of row]) (simp_all add: exec_attempt_def, simp_all add: event_of_def)
qed

text \<open>
  A restart answers every run that never ended and nothing else: with an answering database the
  rows stay and one interrupted row per orphan is added, no orphan is left, so a second
  restart adds nothing; a run that had ended is still answered by its own end.
\<close>
theorem restart_answers_orphans:
  assumes "xs_faults st = []" and "rows_argued st"
  shows "map ee_run (drop (length (xs_rows st)) (xs_rows (reconcile_runs now st))) = map ee_run (orphans (xs_rows st))
    \<and> take (length (xs_rows st)) (xs_rows (reconcile_runs now st)) = xs_rows st
    \<and> orphans (xs_rows (reconcile_runs now st)) = []
    \<and> reconcile_runs later (reconcile_runs now st) = reconcile_runs now st
    \<and> last_end (xs_rows (reconcile_runs now st)) run =
        (if List.member (map ee_run (orphans (xs_rows st))) run
         then last_end (drop (length (xs_rows st)) (xs_rows (reconcile_runs now st))) run
         else last_end (xs_rows st) run)"
proof -
  obtain added where m: "reconcile_runs now st = st\<lparr>xs_rows := xs_rows st @ added\<rparr>"
    "map ee_run added = map ee_run (orphans (xs_rows st))"
    "list_all (\<lambda>e. ee_outcome e = outcome_interrupted \<and> ee_exit e = - 1) added"
    using reconcile_quiet [OF assms] .
  have ends: "list_all (\<lambda>e. ee_outcome e \<noteq> outcome_started) added" using m(3) by (auto simp: list_all_iff)
  have none: "orphans (xs_rows st @ added) = []"
    unfolding orphans_append_ends [OF ends] by (auto simp: filter_empty_conv intro: ended_by [OF m(2,3)])
  have again: "reconcile_runs later (st\<lparr>xs_rows := xs_rows st @ added\<rparr>) = st\<lparr>xs_rows := xs_rows st @ added\<rparr>"
    using assms(1) none by (simp add: reconcile_runs_def orphaned_runs_def exec_db_quiet)
  have run: "ended added run \<longleftrightarrow> run \<in> set (map ee_run (orphans (xs_rows st)))"
    using ends unfolding m(2) [symmetric] by (auto simp: ended_def list_ex_iff list_all_iff)
  then have "last_end (xs_rows st @ added) run =
      (if run \<in> set (map ee_run (orphans (xs_rows st))) then last_end added run else last_end (xs_rows st) run)"
    using last_end_None [of added run] by (auto simp: last_end_append split: option.splits)
  with m none again show ?thesis by simp
qed

text \<open>A run that was cut off.\<close>

definition cut_off :: exec_event where
  "cut_off = \<lparr>ee_id = 1, ee_workspace = ''ws_1'', ee_dir = [], ee_argv = [''npm'', ''install''], ee_outcome = outcome_started,
     ee_exit = 0, ee_duration_ms = 0, ee_rule = [], ee_provider = ''claude'', ee_run = ''r1'', ee_reason = [], ee_created = 7\<rparr>"

theorem restart_answers_orphans_witness:
  "orphans [cut_off] = [cut_off] \<and> orphans (xs_rows (reconcile_runs 9 \<lparr>xs_rows = [cut_off], xs_faults = []\<rparr>)) = []"
  using restart_answers_orphans [of "\<lparr>xs_rows = [cut_off], xs_faults = []\<rparr>" 9]
  by (simp add: rows_argued_def cut_off_def orphans_def ended_def)

end
