(* ===== verification/CmdRun.thy ===== *)
theory CmdRun
  imports CmdExec Sandbox ExecLog
begin

text \<open>
  The runner of \<^verbatim>\<open>cmdexec/cmdexec.go\<close>: what it refuses, the directory and the program it resolves, the
  process it starts and the rows it writes around it. The operating system that runs the process
  is the argument \<open>rn_os\<close>; Unix is assumed, so \<open>filepath.ToSlash\<close> changes nothing.
\<close>

section \<open>What a run is asked for and gives back\<close>

record spec =
  sp_workspace :: string
  sp_root :: string
  sp_dir :: string
  sp_argv :: "string list"
  sp_provider :: string
  sp_network :: bool
  sp_run :: string
  sp_timeout :: time
  sp_max_output :: int

record run_result =
  rs_exit :: int
  rs_stdout :: string
  rs_stderr :: string
  rs_stdout_cut :: bool
  rs_stderr_cut :: bool
  rs_duration :: time
  rs_timed_out :: bool

datatype run_error =
    RunNoCommand | RunRootNotAbsolute | RunShell string | RunDirPath path_error | RunDirStat string os_error
  | RunNotDirectory string | RunNoProgram string | RunProgramPath path_error | RunProgramNotFile string
  | RunStart string

text \<open>The process asked of the system: its boundary is the workspace root and the network flag.\<close>

record child =
  ch_prog :: string
  ch_args :: "string list"
  ch_dir :: string
  ch_env :: "string list"
  ch_root :: string
  ch_network :: bool

datatype wait_end = WaitOk | WaitExit int | WaitBroken

text \<open>
  What the system reports of a process: the chunks of both streams, how the wait ended, and
  whether the run's deadline had passed and the caller's context was done, the latter also at
  the moment the outcome is written.
\<close>

record process_end =
  pe_stdout :: "string list"
  pe_stderr :: "string list"
  pe_wait :: wait_end
  pe_elapsed :: time
  pe_deadline :: bool
  pe_ctx_done :: bool
  pe_ctx_done_later :: bool

record runner =
  rn_unicode :: unicode
  rn_disk :: disk
  rn_cwd :: path
  rn_lookup :: "string \<Rightarrow> string option"
  rn_os :: "child \<Rightarrow> time \<Rightarrow> string + process_end"
  rn_say :: "run_error \<Rightarrow> string"

section \<open>Directory and program\<close>

definition trim_slashes :: "string \<Rightarrow> string" where
  "trim_slashes s = rev (dropWhile (\<lambda>c. c = slash) (rev (dropWhile (\<lambda>c. c = slash) s)))"

definition resolve_dir :: "unicode \<Rightarrow> disk \<Rightarrow> string \<Rightarrow> string \<Rightarrow> run_error + string \<times> string" where
  "resolve_dir u d root dir =
     (let t = trim_slashes (replace_byte backslash slash dir) in
      if t = [] \<or> t = dot then Inr ([], root)
      else (case resolve u d root dir OpRead of
          Inl e \<Rightarrow> Inl (RunDirPath e)
        | Inr (full, rel) \<Rightarrow>
            (case follow d (segs full) of
               Inl e \<Rightarrow> Inl (RunDirStat rel e)
             | Inr (q, Dir) \<Rightarrow> Inr (rel, full)
             | Inr (q, n) \<Rightarrow> Inl (RunNotDirectory rel))))"

definition has_exec_bit :: "nat \<Rightarrow> bool" where
  "has_exec_bit m \<longleftrightarrow> odd m \<or> odd (m div 8) \<or> odd (m div 64)"

definition runnable :: "disk \<Rightarrow> path \<Rightarrow> bool" where
  "runnable d p = (case follow d p of Inr (q, File c m) \<Rightarrow> has_exec_bit m | _ \<Rightarrow> False)"

text \<open>
  \<open>LookPath\<close> of a name without a separator: the first entry of \<open>PATH\<close> that holds it decides, and
  one found through a relative entry is an error.
\<close>

definition from_dir :: "path \<Rightarrow> string \<Rightarrow> path" where
  "from_dir cwd p = (if is_abs p then segs p else cwd @ segs p)"

fun look_in :: "disk \<Rightarrow> path \<Rightarrow> string list \<Rightarrow> string \<Rightarrow> string option" where
  "look_in d cwd [] name = None"
| "look_in d cwd (dir # dirs) name =
     (let p = path_join [if dir = [] then dot else dir, name] in
      if runnable d (from_dir cwd p) then (if is_abs p then Some p else None)
      else look_in d cwd dirs name)"

definition path_dirs :: "string \<Rightarrow> string list" where
  "path_dirs v = (if v = [] then [] else split_on CHR '':'' v)"

definition look_path :: "disk \<Rightarrow> path \<Rightarrow> string \<Rightarrow> string \<Rightarrow> string option" where
  "look_path d cwd v name = look_in d cwd (path_dirs v) name"

definition get_env :: "(string \<Rightarrow> string option) \<Rightarrow> string \<Rightarrow> string" where
  "get_env lookup name = (case lookup name of None \<Rightarrow> [] | Some v \<Rightarrow> v)"

definition resolve_program :: "runner \<Rightarrow> string \<Rightarrow> string \<Rightarrow> string \<Rightarrow> run_error + string" where
  "resolve_program rn root dir_rel name =
     (if \<not> contains_byte name slash then
        (case look_path (rn_disk rn) (rn_cwd rn) (get_env (rn_lookup rn) ''PATH'') name of
           None \<Rightarrow> Inl (RunNoProgram name)
         | Some p \<Rightarrow> Inr p)
      else (case resolve (rn_unicode rn) (rn_disk rn) root (path_join [dir_rel, name]) OpRead of
          Inl e \<Rightarrow> Inl (RunProgramPath e)
        | Inr (full, rel) \<Rightarrow>
            (case follow (rn_disk rn) (segs full) of
               Inl e \<Rightarrow> Inl (RunNoProgram rel)
             | Inr (q, File c m) \<Rightarrow> if has_exec_bit m then Inr full else Inl (RunProgramNotFile rel)
             | Inr (q, n) \<Rightarrow> Inl (RunProgramNotFile rel))))"

text \<open>The directory for the audit row, then the refusal or the directory and program of the child.\<close>

definition prepare :: "runner \<Rightarrow> spec \<Rightarrow> string \<times> (run_error + string \<times> string)" where
  "prepare rn sp =
     (case sp_argv sp of
        [] \<Rightarrow> ([], Inl RunNoCommand)
      | prog # args \<Rightarrow>
          if trim_space prog = [] then ([], Inl RunNoCommand)
          else if \<not> is_abs (sp_root sp) then ([], Inl RunRootNotAbsolute)
          else if is_shell_interpreter (rn_unicode rn) prog then ([], Inl (RunShell (path_base prog)))
          else (case resolve_dir (rn_unicode rn) (rn_disk rn) (sp_root sp) (sp_dir sp) of
              Inl e \<Rightarrow> ([], Inl e)
            | Inr (dir_rel, dir_abs) \<Rightarrow>
                (dir_rel, case resolve_program rn (sp_root sp) dir_rel prog of
                            Inl e \<Rightarrow> Inl e | Inr p \<Rightarrow> Inr (dir_abs, p))))"

section \<open>The process and its rows\<close>

definition child_of :: "runner \<Rightarrow> spec \<Rightarrow> string \<Rightarrow> string \<Rightarrow> child" where
  "child_of rn sp dir_abs prog =
     \<lparr>ch_prog = prog, ch_args = tl (sp_argv sp), ch_dir = dir_abs, ch_env = build_env False (rn_lookup rn),
      ch_root = sp_root sp, ch_network = sp_network sp\<rparr>"

definition collected :: "int \<Rightarrow> string list \<Rightarrow> string \<times> bool" where
  "collected limit chunks =
     (let w = foldl (\<lambda>w p. fst (cap_write w p)) (new_cap_writer limit) chunks in (cw_buf w, cap_truncated w))"

definition run_child :: "runner \<Rightarrow> spec \<Rightarrow> string \<Rightarrow> string \<Rightarrow> run_error + process_end \<times> run_result" where
  "run_child rn sp dir_abs prog =
     (let limit = clamp_output (sp_max_output sp) in
      case rn_os rn (child_of rn sp dir_abs prog) (clamp_timeout (sp_timeout sp)) of
        Inl e \<Rightarrow> Inl (RunStart e)
      | Inr pe \<Rightarrow>
          (let (out, out_cut) = collected limit (pe_stdout pe); (err, err_cut) = collected limit (pe_stderr pe)
           in Inr (pe, \<lparr>rs_exit = (case pe_wait pe of WaitOk \<Rightarrow> 0 | WaitExit n \<Rightarrow> n | WaitBroken \<Rightarrow> - 1),
                rs_stdout = out, rs_stderr = err, rs_stdout_cut = out_cut, rs_stderr_cut = err_cut,
                rs_duration = pe_elapsed pe, rs_timed_out = (pe_deadline pe \<and> \<not> pe_ctx_done pe)\<rparr>)))"

definition outcome_of :: "process_end \<Rightarrow> run_result \<Rightarrow> string" where
  "outcome_of pe res =
     (if rs_timed_out res then ''timeout''
      else if pe_ctx_done_later pe then ''canceled''
      else if rs_exit res = 0 then ''ok''
      else ''failed'')"

definition attempt_row :: "spec \<Rightarrow> string \<Rightarrow> string \<Rightarrow> exec_record" where
  "attempt_row sp dir_rel outcome =
     \<lparr>er_workspace = sp_workspace sp, er_dir = dir_rel, er_argv = sp_argv sp, er_outcome = outcome, er_exit = 0,
      er_reason = [], er_rule = [], er_provider = sp_provider sp, er_run = [], er_duration = 0\<rparr>"

definition started_rows :: "spec \<Rightarrow> string \<Rightarrow> exec_record list" where
  "started_rows sp dir_rel =
     (if sp_run sp = [] then [] else [(attempt_row sp dir_rel outcome_started)\<lparr>er_run := sp_run sp\<rparr>])"

text \<open>What the caller gets, and the rows in the order in which they are written.\<close>

definition run_spec :: "runner \<Rightarrow> spec \<Rightarrow> (run_error + run_result) \<times> exec_record list" where
  "run_spec rn sp =
     (case prepare rn sp of
        (dir_rel, Inl e) \<Rightarrow> (Inl e, [(attempt_row sp dir_rel ''refused'')\<lparr>er_reason := rn_say rn e\<rparr>])
      | (dir_rel, Inr (dir_abs, prog)) \<Rightarrow>
          (case run_child rn sp dir_abs prog of
             Inl e \<Rightarrow> (Inl e, started_rows sp dir_rel
               @ [(attempt_row sp dir_rel ''refused'')\<lparr>er_run := sp_run sp, er_reason := rn_say rn e\<rparr>])
           | Inr (pe, res) \<Rightarrow> (Inr res, started_rows sp dir_rel
               @ [(attempt_row sp dir_rel (outcome_of pe res))\<lparr>er_run := sp_run sp, er_exit := rs_exit res,
                    er_duration := rs_duration res\<rparr>])))"

text \<open>The process a run asks the system for, with its time limit; none when it is refused before.\<close>

definition started_child :: "runner \<Rightarrow> spec \<Rightarrow> (child \<times> time) option" where
  "started_child rn sp =
     (case snd (prepare rn sp) of
        Inl e \<Rightarrow> None
      | Inr (dir_abs, prog) \<Rightarrow> Some (child_of rn sp dir_abs prog, clamp_timeout (sp_timeout sp)))"

section \<open>What is started\<close>

lemma clamp_timeout_bounds: "0 < clamp_timeout t \<and> clamp_timeout t \<le> max_timeout"
  by (simp add: clamp_timeout_def default_timeout_def max_timeout_def Let_def)

lemma prepare_InrD:
  assumes "prepare rn sp = (rel, Inr (dir_abs, p))"
  obtains prog args where "sp_argv sp = prog # args" "\<not> is_shell_interpreter (rn_unicode rn) prog"
    "resolve_dir (rn_unicode rn) (rn_disk rn) (sp_root sp) (sp_dir sp) = Inr (rel, dir_abs)"
    "resolve_program rn (sp_root sp) rel prog = Inr p"
  using assms by (auto simp: prepare_def split: list.splits if_splits sum.splits)

lemma resolve_dir_InrD:
  assumes "resolve_dir u d root dir = Inr (rel, full)"
  shows "full = root \<or> resolve u d root dir OpRead = Inr (full, rel) \<and> (\<exists>q. follow d (segs full) = Inr (q, Dir))"
  using assms by (auto simp: resolve_dir_def Let_def split: if_splits sum.splits node.splits)

lemma look_in_SomeD:
  "look_in d cwd dirs name = Some p \<Longrightarrow> is_abs p \<and> runnable d (segs p) \<and> (\<exists>dir \<in> set dirs. p = path_join [if dir = [] then dot else dir, name])"
  by (induction dirs) (auto simp: from_dir_def Let_def split: if_splits)

lemma runnable_file: "follow d p = Inr (q, File c m) \<Longrightarrow> has_exec_bit m \<Longrightarrow> runnable d p"
  by (simp add: runnable_def)

lemma resolve_program_InrD:
  assumes "resolve_program rn root rel name = Inr p"
  shows "runnable (rn_disk rn) (segs p)
    \<and> (if contains_byte name slash then \<exists>c. resolve (rn_unicode rn) (rn_disk rn) root (path_join [rel, name]) OpRead = Inr (p, c)
       else is_abs p \<and> (\<exists>dir \<in> set (path_dirs (get_env (rn_lookup rn) ''PATH'')).
              p = path_join [if dir = [] then dot else dir, name]))"
proof (cases "contains_byte name slash")
  case True
  with assms show ?thesis
    by (auto simp: resolve_program_def runnable_file split: sum.splits node.splits if_splits)
next
  case False
  then have "look_in (rn_disk rn) (rn_cwd rn) (path_dirs (get_env (rn_lookup rn) ''PATH'')) name = Some p"
    using assms by (simp add: resolve_program_def look_path_def split: option.splits)
  from look_in_SomeD [OF this] False show ?thesis by simp
qed

text \<open>The entry belongs to a name the child may see.\<close>

definition env_visible :: "string \<Rightarrow> bool" where
  "env_visible e = list_ex (\<lambda>name. has_prefix e (name @ ''='')) (allowed_env @ map fst fixed_env)"

lemma env_visible_entry: "name \<in> set (allowed_env @ map fst fixed_env) \<Longrightarrow> env_visible ((name @ ''='') @ v)"
  unfolding env_visible_def list_ex_iff using has_prefix_append by blast

lemma build_env_visible: "list_all env_visible (build_env windows lookup)"
proof -
  have "env_visible e" if e: "e \<in> set (env_entries windows lookup allowed_env)" for e
  proof -
    from e obtain name v where n: "name \<in> set allowed_env" "e = (name @ ''='') @ v"
      unfolding env_entries_set by auto
    show ?thesis unfolding n(2) by (rule env_visible_entry) (use n(1) in simp)
  qed
  moreover have "env_visible (k @ ''='' @ v)" if "(k, v) \<in> set fixed_env" for k v
  proof -
    have "k \<in> set (map fst fixed_env)" using that by force
    then have "env_visible ((k @ ''='') @ v)" by (intro env_visible_entry) (simp only: set_append Un_iff simp_thms)
    then show ?thesis by simp
  qed
  ultimately show ?thesis
    unfolding build_env_def build_env_with_def list_all_iff set_append set_map if_P [OF refl] by auto
qed

text \<open>
  C6. Every process the runner asks for. Whatever the spec and the disk: the program is no shell;
  the directory is the root, or a directory strictly below it that opens itself; a program
  written with a separator is an executable file strictly below the root that opens itself, and
  one without lies in an absolute entry of \<open>PATH\<close>; the environment holds names of the
  whitelist only; the boundary is the spec's own root and network flag; and the run is limited to
  at most thirty minutes.
\<close>
theorem started_child_is_bounded:
  assumes "started_child rn sp = Some (c, limit)" and "clean_abs (sp_root sp)"
    and "real_dir (nodes (rn_disk rn)) (segs (sp_root sp))" and "nodes_ok (nodes (rn_disk rn))"
  shows "sp_argv sp = hd (sp_argv sp) # ch_args c \<and> \<not> is_shell_interpreter (rn_unicode rn) (hd (sp_argv sp))
    \<and> (if ch_dir c = sp_root sp then True
       else strict_prefix (segs (sp_root sp)) (segs (ch_dir c)) \<and> opens_itself (nodes (rn_disk rn)) (segs (ch_dir c))
         \<and> (\<exists>q. follow (rn_disk rn) (segs (ch_dir c)) = Inr (q, Dir)))
    \<and> runnable (rn_disk rn) (segs (ch_prog c))
    \<and> (if contains_byte (hd (sp_argv sp)) slash
       then strict_prefix (segs (sp_root sp)) (segs (ch_prog c)) \<and> opens_itself (nodes (rn_disk rn)) (segs (ch_prog c))
       else is_abs (ch_prog c) \<and> (\<exists>dir \<in> set (path_dirs (get_env (rn_lookup rn) ''PATH'')).
              ch_prog c = path_join [if dir = [] then dot else dir, hd (sp_argv sp)]))
    \<and> list_all env_visible (ch_env c)
    \<and> ch_root c = sp_root sp \<and> ch_network c = sp_network sp \<and> 0 < limit \<and> limit \<le> 30 * minute"
proof -
  obtain rel dir_abs p where pr: "prepare rn sp = (rel, Inr (dir_abs, p))"
    and c: "c = child_of rn sp dir_abs p" and l: "limit = clamp_timeout (sp_timeout sp)"
    using assms(1) by (cases "prepare rn sp") (auto simp: started_child_def split: sum.splits)
  obtain prog args where av: "sp_argv sp = prog # args" "\<not> is_shell_interpreter (rn_unicode rn) prog"
    and dir: "resolve_dir (rn_unicode rn) (rn_disk rn) (sp_root sp) (sp_dir sp) = Inr (rel, dir_abs)"
    and prog: "resolve_program rn (sp_root sp) rel prog = Inr p"
    by (rule prepare_InrD [OF pr])
  have below: "strict_prefix (segs (sp_root sp)) (segs full) \<and> opens_itself (nodes (rn_disk rn)) (segs full)"
    if "resolve (rn_unicode rn) (rn_disk rn) (sp_root sp) r OpRead = Inr (full, can)" for r full can
    using resolve_segs(1) [OF that assms(2)] resolve_opens_itself [OF that assms(2-4)] by (simp add: strict_prefix_def)
  have dirs: "if dir_abs = sp_root sp then True
      else strict_prefix (segs (sp_root sp)) (segs dir_abs) \<and> opens_itself (nodes (rn_disk rn)) (segs dir_abs)
        \<and> (\<exists>q. follow (rn_disk rn) (segs dir_abs) = Inr (q, Dir))"
    using resolve_dir_InrD [OF dir] below by auto
  have progs: "if contains_byte prog slash
      then strict_prefix (segs (sp_root sp)) (segs p) \<and> opens_itself (nodes (rn_disk rn)) (segs p)
      else is_abs p \<and> (\<exists>dir \<in> set (path_dirs (get_env (rn_lookup rn) ''PATH'')).
             p = path_join [if dir = [] then dot else dir, prog])"
    using resolve_program_InrD [OF prog] below by (simp split: if_splits) blast
  show ?thesis
    using av dirs progs resolve_program_InrD [OF prog] build_env_visible clamp_timeout_bounds [of "sp_timeout sp"]
    by (simp add: c l child_of_def max_timeout_def)
qed

section \<open>Nothing that was started is lost\<close>

lemma run_spec_refused:
  "started_child rn sp = None \<Longrightarrow>
     \<exists>r. snd (run_spec rn sp) = [r] \<and> er_run r = [] \<and> er_outcome r = ''refused'' \<and> er_argv r = sp_argv sp"
  by (cases "prepare rn sp") (auto simp: started_child_def run_spec_def attempt_row_def split: sum.splits)

lemma run_spec_started:
  assumes "started_child rn sp \<noteq> None" and "sp_run sp \<noteq> []"
  obtains r s where "snd (run_spec rn sp) = [r, s]" "er_run r = sp_run sp" "er_outcome r = outcome_started"
    "er_run s = sp_run sp" "er_outcome s \<noteq> outcome_started" "er_outcome s \<noteq> []"
    "er_argv r = sp_argv sp" "er_argv s = sp_argv sp" "sp_argv sp \<noteq> []"
proof -
  obtain rel dir_abs p where pr: "prepare rn sp = (rel, Inr (dir_abs, p))"
    using assms(1) by (cases "prepare rn sp") (auto simp: started_child_def split: sum.splits)
  have "sp_argv sp \<noteq> []" using prepare_InrD [OF pr] by force
  moreover have "outcome_of pe res \<noteq> [] \<and> outcome_of pe res \<noteq> outcome_started" for pe res
    by (simp add: outcome_of_def)
  ultimately show ?thesis
    using pr assms(2) by (cases "run_child rn sp dir_abs p")
      (auto simp: run_spec_def started_rows_def attempt_row_def intro: that split: prod.splits)
qed

lemma no_run_ended: "\<not> list_ex (\<lambda>e. ee_run e = run) rows \<Longrightarrow> \<not> ended rows run"
  by (auto simp: ended_def list_ex_iff)

lemma orphans_of_started:
  assumes "\<not> list_ex (\<lambda>e. ee_run e = run) rows" and "ee_run row = run" "ee_outcome row = outcome_started" "run \<noteq> []"
  shows "run \<in> set (map ee_run (orphans (rows @ [row])))"
  using assms no_run_ended [OF assms(1)] by (simp add: orphans_def ended_append) (simp add: ended_def)

lemma not_orphan:
  "run \<notin> set (map ee_run (orphans rows))" if "ended rows run"
  using that by (auto simp: orphans_def)

lemma not_orphan_unknown:
  "run \<notin> set (map ee_run (orphans rows))" if "\<not> list_ex (\<lambda>e. ee_run e = run) rows"
  using that by (auto simp: orphans_def list_ex_iff)

text \<open>
  C31. Whenever the Companion stops, the next start knows what became of a run. Stop it after any
  number of the rows of a run (a process can exist from the first row on) and start again, with an
  answering database and an identifier no row has: a run that never asked for a process is
  unknown, one that was cut off is answered as interrupted, and one that ended by its outcome.
\<close>
theorem started_runs_are_answered:
  assumes "xs_faults st = []" and "rows_argued st" and "sp_run sp \<noteq> []"
    and "\<not> list_ex (\<lambda>e. ee_run e = sp_run sp) (xs_rows st)" and "sp_argv sp \<noteq> []"
  shows "map_option ee_outcome (last_end
      (xs_rows (reconcile_runs restart (fold (exec_attempt now) (take k (snd (run_spec rn sp))) st))) (sp_run sp)) =
    (if started_child rn sp = None \<or> k = 0 then None
     else if k = 1 then Some outcome_interrupted
     else Some (er_outcome (last (snd (run_spec rn sp)))))"
proof -
  let ?run = "sp_run sp"
  have unknown: "map_option ee_outcome (last_end (xs_rows (reconcile_runs restart (st\<lparr>xs_rows := xs_rows st @ added\<rparr>))) ?run) = None"
    if "list_all (\<lambda>e. ee_run e \<noteq> ?run \<and> ee_argv e \<noteq> []) added" for added
  proof -
    have none: "\<not> list_ex (\<lambda>e. ee_run e = ?run) (xs_rows st @ added)"
      using assms(4) that by (auto simp: list_ex_iff list_all_iff)
    have "rows_argued (st\<lparr>xs_rows := xs_rows st @ added\<rparr>)"
      using assms(2) that by (auto simp: rows_argued_def list_all_iff)
    from restart_find [OF _ this, of restart ?run] not_orphan_unknown [OF none] assms(1) no_run_ended [OF none]
    show ?thesis by (simp add: last_end_None)
  qed
  show ?thesis
  proof (cases "started_child rn sp = None")
    case True
    then obtain r where r: "snd (run_spec rn sp) = [r]" "er_run r = []" "er_outcome r = ''refused''" "er_argv r = sp_argv sp"
      using run_spec_refused by blast
    obtain row where "exec_attempt now r st = st\<lparr>xs_rows := xs_rows st @ [row]\<rparr>" "ee_run row = []" "ee_argv row = sp_argv sp"
      using exec_attempt_quiet [OF assms(1), of r now] r assms(5) by auto
    then show ?thesis
      using True r unknown [of "[]"] unknown [of "[row]"] assms(3,5) by (cases k) simp_all
  next
    case False
    obtain r s where rs: "snd (run_spec rn sp) = [r, s]" "er_run r = ?run" "er_outcome r = outcome_started"
      "er_run s = ?run" "er_outcome s \<noteq> outcome_started" "er_outcome s \<noteq> []"
      "er_argv r = sp_argv sp" "er_argv s = sp_argv sp"
      using run_spec_started [OF False assms(3)] by metis
    obtain r1 where r1: "exec_attempt now r st = st\<lparr>xs_rows := xs_rows st @ [r1]\<rparr>" "ee_run r1 = ?run"
      "ee_outcome r1 = outcome_started" "ee_argv r1 = sp_argv sp"
      using exec_attempt_quiet [OF assms(1), of r now] rs assms(5) by auto
    obtain s1 where s1: "exec_attempt now s (st\<lparr>xs_rows := xs_rows st @ [r1]\<rparr>) = st\<lparr>xs_rows := xs_rows st @ [r1, s1]\<rparr>"
      "ee_run s1 = ?run" "ee_outcome s1 = er_outcome s" "ee_argv s1 = sp_argv sp"
      using exec_attempt_quiet [of "st\<lparr>xs_rows := xs_rows st @ [r1]\<rparr>" s now] rs assms(1,5) by auto
    have argued: "rows_argued (st\<lparr>xs_rows := xs_rows st @ [r1]\<rparr>)" "rows_argued (st\<lparr>xs_rows := xs_rows st @ [r1, s1]\<rparr>)"
      using assms(2,5) r1 s1 by (simp_all add: rows_argued_def)
    have cut: "map_option ee_outcome (last_end (xs_rows (reconcile_runs restart (st\<lparr>xs_rows := xs_rows st @ [r1]\<rparr>))) ?run)
        = Some outcome_interrupted"
      using restart_find [OF _ argued(1), of restart ?run] assms(1) orphans_of_started [OF assms(4) r1(2,3) assms(3)] by simp
    have "last_end [r1, s1] ?run = Some s1" using rs s1 by (simp add: last_end_def)
    then have last: "last_end (xs_rows st @ [r1, s1]) ?run = Some s1" by (simp add: last_end_append)
    then have "ended (xs_rows st @ [r1, s1]) ?run" using last_end_None [of "xs_rows st @ [r1, s1]" ?run] by auto
    from not_orphan [OF this] restart_find [OF _ argued(2), of restart ?run] assms(1) last s1
    have whole: "map_option ee_outcome (last_end (xs_rows (reconcile_runs restart (st\<lparr>xs_rows := xs_rows st @ [r1, s1]\<rparr>))) ?run)
        = Some (er_outcome s)" by simp
    consider "k = 0" | "k = 1" | j where "k = Suc (Suc j)" by (metis One_nat_def not0_implies_Suc)
    moreover have "(started_child rn sp = None) = False" using False by simp
    ultimately show ?thesis
      using rs r1 s1 cut whole unknown [of "[]"] by cases (simp_all only:, simp_all)
  qed
qed


text \<open>A run of \<^verbatim>\<open>go test\<close> in a subdirectory, for the witnesses.\<close>

definition go_disk :: disk where
  "go_disk = \<lparr>nodes = [([''w''], Dir), ([''w'', ''src''], Dir), ([''bin''], Dir), ([''bin'', ''go''], File [] 493)],
     denied = (\<lambda>p. False), faults = []\<rparr>"

definition go_env :: "string \<Rightarrow> string option" where
  "go_env = map_of [(''PATH'', ''/usr/bin:/bin''), (''AWS_SECRET_ACCESS_KEY'', ''x'')]"

definition go_runner :: runner where
  "go_runner = \<lparr>rn_unicode = plain_unicode, rn_disk = go_disk, rn_cwd = [],
     rn_lookup = go_env,
     rn_os = (\<lambda>c t. Inr \<lparr>pe_stdout = [''ok''], pe_stderr = [], pe_wait = WaitOk, pe_elapsed = second,
                pe_deadline = False, pe_ctx_done = False, pe_ctx_done_later = False\<rparr>),
     rn_say = (\<lambda>e. ''refused'')\<rparr>"

definition go_spec :: spec where
  "go_spec = \<lparr>sp_workspace = ''ws_1'', sp_root = ''/w'', sp_dir = ''src'', sp_argv = [''go'', ''test''], sp_provider = ''claude'',
     sp_network = False, sp_run = ''r1'', sp_timeout = 0, sp_max_output = 0\<rparr>"

lemma go_steps:
  "trim_space ''go'' = ''go''" "is_shell_interpreter plain_unicode ''go'' = False" "contains_byte ''go'' slash = False"
  "trim_slashes (replace_byte backslash slash ''src'') = ''src''"
  "clean ''src'' = ''src''" "split_on slash ''src'' = [''src'']" "equal_fold plain_unicode ''src'' ''.git'' = False"
  "path_join [''/w'', ''src''] = ''/w/src''" "segs ''/w/src'' = [''w'', ''src'']"
  "inspect go_disk ''/w'' [''src''] = None" "verify_real_path go_disk ''/w'' [''w'', ''src''] = None"
  "follow go_disk [''w'', ''src''] = Inr ([''w'', ''src''], Dir)"
  "go_env ''PATH'' = Some ''/usr/bin:/bin''" "look_path go_disk [] ''/usr/bin:/bin'' ''go'' = Some ''/bin/go''"
  "build_env False go_env =
     [''PATH=/usr/bin:/bin'', ''TERM=dumb'', ''NO_COLOR=1'']"
  by code_simp+

lemma go_clean_path: "clean_path plain_unicode ''src'' = Inr ''src''"
  by (simp add: clean_path_def max_path_len_def replace_byte_def backslash_def nul_def
      contains_byte_iff is_windows_drive_path_def go_steps sample_names)

lemma go_resolve: "resolve plain_unicode go_disk ''/w'' ''src'' OpRead = Inr (''/w/src'', ''src'')"
  by (simp add: resolve_def go_clean_path go_steps max_abs_path_len_def Let_def del: inspect.simps segs_slash)

lemma go_root: "clean_abs ''/w''" "real_dir (nodes go_disk) (segs ''/w'')" "nodes_ok (nodes go_disk)"
  by (auto simp: clean_abs_def is_abs_def clean_def real_dir_def nodes_ok_def go_disk_def segs_def
      plain_seg_def take_Cons' split: if_splits)

lemma go_prepare: "prepare go_runner go_spec = (''src'', Inr (''/w/src'', ''/bin/go''))"
proof -
  have "resolve_dir plain_unicode go_disk ''/w'' ''src'' = Inr (''src'', ''/w/src'')"
    unfolding resolve_dir_def go_resolve Let_def go_steps by (simp add: go_steps del: segs_slash)
  moreover have "resolve_program go_runner ''/w'' ''src'' ''go'' = Inr ''/bin/go''"
    by (simp add: resolve_program_def go_runner_def get_env_def go_steps)
  ultimately show ?thesis
    by (simp add: prepare_def go_spec_def go_runner_def is_abs_def go_steps)
qed

lemma go_child:
  "started_child go_runner go_spec = Some (\<lparr>ch_prog = ''/bin/go'', ch_args = [''test''], ch_dir = ''/w/src'',
     ch_env = [''PATH=/usr/bin:/bin'', ''TERM=dumb'', ''NO_COLOR=1''], ch_root = ''/w'', ch_network = False\<rparr>, 50 * second)"
  by (simp add: started_child_def go_prepare child_of_def)
    (simp add: go_spec_def go_runner_def go_steps clamp_timeout_def default_timeout_def max_timeout_def)

theorem started_child_is_bounded_witness:
  "opens_itself (nodes go_disk) (segs ''/w/src'') \<and> runnable go_disk (segs ''/bin/go'')"
  using started_child_is_bounded [OF go_child] go_root by (simp add: go_spec_def go_runner_def del: segs_slash)

lemma go_rows: "map er_outcome (snd (run_spec go_runner go_spec)) = [''started'', ''ok'']"
proof -
  have "rn_os go_runner c t = Inr \<lparr>pe_stdout = [''ok''], pe_stderr = [], pe_wait = WaitOk, pe_elapsed = second,
      pe_deadline = False, pe_ctx_done = False, pe_ctx_done_later = False\<rparr>" for c t by (simp add: go_runner_def)
  then show ?thesis
    by (simp add: run_spec_def go_prepare run_child_def Let_def split_beta)
      (simp add: started_rows_def attempt_row_def outcome_of_def go_spec_def)
qed

abbreviation no_rows :: exec_store where "no_rows \<equiv> \<lparr>xs_rows = [], xs_faults = []\<rparr>"

theorem started_runs_are_answered_witness:
  "map_option ee_outcome (last_end (xs_rows (reconcile_runs 9
      (fold (exec_attempt 7) (take 1 (snd (run_spec go_runner go_spec))) no_rows))) (sp_run go_spec)) = Some ''interrupted''
   \<and> map_option ee_outcome (last_end (xs_rows (reconcile_runs 9
      (fold (exec_attempt 7) (take 2 (snd (run_spec go_runner go_spec))) no_rows))) (sp_run go_spec)) = Some ''ok''"
proof -
  have l: "er_outcome (last (snd (run_spec go_runner go_spec))) = ''ok''"
    using go_rows by (cases "snd (run_spec go_runner go_spec)" rule: rev_cases) auto
  have p: "xs_faults no_rows = []" "rows_argued no_rows" "sp_run go_spec \<noteq> []" "sp_argv go_spec \<noteq> []"
    "\<not> list_ex (\<lambda>e. ee_run e = sp_run go_spec) (xs_rows no_rows)"
    by (simp_all add: rows_argued_def go_spec_def)
  have c: "(started_child go_runner go_spec = None) = False" by (simp add: go_child)
  show ?thesis
    unfolding started_runs_are_answered [OF p(1,2,3,5,4)] c l by simp
qed

end
