(* ===== verification/Tasks.thy ===== *)
theory Tasks
  imports CappedSink "HOL-Library.AList" "HOL-Library.Word" "HOL-Library.Product_Lexorder"
begin

text \<open>
  The table of background tasks (\<^verbatim>\<open>tasks/tasks.go\<close>, \<^verbatim>\<open>tasks/buffer.go\<close>). A task's goroutine, its
  context, the callers and the clock take turns: \<open>task_event\<close> is one critical section of any
  of them. The output of a task is a buffer read by cursor, the second sink of
  \<^verbatim>\<open>CappedSink\<close>.
\<close>

section \<open>Output buffers\<close>

record buffer =
  bf_buf :: string
  bf_limit :: int
  bf_seen :: int

definition new_buffer :: "int \<Rightarrow> buffer" where
  "new_buffer limit = \<lparr>bf_buf = [], bf_limit = limit, bf_seen = 0\<rparr>"

definition buf_write :: "buffer \<Rightarrow> string \<Rightarrow> buffer \<times> int" where
  "buf_write b p =
     (let n = int (length p);
          b1 = b\<lparr>bf_seen := bf_seen b + n\<rparr>;
          room = bf_limit b - int (length (bf_buf b))
      in (if room > 0
          then b1\<lparr>bf_buf := bf_buf b @ (if n > room then take (nat room) p else p)\<rparr>
          else b1, n))"

definition buf_since :: "buffer \<Rightarrow> int \<Rightarrow> string \<times> int \<times> bool" where
  "buf_since b cursor =
     (let c0 = (if cursor < 0 then 0 else cursor);
          len = int (length (bf_buf b));
          c = (if c0 > len then len else c0)
      in (drop (nat c) (bf_buf b), len, bf_seen b > bf_limit b))"

interpretation bf: capped_sink new_buffer buf_write bf_buf bf_seen bf_limit
proof (unfold_locales, goal_cases)
  case (4 w p)
  then show ?case
    by (auto simp: buf_write_def Let_def take_append nat_diff_distrib)
qed (simp_all add: new_buffer_def buf_write_def Let_def)

text \<open>A poller: between two polls the task writes; each poll passes the cursor it was given.\<close>

fun poll :: "buffer \<Rightarrow> int \<Rightarrow> string list list \<Rightarrow> string list" where
  "poll b c [] = []"
| "poll b c (ws # wss) =
     (let b' = foldl (\<lambda>b p. fst (buf_write b p)) b ws;
          (text, c', cut) = buf_since b' c
      in text # poll b' c' wss)"

lemma poll_rest:
  assumes "length (bf_buf b) \<le> nat (bf_limit b)"
  shows "concat (poll b (int (length (bf_buf b))) wss)
    = drop (length (bf_buf b)) (take (nat (bf_limit b)) (bf_buf b @ concat (concat wss)))"
  using assms
proof (induction wss arbitrary: b)
  case Nil
  then show ?case by simp
next
  case (Cons ws wss)
  define b' where "b' = bf.write_all b ws"
  have kept: "bf_buf b' = take (nat (bf_limit b)) (bf_buf b @ concat ws)"
    unfolding b'_def by (rule bf.write_all_kept [OF Cons.prems])
  have cap: "bf_limit b' = bf_limit b" unfolding b'_def by (rule bf.write_all_cap)
  have pre: "bf_buf b' = bf_buf b @ take (nat (bf_limit b) - length (bf_buf b)) (concat ws)"
    using kept Cons.prems by (simp add: take_append)
  have ih: "concat (poll b' (int (length (bf_buf b'))) wss)
      = drop (length (bf_buf b')) (take (nat (bf_limit b)) (bf_buf b' @ concat (concat wss)))"
  proof -
    have "length (bf_buf b') \<le> nat (bf_limit b')" unfolding kept cap by simp
    from Cons.IH [OF this] show ?thesis unfolding cap .
  qed
  have "poll b (int (length (bf_buf b))) (ws # wss)
      = drop (length (bf_buf b)) (bf_buf b') # poll b' (int (length (bf_buf b'))) wss"
  proof -
    have "foldl (\<lambda>b p. fst (buf_write b p)) b ws = b'" by (simp add: b'_def bf.write_all_def)
    moreover have "length (bf_buf b) \<le> length (bf_buf b')" using pre by simp
    ultimately show ?thesis by (simp add: buf_since_def Let_def)
  qed
  moreover have "drop (length (bf_buf b')) (take (nat (bf_limit b)) (bf_buf b' @ concat (concat wss)))
      = take (nat (bf_limit b) - length (bf_buf b) - length (concat ws)) (concat (concat wss))"
  proof -
    have "length (bf_buf b') \<le> nat (bf_limit b)" using kept by simp
    moreover have "nat (bf_limit b) - length (bf_buf b') = nat (bf_limit b) - length (bf_buf b) - length (concat ws)"
      unfolding pre using Cons.prems by simp
    ultimately show ?thesis by simp
  qed
  ultimately show ?case
    using ih pre Cons.prems by simp
qed

text \<open>
  C36. Polling by cursor loses and repeats nothing: whatever the task writes between the polls,
  the answers of a poller that passes each cursor on, put together, are the first bytes of
  the stream up to the limit.
\<close>
theorem polling_reads_the_stream:
  "concat (poll (new_buffer n) 0 wss) = take (nat n) (concat (concat wss))"
  using poll_rest [of "new_buffer n" wss] by (simp add: new_buffer_def)


section \<open>Tasks\<close>

datatype task_state = TRunning | TSucceeded | TFailed | TTimedOut | TCanceled | TDenied | TInterrupted

definition terminal :: "task_state \<Rightarrow> bool" where
  "terminal s = (s \<noteq> TRunning)"

definition state_from_outcome :: "string \<Rightarrow> task_state" where
  "state_from_outcome outcome =
     (if outcome = ''ok'' then TSucceeded
      else if outcome = ''timeout'' then TTimedOut
      else if outcome = ''denied'' \<or> outcome = ''refused'' then TDenied
      else if outcome = ''interrupted'' then TInterrupted
      else TFailed)"

text \<open>What \<open>ctx.Err()\<close> of the task's own context says; the first reason stays.\<close>

datatype ctx_state = CtxLive | CtxDeadline | CtxCanceled

record task_outcome =
  oc_exit :: int
  oc_timed_out :: bool

record task_meta =
  mt_key :: string
  mt_label :: string
  mt_dir :: string
  mt_provider :: string
  mt_network :: string
  mt_workspace :: string
  mt_budget :: time
  mt_id :: string

datatype task_message = NoMessage | Ceiling time | WorkError string

record task =
  tk_id :: string
  tk_key :: string
  tk_seq :: "64 word"
  tk_label :: string
  tk_dir :: string
  tk_provider :: string
  tk_network :: string
  tk_workspace :: string
  tk_started :: time
  tk_max_runtime :: time
  tk_stdout :: buffer
  tk_stderr :: buffer
  tk_ctx :: ctx_state
  tk_state :: task_state
  tk_exit :: int
  tk_err :: task_message
  tk_ended :: time

record options =
  op_budget :: time
  op_max_output :: int
  op_retention :: time
  op_max_tasks :: int
  op_max_runtime :: time

record manager =
  mg_budget :: time
  mg_max_output :: int
  mg_retention :: time
  mg_max_tasks :: int
  mg_max_runtime :: time
  mg_tasks :: "(string \<times> task) list"
  mg_by_key :: "(string \<times> string) list"
  mg_closed :: bool
  mg_next_seq :: "64 word"

datatype task_error = ErrUnknownTask | ErrClosed | ErrIdTaken | ErrNoId

definition or_default :: "int \<Rightarrow> int \<Rightarrow> int" where
  "or_default v fallback = (if v \<le> 0 then fallback else v)"

definition new_manager :: "options \<Rightarrow> manager" where
  "new_manager opts =
     \<lparr>mg_budget = or_default (op_budget opts) (45 * second),
      mg_max_output = or_default (op_max_output opts) (1024 * 1024),
      mg_retention = or_default (op_retention opts) hour,
      mg_max_tasks = or_default (op_max_tasks opts) 200,
      mg_max_runtime = or_default (op_max_runtime opts) (2 * hour),
      mg_tasks = [], mg_by_key = [], mg_closed = False, mg_next_seq = 0\<rparr>"

definition forget_task :: "string \<Rightarrow> task \<Rightarrow> manager \<Rightarrow> manager" where
  "forget_task i t m =
     m\<lparr>mg_tasks := AList.delete i (mg_tasks m),
       mg_by_key := (if tk_key t \<noteq> [] \<and> map_of (mg_by_key m) (tk_key t) = Some i
                     then AList.delete (tk_key t) (mg_by_key m) else mg_by_key m)\<rparr>"

definition forget_all :: "(string \<times> task) list \<Rightarrow> manager \<Rightarrow> manager" where
  "forget_all xs m = fold (\<lambda>(i, t). forget_task i t) xs m"

text \<open>The trimming loop: oldest first, while the table is over its cap.\<close>

fun trim :: "(string \<times> task) list \<Rightarrow> manager \<Rightarrow> manager" where
  "trim [] m = m"
| "trim ((i, t) # xs) m =
     (if int (length (mg_tasks m)) \<le> mg_max_tasks m then m else trim xs (forget_task i t m))"

definition age_key :: "string \<times> task \<Rightarrow> int \<times> 64 word" where
  "age_key x = (tk_started (snd x), tk_seq (snd x))"

definition expired :: "manager \<Rightarrow> time \<Rightarrow> task \<Rightarrow> bool" where
  "expired m now t \<longleftrightarrow> terminal (tk_state t) \<and> now - tk_ended t > mg_retention m"

definition purge :: "time \<Rightarrow> manager \<Rightarrow> manager" where
  "purge now m0 =
     (let m = forget_all (filter (\<lambda>(i, t). expired m0 now t) (mg_tasks m0)) m0 in
      if int (length (mg_tasks m)) \<le> mg_max_tasks m then m
      else trim (sort_key age_key (filter (\<lambda>(i, t). terminal (tk_state t)) (mg_tasks m))) m)"

text \<open>
  \<open>fresh\<close> is what the random source gives: an identifier, or none when it fails. The result
  names the task and says whether it is new.
\<close>

definition new_task :: "string \<Rightarrow> time \<Rightarrow> task_meta \<Rightarrow> manager \<Rightarrow> task" where
  "new_task i now meta m =
     \<lparr>tk_id = i, tk_key = mt_key meta, tk_seq = mg_next_seq m, tk_label = mt_label meta, tk_dir = mt_dir meta,
      tk_provider = mt_provider meta, tk_network = mt_network meta, tk_workspace = mt_workspace meta,
      tk_started = now, tk_max_runtime = mg_max_runtime m,
      tk_stdout = new_buffer (mg_max_output m), tk_stderr = new_buffer (mg_max_output m),
      tk_ctx = CtxLive, tk_state = TRunning, tk_exit = 0, tk_err = NoMessage, tk_ended = 0\<rparr>"

definition in_flight :: "manager \<Rightarrow> string \<Rightarrow> string option" where
  "in_flight m key =
     (case map_of (mg_by_key m) key of
        None \<Rightarrow> None
      | Some i \<Rightarrow> (case map_of (mg_tasks m) i of
           None \<Rightarrow> None
         | Some t \<Rightarrow> if terminal (tk_state t) then None else Some i))"

definition add_task :: "string \<Rightarrow> time \<Rightarrow> task_meta \<Rightarrow> manager \<Rightarrow> manager" where
  "add_task i now meta m =
     m\<lparr>mg_next_seq := mg_next_seq m + 1,
       mg_tasks := AList.update i (new_task i now meta m) (mg_tasks m),
       mg_by_key := (if mt_key meta \<noteq> [] then AList.update (mt_key meta) i (mg_by_key m) else mg_by_key m)\<rparr>"

definition acquire :: "string option \<Rightarrow> time \<Rightarrow> task_meta \<Rightarrow> manager \<Rightarrow> (task_error + string \<times> bool) \<times> manager" where
  "acquire fresh now meta m0 =
     (if mg_closed m0 then (Inl ErrClosed, m0)
      else let m = purge now m0 in
        (case (if mt_key meta = [] then None else in_flight m (mt_key meta)) of
           Some i \<Rightarrow> (Inr (i, False), m)
         | None \<Rightarrow>
             (let m1 = (if mt_key meta = [] then m
                        else m\<lparr>mg_by_key := AList.delete (mt_key meta) (mg_by_key m)\<rparr>) in
              if mt_id meta = [] then
                (case fresh of
                   None \<Rightarrow> (Inl ErrNoId, m1)
                 | Some i \<Rightarrow> (Inr (i, True), add_task i now meta m1))
              else if map_of (mg_tasks m1) (mt_id meta) \<noteq> None then (Inl ErrIdTaken, m1)
              else (Inr (mt_id meta, True), add_task (mt_id meta) now meta m1))))"

definition finish_task :: "time \<Rightarrow> task_outcome \<Rightarrow> string option \<Rightarrow> task \<Rightarrow> task" where
  "finish_task now out err t =
     (if terminal (tk_state t) then t
      else let t1 = t\<lparr>tk_ended := now, tk_exit := oc_exit out\<rparr> in
        if oc_timed_out out then t1\<lparr>tk_state := TTimedOut\<rparr>
        else if tk_ctx t = CtxDeadline then t1\<lparr>tk_state := TTimedOut, tk_err := Ceiling (tk_max_runtime t)\<rparr>
        else if tk_ctx t \<noteq> CtxLive then t1\<lparr>tk_state := TCanceled\<rparr>
        else (case err of
            Some e \<Rightarrow> t1\<lparr>tk_state := TFailed, tk_err := WorkError e\<rparr>
          | None \<Rightarrow> if oc_exit out = 0 then t1\<lparr>tk_state := TSucceeded\<rparr> else t1\<lparr>tk_state := TFailed\<rparr>))"

definition cancel_ctx :: "ctx_state \<Rightarrow> ctx_state" where
  "cancel_ctx c = (if c = CtxLive then CtxCanceled else c)"

record task_snapshot =
  sn_id :: string
  sn_state :: task_state
  sn_workspace :: string
  sn_label :: string
  sn_dir :: string
  sn_provider :: string
  sn_network :: string
  sn_exit :: int
  sn_err :: task_message
  sn_stdout :: string
  sn_stderr :: string
  sn_stdout_cursor :: int
  sn_stderr_cursor :: int
  sn_stdout_cut :: bool
  sn_stderr_cut :: bool
  sn_started :: time
  sn_duration :: time

text \<open>
  \<open>snapshot\<close> takes three locks in turn, those of the two buffers and that of the task, so it may
  meet the task in three moments of its life: \<open>t1\<close>, \<open>t2\<close> and \<open>t3\<close>.
\<close>

definition snapshot :: "time \<Rightarrow> task \<Rightarrow> task \<Rightarrow> task \<Rightarrow> int \<Rightarrow> int \<Rightarrow> task_snapshot" where
  "snapshot now t1 t2 t3 out_cursor err_cursor =
     (let (out_text, out_next, out_cut) = buf_since (tk_stdout t1) out_cursor;
          (err_text, err_next, err_cut) = buf_since (tk_stderr t2) err_cursor;
          end_at = (if terminal (tk_state t3) then tk_ended t3 else now)
      in \<lparr>sn_id = tk_id t3, sn_state = tk_state t3, sn_workspace = tk_workspace t3, sn_label = tk_label t3,
          sn_dir = tk_dir t3, sn_provider = tk_provider t3, sn_network = tk_network t3, sn_exit = tk_exit t3,
          sn_err = tk_err t3, sn_stdout = out_text, sn_stderr = err_text, sn_stdout_cursor = out_next,
          sn_stderr_cursor = err_next, sn_stdout_cut = out_cut, sn_stderr_cut = err_cut,
          sn_started = tk_started t3, sn_duration = end_at - tk_started t3\<rparr>)"

definition status :: "time \<Rightarrow> string \<Rightarrow> int \<Rightarrow> int \<Rightarrow> manager \<Rightarrow> (task_error + task_snapshot) \<times> manager" where
  "status now i out_cursor err_cursor m0 =
     (let m = purge now m0 in
      case map_of (mg_tasks m) i of
        None \<Rightarrow> (Inl ErrUnknownTask, m)
      | Some t \<Rightarrow> (Inr (snapshot now t t t out_cursor err_cursor), m))"

definition with_task :: "string \<Rightarrow> (task \<Rightarrow> task) \<Rightarrow> manager \<Rightarrow> manager" where
  "with_task i f m = m\<lparr>mg_tasks := map (\<lambda>(j, t). (j, if j = i then f t else t)) (mg_tasks m)\<rparr>"

definition cancel_task :: "string \<Rightarrow> manager \<Rightarrow> task_error option \<times> manager" where
  "cancel_task i m =
     (if map_of (mg_tasks m) i = None then (Some ErrUnknownTask, m)
      else (None, with_task i (\<lambda>t. t\<lparr>tk_ctx := cancel_ctx (tk_ctx t)\<rparr>) m))"

definition list_tasks :: "time \<Rightarrow> manager \<Rightarrow> task_snapshot list \<times> manager" where
  "list_tasks now m0 =
     (let m = purge now m0 in
      (map (\<lambda>(i, t). snapshot now t t t 0 0) (rev (sort_key age_key (mg_tasks m))), m))"

definition clear_tasks :: "manager \<Rightarrow> int \<times> manager" where
  "clear_tasks m =
     (let done = filter (\<lambda>(i, t). terminal (tk_state t)) (mg_tasks m)
      in (int (length done), forget_all done m))"

definition close_tasks :: "manager \<Rightarrow> manager" where
  "close_tasks m =
     (if mg_closed m then m
      else m\<lparr>mg_closed := True,
             mg_tasks := map (\<lambda>(i, t). (i, t\<lparr>tk_ctx := cancel_ctx (tk_ctx t)\<rparr>)) (mg_tasks m)\<rparr>)"


section \<open>Histories of the table\<close>

datatype task_event =
    Start "string option" task_meta
  | WriteOut string string
  | WriteErr string string
  | Deadline string
  | CancelIt string
  | Finish string task_outcome "string option"
  | Poll string
  | ListAll
  | ClearAll
  | CloseAll
  | Wait nat

text \<open>An event of a task that is not there, or not running, leaves the table as it is.\<close>

definition while_running :: "(task \<Rightarrow> task) \<Rightarrow> task \<Rightarrow> task" where
  "while_running f t = (if terminal (tk_state t) then t else f t)"

definition hit_ceiling :: "time \<Rightarrow> task \<Rightarrow> task" where
  "hit_ceiling now t =
     (if tk_ctx t = CtxLive \<and> tk_started t + tk_max_runtime t \<le> now then t\<lparr>tk_ctx := CtxDeadline\<rparr> else t)"

fun table_step :: "task_event \<Rightarrow> time \<times> manager \<Rightarrow> time \<times> manager" where
  "table_step (Start fresh meta) (now, m) = (now, snd (acquire fresh now meta m))"
| "table_step (WriteOut i p) (now, m) =
     (now, with_task i (while_running (\<lambda>t. t\<lparr>tk_stdout := fst (buf_write (tk_stdout t) p)\<rparr>)) m)"
| "table_step (WriteErr i p) (now, m) =
     (now, with_task i (while_running (\<lambda>t. t\<lparr>tk_stderr := fst (buf_write (tk_stderr t) p)\<rparr>)) m)"
| "table_step (Deadline i) (now, m) = (now, with_task i (hit_ceiling now) m)"
| "table_step (CancelIt i) (now, m) = (now, snd (cancel_task i m))"
| "table_step (Finish i out err) (now, m) = (now, with_task i (finish_task now out err) m)"
| "table_step (Poll i) (now, m) = (now, snd (status now i 0 0 m))"
| "table_step ListAll (now, m) = (now, snd (list_tasks now m))"
| "table_step ClearAll (now, m) = (now, snd (clear_tasks m))"
| "table_step CloseAll (now, m) = (now, close_tasks m)"
| "table_step (Wait n) (now, m) = (now + int n, m)"

text \<open>The random source does not repeat an identifier of the table.\<close>

definition fresh_ok :: "task_event \<Rightarrow> manager \<Rightarrow> bool" where
  "fresh_ok e m = (case e of Start (Some i) meta \<Rightarrow> map_of (mg_tasks m) i = None | _ \<Rightarrow> True)"

inductive tables :: "manager \<Rightarrow> time \<times> manager \<Rightarrow> bool" for m0 where
  init: "tables m0 (now, m0)"
| step: "tables m0 (now, m) \<Longrightarrow> fresh_ok e m \<Longrightarrow> tables m0 (table_step e (now, m))"

section \<open>The invariant\<close>

definition table_inv :: "manager \<Rightarrow> bool" where
  "table_inv m \<longleftrightarrow> distinct (map fst (mg_tasks m))
     \<and> (\<forall>(i, t) \<in> set (mg_tasks m). tk_id t = i
          \<and> (tk_state t = TRunning \<and> tk_key t \<noteq> [] \<longrightarrow> map_of (mg_by_key m) (tk_key t) = Some i))"

definition finished_in :: "(string \<times> task) list \<Rightarrow> manager \<Rightarrow> bool" where
  "finished_in xs m \<longleftrightarrow> (\<forall>(i, t) \<in> set xs. (i, t) \<in> set (mg_tasks m) \<and> terminal (tk_state t))"

lemma forget_task_tasks: "mg_tasks (forget_task i t m) = filter (\<lambda>x. fst x \<noteq> i) (mg_tasks m)"
  by (auto simp: forget_task_def AList.delete_eq intro: filter_cong)

lemma forget_task_inv:
  assumes "table_inv m" and "(i, t) \<in> set (mg_tasks m)" and "terminal (tk_state t)"
  shows "table_inv (forget_task i t m)"
proof -
  have "map_of (mg_by_key (forget_task i t m)) (tk_key u) = Some j"
    if u: "(j, u) \<in> set (mg_tasks m)" "j \<noteq> i" "tk_state u = TRunning" "tk_key u \<noteq> []" for j u
  proof -
    from u assms(1) have "map_of (mg_by_key m) (tk_key u) = Some j" by (auto simp: table_inv_def)
    with u(2) show ?thesis by (auto simp: forget_task_def delete_conv')
  qed
  moreover have "distinct (map fst (mg_tasks (forget_task i t m)))"
    using assms(1) by (simp add: forget_task_tasks table_inv_def distinct_map_filter)
  ultimately show ?thesis
    using assms(1) by (auto simp: table_inv_def forget_task_tasks)
qed

lemma forget_all_simps [simp]:
  "forget_all [] m = m" "forget_all (x # xs) m = forget_all xs (forget_task (fst x) (snd x) m)"
  by (simp_all add: forget_all_def split_beta)

lemma forget_all_tasks: "mg_tasks (forget_all xs m) = filter (\<lambda>x. fst x \<notin> fst ` set xs) (mg_tasks m)"
  by (induction xs arbitrary: m) (auto simp: forget_task_tasks intro: filter_cong)

lemma forget_all_keeps [simp]:
  "mg_max_tasks (forget_all xs m) = mg_max_tasks m" "mg_retention (forget_all xs m) = mg_retention m"
  "mg_closed (forget_all xs m) = mg_closed m"
  by (induction xs arbitrary: m) (simp_all add: forget_task_def)

lemma forget_all_inv:
  assumes "table_inv m" and "finished_in xs m" and "distinct (map fst xs)"
  shows "table_inv (forget_all xs m)"
  using assms
proof (induction xs arbitrary: m)
  case (Cons x xs)
  obtain i t where x: "x = (i, t)" by (cases x)
  have "table_inv (forget_task i t m)"
    using Cons.prems x by (intro forget_task_inv) (auto simp: finished_in_def)
  moreover have "finished_in xs (forget_task i t m)"
    using Cons.prems x by (force simp: finished_in_def forget_task_tasks)
  ultimately show ?case using Cons x by simp
qed simp

lemma trim_take:
  "\<exists>k. trim xs m = forget_all (take k xs) m
     \<and> (k \<ge> length xs \<or> int (length (mg_tasks (trim xs m))) \<le> mg_max_tasks m)"
proof (induction xs arbitrary: m)
  case (Cons x xs)
  obtain i t where x: "x = (i, t)" by (cases x)
  show ?case
  proof (cases "int (length (mg_tasks m)) \<le> mg_max_tasks m")
    case True
    then show ?thesis by (intro exI [of _ 0]) (simp add: x)
  next
    case False
    from Cons.IH [of "forget_task i t m"] obtain k where
      "trim xs (forget_task i t m) = forget_all (take k xs) (forget_task i t m)"
      "k \<ge> length xs \<or> int (length (mg_tasks (trim xs (forget_task i t m)))) \<le> mg_max_tasks m"
      by (auto simp: forget_task_def)
    with False x show ?thesis by (intro exI [of _ "Suc k"]) simp
  qed
qed (intro exI [of _ 0], simp)

text \<open>A purge forgets some finished tasks: those past retention and, over the cap, the oldest.\<close>

definition over_age :: "time \<Rightarrow> manager \<Rightarrow> (string \<times> task) list" where
  "over_age now m = filter (\<lambda>(i, t). expired m now t) (mg_tasks m)"

definition by_age :: "manager \<Rightarrow> (string \<times> task) list" where
  "by_age m = sort_key age_key (filter (\<lambda>(i, t). terminal (tk_state t)) (mg_tasks m))"

lemma purge_forgets:
  obtains k where "purge now m = forget_all (take k (by_age (forget_all (over_age now m) m))) (forget_all (over_age now m) m)"
    "int (length (mg_tasks (purge now m))) \<le> mg_max_tasks m \<or> k \<ge> length (by_age (forget_all (over_age now m) m))"
proof -
  let ?m = "forget_all (over_age now m) m"
  show ?thesis
  proof (cases "int (length (mg_tasks ?m)) \<le> mg_max_tasks m")
    case True
    then have "purge now m = ?m" by (simp add: purge_def over_age_def Let_def)
    with True that [of 0] show ?thesis by simp
  next
    case False
    then have "purge now m = trim (by_age ?m) ?m"
      by (simp add: purge_def over_age_def by_age_def Let_def)
    with trim_take [of "by_age ?m" ?m] that show ?thesis by auto
  qed
qed

lemma distinct_over_age: "table_inv m \<Longrightarrow> distinct (map fst (over_age now m))"
  by (simp add: table_inv_def over_age_def distinct_map_filter)

lemma set_by_age: "set (by_age m) = {x \<in> set (mg_tasks m). terminal (tk_state (snd x))}"
  by (auto simp: by_age_def)

lemma distinct_by_age: "table_inv m \<Longrightarrow> distinct (map fst (by_age m))"
  unfolding by_age_def table_inv_def
  by (simp add: distinct_map inj_on_def)

lemma purge_inv: "table_inv m \<Longrightarrow> table_inv (purge now m)"
proof -
  assume inv: "table_inv m"
  let ?m = "forget_all (over_age now m) m"
  obtain k where k: "purge now m = forget_all (take k (by_age ?m)) ?m" using purge_forgets by blast
  have i: "table_inv ?m"
    using inv distinct_over_age [OF inv] by (intro forget_all_inv) (auto simp: finished_in_def over_age_def expired_def)
  moreover have "finished_in (take k (by_age ?m)) ?m"
    unfolding finished_in_def using set_by_age [of ?m] by (fastforce dest: in_set_takeD)
  moreover have "distinct (map fst (take k (by_age ?m)))"
    using distinct_by_age [OF i] by (metis distinct_take take_map)
  ultimately show ?thesis unfolding k by (rule forget_all_inv)
qed

lemma map_of_filter_fst:
  "map_of (filter (\<lambda>x. P (fst x)) xs) i = (if P i then map_of xs i else None)"
  by (induction xs) auto

lemma forget_all_map_of: "map_of (mg_tasks (forget_all xs m)) i = (if i \<in> fst ` set xs then None else map_of (mg_tasks m) i)"
  using map_of_filter_fst [of "\<lambda>i. i \<notin> fst ` set xs" "mg_tasks m" i] by (simp add: forget_all_tasks)

lemma table_inv_map_of:
  "table_inv m \<Longrightarrow> (i, t) \<in> set (mg_tasks m) \<longleftrightarrow> map_of (mg_tasks m) i = Some t"
  by (auto simp: table_inv_def)

lemma purge_running:
  assumes "table_inv m" and "map_of (mg_tasks m) i = Some t" and "tk_state t = TRunning"
  shows "map_of (mg_tasks (purge now m)) i = Some t"
proof -
  let ?m = "forget_all (over_age now m) m"
  obtain k where k: "purge now m = forget_all (take k (by_age ?m)) ?m" using purge_forgets by blast
  have keep: "i \<notin> fst ` set xs" if "finished_in xs n" "table_inv n" "map_of (mg_tasks n) i = Some t" for xs n
    using that assms(3) table_inv_map_of [OF that(2)] by (fastforce simp: finished_in_def terminal_def)
  have f: "finished_in (over_age now m) m" by (auto simp: finished_in_def over_age_def expired_def)
  have im: "table_inv ?m" using assms(1) distinct_over_age [OF assms(1)] f by (intro forget_all_inv)
  have t: "map_of (mg_tasks ?m) i = Some t" using keep [OF f assms(1,2)] assms(2) by (simp add: forget_all_map_of)
  have "finished_in (take k (by_age ?m)) ?m"
    unfolding finished_in_def using set_by_age [of ?m] by (fastforce dest: in_set_takeD)
  from keep [OF this im t] t show ?thesis unfolding k by (simp add: forget_all_map_of)
qed


lemma purge_keeps [simp]:
  "mg_max_tasks (purge now m) = mg_max_tasks m" "mg_closed (purge now m) = mg_closed m"
  by (rule purge_forgets [of now m], simp)+

lemma with_task_map_of:
  "map_of (mg_tasks (with_task i f m)) j = (if j = i then map_option f (map_of (mg_tasks m) j) else map_of (mg_tasks m) j)"
proof -
  have "map_of (map (\<lambda>(k, t). (k, if k = i then f t else t)) xs) j
      = (if j = i then map_option f (map_of xs j) else map_of xs j)" for xs
    by (induction xs) auto
  then show ?thesis by (simp add: with_task_def)
qed

text \<open>Changes of one task that keep its name and never wake a finished one.\<close>

definition tame :: "(task \<Rightarrow> task) \<Rightarrow> bool" where
  "tame f \<longleftrightarrow> (\<forall>t. tk_id (f t) = tk_id t \<and> tk_key (f t) = tk_key t
     \<and> (tk_state t \<noteq> TRunning \<longrightarrow> tk_state (f t) = tk_state t))"

lemma tame_intros [simp]:
  "tame (while_running (\<lambda>t. t\<lparr>tk_stdout := x t\<rparr>))" "tame (while_running (\<lambda>t. t\<lparr>tk_stderr := x t\<rparr>))"
  "tame (hit_ceiling now)" "tame (\<lambda>t. t\<lparr>tk_ctx := cancel_ctx (tk_ctx t)\<rparr>)" "tame (finish_task now out err)"
  by (simp_all add: tame_def while_running_def hit_ceiling_def finish_task_def terminal_def Let_def split: option.splits)

lemma table_inv_change:
  assumes "table_inv m" and "tame f" and "mg_by_key m' = mg_by_key m"
    and "mg_tasks m' = map (\<lambda>(j, t). (j, if P j then f t else t)) (mg_tasks m)"
  shows "table_inv m'"
proof -
  have "map fst (mg_tasks m') = map fst (mg_tasks m)" by (simp add: assms(4) case_prod_beta comp_def)
  moreover have "tk_id u = j \<and> (tk_state u = TRunning \<and> tk_key u \<noteq> [] \<longrightarrow> map_of (mg_by_key m') (tk_key u) = Some j)"
    if "(j, u) \<in> set (mg_tasks m')" for j u
  proof -
    from that assms(4) obtain t where t: "(j, t) \<in> set (mg_tasks m)" "u = (if P j then f t else t)" by auto
    have "tk_id u = tk_id t \<and> tk_key u = tk_key t \<and> (tk_state u = TRunning \<longrightarrow> tk_state t = TRunning)"
      using assms(2) t(2) unfolding tame_def by (metis (full_types))
    with t(1) assms(1,3) show ?thesis unfolding table_inv_def by fastforce
  qed
  ultimately show ?thesis using assms(1) unfolding table_inv_def by auto
qed

lemma with_task_inv: "table_inv m \<Longrightarrow> tame f \<Longrightarrow> table_inv (with_task i f m)"
  by (rule table_inv_change [of m f _ "\<lambda>j. j = i"]) (simp_all add: with_task_def)

lemma in_flight_running:
  assumes "table_inv m" and "map_of (mg_tasks m) i = Some t" and "tk_state t = TRunning" and "tk_key t \<noteq> []"
  shows "in_flight m (tk_key t) = Some i"
proof -
  from assms(2) have "(i, t) \<in> set (mg_tasks m)" by (rule map_of_SomeD)
  with assms have "map_of (mg_by_key m) (tk_key t) = Some i" by (auto simp: table_inv_def)
  with assms show ?thesis by (simp add: in_flight_def terminal_def)
qed

lemma table_inv_iff:
  "table_inv m \<longleftrightarrow> distinct (map fst (mg_tasks m))
     \<and> (\<forall>i t. map_of (mg_tasks m) i = Some t \<longrightarrow> tk_id t = i
          \<and> (tk_state t = TRunning \<and> tk_key t \<noteq> [] \<longrightarrow> map_of (mg_by_key m) (tk_key t) = Some i))"
  unfolding table_inv_def by (auto 4 3 dest: map_of_SomeD)

definition key_free :: "string \<Rightarrow> manager \<Rightarrow> bool" where
  "key_free key m \<longleftrightarrow> key = [] \<or> (\<forall>i t. map_of (mg_tasks m) i = Some t \<longrightarrow> tk_state t = TRunning \<longrightarrow> tk_key t \<noteq> key)"

lemma key_freeI:
  assumes "table_inv m" and "(if key = [] then None else in_flight m key) = None"
  shows "key_free key m"
  using assms in_flight_running [OF assms(1)] by (auto simp: key_free_def split: if_splits)

lemma drop_key_inv:
  "table_inv m \<Longrightarrow> key_free key m \<Longrightarrow> key \<noteq> [] \<Longrightarrow> table_inv (m\<lparr>mg_by_key := AList.delete key (mg_by_key m)\<rparr>)"
  by (auto simp: table_inv_iff key_free_def delete_conv')

lemma add_task_map_of:
  "map_of (mg_tasks (add_task i now meta m)) = (map_of (mg_tasks m))(i \<mapsto> new_task i now meta m)"
  by (simp add: add_task_def update_conv')

lemma add_task_inv:
  assumes "table_inv m" and "map_of (mg_tasks m) i = None" and "key_free (mt_key meta) m"
  shows "table_inv (add_task i now meta m)"
proof -
  have "distinct (map fst (mg_tasks (add_task i now meta m)))"
    using assms(1) by (simp add: add_task_def table_inv_def distinct_update)
  moreover have "map_of (mg_by_key (add_task i now meta m)) k
      = (if k = mt_key meta \<and> k \<noteq> [] then Some i else map_of (mg_by_key m) k)" for k
    by (simp add: add_task_def update_conv')
  ultimately show ?thesis
    using assms by (auto simp: table_inv_iff add_task_map_of new_task_def key_free_def)
qed

text \<open>The three ways \<open>acquire\<close> ends, over the purged table.\<close>

lemma acquire_cases:
  assumes "table_inv m0" and "fresh_ok (Start fresh meta) m0"
  obtains (refused) e where "fst (acquire fresh now meta m0) = Inl e"
      "mg_tasks (snd (acquire fresh now meta m0)) = mg_tasks (purge now m0) \<or> snd (acquire fresh now meta m0) = m0"
      "table_inv (snd (acquire fresh now meta m0))"
    | (joined) i where "acquire fresh now meta m0 = (Inr (i, False), purge now m0)"
    | (started) i m1 where "acquire fresh now meta m0 = (Inr (i, True), add_task i now meta m1)"
      "mg_tasks m1 = mg_tasks (purge now m0)" "map_of (mg_tasks m1) i = None" "key_free (mt_key meta) m1" "table_inv m1"
proof (cases "mg_closed m0")
  case True
  with assms show ?thesis by (intro refused [of ErrClosed]) (simp_all add: acquire_def)
next
  case opened: False
  define m where "m = purge now m0"
  have inv: "table_inv m" unfolding m_def by (rule purge_inv) fact
  show ?thesis
  proof (cases "(if mt_key meta = [] then None else in_flight m (mt_key meta))")
    case (Some i)
    then have "acquire fresh now meta m0 = (Inr (i, False), m)"
      using opened unfolding acquire_def Let_def m_def [symmetric] by (simp split: if_splits)
    then show ?thesis unfolding m_def by (rule joined)
  next
    case None
    define m1 where "m1 = (if mt_key meta = [] then m else m\<lparr>mg_by_key := AList.delete (mt_key meta) (mg_by_key m)\<rparr>)"
    note free = key_freeI [OF inv None]
    have m1: "table_inv m1" "mg_tasks m1 = mg_tasks m" "key_free (mt_key meta) m1"
      using inv free drop_key_inv [OF inv free] by (simp_all add: m1_def) (auto simp: key_free_def)
    have acq: "acquire fresh now meta m0 =
        (if mt_id meta = [] then
           (case fresh of None \<Rightarrow> (Inl ErrNoId, m1) | Some i \<Rightarrow> (Inr (i, True), add_task i now meta m1))
         else if map_of (mg_tasks m1) (mt_id meta) \<noteq> None then (Inl ErrIdTaken, m1)
         else (Inr (mt_id meta, True), add_task (mt_id meta) now meta m1))"
      using opened None unfolding acquire_def Let_def m_def [symmetric] m1_def [symmetric] by simp
    have unused: "map_of (mg_tasks m1) i = None" if "fresh = Some i" for i
    proof -
      from assms(2) that have "i \<notin> fst ` set (mg_tasks m0)" by (simp add: fresh_ok_def map_of_eq_None_iff)
      moreover obtain xs where "mg_tasks m = mg_tasks (forget_all xs (forget_all (over_age now m0) m0))"
        unfolding m_def by (rule purge_forgets [of now m0]) (metis)
      ultimately show ?thesis by (auto simp: m1(2) forget_all_tasks map_of_eq_None_iff)
    qed
    show ?thesis
      using acq m1 unused refused [of ErrNoId] refused [of ErrIdTaken] started [of _ m1]
      by (cases "mt_id meta = []"; cases fresh; cases "map_of (mg_tasks m1) (mt_id meta)") (auto simp: m_def)
  qed
qed

lemma acquire_inv:
  assumes "table_inv m" and "fresh_ok (Start fresh meta) m"
  shows "table_inv (snd (acquire fresh now meta m))"
  using assms by (cases rule: acquire_cases [OF assms, of now]) (simp_all add: purge_inv add_task_inv)

lemma clear_inv: "table_inv m \<Longrightarrow> table_inv (snd (clear_tasks m))"
  by (auto simp: clear_tasks_def Let_def finished_in_def table_inv_def [of m] distinct_map_filter intro!: forget_all_inv)

lemma close_inv: "table_inv m \<Longrightarrow> table_inv (close_tasks m)"
  by (cases "mg_closed m")
    (auto simp: close_tasks_def intro: table_inv_change [of m "\<lambda>t. t\<lparr>tk_ctx := cancel_ctx (tk_ctx t)\<rparr>" _ "\<lambda>_. True"])

lemma snd_status [simp]: "snd (status now i a b m) = purge now m"
  by (simp add: status_def Let_def split: option.splits)

lemma snd_list [simp]: "snd (list_tasks now m) = purge now m"
  by (simp add: list_tasks_def Let_def)

lemma snd_cancel: "snd (cancel_task i m) = m \<or> snd (cancel_task i m) = with_task i (\<lambda>t. t\<lparr>tk_ctx := cancel_ctx (tk_ctx t)\<rparr>) m"
  by (simp add: cancel_task_def)

lemma step_inv: "table_inv m \<Longrightarrow> fresh_ok e m \<Longrightarrow> table_inv (snd (table_step e (now, m)))"
  using snd_cancel [of _ m]
  by (cases e) (auto simp: with_task_inv purge_inv acquire_inv clear_inv close_inv, metis tame_intros(4) with_task_inv)

lemma tables_inv: "tables (new_manager opts) s \<Longrightarrow> table_inv (snd s)"
proof (induction rule: tables.induct)
  case (init now)
  then show ?case by (simp add: table_inv_def new_manager_def)
next
  case (step now m e)
  then show ?case using step_inv [of m e now] by simp
qed


section \<open>What a table guarantees\<close>


text \<open>
  C30. A running task is never forgotten: whatever happens next, it is still in the table under
  its identifier with its key, and it still runs unless this was its own end.
\<close>
theorem running_is_never_forgotten:
  assumes "tables (new_manager opts) (now, m)" and "fresh_ok e m"
    and "map_of (mg_tasks m) i = Some a" and "tk_state a = TRunning"
  shows "case map_of (mg_tasks (snd (table_step e (now, m)))) i of
      None \<Rightarrow> False
    | Some b \<Rightarrow> tk_key b = tk_key a \<and> tk_id b = i
        \<and> (tk_state b = TRunning \<longleftrightarrow> (case e of Finish j out err \<Rightarrow> j \<noteq> i | _ \<Rightarrow> True))"
proof -
  from tables_inv [OF assms(1)] have inv: "table_inv m" by simp
  with assms(3) have tk: "tk_id a = i" by (auto simp: table_inv_iff)
  note kept = purge_running [OF inv assms(3,4)]
  have acq: "map_of (mg_tasks (snd (acquire fresh now meta m))) i = Some a" if "e = Start fresh meta" for fresh meta
  proof -
    from assms(2) that have "fresh_ok (Start fresh meta) m" by simp
    from inv this show ?thesis
      by (cases rule: acquire_cases [of m fresh meta now]) (use kept assms(3) in \<open>auto simp: add_task_map_of\<close>)
  qed
  have clear: "map_of (mg_tasks (snd (clear_tasks m))) i = Some a"
    using assms(3,4) inv by (auto simp: clear_tasks_def Let_def forget_all_map_of terminal_def table_inv_map_of)
  have close: "map_of (mg_tasks (close_tasks m)) i = Some (if mg_closed m then a else a\<lparr>tk_ctx := cancel_ctx (tk_ctx a)\<rparr>)"
    using assms(3) by (simp add: close_tasks_def map_of_map [of "\<lambda>t. t\<lparr>tk_ctx := cancel_ctx (tk_ctx t)\<rparr>"])
  show ?thesis
    using assms(3,4) tk kept clear close acq snd_cancel [of _ m]
    by (cases e) (auto simp: with_task_map_of while_running_def hit_ceiling_def finish_task_def terminal_def cancel_task_def Let_def
        split: option.splits)
qed

lemma forget_all_set:
  assumes "table_inv m" and "set xs \<subseteq> set (mg_tasks m)"
  shows "set (mg_tasks (forget_all xs m)) = set (mg_tasks m) - set xs"
proof -
  have "distinct (map fst (mg_tasks m))" using assms(1) by (simp add: table_inv_def)
  then have "x = y" if "x \<in> set (mg_tasks m)" "y \<in> set xs" "fst x = fst y" for x y
    using that assms(2) eq_key_imp_eq_value [of "mg_tasks m" "fst x" "snd x" "snd y"] by (cases x; cases y) auto
  then show ?thesis by (auto simp: forget_all_tasks)
qed

lemma sorted_split:
  assumes "sorted (map f xs)" and "x \<in> set (take k xs)" and "y \<in> set xs" and "y \<notin> set (take k xs)"
  shows "f x \<le> f y"
proof -
  have "sorted (map f (take k xs) @ map f (drop k xs))"
    using assms(1) by (simp add: map_append [symmetric] del: map_append)
  moreover have "y \<in> set (drop k xs)" using assms(3,4) by (metis Un_iff append_take_drop_id set_append)
  ultimately show ?thesis using assms(2) by (auto simp: sorted_append)
qed

text \<open>
  What a purge leaves. Every running task stays; a finished task stays only within the
  retention time; the table is within its cap or holds running tasks only; and a task trimmed
  for the cap is at least as old as every finished task that stays.
\<close>
theorem purge_spec:
  assumes "table_inv m"
  shows "list_all (\<lambda>(i, t). \<not> expired m now t) (mg_tasks (purge now m))
    \<and> set (mg_tasks (purge now m)) \<subseteq> set (mg_tasks m)
    \<and> list_all (\<lambda>(i, t). if terminal (tk_state t) then True else List.member (mg_tasks (purge now m)) (i, t)) (mg_tasks m)
    \<and> (if int (length (mg_tasks (purge now m))) \<le> mg_max_tasks m then True
       else list_all (\<lambda>(i, t). \<not> terminal (tk_state t)) (mg_tasks (purge now m)))
    \<and> list_all (\<lambda>x. if terminal (tk_state (snd x)) \<and> \<not> expired m now (snd x) \<and> \<not> List.member (mg_tasks (purge now m)) x
         then list_all (\<lambda>y. if terminal (tk_state (snd y)) then age_key x \<le> age_key y else True) (mg_tasks (purge now m))
         else True) (mg_tasks m)"
proof -
  let ?m = "forget_all (over_age now m) m" and ?P = "set (mg_tasks (purge now m))"
  obtain k where k: "purge now m = forget_all (take k (by_age ?m)) ?m"
      "int (length (mg_tasks (purge now m))) \<le> mg_max_tasks m \<or> k \<ge> length (by_age ?m)"
    using purge_forgets by blast
  have inv: "table_inv ?m"
    using assms distinct_over_age [OF assms] by (intro forget_all_inv) (auto simp: finished_in_def over_age_def expired_def)
  have S1: "set (mg_tasks ?m) = {x \<in> set (mg_tasks m). \<not> expired m now (snd x)}"
  proof -
    have o: "set (over_age now m) = {x \<in> set (mg_tasks m). expired m now (snd x)}" by (auto simp: over_age_def)
    then have "set (over_age now m) \<subseteq> set (mg_tasks m)" by blast
    from forget_all_set [OF assms this] show ?thesis unfolding o by blast
  qed
  have B: "set (by_age ?m) = {x \<in> set (mg_tasks ?m). terminal (tk_state (snd x))}" by (rule set_by_age)
  have sub: "set (take k (by_age ?m)) \<subseteq> set (mg_tasks ?m)"
    using B by (auto dest: in_set_takeD)
  have P: "?P = set (mg_tasks ?m) - set (take k (by_age ?m))"
    unfolding k(1) by (rule forget_all_set [OF inv sub])
  have sorted: "sorted (map age_key (by_age ?m))" by (simp add: by_age_def)
  have run: "x \<in> ?P" if "x \<in> set (mg_tasks m)" "\<not> terminal (tk_state (snd x))" for x
    using that P S1 B by (auto simp: expired_def dest: in_set_takeD)
  have cap: "\<not> terminal (tk_state (snd x))" if "x \<in> ?P" "\<not> int (length (mg_tasks (purge now m))) \<le> mg_max_tasks m" for x
    using that k(2) P B by auto
  have old: "age_key x \<le> age_key y"
    if "x \<in> set (mg_tasks m)" "terminal (tk_state (snd x))" "\<not> expired m now (snd x)" "x \<notin> ?P"
      "y \<in> ?P" "terminal (tk_state (snd y))" for x y
    using that P S1 B by (intro sorted_split [OF sorted]) auto
  have "?P \<subseteq> {x \<in> set (mg_tasks m). \<not> expired m now (snd x)}" using P S1 by blast
  with run cap old show ?thesis by (auto simp: list_all_iff split_beta)
qed

text \<open>A sample table: one cap, two finished tasks and a running one.\<close>

definition sample_meta :: "string \<Rightarrow> task_meta" where
  "sample_meta key = \<lparr>mt_key = key, mt_label = [], mt_dir = [], mt_provider = [], mt_network = [],
     mt_workspace = ''ws_1'', mt_budget = 0, mt_id = []\<rparr>"

definition sample_options :: options where
  "sample_options = \<lparr>op_budget = 0, op_max_output = 4, op_retention = 0, op_max_tasks = 1, op_max_runtime = 0\<rparr>"

definition all_good :: task_outcome where
  "all_good = \<lparr>oc_exit = 0, oc_timed_out = False\<rparr>"

definition sample_events :: "task_event list" where
  "sample_events = [Start (Some ''a'') (sample_meta ''k''), Finish ''a'' all_good None,
     Start (Some ''b'') (sample_meta ''k''), Finish ''b'' all_good None, Start (Some ''c'') (sample_meta ''k'')]"

fun play_table :: "task_event list \<Rightarrow> time \<times> manager \<Rightarrow> time \<times> manager" where
  "play_table [] s = s"
| "play_table (e # es) s = play_table es (table_step e s)"

fun fresh_run :: "task_event list \<Rightarrow> time \<times> manager \<Rightarrow> bool" where
  "fresh_run [] s = True"
| "fresh_run (e # es) s = (fresh_ok e (snd s) \<and> fresh_run es (table_step e s))"

lemma play_tables: "tables m0 s \<Longrightarrow> fresh_run es s \<Longrightarrow> tables m0 (play_table es s)"
proof (induction es arbitrary: s)
  case (Cons e es)
  then have "tables m0 (table_step e s)" using tables.step [of m0 "fst s" "snd s" e] by simp
  with Cons show ?case by simp
qed simp

abbreviation sample_start :: "time \<times> manager" where
  "sample_start \<equiv> (0, new_manager sample_options)"

lemma sample_tables: "fresh_run es sample_start \<Longrightarrow> tables (new_manager sample_options) (fst (play_table es sample_start), snd (play_table es sample_start))"
  using play_tables [OF tables.init] by simp


theorem running_is_never_forgotten_witness:
  "case map_of (mg_tasks (snd (table_step (Start (Some ''d'') (sample_meta [])) (play_table sample_events sample_start)))) ''c'' of
     None \<Rightarrow> False | Some b \<Rightarrow> tk_state b = TRunning"
proof -
  let ?s = "play_table sample_events sample_start"
  let ?c = "the (map_of (mg_tasks (snd ?s)) ''c'')"
  have t: "fresh_run sample_events sample_start" by code_simp
  have m: "map_of (mg_tasks (snd ?s)) ''c'' = Some ?c" "tk_state ?c = TRunning"
    "fresh_ok (Start (Some ''d'') (sample_meta [])) (snd ?s)"
    by code_simp+
  from running_is_never_forgotten [OF sample_tables [OF t] m(3,1,2)]
  show ?thesis by (simp split: option.splits)
qed

theorem purge_spec_witness:
  "map fst (mg_tasks (snd (play_table sample_events sample_start))) = [''b'', ''c'']
   \<and> list_all (\<lambda>(i, t). \<not> expired (snd (play_table sample_events sample_start)) 0 t)
       (mg_tasks (purge 0 (snd (play_table sample_events sample_start))))
   \<and> map fst (mg_tasks (purge 0 (snd (play_table sample_events sample_start)))) = [''c'']"
proof -
  have t: "fresh_run sample_events sample_start" by code_simp
  have "table_inv (snd (play_table sample_events sample_start))"
    using tables_inv [OF sample_tables [OF t]] by simp
  from purge_spec [OF this, of 0]
  have "list_all (\<lambda>(i, t). \<not> expired (snd (play_table sample_events sample_start)) 0 t)
       (mg_tasks (purge 0 (snd (play_table sample_events sample_start))))" by blast
  moreover have "map fst (mg_tasks (snd (play_table sample_events sample_start))) = [''b'', ''c'']"
    "map fst (mg_tasks (purge 0 (snd (play_table sample_events sample_start)))) = [''c'']"
    by code_simp+
  ultimately show ?thesis by blast
qed

text \<open>
  A poll may see the end of a task and miss the end of its output. The buffers are read
  before the state: when the task writes its last bytes and finishes in between, the answer
  says "succeeded" with a part of the output, and a caller that stops at a finished task
  never asks for the rest.
\<close>
theorem snapshot_may_miss_the_tail:
  "(let t = (new_task ''a'' 0 (sample_meta []) (new_manager sample_options))
          \<lparr>tk_stdout := fst (buf_write (new_buffer 4) ''x'')\<rparr>;
        t' = finish_task 1 all_good None (t\<lparr>tk_stdout := fst (buf_write (tk_stdout t) ''y'')\<rparr>);
        s = snapshot 1 t t t' 0 0
    in sn_state s = TSucceeded \<and> sn_stdout s = ''x'' \<and> fst (buf_since (tk_stdout t') 0) = ''xy'')"
  by code_simp

end
