(* ===== verification/RunCommand.thy ===== *)
theory RunCommand
  imports CmdGate CmdRun Tasks Workspace TxnTypes
begin

text \<open>
  The command tools of \<^verbatim>\<open>mcpserver/exec.go\<close>: \<^verbatim>\<open>run_command\<close>, \<^verbatim>\<open>code_task\<close> and \<^verbatim>\<open>task_status\<close>, which put the
  rule table, the gate, the approver, the task table, the runner and the journal together.
  The approver is a function: while it waits the user may change everything the tools share
  (\<open>desk\<close>), so it returns its answer and the desk it left.
\<close>

section \<open>What the tools share and what they are given\<close>

record desk =
  dk_rung :: string
  dk_grants :: "grant_table option"
  dk_delegations :: "delegations option"
  dk_tasks :: manager
  dk_log :: exec_store
  dk_now :: time

datatype net_state = NetAbsent | NetPartial | NetEnforced

record 'f tools =
  tl_exec :: bool
  tl_tasks :: bool
  tl_gate :: bool
  tl_registry :: bool
  tl_unicode :: unicode
  tl_provider :: string
  tl_sha :: "string \<Rightarrow> string"
  tl_open :: "string \<Rightarrow> string + workspace"
  tl_approver :: "(approval_request \<Rightarrow> desk \<Rightarrow> (string + approval_decision) \<times> desk) option"
  tl_lookup_fault :: "string option"
  tl_grant_fault :: "string option"
  tl_ceiling :: "time option"
  tl_audits :: bool
  tl_recalls :: bool
  tl_agents :: "string \<Rightarrow> string + string"
  tl_net :: net_state
  tl_enforcing :: bool
  tl_wait :: "time \<Rightarrow> task \<Rightarrow> time \<times> task \<times> task \<times> task"
  tl_redact :: "string \<Rightarrow> string"
  tl_observe :: "workspace \<Rightarrow> string \<Rightarrow> string \<Rightarrow> 'f option"

text \<open>
  \<open>tl_open\<close> is \<^verbatim>\<open>toolset.open\<close>, \<open>tl_agents\<close> the registry's \<open>Lookup\<close>, \<open>tl_wait\<close> what a task has become at
  the three moments at which its snapshot is taken, and \<open>tl_sha\<close> the hexadecimal SHA-256.
\<close>

record command_input =
  ci_workspace :: string
  ci_command :: "string list"
  ci_dir :: string
  ci_timeout :: int

record delegation_input =
  di_workspace :: string
  di_prompt :: string
  di_dir :: string
  di_agent :: string
  di_model :: string

datatype next_step = NextWait | NextAskUser | NextStop | NextFixInput | NextReconcile | NextReobserve

datatype output_reason = NoText | Text string | TaskText task_message

record 'f run_output =
  ro_status :: string
  ro_task :: string
  ro_state :: string
  ro_exit :: "int option"
  ro_stdout :: string
  ro_stderr :: string
  ro_stdout_cursor :: int
  ro_stderr_cursor :: int
  ro_stdout_cut :: bool
  ro_stderr_cut :: bool
  ro_duration_ms :: int
  ro_read_note :: string
  ro_network_note :: string
  ro_failure :: "'f option"
  ro_rule :: string
  ro_reason :: output_reason
  ro_action :: string
  ro_next :: "next_step option"

datatype tool_error =
    ToolUnavailable | NoProgram | TooManyArgs nat | NoWorkspace string | ReadOnlyWorkspace string
  | GateFailed store_error | NoApprover | ApproverFailed string | GrantFailed gate_error
  | TimeoutTooLong | NoRunId | TaskRefused task_error | NoPrompt | AgentMissing string | NoTaskId

definition no_output :: "'f run_output" where
  "no_output = \<lparr>ro_status = [], ro_task = [], ro_state = [], ro_exit = None, ro_stdout = [], ro_stderr = [],
     ro_stdout_cursor = 0, ro_stderr_cursor = 0, ro_stdout_cut = False, ro_stderr_cut = False, ro_duration_ms = 0,
     ro_read_note = [], ro_network_note = [], ro_failure = None, ro_rule = [], ro_reason = NoText, ro_action = [],
     ro_next = None\<rparr>"

section \<open>Keys, bounds and words\<close>

definition max_command_args :: nat where "max_command_args = 64"
definition max_command_timeout :: time where "max_command_timeout = 15 * minute"
definition code_task_budget :: time where "code_task_budget = 2 * second"

definition key_text :: "string \<Rightarrow> string \<Rightarrow> string \<Rightarrow> string list \<Rightarrow> string" where
  "key_text provider ws dir argv = provider @ nul # ws @ nul # dir @ concat (map (\<lambda>a. nul # a) argv)"

definition command_key :: "'f tools \<Rightarrow> string \<Rightarrow> string \<Rightarrow> string list \<Rightarrow> string" where
  "command_key cf ws dir argv = take 32 (tl_sha cf (key_text (tl_provider cf) ws dir argv))"

text \<open>\<open>time.Duration(secs) * time.Second\<close> on 64 bits; \<open>None\<close> where the call is refused.\<close>

definition duration_of_secs :: "int \<Rightarrow> time" where
  "duration_of_secs secs = sint (word_of_int (secs * second) :: 64 word)"

definition run_timeout :: "time option \<Rightarrow> int \<Rightarrow> time option" where
  "run_timeout ceiling secs =
     (let t = (if secs \<le> 0 then default_timeout else duration_of_secs secs) in
      if t > max_command_timeout then None
      else Some (case ceiling of None \<Rightarrow> t | Some c \<Rightarrow> if c > 0 \<and> t > c then c else t))"

definition state_text :: "task_state \<Rightarrow> string" where
  "state_text s =
     (case s of TRunning \<Rightarrow> ''running'' | TSucceeded \<Rightarrow> ''succeeded'' | TFailed \<Rightarrow> ''failed'' | TTimedOut \<Rightarrow> ''timed_out''
      | TCanceled \<Rightarrow> ''canceled'' | TDenied \<Rightarrow> ''denied'' | TInterrupted \<Rightarrow> ''interrupted'')"

definition task_step :: "task_state \<Rightarrow> next_step option" where
  "task_step s =
     (case s of TRunning \<Rightarrow> Some NextWait | TDenied \<Rightarrow> Some NextStop
      | TTimedOut \<Rightarrow> Some NextReobserve | TCanceled \<Rightarrow> Some NextReobserve | TInterrupted \<Rightarrow> Some NextReobserve
      | TSucceeded \<Rightarrow> None | TFailed \<Rightarrow> None)"

definition reach :: "net_state \<Rightarrow> bool \<Rightarrow> string" where
  "reach net allowed =
     (if allowed then ''allowed''
      else case net of NetEnforced \<Rightarrow> ''denied'' | NetPartial \<Rightarrow> ''partial'' | NetAbsent \<Rightarrow> ''unbounded'')"

definition first_line :: "string \<Rightarrow> string" where
  "first_line s =
     (let t = trim_space (before_byte (CHR 0x0A) s) in
      if 80 < length t then take 77 t @ ''...'' else t)"

abbreviation joined :: "string list \<Rightarrow> string" where "joined argv \<equiv> join_with '' '' argv"

section \<open>Asking\<close>

definition command_request :: "'f tools \<Rightarrow> workspace \<Rightarrow> command_input \<Rightarrow> gverdict \<Rightarrow> approval_request" where
  "command_request cf w rq v =
     \<lparr>ar_change_set = (if v_grant v then ''cmd-grant:'' @ ws_id w
                       else ''cmd:'' @ command_key cf (ws_id w) (ci_dir rq) (ci_command rq)),
      ar_workspace = ws_id w, ar_provider = tl_provider cf, ar_operations = [],
      ar_kind = (if d_verdict (v_rule v) = Disclose then KindDisclosure else KindCommand), ar_must_ask = False,
      ar_command = ci_command rq, ar_rule = d_rule (v_rule v), ar_reason = d_reason (v_rule v), ar_dir = ci_dir rq,
      ar_grant = v_grant v\<rparr>"

text \<open>\<open>Inr None\<close>: the command may run. \<open>Inr (Some out)\<close>: what the caller receives instead.\<close>

definition confirm_command ::
  "'f tools \<Rightarrow> workspace \<Rightarrow> command_input \<Rightarrow> gverdict \<Rightarrow> desk \<Rightarrow> (tool_error + 'f run_output option) \<times> desk" where
  "confirm_command cf w rq v st0 =
     (case tl_approver cf of
        None \<Rightarrow> (Inl NoApprover, st0)
      | Some ask \<Rightarrow>
          (case ask (command_request cf w rq v) st0 of
             (Inl e, st) \<Rightarrow> (Inl (ApproverFailed e), st)
           | (Inr dec, st) \<Rightarrow>
               if ad_approved dec then
                 (if v_grant v then
                    (case gate_grant (dk_rung st) (tl_grant_fault cf) (dk_now st) (dk_grants st) (ws_id w) of
                       (g, Some e) \<Rightarrow> (Inl (GrantFailed e), st\<lparr>dk_grants := g\<rparr>)
                     | (g, None) \<Rightarrow> (Inr None, st\<lparr>dk_grants := g\<rparr>))
                  else (Inr None, st))
               else if ad_pending dec then
                 (Inr (Some (no_output\<lparr>ro_status := ''pending_approval'', ro_rule := d_rule (v_rule v),
                    ro_reason := Text (d_reason (v_rule v)),
                    ro_action := ''the command is waiting for local user approval; call run_command again with the same command to check the outcome'',
                    ro_next := Some NextAskUser\<rparr>)), st)
               else
                 (Inr (Some (no_output\<lparr>ro_status := ''refused'', ro_rule := d_rule (v_rule v),
                    ro_reason := Text (ad_reason dec),
                    ro_action := ''the local user declined this command; do not retry it without being asked to'',
                    ro_next := Some NextStop\<rparr>)), st)))"

definition delegation_rule :: string where "delegation_rule = ''delegates-to-an-agent''"

definition delegation_warning :: string where
  "delegation_warning = ''this agent will read, write, and run commands in this workspace on its own, using your permissions; Fylane does not review any step it takes''"

definition delegation_request :: "'f tools \<Rightarrow> workspace \<Rightarrow> string \<Rightarrow> delegation_input \<Rightarrow> desk \<Rightarrow> approval_request" where
  "delegation_request cf w agent rq st =
     \<lparr>ar_change_set = ''agent:'' @ command_key cf (ws_id w) (di_dir rq) [agent, di_prompt rq],
      ar_workspace = ws_id w, ar_provider = tl_provider cf, ar_operations = [], ar_kind = KindDelegation,
      ar_must_ask = False, ar_command = [agent, di_prompt rq], ar_rule = delegation_rule,
      ar_reason = delegation_warning, ar_dir = di_dir rq, ar_grant = (dk_delegations st \<noteq> None)\<rparr>"

definition confirm_delegation ::
  "'f tools \<Rightarrow> workspace \<Rightarrow> string \<Rightarrow> delegation_input \<Rightarrow> desk \<Rightarrow> (tool_error + 'f run_output option) \<times> desk" where
  "confirm_delegation cf w agent rq st0 =
     (case tl_approver cf of
        None \<Rightarrow> (Inl NoApprover, st0)
      | Some ask \<Rightarrow>
          if dlg_granted (dk_delegations st0) (dk_now st0) (ws_id w) agent then (Inr None, st0)
          else (case ask (delegation_request cf w agent rq st0) st0 of
              (Inl e, st) \<Rightarrow> (Inl (ApproverFailed e), st)
            | (Inr dec, st) \<Rightarrow>
                if ad_approved dec then
                  (Inr None, st\<lparr>dk_delegations := map_option (\<lambda>m. fst (dlg_grant m (dk_now st) (ws_id w) agent)) (dk_delegations st)\<rparr>)
                else if ad_pending dec then
                  (Inr (Some (no_output\<lparr>ro_status := ''pending_approval'', ro_rule := delegation_rule,
                     ro_reason := Text delegation_warning,
                     ro_action := ''delegation is waiting for local user approval; call code_task again with the same prompt to check the outcome'',
                     ro_next := Some NextAskUser\<rparr>)), st)
                else
                  (Inr (Some (no_output\<lparr>ro_status := ''refused'', ro_rule := delegation_rule,
                     ro_reason := Text (ad_reason dec),
                     ro_action := ''the local user declined to delegate this task; do not retry it without being asked to'',
                     ro_next := Some NextStop\<rparr>)), st)))"

section \<open>The answer made of a snapshot\<close>

definition read_boundary_note :: string where
  "read_boundary_note = ''this machine denies subprocess reads outside the workspace and the toolchain caches; if the command was reading somewhere else, that is why''"

definition network_boundary_note :: string where
  "network_boundary_note = ''this workspace denies its commands outbound network access; if the command was trying to reach the network, that is why''"

definition from_snapshot :: "'f tools \<Rightarrow> workspace option \<Rightarrow> task_snapshot \<Rightarrow> 'f run_output" where
  "from_snapshot cf w s =
     (let out = tl_redact cf (sn_stdout s); err = tl_redact cf (sn_stderr s); ended = terminal (sn_state s);
          failed = (ended \<and> sn_exit s \<noteq> 0); step = task_step (sn_state s)
      in \<lparr>ro_status = (if ended then ''completed'' else ''running''), ro_task = sn_id s, ro_state = state_text (sn_state s),
          ro_exit = (if ended then Some (sn_exit s) else None), ro_stdout = out, ro_stderr = err,
          ro_stdout_cursor = sn_stdout_cursor s, ro_stderr_cursor = sn_stderr_cursor s,
          ro_stdout_cut = sn_stdout_cut s, ro_stderr_cut = sn_stderr_cut s,
          ro_duration_ms = milliseconds (sn_duration s),
          ro_read_note = (if failed \<and> tl_enforcing cf then read_boundary_note else []),
          ro_network_note = (if failed \<and> (sn_network s = ''denied'' \<or> sn_network s = ''partial'')
                             then network_boundary_note else []),
          ro_failure = (case w of None \<Rightarrow> None | Some x \<Rightarrow> if failed then tl_observe cf x out err else None),
          ro_rule = [], ro_reason = (if sn_err s = NoMessage then NoText else TaskText (sn_err s)),
          ro_action = (if \<not> ended then ''the command is still running; call task_status with this task_id and the returned cursors to get later output''
             else if step = Some NextReobserve then ''the command was stopped part-way; anything it had already written is still there, so check the workspace before acting on this''
             else []),
          ro_next = step\<rparr>)"

section \<open>Running\<close>

record agent_task =
  ag_name :: string
  ag_prompt :: string
  ag_root :: string
  ag_dir :: string
  ag_model :: string
  ag_network :: bool

datatype work = CommandWork spec | AgentWork agent_task

text \<open>\<open>Manager.Run\<close>: the answer, the work it set going (with its task), and the desk.\<close>

definition run_task ::
  "'f tools \<Rightarrow> string option \<Rightarrow> task_meta \<Rightarrow> work \<Rightarrow> desk
     \<Rightarrow> (task_error + task_snapshot) \<times> (string \<times> work) option \<times> desk" where
  "run_task cf fresh meta job st =
     (case acquire fresh (dk_now st) meta (dk_tasks st) of
        (Inl e, m) \<Rightarrow> (Inl e, None, st\<lparr>dk_tasks := m\<rparr>)
      | (Inr (i, is_new), m) \<Rightarrow>
          (let (now, t1, t2, t3) = tl_wait cf (dk_now st) (the (map_of (mg_tasks m) i))
           in (Inr (snapshot now t1 t2 t3 0 0), if is_new then Some (i, job) else None, st\<lparr>dk_tasks := m\<rparr>)))"

definition spec_of :: "'f tools \<Rightarrow> workspace \<Rightarrow> command_input \<Rightarrow> time \<Rightarrow> string \<Rightarrow> spec" where
  "spec_of cf w rq limit run =
     \<lparr>sp_workspace = ws_id w, sp_root = ws_root w, sp_dir = ci_dir rq, sp_argv = ci_command rq,
      sp_provider = tl_provider cf, sp_network = ws_network w, sp_run = run, sp_timeout = limit, sp_max_output = 0\<rparr>"

definition start_command ::
  "'f tools \<Rightarrow> workspace \<Rightarrow> command_input \<Rightarrow> string option \<Rightarrow> desk
     \<Rightarrow> (tool_error + 'f run_output) \<times> (string \<times> work) option \<times> desk" where
  "start_command cf w rq fresh st =
     (case run_timeout (tl_ceiling cf) (ci_timeout rq) of
        None \<Rightarrow> (Inl TimeoutTooLong, None, st)
      | Some limit \<Rightarrow>
          (case fresh of
             None \<Rightarrow> (Inl NoRunId, None, st)
           | Some run \<Rightarrow>
               (case run_task cf fresh
                  \<lparr>mt_key = command_key cf (ws_id w) (ci_dir rq) (ci_command rq), mt_label = joined (ci_command rq),
                   mt_dir = ci_dir rq, mt_provider = tl_provider cf, mt_network = reach (tl_net cf) (ws_network w),
                   mt_workspace = ws_id w, mt_budget = 0, mt_id = run\<rparr>
                  (CommandWork (spec_of cf w rq limit run)) st of
                  (Inl e, started, st1) \<Rightarrow> (Inl (TaskRefused e), started, st1)
                | (Inr s, started, st1) \<Rightarrow> (Inr (from_snapshot cf (Some w) s), started, st1))))"

definition audit_exec :: "'f tools \<Rightarrow> workspace \<Rightarrow> command_input \<Rightarrow> string \<Rightarrow> decision \<Rightarrow> desk \<Rightarrow> desk" where
  "audit_exec cf w rq outcome d st =
     (if \<not> tl_audits cf then st
      else st\<lparr>dk_log := exec_attempt (dk_now st)
        \<lparr>er_workspace = ws_id w, er_dir = ci_dir rq, er_argv = ci_command rq, er_outcome = outcome, er_exit = 0,
         er_reason = d_reason d, er_rule = d_rule d, er_provider = tl_provider cf, er_run = [], er_duration = 0\<rparr>
        (dk_log st)\<rparr>)"

definition rule_of :: "'f tools \<Rightarrow> workspace \<Rightarrow> command_input \<Rightarrow> decision" where
  "rule_of cf w rq =
     check (tl_unicode cf) \<lparr>rq_argv = ci_command rq, rq_root = ws_root w, rq_dir = ci_dir rq\<rparr>"

definition gate_verdict :: "'f tools \<Rightarrow> workspace \<Rightarrow> command_input \<Rightarrow> desk \<Rightarrow> store_error + gverdict" where
  "gate_verdict cf w rq st =
     decide (dk_rung st) (map_option (command_grant_for (tl_lookup_fault cf)) (dk_grants st)) (ws_id w) (rule_of cf w rq)"

definition refused_output :: "decision \<Rightarrow> 'f run_output" where
  "refused_output d = no_output\<lparr>ro_status := ''refused'', ro_rule := d_rule d, ro_reason := Text (d_reason d),
     ro_action := ''this command is refused by a local safety rule; no approval rung overrides it, so use a different command'',
     ro_next := Some NextStop\<rparr>"

definition after_gate ::
  "'f tools \<Rightarrow> workspace \<Rightarrow> command_input \<Rightarrow> string option \<Rightarrow> gverdict \<Rightarrow> desk
     \<Rightarrow> (tool_error + 'f run_output) \<times> (string \<times> work) option \<times> desk" where
  "after_gate cf w rq fresh v st =
     (case v_need v of
        Refused \<Rightarrow> (Inr (refused_output (rule_of cf w rq)), None, audit_exec cf w rq ''refused'' (rule_of cf w rq) st)
      | Approval \<Rightarrow>
          (case confirm_command cf w rq v st of
             (Inl e, st1) \<Rightarrow> (Inl e, None, st1)
           | (Inr (Some out), st1) \<Rightarrow> (Inr out, None, st1)
           | (Inr None, st1) \<Rightarrow> start_command cf w rq fresh st1)
      | Allowed \<Rightarrow> start_command cf w rq fresh st)"

definition run_command ::
  "'f tools \<Rightarrow> command_input \<Rightarrow> string option \<Rightarrow> desk
     \<Rightarrow> (tool_error + 'f run_output) \<times> (string \<times> work) option \<times> desk" where
  "run_command cf rq fresh st =
     (if \<not> (tl_exec cf \<and> tl_tasks cf \<and> tl_gate cf) then (Inl ToolUnavailable, None, st)
      else if ci_command rq = [] then (Inl NoProgram, None, st)
      else if max_command_args < length (ci_command rq) then (Inl (TooManyArgs (length (ci_command rq))), None, st)
      else (case tl_open cf (ci_workspace rq) of
          Inl e \<Rightarrow> (Inl (NoWorkspace e), None, st)
        | Inr w \<Rightarrow>
            if \<not> ws_writable w then (Inl (ReadOnlyWorkspace (ws_name w)), None, st)
            else (case gate_verdict cf w rq st of
                Inl e \<Rightarrow> (Inl (GateFailed e), None, st)
              | Inr v \<Rightarrow> after_gate cf w rq fresh v st)))"

definition code_task ::
  "'f tools \<Rightarrow> delegation_input \<Rightarrow> string option \<Rightarrow> desk
     \<Rightarrow> (tool_error + 'f run_output) \<times> (string \<times> work) option \<times> desk" where
  "code_task cf rq fresh st =
     (if \<not> (tl_registry cf \<and> tl_tasks cf \<and> tl_gate cf) then (Inl ToolUnavailable, None, st)
      else if trim_space (di_prompt rq) = [] then (Inl NoPrompt, None, st)
      else (case tl_open cf (di_workspace rq) of
          Inl e \<Rightarrow> (Inl (NoWorkspace e), None, st)
        | Inr w \<Rightarrow>
            if \<not> ws_writable w then (Inl (ReadOnlyWorkspace (ws_name w)), None, st)
            else (case tl_agents cf (di_agent rq) of
                Inl e \<Rightarrow> (Inl (AgentMissing e), None, st)
              | Inr agent \<Rightarrow>
                  (case confirm_delegation cf w agent rq st of
                     (Inl e, st1) \<Rightarrow> (Inl e, None, st1)
                   | (Inr (Some out), st1) \<Rightarrow> (Inr out, None, st1)
                   | (Inr None, st1) \<Rightarrow>
                       (case run_task cf fresh
                          \<lparr>mt_key = command_key cf (ws_id w) (di_dir rq) [''code_task'', agent, di_prompt rq],
                           mt_label = agent @ '': '' @ first_line (di_prompt rq), mt_dir = di_dir rq,
                           mt_provider = tl_provider cf, mt_network = [], mt_workspace = [],
                           mt_budget = code_task_budget, mt_id = []\<rparr>
                          (AgentWork \<lparr>ag_name = agent, ag_prompt = di_prompt rq, ag_root = ws_root w,
                             ag_dir = di_dir rq, ag_model = di_model rq, ag_network = ws_network w\<rparr>) st1 of
                          (Inl e, started, st2) \<Rightarrow> (Inl (TaskRefused e), started, st2)
                        | (Inr s, started, st2) \<Rightarrow>
                            (let res = from_snapshot cf (Some w) s in
                             (Inr (if ro_status res = ''running''
                                   then res\<lparr>ro_action := ''the agent is working; call task_status with this task_id and the returned cursors to follow it''\<rparr>
                                   else res), started, st2)))))))"

section \<open>Asking later\<close>

text \<open>A workspace is reopened by its own identifier, which is not empty.\<close>

definition recall_output :: "string \<Rightarrow> exec_event \<Rightarrow> 'f run_output" where
  "recall_output i e =
     (let state = state_from_outcome (ee_outcome e)
      in no_output\<lparr>ro_status := ''completed'', ro_task := i, ro_state := state_text state, ro_exit := Some (ee_exit e),
           ro_duration_ms := ee_duration_ms e, ro_reason := Text (ee_reason e),
           ro_action := (if state = TInterrupted then ''Fylane restarted while this command was running; its output is gone and its effect is unknown, so check the workspace before acting on it'' else []),
           ro_next := task_step state\<rparr>)"

definition recall_run :: "'f tools \<Rightarrow> string \<Rightarrow> desk \<Rightarrow> 'f run_output option \<times> desk" where
  "recall_run cf i st =
     (if \<not> tl_recalls cf then (None, st)
      else (case find_run i (dk_log st) of
          (Inl e, l) \<Rightarrow> (None, st\<lparr>dk_log := l\<rparr>)
        | (Inr None, l) \<Rightarrow> (None, st\<lparr>dk_log := l\<rparr>)
        | (Inr (Some e), l) \<Rightarrow> (Some (recall_output i e), st\<lparr>dk_log := l\<rparr>)))"

definition task_status ::
  "'f tools \<Rightarrow> string \<Rightarrow> int \<Rightarrow> int \<Rightarrow> desk \<Rightarrow> (tool_error + 'f run_output) \<times> desk" where
  "task_status cf i out_cursor err_cursor st =
     (if \<not> tl_tasks cf then (Inl ToolUnavailable, st)
      else if i = [] then (Inl NoTaskId, st)
      else (case status (dk_now st) i out_cursor err_cursor (dk_tasks st) of
          (Inl e, m) \<Rightarrow>
            (case recall_run cf i (st\<lparr>dk_tasks := m\<rparr>) of
               (Some out, st1) \<Rightarrow> (Inr out, st1)
             | (None, st1) \<Rightarrow> (Inl (TaskRefused e), st1))
        | (Inr s, m) \<Rightarrow>
            (Inr (from_snapshot cf (if sn_workspace s = [] then None
                    else (case tl_open cf (sn_workspace s) of Inl e \<Rightarrow> None | Inr w \<Rightarrow> Some w)) s),
             st\<lparr>dk_tasks := m\<rparr>)))"


section \<open>Nothing runs without leave\<close>

text \<open>The command needs nobody: the open rung below a disclosure, or a grant taken at the rung in force.\<close>

definition unasked :: "'f tools \<Rightarrow> workspace \<Rightarrow> command_input \<Rightarrow> desk \<Rightarrow> bool" where
  "unasked cf w rq st =
     (let d = d_verdict (rule_of cf w rq); rung = dk_rung st in
      if d = Block \<or> d = Disclose then False
      else if rung = open_rung then True
      else if d = Confirm \<or> rung = strict then False
      else granted (map_option (command_grant_for (tl_lookup_fault cf)) (dk_grants st)) (ws_id w) rung = Inr True)"

lemma gate_verdict_rule:
  "gate_verdict cf w rq st = Inr v \<Longrightarrow> v_rule v = rule_of cf w rq"
  by (auto simp: gate_verdict_def decide_def Let_def split: if_splits sum.splits bool.splits)

lemma gate_verdict_need:
  assumes "gate_verdict cf w rq st = Inr v"
  shows "(v_need v = Refused) = (d_verdict (rule_of cf w rq) = Block) \<and> (v_need v = Allowed) = unasked cf w rq st"
  using assms by (auto simp: gate_verdict_def unasked_def decide_def Let_def split: if_splits sum.splits bool.splits)

lemma acquire_names:
  assumes "acquire fresh now meta m0 = (Inr (i, True), m)" and "fresh = Some (mt_id meta)"
  shows "i = mt_id meta"
  using assms by (auto simp: acquire_def Let_def split: if_splits option.splits)

lemma start_command_work:
  assumes "start_command cf w rq fresh st = (r, Some (i, job), st')"
  shows "\<exists>limit. run_timeout (tl_ceiling cf) (ci_timeout rq) = Some limit \<and> fresh = Some i
    \<and> job = CommandWork (spec_of cf w rq limit i)"
proof -
  obtain limit run where l: "run_timeout (tl_ceiling cf) (ci_timeout rq) = Some limit" and f: "fresh = Some run"
    using assms by (auto simp: start_command_def split: option.splits)
  define meta where "meta = \<lparr>mt_key = command_key cf (ws_id w) (ci_dir rq) (ci_command rq), mt_label = joined (ci_command rq),
      mt_dir = ci_dir rq, mt_provider = tl_provider cf, mt_network = reach (tl_net cf) (ws_network w),
      mt_workspace = ws_id w, mt_budget = 0, mt_id = run\<rparr>"
  obtain a m where a: "acquire fresh (dk_now st) meta (dk_tasks st) = (a, m)"
    by (cases "acquire fresh (dk_now st) meta (dk_tasks st)")
  from assms l f a obtain j where "a = Inr (j, True)" "i = j" "job = CommandWork (spec_of cf w rq limit run)"
    by (auto simp: start_command_def run_task_def meta_def Let_def split: sum.splits prod.splits if_splits)
  moreover have "j = run" using acquire_names [of fresh "dk_now st" meta "dk_tasks st" j m] a f \<open>a = Inr (j, True)\<close>
    by (simp add: meta_def)
  ultimately show ?thesis using l f by simp
qed

lemma confirm_command_leave:
  assumes "confirm_command cf w rq v st = (Inr None, st')"
  shows "\<exists>ask dec st1. tl_approver cf = Some ask \<and> ask (command_request cf w rq v) st = (Inr dec, st1) \<and> ad_approved dec"
  using assms by (auto simp: confirm_command_def split: option.splits prod.splits sum.splits if_splits)

lemma after_gate_leave:
  assumes run: "after_gate cf w rq fresh v st = (r, Some (i, job), st')" and v: "gate_verdict cf w rq st = Inr v"
  shows "\<exists>limit. (if unasked cf w rq st then True
        else \<exists>ask dec st1. tl_approver cf = Some ask \<and> ask (command_request cf w rq v) st = (Inr dec, st1) \<and> ad_approved dec)
      \<and> run_timeout (tl_ceiling cf) (ci_timeout rq) = Some limit \<and> job = CommandWork (spec_of cf w rq limit i)
      \<and> d_verdict (rule_of cf w rq) \<noteq> Block"
proof (cases "v_need v")
  case Approval
  then obtain st1 where "confirm_command cf w rq v st = (Inr None, st1)" "start_command cf w rq fresh st1 = (r, Some (i, job), st')"
    using run by (auto simp: after_gate_def split: prod.splits sum.splits option.splits)
  with confirm_command_leave start_command_work gate_verdict_need [OF v] Approval show ?thesis by fastforce
next
  case Allowed
  with run gate_verdict_need [OF v] start_command_work show ?thesis by (fastforce simp: after_gate_def)
qed (use run in \<open>simp add: after_gate_def\<close>)

lemma run_command_leave:
  assumes "run_command cf rq fresh st = (r, Some (i, job), st')"
  obtains w v limit where "tl_open cf (ci_workspace rq) = Inr w" "ws_writable w" "d_verdict (rule_of cf w rq) \<noteq> Block"
    "gate_verdict cf w rq st = Inr v"
    "if unasked cf w rq st then True
     else \<exists>ask dec st1. tl_approver cf = Some ask \<and> ask (command_request cf w rq v) st = (Inr dec, st1) \<and> ad_approved dec"
    "run_timeout (tl_ceiling cf) (ci_timeout rq) = Some limit" "job = CommandWork (spec_of cf w rq limit i)"
    "ci_command rq \<noteq> []"
proof -
  have "ci_command rq \<noteq> []"
    using assms by (cases "ci_command rq") (simp_all add: run_command_def split: if_split_asm)
  moreover obtain w v where "tl_open cf (ci_workspace rq) = Inr w" "ws_writable w" "gate_verdict cf w rq st = Inr v"
    "after_gate cf w rq fresh v st = (r, Some (i, job), st')"
    using assms by (auto simp: run_command_def split: sum.splits if_splits)
  moreover from after_gate_leave [OF this(4,3)] obtain limit where
    "if unasked cf w rq st then True
     else \<exists>ask dec st1. tl_approver cf = Some ask \<and> ask (command_request cf w rq v) st = (Inr dec, st1) \<and> ad_approved dec"
    "run_timeout (tl_ceiling cf) (ci_timeout rq) = Some limit" "job = CommandWork (spec_of cf w rq limit i)"
    "d_verdict (rule_of cf w rq) \<noteq> Block" by blast
  ultimately show ?thesis by (intro that)
qed

text \<open>
  C5. A command is set going only with leave. Whenever the tool starts work, the workspace opened
  and is writable, the rule table does not block the command, and either it needed nobody or
  the approver was shown exactly this command in this directory and said yes. What is started
  is that command, under the identifier of its task, within the bounds of the call.
\<close>
theorem command_needs_leave:
  "case run_command cf rq fresh st of (r, started, st') \<Rightarrow>
     (case started of
        None \<Rightarrow> True
      | Some (i, job) \<Rightarrow>
          (\<exists>w v limit. tl_open cf (ci_workspace rq) = Inr w \<and> ws_writable w \<and> d_verdict (rule_of cf w rq) \<noteq> Block
             \<and> gate_verdict cf w rq st = Inr v
             \<and> (if unasked cf w rq st then True
                else \<exists>ask dec st1. tl_approver cf = Some ask \<and> ask (command_request cf w rq v) st = (Inr dec, st1)
                       \<and> ad_approved dec)
             \<and> run_timeout (tl_ceiling cf) (ci_timeout rq) = Some limit
             \<and> job = CommandWork (spec_of cf w rq limit i)))"
proof -
  obtain r started st' where run: "run_command cf rq fresh st = (r, started, st')" by (cases "run_command cf rq fresh st")
  show ?thesis
  proof (cases started)
    case None
    with run show ?thesis by simp
  next
    case (Some x)
    obtain i job where x: "x = (i, job)" by (cases x)
    from run_command_leave [OF run [unfolded Some x]] show ?thesis
      unfolding run Some x prod.case option.case by metis
  qed
qed

lemma duration_fits:
  assumes "0 < secs" and "secs \<le> 9223372036"
  shows "duration_of_secs secs = secs * second"
proof -
  have "signed_take_bit 63 (secs * second) = secs * second"
    by (rule signed_take_bit_int_eq_self) (use assms in simp_all)
  then show ?thesis unfolding duration_of_secs_def sint_sbintrunc' by simp
qed

text \<open>
  C33. The bound on a run, whatever the caller asks for: what is started is limited to fifteen
  minutes. The user's ceiling binds every number of seconds whose nanoseconds fit 64 bits; one
  past that, the product is negative, no ceiling applies and the engine's own default does.
\<close>
theorem run_time_is_bounded:
  "(case run_timeout ceiling secs of
      None \<Rightarrow> True
    | Some t \<Rightarrow> 0 < clamp_timeout t \<and> clamp_timeout t \<le> 15 * minute
        \<and> (if secs \<le> 9223372036 then (case ceiling of None \<Rightarrow> True | Some c \<Rightarrow> if 0 < c then 0 < t \<and> t \<le> c else True) else True))
   \<and> map_option clamp_timeout (run_timeout (Some (20 * second)) 9223372037) = Some (50 * second)"
proof -
  have "duration_of_secs 9223372037 = - 9223372036709551616" by (simp add: duration_of_secs_def)
  then have over: "map_option clamp_timeout (run_timeout (Some (20 * second)) 9223372037) = Some (50 * second)"
    by (simp add: run_timeout_def max_command_timeout_def clamp_timeout_def default_timeout_def max_timeout_def Let_def)
  have clamp: "0 < clamp_timeout t \<and> clamp_timeout t \<le> 15 * minute" if "t \<le> 15 * minute" for t
    using that by (simp add: clamp_timeout_def default_timeout_def max_timeout_def Let_def)
  show ?thesis
  proof (cases "run_timeout ceiling secs")
    case None
    with over show ?thesis by simp
  next
    case (Some t)
    then have t: "t \<le> 15 * minute"
      by (auto simp: run_timeout_def max_command_timeout_def Let_def split: if_splits option.splits)
    have "case ceiling of None \<Rightarrow> True | Some c \<Rightarrow> if 0 < c then 0 < t \<and> t \<le> c else True" if "secs \<le> 9223372036"
      using Some that duration_fits [of secs] by (auto simp: run_timeout_def default_timeout_def Let_def split: if_splits option.splits)
    with Some clamp [OF t] over show ?thesis by simp
  qed
qed

section \<open>Grants\<close>

text \<open>The question a call asks: none unless every guard before it holds.\<close>

definition question ::
  "'f tools \<Rightarrow> command_input \<Rightarrow> desk
     \<Rightarrow> (workspace \<times> gverdict \<times> (approval_request \<Rightarrow> desk \<Rightarrow> (string + approval_decision) \<times> desk)) option" where
  "question cf rq st =
     (if tl_exec cf \<and> tl_tasks cf \<and> tl_gate cf \<and> ci_command rq \<noteq> [] \<and> length (ci_command rq) \<le> max_command_args then
        (case tl_open cf (ci_workspace rq) of
           Inl e \<Rightarrow> None
         | Inr w \<Rightarrow>
             if ws_writable w then
               (case (gate_verdict cf w rq st, tl_approver cf) of
                  (Inr v, Some ask) \<Rightarrow> if v_need v = Approval then Some (w, v, ask) else None
                | _ \<Rightarrow> None)
             else None)
      else None)"

definition answered_yes :: "string + approval_decision \<Rightarrow> bool" where
  "answered_yes r = (case r of Inl e \<Rightarrow> False | Inr dec \<Rightarrow> ad_approved dec)"

lemma start_command_grants [simp]: "dk_grants (snd (snd (start_command cf w rq fresh st))) = dk_grants st"
  by (simp add: start_command_def run_task_def Let_def split: option.splits prod.splits sum.splits)

lemma audit_exec_grants [simp]: "dk_grants (audit_exec cf w rq outcome d st) = dk_grants st"
  by (simp add: audit_exec_def)

lemma confirm_grants:
  assumes "tl_approver cf = Some ask" and "ask (command_request cf w rq v) st = (r, st1)"
  shows "dk_grants (snd (confirm_command cf w rq v st)) =
    (if v_grant v \<and> answered_yes r
     then fst (gate_grant (dk_rung st1) (tl_grant_fault cf) (dk_now st1) (dk_grants st1) (ws_id w))
     else dk_grants st1)"
  using assms by (auto simp: confirm_command_def answered_yes_def split: sum.splits prod.splits option.splits)

lemma after_gate_grants:
  "dk_grants (snd (snd (after_gate cf w rq fresh v st))) =
     (if v_need v = Approval then dk_grants (snd (confirm_command cf w rq v st)) else dk_grants st)"
proof (cases "v_need v")
  case Approval
  obtain a st1 where c: "confirm_command cf w rq v st = (a, st1)" by (cases "confirm_command cf w rq v st")
  with Approval c show ?thesis
    by (cases a) (auto simp: after_gate_def split: option.splits)
qed (simp_all add: after_gate_def)

text \<open>
  C32. The grants after a call, exactly. A call that asks nothing leaves them; one that asks leaves
  what its prompt left, and only a yes to a question that offered the grant files one for the
  workspace, at the rung in force when the answer came.
\<close>
theorem grants_follow_the_answer:
  "dk_grants (snd (snd (run_command cf rq fresh st))) =
     (case question cf rq st of
        None \<Rightarrow> dk_grants st
      | Some (w, v, ask) \<Rightarrow>
          (case ask (command_request cf w rq v) st of
             (r, st1) \<Rightarrow>
               if v_grant v \<and> answered_yes r
               then fst (gate_grant (dk_rung st1) (tl_grant_fault cf) (dk_now st1) (dk_grants st1) (ws_id w))
               else dk_grants st1))"
proof -
  have noone: "dk_grants (snd (confirm_command cf w rq v st)) = dk_grants st" if "tl_approver cf = None" for w v
    using that by (simp add: confirm_command_def)
  show ?thesis
    by (cases "tl_approver cf") (auto simp: run_command_def question_def after_gate_grants noone confirm_grants
        split: prod.splits sum.splits)
qed

section \<open>Which calls are the same call\<close>

lemma key_text_join: "key_text p w d argv = join_with [nul] (p # w # d # argv)"
proof -
  have "join_with [nul] (x # xs) = x @ concat (map (\<lambda>a. nul # a) xs)" for x xs
    by (induction xs arbitrary: x) simp_all
  then show ?thesis by (simp add: key_text_def)
qed

text \<open>
  C35. The key of a call hashes its identity: for texts without a NUL byte, two calls with the same
  text are the same caller, workspace, directory and argv. A NUL byte in an argument is not
  told from the boundary between two.
\<close>
theorem key_text_identity:
  "(if list_all (\<lambda>s. nul \<notin> set s) ([p, w, d, p', w', d'] @ argv @ argv')
    then (key_text p w d argv = key_text p' w' d' argv') = ((p, w, d, argv) = (p', w', d', argv'))
    else True)
   \<and> key_text p w d [a @ nul # b] = key_text p w d [a, b]
   \<and> key_text p w (d @ nul # a) argv = key_text p w d (a # argv)"
proof -
  have "(key_text p w d argv = key_text p' w' d' argv') = ((p, w, d, argv) = (p', w', d', argv'))"
    if "list_all (\<lambda>s. nul \<notin> set s) ([p, w, d, p', w', d'] @ argv @ argv')"
  proof
    assume "key_text p w d argv = key_text p' w' d' argv'"
    then have "split_on nul (join_with [nul] (p # w # d # argv)) = split_on nul (join_with [nul] (p' # w' # d' # argv'))"
      unfolding key_text_join by (rule arg_cong)
    moreover have "split_on nul (join_with [nul] (p # w # d # argv)) = p # w # d # argv"
      "split_on nul (join_with [nul] (p' # w' # d' # argv')) = p' # w' # d' # argv'"
      by (rule split_join; use that in \<open>auto simp: list_all_iff\<close>)+
    ultimately show "(p, w, d, argv) = (p', w', d', argv')" by simp
  qed simp
  then show ?thesis by (auto simp: key_text_def)
qed

section \<open>Delegation\<close>

lemma confirm_delegation_leave:
  assumes "confirm_delegation cf w agent rq st = (Inr None, st')"
  shows "if dlg_granted (dk_delegations st) (dk_now st) (ws_id w) agent then True
    else \<exists>ask dec st1. tl_approver cf = Some ask \<and> ask (delegation_request cf w agent rq st) st = (Inr dec, st1) \<and> ad_approved dec"
  using assms by (auto simp: confirm_delegation_def split: option.splits prod.splits sum.splits if_splits)

lemma run_task_job: "run_task cf fresh meta j s = (x, Some (i, job), s') \<Longrightarrow> job = j"
  by (auto simp: run_task_def Let_def split: prod.splits sum.splits if_splits)

text \<open>
  C34. An agent is set going only with leave: in a writable workspace, by an earlier yes to this
  agent here that has not run out, or after a yes to exactly this prompt. It gets the
  workspace's own network flag.
\<close>
theorem agent_needs_leave:
  "case code_task cf rq fresh st of (r, started, st') \<Rightarrow>
     (case started of
        None \<Rightarrow> True
      | Some (i, job) \<Rightarrow>
          (\<exists>w agent. tl_open cf (di_workspace rq) = Inr w \<and> ws_writable w \<and> tl_agents cf (di_agent rq) = Inr agent
             \<and> (if dlg_granted (dk_delegations st) (dk_now st) (ws_id w) agent then True
                else \<exists>ask dec st1. tl_approver cf = Some ask \<and> ask (delegation_request cf w agent rq st) st = (Inr dec, st1)
                       \<and> ad_approved dec)
             \<and> job = AgentWork \<lparr>ag_name = agent, ag_prompt = di_prompt rq, ag_root = ws_root w, ag_dir = di_dir rq,
                 ag_model = di_model rq, ag_network = ws_network w\<rparr>))"
  by (auto simp: code_task_def Let_def split: prod.splits option.splits sum.splits if_splits)
    (use confirm_delegation_leave run_task_job in \<open>fastforce split: if_splits\<close>)+

section \<open>The answer before and after a restart\<close>

lemma run_child_timed_out:
  "run_child rn sp dir_abs prog = Inr (pe, res) \<Longrightarrow> rs_timed_out res = (pe_deadline pe \<and> \<not> pe_ctx_done pe)"
  by (auto simp: run_child_def Let_def split_beta split: sum.splits)











end
