(* ===== verification/GatedCommands.thy ===== *)
theory GatedCommands
  imports RunCommand GatedWrites
begin

text \<open>
  The command tools (\<^verbatim>\<open>mcpserver/exec.go\<close>) with the approval service (\<^verbatim>\<open>approval/approval.go\<close>) as their
  approver and the runner (\<^verbatim>\<open>cmdexec/cmdexec.go\<close>) behind their tasks, the way \<^verbatim>\<open>app/app.go\<close> wires
  them.
\<close>

text \<open>
  The service as the tools' approver: the call joins the world \<open>w\<close>, the events \<open>es\<close> happen
  while it waits, and \<open>left\<close> is what the user does to the desk meanwhile.
\<close>

definition asked_desk ::
  "budgets \<Rightarrow> world \<Rightarrow> event list \<Rightarrow> (desk \<Rightarrow> desk) \<Rightarrow> approval_request \<Rightarrow> desk \<Rightarrow> (string + approval_decision) \<times> desk" where
  "asked_desk b w es left req st = (Inr (answer_to req w (play b (Call req # es) w)), left st)"

lemma no_policy_for_commands:
  assumes "answer_ok verdicts (req, d)" and "ad_approved d" and "ar_command req \<noteq> []"
  shows "\<exists>d'. ad_approved d' \<and> (ar_change_set req, d') \<in> set verdicts"
  using assms by (auto simp: answer_ok_def may_pass_def)

text \<open>
  C4. No policy starts a command. With the approval service as approver, at any point of any history,
  in every mode and with any events during the wait: a command that was started either needed
  nobody, or \<open>Resolve\<close> recorded a person's yes under the key of this very question.
\<close>
theorem started_commands_had_a_yes:
  assumes "new_service m b' = Inr s0" and "history b s0 w"
    and "tl_approver cf = Some (asked_desk b w es left)"
    and "run_command cf rq fresh st = (r, Some (i, job), st')"
  shows "\<exists>x v. tl_open cf (ci_workspace rq) = Inr x \<and> gate_verdict cf x rq st = Inr v
    \<and> (let req = command_request cf x rq v in
       if unasked cf x rq st then True
       else \<exists>d. ad_approved d \<and> (ar_change_set req, d) \<in> set (w_verdicts (play b (Call req # es) w)))"
proof -
  obtain x v where x: "tl_open cf (ci_workspace rq) = Inr x" "gate_verdict cf x rq st = Inr v" "ci_command rq \<noteq> []"
    and leave: "if unasked cf x rq st then True
     else \<exists>ask dec st1. tl_approver cf = Some ask \<and> ask (command_request cf x rq v) st = (Inr dec, st1) \<and> ad_approved dec"
    by (rule run_command_leave [OF assms(4)])
  let ?req = "command_request cf x rq v"
  let ?w' = "play b (Call ?req # es) w"
  have "\<exists>d. ad_approved d \<and> (ar_change_set ?req, d) \<in> set (w_verdicts ?w')" if "\<not> unasked cf x rq st"
  proof -
    from that leave assms(3) have yes: "ad_approved (answer_to ?req w ?w')" by (auto simp: asked_desk_def)
    have "world_inv ?w'" using history_inv [OF history_play [OF assms(2)] assms(1)] .
    with answer_to_logged [OF yes] have ok: "answer_ok (w_verdicts ?w') (?req, answer_to ?req w ?w')"
      by (auto simp: world_inv_def)
    show ?thesis by (rule no_policy_for_commands [OF ok yes]) (use x(3) in \<open>simp add: command_request_def\<close>)
  qed
  with x show ?thesis by (auto simp: Let_def)
qed

text \<open>A caller on the strict rung, and a user who reads the prompt and says yes.\<close>

definition go_workspace :: workspace where
  "go_workspace = \<lparr>ws_id = ''ws_1'', ws_name = ''w'', ws_root = ''/w'', ws_writable = True, ws_exclude = [],
     ws_sensitive = [], ws_network = False\<rparr>"

definition go_tools :: "(approval_request \<Rightarrow> desk \<Rightarrow> (string + approval_decision) \<times> desk) \<Rightarrow> unit tools" where
  "go_tools ask = \<lparr>tl_exec = True, tl_tasks = True, tl_gate = True, tl_registry = False, tl_unicode = plain_unicode,
     tl_provider = ''claude'', tl_sha = (\<lambda>s. ''k''), tl_open = (\<lambda>i. Inr go_workspace), tl_approver = Some ask,
     tl_lookup_fault = None, tl_grant_fault = None, tl_ceiling = None, tl_audits = True, tl_recalls = True,
     tl_agents = (\<lambda>a. Inl ''none''), tl_net = NetEnforced, tl_enforcing = True, tl_wait = (\<lambda>n t. (n, t, t, t)),
     tl_redact = (\<lambda>s. s), tl_observe = (\<lambda>x out err. None)\<rparr>"

definition go_input :: command_input where
  "go_input = \<lparr>ci_workspace = ''ws_1'', ci_command = [''go'', ''test''], ci_dir = ''src'', ci_timeout = 0\<rparr>"

definition strict_desk :: desk where
  "strict_desk = \<lparr>dk_rung = strict, dk_grants = None, dk_delegations = None,
     dk_tasks = new_manager \<lparr>op_budget = 0, op_max_output = 0, op_retention = 0, op_max_tasks = 0, op_max_runtime = 0\<rparr>,
     dk_log = no_rows, dk_now = 0\<rparr>"

abbreviation says_yes_to_go :: "event list" where
  "says_yes_to_go \<equiv> [Lookup ''cmd:k'' True [], Decide 0, Filed 0, Answered 0]"

abbreviation go_asker :: "approval_request \<Rightarrow> desk \<Rightarrow> (string + approval_decision) \<times> desk" where
  "go_asker \<equiv> asked_desk default_budgets (start_world 0 safe_service) says_yes_to_go (\<lambda>st. st)"

definition go_verdict :: gverdict where
  "go_verdict = \<lparr>v_need = Approval, v_grant = False, v_rung = strict, v_rule = allow_decision\<rparr>"

lemma go_rule: "rule_of (go_tools f) go_workspace go_input = allow_decision"
  by (simp add: rule_of_def go_tools_def go_workspace_def go_input_def) code_simp

lemma go_gate: "gate_verdict (go_tools f) go_workspace go_input strict_desk = Inr go_verdict"
  by (simp add: gate_verdict_def go_rule decide_def strict_desk_def go_verdict_def)

lemma go_answer:
  "ad_approved (answer_to (command_request (go_tools f) go_workspace go_input go_verdict) (start_world 0 safe_service)
     (play default_budgets (Call (command_request (go_tools f) go_workspace go_input go_verdict) # says_yes_to_go)
       (start_world 0 safe_service)))"
  by (simp add: command_request_def command_key_def go_tools_def) code_simp

lemma empty_purge: "mg_tasks m = [] \<Longrightarrow> 0 \<le> mg_max_tasks m \<Longrightarrow> purge now m = m"
  by (simp add: purge_def forget_all_def)

lemma first_acquire:
  assumes "mg_tasks m = []" "mg_by_key m = []" "\<not> mg_closed m" "0 \<le> mg_max_tasks m" "mt_id meta \<noteq> []"
  shows "\<exists>m'. acquire fresh now meta m = (Inr (mt_id meta, True), m')"
  using assms by (simp add: acquire_def empty_purge in_flight_def Let_def)

lemma go_started:
  "\<exists>r st'. run_command (go_tools go_asker) go_input (Some ''r1'') strict_desk =
     (r, Some (''r1'', CommandWork (spec_of (go_tools go_asker) go_workspace go_input default_timeout ''r1'')), st')"
proof -
  have c: "confirm_command (go_tools go_asker) go_workspace go_input go_verdict strict_desk = (Inr None, strict_desk)"
    using go_answer [of go_asker]
    by (simp add: confirm_command_def asked_desk_def go_verdict_def go_tools_def [of go_asker])
  have tm: "run_timeout None 0 = Some default_timeout"
    by (simp add: run_timeout_def default_timeout_def max_command_timeout_def)
  have m: "mg_tasks (dk_tasks strict_desk) = []" "mg_by_key (dk_tasks strict_desk) = []" "\<not> mg_closed (dk_tasks strict_desk)"
    "0 \<le> mg_max_tasks (dk_tasks strict_desk)"
    by (simp_all add: strict_desk_def new_manager_def or_default_def)
  have s: "\<exists>r st'. start_command (go_tools go_asker) go_workspace go_input (Some ''r1'') strict_desk =
     (r, Some (''r1'', CommandWork (spec_of (go_tools go_asker) go_workspace go_input default_timeout ''r1'')), st')"
    unfolding start_command_def run_task_def
    using first_acquire [OF m, of "\<lparr>mt_key = command_key (go_tools go_asker) (ws_id go_workspace) (ci_dir go_input) (ci_command go_input),
        mt_label = joined (ci_command go_input), mt_dir = ci_dir go_input, mt_provider = tl_provider (go_tools go_asker),
        mt_network = reach (tl_net (go_tools go_asker)) (ws_network go_workspace), mt_workspace = ws_id go_workspace,
        mt_budget = 0, mt_id = ''r1''\<rparr>" "Some ''r1''" "dk_now strict_desk"]
    by (auto simp: go_tools_def [of go_asker] go_input_def [THEN arg_cong [where f = ci_timeout]] tm Let_def split: prod.splits)
  have v: "v_need go_verdict = Approval" by (simp add: go_verdict_def)
  have sel: "tl_exec (go_tools go_asker)" "tl_tasks (go_tools go_asker)" "tl_gate (go_tools go_asker)"
    "tl_open (go_tools go_asker) (ci_workspace go_input) = Inr go_workspace" "ws_writable go_workspace"
    "ci_command go_input \<noteq> []" "\<not> max_command_args < length (ci_command go_input)"
    by (simp_all add: go_tools_def go_workspace_def go_input_def max_command_args_def)
  have "run_command (go_tools go_asker) go_input (Some ''r1'') strict_desk
      = start_command (go_tools go_asker) go_workspace go_input (Some ''r1'') strict_desk"
    unfolding run_command_def by (simp add: sel go_gate after_gate_def v c)
  with s show ?thesis by simp
qed

theorem started_commands_had_a_yes_witness:
  "\<exists>d. ad_approved d \<and> (''cmd:k'', d) \<in> set (w_verdicts (play default_budgets
     (Call (command_request (go_tools go_asker) go_workspace go_input go_verdict) # says_yes_to_go) (start_world 0 safe_service)))"
proof -
  obtain r st' where run: "run_command (go_tools go_asker) go_input (Some ''r1'') strict_desk =
     (r, Some (''r1'', CommandWork (spec_of (go_tools go_asker) go_workspace go_input default_timeout ''r1'')), st')"
    using go_started by blast
  have u: "\<not> unasked (go_tools go_asker) go_workspace go_input strict_desk"
    by (simp add: unasked_def go_rule strict_desk_def)
  have k: "ar_change_set (command_request (go_tools go_asker) go_workspace go_input go_verdict) = ''cmd:k''"
    by (simp add: command_request_def command_key_def go_tools_def go_verdict_def)
  have ap: "tl_approver (go_tools go_asker) = Some go_asker"
    and op: "tl_open (go_tools go_asker) (ci_workspace go_input) = Inr go_workspace" by (simp_all add: go_tools_def)
  show ?thesis
    using started_commands_had_a_yes [OF safe_service_new history.start ap run] u go_gate [of go_asker] k
    by (simp add: op Let_def)
qed

end
