(* ===== verification/TxnRollback.thy ===== *)
theory TxnRollback
  imports TxnEngine
begin

text \<open>
  Taking an applied change set back (\<^verbatim>\<open>txn/rollback.go\<close>): the inverse steps are planned from the
  journal's row, the hashes it holds and the backup area, approved like any other write, and
  run in reverse order.
\<close>

section \<open>Planning the inverse\<close>

datatype back_status = RemovedBack | Restored | MovedBack

record rollback_step =
  rb_type :: op_type
  rb_path :: string
  rb_status :: back_status
  rb_run :: undo
  rb_preview :: op_preview

text \<open>A conflict that may carry the pre-image, shown to the caller as a diff.\<close>

record shown_conflict = conflict +
  cf_shown :: "string option"

datatype rollback_error =
    RbReadOnly | RbBusy | RbUnknown | RbDatabase | RbWrongWorkspace | RbPath path_error
  | RbBackupMissing string os_error | RbBackupUnreadable string os_error | RbApproval string | RbJournal

definition backup_file :: "engine \<Rightarrow> change_set \<Rightarrow> string \<Rightarrow> path" where
  "backup_file en rec p = segs (path_join [path_join [en_backup_root en, cs_backup rec, ''files''], p])"

definition backup_content :: "engine \<Rightarrow> change_set \<Rightarrow> disk \<Rightarrow> string \<Rightarrow> string" where
  "backup_content en rec d p = (case read_file d (backup_file en rec p) of Inl e \<Rightarrow> [] | Inr c \<Rightarrow> c)"

definition file_mode_or :: "disk \<Rightarrow> path \<Rightarrow> nat \<Rightarrow> nat" where
  "file_mode_or d p fallback = (case follow d p of Inr (q, n) \<Rightarrow> perm_of n | Inl e \<Rightarrow> fallback)"

definition changed_conflict :: "unicode \<Rightarrow> workspace \<Rightarrow> string \<Rightarrow> string \<Rightarrow> string \<Rightarrow> shown_conflict" where
  "changed_conflict u w p current restore =
     \<lparr>cf_path = p, cf_reason = ''changed_since_apply'', cf_current = current,
      cf_shown = (if restore = [] then None else if sensitive u w p then None else Some restore)\<rparr>"

definition after_hash :: "change_set \<Rightarrow> string \<Rightarrow> string" where
  "after_hash rec p = (case map_of (cs_after rec) p of None \<Rightarrow> [] | Some h \<Rightarrow> h)"

type_synonym step_plan = "rollback_error + (shown_conflict + rollback_step option)"

abbreviation step_conflict :: "shown_conflict \<Rightarrow> step_plan" where "step_conflict c \<equiv> Inr (Inl c)"
abbreviation step_planned :: "rollback_step \<Rightarrow> step_plan" where "step_planned s \<equiv> Inr (Inr (Some s))"

definition back_write :: "engine \<Rightarrow> disk \<Rightarrow> workspace \<Rightarrow> change_set \<Rightarrow> operation \<Rightarrow> step_plan" where
  "back_write en d w rec op =
     (let u = en_unicode en; p = op_path op in
      case ws_resolve u d w p OpWrite of
        Inl e \<Rightarrow> Inl (RbPath e)
      | Inr (full, canon) \<Rightarrow>
          (let a = segs full; current = hash_file (en_sha en) d a in
           if current \<noteq> after_hash rec p
           then step_conflict (changed_conflict u w p current (backup_content en rec d p))
           else if op_kind op = Create then
             step_planned \<lparr>rb_type = Create, rb_path = p, rb_status = RemovedBack, rb_run = UndoRemove a,
               rb_preview = preview Delete p [] (sensitive u w p) False\<rparr>
           else (case read_file d (backup_file en rec p) of
               Inl e \<Rightarrow> Inl (RbBackupMissing p e)
             | Inr old \<Rightarrow>
                 step_planned \<lparr>rb_type = Update, rb_path = p, rb_status = Restored,
                   rb_run = UndoWrite a old (file_mode_or d a 420),
                   rb_preview = preview Update p [] (sensitive u w p) False\<rparr>)))"

definition back_move :: "engine \<Rightarrow> disk \<Rightarrow> workspace \<Rightarrow> change_set \<Rightarrow> operation \<Rightarrow> step_plan" where
  "back_move en d w rec op =
     (let u = en_unicode en in
      case ws_resolve u d w (op_from op) OpWrite of
        Inl e \<Rightarrow> Inl (RbPath e)
      | Inr (from_full, from_canon) \<Rightarrow>
          (case ws_resolve u d w (op_to op) OpDelete of
             Inl e \<Rightarrow> Inl (RbPath e)
           | Inr (to_full, to_canon) \<Rightarrow>
               (let a = segs from_full; b = segs to_full; current = hash_file (en_sha en) d b in
                if current \<noteq> after_hash rec (op_to op)
                then step_conflict (changed_conflict u w (op_to op) current [])
                else if (case lstat d a of
                           Inl e \<Rightarrow> False
                         | Inr n \<Rightarrow> (case lstat d b of Inl e \<Rightarrow> True | Inr n' \<Rightarrow> \<not> same_file d a b))
                then step_conflict (changed_conflict u w (op_from op) (hash_file (en_sha en) d a) [])
                else step_planned \<lparr>rb_type = Move, rb_path = op_from op, rb_status = MovedBack, rb_run = UndoRename b a,
                  rb_preview = preview Move (op_to op) (op_from op)
                    (sensitive u w (op_to op) \<or> sensitive u w (op_from op)) False\<rparr>)))"

definition back_delete :: "engine \<Rightarrow> disk \<Rightarrow> workspace \<Rightarrow> change_set \<Rightarrow> operation \<Rightarrow> step_plan" where
  "back_delete en d w rec op =
     (let u = en_unicode en; p = op_path op; backup = backup_file en rec p in
      case ws_resolve u d w p OpWrite of
        Inl e \<Rightarrow> Inl (RbPath e)
      | Inr (full, canon) \<Rightarrow>
          (let a = segs full in
           if lstat d a \<noteq> Inl ENOENT
           then step_conflict (changed_conflict u w p (hash_file (en_sha en) d a) (backup_content en rec d p))
           else (case follow d backup of
               Inl e \<Rightarrow> Inl (RbBackupMissing p e)
             | Inr (q, Dir) \<Rightarrow>
                 step_planned \<lparr>rb_type = Delete, rb_path = p, rb_status = Restored, rb_run = UndoTree backup a,
                   rb_preview = preview Create p [] (sensitive u w p) False\<rparr>
             | Inr (q, n) \<Rightarrow>
                 (case read_file d backup of
                    Inl e \<Rightarrow> Inl (RbBackupUnreadable p e)
                  | Inr data \<Rightarrow>
                      step_planned \<lparr>rb_type = Delete, rb_path = p, rb_status = Restored,
                        rb_run = UndoWrite a data (perm_of n),
                        rb_preview = preview Create p [] (sensitive u w p) False\<rparr>))))"

definition back_op :: "engine \<Rightarrow> disk \<Rightarrow> workspace \<Rightarrow> change_set \<Rightarrow> operation \<Rightarrow> step_plan" where
  "back_op en d w rec op =
     (case op_kind op of
        Create \<Rightarrow> back_write en d w rec op
      | Update \<Rightarrow> back_write en d w rec op
      | Move \<Rightarrow> back_move en d w rec op
      | Delete \<Rightarrow> back_delete en d w rec op
      | OtherOp t \<Rightarrow> Inr (Inr None))"

fun plan_steps ::
  "engine \<Rightarrow> disk \<Rightarrow> workspace \<Rightarrow> change_set \<Rightarrow> operation list \<Rightarrow> rollback_error + (shown_conflict + rollback_step list)" where
  "plan_steps en d w rec [] = Inr (Inr [])"
| "plan_steps en d w rec (op # ops) =
     (case back_op en d w rec op of
        Inl e \<Rightarrow> Inl e
      | Inr (Inl c) \<Rightarrow> Inr (Inl c)
      | Inr (Inr s) \<Rightarrow>
          (case plan_steps en d w rec ops of
             Inl e \<Rightarrow> Inl e
           | Inr (Inl c) \<Rightarrow> Inr (Inl c)
           | Inr (Inr ss) \<Rightarrow> Inr (Inr (case s of None \<Rightarrow> ss | Some x \<Rightarrow> x # ss))))"

definition plan_rollback ::
  "engine \<Rightarrow> disk \<Rightarrow> workspace \<Rightarrow> change_set \<Rightarrow> rollback_error + (shown_conflict + rollback_step list)" where
  "plan_rollback en d w rec = plan_steps en d w rec (rev (cs_operations rec))"

section \<open>Running it\<close>

fun apply_rollback :: "rollback_step list \<Rightarrow> disk \<Rightarrow> (string \<times> os_error) option \<times> disk" where
  "apply_rollback [] d = (None, d)"
| "apply_rollback (s # ss) d =
     (case run_undo (rb_run s) d of
        (Some e, d') \<Rightarrow> (Some (rb_path s, e), d')
      | (None, d') \<Rightarrow> apply_rollback ss d')"

definition rollback_request :: "workspace \<Rightarrow> change_set \<Rightarrow> rollback_step list \<Rightarrow> approval_request" where
  "rollback_request w rec steps =
     \<lparr>ar_change_set = ''rollback:'' @ cs_id rec, ar_workspace = ws_id w, ar_provider = cs_provider rec,
      ar_operations = map rb_preview steps, ar_kind = KindWrite, ar_must_ask = False,
      ar_command = [], ar_rule = [], ar_reason = [], ar_dir = [], ar_grant = False\<rparr>"

datatype rollback_reason =
    RbNoReason | RbSays string | RbCannot cs_status | RbExpired | RbFailedAt string os_error

record rollback_result =
  rr_status :: result_status
  rr_id :: string
  rr_operations :: "(string \<times> back_status) list"
  rr_conflict :: "shown_conflict option"
  rr_reason :: rollback_reason

definition back_result :: "result_status \<Rightarrow> string \<Rightarrow> rollback_result" where
  "back_result s cid = \<lparr>rr_status = s, rr_id = cid, rr_operations = [], rr_conflict = None, rr_reason = RbNoReason\<rparr>"

definition audit_rollback :: "change_set \<Rightarrow> rollback_step list \<Rightarrow> engine_state \<Rightarrow> engine_state" where
  "audit_rollback rec steps st =
     append_audit \<lparr>ae_change_set = cs_id rec, ae_type = ''change_set_rolled_back'', ae_path = []\<rparr>
       (fold (\<lambda>s. append_audit \<lparr>ae_change_set = cs_id rec, ae_type = ''rollback_'' @ type_name (rb_type s),
                               ae_path = rb_path s\<rparr>) steps st)"

definition take_back ::
  "change_set \<Rightarrow> rollback_step list \<Rightarrow> engine_state \<Rightarrow> (rollback_error + rollback_result) \<times> engine_state" where
  "take_back rec steps st =
     (case apply_rollback steps (es_disk st) of
        (Some (p, e), d) \<Rightarrow>
          (Inr ((back_result Failed (cs_id rec))\<lparr>rr_reason := RbFailedAt p e\<rparr>),
           finish rec CsFailed (st\<lparr>es_disk := d\<rparr>))
      | (None, d) \<Rightarrow>
          (let (ok, st1) = update_change_set (rec\<lparr>cs_state := CsRolledBack\<rparr>) (st\<lparr>es_disk := d\<rparr>) in
           if \<not> ok then (Inl RbJournal, st1)
           else (Inr ((back_result RolledBack (cs_id rec))\<lparr>rr_operations := map (\<lambda>s. (rb_path s, rb_status s)) steps\<rparr>),
                 audit_rollback rec steps st1)))"

definition ask_and_take_back ::
  "engine \<Rightarrow> workspace \<Rightarrow> change_set \<Rightarrow> rollback_step list \<Rightarrow> engine_state
     \<Rightarrow> (rollback_error + rollback_result) \<times> engine_state" where
  "ask_and_take_back en w rec steps st0 =
     (case en_approver en (rollback_request w rec steps) (es_disk st0) of
        (Inl e, d) \<Rightarrow> (Inl (RbApproval e), st0\<lparr>es_disk := d\<rparr>)
      | (Inr dec, d) \<Rightarrow>
          (let st = st0\<lparr>es_disk := d\<rparr> in
           if ad_pending dec then
             (Inr ((back_result Pended (cs_id rec))\<lparr>rr_reason :=
                RbSays ''waiting for local approval; retry this call with the same change_set_id''\<rparr>), st)
           else if \<not> ad_approved dec then
             (Inr ((back_result Denied (cs_id rec))\<lparr>rr_reason :=
                RbSays (if ad_reason dec = [] then ''user_rejected'' else ad_reason dec)\<rparr>), st)
           else take_back rec steps st))"

definition rollback_claimed ::
  "engine \<Rightarrow> time \<Rightarrow> workspace \<Rightarrow> string \<Rightarrow> engine_state \<Rightarrow> (rollback_error + rollback_result) \<times> engine_state" where
  "rollback_claimed en now w cid st0 =
     (let (ok, st) = db_call st0 in
      if \<not> ok then (Inl RbDatabase, st)
      else (case map_of (es_sets st) cid of
          None \<Rightarrow> (Inl RbUnknown, st)
        | Some rec \<Rightarrow>
            if cs_workspace rec \<noteq> ws_id w then (Inl RbWrongWorkspace, st)
            else if cs_state rec = CsRolledBack then (Inr (back_result RolledBack (cs_id rec)), st)
            else if cs_state rec \<noteq> CsApplied then
              (Inr ((back_result Failed (cs_id rec))\<lparr>rr_reason := RbCannot (cs_state rec)\<rparr>), st)
            else if (case cs_deadline rec of None \<Rightarrow> True | Some t \<Rightarrow> t < now) then
              (Inr ((back_result Failed (cs_id rec))\<lparr>rr_reason := RbExpired\<rparr>), st)
            else (case plan_rollback en (es_disk st) w rec of
                Inl e \<Rightarrow> (Inl e, st)
              | Inr (Inl c) \<Rightarrow> (Inr ((back_result Conflicted (cs_id rec))\<lparr>rr_conflict := Some c\<rparr>), st)
              | Inr (Inr steps) \<Rightarrow> ask_and_take_back en w rec steps st)))"

definition rollback ::
  "engine \<Rightarrow> time \<Rightarrow> workspace \<Rightarrow> string \<Rightarrow> engine_state \<Rightarrow> (rollback_error + rollback_result) \<times> engine_state" where
  "rollback en now w cid st =
     (let key = ''rollback:'' @ cid in
      if \<not> ws_writable w then (Inl RbReadOnly, st)
      else if List.member (es_inflight st) key then (Inl RbBusy, st)
      else map_prod id (release key) (rollback_claimed en now w cid (st\<lparr>es_inflight := key # es_inflight st\<rparr>)))"


section \<open>What a rollback does to the disk\<close>

lemma audit_rollback_disk [simp]: "es_disk (audit_rollback rec steps st) = es_disk st"
proof -
  have "es_disk (fold (\<lambda>s. append_audit (f s)) steps st) = es_disk st" for f st
    by (induction steps arbitrary: st) simp_all
  then show ?thesis by (simp add: audit_rollback_def)
qed

lemma take_back_disk: "es_disk (snd (take_back rec steps st)) = snd (apply_rollback steps (es_disk st))"
  by (simp add: take_back_def Let_def split_beta split: prod.splits option.splits)

lemma ask_disk:
  "es_disk (snd (ask_and_take_back en w rec steps st)) =
     (case en_approver en (rollback_request w rec steps) (es_disk st) of
        (r, d) \<Rightarrow> if says_yes (r, d) then snd (apply_rollback steps d) else d)"
  by (simp add: ask_and_take_back_def says_yes_def take_back_disk Let_def split: prod.splits sum.splits)

text \<open>The row and the steps a call would ask about: none unless every guard before the question holds.\<close>

definition back_plan :: "engine \<Rightarrow> time \<Rightarrow> workspace \<Rightarrow> string \<Rightarrow> engine_state \<Rightarrow> (change_set \<times> rollback_step list) option" where
  "back_plan en now w cid st =
     (if \<not> ws_writable w \<or> List.member (es_inflight st) (''rollback:'' @ cid) \<or> \<not> fst (db_call st) then None
      else (case map_of (es_sets st) cid of
          None \<Rightarrow> None
        | Some rec \<Rightarrow>
            if cs_workspace rec = ws_id w \<and> cs_state rec = CsApplied
               \<and> (case cs_deadline rec of None \<Rightarrow> False | Some t \<Rightarrow> now \<le> t)
            then (case plan_rollback en (es_disk st) w rec of Inr (Inr steps) \<Rightarrow> Some (rec, steps) | _ \<Rightarrow> None)
            else None))"

lemma db_call_inflight: "fst (db_call (st\<lparr>es_inflight := ks\<rparr>)) = fst (db_call st)"
  by (simp add: db_call_def split: list.splits)

lemma rollback_claimed_disk:
  "es_disk (snd (rollback_claimed en now w cid st)) =
     (if \<not> fst (db_call st) then es_disk st
      else (case map_of (es_sets st) cid of
          None \<Rightarrow> es_disk st
        | Some rec \<Rightarrow>
            if cs_workspace rec = ws_id w \<and> cs_state rec = CsApplied
               \<and> (case cs_deadline rec of None \<Rightarrow> False | Some t \<Rightarrow> now \<le> t)
            then (case plan_rollback en (es_disk st) w rec of
                Inr (Inr steps) \<Rightarrow>
                  (case en_approver en (rollback_request w rec steps) (es_disk st) of
                     (r, d) \<Rightarrow> if says_yes (r, d) then snd (apply_rollback steps d) else d)
              | _ \<Rightarrow> es_disk st)
            else es_disk st))"
  by (cases "cs_state (the (map_of (es_sets st) cid))")
    (auto simp: rollback_claimed_def split_beta ask_disk Let_def split: option.splits sum.splits)

text \<open>
  C7. The disk after a rollback, exactly. It is the disk the call found, unless every guard
  holds: a writable handle of the change set's own workspace, no other rollback of it at
  work, the state applied, the window open, and a plan with no conflict. Then it is what the
  approver's wait left, and the planned inverse steps run on that only after a yes to exactly
  their previews.
\<close>
theorem rollback_disk:
  "es_disk (snd (rollback en now w cid st)) =
     (case back_plan en now w cid st of
        None \<Rightarrow> es_disk st
      | Some (rec, steps) \<Rightarrow>
          (case en_approver en (rollback_request w rec steps) (es_disk st) of
             (r, d) \<Rightarrow> if says_yes (r, d) then snd (apply_rollback steps d) else d))"
  by (auto simp: rollback_def back_plan_def Let_def rollback_claimed_disk db_call_inflight release_outcome
      split: option.splits sum.splits prod.splits)

section \<open>What a conflict shows\<close>

lemma changed_conflict_hides: "sensitive u w (cf_path (changed_conflict u w p c r)) \<Longrightarrow> cf_shown (changed_conflict u w p c r) = None"
  by (simp add: changed_conflict_def)

lemma back_op_hides:
  "back_op en d w rec op = Inr (Inl c) \<Longrightarrow> sensitive (en_unicode en) w (cf_path c) \<Longrightarrow> cf_shown c = None"
  by (auto simp: back_op_def back_write_def back_move_def back_delete_def Let_def changed_conflict_hides
      split: op_type.splits sum.splits if_splits prod.splits node.splits)

lemma plan_steps_hides:
  "plan_steps en d w rec ops = Inr (Inl c) \<Longrightarrow> sensitive (en_unicode en) w (cf_path c) \<Longrightarrow> cf_shown c = None"
  by (induction ops) (auto dest: back_op_hides split: sum.splits)

text \<open>
  C39. A conflict is returned before anybody is asked, so it must not carry what a read of the
  file would have to be approved for: when it names a sensitive path, the pre-image stays out
  of it, whatever the operations, the disk and the backups.
\<close>
theorem conflict_hides_sensitive_content:
  "case fst (rollback en now w cid st) of
     Inl e \<Rightarrow> True
   | Inr res \<Rightarrow> (case rr_conflict res of
        None \<Rightarrow> True
      | Some c \<Rightarrow> (if sensitive (en_unicode en) w (cf_path c) then cf_shown c = None else True))"
proof -
  have ask: "fst (ask_and_take_back en w rec steps s) = Inr res \<Longrightarrow> rr_conflict res = None" for rec steps s res
    by (auto simp: ask_and_take_back_def take_back_def back_result_def Let_def split: prod.splits sum.splits option.splits if_splits)
  have "sensitive (en_unicode en) w (cf_path c) \<Longrightarrow> cf_shown c = None"
    if "fst (rollback_claimed en now w cid s) = Inr res" "rr_conflict res = Some c" for s res c
    using that ask
    by (auto simp: rollback_claimed_def split_beta back_result_def plan_rollback_def Let_def dest: plan_steps_hides
        split: if_splits option.splits sum.splits)
  then show ?thesis
    by (auto simp: rollback_def Let_def release_outcome split: sum.splits option.splits)
qed


section \<open>A change made while the prompt is open\<close>

lemma rollback_runs:
  assumes "ws_writable w" and "es_inflight st = []" and "es_db st = []" and "es_sets st = [(cid, rec)]"
    and "cs_id rec = cid" "cid \<noteq> []" "cs_workspace rec = ws_id w" "ws_id w \<noteq> []" "cs_state rec = CsApplied"
    and "cs_deadline rec = Some t" "now \<le> t"
    and pl: "plan_rollback en (es_disk st) w rec = Inr (Inr steps)"
    and ap: "en_approver en (rollback_request w rec steps) (es_disk st) = (Inr yes_dec, d1)"
    and rn: "apply_rollback steps d1 = (None, d2)"
  shows "(case fst (rollback en now w cid st) of Inl e \<Rightarrow> False | Inr res \<Rightarrow> rr_status res = RolledBack)
    \<and> es_disk (snd (rollback en now w cid st)) = d2"
proof -
  let ?st = "st\<lparr>es_inflight := [''rollback:'' @ cid]\<rparr>"
  have "rollback_claimed en now w cid ?st = ask_and_take_back en w rec steps ?st"
    using assms(2-11) pl by (simp add: rollback_claimed_def db_call_def)
  moreover have "ask_and_take_back en w rec steps ?st = take_back rec steps (?st\<lparr>es_disk := d1\<rparr>)"
    using ap by (simp add: ask_and_take_back_def Let_def)
  moreover have "(case fst (take_back rec steps (?st\<lparr>es_disk := d1\<rparr>)) of Inl e \<Rightarrow> False | Inr res \<Rightarrow> rr_status res = RolledBack)
      \<and> es_disk (snd (take_back rec steps (?st\<lparr>es_disk := d1\<rparr>))) = d2"
    using assms(3-8) rn by (simp add: take_back_def update_change_set_def db_call_def put_set_def back_result_def Let_def)
  ultimately show ?thesis
    using assms(1,2) by (simp add: rollback_def Let_def release_outcome)
qed

text \<open>The state the sample creation leaves.\<close>

definition created_disk :: disk where
  "created_disk = snd (apply_plan (open_engine accept) [''b'', ''chg_1''] [planned_b] sample_disk)"

abbreviation created_state :: engine_state where
  "created_state \<equiv> snd (execute (open_engine accept) plain_ws create_b (fresh_state sample_disk))"

lemma created_state_facts:
  "es_disk created_state = created_disk" "es_db created_state = []" "es_inflight created_state = []"
  "es_sets created_state = [(''chg_1'', applied_row (open_engine accept) plain_ws create_b [planned_b])]"
proof -
  have "apply_plan (open_engine accept) [''b'', ''chg_1''] [planned_b] sample_disk = (None, created_disk)"
    unfolding created_disk_def using apply_b(1) by (cases "apply_plan (open_engine accept) [''b'', ''chg_1''] [planned_b] sample_disk") simp
  with execute_first [of plain_ws create_b "open_engine accept" sample_disk "[planned_b]" sample_disk sample_disk created_disk]
    plan_b [of accept] apply_b(2) backup_b
  show "es_disk created_state = created_disk" "es_db created_state = []" "es_inflight created_state = []"
    "es_sets created_state = [(''chg_1'', applied_row (open_engine accept) plain_ws create_b [planned_b])]"
    by (simp_all add: max_ops_def del: backup.simps)
qed

definition edit_b :: "approval_request \<Rightarrow> disk \<Rightarrow> (string + approval_decision) \<times> disk" where
  "edit_b req d = (Inr yes_dec, put_node [''w'', ''src'', ''b.go''] (File ''precious'' 420) d)"

lemma walk_created:
  "inspect created_disk ''/w'' [''src'', ''b.go''] = None"
  "verify_real_path created_disk ''/w'' [''w'', ''src'', ''b.go''] = None"
  "read_file created_disk [''w'', ''src'', ''b.go''] = Inr ''y''"
  by code_simp+

lemma resolve_created: "ws_resolve plain_unicode created_disk plain_ws ''src/b.go'' OpWrite = Inr (''/w/src/b.go'', ''src/b.go'')"
  by (simp add: ws_resolve_def plain_ws_def resolve_def clean_path_b clean_b walk_b walk_created max_abs_path_len_def Let_def
      del: inspect.simps segs_slash)

definition back_b :: rollback_step where
  "back_b = \<lparr>rb_type = Create, rb_path = ''src/b.go'', rb_status = RemovedBack,
     rb_run = UndoRemove [''w'', ''src'', ''b.go''], rb_preview = preview Delete ''src/b.go'' [] False False\<rparr>"

lemma planned_b_hash: "after_hashes [planned_b] = [(''src/b.go'', ''y'')]"
  by code_simp

lemma plan_back_b:
  "plan_rollback (open_engine f) created_disk plain_ws (applied_row (open_engine g) plain_ws create_b [planned_b]) = Inr (Inr [back_b])"
  by (simp add: plan_rollback_def applied_row_def back_op_def back_write_def resolve_created hash_file_def walk_b walk_created
      after_hash_def planned_b_hash back_b_def blank_operation_def json_operation_ascii ascii_def ascii_byte_def Let_def del: segs_slash)

lemma undo_edited:
  "fst (os_remove [''w'', ''src'', ''b.go''] (snd (edit_b req created_disk))) = None"
  "list_all (\<lambda>(p, n). n \<noteq> File ''precious'' 420) (nodes (snd (os_remove [''w'', ''src'', ''b.go''] (snd (edit_b req created_disk)))))"
  by code_simp+

text \<open>
  A rollback looks once, before the question. A file this change set created and somebody
  has rewritten while the prompt was open is removed with the new content, which is then
  nowhere on the disk, and the result says "rolled back".
\<close>
theorem rollback_overwrites_later_work:
  "(let out = rollback (open_engine edit_b) 6 plain_ws ''chg_1'' created_state
    in (case fst out of Inl e \<Rightarrow> False | Inr res \<Rightarrow> rr_status res = RolledBack)
      \<and> list_all (\<lambda>(p, n). n \<noteq> File ''precious'' 420) (nodes (es_disk (snd out))))"
proof -
  define d1 where "d1 = put_node [''w'', ''src'', ''b.go''] (File ''precious'' 420) created_disk"
  have e: "edit_b req created_disk = (Inr yes_dec, d1)" for req by (simp add: edit_b_def d1_def)
  obtain d2 where d2: "os_remove [''w'', ''src'', ''b.go''] d1 = (None, d2)"
    using undo_edited(1) [of undefined] by (cases "os_remove [''w'', ''src'', ''b.go''] d1") (simp add: e)
  have row: "cs_id (applied_row en plain_ws create_b ps) = ''chg_1''" "cs_workspace (applied_row en plain_ws create_b ps) = ws_id plain_ws"
    "cs_state (applied_row en plain_ws create_b ps) = CsApplied"
    "cs_deadline (applied_row en plain_ws create_b ps) = Some (en_applied_at en + rollback_retention)" for en ps
    by (simp_all add: applied_row_def)
  have run: "apply_rollback [back_b] d1 = (None, d2)" using d2 by (simp add: back_b_def)
  have "(6::time) \<le> en_applied_at (open_engine accept) + rollback_retention" by (simp add: rollback_retention_def)
  from rollback_runs [OF plain_ws_sel(3) created_state_facts(3,2,4) row(1) _ row(2) _ row(3,4) this,
      of "open_engine edit_b" "[back_b]" d1 d2]
  have "(case fst (rollback (open_engine edit_b) 6 plain_ws ''chg_1'' created_state) of Inl e \<Rightarrow> False | Inr res \<Rightarrow> rr_status res = RolledBack)
      \<and> es_disk (snd (rollback (open_engine edit_b) 6 plain_ws ''chg_1'' created_state)) = d2"
    using plan_back_b e run by (simp add: created_state_facts(1))
  moreover have "list_all (\<lambda>(p, n). n \<noteq> File ''precious'' 420) (nodes d2)"
    using undo_edited(2) [of undefined] by (simp add: e d2)
  ultimately show ?thesis by (simp add: Let_def)
qed


section \<open>A path in another spelling\<close>

definition create_dot :: txn_request where
  "create_dot = create_b\<lparr>rq_operations := [blank_operation\<lparr>op_path := ''src/./b.go'', op_content := ''y''\<rparr>]\<rparr>"

definition planned_dot :: planned_op where
  "planned_dot = planned_b\<lparr>po_op := blank_operation\<lparr>op_path := ''src/./b.go'', op_content := ''y''\<rparr>\<rparr>"

lemma clean_dot: "clean ''src/./b.go'' = ''src/b.go''" "planned_dot = (blank_op (blank_operation\<lparr>op_path := ''src/./b.go'', op_content := ''y''\<rparr>) ''src/b.go'' [''w'', ''src'', ''b.go''])
     \<lparr>po_after := ''y''\<rparr>"
  by code_simp+

lemma clean_path_dot: "clean_path plain_unicode ''src/./b.go'' = Inr ''src/b.go''"
  by (simp add: clean_path_def max_path_len_def replace_byte_def backslash_def nul_def
      contains_byte_iff is_windows_drive_path_def clean_dot(1) clean_b more_names)

definition dot_disk :: disk where
  "dot_disk = snd (apply_plan (open_engine accept) [''b'', ''chg_1''] [planned_dot] sample_disk)"

lemma walk_dot:
  "inspect dot_disk ''/w'' [''src'', ''b.go''] = None"
  "verify_real_path dot_disk ''/w'' [''w'', ''src'', ''b.go''] = None"
  "read_file dot_disk [''w'', ''src'', ''b.go''] = Inr ''y''"
  by code_simp+

lemma resolve_dot:
  "ws_resolve plain_unicode sample_disk plain_ws ''src/./b.go'' OpWrite = Inr (''/w/src/b.go'', ''src/b.go'')"
  "ws_resolve plain_unicode dot_disk plain_ws ''src/./b.go'' OpWrite = Inr (''/w/src/b.go'', ''src/b.go'')"
  by (simp_all add: ws_resolve_def plain_ws_def resolve_def clean_path_dot clean_b walk_b walk_dot max_abs_path_len_def Let_def
      del: inspect.simps segs_slash)

lemma create_dot_sel [simp]:
  "rq_id create_dot = ''chg_1''" "rq_operations create_dot = [blank_operation\<lparr>op_path := ''src/./b.go'', op_content := ''y''\<rparr>]"
  by (simp_all add: create_dot_def)

lemma plan_dot: "plan (open_engine f) sample_disk plain_ws (rq_operations create_dot) = Inr (Inr [planned_dot])"
  by (simp add: plan_def plan_op_def plan_create_def resolve_dot walk_b clean_dot(2) blank_op_def blank_operation_def preview_def
      max_op_content_bytes_def del: segs_slash)

lemma apply_dot:
  "fst (apply_plan (open_engine accept) [''b'', ''chg_1''] [planned_dot] sample_disk) = None"
  by code_simp

text \<open>
  The journal keeps the operations as they were written and the hashes under the canonical
  path. A change set whose path was spelled with a \<^verbatim>\<open>./\<close> in it is applied, and its rollback then
  reports that the file has changed since, on the very disk the change set left.
\<close>
theorem rollback_of_other_spelling:
  "(let first = execute (open_engine accept) plain_ws create_dot (fresh_state sample_disk);
        out = rollback (open_engine accept) 6 plain_ws ''chg_1'' (snd first)
    in fresh_applied first \<and> read_file (es_disk (snd first)) [''w'', ''src'', ''b.go''] = Inr ''y''
      \<and> (case fst out of Inl e \<Rightarrow> False | Inr res \<Rightarrow> rr_status res = Conflicted))"
proof -
  let ?st = "snd (execute (open_engine accept) plain_ws create_dot (fresh_state sample_disk))"
  have ap: "apply_plan (open_engine accept) [''b'', ''chg_1''] [planned_dot] sample_disk = (None, dot_disk)"
    using apply_dot by (simp add: prod_eq_iff dot_disk_def)
  have bk: "backup dir [planned_dot] d = (None, d)" for dir d
    by (simp add: backup_op_def and_then_def planned_dot_def)
  have st: "fresh_applied (execute (open_engine accept) plain_ws create_dot (fresh_state sample_disk))"
    "es_disk ?st = dot_disk" "es_db ?st = []" "es_inflight ?st = []"
    "es_sets ?st = [(''chg_1'', applied_row (open_engine accept) plain_ws create_dot [planned_dot])]"
    using execute_first [of plain_ws create_dot "open_engine accept" sample_disk "[planned_dot]" sample_disk sample_disk dot_disk]
      plan_dot [of accept] apply_b(2) bk ap
    by (simp_all add: max_ops_def del: backup.simps)
  have h: "after_hashes [planned_dot] = [(''src/b.go'', ''y'')]" by code_simp
  have "\<exists>c. plan_rollback (open_engine accept) dot_disk plain_ws
      (applied_row (open_engine accept) plain_ws create_dot [planned_dot]) = Inr (Inl c)"
    by (simp add: plan_rollback_def applied_row_def back_op_def back_write_def resolve_dot hash_file_def walk_b walk_dot
      after_hash_def h blank_operation_def json_operation_ascii ascii_def ascii_byte_def Let_def del: segs_slash)
  then have "case fst (rollback (open_engine accept) 6 plain_ws ''chg_1'' ?st) of Inl e \<Rightarrow> False | Inr res \<Rightarrow> rr_status res = Conflicted"
    using st by (auto simp: rollback_def rollback_claimed_def db_call_def applied_row_def rollback_retention_def back_result_def Let_def)
  with st walk_dot(3) show ?thesis by (simp add: Let_def)
qed

end
