(* ===== verification/TxnRetention.thy ===== *)
theory TxnRetention
  imports TxnEngine
begin

text \<open>
  What happens to change sets and their backups outside a call: the retention sweep of the
  backup area (\<^verbatim>\<open>txn/retention.go\<close>) and the recovery after a crash (\<^verbatim>\<open>txn/recover.go\<close>).
\<close>

section \<open>Retention\<close>

definition default_max_backup_bytes :: int where "default_max_backup_bytes = 1073741824"

text \<open>Bytes of the files below a directory; a directory that cannot be read counts nothing.\<close>

definition node_size :: "node \<Rightarrow> int" where
  "node_size n = (case n of File c m \<Rightarrow> int (length c) | Link t \<Rightarrow> int (length t) | _ \<Rightarrow> 0)"

definition dir_size :: "disk \<Rightarrow> path \<Rightarrow> int" where
  "dir_size d p =
     (case locate (nodes d) p of
        Inl e \<Rightarrow> 0
      | Inr q \<Rightarrow> sum_list (map (\<lambda>(r, n). node_size n)
          (filter (\<lambda>(r, n). strict_prefix q r \<and> \<not> list_ex (\<lambda>k. denied d (take k r)) [length q..<length r]) (nodes d))))"

datatype sweep_error = SweepDb | SweepDir os_error

record kept_backup =
  kb_rec :: change_set
  kb_dir :: path
  kb_size :: int

definition is_dir_entry :: "disk \<Rightarrow> path \<Rightarrow> bool" where
  "is_dir_entry d p = (case locate (nodes d) p of Inl e \<Rightarrow> False | Inr q \<Rightarrow> node_at (nodes d) q = Some Dir)"

definition window_passed :: "time \<Rightarrow> change_set \<Rightarrow> bool" where
  "window_passed now rec = (case cs_deadline rec of None \<Rightarrow> True | Some t \<Rightarrow> t < now)"

definition backup_dir_of :: "string \<Rightarrow> string \<Rightarrow> path" where
  "backup_dir_of root name = segs (path_join [root, name])"

text \<open>The first loop, with what it has removed and kept so far.\<close>

fun scan_backups ::
  "string \<Rightarrow> time \<Rightarrow> string list \<Rightarrow> int \<times> kept_backup list \<Rightarrow> engine_state
     \<Rightarrow> (sweep_error option \<times> int \<times> kept_backup list) \<times> engine_state" where
  "scan_backups root now [] (removed, kept) st = ((None, removed, kept), st)"
| "scan_backups root now (name # names) (removed, kept) st =
     (let dir = backup_dir_of root name in
      if \<not> is_dir_entry (es_disk st) dir then scan_backups root now names (removed, kept) st
      else let (ok, st1) = db_call st in
        if \<not> ok then ((Some SweepDb, removed, kept), st1)
        else (case map_of (es_sets st1) name of
            None \<Rightarrow>
              (let (err, d) = os_remove_all dir (es_disk st1)
               in scan_backups root now names (if err = None then removed + 1 else removed, kept) (st1\<lparr>es_disk := d\<rparr>))
          | Some rec \<Rightarrow>
              if window_passed now rec then
                (let (err, d) = os_remove_all dir (es_disk st1); st2 = st1\<lparr>es_disk := d\<rparr>
                 in case err of
                      Some e \<Rightarrow> ((Some (SweepDir e), removed, kept), st2)
                    | None \<Rightarrow> scan_backups root now names (removed + 1, kept) st2)
              else scan_backups root now names
                (removed, kept @ [\<lparr>kb_rec = rec, kb_dir = dir, kb_size = dir_size (es_disk st1) dir\<rparr>]) st1))"

text \<open>The second loop: the oldest windows are closed until the area fits.\<close>

fun evict_backups ::
  "int \<Rightarrow> time \<Rightarrow> kept_backup list \<Rightarrow> int \<Rightarrow> int \<Rightarrow> engine_state \<Rightarrow> (int \<times> sweep_error option) \<times> engine_state" where
  "evict_backups max_bytes now [] used removed st = ((removed, None), st)"
| "evict_backups max_bytes now (b # bs) used removed st =
     (if used \<le> max_bytes then ((removed, None), st)
      else let (ok, st1) = update_change_set ((kb_rec b)\<lparr>cs_deadline := Some now\<rparr>) st in
        if \<not> ok then ((removed, Some SweepDb), st1)
        else let (err, d) = os_remove_all (kb_dir b) (es_disk st1); st2 = st1\<lparr>es_disk := d\<rparr> in
          (case err of
             Some e \<Rightarrow> ((removed, Some (SweepDir e)), st2)
           | None \<Rightarrow> evict_backups max_bytes now bs (used - kb_size b) (removed + 1)
               (append_audit \<lparr>ae_change_set = cs_id (kb_rec b), ae_type = ''backup_evicted'', ae_path = []\<rparr> st2)))"

text \<open>A zero time is the first of January of the year 1.\<close>

definition zero_time :: time where "zero_time = - 62135596800 * second"

definition applied_at :: "kept_backup \<Rightarrow> time" where
  "applied_at b = (case cs_applied (kb_rec b) of None \<Rightarrow> zero_time | Some t \<Rightarrow> t)"

definition cleanup_backups :: "string \<Rightarrow> int \<Rightarrow> time \<Rightarrow> engine_state \<Rightarrow> (int \<times> sweep_error option) \<times> engine_state" where
  "cleanup_backups root limit now st =
     (let max_bytes = (if limit \<le> 0 then default_max_backup_bytes else limit) in
      case read_dir (es_disk st) (segs root) of
        Inl ENOENT \<Rightarrow> ((0, None), st)
      | Inl e \<Rightarrow> ((0, Some (SweepDir e)), st)
      | Inr names \<Rightarrow>
          (case scan_backups root now (sort names) (0, []) st of
             ((Some e, removed, kept), st1) \<Rightarrow> ((removed, Some e), st1)
           | ((None, removed, kept), st1) \<Rightarrow>
               evict_backups max_bytes now (sort_key applied_at kept) (sum_list (map kb_size kept)) removed st1))"

section \<open>Recovery\<close>

definition has_meta :: "string \<Rightarrow> bool" where
  "has_meta s = list_ex (\<lambda>c. List.member [CHR ''*'', CHR ''?'', CHR ''['', backslash] c) s"

definition expand_in :: "disk \<Rightarrow> string \<Rightarrow> path \<Rightarrow> path list" where
  "expand_in d pat p =
     (case read_dir d p of
        Inl e \<Rightarrow> []
      | Inr names \<Rightarrow> map (\<lambda>n. p @ [n]) (filter (glob_ok pat) (sort names)))"

text \<open>\<open>filepath.Glob\<close> on the segments of an absolute pattern.\<close>

function glob :: "disk \<Rightarrow> path \<Rightarrow> path list" where
  "glob d p =
     (if p = [] then [[]]
      else if \<not> list_ex has_meta p then (case lstat d p of Inl e \<Rightarrow> [] | Inr n \<Rightarrow> [p])
      else if \<not> list_ex has_meta (butlast p) then expand_in d (last p) (butlast p)
      else concat (map (expand_in d (last p)) (glob d (butlast p))))"
  by pat_completeness auto
termination
  by (relation "measure (\<lambda>(d, p). length p)") auto

declare glob.simps [simp del]

definition tmp_pattern :: string where "tmp_pattern = ''.fylane-tmp-*''"

definition touched_dirs :: "string \<Rightarrow> operation list \<Rightarrow> path list" where
  "touched_dirs root ops =
     remdups (map (\<lambda>rel. butlast (segs (path_join [root, rel])))
       (filter (\<lambda>rel. rel \<noteq> []) (concat (map (\<lambda>op. [op_path op, op_to op]) ops))))"

definition clean_temp_files :: "(string \<Rightarrow> string option) \<Rightarrow> change_set \<Rightarrow> engine_state \<Rightarrow> engine_state" where
  "clean_temp_files roots rec st0 =
     (let (ok, st) = db_call st0 in
      if \<not> ok then st
      else (case roots (cs_workspace rec) of
          None \<Rightarrow> st
        | Some root \<Rightarrow>
            st\<lparr>es_disk := fold (\<lambda>dir d. fold (\<lambda>p d. snd (os_remove p d)) (glob d (dir @ [tmp_pattern])) d)
                 (touched_dirs root (cs_operations rec)) (es_disk st)\<rparr>))"

fun recover_rows :: "(string \<Rightarrow> string option) \<Rightarrow> change_set list \<Rightarrow> engine_state \<Rightarrow> bool \<times> engine_state" where
  "recover_rows roots [] st = (True, st)"
| "recover_rows roots (rec # recs) st =
     (let (ok, st1) = update_change_set (rec\<lparr>cs_state := CsFailed\<rparr>) (clean_temp_files roots rec st) in
      if \<not> ok then (False, st1)
      else recover_rows roots recs
        (append_audit \<lparr>ae_change_set = cs_id rec, ae_type = ''change_set_recovered'', ae_path = []\<rparr> st1))"

definition interrupted :: "change_set \<Rightarrow> bool" where
  "interrupted rec = (cs_state rec = CsPending \<or> cs_state rec = CsApproved)"

text \<open>The number of change sets cleaned, or none when a statement fails.\<close>

definition recover :: "(string \<Rightarrow> string option) \<Rightarrow> engine_state \<Rightarrow> nat option \<times> engine_state" where
  "recover roots st0 =
     (let (ok, st) = db_call st0 in
      if \<not> ok then (None, st)
      else let stale = filter interrupted (map snd (es_sets st)); (done, st') = recover_rows roots stale st in
        (if done then Some (length stale) else None, st'))"


section \<open>Recovery ends every interrupted change set\<close>

lemma clean_temp_keeps [simp]:
  "es_sets (clean_temp_files roots rec st) = es_sets st"
  "es_db st = [] \<Longrightarrow> es_db (clean_temp_files roots rec st) = []"
  by (simp_all add: clean_temp_files_def split_beta split: option.splits) (simp add: db_call_def)

lemma append_audit_db_keeps: "es_db st = [] \<Longrightarrow> es_db (append_audit ev st) = []"
  by (simp add: append_audit_def db_call_def)

text \<open>What an update of a row's state to \<open>failed\<close> leaves, when the database answers.\<close>

lemma update_failed:
  assumes "es_db st = []" and "map_of (es_sets st) (cs_id rec) = Some rec" and "cs_id rec \<noteq> []" "cs_workspace rec \<noteq> []"
  shows "update_change_set (rec\<lparr>cs_state := CsFailed\<rparr>) st = (True, put_set (cs_id rec) (rec\<lparr>cs_state := CsFailed\<rparr>) st)"
  using assms by (simp add: update_change_set_def db_call_def)

definition rows_valid :: "engine_state \<Rightarrow> bool" where
  "rows_valid st \<longleftrightarrow> (\<forall>k row. map_of (es_sets st) k = Some row \<longrightarrow> cs_id row = k \<and> k \<noteq> [] \<and> cs_workspace row \<noteq> [])"

definition settle :: "change_set \<Rightarrow> change_set" where
  "settle row = (if interrupted row then row\<lparr>cs_state := CsFailed\<rparr> else row)"

lemma recover_rows_run:
  assumes "es_db st = []" and "rows_valid st" and "distinct (map cs_id recs)"
    and "list_all (\<lambda>rec. map_of (es_sets st) (cs_id rec) = Some rec \<and> interrupted rec) recs"
  shows "fst (recover_rows roots recs st)
    \<and> map_of (es_sets (snd (recover_rows roots recs st))) k =
        map_option (\<lambda>row. if List.member (map cs_id recs) k then settle row else row) (map_of (es_sets st) k)"
  using assms
proof (induction recs arbitrary: st)
  case Nil
  then show ?case by (simp add: option.map_ident)
next
  case (Cons rec recs)
  let ?st = "clean_temp_files roots rec st"
  have row: "map_of (es_sets st) (cs_id rec) = Some rec" "interrupted rec" using Cons.prems(4) by auto
  then have ids: "cs_id rec \<noteq> []" "cs_workspace rec \<noteq> []" using Cons.prems(2) unfolding rows_valid_def by blast+
  have up: "update_change_set (rec\<lparr>cs_state := CsFailed\<rparr>) ?st = (True, put_set (cs_id rec) (rec\<lparr>cs_state := CsFailed\<rparr>) ?st)"
    using Cons.prems(1) row ids by (intro update_failed) simp_all
  define st2 where "st2 = append_audit \<lparr>ae_change_set = cs_id rec, ae_type = ''change_set_recovered'', ae_path = []\<rparr>
      (put_set (cs_id rec) (rec\<lparr>cs_state := CsFailed\<rparr>) ?st)"
  have db: "es_db st2 = []" unfolding st2_def using Cons.prems(1)
    by (intro append_audit_db_keeps) (simp add: put_set_def)
  have sets: "map_of (es_sets st2) = (map_of (es_sets st))(cs_id rec \<mapsto> settle rec)"
    unfolding st2_def using row by (simp add: settle_def)
  have "rows_valid st2"
    unfolding rows_valid_def
  proof (intro allI impI)
    fix j r
    assume j: "map_of (es_sets st2) j = Some r"
    show "cs_id r = j \<and> j \<noteq> [] \<and> cs_workspace r \<noteq> []"
    proof (cases "j = cs_id rec")
      case True
      with j have "r = settle rec" by (simp add: sets)
      with True ids show ?thesis by (simp add: settle_def)
    next
      case False
      with j have "map_of (es_sets st) j = Some r" by (simp add: sets)
      with Cons.prems(2) show ?thesis unfolding rows_valid_def by blast
    qed
  qed
  moreover have "list_all (\<lambda>r. map_of (es_sets st2) (cs_id r) = Some r \<and> interrupted r) recs"
    unfolding list_all_iff
  proof
    fix r assume r: "r \<in> set recs"
    with Cons.prems(3) have "cs_id r \<noteq> cs_id rec" by (auto simp: image_iff)
    moreover have "map_of (es_sets st) (cs_id r) = Some r \<and> interrupted r"
      using Cons.prems(4) r unfolding list_all_iff by (meson list.set_intros(2))
    ultimately show "map_of (es_sets st2) (cs_id r) = Some r \<and> interrupted r" unfolding sets by simp
  qed
  ultimately have ih: "fst (recover_rows roots recs st2)"
    "map_of (es_sets (snd (recover_rows roots recs st2))) k =
        map_option (\<lambda>row. if List.member (map cs_id recs) k then settle row else row) (map_of (es_sets st2) k)"
    using Cons.IH [OF db] Cons.prems(3) unfolding list.map distinct.simps by blast+
  have eq: "recover_rows roots (rec # recs) st = recover_rows roots recs st2"
    by (simp add: up st2_def)
  have "\<not> List.member (map cs_id recs) (cs_id rec)" using Cons.prems(3) by simp
  then have "map_option (\<lambda>row. if List.member (map cs_id recs) k then settle row else row) (map_of (es_sets st2) k)
      = map_option (\<lambda>row. if List.member (map cs_id (rec # recs)) k then settle row else row) (map_of (es_sets st) k)"
    using row(1) by (cases "k = cs_id rec") (simp_all add: sets)
  then show ?case unfolding eq using ih by simp
qed

text \<open>
  C38. After a crash, recovery settles everything: when the database answers, each change set
  that was pending or approved is failed afterwards, every other row is as it was, and the
  number reported is the number of interrupted change sets. None can be resumed or rolled
  back by mistake.
\<close>
theorem recovery_settles_all:
  assumes "es_db st = []" and "rows_valid st" and "distinct (map fst (es_sets st))"
  shows "fst (recover roots st) = Some (length (filter interrupted (map snd (es_sets st))))
    \<and> map_of (es_sets (snd (recover roots st))) k = map_option settle (map_of (es_sets st) k)"
proof -
  let ?stale = "filter interrupted (map snd (es_sets st))"
  have key: "map_of (es_sets st) (cs_id row) = Some row" if "row \<in> set (map snd (es_sets st))" for row
  proof -
    from that obtain k where k: "(k, row) \<in> set (es_sets st)" by auto
    with assms(3) have "map_of (es_sets st) k = Some row" by simp
    with assms(2) show ?thesis unfolding rows_valid_def by fastforce
  qed
  have ids: "map cs_id (map snd (es_sets st)) = map fst (es_sets st)"
    using assms(2,3) unfolding rows_valid_def by fastforce
  have "distinct (map cs_id ?stale)"
    using assms(3) unfolding ids [symmetric] by (simp add: distinct_map_filter)
  from recover_rows_run [OF assms(1,2) this, of roots k] key
  have run: "fst (recover_rows roots ?stale st)"
    "map_of (es_sets (snd (recover_rows roots ?stale st))) k =
        map_option (\<lambda>row. if List.member (map cs_id ?stale) k then settle row else row) (map_of (es_sets st) k)"
    by (auto simp: list_all_iff)
  have "settle row = (if List.member (map cs_id ?stale) k then settle row else row)"
    if "map_of (es_sets st) k = Some row" for row
    using that map_of_SomeD [OF that] assms(2) unfolding rows_valid_def
    by (force simp: settle_def)
  then have "map_option (\<lambda>row. if List.member (map cs_id ?stale) k then settle row else row) (map_of (es_sets st) k)
      = map_option settle (map_of (es_sets st) k)"
    by (cases "map_of (es_sets st) k") simp_all
  with run show ?thesis using assms(1) by (simp add: recover_def db_call_def split_beta Let_def)
qed


section \<open>Retention respects open windows\<close>

text \<open>
  What every step of the sweep keeps: a change set whose window is open afterwards has the row
  it had, and its part of the backup area is untouched.
\<close>

definition open_row :: "time \<Rightarrow> change_set \<Rightarrow> bool" where
  "open_row now row = (case cs_deadline row of None \<Rightarrow> False | Some t \<Rightarrow> now < t)"

definition open_kept :: "time \<Rightarrow> path \<Rightarrow> engine_state \<Rightarrow> engine_state \<Rightarrow> bool" where
  "open_kept now root st st' \<longleftrightarrow> real_dir (nodes (es_disk st')) root \<and>
     (\<forall>name row. map_of (es_sets st') name = Some row \<and> open_row now row \<longrightarrow>
        map_of (es_sets st) name = Some row \<and>
        (\<forall>p. prefix (root @ [name]) p \<longrightarrow> map_of (nodes (es_disk st')) p = map_of (nodes (es_disk st)) p))"

lemma open_kept_refl: "real_dir (nodes (es_disk st)) root \<Longrightarrow> open_kept now root st st"
  by (simp add: open_kept_def)

lemma open_kept_trans: "open_kept now root a b \<Longrightarrow> open_kept now root b c \<Longrightarrow> open_kept now root a c"
  unfolding open_kept_def by metis

lemma open_kept_same:
  "real_dir (nodes (es_disk st)) root \<Longrightarrow> es_sets st' = es_sets st \<Longrightarrow> es_disk st' = es_disk st \<Longrightarrow> open_kept now root st st'"
  by (simp add: open_kept_def)

lemma map_of_filter_keys: "map_of (filter (\<lambda>x. P (fst x)) xs) i = (if P i then map_of xs i else None)"
  by (induction xs) auto

lemma map_of_drop_tree: "map_of (nodes (drop_tree q d)) p = (if prefix q p then None else map_of (nodes d) p)"
proof -
  have "(\<lambda>(p, n). \<not> prefix q p) = (\<lambda>x :: path \<times> node. \<not> prefix q (fst x))" by auto
  then show ?thesis
    using map_of_filter_keys [of "\<lambda>p. \<not> prefix q p" "nodes d" p] by (simp add: drop_tree_def)
qed

lemma real_dir_drop_tree:
  assumes "real_dir (nodes d) root"
  shows "real_dir (nodes (drop_tree (root @ [name]) d)) root"
proof -
  have "\<not> prefix (root @ [name]) (take k root)" for k
    by (auto dest!: prefix_length_le)
  with assms show ?thesis by (simp add: real_dir_def map_of_drop_tree)
qed

lemma remove_backup:
  assumes "real_dir (nodes d) root" and "plain_seg name"
  shows "nodes (snd (os_remove_all (root @ [name]) d)) = nodes d
    \<or> nodes (snd (os_remove_all (root @ [name]) d)) = nodes (drop_tree (root @ [name]) d)"
proof -
  have "dirs_to (nodes d) (root @ [name])" using assms by (simp add: dirs_to_snoc)
  then have "locate (nodes (snd (next_fault d))) (root @ [name]) = Inr (root @ [name])"
    by (simp add: locate_dirs)
  then show ?thesis
    by (simp add: os_remove_all_def split_beta drop_tree_def split: option.splits)
qed

lemma open_kept_remove:
  assumes "real_dir (nodes (es_disk st)) root" and "plain_seg name"
    and "\<forall>row. map_of (es_sets st) name = Some row \<longrightarrow> \<not> open_row now row"
  shows "open_kept now root st (st\<lparr>es_disk := snd (os_remove_all (root @ [name]) (es_disk st))\<rparr>)"
proof -
  let ?st = "st\<lparr>es_disk := snd (os_remove_all (root @ [name]) (es_disk st))\<rparr>"
  have rd: "real_dir (nodes (es_disk ?st)) root"
    using remove_backup [OF assms(1,2)] assms(1) real_dir_drop_tree [OF assms(1), of name] by auto
  have "map_of (nodes (es_disk ?st)) p = map_of (nodes (es_disk st)) p"
    if "map_of (es_sets st) other = Some row" "open_row now row" "prefix (root @ [other]) p" for other row p
  proof -
    have "other \<noteq> name" using assms(3) that(1,2) by auto
    with that(3) have "\<not> prefix (root @ [name]) p" by (auto simp: prefix_def)
    then show ?thesis using remove_backup [OF assms(1,2)] by (auto simp: map_of_drop_tree)
  qed
  with rd show ?thesis by (auto simp: open_kept_def)
qed

lemma open_kept_close:
  assumes "real_dir (nodes (es_disk st)) root"
  shows "open_kept now root st (snd (update_change_set (rec\<lparr>cs_deadline := Some now\<rparr>) st))"
    and "fst (update_change_set (rec\<lparr>cs_deadline := Some now\<rparr>) st) \<Longrightarrow>
      map_of (es_sets (snd (update_change_set (rec\<lparr>cs_deadline := Some now\<rparr>) st))) (cs_id rec) = Some row \<Longrightarrow> \<not> open_row now row"
  using assms
  by (auto simp: open_kept_def update_change_set_def split_beta open_row_def split: option.splits if_splits)

definition backups_named :: "path \<Rightarrow> kept_backup list \<Rightarrow> bool" where
  "backups_named root bs = list_all (\<lambda>b. kb_dir b = root @ [cs_id (kb_rec b)] \<and> plain_seg (cs_id (kb_rec b))) bs"

lemma evict_open_kept:
  assumes "real_dir (nodes (es_disk st)) root" and "backups_named root bs"
  shows "open_kept now root st (snd (evict_backups mx now bs used removed st))"
  using assms
proof (induction bs arbitrary: used removed st)
  case Nil
  then show ?case by (simp add: open_kept_refl)
next
  case (Cons b bs)
  let ?n = "cs_id (kb_rec b)" and ?u = "update_change_set ((kb_rec b)\<lparr>cs_deadline := Some now\<rparr>) st"
  have b: "kb_dir b = root @ [?n]" "plain_seg ?n" and bs: "backups_named root bs"
    using Cons.prems(2) by (simp_all add: backups_named_def)
  note up = open_kept_close(1) [OF Cons.prems(1), of now "kb_rec b"]
  have rd: "real_dir (nodes (es_disk (snd ?u))) root" using up by (simp add: open_kept_def)
  define st2 where "st2 = (snd ?u)\<lparr>es_disk := snd (os_remove_all (root @ [?n]) (es_disk (snd ?u)))\<rparr>"
  have ok2: "open_kept now root st st2" if "fst ?u"
    unfolding st2_def
    by (rule open_kept_trans [OF up open_kept_remove [OF rd b(2)]])
      (use open_kept_close(2) [OF Cons.prems(1) that] in blast)
  let ?st3 = "append_audit \<lparr>ae_change_set = ?n, ae_type = ''backup_evicted'', ae_path = []\<rparr> st2"
  have "open_kept now root st (snd (evict_backups mx now bs x y ?st3))" if "fst ?u" for x y
  proof -
    from ok2 [OF that] have r2: "real_dir (nodes (es_disk st2)) root" by (simp add: open_kept_def)
    have "open_kept now root st2 ?st3" by (rule open_kept_same [OF r2]) simp_all
    moreover have "open_kept now root ?st3 (snd (evict_backups mx now bs x y ?st3))"
      using r2 bs by (intro Cons.IH) simp_all
    ultimately show ?thesis using ok2 [OF that] open_kept_trans by blast
  qed
  then show ?case
    using up ok2 open_kept_refl [OF Cons.prems(1), of now]
    by (auto simp: split_beta b(1) Let_def st2_def split: option.splits)
qed


lemma backup_dir_of_plain:
  assumes "clean_abs root" and "plain_seg name"
  shows "backup_dir_of root name = segs root @ [name]"
  using join_below(2) [of root "[name]"] assms by (simp add: backup_dir_of_def)

lemma scan_open_kept:
  assumes "clean_abs root" and "real_dir (nodes (es_disk st)) (segs root)" and "list_all plain_seg names"
    and "rows_named st" and "backups_named (segs root) kept"
    and "scan_backups root now names (removed, kept) st = ((err, removed', kept'), st')"
  shows "open_kept now (segs root) st st' \<and> backups_named (segs root) kept'"
  using assms(2-6)
proof (induction names arbitrary: removed kept st)
  case Nil
  then show ?case by (auto simp: open_kept_refl)
next
  case (Cons name names)
  let ?dir = "segs root @ [name]" and ?st1 = "snd (db_call st)"
  have name: "plain_seg name" "list_all plain_seg names" using Cons.prems(2) by simp_all
  have dir: "backup_dir_of root name = ?dir" using assms(1) name(1) by (rule backup_dir_of_plain)
  have k1: "open_kept now (segs root) st ?st1" by (rule open_kept_same [OF Cons.prems(1)]) simp_all
  have r1: "real_dir (nodes (es_disk ?st1)) (segs root)" "rows_named ?st1"
    using Cons.prems(1,3) by (simp_all add: rows_named_def)
  let ?st2 = "?st1\<lparr>es_disk := snd (os_remove_all ?dir (es_disk ?st1))\<rparr>"
  have gone: "open_kept now (segs root) st ?st2" if "\<forall>row. map_of (es_sets ?st1) name = Some row \<longrightarrow> \<not> open_row now row"
    by (rule open_kept_trans [OF k1 open_kept_remove [OF r1(1) name(1) that]])
  have rows2: "rows_named ?st2" using r1(2) by (simp add: rows_named_def)
  have rest: "open_kept now (segs root) st st' \<and> backups_named (segs root) kept'"
    if "scan_backups root now names (x, ks) s = ((err, removed', kept'), st')" "open_kept now (segs root) st s"
      "rows_named s" "backups_named (segs root) ks" for x ks s
  proof -
    from that(2) have "real_dir (nodes (es_disk s)) (segs root)" by (simp add: open_kept_def)
    from Cons.IH [OF this name(2) that(3,4,1)] that(2) show ?thesis using open_kept_trans by blast
  qed
  show ?case
  proof (cases "is_dir_entry (es_disk st) ?dir")
    case False
    with Cons.prems(5) have "scan_backups root now names (removed, kept) st = ((err, removed', kept'), st')"
      by (simp add: dir)
    then show ?thesis using rest open_kept_refl [OF Cons.prems(1)] Cons.prems(3,4) by blast
  next
    case True
    show ?thesis
    proof (cases "fst (db_call st)")
      case False
      with True Cons.prems(4,5) k1 show ?thesis by (simp add: dir split_beta)
    next
      case ok: True
      show ?thesis
      proof (cases "map_of (es_sets ?st1) name")
        case None
        with True ok Cons.prems(5) have
          "\<exists>x. scan_backups root now names (x, kept) ?st2 = ((err, removed', kept'), st')"
          by (auto simp: dir split_beta Let_def)
        with rest gone None rows2 Cons.prems(4) show ?thesis by fastforce
      next
        case (Some rec)
        then have id: "cs_id rec = name" using r1(2) unfolding rows_named_def by blast
        show ?thesis
        proof (cases "window_passed now rec")
          case False
          with True ok Some Cons.prems(5) have "scan_backups root now names
              (removed, kept @ [\<lparr>kb_rec = rec, kb_dir = ?dir, kb_size = dir_size (es_disk ?st1) ?dir\<rparr>]) ?st1 = ((err, removed', kept'), st')"
            by (simp add: dir split_beta Let_def)
          moreover have "backups_named (segs root) (kept @ [\<lparr>kb_rec = rec, kb_dir = ?dir, kb_size = dir_size (es_disk ?st1) ?dir\<rparr>])"
            using Cons.prems(4) id name(1) by (simp add: backups_named_def)
          ultimately show ?thesis using rest k1 r1(2) by blast
        next
          case passed: True
          then have "\<forall>row. map_of (es_sets ?st1) name = Some row \<longrightarrow> \<not> open_row now row"
            using Some by (auto simp: window_passed_def open_row_def split: option.splits)
          note g = gone [OF this]
          show ?thesis
          proof (cases "fst (os_remove_all ?dir (es_disk ?st1))")
            case None
            with True ok Some passed Cons.prems(5) have "scan_backups root now names (removed + 1, kept) ?st2 = ((err, removed', kept'), st')"
              by (simp add: dir split_beta Let_def)
            with rest g rows2 Cons.prems(4) show ?thesis by blast
          next
            case (Some e)
            with True ok passed \<open>map_of (es_sets ?st1) name = Some rec\<close> Cons.prems(4,5) g
            show ?thesis by (auto simp: dir split_beta Let_def)
          qed
        qed
      qed
    qed
  qed
qed

text \<open>
  C37. The sweep takes no backup whose rollback window is open. Whatever fails on the way, and
  whatever else it removes or evicts: a change set whose deadline still lies ahead afterwards
  has the row it had before, and every file of its backup is what it was.
\<close>
theorem open_windows_keep_backups:
  assumes "clean_abs root" and "real_dir (nodes (es_disk st)) (segs root)" and "rows_named st"
    and "list_all (\<lambda>(p, n). list_all plain_seg p) (nodes (es_disk st))"
    and "st' = snd (cleanup_backups root limit now st)"
    and "map_of (es_sets st') name = Some row" and "cs_deadline row = Some t" and "now < t"
  shows "map_of (es_sets st) name = Some row
    \<and> (if prefix (segs root @ [name]) p then map_of (nodes (es_disk st')) p = map_of (nodes (es_disk st)) p else True)"
proof -
  have "open_kept now (segs root) st st'"
  proof (cases "read_dir (es_disk st) (segs root)")
    case (Inl e)
    then have "st' = st" using assms(5) by (cases e) (simp_all add: cleanup_backups_def Let_def)
    then show ?thesis using open_kept_refl [OF assms(2)] by simp
  next
    case (Inr names)
    then obtain q where "names = children (nodes (es_disk st)) q"
      by (auto simp: read_dir_def split: sum.splits node.splits)
    then have plain: "list_all plain_seg (sort names)"
      using assms(4) by (auto simp: children_def List.map_filter_def list_all_iff split: if_splits)
    obtain err removed kept st1 where sc: "scan_backups root now (sort names) (0, []) st = ((err, removed, kept), st1)"
      by (metis prod.exhaust)
    have one: "open_kept now (segs root) st st1" "backups_named (segs root) kept"
      using scan_open_kept [OF assms(1,2) plain assms(3) _ sc] by (simp_all add: backups_named_def)
    have srt: "backups_named (segs root) (sort_key applied_at kept)" using one(2) by (simp add: backups_named_def list_all_iff)
    have two: "open_kept now (segs root) st1 (snd (evict_backups mx now (sort_key applied_at kept) u r st1))" for mx u r
      using one(1) srt by (intro evict_open_kept) (simp_all add: open_kept_def)
    show ?thesis
      using assms(5) Inr sc one(1) open_kept_trans [OF one(1) two]
      by (cases err) (simp_all add: cleanup_backups_def Let_def)
  qed
  moreover have "open_row now row" using assms(7,8) by (simp add: open_row_def)
  ultimately show ?thesis using assms(6) unfolding open_kept_def by simp
qed


section \<open>A sample area\<close>

definition sample_set :: "string \<Rightarrow> cs_status \<Rightarrow> time option \<Rightarrow> change_set" where
  "sample_set cid state deadline = \<lparr>cs_id = cid, cs_workspace = ''ws_1'', cs_provider = ''claude'',
     cs_operations = [blank_operation], cs_state = state, cs_before = [], cs_after = [], cs_backup = cid,
     cs_applied = None, cs_deadline = deadline\<rparr>"

definition sample_area :: engine_state where
  "sample_area = \<lparr>es_disk = \<lparr>nodes = [([''b''], Dir), ([''b'', ''chg_1''], Dir), ([''b'', ''chg_1'', ''f''], File ''one'' 384),
         ([''b'', ''chg_2''], Dir), ([''b'', ''chg_2'', ''f''], File ''two'' 384)],
       denied = (\<lambda>p. False), faults = []\<rparr>,
     es_sets = [(''chg_1'', sample_set ''chg_1'' CsApplied (Some 100)), (''chg_2'', sample_set ''chg_2'' CsApproved None)],
     es_audit = [], es_inflight = [''chg_2''], es_db = []\<rparr>"

lemma sample_area_facts:
  "clean_abs ''/b''" "real_dir (nodes (es_disk sample_area)) (segs ''/b'')"
  "list_all (\<lambda>(p, n). list_all plain_seg p) (nodes (es_disk sample_area))"
  by (auto simp: clean_abs_def is_abs_def clean_def real_dir_def sample_area_def segs_def
      plain_seg_def take_Cons' split: if_splits)

lemma sample_area_rows:
  "map_of (es_sets sample_area) k = (if k = ''chg_1'' then Some (sample_set ''chg_1'' CsApplied (Some 100))
     else if k = ''chg_2'' then Some (sample_set ''chg_2'' CsApproved None) else None)"
  by (simp add: sample_area_def)

lemma rows_named_area: "rows_named sample_area" "rows_valid sample_area"
  by (auto simp: rows_named_def rows_valid_def sample_area_rows sample_set_def split: if_splits)

lemma swept_area:
  "map_of (es_sets (snd (cleanup_backups ''/b'' 0 6 sample_area))) ''chg_1'' = Some (sample_set ''chg_1'' CsApplied (Some 100))"
  by code_simp

theorem open_windows_keep_backups_witness:
  "map_of (nodes (es_disk (snd (cleanup_backups ''/b'' 0 6 sample_area)))) [''b'', ''chg_1'', ''f''] = Some (File ''one'' 384)"
proof -
  have d: "cs_deadline (sample_set ''chg_1'' CsApplied (Some 100)) = Some 100" by (simp add: sample_set_def)
  have p: "prefix (segs ''/b'' @ [''chg_1'']) [''b'', ''chg_1'', ''f'']" "map_of (nodes (es_disk sample_area)) [''b'', ''chg_1'', ''f''] = Some (File ''one'' 384)"
    by code_simp+
  from open_windows_keep_backups [OF sample_area_facts(1,2) rows_named_area(1) sample_area_facts(3) refl swept_area d,
      of "[''b'', ''chg_1'', ''f'']"] p
  show ?thesis by simp
qed

theorem recovery_settles_all_witness:
  "fst (recover (\<lambda>w. None) sample_area) = Some 1
   \<and> map_of (es_sets (snd (recover (\<lambda>w. None) sample_area))) ''chg_2'' = Some (sample_set ''chg_2'' CsFailed None)"
proof -
  have s: "es_db sample_area = []" "distinct (map fst (es_sets sample_area))" by (simp_all add: sample_area_def)
  have n: "length (filter interrupted (map snd (es_sets sample_area))) = 1" by code_simp
  from recovery_settles_all [OF s(1) rows_named_area(2) s(2), of "\<lambda>w. None" "''chg_2''"] n
  show ?thesis by (simp add: sample_area_rows settle_def interrupted_def) (simp add: sample_set_def)
qed

text \<open>
  A change set that is being applied has no deadline yet, and the sweep reads a missing
  deadline as one that has passed: the backup of a call in flight, its only way back, is
  removed while the call is between its backup and its journal entry.
\<close>
theorem sweep_takes_backups_in_flight:
  "List.member (es_inflight sample_area) ''chg_2''
   \<and> map_of (nodes (es_disk sample_area)) [''b'', ''chg_2'', ''f''] = Some (File ''two'' 384)
   \<and> fst (cleanup_backups ''/b'' 0 6 sample_area) = (1, None)
   \<and> map_of (nodes (es_disk (snd (cleanup_backups ''/b'' 0 6 sample_area)))) [''b'', ''chg_2'', ''f''] = None"
  by code_simp

end
