(* ===== verification/AuthStore.thy ===== *)
theory AuthStore
  imports TimeText "HOL-Library.AList"
begin

text \<open>
  What the authorization server keeps, \<^verbatim>\<open>shared/authsrv/store.go\<close> and \<^verbatim>\<open>sqlite.go\<close>: the rows,
  the interface \<open>Store\<close> as a record of functions, the memory store and the SQLite store. A
  table is an association list under its primary key. Each SQL statement takes one entry of a
  schedule: a database error, or none. The locale \<open>auth_store\<close> states what the server may
  rely on, over maps; both stores are interpretations of it.
\<close>

section \<open>The rows\<close>

datatype auth_err = AuthNotFound | AuthFailed string

record device =
  dv_id :: string
  dv_secret_hash :: string
  dv_name :: string
  dv_created :: time

record pairing_code =
  pc_code :: string
  pc_device :: string
  pc_expires :: time

record client =
  oc_id :: string
  oc_name :: string
  oc_uris :: "string list"
  oc_created :: time

record auth_request =
  aq_id :: string
  aq_client :: string
  aq_redirect :: string
  aq_challenge :: string
  aq_state :: string
  aq_verify :: string
  aq_device :: string
  aq_nonce :: string
  aq_expires :: time

record auth_code =
  co_code :: string
  co_client :: string
  co_device :: string
  co_redirect :: string
  co_challenge :: string
  co_expires :: time

record access_token =
  at_token :: string
  at_device :: string
  at_client :: string
  at_expires :: time

record refresh_token =
  rf_token :: string
  rf_family :: string
  rf_device :: string
  rf_client :: string
  rf_expires :: time
  rf_used :: bool
  rf_revoked :: bool

type_synonym 'r table = "(string \<times> 'r) list"

section \<open>The interface\<close>

type_synonym ('s, 'r) query = "'s \<Rightarrow> (auth_err + 'r) \<times> 's"
type_synonym 's command = "'s \<Rightarrow> auth_err option \<times> 's"

record 's store_ops =
  so_create_device :: "device \<Rightarrow> 's command"
  so_get_device :: "string \<Rightarrow> ('s, device) query"
  so_put_pairing :: "pairing_code \<Rightarrow> 's command"
  so_take_pairing :: "string \<Rightarrow> time \<Rightarrow> ('s, pairing_code) query"
  so_create_client :: "client \<Rightarrow> 's command"
  so_get_client :: "string \<Rightarrow> ('s, client) query"
  so_put_request :: "auth_request \<Rightarrow> 's command"
  so_take_request :: "string \<Rightarrow> time \<Rightarrow> ('s, auth_request) query"
  so_get_request :: "string \<Rightarrow> time \<Rightarrow> ('s, auth_request) query"
  so_bind_request :: "string \<Rightarrow> string \<Rightarrow> string \<Rightarrow> time \<Rightarrow> 's command"
  so_put_code :: "auth_code \<Rightarrow> 's command"
  so_take_code :: "string \<Rightarrow> time \<Rightarrow> ('s, auth_code) query"
  so_put_access :: "access_token \<Rightarrow> 's command"
  so_get_access :: "string \<Rightarrow> time \<Rightarrow> ('s, access_token) query"
  so_put_refresh :: "refresh_token \<Rightarrow> 's command"
  so_get_refresh :: "string \<Rightarrow> ('s, refresh_token) query"
  so_mark_used :: "string \<Rightarrow> 's command"
  so_revoke_family :: "string \<Rightarrow> ('s, nat) query"

section \<open>The memory store\<close>

record auth_db =
  db_devices :: "device table"
  db_pairing :: "pairing_code table"
  db_clients :: "client table"
  db_reqs :: "auth_request table"
  db_codes :: "auth_code table"
  db_access :: "access_token table"
  db_refresh :: "refresh_token table"

definition empty_db :: auth_db where
  "empty_db = \<lparr>db_devices = [], db_pairing = [], db_clients = [], db_reqs = [], db_codes = [],
     db_access = [], db_refresh = []\<rparr>"

text \<open>A lookup, and the time test of a row that is still there.\<close>

definition found :: "'r option \<Rightarrow> auth_err + 'r" where
  "found r = (case r of None \<Rightarrow> Inl AuthNotFound | Some x \<Rightarrow> Inr x)"

definition live :: "('r \<Rightarrow> time) \<Rightarrow> time \<Rightarrow> auth_err + 'r \<Rightarrow> auth_err + 'r" where
  "live expires now r =
     (case r of Inl e \<Rightarrow> Inl e | Inr x \<Rightarrow> if expires x < now then Inl AuthNotFound else Inr x)"

definition set_used :: "string \<Rightarrow> refresh_token table \<Rightarrow> refresh_token table" where
  "set_used tok rows = map (\<lambda>(k, r). (k, if k = tok then r\<lparr>rf_used := True\<rparr> else r)) rows"

definition set_revoked :: "string \<Rightarrow> refresh_token table \<Rightarrow> refresh_token table" where
  "set_revoked fam rows =
     map (\<lambda>(k, r). (k, if rf_family r = fam \<and> \<not> rf_revoked r then r\<lparr>rf_revoked := True\<rparr> else r)) rows"

definition revocable :: "string \<Rightarrow> refresh_token table \<Rightarrow> nat" where
  "revocable fam rows = length (filter (\<lambda>(k, r). rf_family r = fam \<and> \<not> rf_revoked r) rows)"

definition mem_bind :: "string \<Rightarrow> string \<Rightarrow> string \<Rightarrow> time \<Rightarrow> auth_db command" where
  "mem_bind rid dev nonce now m =
     (case map_of (db_reqs m) rid of
        None \<Rightarrow> (Some AuthNotFound, m)
      | Some r \<Rightarrow>
          if aq_expires r < now \<or> aq_device r \<noteq> [] then (Some AuthNotFound, m)
          else (None, m\<lparr>db_reqs := AList.update rid (r\<lparr>aq_device := dev, aq_nonce := nonce\<rparr>) (db_reqs m)\<rparr>))"

definition mem_ops :: "auth_db store_ops" where
  "mem_ops =
     \<lparr>so_create_device = (\<lambda>d m. (None, m\<lparr>db_devices := AList.update (dv_id d) d (db_devices m)\<rparr>)),
      so_get_device = (\<lambda>k m. (found (map_of (db_devices m) k), m)),
      so_put_pairing = (\<lambda>c m. (None, m\<lparr>db_pairing := AList.update (pc_code c) c (db_pairing m)\<rparr>)),
      so_take_pairing = (\<lambda>k now m. (live pc_expires now (found (map_of (db_pairing m) k)),
          m\<lparr>db_pairing := AList.delete k (db_pairing m)\<rparr>)),
      so_create_client = (\<lambda>c m. (None, m\<lparr>db_clients := AList.update (oc_id c) c (db_clients m)\<rparr>)),
      so_get_client = (\<lambda>k m. (found (map_of (db_clients m) k), m)),
      so_put_request = (\<lambda>r m. (None, m\<lparr>db_reqs := AList.update (aq_id r) r (db_reqs m)\<rparr>)),
      so_take_request = (\<lambda>k now m. (live aq_expires now (found (map_of (db_reqs m) k)),
          m\<lparr>db_reqs := AList.delete k (db_reqs m)\<rparr>)),
      so_get_request = (\<lambda>k now m. (live aq_expires now (found (map_of (db_reqs m) k)), m)),
      so_bind_request = mem_bind,
      so_put_code = (\<lambda>c m. (None, m\<lparr>db_codes := AList.update (co_code c) c (db_codes m)\<rparr>)),
      so_take_code = (\<lambda>k now m. (live co_expires now (found (map_of (db_codes m) k)),
          m\<lparr>db_codes := AList.delete k (db_codes m)\<rparr>)),
      so_put_access = (\<lambda>t m. (None, m\<lparr>db_access := AList.update (at_token t) t (db_access m)\<rparr>)),
      so_get_access = (\<lambda>k now m. (live at_expires now (found (map_of (db_access m) k)), m)),
      so_put_refresh = (\<lambda>t m. (None, m\<lparr>db_refresh := AList.update (rf_token t) t (db_refresh m)\<rparr>)),
      so_get_refresh = (\<lambda>k m. (found (map_of (db_refresh m) k), m)),
      so_mark_used = (\<lambda>k m. (None, m\<lparr>db_refresh := set_used k (db_refresh m)\<rparr>)),
      so_revoke_family = (\<lambda>f m. (Inr (revocable f (db_refresh m)),
          m\<lparr>db_refresh := set_revoked f (db_refresh m)\<rparr>))\<rparr>"

section \<open>The SQLite store\<close>

record auth_sql = auth_db +
  sq_faults :: "string option list"

text \<open>One statement: the error it meets, if any.\<close>

definition statement :: "auth_sql command" where
  "statement st = (case sq_faults st of [] \<Rightarrow> (None, st)
     | f # fs \<Rightarrow> (map_option AuthFailed f, st\<lparr>sq_faults := fs\<rparr>))"

text \<open>Statements in a row, up to the first that fails.\<close>

fun statements :: "nat \<Rightarrow> auth_sql command" where
  "statements 0 st = (None, st)"
| "statements (Suc n) st =
     (case statement st of (Some e, st') \<Rightarrow> (Some e, st') | (None, st') \<Rightarrow> statements n st')"

definition sql_select :: "(auth_sql \<Rightarrow> 'r table) \<Rightarrow> string \<Rightarrow> (auth_sql, 'r) query" where
  "sql_select rows k st =
     (case statement st of
        (Some e, st') \<Rightarrow> (Inl e, st')
      | (None, st') \<Rightarrow> (found (map_of (rows st') k), st'))"

text \<open>An insert: the key must be new and the rows it refers to must exist.\<close>

definition sql_insert ::
  "(auth_sql \<Rightarrow> 'r table) \<Rightarrow> ('r table \<Rightarrow> auth_sql \<Rightarrow> auth_sql) \<Rightarrow> string \<Rightarrow> 'r \<Rightarrow> bool \<Rightarrow> auth_sql command" where
  "sql_insert rows put k r refs st =
     (case statement st of
        (Some e, st') \<Rightarrow> (Some e, st')
      | (None, st') \<Rightarrow>
          if map_of (rows st') k \<noteq> None then (Some (AuthFailed ''UNIQUE constraint failed''), st')
          else if \<not> refs then (Some (AuthFailed ''FOREIGN KEY constraint failed''), st')
          else (None, put ((k, r) # rows st') st'))"

text \<open>A read and a delete in one transaction: begin and select, then delete and commit.\<close>

definition sql_take ::
  "(auth_sql \<Rightarrow> 'r table) \<Rightarrow> ('r table \<Rightarrow> auth_sql \<Rightarrow> auth_sql) \<Rightarrow> string \<Rightarrow> (auth_sql, 'r) query" where
  "sql_take rows put k st =
     (case statements 2 st of
        (Some e, st1) \<Rightarrow> (Inl e, st1)
      | (None, st1) \<Rightarrow>
         (case map_of (rows st1) k of
            None \<Rightarrow> (Inl AuthNotFound, st1)
          | Some r \<Rightarrow>
             (case statements 2 st1 of
                (Some e, st2) \<Rightarrow> (Inl e, st2)
              | (None, st2) \<Rightarrow> (Inr r, put (AList.delete k (rows st2)) st2))))"

definition has_device :: "auth_sql \<Rightarrow> string \<Rightarrow> bool" where
  "has_device st k = (map_of (db_devices st) k \<noteq> None)"

definition has_client :: "auth_sql \<Rightarrow> string \<Rightarrow> bool" where
  "has_client st k = (map_of (db_clients st) k \<noteq> None)"

definition sql_create_device :: "device \<Rightarrow> auth_sql command" where
  "sql_create_device d = sql_insert db_devices (\<lambda>t s. s\<lparr>db_devices := t\<rparr>) (dv_id d) d True"

definition sql_put_pairing :: "pairing_code \<Rightarrow> auth_sql command" where
  "sql_put_pairing c st =
     sql_insert db_pairing (\<lambda>t s. s\<lparr>db_pairing := t\<rparr>) (pc_code c) c (has_device st (pc_device c)) st"

definition sql_take_pairing :: "string \<Rightarrow> time \<Rightarrow> (auth_sql, pairing_code) query" where
  "sql_take_pairing k now st =
     apfst (live pc_expires now) (sql_take db_pairing (\<lambda>t s. s\<lparr>db_pairing := t\<rparr>) k st)"

definition sql_create_client :: "client \<Rightarrow> auth_sql command" where
  "sql_create_client c = sql_insert db_clients (\<lambda>t s. s\<lparr>db_clients := t\<rparr>) (oc_id c) c True"

text \<open>An upsert of the deadline only. The conflict clause is reached before the references are checked.\<close>

definition sql_put_request :: "auth_request \<Rightarrow> auth_sql command" where
  "sql_put_request r st =
     (case statement st of
        (Some e, st') \<Rightarrow> (Some e, st')
      | (None, st') \<Rightarrow>
         (case map_of (db_reqs st') (aq_id r) of
            Some old \<Rightarrow>
              (None, st'\<lparr>db_reqs := AList.update (aq_id r) (old\<lparr>aq_expires := aq_expires r\<rparr>) (db_reqs st')\<rparr>)
          | None \<Rightarrow>
              if \<not> has_client st' (aq_client r) then (Some (AuthFailed ''FOREIGN KEY constraint failed''), st')
              else (None, st'\<lparr>db_reqs := (aq_id r, r) # db_reqs st'\<rparr>)))"

definition sql_get_request :: "string \<Rightarrow> time \<Rightarrow> (auth_sql, auth_request) query" where
  "sql_get_request k now st = apfst (live aq_expires now) (sql_select db_reqs k st)"

text \<open>\<open>expires_at > ?\<close> compares the stored texts.\<close>

definition sql_bind_request :: "string \<Rightarrow> string \<Rightarrow> string \<Rightarrow> time \<Rightarrow> auth_sql command" where
  "sql_bind_request rid dev nonce now st =
     (case statement st of
        (Some e, st') \<Rightarrow> (Some e, st')
      | (None, st') \<Rightarrow>
         (case map_of (db_reqs st') rid of
            None \<Rightarrow> (Some AuthNotFound, st')
          | Some r \<Rightarrow>
              if aq_device r = [] \<and> format_time now < format_time (aq_expires r)
              then (None, st'\<lparr>db_reqs := AList.update rid (r\<lparr>aq_device := dev, aq_nonce := nonce\<rparr>) (db_reqs st')\<rparr>)
              else (Some AuthNotFound, st')))"

definition sql_take_request :: "string \<Rightarrow> time \<Rightarrow> (auth_sql, auth_request) query" where
  "sql_take_request k now st =
     apfst (live aq_expires now) (sql_take db_reqs (\<lambda>t s. s\<lparr>db_reqs := t\<rparr>) k st)"

definition sql_put_code :: "auth_code \<Rightarrow> auth_sql command" where
  "sql_put_code c st =
     sql_insert db_codes (\<lambda>t s. s\<lparr>db_codes := t\<rparr>) (co_code c) c
       (has_client st (co_client c) \<and> has_device st (co_device c)) st"

definition sql_take_code :: "string \<Rightarrow> time \<Rightarrow> (auth_sql, auth_code) query" where
  "sql_take_code k now st =
     apfst (live co_expires now) (sql_take db_codes (\<lambda>t s. s\<lparr>db_codes := t\<rparr>) k st)"

definition sql_put_access :: "access_token \<Rightarrow> auth_sql command" where
  "sql_put_access t st =
     sql_insert db_access (\<lambda>t s. s\<lparr>db_access := t\<rparr>) (at_token t) t
       (has_client st (at_client t) \<and> has_device st (at_device t)) st"

definition sql_get_access :: "string \<Rightarrow> time \<Rightarrow> (auth_sql, access_token) query" where
  "sql_get_access k now st = apfst (live at_expires now) (sql_select db_access k st)"

definition sql_put_refresh :: "refresh_token \<Rightarrow> auth_sql command" where
  "sql_put_refresh t st =
     sql_insert db_refresh (\<lambda>t s. s\<lparr>db_refresh := t\<rparr>) (rf_token t) t
       (has_client st (rf_client t) \<and> has_device st (rf_device t)) st"

definition sql_mark_used :: "string \<Rightarrow> auth_sql command" where
  "sql_mark_used k st =
     (case statement st of
        (Some e, st') \<Rightarrow> (Some e, st')
      | (None, st') \<Rightarrow> (None, st'\<lparr>db_refresh := set_used k (db_refresh st')\<rparr>))"

definition sql_revoke_family :: "string \<Rightarrow> (auth_sql, nat) query" where
  "sql_revoke_family f st =
     (case statement st of
        (Some e, st') \<Rightarrow> (Inl e, st')
      | (None, st') \<Rightarrow>
          (Inr (revocable f (db_refresh st')), st'\<lparr>db_refresh := set_revoked f (db_refresh st')\<rparr>))"

definition sql_ops :: "auth_sql store_ops" where
  "sql_ops =
     \<lparr>so_create_device = sql_create_device, so_get_device = sql_select db_devices,
      so_put_pairing = sql_put_pairing, so_take_pairing = sql_take_pairing,
      so_create_client = sql_create_client, so_get_client = sql_select db_clients,
      so_put_request = sql_put_request, so_take_request = sql_take_request,
      so_get_request = sql_get_request, so_bind_request = sql_bind_request,
      so_put_code = sql_put_code, so_take_code = sql_take_code,
      so_put_access = sql_put_access, so_get_access = sql_get_access,
      so_put_refresh = sql_put_refresh, so_get_refresh = sql_select db_refresh,
      so_mark_used = sql_mark_used, so_revoke_family = sql_revoke_family\<rparr>"

text \<open>
  \<open>PurgeExpired\<close>: one delete per table, by the texts of the deadlines; the rows gone so far
  are counted also when a later statement fails.
\<close>

definition keep_rows :: "('r \<Rightarrow> time) \<Rightarrow> time \<Rightarrow> 'r table \<Rightarrow> 'r table" where
  "keep_rows expires now rows = filter (\<lambda>(k, r). \<not> format_time (expires r) < format_time now) rows"

definition purge_table ::
  "(auth_sql \<Rightarrow> 'r table) \<Rightarrow> ('r table \<Rightarrow> auth_sql \<Rightarrow> auth_sql) \<Rightarrow> ('r \<Rightarrow> time) \<Rightarrow> time
     \<Rightarrow> auth_err option \<times> nat \<times> auth_sql \<Rightarrow> auth_err option \<times> nat \<times> auth_sql" where
  "purge_table rows put expires now res =
     (case res of
        (Some e, n, st) \<Rightarrow> (Some e, n, st)
      | (None, n, st) \<Rightarrow>
         (case statement st of
            (Some e, st') \<Rightarrow> (Some e, n, st')
          | (None, st') \<Rightarrow>
             (let kept = keep_rows expires now (rows st')
              in (None, n + (length (rows st') - length kept), put kept st'))))"

definition purge_expired_auth :: "time \<Rightarrow> auth_sql \<Rightarrow> auth_err option \<times> nat \<times> auth_sql" where
  "purge_expired_auth now st =
     purge_table db_refresh (\<lambda>t s. s\<lparr>db_refresh := t\<rparr>) rf_expires now
       (purge_table db_access (\<lambda>t s. s\<lparr>db_access := t\<rparr>) at_expires now
         (purge_table db_codes (\<lambda>t s. s\<lparr>db_codes := t\<rparr>) co_expires now
           (purge_table db_reqs (\<lambda>t s. s\<lparr>db_reqs := t\<rparr>) aq_expires now
             (purge_table db_pairing (\<lambda>t s. s\<lparr>db_pairing := t\<rparr>) pc_expires now (None, 0, st)))))"

section \<open>What the server relies on\<close>

text \<open>The tables as maps; the laws of a read, a consuming read and a write.\<close>

record auth_view =
  av_devices :: "string \<rightharpoonup> device"
  av_pairing :: "string \<rightharpoonup> pairing_code"
  av_clients :: "string \<rightharpoonup> client"
  av_reqs :: "string \<rightharpoonup> auth_request"
  av_codes :: "string \<rightharpoonup> auth_code"
  av_access :: "string \<rightharpoonup> access_token"
  av_refresh :: "string \<rightharpoonup> refresh_token"

definition db_view :: "'a auth_db_scheme \<Rightarrow> auth_view" where
  "db_view m =
     \<lparr>av_devices = map_of (db_devices m), av_pairing = map_of (db_pairing m),
      av_clients = map_of (db_clients m), av_reqs = map_of (db_reqs m), av_codes = map_of (db_codes m),
      av_access = map_of (db_access m), av_refresh = map_of (db_refresh m)\<rparr>"

definition get_law :: "'r option \<Rightarrow> auth_err + 'r \<Rightarrow> bool" where
  "get_law row r \<longleftrightarrow>
     (case r of Inr x \<Rightarrow> row = Some x | Inl AuthNotFound \<Rightarrow> row = None | Inl (AuthFailed _) \<Rightarrow> True)"

definition live_law :: "('r \<Rightarrow> time) \<Rightarrow> time \<Rightarrow> 'r option \<Rightarrow> auth_err + 'r \<Rightarrow> bool" where
  "live_law expires now row r \<longleftrightarrow>
     (case r of
        Inr x \<Rightarrow> row = Some x \<and> now \<le> expires x
      | Inl AuthNotFound \<Rightarrow> (case row of None \<Rightarrow> True | Some x \<Rightarrow> expires x < now)
      | Inl (AuthFailed _) \<Rightarrow> True)"

definition gone_law :: "auth_err + 'r \<Rightarrow> auth_view \<Rightarrow> auth_view \<Rightarrow> auth_view \<Rightarrow> bool" where
  "gone_law r v gone v' \<longleftrightarrow> v' = (case r of Inl (AuthFailed _) \<Rightarrow> v | _ \<Rightarrow> gone)"

definition write_law :: "auth_err option \<Rightarrow> auth_view \<Rightarrow> auth_view \<Rightarrow> auth_view \<Rightarrow> bool" where
  "write_law e v written v' \<longleftrightarrow> v' = (case e of None \<Rightarrow> written | Some _ \<Rightarrow> v)"

definition mark_used :: "string \<Rightarrow> (string \<rightharpoonup> refresh_token) \<Rightarrow> (string \<rightharpoonup> refresh_token)" where
  "mark_used tok m = (\<lambda>k. if k = tok then map_option (\<lambda>r. r\<lparr>rf_used := True\<rparr>) (m k) else m k)"

definition revoke_all :: "string \<Rightarrow> (string \<rightharpoonup> refresh_token) \<Rightarrow> (string \<rightharpoonup> refresh_token)" where
  "revoke_all fam m = (\<lambda>k. map_option (\<lambda>r. if rf_family r = fam then r\<lparr>rf_revoked := True\<rparr> else r) (m k))"

lemma mark_used_map_of: "map_of (set_used tok rows) = mark_used tok (map_of rows)"
  by (induction rows) (auto simp: set_used_def mark_used_def fun_eq_iff)

lemma revoke_all_map_of: "map_of (set_revoked fam rows) = revoke_all fam (map_of rows)"
  by (induction rows) (auto simp: set_revoked_def revoke_all_def fun_eq_iff)

lemma mark_used_get: "mark_used tok m k = Some r \<Longrightarrow>
    \<exists>r0. m k = Some r0 \<and> (if k = tok then r = r0\<lparr>rf_used := True\<rparr> else r = r0)"
  by (auto simp: mark_used_def split: if_splits)

lemma revoke_all_get: "revoke_all fam m k = Some r \<Longrightarrow>
    \<exists>r0. m k = Some r0 \<and> (if rf_family r0 = fam then r = r0\<lparr>rf_revoked := True\<rparr> else r = r0)"
  by (auto simp: revoke_all_def)

locale auth_store =
  fixes S :: "'s store_ops" and V :: "'s \<Rightarrow> auth_view"
  assumes create_device: "so_create_device S d s = (e, s') \<Longrightarrow>
      write_law e (V s) (V s\<lparr>av_devices := (av_devices (V s))(dv_id d \<mapsto> d)\<rparr>) (V s')"
    and get_device: "so_get_device S k s = (rd, s') \<Longrightarrow> get_law (av_devices (V s) k) rd \<and> V s' = V s"
    and put_pairing: "so_put_pairing S p s = (e, s') \<Longrightarrow>
      write_law e (V s) (V s\<lparr>av_pairing := (av_pairing (V s))(pc_code p \<mapsto> p)\<rparr>) (V s')"
    and take_pairing: "so_take_pairing S k now s = (rp, s') \<Longrightarrow>
      live_law pc_expires now (av_pairing (V s) k) rp \<and>
      gone_law rp (V s) (V s\<lparr>av_pairing := (av_pairing (V s))(k := None)\<rparr>) (V s')"
    and create_client: "so_create_client S c s = (e, s') \<Longrightarrow>
      write_law e (V s) (V s\<lparr>av_clients := (av_clients (V s))(oc_id c \<mapsto> c)\<rparr>) (V s')"
    and get_client: "so_get_client S k s = (rc, s') \<Longrightarrow> get_law (av_clients (V s) k) rc \<and> V s' = V s"
    and put_request: "so_put_request S q s = (e, s') \<Longrightarrow>
      \<exists>q'. write_law e (V s) (V s\<lparr>av_reqs := (av_reqs (V s))(aq_id q \<mapsto> q')\<rparr>) (V s') \<and>
           (q' = q \<or> (\<exists>old. av_reqs (V s) (aq_id q) = Some old \<and> q' = old\<lparr>aq_expires := aq_expires q\<rparr>))"
    and take_request: "so_take_request S k now s = (rq, s') \<Longrightarrow>
      live_law aq_expires now (av_reqs (V s) k) rq \<and>
      gone_law rq (V s) (V s\<lparr>av_reqs := (av_reqs (V s))(k := None)\<rparr>) (V s')"
    and get_request: "so_get_request S k now s = (rq, s') \<Longrightarrow>
      live_law aq_expires now (av_reqs (V s) k) rq \<and> V s' = V s"
    and bind_request: "so_bind_request S k dev nonce now s = (e, s') \<Longrightarrow>
      (case e of None \<Rightarrow> \<exists>q. av_reqs (V s) k = Some q \<and> aq_device q = [] \<and>
           V s' = V s\<lparr>av_reqs := (av_reqs (V s))(k \<mapsto> q\<lparr>aq_device := dev, aq_nonce := nonce\<rparr>)\<rparr>
       | Some _ \<Rightarrow> V s' = V s)"
    and put_code: "so_put_code S c' s = (e, s') \<Longrightarrow>
      write_law e (V s) (V s\<lparr>av_codes := (av_codes (V s))(co_code c' \<mapsto> c')\<rparr>) (V s')"
    and take_code: "so_take_code S k now s = (ra, s') \<Longrightarrow>
      live_law co_expires now (av_codes (V s) k) ra \<and>
      gone_law ra (V s) (V s\<lparr>av_codes := (av_codes (V s))(k := None)\<rparr>) (V s')"
    and put_access: "so_put_access S t s = (e, s') \<Longrightarrow>
      write_law e (V s) (V s\<lparr>av_access := (av_access (V s))(at_token t \<mapsto> t)\<rparr>) (V s')"
    and get_access: "so_get_access S k now s = (rt, s') \<Longrightarrow>
      live_law at_expires now (av_access (V s) k) rt \<and> V s' = V s"
    and put_refresh: "so_put_refresh S f s = (e, s') \<Longrightarrow>
      write_law e (V s) (V s\<lparr>av_refresh := (av_refresh (V s))(rf_token f \<mapsto> f)\<rparr>) (V s')"
    and get_refresh: "so_get_refresh S k s = (rf, s') \<Longrightarrow> get_law (av_refresh (V s) k) rf \<and> V s' = V s"
    and mark_refresh: "so_mark_used S k s = (e, s') \<Longrightarrow>
      write_law e (V s) (V s\<lparr>av_refresh := mark_used k (av_refresh (V s))\<rparr>) (V s')"
    and revoke_family: "so_revoke_family S fam s = (rn, s') \<Longrightarrow>
      V s' = (case rn of Inl _ \<Rightarrow> V s | Inr _ \<Rightarrow> V s\<lparr>av_refresh := revoke_all fam (av_refresh (V s))\<rparr>)"

lemmas law_defs = get_law_def live_law_def gone_law_def write_law_def

lemma found_law: "get_law r (found r)"
  by (simp add: get_law_def found_def split: option.split)

lemma live_found_law: "live_law expires now r (live expires now (found r))"
  by (simp add: live_law_def live_def found_def split: option.split)

lemma live_found_gone: "gone_law (live expires now (found r)) v gone gone"
  by (simp add: gone_law_def live_def found_def split: option.split)

interpretation mem: auth_store mem_ops db_view
proof (unfold_locales, goal_cases)
  case (7 q s e s')
  then show ?case by (auto simp: mem_ops_def db_view_def write_law_def update_conv')
next
  case (10 k dev nonce now s e s')
  then show ?case
    by (auto simp: mem_ops_def mem_bind_def db_view_def update_conv' split: option.splits if_splits)
qed (auto simp: mem_ops_def db_view_def write_law_def update_conv' delete_conv' found_law live_found_law
    live_found_gone mark_used_map_of revoke_all_map_of)

section \<open>The SQLite store keeps the laws\<close>

lemma statement_tables: "statement st = (e, st') \<Longrightarrow> db_view st' = db_view st"
  by (auto simp: statement_def db_view_def split: list.splits)

lemma statement_error: "statement st = (Some e, st') \<Longrightarrow> \<exists>m. e = AuthFailed m"
  by (auto simp: statement_def split: list.splits)

lemma statements_tables: "statements n st = (e, st') \<Longrightarrow> db_view st' = db_view st"
proof (induction n arbitrary: st)
  case (Suc n)
  then show ?case by (auto split: prod.splits option.splits dest!: statement_tables)
qed simp

lemma statements_error: "statements n st = (Some e, st') \<Longrightarrow> \<exists>m. e = AuthFailed m"
proof (induction n arbitrary: st)
  case (Suc n)
  then show ?case by (auto split: prod.splits option.splits dest!: statement_error)
qed simp

lemma db_view_rows:
  "db_view st' = db_view st \<Longrightarrow> map_of (db_devices st') = map_of (db_devices st)"
  "db_view st' = db_view st \<Longrightarrow> map_of (db_pairing st') = map_of (db_pairing st)"
  "db_view st' = db_view st \<Longrightarrow> map_of (db_clients st') = map_of (db_clients st)"
  "db_view st' = db_view st \<Longrightarrow> map_of (db_reqs st') = map_of (db_reqs st)"
  "db_view st' = db_view st \<Longrightarrow> map_of (db_codes st') = map_of (db_codes st)"
  "db_view st' = db_view st \<Longrightarrow> map_of (db_access st') = map_of (db_access st)"
  "db_view st' = db_view st \<Longrightarrow> map_of (db_refresh st') = map_of (db_refresh st)"
  by (simp_all add: db_view_def)

lemma sql_select_law:
  assumes rows: "\<And>st'. db_view st' = db_view st \<Longrightarrow> map_of (rows st') = map_of (rows st)"
    and run: "sql_select rows k st = (r, st')"
  shows "get_law (map_of (rows st) k) r \<and> db_view st' = db_view st"
proof -
  obtain e st1 where e: "statement st = (e, st1)"
    by (cases "statement st")
  note v1 = statement_tables [OF e]
  have *: "map_of (rows st1) k = map_of (rows st) k"
    by (simp only: rows [OF v1])
  show ?thesis
  proof (cases e)
    case None
    with e run have "r = found (map_of (rows st) k)" "st' = st1"
      by (auto simp: sql_select_def *)
    with v1 show ?thesis
      by (simp add: found_law)
  next
    case (Some err)
    with e obtain m where "err = AuthFailed m"
      using statement_error by blast
    with Some e run v1 show ?thesis
      by (auto simp: sql_select_def get_law_def)
  qed
qed

lemma sql_select_live:
  assumes rows: "\<And>st'. db_view st' = db_view st \<Longrightarrow> map_of (rows st') = map_of (rows st)"
    and run: "apfst (live expires now) (sql_select rows k st) = (r, st')"
  shows "live_law expires now (map_of (rows st) k) r \<and> db_view st' = db_view st"
proof -
  obtain r0 where r0: "sql_select rows k st = (r0, st')" and r: "r = live expires now r0"
    using run by (cases "sql_select rows k st") auto
  from sql_select_law [OF rows r0] have "get_law (map_of (rows st) k) r0" "db_view st' = db_view st"
    by blast+
  then show ?thesis
    by (auto simp: r live_def live_law_def get_law_def split: sum.splits auth_err.splits)
qed

lemma sql_insert_law:
  assumes rows: "\<And>st'. db_view st' = db_view st \<Longrightarrow> map_of (rows st') = map_of (rows st)"
    and put: "\<And>st' t. db_view st' = db_view st \<Longrightarrow> db_view (put t st') = upd (map_of t) (db_view st)"
    and run: "sql_insert rows put k r refs st = (e, st')"
  shows "write_law e (db_view st) (upd ((map_of (rows st))(k \<mapsto> r)) (db_view st)) (db_view st')"
proof -
  obtain e1 st1 where e1: "statement st = (e1, st1)"
    by (cases "statement st")
  note v1 = statement_tables [OF e1]
  have "map_of ((k, r) # rows st1) = (map_of (rows st))(k \<mapsto> r)"
    by (simp add: rows [OF v1])
  with put [OF v1, of "(k, r) # rows st1"] e1 v1 run show ?thesis
    by (auto simp: sql_insert_def write_law_def split: option.splits if_splits)
qed

lemma sql_take_law:
  assumes rows: "\<And>st'. db_view st' = db_view st \<Longrightarrow> map_of (rows st') = map_of (rows st)"
    and put: "\<And>st' t. db_view st' = db_view st \<Longrightarrow> db_view (put t st') = upd (map_of t) (db_view st)"
    and self: "upd (map_of (rows st)) (db_view st) = db_view st"
    and run: "apfst (live expires now) (sql_take rows put k st) = (r, st')"
  shows "live_law expires now (map_of (rows st) k) r \<and>
    gone_law r (db_view st) (upd ((map_of (rows st))(k := None)) (db_view st)) (db_view st')"
proof -
  obtain r0 where r0: "sql_take rows put k st = (r0, st')" and r: "r = live expires now r0"
    using run by (cases "sql_take rows put k st") auto
  obtain e1 st1 where e1: "statements 2 st = (e1, st1)"
    by (cases "statements 2 st")
  note v1 = statements_tables [OF e1]
  show ?thesis
  proof (cases e1)
    case (Some e)
    with e1 obtain m where "e = AuthFailed m"
      using statements_error by blast
    with Some e1 r0 v1 show ?thesis
      by (auto simp: sql_take_def r live_def live_law_def gone_law_def)
  next
    case None
    show ?thesis
    proof (cases "map_of (rows st1) k")
      case absent: None
      then have "map_of (rows st) k = None"
        by (simp add: rows [OF v1])
      moreover from this have "(map_of (rows st))(k := None) = map_of (rows st)"
        by auto
      ultimately show ?thesis
        using None e1 r0 v1 absent self
        by (auto simp: sql_take_def r live_def live_law_def gone_law_def)
    next
      case (Some x)
      then have x: "map_of (rows st) k = Some x"
        by (simp add: rows [OF v1])
      obtain e2 st2 where e2: "statements 2 st1 = (e2, st2)"
        by (cases "statements 2 st1")
      from statements_tables [OF e2] v1 have v2: "db_view st2 = db_view st"
        by simp
      show ?thesis
      proof (cases e2)
        case None2: None
        with None Some e1 e2 r0 have "r0 = Inr x" "st' = put (AList.delete k (rows st2)) st2"
          by (auto simp: sql_take_def)
        then show ?thesis
          by (auto simp: r x live_def live_law_def gone_law_def put [OF v2] delete_conv' rows [OF v2])
      next
        case (Some e)
        with e2 obtain m where "e = AuthFailed m"
          using statements_error by blast
        with Some None e1 e2 r0 v2 \<open>map_of (rows st1) k = Some x\<close> show ?thesis
          by (auto simp: sql_take_def r live_def live_law_def gone_law_def)
      qed
    qed
  qed
qed

lemma db_view_put:
  "db_view st' = db_view st \<Longrightarrow> db_view (st'\<lparr>db_devices := t0\<rparr>) = db_view st\<lparr>av_devices := map_of t0\<rparr>"
  "db_view st' = db_view st \<Longrightarrow> db_view (st'\<lparr>db_pairing := t1\<rparr>) = db_view st\<lparr>av_pairing := map_of t1\<rparr>"
  "db_view st' = db_view st \<Longrightarrow> db_view (st'\<lparr>db_clients := t2\<rparr>) = db_view st\<lparr>av_clients := map_of t2\<rparr>"
  "db_view st' = db_view st \<Longrightarrow> db_view (st'\<lparr>db_reqs := t3\<rparr>) = db_view st\<lparr>av_reqs := map_of t3\<rparr>"
  "db_view st' = db_view st \<Longrightarrow> db_view (st'\<lparr>db_codes := t4\<rparr>) = db_view st\<lparr>av_codes := map_of t4\<rparr>"
  "db_view st' = db_view st \<Longrightarrow> db_view (st'\<lparr>db_access := t5\<rparr>) = db_view st\<lparr>av_access := map_of t5\<rparr>"
  "db_view st' = db_view st \<Longrightarrow> db_view (st'\<lparr>db_refresh := t6\<rparr>) = db_view st\<lparr>av_refresh := map_of t6\<rparr>"
  by (simp_all add: db_view_def)

lemma db_view_get [simp]:
  "av_devices (db_view st) = map_of (db_devices st)"
  "av_pairing (db_view st) = map_of (db_pairing st)"
  "av_clients (db_view st) = map_of (db_clients st)"
  "av_reqs (db_view st) = map_of (db_reqs st)"
  "av_codes (db_view st) = map_of (db_codes st)"
  "av_access (db_view st) = map_of (db_access st)"
  "av_refresh (db_view st) = map_of (db_refresh st)"
  by (simp_all add: db_view_def)

lemma db_view_self:
  "db_view st\<lparr>av_pairing := map_of (db_pairing st)\<rparr> = db_view st"
  "db_view st\<lparr>av_reqs := map_of (db_reqs st)\<rparr> = db_view st"
  "db_view st\<lparr>av_codes := map_of (db_codes st)\<rparr> = db_view st"
  by (simp_all add: db_view_def)

lemma sql_put_request_law:
  assumes "sql_put_request q st = (e, st')"
  shows "\<exists>q'. write_law e (db_view st) (db_view st\<lparr>av_reqs := (map_of (db_reqs st))(aq_id q \<mapsto> q')\<rparr>) (db_view st') \<and>
    (q' = q \<or> (\<exists>old. map_of (db_reqs st) (aq_id q) = Some old \<and> q' = old\<lparr>aq_expires := aq_expires q\<rparr>))"
proof -
  obtain e1 st1 where e1: "statement st = (e1, st1)"
    by (cases "statement st")
  note v1 = statement_tables [OF e1]
  note rows = db_view_rows(4) [OF v1]
  show ?thesis
  proof (cases "e1 = None \<and> map_of (db_reqs st) (aq_id q) \<noteq> None")
    case True
    then obtain old where old: "map_of (db_reqs st) (aq_id q) = Some old" and "e1 = None"
      by auto
    with e1 assms have "e = None"
      "db_view st' = db_view st\<lparr>av_reqs := (map_of (db_reqs st))(aq_id q \<mapsto> old\<lparr>aq_expires := aq_expires q\<rparr>)\<rparr>"
      by (auto simp: sql_put_request_def rows db_view_put(4) [OF v1] update_conv')
    with old show ?thesis
      by (auto simp: write_law_def)
  next
    case False
    with e1 v1 assms have "write_law e (db_view st) (db_view st\<lparr>av_reqs := (map_of (db_reqs st))(aq_id q \<mapsto> q)\<rparr>) (db_view st')"
      by (auto simp: sql_put_request_def rows db_view_put(4) [OF v1] write_law_def split: option.splits if_splits)
    then show ?thesis
      by blast
  qed
qed

lemma sql_bind_law:
  assumes "sql_bind_request k dev nonce now st = (e, st')"
  shows "case e of None \<Rightarrow> \<exists>q. map_of (db_reqs st) k = Some q \<and> aq_device q = [] \<and>
        db_view st' = db_view st\<lparr>av_reqs := (map_of (db_reqs st))(k \<mapsto> q\<lparr>aq_device := dev, aq_nonce := nonce\<rparr>)\<rparr>
    | Some _ \<Rightarrow> db_view st' = db_view st"
proof -
  obtain e1 st1 where e1: "statement st = (e1, st1)"
    by (cases "statement st")
  note v1 = statement_tables [OF e1]
  note rows = db_view_rows(4) [OF v1]
  show ?thesis
    using assms e1 v1
    by (auto simp: sql_bind_request_def rows db_view_put(4) [OF v1] update_conv' split: option.splits if_splits)
qed

lemma sql_insert_laws:
  "sql_create_device d st = (e, st') \<Longrightarrow>
     write_law e (db_view st) (db_view st\<lparr>av_devices := (map_of (db_devices st))(dv_id d \<mapsto> d)\<rparr>) (db_view st')"
  "sql_put_pairing p st = (e, st') \<Longrightarrow>
     write_law e (db_view st) (db_view st\<lparr>av_pairing := (map_of (db_pairing st))(pc_code p \<mapsto> p)\<rparr>) (db_view st')"
  "sql_create_client c st = (e, st') \<Longrightarrow>
     write_law e (db_view st) (db_view st\<lparr>av_clients := (map_of (db_clients st))(oc_id c \<mapsto> c)\<rparr>) (db_view st')"
  "sql_put_code c' st = (e, st') \<Longrightarrow>
     write_law e (db_view st) (db_view st\<lparr>av_codes := (map_of (db_codes st))(co_code c' \<mapsto> c')\<rparr>) (db_view st')"
  "sql_put_access t st = (e, st') \<Longrightarrow>
     write_law e (db_view st) (db_view st\<lparr>av_access := (map_of (db_access st))(at_token t \<mapsto> t)\<rparr>) (db_view st')"
  "sql_put_refresh f st = (e, st') \<Longrightarrow>
     write_law e (db_view st) (db_view st\<lparr>av_refresh := (map_of (db_refresh st))(rf_token f \<mapsto> f)\<rparr>) (db_view st')"
  subgoal
    unfolding sql_create_device_def
    by (rule sql_insert_law [where upd = "\<lambda>m v. v\<lparr>av_devices := m\<rparr>"]) (auto intro: db_view_rows db_view_put)
  subgoal
    unfolding sql_put_pairing_def
    by (rule sql_insert_law [where upd = "\<lambda>m v. v\<lparr>av_pairing := m\<rparr>"]) (auto intro: db_view_rows db_view_put)
  subgoal
    unfolding sql_create_client_def
    by (rule sql_insert_law [where upd = "\<lambda>m v. v\<lparr>av_clients := m\<rparr>"]) (auto intro: db_view_rows db_view_put)
  subgoal
    unfolding sql_put_code_def
    by (rule sql_insert_law [where upd = "\<lambda>m v. v\<lparr>av_codes := m\<rparr>"]) (auto intro: db_view_rows db_view_put)
  subgoal
    unfolding sql_put_access_def
    by (rule sql_insert_law [where upd = "\<lambda>m v. v\<lparr>av_access := m\<rparr>"]) (auto intro: db_view_rows db_view_put)
  subgoal
    unfolding sql_put_refresh_def
    by (rule sql_insert_law [where upd = "\<lambda>m v. v\<lparr>av_refresh := m\<rparr>"]) (auto intro: db_view_rows db_view_put)
  done

lemma sql_take_laws:
  "sql_take_pairing k now st = (r1, st') \<Longrightarrow>
     live_law pc_expires now (map_of (db_pairing st) k) r1 \<and>
     gone_law r1 (db_view st) (db_view st\<lparr>av_pairing := (map_of (db_pairing st))(k := None)\<rparr>) (db_view st')"
  "sql_take_request k now st = (r2, st') \<Longrightarrow>
     live_law aq_expires now (map_of (db_reqs st) k) r2 \<and>
     gone_law r2 (db_view st) (db_view st\<lparr>av_reqs := (map_of (db_reqs st))(k := None)\<rparr>) (db_view st')"
  "sql_take_code k now st = (r3, st') \<Longrightarrow>
     live_law co_expires now (map_of (db_codes st) k) r3 \<and>
     gone_law r3 (db_view st) (db_view st\<lparr>av_codes := (map_of (db_codes st))(k := None)\<rparr>) (db_view st')"
  subgoal
    unfolding sql_take_pairing_def
    by (rule sql_take_law [where upd = "\<lambda>m v. v\<lparr>av_pairing := m\<rparr>"]) (auto intro: db_view_rows db_view_put simp: db_view_self)
  subgoal
    unfolding sql_take_request_def
    by (rule sql_take_law [where upd = "\<lambda>m v. v\<lparr>av_reqs := m\<rparr>"]) (auto intro: db_view_rows db_view_put simp: db_view_self)
  subgoal
    unfolding sql_take_code_def
    by (rule sql_take_law [where upd = "\<lambda>m v. v\<lparr>av_codes := m\<rparr>"]) (auto intro: db_view_rows db_view_put simp: db_view_self)
  done

lemma sql_update_laws:
  "sql_mark_used k st = (e, st') \<Longrightarrow>
     write_law e (db_view st) (db_view st\<lparr>av_refresh := mark_used k (map_of (db_refresh st))\<rparr>) (db_view st')"
  "sql_revoke_family fam st = (rn, st') \<Longrightarrow>
     db_view st' = (case rn of Inl _ \<Rightarrow> db_view st
       | Inr _ \<Rightarrow> db_view st\<lparr>av_refresh := revoke_all fam (map_of (db_refresh st))\<rparr>)"
proof -
  obtain e1 st1 where e1: "statement st = (e1, st1)"
    by (cases "statement st")
  note v1 = statement_tables [OF e1]
  note rows = db_view_rows(7) [OF v1]
  show "sql_mark_used k st = (e, st') \<Longrightarrow>
     write_law e (db_view st) (db_view st\<lparr>av_refresh := mark_used k (map_of (db_refresh st))\<rparr>) (db_view st')"
    using e1 v1 by (auto simp: sql_mark_used_def write_law_def db_view_put(7) [OF v1] mark_used_map_of rows
        split: option.splits)
  show "sql_revoke_family fam st = (rn, st') \<Longrightarrow>
     db_view st' = (case rn of Inl _ \<Rightarrow> db_view st
       | Inr _ \<Rightarrow> db_view st\<lparr>av_refresh := revoke_all fam (map_of (db_refresh st))\<rparr>)"
    using e1 v1 by (auto simp: sql_revoke_family_def db_view_put(7) [OF v1] revoke_all_map_of rows
        split: option.splits)
qed

lemma sql_get_laws:
  "sql_select db_devices k st = (rd, st') \<Longrightarrow> get_law (map_of (db_devices st) k) rd \<and> db_view st' = db_view st"
  "sql_select db_clients k st = (rc, st') \<Longrightarrow> get_law (map_of (db_clients st) k) rc \<and> db_view st' = db_view st"
  "sql_select db_refresh k st = (rf, st') \<Longrightarrow> get_law (map_of (db_refresh st) k) rf \<and> db_view st' = db_view st"
  "sql_get_request k now st = (rq, st') \<Longrightarrow> live_law aq_expires now (map_of (db_reqs st) k) rq \<and> db_view st' = db_view st"
  "sql_get_access k now st = (rt, st') \<Longrightarrow> live_law at_expires now (map_of (db_access st) k) rt \<and> db_view st' = db_view st"
  subgoal by (rule sql_select_law) (auto intro: db_view_rows)
  subgoal by (rule sql_select_law) (auto intro: db_view_rows)
  subgoal by (rule sql_select_law) (auto intro: db_view_rows)
  subgoal unfolding sql_get_request_def by (rule sql_select_live) (auto intro: db_view_rows)
  subgoal unfolding sql_get_access_def by (rule sql_select_live) (auto intro: db_view_rows)
  done

interpretation sql: auth_store sql_ops db_view
  by (unfold_locales; simp only: sql_ops_def store_ops.simps db_view_get)
    (erule sql_insert_laws sql_take_laws sql_update_laws sql_put_request_law sql_bind_law sql_get_laws)+

text \<open>A purge only takes rows away.\<close>

definition view_le :: "auth_view \<Rightarrow> auth_view \<Rightarrow> bool" where
  "view_le v w \<longleftrightarrow>
     av_devices v = av_devices w \<and> av_clients v = av_clients w \<and>
     av_pairing v \<subseteq>\<^sub>m av_pairing w \<and> av_reqs v \<subseteq>\<^sub>m av_reqs w \<and> av_codes v \<subseteq>\<^sub>m av_codes w \<and>
     av_access v \<subseteq>\<^sub>m av_access w \<and> av_refresh v \<subseteq>\<^sub>m av_refresh w"

definition auth_keys :: "auth_sql \<Rightarrow> bool" where
  "auth_keys st \<longleftrightarrow> distinct (map fst (db_pairing st)) \<and> distinct (map fst (db_reqs st)) \<and>
     distinct (map fst (db_codes st)) \<and> distinct (map fst (db_access st)) \<and> distinct (map fst (db_refresh st))"

lemma keep_rows_le: "distinct (map fst rows) \<Longrightarrow> map_of (keep_rows expires now rows) \<subseteq>\<^sub>m map_of rows"
  by (auto simp: map_le_def keep_rows_def dom_def distinct_map_filter dest!: map_of_SomeD intro!: map_of_is_SomeI)

lemma view_le_refl [simp]: "view_le v v"
  by (simp add: view_le_def)

lemma view_le_trans: "view_le u v \<Longrightarrow> view_le v w \<Longrightarrow> view_le u w"
  by (auto simp: view_le_def intro: map_le_trans)

lemma keep_rows_keys: "distinct (map fst rows) \<Longrightarrow> distinct (map fst (keep_rows expires now rows))"
  by (simp add: keep_rows_def distinct_map_filter)

lemma statement_same: "statement st = (e, st') \<Longrightarrow> auth_db.truncate st' = auth_db.truncate st"
  by (auto simp: statement_def auth_db.truncate_def split: list.splits)

lemma auth_keys_same: "auth_db.truncate st' = auth_db.truncate st \<Longrightarrow> auth_keys st' = auth_keys st"
  by (simp add: auth_db.truncate_def auth_keys_def)

lemma purge_table_step:
  assumes put: "\<And>st. auth_keys st \<Longrightarrow> view_le (db_view (put (keep_rows expires now (rows st)) st)) (db_view st) \<and>
      auth_keys (put (keep_rows expires now (rows st)) st)"
    and keys: "auth_keys st"
    and run: "purge_table rows put expires now (e, n, st) = (e', n', st')"
  shows "view_le (db_view st') (db_view st) \<and> auth_keys st'"
proof (cases e)
  case (Some x)
  with run keys show ?thesis by (simp add: purge_table_def)
next
  case None
  obtain e1 st1 where e1: "statement st = (e1, st1)"
    by (cases "statement st")
  have v1: "db_view st1 = db_view st" and k1: "auth_keys st1"
    using statement_tables [OF e1] auth_keys_same [OF statement_same [OF e1]] keys by auto
  show ?thesis
    using run None e1 put [OF k1] v1 k1 by (auto simp: purge_table_def Let_def split: option.splits)
qed

lemma purge_puts:
  assumes "auth_keys st"
  shows "view_le (db_view (st\<lparr>db_pairing := keep_rows x now (db_pairing st)\<rparr>)) (db_view st) \<and>
      auth_keys (st\<lparr>db_pairing := keep_rows x now (db_pairing st)\<rparr>)"
    and "view_le (db_view (st\<lparr>db_reqs := keep_rows y now (db_reqs st)\<rparr>)) (db_view st) \<and>
      auth_keys (st\<lparr>db_reqs := keep_rows y now (db_reqs st)\<rparr>)"
    and "view_le (db_view (st\<lparr>db_codes := keep_rows z now (db_codes st)\<rparr>)) (db_view st) \<and>
      auth_keys (st\<lparr>db_codes := keep_rows z now (db_codes st)\<rparr>)"
    and "view_le (db_view (st\<lparr>db_access := keep_rows u now (db_access st)\<rparr>)) (db_view st) \<and>
      auth_keys (st\<lparr>db_access := keep_rows u now (db_access st)\<rparr>)"
    and "view_le (db_view (st\<lparr>db_refresh := keep_rows w now (db_refresh st)\<rparr>)) (db_view st) \<and>
      auth_keys (st\<lparr>db_refresh := keep_rows w now (db_refresh st)\<rparr>)"
  using assms by (simp_all add: view_le_def db_view_def auth_keys_def keep_rows_le keep_rows_keys)

lemma purge_expired_auth_le:
  assumes keys: "auth_keys st" and run: "purge_expired_auth now st = (e, n, st')"
  shows "view_le (db_view st') (db_view st) \<and> auth_keys st'"
proof -
  define a1 where "a1 = purge_table db_pairing (\<lambda>t s. s\<lparr>db_pairing := t\<rparr>) pc_expires now (None, 0, st)"
  define a2 where "a2 = purge_table db_reqs (\<lambda>t s. s\<lparr>db_reqs := t\<rparr>) aq_expires now a1"
  define a3 where "a3 = purge_table db_codes (\<lambda>t s. s\<lparr>db_codes := t\<rparr>) co_expires now a2"
  define a4 where "a4 = purge_table db_access (\<lambda>t s. s\<lparr>db_access := t\<rparr>) at_expires now a3"
  have last: "purge_table db_refresh (\<lambda>t s. s\<lparr>db_refresh := t\<rparr>) rf_expires now a4 = (e, n, st')"
    using run by (simp only: purge_expired_auth_def a1_def a2_def a3_def a4_def)
  obtain e1 n1 s1 e2 n2 s2 e3 n3 s3 e4 n4 s4
    where eqs: "a1 = (e1, n1, s1)" "a2 = (e2, n2, s2)" "a3 = (e3, n3, s3)" "a4 = (e4, n4, s4)"
    by (metis prod_cases3)
  have 1: "view_le (db_view s1) (db_view st) \<and> auth_keys s1"
    by (rule purge_table_step [where rows = db_pairing and put = "\<lambda>t s. s\<lparr>db_pairing := t\<rparr>", OF purge_puts(1) keys])
      (use eqs a1_def in auto)
  have 2: "view_le (db_view s2) (db_view s1) \<and> auth_keys s2"
    by (rule purge_table_step [where rows = db_reqs and put = "\<lambda>t s. s\<lparr>db_reqs := t\<rparr>", OF purge_puts(2) conjunct2 [OF 1]])
      (use eqs a2_def in auto)
  have 3: "view_le (db_view s3) (db_view s2) \<and> auth_keys s3"
    by (rule purge_table_step [where rows = db_codes and put = "\<lambda>t s. s\<lparr>db_codes := t\<rparr>", OF purge_puts(3) conjunct2 [OF 2]])
      (use eqs a3_def in auto)
  have 4: "view_le (db_view s4) (db_view s3) \<and> auth_keys s4"
    by (rule purge_table_step [where rows = db_access and put = "\<lambda>t s. s\<lparr>db_access := t\<rparr>", OF purge_puts(4) conjunct2 [OF 3]])
      (use eqs a4_def in auto)
  have "view_le (db_view st') (db_view s4) \<and> auth_keys st'"
    by (rule purge_table_step [where rows = db_refresh and put = "\<lambda>t s. s\<lparr>db_refresh := t\<rparr>",
          OF purge_puts(5) conjunct2 [OF 4]])
      (use last eqs in auto)
  with 1 2 3 4 show ?thesis
    by (blast intro: view_le_trans)
qed

end
