(* ===== verification/AuthServer.thy ===== *)
theory AuthServer
  imports AuthStore
begin

text \<open>
  The authorization server, \<^verbatim>\<open>shared/authsrv/authsrv.go\<close> and \<^verbatim>\<open>direct.go\<close>, over any store with the
  interface of \<^verbatim>\<open>AuthStore\<close>. A handler takes the readings of the clock and the random bytes
  it consumes (\<open>auth_env\<close>) and the decoded request, and gives the reply and the store. SHA-256
  and \<^verbatim>\<open>url.Parse\<close> are parameters (\<open>af_sha\<close>, \<open>af_url\<close>). A redirect is the registered URI with the
  query parameters that are set on it; headers and page markup are not kept.
\<close>

section \<open>Encodings and random names\<close>

definition b64url :: "nat \<Rightarrow> char" where
  "b64url n = (''ABCDEFGHIJKLMNOPQRSTUVWXYZabcdefghijklmnopqrstuvwxyz0123456789-_'') ! (n mod 64)"

fun base64url :: "nat list \<Rightarrow> string" where
  "base64url [] = []"
| "base64url [a] = [b64url (a div 4), b64url (a mod 4 * 16)]"
| "base64url [a, b] = [b64url (a div 4), b64url (a mod 4 * 16 + b div 16), b64url (b mod 16 * 4)]"
| "base64url (a # b # c # bs) =
     b64url (a div 4) # b64url (a mod 4 * 16 + b div 16) # b64url (b mod 16 * 4 + c div 64) # b64url (c mod 64)
       # base64url bs"

definition hex_digit :: "nat \<Rightarrow> char" where
  "hex_digit n = ''0123456789abcdef'' ! (n mod 16)"

definition hex :: "nat list \<Rightarrow> string" where
  "hex bs = concat (map (\<lambda>b. [hex_digit (b div 16), hex_digit b]) bs)"

text \<open>\<open>randomToken n\<close> on the bytes the source gives.\<close>

definition random_token :: "nat \<Rightarrow> nat list \<Rightarrow> string" where
  "random_token n bytes = base64url (take n bytes)"

definition pick :: "string \<Rightarrow> nat \<Rightarrow> char" where
  "pick letters b = letters ! (b mod length letters)"

definition verify_letters :: string where
  "verify_letters = ''23456789ABCDEFGHJKMNPQRSTUVWXYZ''"

definition human_letters :: string where
  "human_letters = ''23456789ABCDEFGHJKLMNPQRSTUVWXYZ''"

definition verify_code :: "nat list \<Rightarrow> string" where
  "verify_code bytes =
     (let out = map (pick verify_letters) (take 4 bytes) in take 2 out @ ''-'' @ drop 2 out)"

definition human_code :: "nat list \<Rightarrow> string" where
  "human_code bytes =
     concat (map (\<lambda>(i, b). (if i = 4 then ''-'' else []) @ [pick human_letters b]) (enumerate 0 (take 8 bytes)))"

section \<open>Configuration, requests and replies\<close>

abbreviation pairing_ttl :: time where "pairing_ttl \<equiv> 10 * minute"
abbreviation request_ttl :: time where "request_ttl \<equiv> 10 * minute"
abbreviation code_ttl :: time where "code_ttl \<equiv> 5 * minute"
abbreviation access_ttl :: time where "access_ttl \<equiv> 2 * hour"
abbreviation refresh_ttl :: time where "refresh_ttl \<equiv> 720 * hour"

record auth_conf =
  af_sha :: "string \<Rightarrow> nat list"
  af_url :: "string \<Rightarrow> (string \<times> string) option"
  af_unicode :: unicode
  af_issuer :: string
  af_issuer_now :: "string option"
  af_companion :: string

record auth_env =
  ev_t1 :: time
  ev_t2 :: time
  ev_t3 :: time
  ev_t4 :: time
  ev_r1 :: "nat list"
  ev_r2 :: "nat list"
  ev_r3 :: "nat list"

record token_form =
  tf_grant :: string
  tf_client :: string
  tf_code :: string
  tf_redirect :: string
  tf_verifier :: string
  tf_refresh :: string

datatype auth_reply =
    OAuthError nat string string
  | Document "(string \<times> string list) list"
  | Registered client
  | PairingPage string string string string int
  | RedirectTo string "(string \<times> string) list"
  | Aborted
  | TokensAre string string int
  | PairInfoIs string string
  | NonceIs string
  | DeviceIs string string
  | CodeIs string int
  | LocalError auth_err

definition hash_secret :: "auth_conf \<Rightarrow> string \<Rightarrow> string" where
  "hash_secret K s = hex (af_sha K s)"

definition pkce :: "auth_conf \<Rightarrow> string \<Rightarrow> string" where
  "pkce K verifier = base64url (af_sha K verifier)"

definition store_failed :: auth_reply where
  "store_failed = OAuthError 503 ''temporarily_unavailable'' ''credential store unavailable; retry shortly''"

definition companion_origin :: "auth_conf \<Rightarrow> string" where
  "companion_origin K = (if af_companion K \<noteq> [] then af_companion K else ''http://127.0.0.1:8787'')"

definition issuer :: "auth_conf \<Rightarrow> string" where
  "issuer K = (case af_issuer_now K of Some u \<Rightarrow> if u \<noteq> [] then u else af_issuer K | None \<Rightarrow> af_issuer K)"

definition www_authenticate :: "auth_conf \<Rightarrow> string" where
  "www_authenticate K =
     ''Bearer resource_metadata='' @ [CHR 0x22] @ issuer K @ ''/.well-known/oauth-protected-resource'' @ [CHR 0x22]"

section \<open>Discovery and registration\<close>

definition handle_as_metadata :: "auth_conf \<Rightarrow> auth_reply" where
  "handle_as_metadata K = Document
     [(''issuer'', [issuer K]),
      (''authorization_endpoint'', [issuer K @ ''/authorize'']),
      (''token_endpoint'', [issuer K @ ''/token'']),
      (''registration_endpoint'', [issuer K @ ''/register'']),
      (''response_types_supported'', [''code'']),
      (''grant_types_supported'', [''authorization_code'', ''refresh_token'']),
      (''code_challenge_methods_supported'', [''S256'']),
      (''token_endpoint_auth_methods_supported'', [''none''])]"

definition handle_resource_metadata :: "auth_conf \<Rightarrow> auth_reply" where
  "handle_resource_metadata K = Document
     [(''resource'', [issuer K @ ''/mcp'']), (''authorization_servers'', [issuer K])]"

definition https_absolute :: "auth_conf \<Rightarrow> string \<Rightarrow> bool" where
  "https_absolute K u =
     (case af_url K u of None \<Rightarrow> False | Some (scheme, host) \<Rightarrow> scheme = ''https'' \<and> host \<noteq> [])"

definition handle_register ::
  "auth_conf \<Rightarrow> 's store_ops \<Rightarrow> auth_env \<Rightarrow> (string \<times> string list) option \<Rightarrow> 's \<Rightarrow> auth_reply \<times> 's" where
  "handle_register K S e body s =
     (case body of
        None \<Rightarrow> (OAuthError 400 ''invalid_client_metadata'' ''redirect_uris is required'', s)
      | Some (name, uris) \<Rightarrow>
          if uris = [] then (OAuthError 400 ''invalid_client_metadata'' ''redirect_uris is required'', s)
          else if \<not> list_all (https_absolute K) uris
          then (OAuthError 400 ''invalid_redirect_uri'' ''redirect_uris must be absolute https URLs'', s)
          else
            let c = \<lparr>oc_id = ''cl_'' @ random_token 12 (ev_r1 e), oc_name = name, oc_uris = uris, oc_created = ev_t1 e\<rparr> in
            (case so_create_client S c s of
               (Some err, s') \<Rightarrow> (OAuthError 500 ''server_error'' ''storing client failed'', s')
             | (None, s') \<Rightarrow> (Registered c, s')))"

section \<open>The authorization endpoint\<close>

definition redirect_error :: "auth_conf \<Rightarrow> string \<Rightarrow> string \<Rightarrow> string \<Rightarrow> auth_reply" where
  "redirect_error K uri st code =
     (case af_url K uri of
        None \<Rightarrow> OAuthError 400 code []
      | Some _ \<Rightarrow> RedirectTo uri ((''error'', code) # (if st \<noteq> [] then [(''state'', st)] else [])))"

text \<open>The countdown of the page: whole seconds, not below 0.\<close>

definition page_seconds :: "time \<Rightarrow> int" where
  "page_seconds d = (if d < 0 then 0 else d div second)"

definition render_pairing_page :: "string \<Rightarrow> string \<Rightarrow> string \<Rightarrow> string \<Rightarrow> time \<Rightarrow> auth_reply" where
  "render_pairing_page name rid verify err expires_in = PairingPage name rid verify err (page_seconds expires_in)"

definition new_request :: "auth_env \<Rightarrow> client \<Rightarrow> string \<Rightarrow> string \<Rightarrow> string \<Rightarrow> auth_request" where
  "new_request e c uri challenge st =
     \<lparr>aq_id = ''ar_'' @ random_token 16 (ev_r1 e), aq_client = oc_id c, aq_redirect = uri,
      aq_challenge = challenge, aq_state = st, aq_verify = verify_code (ev_r2 e),
      aq_device = [], aq_nonce = [], aq_expires = ev_t1 e + request_ttl\<rparr>"

definition handle_authorize_get ::
  "auth_conf \<Rightarrow> 's store_ops \<Rightarrow> auth_env \<Rightarrow> string \<Rightarrow> string \<Rightarrow> string \<Rightarrow> string \<Rightarrow> string \<Rightarrow> string \<Rightarrow> 's
     \<Rightarrow> auth_reply \<times> 's" where
  "handle_authorize_get K S e cid uri rtype st challenge meth s0 =
     (case so_get_client S cid s0 of
        (Inl AuthNotFound, s) \<Rightarrow> (OAuthError 400 ''invalid_request'' ''unknown client_id'', s)
      | (Inl (AuthFailed m), s) \<Rightarrow> (store_failed, s)
      | (Inr c, s) \<Rightarrow>
          if \<not> List.member (oc_uris c) uri
          then (OAuthError 400 ''invalid_request'' ''redirect_uri is not registered'', s)
          else if rtype \<noteq> ''code'' then (redirect_error K uri st ''unsupported_response_type'', s)
          else if challenge = [] \<or> meth \<noteq> ''S256'' then (redirect_error K uri st ''invalid_request'', s)
          else
            let q = new_request e c uri challenge st in
            (case so_put_request S q s of
               (Some err, s') \<Rightarrow> (OAuthError 500 ''server_error'' ''storing request failed'', s')
             | (None, s') \<Rightarrow>
                 (render_pairing_page (oc_name c) (aq_id q) (aq_verify q) [] (aq_expires q - ev_t2 e), s')))"

definition new_code :: "auth_conf \<Rightarrow> auth_env \<Rightarrow> auth_request \<Rightarrow> string \<Rightarrow> string \<Rightarrow> auth_code" where
  "new_code K e q dev raw =
     \<lparr>co_code = hash_secret K raw, co_client = aq_client q, co_device = dev, co_redirect = aq_redirect q,
      co_challenge = aq_challenge q, co_expires = ev_t3 e + code_ttl\<rparr>"

definition issue_auth_code ::
  "auth_conf \<Rightarrow> 's store_ops \<Rightarrow> auth_env \<Rightarrow> auth_request \<Rightarrow> string \<Rightarrow> 's \<Rightarrow> auth_reply \<times> 's" where
  "issue_auth_code K S e q dev s =
     (let raw = ''ac_'' @ random_token 24 (ev_r1 e) in
      (case so_put_code S (new_code K e q dev raw) s of
         (Some err, s') \<Rightarrow> (OAuthError 500 ''server_error'' ''storing code failed'', s')
       | (None, s') \<Rightarrow>
          (case af_url K (aq_redirect q) of
             None \<Rightarrow> (Aborted, s')
           | Some _ \<Rightarrow>
              (RedirectTo (aq_redirect q)
                 ((''code'', raw) # (if aq_state q \<noteq> [] then [(''state'', aq_state q)] else [])), s'))))"

text \<open>What the page sends, and what the server makes of it.\<close>

definition typed_code :: "auth_conf \<Rightarrow> string \<Rightarrow> string" where
  "typed_code K s = to_upper (af_unicode K) (trim_space s)"

definition code_char :: "char \<Rightarrow> bool" where
  "code_char c = (let n = (of_char c :: nat) in (65 \<le> n \<and> n \<le> 90) \<or> (48 \<le> n \<and> n \<le> 57))"

definition page_value :: "string \<Rightarrow> string" where
  "page_value s = take 8 (filter code_char (map upper_byte s))"

text \<open>After a wrong code the request is put back with a new deadline, for another try.\<close>

definition rearm :: "'s store_ops \<Rightarrow> auth_env \<Rightarrow> auth_request \<Rightarrow> 's \<Rightarrow> auth_reply \<times> 's" where
  "rearm S e q0 s =
     (let q = q0\<lparr>aq_expires := ev_t3 e + request_ttl\<rparr>;
          (_, s1) = so_put_request S q s;
          (c, s2) = so_get_client S (aq_client q) s1
      in (render_pairing_page (case c of Inr cl \<Rightarrow> oc_name cl | Inl _ \<Rightarrow> []) (aq_id q) (aq_verify q)
            ''That pairing code is not valid or has expired. Generate a new code in Fylane and try again.''
            (aq_expires q - ev_t4 e), s2))"

definition handle_authorize_post ::
  "auth_conf \<Rightarrow> 's store_ops \<Rightarrow> auth_env \<Rightarrow> bool \<Rightarrow> string \<Rightarrow> string \<Rightarrow> 's \<Rightarrow> auth_reply \<times> 's" where
  "handle_authorize_post K S e form rid pcode s0 =
     (if \<not> form then (OAuthError 400 ''invalid_request'' ''invalid form'', s0)
      else case so_take_request S rid (ev_t1 e) s0 of
        (Inl AuthNotFound, s) \<Rightarrow>
          (OAuthError 400 ''invalid_request'' ''authorization request expired; restart the connection'', s)
      | (Inl (AuthFailed m), s) \<Rightarrow> (store_failed, s)
      | (Inr q, s) \<Rightarrow>
         (case so_take_pairing S (typed_code K pcode) (ev_t2 e) s of
            (Inl (AuthFailed m), s') \<Rightarrow> (store_failed, s')
          | (Inl AuthNotFound, s') \<Rightarrow> rearm S e q s'
          | (Inr p, s') \<Rightarrow> issue_auth_code K S e q (pc_device p) s'))"

definition handle_authorize_continue ::
  "auth_conf \<Rightarrow> 's store_ops \<Rightarrow> auth_env \<Rightarrow> bool \<Rightarrow> string \<Rightarrow> string \<Rightarrow> 's \<Rightarrow> auth_reply \<times> 's" where
  "handle_authorize_continue K S e form rid nonce s0 =
     (if \<not> form then (OAuthError 400 ''invalid_request'' ''invalid form'', s0)
      else case so_take_request S rid (ev_t1 e) s0 of
        (Inl AuthNotFound, s) \<Rightarrow>
          (OAuthError 400 ''invalid_request'' ''authorization request expired; restart the connection'', s)
      | (Inl (AuthFailed m), s) \<Rightarrow> (store_failed, s)
      | (Inr q, s) \<Rightarrow>
          if aq_device q = [] \<or> aq_nonce q = [] \<or> nonce = [] \<or> hash_secret K nonce \<noteq> aq_nonce q
          then (OAuthError 400 ''invalid_request'' ''invalid continuation'', s)
          else issue_auth_code K S e q (aq_device q) s)"

section \<open>Devices and push pairing\<close>

datatype device_err = DevStore string | DevMissing | DevMalformed | DevUnknown | DevInvalid

definition device_err_text :: "device_err \<Rightarrow> string" where
  "device_err_text e =
     (case e of
        DevStore m \<Rightarrow> ''credential store unavailable: '' @ m
      | DevMissing \<Rightarrow> ''missing device credentials''
      | DevMalformed \<Rightarrow> ''malformed device credentials''
      | DevUnknown \<Rightarrow> ''unknown device''
      | DevInvalid \<Rightarrow> ''invalid device credentials'')"

definition cut_prefix :: "string \<Rightarrow> string \<Rightarrow> string option" where
  "cut_prefix p s = (if has_prefix s p then Some (drop (length p) s) else None)"

lemma cut_prefix_append [simp]: "cut_prefix p (p @ s) = Some s"
  by (simp add: cut_prefix_def)

lemmas cut_bearer [simp] = cut_prefix_append [of "''Bearer ''", simplified]

definition authenticate_device ::
  "auth_conf \<Rightarrow> 's store_ops \<Rightarrow> string \<Rightarrow> 's \<Rightarrow> (device_err + string) \<times> 's" where
  "authenticate_device K S header s0 =
     (case cut_prefix ''Bearer '' header of
        None \<Rightarrow> (Inl DevMissing, s0)
      | Some raw \<Rightarrow>
         (case after_byte (CHR '':'') raw of
            None \<Rightarrow> (Inl DevMalformed, s0)
          | Some secret \<Rightarrow>
             (case so_get_device S (before_byte (CHR '':'') raw) s0 of
                (Inl (AuthFailed m), s) \<Rightarrow> (Inl (DevStore m), s)
              | (Inl AuthNotFound, s) \<Rightarrow> (Inl DevUnknown, s)
              | (Inr d, s) \<Rightarrow>
                  if hash_secret K secret \<noteq> dv_secret_hash d then (Inl DevInvalid, s) else (Inr (dv_id d), s))))"

definition device_refused :: "device_err \<Rightarrow> auth_reply" where
  "device_refused e =
     (case e of DevStore _ \<Rightarrow> store_failed | _ \<Rightarrow> OAuthError 401 ''invalid_client'' ''device credentials required'')"

definition handle_device_register :: "auth_conf \<Rightarrow> 's store_ops \<Rightarrow> auth_env \<Rightarrow> string \<Rightarrow> 's \<Rightarrow> auth_reply \<times> 's" where
  "handle_device_register K S e name s =
     (let secret = random_token 32 (ev_r1 e);
          d = \<lparr>dv_id = ''dev_'' @ random_token 12 (ev_r2 e), dv_secret_hash = hash_secret K secret,
               dv_name = name, dv_created = ev_t1 e\<rparr> in
      (case so_create_device S d s of
         (Some err, s') \<Rightarrow> (OAuthError 500 ''server_error'' [], s')
       | (None, s') \<Rightarrow> (DeviceIs (dv_id d) secret, s')))"

definition issue_pairing_code ::
  "'s store_ops \<Rightarrow> auth_env \<Rightarrow> string \<Rightarrow> 's \<Rightarrow> (auth_err + string \<times> time) \<times> 's" where
  "issue_pairing_code S e dev s =
     (let p = \<lparr>pc_code = human_code (ev_r1 e), pc_device = dev, pc_expires = ev_t2 e + pairing_ttl\<rparr> in
      (case so_put_pairing S p s of
         (Some err, s') \<Rightarrow> (Inl err, s')
       | (None, s') \<Rightarrow> (Inr (pc_code p, pairing_ttl), s')))"

definition handle_pairing_code :: "auth_conf \<Rightarrow> 's store_ops \<Rightarrow> auth_env \<Rightarrow> string \<Rightarrow> 's \<Rightarrow> auth_reply \<times> 's" where
  "handle_pairing_code K S e header s0 =
     (case authenticate_device K S header s0 of
        (Inl err, s) \<Rightarrow> (OAuthError 401 ''invalid_client'' (device_err_text err), s)
      | (Inr dev, s) \<Rightarrow>
         (case issue_pairing_code S e dev s of
            (Inl err, s') \<Rightarrow> (OAuthError 500 ''server_error'' [], s')
          | (Inr (code, ttl), s') \<Rightarrow> (CodeIs code (ttl div second), s')))"

datatype info_err = InfoStore auth_err | AlreadyApproved

definition request_info ::
  "'s store_ops \<Rightarrow> auth_env \<Rightarrow> string \<Rightarrow> 's \<Rightarrow> (info_err + string \<times> string) \<times> 's" where
  "request_info S e rid s0 =
     (case so_get_request S rid (ev_t1 e) s0 of
        (Inl err, s) \<Rightarrow> (Inl (InfoStore err), s)
      | (Inr q, s) \<Rightarrow>
          if aq_device q \<noteq> [] then (Inl AlreadyApproved, s)
          else (case so_get_client S (aq_client q) s of
             (c, s') \<Rightarrow> (Inr (case c of Inr cl \<Rightarrow> oc_name cl | Inl _ \<Rightarrow> [], aq_verify q), s')))"

definition approve_request ::
  "auth_conf \<Rightarrow> 's store_ops \<Rightarrow> auth_env \<Rightarrow> string \<Rightarrow> string \<Rightarrow> 's \<Rightarrow> (auth_err + string) \<times> 's" where
  "approve_request K S e rid dev s =
     (let nonce = ''pn_'' @ random_token 24 (ev_r1 e) in
      (case so_bind_request S rid dev (hash_secret K nonce) (ev_t1 e) s of
         (Some err, s') \<Rightarrow> (Inl err, s')
       | (None, s') \<Rightarrow> (Inr nonce, s')))"

definition handle_pair_info :: "auth_conf \<Rightarrow> 's store_ops \<Rightarrow> auth_env \<Rightarrow> string \<Rightarrow> string \<Rightarrow> 's \<Rightarrow> auth_reply \<times> 's" where
  "handle_pair_info K S e header rid s0 =
     (case authenticate_device K S header s0 of
        (Inl err, s) \<Rightarrow> (device_refused err, s)
      | (Inr dev, s) \<Rightarrow>
         (case request_info S e rid s of
            (Inl (InfoStore AuthNotFound), s') \<Rightarrow>
              (OAuthError 404 ''invalid_request'' ''unknown or expired authorization request'', s')
          | (Inl AlreadyApproved, s') \<Rightarrow> (OAuthError 409 ''invalid_request'' ''request already approved'', s')
          | (Inl (InfoStore (AuthFailed m)), s') \<Rightarrow> (store_failed, s')
          | (Inr (name, verify), s') \<Rightarrow> (PairInfoIs name verify, s')))"

definition handle_pair_approve ::
  "auth_conf \<Rightarrow> 's store_ops \<Rightarrow> auth_env \<Rightarrow> string \<Rightarrow> string option \<Rightarrow> 's \<Rightarrow> auth_reply \<times> 's" where
  "handle_pair_approve K S e header body s0 =
     (case authenticate_device K S header s0 of
        (Inl err, s) \<Rightarrow> (device_refused err, s)
      | (Inr dev, s) \<Rightarrow>
         (case body of
            None \<Rightarrow> (OAuthError 400 ''invalid_request'' ''request_id is required'', s)
          | Some rid \<Rightarrow>
              if rid = [] then (OAuthError 400 ''invalid_request'' ''request_id is required'', s)
              else case approve_request K S e rid dev s of
                 (Inl AuthNotFound, s') \<Rightarrow>
                   (OAuthError 409 ''invalid_request'' ''request unknown, expired, or already approved'', s')
               | (Inl (AuthFailed m), s') \<Rightarrow> (store_failed, s')
               | (Inr nonce, s') \<Rightarrow> (NonceIs nonce, s')))"

section \<open>The token endpoint\<close>

definition new_access :: "auth_conf \<Rightarrow> auth_env \<Rightarrow> string \<Rightarrow> string \<Rightarrow> string \<Rightarrow> access_token" where
  "new_access K e raw dev cid =
     \<lparr>at_token = hash_secret K raw, at_device = dev, at_client = cid, at_expires = ev_t2 e + access_ttl\<rparr>"

definition new_refresh :: "auth_conf \<Rightarrow> auth_env \<Rightarrow> string \<Rightarrow> string \<Rightarrow> string \<Rightarrow> string \<Rightarrow> refresh_token" where
  "new_refresh K e raw fam dev cid =
     \<lparr>rf_token = hash_secret K raw, rf_family = fam, rf_device = dev, rf_client = cid,
      rf_expires = ev_t3 e + refresh_ttl, rf_used = False, rf_revoked = False\<rparr>"

definition issue_tokens ::
  "auth_conf \<Rightarrow> 's store_ops \<Rightarrow> auth_env \<Rightarrow> string \<Rightarrow> string \<Rightarrow> string \<Rightarrow> 's \<Rightarrow> auth_reply \<times> 's" where
  "issue_tokens K S e dev cid fam s =
     (let raw_access = ''at_'' @ random_token 32 (ev_r1 e);
          raw_refresh = ''rt_'' @ random_token 32 (ev_r2 e) in
      (case so_put_access S (new_access K e raw_access dev cid) s of
         (Some err, s1) \<Rightarrow> (OAuthError 500 ''server_error'' [], s1)
       | (None, s1) \<Rightarrow>
          (case so_put_refresh S (new_refresh K e raw_refresh fam dev cid) s1 of
             (Some err, s2) \<Rightarrow> (OAuthError 500 ''server_error'' [], s2)
           | (None, s2) \<Rightarrow> (TokensAre raw_access raw_refresh (access_ttl div second), s2))))"

definition token_from_code ::
  "auth_conf \<Rightarrow> 's store_ops \<Rightarrow> auth_env \<Rightarrow> token_form \<Rightarrow> 's \<Rightarrow> auth_reply \<times> 's" where
  "token_from_code K S e t s0 =
     (case so_take_code S (hash_secret K (tf_code t)) (ev_t1 e) s0 of
        (Inl AuthNotFound, s) \<Rightarrow> (OAuthError 400 ''invalid_grant'' ''authorization code is invalid or expired'', s)
      | (Inl (AuthFailed m), s) \<Rightarrow> (store_failed, s)
      | (Inr c, s) \<Rightarrow>
          if tf_client t \<noteq> co_client c then (OAuthError 400 ''invalid_grant'' ''client mismatch'', s)
          else if tf_redirect t \<noteq> [] \<and> tf_redirect t \<noteq> co_redirect c
          then (OAuthError 400 ''invalid_grant'' ''redirect_uri mismatch'', s)
          else if tf_verifier t = [] \<or> pkce K (tf_verifier t) \<noteq> co_challenge c
          then (OAuthError 400 ''invalid_grant'' ''PKCE verification failed'', s)
          else issue_tokens K S e (co_device c) (co_client c) (''fam_'' @ random_token 12 (ev_r3 e)) s)"

text \<open>
  A refresh is three steps of the store with other requests between them: the token is read
  and judged, it is marked used, the new pair is written. The judgement may name a client for
  the hook \<open>OnFamilyRevoked\<close>.
\<close>

definition refresh_check ::
  "auth_conf \<Rightarrow> 's store_ops \<Rightarrow> auth_env \<Rightarrow> token_form \<Rightarrow> 's \<Rightarrow> ((auth_reply \<times> string option) + refresh_token) \<times> 's" where
  "refresh_check K S e t s0 =
     (case so_get_refresh S (hash_secret K (tf_refresh t)) s0 of
        (Inl (AuthFailed m), s) \<Rightarrow> (Inl (store_failed, None), s)
      | (Inl AuthNotFound, s) \<Rightarrow>
          (Inl (OAuthError 400 ''invalid_grant'' ''refresh token is invalid or expired'', None), s)
      | (Inr r, s) \<Rightarrow>
          if rf_revoked r \<or> rf_expires r < ev_t1 e
          then (Inl (OAuthError 400 ''invalid_grant'' ''refresh token is invalid or expired'', None), s)
          else if tf_client t \<noteq> rf_client r then (Inl (OAuthError 400 ''invalid_grant'' ''client mismatch'', None), s)
          else if rf_used r then
            (case so_revoke_family S (rf_family r) s of
               (Inl err, s') \<Rightarrow> (Inl (OAuthError 400 ''invalid_grant'' ''refresh token reuse detected'', None), s')
             | (Inr n, s') \<Rightarrow>
                 (Inl (OAuthError 400 ''invalid_grant'' ''refresh token reuse detected; all sessions revoked'',
                       Some (rf_client r)), s'))
          else (Inr r, s))"

definition refresh_mark :: "'s store_ops \<Rightarrow> refresh_token \<Rightarrow> 's \<Rightarrow> auth_reply option \<times> 's" where
  "refresh_mark S r s =
     (case so_mark_used S (rf_token r) s of
        (Some err, s') \<Rightarrow> (Some store_failed, s')
      | (None, s') \<Rightarrow> (None, s'))"

definition refresh_issue ::
  "auth_conf \<Rightarrow> 's store_ops \<Rightarrow> auth_env \<Rightarrow> refresh_token \<Rightarrow> 's \<Rightarrow> auth_reply \<times> 's" where
  "refresh_issue K S e r s = issue_tokens K S e (rf_device r) (rf_client r) (rf_family r) s"

definition token_from_refresh ::
  "auth_conf \<Rightarrow> 's store_ops \<Rightarrow> auth_env \<Rightarrow> token_form \<Rightarrow> 's \<Rightarrow> auth_reply \<times> string option \<times> 's" where
  "token_from_refresh K S e t s0 =
     (case refresh_check K S e t s0 of
        (Inl (reply, hook), s) \<Rightarrow> (reply, hook, s)
      | (Inr r, s) \<Rightarrow>
         (case refresh_mark S r s of
            (Some reply, s') \<Rightarrow> (reply, None, s')
          | (None, s') \<Rightarrow> (case refresh_issue K S e r s' of (reply, s'') \<Rightarrow> (reply, None, s''))))"

definition handle_token ::
  "auth_conf \<Rightarrow> 's store_ops \<Rightarrow> auth_env \<Rightarrow> bool \<Rightarrow> token_form \<Rightarrow> 's \<Rightarrow> auth_reply \<times> string option \<times> 's" where
  "handle_token K S e form t s =
     (if \<not> form then (OAuthError 400 ''invalid_request'' ''invalid form'', None, s)
      else if tf_grant t = ''authorization_code'' then
        (case token_from_code K S e t s of (reply, s') \<Rightarrow> (reply, None, s'))
      else if tf_grant t = ''refresh_token'' then token_from_refresh K S e t s
      else (OAuthError 400 ''unsupported_grant_type'' [], None, s))"

section \<open>The protected resource\<close>

datatype bearer_err = BearerStore string | BearerMissing | BearerInvalid

definition bearer_token ::
  "auth_conf \<Rightarrow> 's store_ops \<Rightarrow> auth_env \<Rightarrow> string \<Rightarrow> 's \<Rightarrow> (bearer_err + access_token) \<times> 's" where
  "bearer_token K S e header s0 =
     (case cut_prefix ''Bearer '' header of
        None \<Rightarrow> (Inl BearerMissing, s0)
      | Some raw \<Rightarrow>
          if raw = [] then (Inl BearerMissing, s0)
          else case so_get_access S (hash_secret K raw) (ev_t1 e) s0 of
             (Inl (AuthFailed m), s) \<Rightarrow> (Inl (BearerStore m), s)
           | (Inl AuthNotFound, s) \<Rightarrow> (Inl BearerInvalid, s)
           | (Inr t, s) \<Rightarrow> (Inr t, s))"

definition validate_bearer ::
  "auth_conf \<Rightarrow> 's store_ops \<Rightarrow> auth_env \<Rightarrow> string \<Rightarrow> 's \<Rightarrow> (bearer_err + string) \<times> 's" where
  "validate_bearer K S e header s0 = apfst (map_sum (\<lambda>err. err) at_device) (bearer_token K S e header s0)"

definition provider_blob :: "unicode \<Rightarrow> string \<Rightarrow> string list \<Rightarrow> string" where
  "provider_blob u name uris = to_lower u name @ concat (map (\<lambda>x. '' '' @ to_lower u x) uris)"

definition provider_from_client :: "unicode \<Rightarrow> string \<Rightarrow> string list \<Rightarrow> string" where
  "provider_from_client u name uris =
     (let blob = provider_blob u name uris in
      if contains blob ''claude'' \<or> contains blob ''anthropic'' then ''claude''
      else if contains blob ''chatgpt'' \<or> contains blob ''openai'' then ''chatgpt''
      else if contains blob ''grok'' \<or> contains blob ''x.ai'' then ''grok''
      else if contains blob ''gemini'' \<or> contains blob ''google'' then ''gemini''
      else ''unknown'')"

definition caller_char :: "char \<Rightarrow> bool" where
  "caller_char c =
     (let n = (of_char c :: nat)
      in (65 \<le> n \<and> n \<le> 90) \<or> (97 \<le> n \<and> n \<le> 122) \<or> (48 \<le> n \<and> n \<le> 57) \<or> n = 32 \<or> n = 95 \<or> n = 45)"

definition words_of :: "string \<Rightarrow> string list" where
  "words_of s = filter (\<lambda>w. w \<noteq> []) (split_on (CHR '' '') s)"

definition caller_name :: "string \<Rightarrow> string" where
  "caller_name name =
     (let n = join_with '' '' (words_of (filter caller_char name));
          m = (if 24 < length n then trim_space (take 24 n) else n)
      in if map lower_byte m = ''unknown'' then [] else m)"

definition caller_from_client :: "unicode \<Rightarrow> string \<Rightarrow> string list \<Rightarrow> string" where
  "caller_from_client u name uris =
     (let p = provider_from_client u name uris in
      if p \<noteq> ''unknown'' then p
      else let n = caller_name name in if n \<noteq> [] then n else ''unknown'')"

definition validate_bearer_provider ::
  "auth_conf \<Rightarrow> 's store_ops \<Rightarrow> auth_env \<Rightarrow> string \<Rightarrow> 's \<Rightarrow> (bearer_err + string \<times> string) \<times> 's" where
  "validate_bearer_provider K S e header s0 =
     (case bearer_token K S e header s0 of
        (Inl err, s) \<Rightarrow> (Inl err, s)
      | (Inr t, s) \<Rightarrow>
         (case so_get_client S (at_client t) s of
            (Inl _, s') \<Rightarrow> (Inr (at_device t, ''unknown''), s')
          | (Inr c, s') \<Rightarrow> (Inr (at_device t, caller_from_client (af_unicode K) (oc_name c) (oc_uris c)), s')))"

section \<open>Direct mode\<close>

definition local_device_id :: string where
  "local_device_id = ''dev_local''"

definition ensure_local_device ::
  "auth_conf \<Rightarrow> 's store_ops \<Rightarrow> auth_env \<Rightarrow> string \<Rightarrow> 's \<Rightarrow> auth_err option \<times> 's" where
  "ensure_local_device K S e name s0 =
     (case so_get_device S local_device_id s0 of
        (Inr d, s) \<Rightarrow> (None, s)
      | (Inl (AuthFailed m), s) \<Rightarrow> (Some (AuthFailed m), s)
      | (Inl AuthNotFound, s) \<Rightarrow>
          so_create_device S \<lparr>dv_id = local_device_id, dv_secret_hash = hash_secret K (random_token 32 (ev_r1 e)),
              dv_name = name, dv_created = ev_t1 e\<rparr> s)"

end
