(* ===== verification/AuthFlow.thy ===== *)
theory AuthFlow
  imports AuthServer
begin

text \<open>
  The authorization server as a whole: the requests of the network and of the desktop as one
  type of calls, a history of calls with their replies, and where a credential comes from.
  The facts about the store are proved once over the interface \<open>auth_store\<close>.
\<close>

section \<open>Calls and histories\<close>

datatype auth_call =
    CallMetadata
  | CallResource
  | CallRegister "(string \<times> string list) option"
  | CallAuthorize string string string string string string
  | CallPost bool string string
  | CallContinue bool string string
  | CallToken bool token_form
  | CallDevice string
  | CallPair string
  | CallPairInfo string string
  | CallPairApprove string "string option"
  | DesktopCode
  | DesktopInfo string
  | DesktopApprove string

text \<open>
  \<open>serve\<close> is the mux of \<^verbatim>\<open>Routes\<close> and the three calls the companion makes in process
  (\<^verbatim>\<open>directsrv/directsrv.go\<close>: \<open>PairingCode\<close>, \<open>RequestInfo\<close>, \<open>Approve\<close>).
\<close>

definition desktop_code :: "'s store_ops \<Rightarrow> auth_env \<Rightarrow> 's \<Rightarrow> auth_reply \<times> 's" where
  "desktop_code S e s =
     (case issue_pairing_code S e local_device_id s of
        (Inl err, s') \<Rightarrow> (LocalError err, s')
      | (Inr (code, ttl), s') \<Rightarrow> (CodeIs code (ttl div second), s'))"

definition desktop_info :: "'s store_ops \<Rightarrow> auth_env \<Rightarrow> string \<Rightarrow> 's \<Rightarrow> auth_reply \<times> 's" where
  "desktop_info S e rid s =
     (case request_info S e rid s of
        (Inl (InfoStore err), s') \<Rightarrow> (LocalError err, s')
      | (Inl AlreadyApproved, s') \<Rightarrow> (LocalError (AuthFailed ''authorization request already approved''), s')
      | (Inr (name, verify), s') \<Rightarrow> (PairInfoIs name verify, s'))"

definition desktop_approve :: "auth_conf \<Rightarrow> 's store_ops \<Rightarrow> auth_env \<Rightarrow> string \<Rightarrow> 's \<Rightarrow> auth_reply \<times> 's" where
  "desktop_approve K S e rid s =
     (case approve_request K S e rid local_device_id s of
        (Inl err, s') \<Rightarrow> (LocalError err, s')
      | (Inr nonce, s') \<Rightarrow> (NonceIs nonce, s'))"

fun serve :: "auth_conf \<Rightarrow> 's store_ops \<Rightarrow> auth_env \<Rightarrow> auth_call \<Rightarrow> 's \<Rightarrow> auth_reply \<times> 's" where
  "serve K S e CallMetadata s = (handle_as_metadata K, s)"
| "serve K S e CallResource s = (handle_resource_metadata K, s)"
| "serve K S e (CallRegister body) s = handle_register K S e body s"
| "serve K S e (CallAuthorize cid uri rtype st ch meth) s = handle_authorize_get K S e cid uri rtype st ch meth s"
| "serve K S e (CallPost form rid pcode) s = handle_authorize_post K S e form rid pcode s"
| "serve K S e (CallContinue form rid nonce) s = handle_authorize_continue K S e form rid nonce s"
| "serve K S e (CallToken form t) s = (case handle_token K S e form t s of (reply, hook, s') \<Rightarrow> (reply, s'))"
| "serve K S e (CallDevice name) s = handle_device_register K S e name s"
| "serve K S e (CallPair header) s = handle_pairing_code K S e header s"
| "serve K S e (CallPairInfo header rid) s = handle_pair_info K S e header rid s"
| "serve K S e (CallPairApprove header body) s = handle_pair_approve K S e header body s"
| "serve K S e DesktopCode s = desktop_code S e s"
| "serve K S e (DesktopInfo rid) s = desktop_info S e rid s"
| "serve K S e (DesktopApprove rid) s = desktop_approve K S e rid s"

text \<open>What \<^verbatim>\<open>DirectRoutes\<close> lets the network reach.\<close>

fun direct_route :: "auth_call \<Rightarrow> bool" where
  "direct_route (CallDevice name) = False"
| "direct_route (CallPair header) = False"
| "direct_route (CallPairInfo header rid) = False"
| "direct_route (CallPairApprove header body) = False"
| "direct_route c = True"

fun desktop_call :: "auth_call \<Rightarrow> bool" where
  "desktop_call DesktopCode = True"
| "desktop_call (DesktopInfo rid) = True"
| "desktop_call (DesktopApprove rid) = True"
| "desktop_call c = False"

type_synonym trace = "(auth_env \<times> auth_call \<times> auth_reply) list"

text \<open>
  A history, newest call first. Between calls rows may be purged, and the one device of direct
  mode may be made.
\<close>

inductive history :: "auth_conf \<Rightarrow> 's store_ops \<Rightarrow> ('s \<Rightarrow> auth_view) \<Rightarrow> 's \<Rightarrow> trace \<Rightarrow> 's \<Rightarrow> bool"
  for K S V s0 where
  start: "history K S V s0 [] s0"
| call: "history K S V s0 tr s \<Longrightarrow> serve K S e c s = (reply, s') \<Longrightarrow> history K S V s0 ((e, c, reply) # tr) s'"
| purge: "history K S V s0 tr s \<Longrightarrow> view_le (V s') (V s) \<Longrightarrow> history K S V s0 tr s'"
| device: "history K S V s0 tr s \<Longrightarrow> ensure_local_device K S e name s = (err, s') \<Longrightarrow> history K S V s0 tr s'"

definition empty_view :: auth_view where
  "empty_view = \<lparr>av_devices = Map.empty, av_pairing = Map.empty, av_clients = Map.empty, av_reqs = Map.empty,
     av_codes = Map.empty, av_access = Map.empty, av_refresh = Map.empty\<rparr>"

section \<open>Where a credential comes from\<close>

text \<open>A client registered this redirect URI.\<close>

fun registered :: "trace \<Rightarrow> string \<Rightarrow> string \<Rightarrow> bool" where
  "registered [] cid uri = False"
| "registered ((e, c, reply) # tr) cid uri =
     ((case reply of Registered cl \<Rightarrow> oc_id cl = cid \<and> List.member (oc_uris cl) uri | _ \<Rightarrow> False)
      \<or> registered tr cid uri)"

text \<open>A pairing page was shown for this request: S256 challenge, registered URI.\<close>

fun asked :: "trace \<Rightarrow> string \<Rightarrow> string \<Rightarrow> string \<Rightarrow> string \<Rightarrow> bool" where
  "asked [] rid cid uri ch = False"
| "asked ((e, c, reply) # tr) rid cid uri ch =
     ((case (c, reply) of
         (CallAuthorize cid' uri' rtype st ch' meth, PairingPage name rid' verify err secs) \<Rightarrow>
           rid' = rid \<and> cid' = cid \<and> uri' = uri \<and> ch' = ch \<and> rtype = ''code'' \<and> meth = ''S256'' \<and> ch \<noteq> []
           \<and> registered tr cid uri
       | _ \<Rightarrow> False)
      \<or> asked tr rid cid uri ch)"

text \<open>The device whose credentials a header carries.\<close>

definition header_device :: "string \<Rightarrow> string" where
  "header_device header = before_byte (CHR '':'') (drop (length ''Bearer '') header)"

text \<open>A pairing code was handed to this device.\<close>

fun code_for :: "trace \<Rightarrow> string \<Rightarrow> string \<Rightarrow> bool" where
  "code_for [] code dev = False"
| "code_for ((e, c, reply) # tr) code dev =
     ((case reply of
         CodeIs code' secs \<Rightarrow>
           code' = code \<and> code = human_code (ev_r1 e) \<and>
           (case c of DesktopCode \<Rightarrow> dev = local_device_id | CallPair header \<Rightarrow> dev = header_device header | _ \<Rightarrow> False)
       | _ \<Rightarrow> False)
      \<or> code_for tr code dev)"

text \<open>A device said yes to this request and was given the nonce of this hash.\<close>

fun approved_for :: "auth_conf \<Rightarrow> trace \<Rightarrow> string \<Rightarrow> string \<Rightarrow> string \<Rightarrow> bool" where
  "approved_for K [] rid dev nh = False"
| "approved_for K ((e, c, reply) # tr) rid dev nh =
     ((case reply of
         NonceIs n \<Rightarrow>
           hash_secret K n = nh \<and>
           (case c of
              DesktopApprove rid' \<Rightarrow> rid' = rid \<and> dev = local_device_id
            | CallPairApprove header (Some rid') \<Rightarrow> rid' = rid \<and> dev = header_device header
            | _ \<Rightarrow> False)
       | _ \<Rightarrow> False)
      \<or> approved_for K tr rid dev nh)"

text \<open>
  An authorization code of this hash was sent to the redirect URI of a request: its sender
  typed a pairing code of the device, or showed the nonce of the device's yes.
\<close>

fun minted :: "auth_conf \<Rightarrow> trace \<Rightarrow> string \<Rightarrow> string \<Rightarrow> string \<Rightarrow> string \<Rightarrow> string \<Rightarrow> bool" where
  "minted K [] h cid dev uri ch = False"
| "minted K ((e, c, reply) # tr) h cid dev uri ch =
     ((case reply of
         RedirectTo uri' ((key, raw) # rest) \<Rightarrow>
           uri' = uri \<and> key = ''code'' \<and> hash_secret K raw = h \<and>
           (case c of
              CallPost form rid pcode \<Rightarrow> asked tr rid cid uri ch \<and> code_for tr (typed_code K pcode) dev
            | CallContinue form rid nonce \<Rightarrow>
                asked tr rid cid uri ch \<and> approved_for K tr rid dev (hash_secret K nonce)
            | _ \<Rightarrow> False)
       | _ \<Rightarrow> False)
      \<or> minted K tr h cid dev uri ch)"

text \<open>
  A code of the client for the device was redeemed with the verifier of its challenge: the
  tokens were handed out, or writing them failed half way.
\<close>

fun redeems :: "auth_reply \<Rightarrow> bool" where
  "redeems (TokensAre a r secs) = True"
| "redeems (OAuthError st code desc) = (st = 500)"
| "redeems reply = False"

fun authorised :: "auth_conf \<Rightarrow> trace \<Rightarrow> string \<Rightarrow> string \<Rightarrow> bool" where
  "authorised K [] cid dev = False"
| "authorised K ((e, c, reply) # tr) cid dev =
     ((case c of
         CallToken form t \<Rightarrow>
           redeems reply \<and> tf_grant t = ''authorization_code'' \<and> tf_client t = cid \<and> tf_verifier t \<noteq> [] \<and>
           (\<exists>uri. (tf_redirect t = [] \<or> tf_redirect t = uri) \<and>
                  minted K tr (hash_secret K (tf_code t)) cid dev uri (pkce K (tf_verifier t)))
       | _ \<Rightarrow> False)
      \<or> authorised K tr cid dev)"

definition auth_inv :: "auth_conf \<Rightarrow> trace \<Rightarrow> auth_view \<Rightarrow> bool" where
  "auth_inv K tr v \<longleftrightarrow>
     (\<forall>k d. av_devices v k = Some d \<longrightarrow> dv_id d = k) \<and>
     (\<forall>k c. av_clients v k = Some c \<longrightarrow> oc_id c = k \<and> (\<forall>u \<in> set (oc_uris c). registered tr k u \<and> https_absolute K u)) \<and>
     (\<forall>k p. av_pairing v k = Some p \<longrightarrow> code_for tr k (pc_device p)) \<and>
     (\<forall>k q. av_reqs v k = Some q \<longrightarrow> aq_id q = k \<and> https_absolute K (aq_redirect q) \<and>
        asked tr k (aq_client q) (aq_redirect q) (aq_challenge q) \<and>
        (aq_device q \<noteq> [] \<longrightarrow> approved_for K tr k (aq_device q) (aq_nonce q))) \<and>
     (\<forall>k c. av_codes v k = Some c \<longrightarrow> minted K tr k (co_client c) (co_device c) (co_redirect c) (co_challenge c)) \<and>
     (\<forall>k t. av_access v k = Some t \<longrightarrow> authorised K tr (at_client t) (at_device t)) \<and>
     (\<forall>k f. av_refresh v k = Some f \<longrightarrow> rf_token f = k \<and> authorised K tr (rf_client f) (rf_device f))"

section \<open>The invariant\<close>

lemma trace_mono:
  "registered tr cid uri \<Longrightarrow> registered (x # tr) cid uri"
  "asked tr rid cid uri ch \<Longrightarrow> asked (x # tr) rid cid uri ch"
  "code_for tr code dev \<Longrightarrow> code_for (x # tr) code dev"
  "approved_for K tr rid dev nh \<Longrightarrow> approved_for K (x # tr) rid dev nh"
  "minted K tr h cid dev uri ch \<Longrightarrow> minted K (x # tr) h cid dev uri ch"
  "authorised K tr cid dev \<Longrightarrow> authorised K (x # tr) cid dev"
  by (cases x, simp)+

lemma auth_inv_Cons:
  assumes "auth_inv K tr v"
  shows "auth_inv K (x # tr) v"
  using assms unfolding auth_inv_def
  by (elim conjE, intro conjI) (simp_all add: trace_mono)

lemma map_le_Some: "m \<subseteq>\<^sub>m m' \<Longrightarrow> m k = Some x \<Longrightarrow> m' k = Some x"
  by (auto simp: map_le_def dom_def)

lemma auth_inv_le: "auth_inv K tr w \<Longrightarrow> view_le v w \<Longrightarrow> auth_inv K tr v"
  unfolding auth_inv_def view_le_def
  by (elim conjE, intro conjI) (simp_all, (meson map_le_Some)+)

lemma auth_inv_empty [simp]: "auth_inv K [] empty_view"
  by (simp add: auth_inv_def empty_view_def)

lemma view_le_drop [simp]:
  "view_le (v\<lparr>av_pairing := (av_pairing v)(k := None)\<rparr>) v"
  "view_le (v\<lparr>av_reqs := (av_reqs v)(k := None)\<rparr>) v"
  "view_le (v\<lparr>av_codes := (av_codes v)(k := None)\<rparr>) v"
  by (simp_all add: view_le_def map_le_def)

lemma auth_inv_D:
  assumes "auth_inv K tr v"
  shows "av_devices v k = Some d \<Longrightarrow> dv_id d = k"
    and "av_clients v k = Some cl \<Longrightarrow> oc_id cl = k"
    and "av_clients v k = Some cl \<Longrightarrow> u \<in> set (oc_uris cl) \<Longrightarrow> registered tr k u \<and> https_absolute K u"
    and "av_pairing v k = Some p \<Longrightarrow> code_for tr k (pc_device p)"
    and "av_reqs v k = Some q \<Longrightarrow> aq_id q = k \<and> https_absolute K (aq_redirect q) \<and>
        asked tr k (aq_client q) (aq_redirect q) (aq_challenge q)"
    and "av_reqs v k = Some q \<Longrightarrow> aq_device q \<noteq> [] \<Longrightarrow> approved_for K tr k (aq_device q) (aq_nonce q)"
    and "av_codes v k = Some c \<Longrightarrow> minted K tr k (co_client c) (co_device c) (co_redirect c) (co_challenge c)"
    and "av_access v k = Some t \<Longrightarrow> authorised K tr (at_client t) (at_device t)"
    and "av_refresh v k = Some f \<Longrightarrow> rf_token f = k \<and> authorised K tr (rf_client f) (rf_device f)"
  using assms by (simp_all add: auth_inv_def)

lemma auth_inv_write:
  assumes "auth_inv K tr v"
  shows "dv_id d = k \<Longrightarrow> auth_inv K tr (v\<lparr>av_devices := (av_devices v)(k \<mapsto> d)\<rparr>)"
    and "oc_id cl = k \<Longrightarrow> \<forall>u \<in> set (oc_uris cl). registered tr k u \<and> https_absolute K u \<Longrightarrow>
        auth_inv K tr (v\<lparr>av_clients := (av_clients v)(k \<mapsto> cl)\<rparr>)"
    and "code_for tr k (pc_device p) \<Longrightarrow> auth_inv K tr (v\<lparr>av_pairing := (av_pairing v)(k \<mapsto> p)\<rparr>)"
    and "aq_id q = k \<Longrightarrow> https_absolute K (aq_redirect q) \<Longrightarrow>
        asked tr k (aq_client q) (aq_redirect q) (aq_challenge q) \<Longrightarrow>
        (aq_device q \<noteq> [] \<longrightarrow> approved_for K tr k (aq_device q) (aq_nonce q)) \<Longrightarrow>
        auth_inv K tr (v\<lparr>av_reqs := (av_reqs v)(k \<mapsto> q)\<rparr>)"
    and "minted K tr k (co_client c) (co_device c) (co_redirect c) (co_challenge c) \<Longrightarrow>
        auth_inv K tr (v\<lparr>av_codes := (av_codes v)(k \<mapsto> c)\<rparr>)"
    and "authorised K tr (at_client t) (at_device t) \<Longrightarrow> auth_inv K tr (v\<lparr>av_access := (av_access v)(k \<mapsto> t)\<rparr>)"
    and "rf_token f = k \<Longrightarrow> authorised K tr (rf_client f) (rf_device f) \<Longrightarrow>
        auth_inv K tr (v\<lparr>av_refresh := (av_refresh v)(k \<mapsto> f)\<rparr>)"
  using assms by (simp_all add: auth_inv_def)

lemma auth_inv_refresh:
  assumes "auth_inv K tr v"
  shows "auth_inv K tr (v\<lparr>av_refresh := mark_used k (av_refresh v)\<rparr>)"
    and "auth_inv K tr (v\<lparr>av_refresh := revoke_all fam (av_refresh v)\<rparr>)"
  using assms unfolding auth_inv_def
  by (auto dest!: mark_used_get revoke_all_get split: if_splits)

context auth_store begin

lemma same_view: "auth_inv K tr (V s) \<Longrightarrow> V s' = V s \<Longrightarrow> auth_inv K (x # tr) (V s')"
  by (simp add: auth_inv_Cons)

lemma register_inv:
  assumes I: "auth_inv K tr (V s)" and run: "handle_register K S e body s = (reply, s')"
  shows "auth_inv K ((e, CallRegister body, reply) # tr) (V s')"
proof (cases "\<exists>cl. reply = Registered cl")
  case True
  then obtain name uris cl where cl: "reply = Registered cl" "body = Some (name, uris)"
      "oc_uris cl = uris" "list_all (https_absolute K) uris"
      and put: "so_create_client S cl s = (None, s')"
    using run by (auto simp: handle_register_def Let_def split: option.splits if_splits prod.splits)
  from create_client [OF put] have v: "V s' = V s\<lparr>av_clients := (av_clients (V s))(oc_id cl \<mapsto> cl)\<rparr>"
    by (simp add: write_law_def)
  show ?thesis
    unfolding v
    by (rule auth_inv_write(2) [OF auth_inv_Cons [OF I]]) (use cl in \<open>auto simp: list_all_iff\<close>)
next
  case False
  with run have "V s' = V s"
    by (auto simp: handle_register_def Let_def write_law_def dest!: create_client
        split: option.splits if_splits prod.splits)
  with I show ?thesis by (rule same_view)
qed

lemma authorize_get_inv:
  assumes I: "auth_inv K tr (V s)" and run: "handle_authorize_get K S e cid uri rtype st ch meth s = (reply, s')"
  shows "auth_inv K ((e, CallAuthorize cid uri rtype st ch meth, reply) # tr) (V s')"
proof -
  obtain rc s1 where rc: "so_get_client S cid s = (rc, s1)"
    by (cases "so_get_client S cid s")
  note g = get_client [OF rc]
  show ?thesis
  proof (cases "\<exists>name rid verify err secs. reply = PairingPage name rid verify err secs")
    case True
    then obtain c where c: "rc = Inr c" "List.member (oc_uris c) uri" "rtype = ''code''" "ch \<noteq> []" "meth = ''S256''"
      and put: "so_put_request S (new_request e c uri ch st) s1 = (None, s')"
      and reply: "reply = render_pairing_page (oc_name c) (aq_id (new_request e c uri ch st))
        (aq_verify (new_request e c uri ch st)) [] (aq_expires (new_request e c uri ch st) - ev_t2 e)"
      using run rc
      by (auto simp: handle_authorize_get_def Let_def store_failed_def redirect_error_def
          split: sum.splits auth_err.splits if_splits prod.splits option.splits)
    define q where "q = new_request e c uri ch st"
    have q: "aq_client q = oc_id c" "aq_redirect q = uri" "aq_challenge q = ch" "aq_device q = []"
      by (simp_all add: q_def new_request_def)
    note put = put [folded q_def] and reply = reply [folded q_def]
    have cl: "av_clients (V s) cid = Some c"
      using g c(1) by (simp add: get_law_def)
    have reg: "registered tr cid uri" "https_absolute K uri" "oc_id c = cid"
      using auth_inv_D(2,3) [OF I cl] c(2) by auto
    define tr' where "tr' = (e, CallAuthorize cid uri rtype st ch meth, reply) # tr"
    have asked: "asked tr' (aq_id q) (aq_client q) uri ch"
      using c q reg reply by (simp add: tr'_def render_pairing_page_def)
    obtain q' where q': "V s' = V s\<lparr>av_reqs := (av_reqs (V s))(aq_id q \<mapsto> q')\<rparr>"
        "q' = q \<or> (\<exists>old. av_reqs (V s) (aq_id q) = Some old \<and> q' = old\<lparr>aq_expires := aq_expires q\<rparr>)"
      using put_request [OF put] g by (auto simp: write_law_def)
    have J: "auth_inv K tr' (V s)"
      unfolding tr'_def by (rule auth_inv_Cons [OF I])
    have "auth_inv K tr' (V s')"
      unfolding q'(1)
    proof (rule auth_inv_write(4) [OF J])
      show "aq_id q' = aq_id q" "https_absolute K (aq_redirect q')"
        "asked tr' (aq_id q) (aq_client q') (aq_redirect q') (aq_challenge q')"
        "aq_device q' \<noteq> [] \<longrightarrow> approved_for K tr' (aq_id q) (aq_device q') (aq_nonce q')"
        using q'(2) q asked reg(2) auth_inv_D(5,6) [OF J] by auto
    qed
    then show ?thesis
      by (simp add: tr'_def)
  next
    case False
    with run rc g have "V s' = V s"
      by (auto simp: handle_authorize_get_def Let_def render_pairing_page_def write_law_def dest!: put_request
          split: sum.splits auth_err.splits if_splits prod.splits option.splits)
    with I show ?thesis by (rule same_view)
  qed
qed

lemma issue_code_inv:
  assumes I: "auth_inv K tr (V s)" and run: "issue_auth_code K S e q dev s = (reply, s')"
    and uri: "https_absolute K (aq_redirect q)"
    and mint: "\<And>raw rest. reply = RedirectTo (aq_redirect q) ((''code'', raw) # rest) \<Longrightarrow>
      minted K ((e, c, reply) # tr) (hash_secret K raw) (aq_client q) dev (aq_redirect q) (aq_challenge q)"
  shows "auth_inv K ((e, c, reply) # tr) (V s')"
proof -
  define raw where "raw = ''ac_'' @ random_token 24 (ev_r1 e)"
  obtain err s1 where put: "so_put_code S (new_code K e q dev raw) s = (err, s1)"
    by (cases "so_put_code S (new_code K e q dev raw) s")
  note w = put_code [OF put]
  show ?thesis
  proof (cases err)
    case (Some x)
    with run put w have "V s' = V s"
      by (auto simp: issue_auth_code_def raw_def Let_def write_law_def)
    with I show ?thesis by (rule same_view)
  next
    case None
    then obtain rest where reply: "reply = RedirectTo (aq_redirect q) ((''code'', raw) # rest)" and "s' = s1"
      using run put uri
      by (auto simp: issue_auth_code_def raw_def Let_def https_absolute_def split: option.splits)
    with None w have v: "V s' = V s\<lparr>av_codes := (av_codes (V s))(hash_secret K raw \<mapsto> new_code K e q dev raw)\<rparr>"
      by (simp add: write_law_def new_code_def)
    show ?thesis
      unfolding v
      by (rule auth_inv_write(5) [OF auth_inv_Cons [OF I]]) (use mint [OF reply] in \<open>simp only: new_code_def auth_code.simps\<close>)
  qed
qed

lemma rearm_inv:
  assumes I: "auth_inv K tr (V s)" and run: "rearm S e q s = (reply, s')"
    and q: "https_absolute K (aq_redirect q)" "asked tr (aq_id q) (aq_client q) (aq_redirect q) (aq_challenge q)"
      "aq_device q \<noteq> [] \<longrightarrow> approved_for K tr (aq_id q) (aq_device q) (aq_nonce q)"
  shows "auth_inv K tr (V s')"
proof -
  define q1 where "q1 = q\<lparr>aq_expires := ev_t3 e + request_ttl\<rparr>"
  obtain err s1 where put: "so_put_request S q1 s = (err, s1)"
    by (cases "so_put_request S q1 s")
  obtain rc s2 where get: "so_get_client S (aq_client q1) s1 = (rc, s2)"
    by (cases "so_get_client S (aq_client q1) s1")
  have "s' = s2"
    using run put get by (simp add: rearm_def q1_def Let_def)
  with get_client [OF get] have v: "V s' = V s1"
    by simp
  obtain q' where q': "write_law err (V s) (V s\<lparr>av_reqs := (av_reqs (V s))(aq_id q1 \<mapsto> q')\<rparr>) (V s1)"
      "q' = q1 \<or> (\<exists>old. av_reqs (V s) (aq_id q1) = Some old \<and> q' = old\<lparr>aq_expires := aq_expires q1\<rparr>)"
    using put_request [OF put] by blast
  show ?thesis
  proof (cases err)
    case (Some x)
    with q'(1) v I show ?thesis by (simp add: write_law_def)
  next
    case None
    with q'(1) v have v': "V s' = V s\<lparr>av_reqs := (av_reqs (V s))(aq_id q1 \<mapsto> q')\<rparr>"
      by (simp add: write_law_def)
    show ?thesis
      unfolding v'
    proof (rule auth_inv_write(4) [OF I])
      show "aq_id q' = aq_id q1" "https_absolute K (aq_redirect q')"
        "asked tr (aq_id q1) (aq_client q') (aq_redirect q') (aq_challenge q')"
        "aq_device q' \<noteq> [] \<longrightarrow> approved_for K tr (aq_id q1) (aq_device q') (aq_nonce q')"
        using q'(2) q auth_inv_D(5,6) [OF I] by (auto simp: q1_def)
    qed
  qed
qed

lemma taken_request:
  assumes I: "auth_inv K tr (V s)" and take: "so_take_request S rid now s = (rq, s')"
  shows "auth_inv K tr (V s')"
    and "rq = Inr q \<Longrightarrow> aq_id q = rid \<and> https_absolute K (aq_redirect q) \<and>
      asked tr rid (aq_client q) (aq_redirect q) (aq_challenge q) \<and>
      (aq_device q \<noteq> [] \<longrightarrow> approved_for K tr rid (aq_device q) (aq_nonce q))"
  using take_request [OF take] auth_inv_D(5,6) [OF I] I
  by (auto simp: live_law_def gone_law_def auth_inv_le [OF I] split: sum.splits auth_err.splits)

lemma taken_pairing:
  assumes I: "auth_inv K tr (V s)" and take: "so_take_pairing S k now s = (rp, s')"
  shows "auth_inv K tr (V s')" and "rp = Inr p \<Longrightarrow> code_for tr k (pc_device p)"
  using take_pairing [OF take] auth_inv_D(4) [OF I] I
  by (auto simp: live_law_def gone_law_def auth_inv_le [OF I] split: sum.splits auth_err.splits)

lemma authorize_post_inv:
  assumes I: "auth_inv K tr (V s)" and run: "handle_authorize_post K S e form rid pcode s = (reply, s')"
  shows "auth_inv K ((e, CallPost form rid pcode, reply) # tr) (V s')"
proof (cases form)
  case False
  with run I show ?thesis by (auto simp: handle_authorize_post_def auth_inv_Cons)
next
  case form: True
  obtain rq s1 where rq: "so_take_request S rid (ev_t1 e) s = (rq, s1)"
    by (cases "so_take_request S rid (ev_t1 e) s")
  note q = taken_request [OF I rq]
  obtain rp s2 where rp: "so_take_pairing S (typed_code K pcode) (ev_t2 e) s1 = (rp, s2)"
    by (cases "so_take_pairing S (typed_code K pcode) (ev_t2 e) s1")
  note p = taken_pairing [OF q(1) rp]
  consider (no_request) err where "rq = Inl err" | (no_store) qq m where "rq = Inr qq" "rp = Inl (AuthFailed m)"
    | (no_code) qq where "rq = Inr qq" "rp = Inl AuthNotFound" | (both) qq pp where "rq = Inr qq" "rp = Inr pp"
    by (metis auth_err.exhaust sum.exhaust)
  then show ?thesis
  proof cases
    case no_request
    with run form rq have "s' = s1"
      by (cases err) (auto simp: handle_authorize_post_def)
    with q(1) show ?thesis by (simp only: auth_inv_Cons)
  next
    case no_store
    with run form rq rp have "s' = s2"
      by (auto simp: handle_authorize_post_def)
    with p(1) show ?thesis by (simp only: auth_inv_Cons)
  next
    case no_code
    with run form rq rp have r: "rearm S e qq s2 = (reply, s')"
      by (auto simp: handle_authorize_post_def)
    show ?thesis
      by (rule auth_inv_Cons, rule rearm_inv [OF p(1) r]) (use q(2) no_code in auto)
  next
    case both
    with run form rq rp have r: "issue_auth_code K S e qq (pc_device pp) s2 = (reply, s')"
      by (auto simp: handle_authorize_post_def)
    show ?thesis
      by (rule issue_code_inv [OF p(1) r]) (use q(2) p(2) both in auto)
  qed
qed

lemma authorize_continue_inv:
  assumes I: "auth_inv K tr (V s)" and run: "handle_authorize_continue K S e form rid nonce s = (reply, s')"
  shows "auth_inv K ((e, CallContinue form rid nonce, reply) # tr) (V s')"
proof (cases form)
  case False
  with run I show ?thesis by (auto simp: handle_authorize_continue_def auth_inv_Cons)
next
  case form: True
  obtain rq s1 where rq: "so_take_request S rid (ev_t1 e) s = (rq, s1)"
    by (cases "so_take_request S rid (ev_t1 e) s")
  note q = taken_request [OF I rq]
  consider (good) qq where "rq = Inr qq" "aq_device qq \<noteq> []" "hash_secret K nonce = aq_nonce qq"
      "issue_auth_code K S e qq (aq_device qq) s1 = (reply, s')" | (bad) "s' = s1"
    using run form rq
    by (auto simp: handle_authorize_continue_def split: sum.splits auth_err.splits if_splits)
  then show ?thesis
  proof cases
    case good
    show ?thesis
      by (rule issue_code_inv [OF q(1) good(4)]) (use q(2) good in auto)
  next
    case bad
    with q(1) show ?thesis by (simp only: auth_inv_Cons)
  qed
qed

lemma authenticated:
  assumes I: "auth_inv K tr (V s)" and run: "authenticate_device K S header s = (r, s')"
  shows "V s' = V s" and "r = Inr dev \<Longrightarrow> dev = header_device header"
proof -
  show "V s' = V s"
    using run by (auto simp: authenticate_device_def dest!: get_device
        split: option.splits sum.splits auth_err.splits if_splits prod.splits)
  assume r: "r = Inr dev"
  then obtain d where g: "so_get_device S (header_device header) s = (Inr d, s')" and "dev = dv_id d"
    using run by (auto simp: authenticate_device_def cut_prefix_def header_device_def
        split: option.splits sum.splits auth_err.splits if_splits prod.splits)
  with get_device [OF g] auth_inv_D(1) [OF I] show "dev = header_device header"
    by (auto simp: get_law_def)
qed

lemma issue_pairing_inv:
  assumes I: "auth_inv K tr (V s)" and run: "issue_pairing_code S e dev s = (r, s')"
    and here: "\<And>ttl. r = Inr (human_code (ev_r1 e), ttl) \<Longrightarrow> code_for (x # tr) (human_code (ev_r1 e)) dev"
  shows "auth_inv K (x # tr) (V s')"
proof -
  define p where "p = \<lparr>pc_code = human_code (ev_r1 e), pc_device = dev, pc_expires = ev_t2 e + pairing_ttl\<rparr>"
  obtain err s1 where put: "so_put_pairing S p s = (err, s1)"
    by (cases "so_put_pairing S p s")
  note w = put_pairing [OF put]
  have s': "s' = s1" and r: "err = None \<Longrightarrow> r = Inr (pc_code p, pairing_ttl)"
    using run put by (auto simp: issue_pairing_code_def p_def Let_def split: option.splits)
  show ?thesis
  proof (cases err)
    case (Some y)
    with w s' have "V s' = V s" by (simp add: write_law_def)
    with I show ?thesis by (rule same_view)
  next
    case None
    with w s' have v: "V s' = V s\<lparr>av_pairing := (av_pairing (V s))(pc_code p \<mapsto> p)\<rparr>"
      by (simp add: write_law_def)
    have "code_for (x # tr) (pc_code p) (pc_device p)"
      using here r [OF None] by (simp only: p_def pairing_code.simps)
    then show ?thesis
      unfolding v by (rule auth_inv_write(3) [OF auth_inv_Cons [OF I]])
  qed
qed

lemma pairing_code_inv:
  assumes I: "auth_inv K tr (V s)" and run: "handle_pairing_code K S e header s = (reply, s')"
  shows "auth_inv K ((e, CallPair header, reply) # tr) (V s')"
proof -
  obtain rd s1 where rd: "authenticate_device K S header s = (rd, s1)"
    by (cases "authenticate_device K S header s")
  note a = authenticated [OF I rd]
  show ?thesis
  proof (cases rd)
    case (Inl err)
    with run rd have "s' = s1" by (simp add: handle_pairing_code_def)
    with a(1) I show ?thesis by (simp only: auth_inv_Cons)
  next
    case (Inr dev)
    obtain r s2 where r: "issue_pairing_code S e dev s1 = (r, s2)"
      by (cases "issue_pairing_code S e dev s1")
    have s': "s' = s2" and "\<And>code ttl. r = Inr (code, ttl) \<Longrightarrow> reply = CodeIs code (ttl div second)"
      using run rd Inr r by (auto simp: handle_pairing_code_def split: sum.splits)
    with a(2) [OF Inr] show ?thesis
      unfolding s' by (intro issue_pairing_inv [OF _ r]) (simp_all add: a(1) I)
  qed
qed

lemma desktop_code_inv:
  assumes I: "auth_inv K tr (V s)" and run: "desktop_code S e s = (reply, s')"
  shows "auth_inv K ((e, DesktopCode, reply) # tr) (V s')"
proof -
  obtain r s2 where r: "issue_pairing_code S e local_device_id s = (r, s2)"
    by (cases "issue_pairing_code S e local_device_id s")
  have s': "s' = s2" and "\<And>code ttl. r = Inr (code, ttl) \<Longrightarrow> reply = CodeIs code (ttl div second)"
    using run r by (auto simp: desktop_code_def split: sum.splits)
  then show ?thesis
    unfolding s' by (intro issue_pairing_inv [OF I r]) simp
qed

lemma request_info_view: "request_info S e rid s = (r, s') \<Longrightarrow> V s' = V s"
  by (auto simp: request_info_def dest!: get_request get_client
      split: sum.splits prod.splits if_splits)

lemma approve_inv:
  assumes I: "auth_inv K tr (V s)" and run: "approve_request K S e rid dev s = (r, s')"
    and here: "\<And>n. r = Inr n \<Longrightarrow> approved_for K (x # tr) rid dev (hash_secret K n)"
  shows "auth_inv K (x # tr) (V s')"
proof -
  define n where "n = ''pn_'' @ random_token 24 (ev_r1 e)"
  obtain err s1 where bind: "so_bind_request S rid dev (hash_secret K n) (ev_t1 e) s = (err, s1)"
    by (cases "so_bind_request S rid dev (hash_secret K n) (ev_t1 e) s")
  note w = bind_request [OF bind]
  have s': "s' = s1" and r: "err = None \<Longrightarrow> r = Inr n"
    using run bind by (auto simp: approve_request_def n_def Let_def split: option.splits)
  show ?thesis
  proof (cases err)
    case (Some y)
    with w s' have "V s' = V s" by simp
    with I show ?thesis by (rule same_view)
  next
    case None
    with w s' obtain q where q: "av_reqs (V s) rid = Some q"
      and v: "V s' = V s\<lparr>av_reqs := (av_reqs (V s))(rid \<mapsto> q\<lparr>aq_device := dev, aq_nonce := hash_secret K n\<rparr>)\<rparr>"
      by auto
    note J = auth_inv_Cons [OF I, of x]
    show ?thesis
      unfolding v
      by (rule auth_inv_write(4) [OF J])
        (use auth_inv_D(5) [OF J q] here [OF r [OF None]] in \<open>simp_all del: asked.simps approved_for.simps\<close>)
  qed
qed

lemma pair_approve_inv:
  assumes I: "auth_inv K tr (V s)" and run: "handle_pair_approve K S e header body s = (reply, s')"
  shows "auth_inv K ((e, CallPairApprove header body, reply) # tr) (V s')"
proof -
  obtain rd s1 where rd: "authenticate_device K S header s = (rd, s1)"
    by (cases "authenticate_device K S header s")
  note a = authenticated [OF I rd]
  show ?thesis
  proof (cases "\<exists>dev rid. rd = Inr dev \<and> body = Some rid \<and> rid \<noteq> []")
    case False
    with run rd have "s' = s1"
      by (auto simp: handle_pair_approve_def split: sum.splits option.splits if_splits)
    with a(1) I show ?thesis by (simp only: auth_inv_Cons)
  next
    case True
    then obtain dev rid where dr: "rd = Inr dev" "body = Some rid" "rid \<noteq> []" by blast
    obtain r s2 where r: "approve_request K S e rid dev s1 = (r, s2)"
      by (cases "approve_request K S e rid dev s1")
    have s': "s' = s2" and "\<And>n. r = Inr n \<Longrightarrow> reply = NonceIs n"
      using run rd dr r by (auto simp: handle_pair_approve_def split: sum.splits auth_err.splits)
    with a(2) [OF dr(1)] dr(2) show ?thesis
      unfolding s' by (intro approve_inv [OF _ r]) (simp_all add: a(1) I)
  qed
qed

lemma desktop_approve_inv:
  assumes I: "auth_inv K tr (V s)" and run: "desktop_approve K S e rid s = (reply, s')"
  shows "auth_inv K ((e, DesktopApprove rid, reply) # tr) (V s')"
proof -
  obtain r s2 where r: "approve_request K S e rid local_device_id s = (r, s2)"
    by (cases "approve_request K S e rid local_device_id s")
  have s': "s' = s2" and "\<And>n. r = Inr n \<Longrightarrow> reply = NonceIs n"
    using run r by (auto simp: desktop_approve_def split: sum.splits)
  then show ?thesis
    unfolding s' by (intro approve_inv [OF I r]) simp
qed

lemma reads_inv:
  assumes I: "auth_inv K tr (V s)"
  shows "handle_pair_info K S e header rid s = (reply, s') \<Longrightarrow> auth_inv K (x # tr) (V s')"
    and "desktop_info S e rid s = (reply, s') \<Longrightarrow> auth_inv K (x # tr) (V s')"
proof -
  assume run: "handle_pair_info K S e header rid s = (reply, s')"
  obtain rd s1 where rd: "authenticate_device K S header s = (rd, s1)"
    by (cases "authenticate_device K S header s")
  have "V s' = V s1"
    using run rd by (auto simp: handle_pair_info_def dest!: request_info_view
        split: sum.splits info_err.splits auth_err.splits prod.splits)
  with authenticated(1) [OF I rd] I show "auth_inv K (x # tr) (V s')"
    by (simp only: auth_inv_Cons)
next
  assume "desktop_info S e rid s = (reply, s')"
  then have "V s' = V s"
    by (auto simp: desktop_info_def dest!: request_info_view split: sum.splits info_err.splits prod.splits)
  with I show "auth_inv K (x # tr) (V s')" by (rule same_view)
qed

lemma device_inv:
  assumes I: "auth_inv K tr (V s)"
  shows "handle_device_register K S e name s = (reply, s') \<Longrightarrow> auth_inv K (x # tr) (V s')"
    and "ensure_local_device K S e name s = (err, s') \<Longrightarrow> auth_inv K tr (V s')"
proof -
  have new: "auth_inv K tr (V s2)" if "so_create_device S d s1 = (err', s2)" "V s1 = V s" for d s1 err' s2
    using create_device [OF that(1)] that(2) I
    by (auto simp: write_law_def split: option.splits intro: auth_inv_write(1))
  assume "handle_device_register K S e name s = (reply, s')"
  with new show "auth_inv K (x # tr) (V s')"
    by (auto simp: handle_device_register_def Let_def intro!: auth_inv_Cons split: prod.splits option.splits)
next
  have new: "auth_inv K tr (V s2)" if "so_create_device S d s1 = (err', s2)" "V s1 = V s" for d s1 err' s2
    using create_device [OF that(1)] that(2) I
    by (auto simp: write_law_def split: option.splits intro: auth_inv_write(1))
  assume "ensure_local_device K S e name s = (err, s')"
  with new I show "auth_inv K tr (V s')"
    by (auto simp: ensure_local_device_def dest!: get_device split: prod.splits sum.splits auth_err.splits)
qed

lemma issue_tokens_inv:
  assumes I: "auth_inv K tr (V s)" and run: "issue_tokens K S e dev cid fam s = (reply, s')"
    and here: "redeems reply \<Longrightarrow> authorised K (x # tr) cid dev"
  shows "auth_inv K (x # tr) (V s')"
proof -
  define a where "a = new_access K e (''at_'' @ random_token 32 (ev_r1 e)) dev cid"
  define f where "f = new_refresh K e (''rt_'' @ random_token 32 (ev_r2 e)) fam dev cid"
  have af: "at_device a = dev" "at_client a = cid" "rf_device f = dev" "rf_client f = cid"
    by (simp_all add: a_def f_def new_access_def new_refresh_def)
  obtain e1 s1 where put1: "so_put_access S a s = (e1, s1)"
    by (cases "so_put_access S a s")
  obtain e2 s2 where put2: "so_put_refresh S f s1 = (e2, s2)"
    by (cases "so_put_refresh S f s1")
  have red: "redeems reply"
    using run put1 put2 by (auto simp: issue_tokens_def a_def f_def Let_def split: option.splits)
  note auth = here [OF red]
  have 1: "auth_inv K (x # tr) (V s1)"
    using put_access [OF put1] auth_inv_Cons [OF I, of x] auth
    by (auto simp: write_law_def af split: option.splits intro: auth_inv_write(6))
  have 2: "auth_inv K (x # tr) (V s2)"
    using put_refresh [OF put2] 1 auth
    by (auto simp: write_law_def af split: option.splits intro: auth_inv_write(7))
  have "s' = s1 \<or> s' = s2"
    using run put1 put2 by (auto simp: issue_tokens_def a_def f_def Let_def split: option.splits)
  with 1 2 show ?thesis by auto
qed

lemma token_code_inv:
  assumes I: "auth_inv K tr (V s)" and run: "token_from_code K S e t s = (reply, s')"
    and grant: "tf_grant t = ''authorization_code''"
  shows "auth_inv K ((e, CallToken form t, reply) # tr) (V s')"
proof -
  obtain rc s1 where rc: "so_take_code S (hash_secret K (tf_code t)) (ev_t1 e) s = (rc, s1)"
    by (cases "so_take_code S (hash_secret K (tf_code t)) (ev_t1 e) s")
  have I1: "auth_inv K tr (V s1)"
    using take_code [OF rc] I
    by (auto simp: gone_law_def auth_inv_le [OF I] split: sum.splits auth_err.splits)
  consider (good) c where "rc = Inr c" "tf_client t = co_client c" "tf_redirect t = [] \<or> tf_redirect t = co_redirect c"
      "tf_verifier t \<noteq> []" "pkce K (tf_verifier t) = co_challenge c"
      "issue_tokens K S e (co_device c) (co_client c) (''fam_'' @ random_token 12 (ev_r3 e)) s1 = (reply, s')"
    | (bad) "s' = s1"
    using run rc by (auto simp: token_from_code_def split: sum.splits auth_err.splits if_splits)
  then show ?thesis
  proof cases
    case good
    have "av_codes (V s) (hash_secret K (tf_code t)) = Some c"
      using take_code [OF rc] good(1) by (simp add: live_law_def)
    from auth_inv_D(7) [OF I this] good
    have m: "minted K tr (hash_secret K (tf_code t)) (tf_client t) (co_device c) (co_redirect c) (pkce K (tf_verifier t))"
      by simp
    show ?thesis
      by (rule issue_tokens_inv [OF I1 good(6)]) (use good(2,3,4) grant m in auto)
  next
    case bad
    with I1 show ?thesis by (simp only: auth_inv_Cons)
  qed
qed

lemma token_refresh_inv:
  assumes I: "auth_inv K tr (V s)" and run: "token_from_refresh K S e t s = (reply, hook, s')"
  shows "auth_inv K (x # tr) (V s')"
proof -
  obtain rr s1 where rr: "so_get_refresh S (hash_secret K (tf_refresh t)) s = (rr, s1)"
    by (cases "so_get_refresh S (hash_secret K (tf_refresh t)) s")
  note g = get_refresh [OF rr]
  have 1: "auth_inv K tr (V s1)"
    using g I by simp
  consider (same) "s' = s1"
    | (revoke) r :: refresh_token and rn where "so_revoke_family S (rf_family r) s1 = (rn, s')"
    | (mark) r :: refresh_token and err where "so_mark_used S (rf_token r) s1 = (err, s')"
    | (issue) r s2 where "rr = Inr r" "so_mark_used S (rf_token r) s1 = (None, s2)"
        "issue_tokens K S e (rf_device r) (rf_client r) (rf_family r) s2 = (reply, s')"
    using run rr
    by (auto simp: token_from_refresh_def refresh_check_def refresh_mark_def refresh_issue_def
        split: sum.splits auth_err.splits if_splits prod.splits option.splits)
  then show ?thesis
  proof cases
    case same
    with 1 show ?thesis by (simp only: auth_inv_Cons)
  next
    case revoke
    from revoke_family [OF revoke] 1 show ?thesis
      by (auto split: sum.splits intro!: auth_inv_Cons auth_inv_refresh)
  next
    case mark
    from mark_refresh [OF mark] 1 show ?thesis
      by (auto simp: write_law_def split: option.splits intro!: auth_inv_Cons auth_inv_refresh)
  next
    case issue
    from mark_refresh [OF issue(2)] have "auth_inv K tr (V s2)"
      using 1 by (simp add: write_law_def auth_inv_refresh)
    moreover have "authorised K tr (rf_client r) (rf_device r)"
      using g issue(1) auth_inv_D(9) [OF I] by (auto simp: get_law_def)
    ultimately show ?thesis
      by (intro issue_tokens_inv [OF _ issue(3)]) (auto intro: trace_mono)
  qed
qed

lemma serve_inv:
  assumes I: "auth_inv K tr (V s)" and run: "serve K S e c s = (reply, s')"
  shows "auth_inv K ((e, c, reply) # tr) (V s')"
proof (cases c)
  case (CallToken form t)
  obtain hook where h: "handle_token K S e form t s = (reply, hook, s')"
    using run CallToken by (auto split: prod.splits)
  consider "s' = s" | "tf_grant t = ''authorization_code''" "token_from_code K S e t s = (reply, s')"
    | "token_from_refresh K S e t s = (reply, hook, s')"
    using h by (auto simp: handle_token_def split: if_splits prod.splits)
  then show ?thesis
    unfolding CallToken by cases (use I in \<open>auto intro: same_view token_code_inv token_refresh_inv\<close>)
qed (use I run in \<open>auto intro: same_view register_inv authorize_get_inv authorize_post_inv
    authorize_continue_inv device_inv(1) pairing_code_inv reads_inv pair_approve_inv desktop_code_inv
    desktop_approve_inv simp del: registered.simps asked.simps code_for.simps approved_for.simps minted.simps
    authorised.simps\<close>)

lemma history_auth_inv:
  assumes "history K S V s0 tr s" and "V s0 = empty_view"
  shows "auth_inv K tr (V s)"
  using assms
proof (induction rule: history.induct)
  case start
  then show ?case by simp
next
  case (call tr s e c reply s')
  then show ?case by (blast intro: serve_inv)
next
  case (purge tr s s')
  then show ?case by (blast intro: auth_inv_le)
next
  case (device tr s e name err s')
  then show ?case by (blast intro: device_inv(2))
qed

lemma bearer_view: "bearer_token K S e header s = (r, s') \<Longrightarrow> V s' = V s"
  by (auto simp: bearer_token_def dest!: get_access split: option.splits sum.splits auth_err.splits if_splits prod.splits)

lemma bearer_law:
  assumes "bearer_token K S e header s = (Inr t, s')"
  shows "\<exists>raw. header = ''Bearer '' @ raw \<and> raw \<noteq> [] \<and> av_access (V s) (hash_secret K raw) = Some t \<and>
     ev_t1 e \<le> at_expires t"
proof -
  from assms obtain raw where "cut_prefix ''Bearer '' header = Some raw" "raw \<noteq> []"
      and g: "so_get_access S (hash_secret K raw) (ev_t1 e) s = (Inr t, s')"
    by (auto simp: bearer_token_def split: option.splits sum.splits auth_err.splits if_splits prod.splits)
  moreover from this have "header = ''Bearer '' @ raw"
    by (auto simp: cut_prefix_def bytes_simps prefix_def split: if_splits)
  ultimately show ?thesis
    using get_access [OF g] by (auto simp: live_law_def)
qed

text \<open>Whoever is let in holds a token of a client and a device that a redeemed code names.\<close>

lemma accepted_is_authorised:
  assumes "history K S V s0 tr s" and "V s0 = empty_view" and "bearer_token K S e header s = (Inr t, s')"
  shows "authorised K tr (at_client t) (at_device t)"
  using history_auth_inv [OF assms(1,2)] bearer_law [OF assms(3)] auth_inv_D(8) by blast

end

end
