(* ===== verification/AuthSafety.thy ===== *)
theory AuthSafety
  imports AuthFlow
begin

text \<open>
  What the authorization server keeps: a redemption per code, dead families, valid credentials
  that an outage does not turn into refusals, the lifetime of a token, and the places where it
  does less than it means to.
\<close>

text \<open>The calls that leave codes and tokens as they are.\<close>

fun plain_call :: "auth_call \<Rightarrow> bool" where
  "plain_call (CallPost form rid pcode) = False"
| "plain_call (CallContinue form rid nonce) = False"
| "plain_call (CallToken form t) = False"
| "plain_call c = True"

definition same_tokens :: "auth_view \<Rightarrow> auth_view \<Rightarrow> bool" where
  "same_tokens v w \<longleftrightarrow> av_codes v = av_codes w \<and> av_access v = av_access w \<and> av_refresh v = av_refresh w"

section \<open>Counting codes\<close>

text \<open>How often a code of this hash was sent, and how often one was redeemed.\<close>

fun mints :: "auth_conf \<Rightarrow> trace \<Rightarrow> string \<Rightarrow> nat" where
  "mints K [] h = 0"
| "mints K ((e, c, reply) # tr) h =
     (case reply of
        RedirectTo uri ((key, raw) # rest) \<Rightarrow> if key = ''code'' \<and> hash_secret K raw = h then 1 else 0
      | _ \<Rightarrow> 0) + mints K tr h"

fun redemptions :: "auth_conf \<Rightarrow> trace \<Rightarrow> string \<Rightarrow> nat" where
  "redemptions K [] h = 0"
| "redemptions K ((e, c, reply) # tr) h =
     (case c of
        CallToken form t \<Rightarrow>
          if form \<and> tf_grant t = ''authorization_code'' \<and> hash_secret K (tf_code t) = h \<and> redeems reply then 1 else 0
      | _ \<Rightarrow> 0) + redemptions K tr h"

text \<open>An answer that tells the caller to come back, and one that hands out tokens.\<close>

fun server_side :: "auth_reply \<Rightarrow> bool" where
  "server_side (OAuthError st code desc) = (500 \<le> st)"
| "server_side reply = False"

fun hands_out :: "auth_reply \<Rightarrow> bool" where
  "hands_out (TokensAre a r secs) = True"
| "hands_out reply = False"

definition dead_family :: "string \<Rightarrow> auth_view \<Rightarrow> bool" where
  "dead_family fam v \<longleftrightarrow> (\<forall>k r. av_refresh v k = Some r \<longrightarrow> rf_family r = fam \<longrightarrow> rf_revoked r)"

context auth_store begin

lemma issue_code_frame:
  "issue_auth_code K S e q dev s = (reply, s') \<Longrightarrow> av_access (V s') = av_access (V s) \<and> av_refresh (V s') = av_refresh (V s)"
  by (auto simp: issue_auth_code_def Let_def write_law_def dest!: put_code split: prod.splits option.splits)

lemma rearm_frame:
  "rearm S e q s = (reply, s') \<Longrightarrow> av_access (V s') = av_access (V s) \<and> av_refresh (V s') = av_refresh (V s) \<and>
     av_codes (V s') = av_codes (V s)"
  by (auto simp: rearm_def Let_def write_law_def dest!: put_request get_client split: prod.splits option.splits)

lemma take_frames:
  "so_take_request S rid now s = (rq, s') \<Longrightarrow> av_access (V s') = av_access (V s) \<and> av_refresh (V s') = av_refresh (V s) \<and>
     av_codes (V s') = av_codes (V s)"
  "so_take_pairing S k now s = (rp, s') \<Longrightarrow> av_access (V s') = av_access (V s) \<and> av_refresh (V s') = av_refresh (V s) \<and>
     av_codes (V s') = av_codes (V s)"
  by (auto simp: gone_law_def dest!: take_request take_pairing split: sum.splits auth_err.splits)

lemma post_frame:
  "handle_authorize_post K S e form rid pcode s = (reply, s') \<Longrightarrow>
     av_access (V s') = av_access (V s) \<and> av_refresh (V s') = av_refresh (V s)"
  by (auto simp: handle_authorize_post_def dest!: take_frames issue_code_frame rearm_frame
      split: if_splits prod.splits sum.splits auth_err.splits)

lemma continue_frame:
  "handle_authorize_continue K S e form rid nonce s = (reply, s') \<Longrightarrow>
     av_access (V s') = av_access (V s) \<and> av_refresh (V s') = av_refresh (V s)"
  by (auto simp: handle_authorize_continue_def dest!: take_frames issue_code_frame
      split: if_splits prod.splits sum.splits auth_err.splits)

lemma device_view: "authenticate_device K S header s = (r, s') \<Longrightarrow> V s' = V s"
  by (auto simp: authenticate_device_def dest!: get_device
      split: option.splits sum.splits auth_err.splits if_splits prod.splits)

lemma plain_frame:
  assumes "plain_call c" and "serve K S e c s = (reply, s')"
  shows "same_tokens (V s') (V s)"
proof -
  have reg: "same_tokens (V s') (V s)" if "handle_register K S e body s = (reply, s')" for body
    using that by (auto simp: same_tokens_def handle_register_def Let_def write_law_def dest!: create_client
        split: option.splits if_splits prod.splits)
  have get: "same_tokens (V s') (V s)" if "handle_authorize_get K S e cid uri rtype st ch meth s = (reply, s')"
    for cid uri rtype st ch meth
    using that by (auto simp: same_tokens_def handle_authorize_get_def Let_def write_law_def dest!: put_request get_client
        split: sum.splits auth_err.splits if_splits prod.splits option.splits)
  have dev: "same_tokens (V s') (V s)" if "handle_device_register K S e name s = (reply, s')" for name
    using that by (auto simp: same_tokens_def handle_device_register_def Let_def write_law_def dest!: create_device
        split: option.splits prod.splits)
  have code: "same_tokens (V s2) (V s1)" if "issue_pairing_code S e d s1 = (r, s2)" for d r s1 s2
    using that by (auto simp: same_tokens_def issue_pairing_code_def Let_def write_law_def dest!: put_pairing
        split: option.splits prod.splits)
  have app: "same_tokens (V s2) (V s1)" if "approve_request K S e rid d s1 = (r, s2)" for rid d r s1 s2
    using that by (auto simp: same_tokens_def approve_request_def Let_def dest!: bind_request
        split: option.splits prod.splits)
  show ?thesis
  proof (cases c)
    case (CallPair header)
    then show ?thesis
      using assms(2) code
      by (auto simp: handle_pairing_code_def same_tokens_def split: prod.splits sum.splits dest!: device_view)
  next
    case (CallPairApprove header body)
    then show ?thesis
      using assms(2) app
      by (auto simp: handle_pair_approve_def same_tokens_def
          split: prod.splits sum.splits option.splits if_splits auth_err.splits dest!: device_view)
  next
    case (CallPairInfo header rid)
    then show ?thesis
      using assms(2)
      by (auto simp: handle_pair_info_def same_tokens_def
          split: prod.splits sum.splits info_err.splits auth_err.splits dest!: device_view request_info_view)
  next
    case (DesktopInfo rid)
    then show ?thesis
      using assms(2)
      by (auto simp: desktop_info_def same_tokens_def split: prod.splits sum.splits info_err.splits
          dest!: request_info_view)
  next
    case DesktopCode
    then show ?thesis
      using assms(2) code [of local_device_id s] by (auto simp: desktop_code_def split: prod.splits sum.splits)
  next
    case (DesktopApprove rid)
    then show ?thesis
      using assms(2) app [of rid local_device_id s] by (auto simp: desktop_approve_def split: prod.splits sum.splits)
  qed (use assms reg get dev in \<open>auto simp: same_tokens_def\<close>)
qed

lemma issue_tokens_frame:
  assumes "issue_tokens K S e dev cid fam s = (reply, s')"
  shows "av_codes (V s') = av_codes (V s)"
    and "\<exists>f. rf_family f = fam \<and>
      (av_refresh (V s') = av_refresh (V s) \<or> av_refresh (V s') = (av_refresh (V s))(rf_token f \<mapsto> f))"
proof -
  define f where "f = new_refresh K e (''rt_'' @ random_token 32 (ev_r2 e)) fam dev cid"
  have fam: "rf_family f = fam"
    by (simp add: f_def new_refresh_def)
  show "av_codes (V s') = av_codes (V s)"
    using assms by (auto simp: issue_tokens_def Let_def write_law_def dest!: put_access put_refresh
        split: option.splits prod.splits)
  have "av_refresh (V s') = av_refresh (V s) \<or> av_refresh (V s') = (av_refresh (V s))(rf_token f \<mapsto> f)"
    using assms by (auto simp: issue_tokens_def Let_def write_law_def f_def dest!: put_access put_refresh
        split: option.splits prod.splits)
  with fam show "\<exists>f. rf_family f = fam \<and>
      (av_refresh (V s') = av_refresh (V s) \<or> av_refresh (V s') = (av_refresh (V s))(rf_token f \<mapsto> f))"
    by auto
qed

lemma mints_Cons: "mints K tr h \<le> mints K (x # tr) h"
  by (cases x) simp

lemma issue_code_codes:
  assumes "issue_auth_code K S e q dev s = (reply, s')" and "https_absolute K (aq_redirect q)"
    and "redemptions K tr h + (if av_codes (V s) h = None then 0 else 1) \<le> mints K tr h"
  shows "redemptions K tr h + (if av_codes (V s') h = None then 0 else 1) \<le> mints K ((e, c, reply) # tr) h"
  using assms
  by (auto simp: issue_auth_code_def Let_def write_law_def https_absolute_def new_code_def dest!: put_code
      split: prod.splits option.splits if_splits)

lemma single_use_step:
  assumes I: "auth_inv K tr (V s)" and run: "serve K S e c s = (reply, s')"
    and IH: "redemptions K tr h + (if av_codes (V s) h = None then 0 else 1) \<le> mints K tr h"
  shows "redemptions K ((e, c, reply) # tr) h + (if av_codes (V s') h = None then 0 else 1)
    \<le> mints K ((e, c, reply) # tr) h"
proof (cases "plain_call c")
  case True
  from plain_frame [OF True run] have "av_codes (V s') = av_codes (V s)"
    by (simp add: same_tokens_def)
  moreover have "redemptions K ((e, c, reply) # tr) h = redemptions K tr h"
    using True by (cases c) auto
  ultimately show ?thesis
    using IH mints_Cons [of K tr h "(e, c, reply)"] by simp
next
  case False
  note mono = mints_Cons [of K tr h "(e, c, reply)"]
  consider (post) form rid pcode where "c = CallPost form rid pcode" | (cont) form rid nonce where "c = CallContinue form rid nonce"
    | (token) form t where "c = CallToken form t"
    using False by (cases c) auto
  then show ?thesis
  proof cases
    case post
    have red: "redemptions K ((e, c, reply) # tr) h = redemptions K tr h"
      by (simp add: post)
    obtain rq s1 where rq: "so_take_request S rid (ev_t1 e) s = (rq, s1)"
      by (cases "so_take_request S rid (ev_t1 e) s")
    obtain rp s2 where rp: "so_take_pairing S (typed_code K pcode) (ev_t2 e) s1 = (rp, s2)"
      by (cases "so_take_pairing S (typed_code K pcode) (ev_t2 e) s1")
    have codes: "av_codes (V s1) = av_codes (V s)" "av_codes (V s2) = av_codes (V s)"
      using take_frames(1) [OF rq] take_frames(2) [OF rp] by simp_all
    consider "av_codes (V s') = av_codes (V s)" | q and p :: pairing_code where "rq = Inr q" "issue_auth_code K S e q (pc_device p) s2 = (reply, s')"
      using run post rq rp codes
      by (auto simp: handle_authorize_post_def dest!: rearm_frame
          split: if_splits prod.splits sum.splits auth_err.splits)
    then show ?thesis
    proof cases
      case 1
      with IH red mono show ?thesis by simp
    next
      case 2
      from taken_request(2) [OF I rq 2(1)] have "https_absolute K (aq_redirect q)" by blast
      from issue_code_codes [OF 2(2) this, of tr h c] IH codes red show ?thesis by simp
    qed
  next
    case cont
    have red: "redemptions K ((e, c, reply) # tr) h = redemptions K tr h"
      by (simp add: cont)
    obtain rq s1 where rq: "so_take_request S rid (ev_t1 e) s = (rq, s1)"
      by (cases "so_take_request S rid (ev_t1 e) s")
    have codes: "av_codes (V s1) = av_codes (V s)"
      using take_frames(1) [OF rq] by simp
    consider "av_codes (V s') = av_codes (V s)" | q where "rq = Inr q" "issue_auth_code K S e q (aq_device q) s1 = (reply, s')"
      using run cont rq codes
      by (auto simp: handle_authorize_continue_def split: if_splits prod.splits sum.splits auth_err.splits)
    then show ?thesis
    proof cases
      case 1
      with IH red mono show ?thesis by simp
    next
      case 2
      from taken_request(2) [OF I rq 2(1)] have "https_absolute K (aq_redirect q)" by blast
      from issue_code_codes [OF 2(2) this, of tr h c] IH codes red show ?thesis by simp
    qed
  next
    case token
    obtain hook where hk: "handle_token K S e form t s = (reply, hook, s')"
      using run token by (auto split: prod.splits)
    show ?thesis
    proof (cases "form \<and> tf_grant t = ''authorization_code''")
      case True
      let ?h = "hash_secret K (tf_code t)"
      obtain rc s1 where rc: "so_take_code S ?h (ev_t1 e) s = (rc, s1)"
        by (cases "so_take_code S ?h (ev_t1 e) s")
      have tk: "token_from_code K S e t s = (reply, s')"
        using hk True by (auto simp: handle_token_def split: prod.splits)
      consider (no) "av_codes (V s') = av_codes (V s1)" "\<not> redeems reply"
        | (yes) co where "rc = Inr co" "av_codes (V s') = av_codes (V s1)"
        using tk rc
        by (auto simp: token_from_code_def store_failed_def dest: issue_tokens_frame(1)
            split: if_splits sum.splits auth_err.splits)
      then show ?thesis
      proof cases
        case no
        have "av_codes (V s1) h = None \<or> av_codes (V s1) h = av_codes (V s) h"
          using take_code [OF rc] by (auto simp: gone_law_def split: sum.splits auth_err.splits)
        with no IH mono show ?thesis by (auto simp: token)
      next
        case yes
        then have "av_codes (V s1) = (av_codes (V s))(?h := None)" "av_codes (V s) ?h \<noteq> None"
          using take_code [OF rc] by (auto simp: gone_law_def live_law_def)
        with yes IH mono show ?thesis by (auto simp: token)
      qed
    next
      case False
      have "av_codes (V s') = av_codes (V s)"
        using hk False
        by (auto simp: handle_token_def token_from_refresh_def refresh_check_def refresh_mark_def refresh_issue_def
            write_law_def dest!: get_refresh revoke_family mark_refresh issue_tokens_frame(1)
            split: if_splits prod.splits sum.splits auth_err.splits option.splits)
      moreover have "redemptions K ((e, c, reply) # tr) h = redemptions K tr h"
        using False by (auto simp: token)
      ultimately show ?thesis
        using IH mono by simp
    qed
  qed
qed

lemma single_use:
  assumes "history K S V s0 tr s" and "V s0 = empty_view"
  shows "redemptions K tr h + (if av_codes (V s) h = None then 0 else 1) \<le> mints K tr h"
  using assms
proof (induction rule: history.induct)
  case start
  then show ?case by (simp add: empty_view_def)
next
  case (call tr s e c reply s')
  then show ?case by (blast intro: single_use_step history_auth_inv)
next
  case (purge tr s s')
  then have "av_codes (V s') \<subseteq>\<^sub>m av_codes (V s)"
    by (simp add: view_le_def)
  then have "av_codes (V s) h = None \<Longrightarrow> av_codes (V s') h = None"
    by (cases "av_codes (V s') h") (auto dest: map_le_Some)
  with purge show ?case by (auto split: if_splits)
next
  case (device tr s e name err s')
  then have "av_codes (V s') = av_codes (V s)"
    by (auto simp: ensure_local_device_def write_law_def dest!: get_device create_device
        split: prod.splits sum.splits auth_err.splits option.splits)
  with device show ?case by simp
qed

text \<open>A dead family stays dead: only a refresh of the family itself could add to it.\<close>

lemma dead_refresh:
  "dead_family fam v \<Longrightarrow> av_refresh w = mark_used k (av_refresh v) \<Longrightarrow> dead_family fam w"
  "dead_family fam v \<Longrightarrow> av_refresh w = revoke_all f (av_refresh v) \<Longrightarrow> dead_family fam w"
  "dead_family fam v \<Longrightarrow> av_refresh w = av_refresh v \<Longrightarrow> dead_family fam w"
  "dead_family fam v \<Longrightarrow> av_refresh w = (av_refresh v)(k \<mapsto> r) \<Longrightarrow> rf_family r \<noteq> fam \<Longrightarrow> dead_family fam w"
  "av_refresh w = revoke_all fam (av_refresh v) \<Longrightarrow> dead_family fam w"
  subgoal unfolding dead_family_def by (clarsimp, drule mark_used_get) (auto split: if_splits)
  subgoal unfolding dead_family_def by (clarsimp, drule revoke_all_get) (auto split: if_splits)
  subgoal by (simp add: dead_family_def)
  subgoal by (simp add: dead_family_def)
  subgoal premises prems
  proof -
    have "rf_revoked r" if r: "revoke_all fam (av_refresh v) k = Some r" and f: "rf_family r = fam" for k r
    proof -
      from revoke_all_get [OF r] obtain r0 where
        r0: "if rf_family r0 = fam then r = r0\<lparr>rf_revoked := True\<rparr> else r = r0" by blast
      with f show ?thesis by (cases "rf_family r0 = fam") simp_all
    qed
    with prems show ?thesis by (simp add: dead_family_def)
  qed
  done

lemma dead_family_step:
  assumes dead: "dead_family fam (V s)" and run: "serve K S e c s = (reply, s')"
    and other: "''fam_'' @ random_token 12 (ev_r3 e) \<noteq> fam"
  shows "dead_family fam (V s')"
proof -
  have issue: "dead_family fam (V s2)"
    if "issue_tokens K S e dev cid f s1 = (reply, s2)" "dead_family fam (V s1)" "f \<noteq> fam" for dev cid f s1 s2
    using issue_tokens_frame(2) [OF that(1)] that(2,3) dead_refresh(3,4) by metis
  consider (plain) "plain_call c" | (post) form rid pcode where "c = CallPost form rid pcode"
    | (cont) form rid nonce where "c = CallContinue form rid nonce" | (token) form t where "c = CallToken form t"
    by (cases c) auto
  then show ?thesis
  proof cases
    case plain
    from plain_frame [OF plain run] dead show ?thesis
      by (auto simp: same_tokens_def intro: dead_refresh(3))
  next
    case post
    with run dead show ?thesis by (auto dest!: post_frame intro: dead_refresh(3))
  next
    case cont
    with run dead show ?thesis by (auto dest!: continue_frame intro: dead_refresh(3))
  next
    case token
    obtain hook where hk: "handle_token K S e form t s = (reply, hook, s')"
      using run token by (auto split: prod.splits)
    consider (same) "s' = s" | (code) "token_from_code K S e t s = (reply, s')"
      | (refresh) "token_from_refresh K S e t s = (reply, hook, s')"
      using hk by (auto simp: handle_token_def split: if_splits prod.splits)
    then show ?thesis
    proof cases
      case same
      with dead show ?thesis by simp
    next
      case code
      obtain rc s1 where rc: "so_take_code S (hash_secret K (tf_code t)) (ev_t1 e) s = (rc, s1)"
        by (cases "so_take_code S (hash_secret K (tf_code t)) (ev_t1 e) s")
      have "av_refresh (V s1) = av_refresh (V s)"
        using take_code [OF rc] by (auto simp: gone_law_def split: sum.splits auth_err.splits)
      with dead have d1: "dead_family fam (V s1)" by (rule dead_refresh(3))
      consider "s' = s1" | co :: auth_code where "issue_tokens K S e (co_device co) (co_client co)
          (''fam_'' @ random_token 12 (ev_r3 e)) s1 = (reply, s')"
        using code rc by (auto simp: token_from_code_def split: sum.splits auth_err.splits if_splits)
      then show ?thesis
        by cases (use d1 issue [OF _ d1 other] in auto)
    next
      case refresh
      obtain rr s1 where rr: "so_get_refresh S (hash_secret K (tf_refresh t)) s = (rr, s1)"
        by (cases "so_get_refresh S (hash_secret K (tf_refresh t)) s")
      note g = get_refresh [OF rr]
      from g dead have d1: "dead_family fam (V s1)" by simp
      consider (same) "s' = s1"
        | (revoke) r :: refresh_token and rn where "so_revoke_family S (rf_family r) s1 = (rn, s')"
        | (mark) r :: refresh_token and err where "so_mark_used S (rf_token r) s1 = (err, s')"
        | (issue) r s2 where "rr = Inr r" "\<not> rf_revoked r" "so_mark_used S (rf_token r) s1 = (None, s2)"
            "issue_tokens K S e (rf_device r) (rf_client r) (rf_family r) s2 = (reply, s')"
        using refresh rr
        by (auto simp: token_from_refresh_def refresh_check_def refresh_mark_def refresh_issue_def
            split: sum.splits auth_err.splits if_splits prod.splits option.splits)
      then show ?thesis
      proof cases
        case same
        with d1 show ?thesis by simp
      next
        case revoke
        from revoke_family [OF revoke] d1 show ?thesis
          by (auto split: sum.splits intro: dead_refresh(2))
      next
        case mark
        from mark_refresh [OF mark] d1 show ?thesis
          by (auto simp: write_law_def split: option.splits intro: dead_refresh(1))
      next
        case issue
        have "av_refresh (V s) (hash_secret K (tf_refresh t)) = Some r"
          using g issue(1) by (simp add: get_law_def)
        with dead issue(2) have "rf_family r \<noteq> fam"
          by (auto simp: dead_family_def)
        moreover have "dead_family fam (V s2)"
          using mark_refresh [OF issue(3)] d1 by (auto simp: write_law_def intro: dead_refresh(1))
        ultimately show ?thesis
          using \<open>issue_tokens K S e (rf_device r) (rf_client r) (rf_family r) s2 = (reply, s')\<close>
            issue_tokens_frame(2) dead_refresh(3,4) by metis
      qed
    qed
  qed
qed

text \<open>The answer to a replayed token.\<close>

lemma reuse_law:
  assumes row: "av_refresh (V s) (hash_secret K (tf_refresh t)) = Some r"
    and used: "rf_used r" and live: "\<not> rf_revoked r" "ev_t1 e \<le> rf_expires r" and client: "tf_client t = rf_client r"
    and run: "token_from_refresh K S e t s = (reply, hook, s')"
  shows "if hook = Some (rf_client r)
    then V s' = V s\<lparr>av_refresh := revoke_all (rf_family r) (av_refresh (V s))\<rparr> \<and> dead_family (rf_family r) (V s') \<and>
      reply = OAuthError 400 ''invalid_grant'' ''refresh token reuse detected; all sessions revoked''
    else V s' = V s \<and>
      (reply = store_failed \<or> reply = OAuthError 400 ''invalid_grant'' ''refresh token reuse detected'')"
proof -
  obtain rr s1 where rr: "so_get_refresh S (hash_secret K (tf_refresh t)) s = (rr, s1)"
    by (cases "so_get_refresh S (hash_secret K (tf_refresh t)) s")
  note g = get_refresh [OF rr]
  obtain rn s2 where rn: "so_revoke_family S (rf_family r) s1 = (rn, s2)"
    by (cases "so_revoke_family S (rf_family r) s1")
  consider (failed) m where "rr = Inl (AuthFailed m)" | (read) "rr = Inr r"
    using g row by (auto simp: get_law_def split: sum.splits auth_err.splits)
  then show ?thesis
  proof cases
    case failed
    with run rr g show ?thesis
      by (auto simp: token_from_refresh_def refresh_check_def)
  next
    case read
    with run rr rn g used live client revoke_family [OF rn] show ?thesis
      by (auto simp: token_from_refresh_def refresh_check_def split: sum.splits intro: dead_refresh(5))
  qed
qed

text \<open>Credentials in order are never called invalid, whatever the store does.\<close>

lemma issue_tokens_reply: "issue_tokens K S e dev cid fam s = (reply, s') \<Longrightarrow> hands_out reply \<or> server_side reply"
  by (auto simp: issue_tokens_def Let_def split: prod.splits option.splits)

lemma good_code:
  assumes row: "av_codes (V s) (hash_secret K (tf_code t)) = Some c" and live: "ev_t1 e \<le> co_expires c"
    and client: "tf_client t = co_client c" and uri: "tf_redirect t = [] \<or> tf_redirect t = co_redirect c"
    and pk: "tf_verifier t \<noteq> []" "pkce K (tf_verifier t) = co_challenge c"
    and run: "token_from_code K S e t s = (reply, s')"
  shows "hands_out reply \<or> server_side reply"
proof -
  obtain rc s1 where rc: "so_take_code S (hash_secret K (tf_code t)) (ev_t1 e) s = (rc, s1)"
    by (cases "so_take_code S (hash_secret K (tf_code t)) (ev_t1 e) s")
  consider (failed) m where "rc = Inl (AuthFailed m)" | (got) "rc = Inr c"
    using take_code [OF rc] row live by (auto simp: live_law_def split: sum.splits auth_err.splits)
  then show ?thesis
  proof cases
    case failed
    with run rc show ?thesis by (auto simp: token_from_code_def store_failed_def)
  next
    case got
    with run rc client uri pk show ?thesis
      by (auto simp: token_from_code_def dest: issue_tokens_reply)
  qed
qed

lemma good_refresh:
  assumes row: "av_refresh (V s) (hash_secret K (tf_refresh t)) = Some r"
    and live: "\<not> rf_used r" "\<not> rf_revoked r" "ev_t1 e \<le> rf_expires r" and client: "tf_client t = rf_client r"
    and run: "token_from_refresh K S e t s = (reply, hook, s')"
  shows "hook = None \<and> (hands_out reply \<or> server_side reply)"
proof -
  obtain rr s1 where rr: "so_get_refresh S (hash_secret K (tf_refresh t)) s = (rr, s1)"
    by (cases "so_get_refresh S (hash_secret K (tf_refresh t)) s")
  consider (failed) m where "rr = Inl (AuthFailed m)" | (read) "rr = Inr r"
    using get_refresh [OF rr] row by (auto simp: get_law_def split: sum.splits auth_err.splits)
  then show ?thesis
  proof cases
    case failed
    with run rr show ?thesis
      by (auto simp: token_from_refresh_def refresh_check_def store_failed_def)
  next
    case read
    with run rr live client show ?thesis
      by (auto simp: token_from_refresh_def refresh_check_def refresh_mark_def refresh_issue_def store_failed_def
          split: option.splits prod.splits dest: issue_tokens_reply)
  qed
qed

lemma good_bearer:
  assumes row: "av_access (V s) (hash_secret K raw) = Some t" and live: "ev_t1 e \<le> at_expires t" and raw: "raw \<noteq> []"
    and run: "bearer_token K S e (''Bearer '' @ raw) s = (r, s')"
  shows "r = Inr t \<or> (\<exists>m. r = Inl (BearerStore m))"
proof -
  obtain rt s1 where rt: "so_get_access S (hash_secret K raw) (ev_t1 e) s = (rt, s1)"
    by (cases "so_get_access S (hash_secret K raw) (ev_t1 e) s")
  consider (failed) m where "rt = Inl (AuthFailed m)" | (got) "rt = Inr t"
    using get_access [OF rt] row live by (auto simp: live_law_def split: sum.splits auth_err.splits)
  then show ?thesis
    by cases (use run rt raw in \<open>auto simp: bearer_token_def\<close>)
qed

lemma good_device:
  assumes row: "av_devices (V s) (before_byte (CHR '':'') raw) = Some d"
    and secret: "after_byte (CHR '':'') raw = Some secret" "hash_secret K secret = dv_secret_hash d"
    and run: "authenticate_device K S (''Bearer '' @ raw) s = (r, s')"
  shows "r = Inr (dv_id d) \<or> (\<exists>m. r = Inl (DevStore m))"
proof -
  obtain rd s1 where rd: "so_get_device S (before_byte (CHR '':'') raw) s = (rd, s1)"
    by (cases "so_get_device S (before_byte (CHR '':'') raw) s")
  consider (failed) m where "rd = Inl (AuthFailed m)" | (got) "rd = Inr d"
    using get_device [OF rd] row by (auto simp: get_law_def split: sum.splits auth_err.splits)
  then show ?thesis
    by cases (use run rd secret in \<open>auto simp: authenticate_device_def\<close>)
qed

text \<open>The tokens of an answer are in the store, with their lifetimes.\<close>

lemma issued_rows:
  assumes run: "issue_tokens K S e dev cid fam s = (TokensAre a r secs, s')"
  shows "av_access (V s') (hash_secret K a) = Some (new_access K e a dev cid)"
    and "av_refresh (V s') (hash_secret K r) = Some (new_refresh K e r fam dev cid)"
    and "secs = access_ttl div second" and "a \<noteq> []"
  using run
  by (auto simp: issue_tokens_def Let_def write_law_def new_access_def new_refresh_def dest!: put_access put_refresh
      split: prod.splits option.splits)

lemma bearer_of_issued:
  assumes run: "issue_tokens K S e dev cid fam s = (TokensAre a r secs, s')"
    and use: "bearer_token K S e' (''Bearer '' @ a) s' = (res, s'')"
  shows "case res of
      Inr t \<Rightarrow> at_device t = dev \<and> at_client t = cid \<and> ev_t1 e' \<le> ev_t2 e + access_ttl
    | Inl (BearerStore m) \<Rightarrow> True
    | Inl BearerMissing \<Rightarrow> False
    | Inl BearerInvalid \<Rightarrow> ev_t2 e + access_ttl < ev_t1 e'"
proof -
  note rows = issued_rows [OF run]
  obtain rt s1 where rt: "so_get_access S (hash_secret K a) (ev_t1 e') s' = (rt, s1)"
    by (cases "so_get_access S (hash_secret K a) (ev_t1 e') s'")
  show ?thesis
    using use rt get_access [OF rt] rows(1,4)
    by (auto simp: bearer_token_def live_law_def new_access_def split: sum.splits auth_err.splits)
qed

text \<open>What a pairing code looks like.\<close>

lemma pairing_codes_have_a_dash:
  assumes "history K S V s0 tr s" and "V s0 = empty_view"
    and "list_all (\<lambda>(e, c, reply). 8 \<le> length (ev_r1 e)) tr"
    and "av_pairing (V s) k = Some p"
  shows "CHR ''-'' \<in> set k"
proof -
  have code: "code_for tr k (pc_device p)"
    using history_auth_inv [OF assms(1,2)] assms(4) auth_inv_D(4) by blast
  have "CHR ''-'' \<in> set (human_code bs)" if "8 \<le> length bs" for bs
  proof -
    from that have "(4, bs ! 4) \<in> set (enumerate 0 (take 8 bs))"
      by (simp add: in_set_enumerate_eq)
    then show ?thesis
      by (force simp: human_code_def)
  qed
  with code assms(3) show ?thesis
    by (induction tr) (auto split: auth_reply.splits auth_call.splits)
qed

text \<open>A redirect goes where the client registered.\<close>

lemma asked_registered: "asked tr rid cid uri ch \<Longrightarrow> registered tr cid uri"
  by (induction tr) (auto split: auth_call.splits auth_reply.splits)

lemma issue_code_redirect: "issue_auth_code K S e q dev s = (RedirectTo uri ps, s') \<Longrightarrow> uri = aq_redirect q"
  by (auto simp: issue_auth_code_def Let_def split: prod.splits option.splits)

lemma redirect_registered:
  assumes I: "auth_inv K tr (V s)" and run: "serve K S e c s = (RedirectTo uri ps, s')"
  shows "\<exists>cid. registered tr cid uri"
proof (cases c)
  case (CallAuthorize cid uri' rtype st ch meth)
  then obtain cl s1 where g: "so_get_client S cid s = (Inr cl, s1)" and u: "uri \<in> set (oc_uris cl)"
    using run by (auto simp: handle_authorize_get_def redirect_error_def store_failed_def Let_def render_pairing_page_def
        split: sum.splits auth_err.splits if_splits prod.splits option.splits)
  have "av_clients (V s) cid = Some cl"
    using get_client [OF g] by (simp add: get_law_def)
  with auth_inv_D(3) [OF I _ u] show ?thesis by blast
next
  case (CallPost form rid pcode)
  then obtain q s1 and p :: pairing_code and s2 where rq: "so_take_request S rid (ev_t1 e) s = (Inr q, s1)"
      and r: "issue_auth_code K S e q (pc_device p) s2 = (RedirectTo uri ps, s')"
    using run by (auto simp: handle_authorize_post_def store_failed_def rearm_def Let_def render_pairing_page_def
        split: sum.splits auth_err.splits if_splits prod.splits)
  from taken_request(2) [OF I rq refl] issue_code_redirect [OF r] show ?thesis
    by (auto dest: asked_registered)
next
  case (CallContinue form rid nonce)
  then obtain q s1 where rq: "so_take_request S rid (ev_t1 e) s = (Inr q, s1)"
      and r: "issue_auth_code K S e q (aq_device q) s1 = (RedirectTo uri ps, s')"
    using run by (auto simp: handle_authorize_continue_def store_failed_def
        split: sum.splits auth_err.splits if_splits prod.splits)
  from taken_request(2) [OF I rq refl] issue_code_redirect [OF r] show ?thesis
    by (auto dest: asked_registered)
next
  case (CallToken form t)
  then show ?thesis
    using run by (auto simp: handle_token_def token_from_code_def token_from_refresh_def refresh_check_def refresh_mark_def
        refresh_issue_def issue_tokens_def store_failed_def Let_def
        split: sum.splits auth_err.splits if_splits prod.splits option.splits)
qed (use run in \<open>auto simp: handle_as_metadata_def handle_resource_metadata_def handle_register_def handle_device_register_def
      handle_pairing_code_def handle_pair_info_def handle_pair_approve_def desktop_code_def desktop_info_def desktop_approve_def
      device_refused_def store_failed_def Let_def
      split: sum.splits auth_err.splits if_splits prod.splits option.splits device_err.splits info_err.splits\<close>)

lemma dead_for_good:
  assumes "history K S V s tr s'" and "dead_family fam (V s)"
    and "list_all (\<lambda>(e, c, reply). ''fam_'' @ random_token 12 (ev_r3 e) \<noteq> fam) tr"
  shows "dead_family fam (V s')"
  using assms
proof (induction rule: history.induct)
  case start
  then show ?case by simp
next
  case (call tr s1 e c reply s2)
  then show ?case by (auto intro: dead_family_step)
next
  case (purge tr s1 s2)
  then have d: "dead_family fam (V s1)" and le: "av_refresh (V s2) \<subseteq>\<^sub>m av_refresh (V s1)"
    by (simp_all add: view_le_def)
  from d show ?case
    unfolding dead_family_def using map_le_Some [OF le] by blast
next
  case (device tr s1 e name err s2)
  then have "av_refresh (V s2) = av_refresh (V s1)"
    by (auto simp: ensure_local_device_def write_law_def dest!: get_device create_device
        split: prod.splits sum.splits auth_err.splits option.splits)
  with device show ?case by (auto intro: dead_refresh(3))
qed

lemma revoked_is_refused:
  assumes dead: "dead_family fam (V s)" and row: "av_refresh (V s) (hash_secret K (tf_refresh t)) = Some r"
    and fam: "rf_family r = fam" and run: "token_from_refresh K S e t s = (reply, hook, s')"
  shows "\<not> hands_out reply"
proof -
  obtain rr s1 where rr: "so_get_refresh S (hash_secret K (tf_refresh t)) s = (rr, s1)"
    by (cases "so_get_refresh S (hash_secret K (tf_refresh t)) s")
  have "rf_revoked r"
    using dead row fam by (auto simp: dead_family_def)
  then show ?thesis
    using run rr get_refresh [OF rr] row
    by (auto simp: token_from_refresh_def refresh_check_def get_law_def store_failed_def split: sum.splits auth_err.splits)
qed

end

end
