(* ===== verification/AuthClaims.thy ===== *)
theory AuthClaims
  imports AuthSafety
begin

text \<open>
  The claims about the authorization server over the SQLite store, which the companion and a
  self-hosted relay use, and one run of it that the witnesses share.
\<close>

section \<open>Helpers\<close>

lemma set_strip_prefixes: "set (strip_prefixes ps n s) \<subseteq> set s"
proof (induction ps n s rule: strip_prefixes.induct)
  case (2 ps n s)
  then show ?case
    using set_drop_subset by (fastforce split: option.splits)
qed simp

lemma set_trim_space: "set (trim_space s) \<subseteq> set s"
  using set_strip_prefixes [of space_encodings "length s" s]
    set_strip_prefixes [of "map rev space_encodings" _ "rev (strip_prefixes space_encodings (length s) s)"]
  unfolding trim_space_def Let_def by (metis set_rev subset_trans)

lemma page_value_chars: "c \<in> set (page_value x) \<Longrightarrow> code_char c"
  by (auto simp: page_value_def dest!: in_set_takeD)

lemma code_char_upper: "code_char c \<Longrightarrow> ascii_byte c \<and> upper_byte c = c \<and> c \<noteq> CHR ''-''"
  by (auto simp: code_char_def ascii_byte_def upper_byte_def Let_def)

lemma typed_page_value: "CHR ''-'' \<notin> set (typed_code K (page_value x))"
proof -
  have sub: "set (trim_space (page_value x)) \<subseteq> set (page_value x)"
    by (rule set_trim_space)
  then have "ascii (trim_space (page_value x))"
    using page_value_chars code_char_upper by (fastforce simp: ascii_def list_all_iff)
  moreover have "map upper_byte (trim_space (page_value x)) = trim_space (page_value x)"
    using sub page_value_chars code_char_upper by (intro map_idI) blast
  ultimately show ?thesis
    using sub page_value_chars code_char_upper by (fastforce simp: typed_code_def to_upper_def)
qed

lemma direct_codes:
  "code_for tr code dev \<Longrightarrow> list_all (\<lambda>(e, c, reply). direct_route c) tr \<Longrightarrow>
     dev = local_device_id \<and> list_ex (\<lambda>(e, c, reply). desktop_call c) tr"
  by (induction tr) (auto split: auth_reply.splits auth_call.splits)

lemma direct_approvals:
  "approved_for K tr rid dev nh \<Longrightarrow> list_all (\<lambda>(e, c, reply). direct_route c) tr \<Longrightarrow>
     dev = local_device_id \<and> list_ex (\<lambda>(e, c, reply). desktop_call c) tr"
  by (induction tr) (auto split: auth_reply.splits auth_call.splits option.splits)

lemma direct_mints:
  "minted K tr h cid dev uri ch \<Longrightarrow> list_all (\<lambda>(e, c, reply). direct_route c) tr \<Longrightarrow>
     dev = local_device_id \<and> list_ex (\<lambda>(e, c, reply). desktop_call c) tr"
  by (induction tr) (auto dest: direct_codes direct_approvals split: auth_reply.splits auth_call.splits list.splits)

lemma direct_authorised:
  "authorised K tr cid dev \<Longrightarrow> list_all (\<lambda>(e, c, reply). direct_route c) tr \<Longrightarrow>
     dev = local_device_id \<and> list_ex (\<lambda>(e, c, reply). desktop_call c) tr"
  by (induction tr) (auto dest: direct_mints split: auth_call.splits)

lemma validate_bearer_token: "validate_bearer K S e header s = (Inr dev, s') \<Longrightarrow>
    \<exists>t. bearer_token K S e header s = (Inr t, s') \<and> at_device t = dev"
  by (cases "bearer_token K S e header s") (auto simp: validate_bearer_def map_sum_def split: sum.splits)

section \<open>A run\<close>

text \<open>A hash that can be computed, and URLs that are https when they say so.\<close>

definition toy_conf :: auth_conf where
  "toy_conf =
     \<lparr>af_sha = (\<lambda>s. map of_char (drop 3 s) @ [length s]),
      af_url = (\<lambda>u. if has_prefix u ''https://'' then Some (''https'', drop 8 u) else None),
      af_unicode = plain_unicode, af_issuer = ''https://me'', af_issuer_now = None, af_companion = []\<rparr>"

definition toy_env :: "time \<Rightarrow> nat list \<Rightarrow> nat list \<Rightarrow> auth_env" where
  "toy_env t r1 r2 = \<lparr>ev_t1 = t, ev_t2 = t, ev_t3 = t, ev_t4 = t, ev_r1 = r1, ev_r2 = r2, ev_r3 = [1, 2, 3]\<rparr>"

definition bytes8 :: "nat list" where "bytes8 = [0, 1, 2, 3, 4, 5, 6, 7]"

definition empty_sql :: auth_sql where
  "empty_sql = \<lparr>db_devices = [], db_pairing = [], db_clients = [], db_reqs = [], db_codes = [],
     db_access = [], db_refresh = [], sq_faults = []\<rparr>"

lemma empty_sql_view [simp]: "db_view empty_sql = empty_view"
  by (simp add: db_view_def empty_sql_def empty_view_def)

text \<open>A list of calls served one after the other, with the trace they leave.\<close>

fun replay ::
  "auth_conf \<Rightarrow> 's store_ops \<Rightarrow> (auth_env \<times> auth_call) list \<Rightarrow> trace \<times> 's \<Rightarrow> trace \<times> 's" where
  "replay K S [] (tr, s) = (tr, s)"
| "replay K S ((e, c) # cs) (tr, s) = (case serve K S e c s of (reply, s') \<Rightarrow> replay K S cs ((e, c, reply) # tr, s'))"

lemma history_replay:
  "history K S V s0 tr s \<Longrightarrow> replay K S cs (tr, s) = (tr', s') \<Longrightarrow> history K S V s0 tr' s'"
proof (induction cs arbitrary: tr s)
  case Nil
  then show ?case by simp
next
  case (Cons x cs)
  then show ?case
    by (cases x) (auto split: prod.splits intro: history.call)
qed

definition ready_sql :: auth_sql where
  "ready_sql = snd (ensure_local_device toy_conf sql_ops (toy_env 0 [9] []) ''pc'' empty_sql)"

lemma ready_history: "history toy_conf sql_ops db_view empty_sql [] ready_sql"
  unfolding ready_sql_def by (rule history.device [OF history.start]) (rule prod.collapse [symmetric])

definition toy_form :: token_form where
  "toy_form = \<lparr>tf_grant = ''authorization_code'', tf_client = ''cl_AQID'', tf_code = ''ac_BwgJ'',
     tf_redirect = ''https://a'', tf_verifier = ''verifier'', tf_refresh = []\<rparr>"

definition pairing_run :: "(auth_env \<times> auth_call) list" where
  "pairing_run =
     [(toy_env 1 [1, 2, 3, 4, 5, 6, 7, 8] [], CallRegister (Some (''c'', [''https://a'']))),
      (toy_env 2 bytes8 [0, 1, 2, 3],
         CallAuthorize ''cl_AQIDBAUGBwg'' ''https://a'' ''code'' ''st'' (pkce toy_conf ''verifier'') ''S256''),
      (toy_env 3 bytes8 [], DesktopCode),
      (toy_env 4 bytes8 [], CallPost True ''ar_AAECAwQFBgc'' '' 2345-6789 ''),
      (toy_env 5 [1, 1, 2, 3, 4, 5, 6, 7] [2], CallToken True
         (toy_form\<lparr>tf_client := ''cl_AQIDBAUGBwg'', tf_code := ''ac_AAECAwQFBgc''\<rparr>))]"

definition paired :: "trace \<times> auth_sql" where
  "paired = replay toy_conf sql_ops pairing_run ([], ready_sql)"

lemma paired_history: "history toy_conf sql_ops db_view empty_sql (fst paired) (snd paired)"
  by (rule history_replay [OF ready_history, of pairing_run]) (simp add: paired_def)

section \<open>Where access comes from\<close>

text \<open>
  C10. A token that is let in goes back to the user: in every history of calls from an empty
  store, with rows purged at any time and any database call failing, there is a redemption of
  an authorization code by the token's client with the verifier of its S256 challenge; that
  code was sent to a redirect URI the client had registered, for a request whose page was
  shown, and whoever got it typed a pairing code that was handed to the token's device, or
  showed the nonce of that device's approval of the request. Each of these came before the next.
\<close>

theorem access_goes_back_to_the_user:
  assumes "history K sql_ops db_view s0 tr s" and "db_view s0 = empty_view"
    and "validate_bearer K sql_ops e header s = (Inr dev, s')"
  shows "\<exists>t. bearer_token K sql_ops e header s = (Inr t, s') \<and> at_device t = dev
    \<and> authorised K tr (at_client t) dev"
proof -
  obtain t where "bearer_token K sql_ops e header s = (Inr t, s')" "at_device t = dev"
    using validate_bearer_token [OF assms(3)] by blast
  with sql.accepted_is_authorised [OF assms(1,2)] show ?thesis by blast
qed

definition toy_bearer :: string where "toy_bearer = ''Bearer at_AQECAwQFBgc''"

lemma paired_is_let_in:
  "fst (validate_bearer toy_conf sql_ops (toy_env 6 [] []) toy_bearer (snd paired)) = Inr ''dev_local''"
  by code_simp

theorem access_goes_back_to_the_user_witness:
  "\<exists>cid. authorised toy_conf (fst paired) cid ''dev_local''"
proof -
  have "validate_bearer toy_conf sql_ops (toy_env 6 [] []) toy_bearer (snd paired)
      = (Inr ''dev_local'', snd (validate_bearer toy_conf sql_ops (toy_env 6 [] []) toy_bearer (snd paired)))"
    by (simp add: paired_is_let_in prod_eq_iff)
  from access_goes_back_to_the_user [OF paired_history empty_sql_view this] show ?thesis by blast
qed

text \<open>
  Every authorization code is redeemed at most once: over any history, the redemptions of
  a code (successful ones, and those whose tokens could not be written) are at most the
  redirects that carried it. Only a second code of the same hash could be used again.
\<close>

theorem codes_are_redeemed_once:
  assumes "history K sql_ops db_view s0 tr s" and "db_view s0 = empty_view"
  shows "redemptions K tr h \<le> mints K tr h"
  using sql.single_use [OF assms, of h] by linarith

theorem codes_are_redeemed_once_witness:
  "redemptions toy_conf (fst paired) (hash_secret toy_conf ''ac_AAECAwQFBgc'')
     \<le> mints toy_conf (fst paired) (hash_secret toy_conf ''ac_AAECAwQFBgc'')"
  by (rule codes_are_redeemed_once [OF paired_history empty_sql_view])

text \<open>
  The server redirects only to URIs that a client registered, with a code as with an
  error, whatever the request says.
\<close>

theorem redirects_are_registered:
  assumes "history K sql_ops db_view s0 tr s" and "db_view s0 = empty_view"
    and "serve K sql_ops e c s = (RedirectTo uri params, s')"
  shows "\<exists>cid. registered tr cid uri"
  by (rule sql.redirect_registered [OF sql.history_auth_inv [OF assms(1,2)] assms(3)])

lemma toy_denied:
  "fst (serve toy_conf sql_ops (toy_env 7 bytes8 bytes8)
     (CallAuthorize ''cl_AQIDBAUGBwg'' ''https://a'' ''token'' ''st'' ''x'' ''S256'') (snd paired))
   = RedirectTo ''https://a'' [(''error'', ''unsupported_response_type''), (''state'', ''st'')]"
  by code_simp

theorem redirects_are_registered_witness: "\<exists>cid. registered (fst paired) cid ''https://a''"
  by (rule redirects_are_registered [OF paired_history empty_sql_view,
        where e = "toy_env 7 bytes8 bytes8"
          and c = "CallAuthorize ''cl_AQIDBAUGBwg'' ''https://a'' ''token'' ''st'' ''x'' ''S256''"
          and params = "[(''error'', ''unsupported_response_type''), (''state'', ''st'')]"
          and s' = "snd (serve toy_conf sql_ops (toy_env 7 bytes8 bytes8)
            (CallAuthorize ''cl_AQIDBAUGBwg'' ''https://a'' ''token'' ''st'' ''x'' ''S256'') (snd paired))"])
    (simp only: prod_eq_iff toy_denied fst_conv snd_conv simp_thms)

section \<open>Refresh tokens\<close>

definition refresh_form :: "string \<Rightarrow> token_form" where
  "refresh_form rt = \<lparr>tf_grant = ''refresh_token'', tf_client = ''cl_AQIDBAUGBwg'', tf_code = [], tf_redirect = [],
     tf_verifier = [], tf_refresh = rt\<rparr>"

text \<open>
  When a spent refresh token is shown again and the server says that all sessions are
  revoked, every refresh token of the family is dead: in any later history in which no code
  grant draws the same family name, none of them gets tokens. The access tokens of the family
  are untouched by it and work until they expire.
\<close>

theorem replay_ends_the_family:
  assumes "map_of (db_refresh s) (hash_secret K (tf_refresh t)) = Some r"
    and "rf_used r" and "\<not> rf_revoked r" and "ev_t1 e \<le> rf_expires r" and "tf_client t = rf_client r"
    and run: "token_from_refresh K sql_ops e t s = (reply, Some cid, s1)"
    and later: "history K sql_ops db_view s1 tr s2"
    and names: "list_all (\<lambda>(e, c, reply). ''fam_'' @ random_token 12 (ev_r3 e) \<noteq> rf_family r) tr"
    and row: "map_of (db_refresh s2) (hash_secret K (tf_refresh t2)) = Some r2" and same: "rf_family r2 = rf_family r"
    and again: "token_from_refresh K sql_ops e2 t2 s2 = (reply2, hook2, s3)"
  shows "\<not> hands_out reply2 \<and> cid = rf_client r \<and> map_of (db_access s1) = map_of (db_access s)"
proof -
  have law: "if Some cid = Some (rf_client r)
    then db_view s1 = db_view s\<lparr>av_refresh := revoke_all (rf_family r) (av_refresh (db_view s))\<rparr> \<and>
      dead_family (rf_family r) (db_view s1) \<and>
      reply = OAuthError 400 ''invalid_grant'' ''refresh token reuse detected; all sessions revoked''
    else db_view s1 = db_view s \<and>
      (reply = store_failed \<or> reply = OAuthError 400 ''invalid_grant'' ''refresh token reuse detected'')"
    by (rule sql.reuse_law [OF _ assms(2,3,4,5) run]) (simp add: assms(1))
  have cid: "cid = rf_client r"
    using run assms(1-5) sql.reuse_law [OF _ assms(2,3,4,5) run]
    by (auto simp: token_from_refresh_def refresh_check_def sql_ops_def sql_select_def statement_def found_def
        split: sum.splits auth_err.splits if_splits prod.splits option.splits list.splits)
  with law have dead: "dead_family (rf_family r) (db_view s1)"
    and view: "db_view s1 = db_view s\<lparr>av_refresh := revoke_all (rf_family r) (av_refresh (db_view s))\<rparr>"
    by auto
  have dead2: "dead_family (rf_family r) (db_view s2)"
    by (rule sql.dead_for_good [OF later dead names])
  have "av_refresh (db_view s2) (hash_secret K (tf_refresh t2)) = Some r2"
    by (simp add: row)
  then have "\<not> hands_out reply2"
    by (rule sql.revoked_is_refused [OF dead2 _ same again])
  moreover have "map_of (db_access s1) = map_of (db_access s)"
    using arg_cong [OF view, of av_access] by simp
  ultimately show ?thesis
    using cid by simp
qed

definition refreshed :: auth_sql where
  "refreshed = snd (snd (token_from_refresh toy_conf sql_ops (toy_env 6 [20, 1] [20, 2]) (refresh_form ''rt_Ag'') (snd paired)))"

definition replayed :: "auth_reply \<times> string option \<times> auth_sql" where
  "replayed = token_from_refresh toy_conf sql_ops (toy_env 7 [21, 1] [21, 2]) (refresh_form ''rt_Ag'') refreshed"

definition spent_row :: refresh_token where
  "spent_row = new_refresh toy_conf (toy_env 5 [] []) ''rt_Ag'' ''fam_AQID'' ''dev_local'' ''cl_AQIDBAUGBwg''\<lparr>rf_used := True\<rparr>"

lemma replay_facts:
  "map_of (db_refresh refreshed) (hash_secret toy_conf (tf_refresh (refresh_form ''rt_Ag''))) = Some spent_row"
  "rf_used spent_row" "\<not> rf_revoked spent_row" "ev_t1 (toy_env 7 [21, 1] [21, 2]) \<le> rf_expires spent_row"
  "tf_client (refresh_form ''rt_Ag'') = rf_client spent_row"
  "fst (snd replayed) = Some ''cl_AQIDBAUGBwg''"
  "map_option rf_family (map_of (db_refresh (snd (snd replayed))) (hash_secret toy_conf ''rt_FAI'')) = Some (rf_family spent_row)"
  "tf_refresh (refresh_form ''rt_FAI'') = ''rt_FAI''"
  by code_simp+

theorem replay_ends_the_family_witness:
  "\<not> hands_out (fst (token_from_refresh toy_conf sql_ops (toy_env 8 [22, 1] [22, 2]) (refresh_form ''rt_FAI'')
     (snd (snd replayed))))"
proof -
  obtain r2 where r2: "map_of (db_refresh (snd (snd replayed))) (hash_secret toy_conf (tf_refresh (refresh_form ''rt_FAI''))) = Some r2"
      "rf_family r2 = rf_family spent_row"
    using replay_facts(7,8) by auto
  have run: "token_from_refresh toy_conf sql_ops (toy_env 7 [21, 1] [21, 2]) (refresh_form ''rt_Ag'') refreshed
      = (fst replayed, Some ''cl_AQIDBAUGBwg'', snd (snd replayed))"
    using replay_facts(6) by (simp add: replayed_def prod_eq_iff)
  show ?thesis
    by (rule replay_ends_the_family [OF replay_facts(1-5) run history.start _ r2, THEN conjunct1])
      (simp_all add: prod_eq_iff)
qed

section \<open>Outages\<close>

definition good_grant :: "auth_conf \<Rightarrow> auth_view \<Rightarrow> auth_env \<Rightarrow> token_form \<Rightarrow> bool" where
  "good_grant K v e t =
     (if tf_grant t = ''authorization_code'' then
        (case av_codes v (hash_secret K (tf_code t)) of
           None \<Rightarrow> False
         | Some c \<Rightarrow> ev_t1 e \<le> co_expires c \<and> tf_client t = co_client c \<and>
             (tf_redirect t = [] \<or> tf_redirect t = co_redirect c) \<and>
             tf_verifier t \<noteq> [] \<and> pkce K (tf_verifier t) = co_challenge c)
      else if tf_grant t = ''refresh_token'' then
        (case av_refresh v (hash_secret K (tf_refresh t)) of
           None \<Rightarrow> False
         | Some r \<Rightarrow> \<not> rf_used r \<and> \<not> rf_revoked r \<and> ev_t1 e \<le> rf_expires r \<and> tf_client t = rf_client r)
      else False)"

text \<open>
  An outage is never told as a bad credential: whatever database calls fail, a grant that
  is in order is answered with tokens or with a 5xx, and revokes nothing.
\<close>

theorem good_grants_are_never_refused:
  assumes "good_grant K (db_view s) e t" and run: "handle_token K sql_ops e True t s = (reply, hook, s')"
  shows "hook = None \<and> (hands_out reply \<or> server_side reply)"
proof (cases "tf_grant t = ''authorization_code''")
  case True
  then obtain c where c: "av_codes (db_view s) (hash_secret K (tf_code t)) = Some c"
      "ev_t1 e \<le> co_expires c" "tf_client t = co_client c" "tf_redirect t = [] \<or> tf_redirect t = co_redirect c"
      "tf_verifier t \<noteq> []" "pkce K (tf_verifier t) = co_challenge c"
    using assms(1) by (auto simp: good_grant_def split: option.splits)
  have hook: "hook = None" and tk: "token_from_code K sql_ops e t s = (reply, s')"
    using run True by (auto simp: handle_token_def split: prod.splits)
  from sql.good_code [OF c tk] hook show ?thesis by simp
next
  case False
  then have grant: "tf_grant t = ''refresh_token''"
    using assms(1) by (auto simp: good_grant_def split: if_splits)
  then obtain r where r: "av_refresh (db_view s) (hash_secret K (tf_refresh t)) = Some r"
      "\<not> rf_used r" "\<not> rf_revoked r" "ev_t1 e \<le> rf_expires r" "tf_client t = rf_client r"
    using assms(1) by (auto simp: good_grant_def split: option.splits)
  have tk: "token_from_refresh K sql_ops e t s = (reply, hook, s')"
    using run grant by (simp add: handle_token_def)
  show ?thesis by (rule sql.good_refresh [OF r tk])
qed

definition broken :: "string option list \<Rightarrow> auth_sql" where
  "broken fs = (snd paired)\<lparr>sq_faults := fs\<rparr>"

lemma toy_good_grant: "good_grant toy_conf (db_view (broken [Some ''locked''])) (toy_env 6 [20, 1] [20, 2]) (refresh_form ''rt_Ag'')"
  by code_simp

theorem good_grants_are_never_refused_witness:
  "let reply = fst (handle_token toy_conf sql_ops (toy_env 6 [20, 1] [20, 2]) True (refresh_form ''rt_Ag'') (broken [Some ''locked'']))
   in hands_out reply \<or> server_side reply"
proof -
  obtain reply hook s' where "handle_token toy_conf sql_ops (toy_env 6 [20, 1] [20, 2]) True (refresh_form ''rt_Ag'')
      (broken [Some ''locked'']) = (reply, hook, s')"
    by (rule prod_cases3)
  with good_grants_are_never_refused [OF toy_good_grant this] show ?thesis
    by (simp add: Let_def)
qed

text \<open>
  The tokens of an answer work at once, for two hours, and then no more: after a token
  request was answered with tokens, the access token is let in exactly until two hours after
  the clock reading that went into it, unless the store cannot be read.
\<close>

theorem tokens_last_two_hours:
  assumes "handle_token K sql_ops e True t s = (TokensAre a r secs, hook, s')"
    and "validate_bearer K sql_ops e' (''Bearer '' @ a) s' = (res, s'')"
  shows "secs = 7200 \<and>
    (case res of
       Inr dev \<Rightarrow> ev_t1 e' \<le> ev_t2 e + access_ttl
     | Inl (BearerStore m) \<Rightarrow> True
     | Inl BearerMissing \<Rightarrow> False
     | Inl BearerInvalid \<Rightarrow> ev_t2 e + access_ttl < ev_t1 e')"
proof -
  obtain dev cid fam s1 where run: "issue_tokens K sql_ops e dev cid fam s1 = (TokensAre a r secs, s')"
    using assms(1)
    by (auto simp: handle_token_def token_from_code_def token_from_refresh_def refresh_check_def refresh_mark_def
        refresh_issue_def store_failed_def split: sum.splits auth_err.splits if_splits prod.splits option.splits)
  obtain res0 where use: "bearer_token K sql_ops e' (''Bearer '' @ a) s' = (res0, s'')" and res: "res = map_sum (\<lambda>err. err) at_device res0"
    using assms(2) by (cases "bearer_token K sql_ops e' (''Bearer '' @ a) s'") (auto simp: validate_bearer_def)
  from sql.bearer_of_issued [OF run use] sql.issued_rows(3) [OF run] show ?thesis
    by (auto simp: res split: sum.splits bearer_err.splits)
qed

lemma toy_tokens:
  "fst (handle_token toy_conf sql_ops (toy_env 6 [20, 1] [20, 2]) True (refresh_form ''rt_Ag'') (snd paired))
     = TokensAre ''at_FAE'' ''rt_FAI'' 7200"
  by code_simp

theorem tokens_last_two_hours_witness:
  "fst (validate_bearer toy_conf sql_ops (toy_env 7 [] []) ''Bearer at_FAE''
     (snd (snd (handle_token toy_conf sql_ops (toy_env 6 [20, 1] [20, 2]) True (refresh_form ''rt_Ag'') (snd paired)))))
   \<noteq> Inl BearerInvalid"
proof -
  obtain hook s' where run: "handle_token toy_conf sql_ops (toy_env 6 [20, 1] [20, 2]) True (refresh_form ''rt_Ag'') (snd paired)
      = (TokensAre ''at_FAE'' ''rt_FAI'' 7200, hook, s')"
    using toy_tokens
    by (cases "handle_token toy_conf sql_ops (toy_env 6 [20, 1] [20, 2]) True (refresh_form ''rt_Ag'') (snd paired)") auto
  obtain res s'' where use: "validate_bearer toy_conf sql_ops (toy_env 7 [] []) (''Bearer '' @ ''at_FAE'') s' = (res, s'')"
    by (cases "validate_bearer toy_conf sql_ops (toy_env 7 [] []) (''Bearer '' @ ''at_FAE'') s'")
  from tokens_last_two_hours [OF run use] run use show ?thesis
    by (auto simp: toy_env_def)
qed

section \<open>What goes wrong\<close>

text \<open>
  A pairing code that goes through the connect page is never accepted: the page's script
  keeps capital letters and digits, the codes have a hyphen and are looked up as they are. For
  every history and whatever is typed, the answer is not a redirect with a code. Sent with its
  hyphen, as only a browser without scripts sends it, the code of the run above is accepted.
\<close>

theorem typed_codes_never_match:
  assumes "history K sql_ops db_view s0 tr s" and "db_view s0 = empty_view"
    and "list_all (\<lambda>(e, c, reply). 8 \<le> length (ev_r1 e)) tr"
    and "handle_authorize_post K sql_ops e form rid (page_value typed) s = (reply, s')"
  shows "case reply of RedirectTo uri params \<Rightarrow> False | _ \<Rightarrow> True"
proof -
  obtain rq s1 where rq: "sql_take_request rid (ev_t1 e) s = (rq, s1)"
    by (cases "sql_take_request rid (ev_t1 e) s")
  obtain rp s2 where rp: "sql_take_pairing (typed_code K (page_value typed)) (ev_t2 e) s1 = (rp, s2)"
    by (cases "sql_take_pairing (typed_code K (page_value typed)) (ev_t2 e) s1")
  have rq': "so_take_request sql_ops rid (ev_t1 e) s = (rq, s1)"
    and rp': "so_take_pairing sql_ops (typed_code K (page_value typed)) (ev_t2 e) s1 = (rp, s2)"
    using rq rp by (simp_all add: sql_ops_def)
  have v: "av_pairing (db_view s1) = av_pairing (db_view s)"
    using sql.take_request [OF rq'] by (auto simp: gone_law_def split: sum.splits auth_err.splits)
  have "rp \<noteq> Inr p" for p
  proof
    assume "rp = Inr p"
    then have "av_pairing (db_view s) (typed_code K (page_value typed)) = Some p"
      using sql.take_pairing [OF rp'] v by (simp add: live_law_def)
    from sql.pairing_codes_have_a_dash [OF assms(1,2,3) this] typed_page_value show False by blast
  qed
  then show ?thesis
    using assms(4) rq' rp'
    by (auto simp: handle_authorize_post_def store_failed_def rearm_def Let_def render_pairing_page_def
        split: sum.splits auth_err.splits if_splits prod.splits)
qed

definition waiting :: "trace \<times> auth_sql" where
  "waiting = replay toy_conf sql_ops (take 3 pairing_run) ([], ready_sql)"

lemma waiting_history: "history toy_conf sql_ops db_view empty_sql (fst waiting) (snd waiting)"
  by (rule history_replay [OF ready_history, of "take 3 pairing_run"]) (simp add: waiting_def)

lemma waiting_facts:
  "list_all (\<lambda>(e, c, reply). 8 \<le> length (ev_r1 e)) (fst waiting)"
  "page_value ''2345-6789'' = ''23456789''"
  by code_simp+

theorem typed_codes_never_match_witness:
  "case fst (handle_authorize_post toy_conf sql_ops (toy_env 4 bytes8 []) True ''ar_AAECAwQFBgc'' (page_value ''2345-6789'')
       (snd waiting)) of
     RedirectTo uri params \<Rightarrow> False | _ \<Rightarrow> True"
  by (rule typed_codes_never_match [OF waiting_history empty_sql_view waiting_facts(1)])
    (rule prod.collapse [symmetric])

text \<open>
  Two refreshes with one token whose store calls interleave: both read, both mark, both write.
\<close>

definition racing_refreshes ::
  "auth_conf \<Rightarrow> auth_env \<Rightarrow> auth_env \<Rightarrow> token_form \<Rightarrow> auth_sql \<Rightarrow> (auth_reply \<times> auth_reply \<times> auth_sql) option" where
  "racing_refreshes K e1 e2 t s =
     (case refresh_check K sql_ops e1 t s of
        (Inl x, s1) \<Rightarrow> None
      | (Inr r1, s1) \<Rightarrow>
         (case refresh_check K sql_ops e2 t s1 of
            (Inl x, s2) \<Rightarrow> None
          | (Inr r2, s2) \<Rightarrow>
             (case refresh_mark sql_ops r1 s2 of
                (Some x, s3) \<Rightarrow> None
              | (None, s3) \<Rightarrow>
                 (case refresh_mark sql_ops r2 s3 of
                    (Some x, s4) \<Rightarrow> None
                  | (None, s4) \<Rightarrow>
                     (case refresh_issue K sql_ops e1 r1 s4 of (a1, s5) \<Rightarrow>
                       (case refresh_issue K sql_ops e2 r2 s5 of (a2, s6) \<Rightarrow> Some (a1, a2, s6)))))))"

text \<open>A refresh that has been judged when the family is revoked, and goes on afterwards.\<close>

definition refresh_across_revocation ::
  "auth_conf \<Rightarrow> auth_env \<Rightarrow> auth_env \<Rightarrow> token_form \<Rightarrow> string \<Rightarrow> auth_sql \<Rightarrow> (auth_reply \<times> auth_sql) option" where
  "refresh_across_revocation K e1 e2 t fam s =
     (case refresh_check K sql_ops e1 t s of
        (Inl x, s1) \<Rightarrow> None
      | (Inr r1, s1) \<Rightarrow>
         (case sql_revoke_family fam s1 of
            (Inl x, s2) \<Rightarrow> None
          | (Inr n, s2) \<Rightarrow>
             (case refresh_mark sql_ops r1 s2 of
                (Some x, s3) \<Rightarrow> None
              | (None, s3) \<Rightarrow> Some (refresh_issue K sql_ops e1 r1 s3))))"

definition usable :: "auth_sql \<Rightarrow> string \<Rightarrow> bool" where
  "usable s raw =
     (case map_of (db_refresh s) (hash_secret toy_conf raw) of
        None \<Rightarrow> False | Some r \<Rightarrow> \<not> rf_used r \<and> \<not> rf_revoked r \<and> rf_family r = ''fam_AQID'')"

lemma race_facts:
  "case racing_refreshes toy_conf (toy_env 6 [20, 1] [20, 2]) (toy_env 6 [21, 1] [21, 2]) (refresh_form ''rt_Ag'') (snd paired) of
     None \<Rightarrow> False | Some (a1, a2, s) \<Rightarrow> hands_out a1 \<and> hands_out a2 \<and> usable s ''rt_FAI'' \<and> usable s ''rt_FQI''"
  "case refresh_across_revocation toy_conf (toy_env 6 [20, 1] [20, 2]) (toy_env 6 [] []) (refresh_form ''rt_Ag'')
       ''fam_AQID'' (snd paired) of
     None \<Rightarrow> False | Some (a, s) \<Rightarrow> hands_out a \<and> usable s ''rt_FAI''"
  by code_simp+

definition half_written :: "auth_reply \<times> string option \<times> auth_sql" where
  "half_written = handle_token toy_conf sql_ops (toy_env 6 [20, 1] [20, 2]) True (refresh_form ''rt_Ag'')
     (broken [None, None, None, Some ''disk full''])"

lemma retry_facts:
  "fst half_written = OAuthError 500 ''server_error'' []"
  "fst (handle_token toy_conf sql_ops (toy_env 7 [21, 1] [21, 2]) True (refresh_form ''rt_Ag'') (snd (snd half_written)))
     = OAuthError 400 ''invalid_grant'' ''refresh token reuse detected; all sessions revoked''"
  by code_simp+

text \<open>
  Rotation is not one step, and three things follow, each shown on the run above. Two
  refreshes that read the same unspent token before either marks it both get tokens, and both
  new refresh tokens work: a copied token is not noticed. A refresh that was judged before
  its family is revoked still writes a token that works afterwards. And when the new pair cannot
  be written after the old token was marked, the answer is a 500, but the retry it invites is
  taken for a theft and ends all sessions of the client.
\<close>

theorem rotation_is_not_atomic:
  "(case racing_refreshes toy_conf (toy_env 6 [20, 1] [20, 2]) (toy_env 6 [21, 1] [21, 2]) (refresh_form ''rt_Ag'') (snd paired) of
      None \<Rightarrow> False | Some (a1, a2, s) \<Rightarrow> hands_out a1 \<and> hands_out a2 \<and> usable s ''rt_FAI'' \<and> usable s ''rt_FQI'') \<and>
   (case refresh_across_revocation toy_conf (toy_env 6 [20, 1] [20, 2]) (toy_env 6 [] []) (refresh_form ''rt_Ag'')
        ''fam_AQID'' (snd paired) of
      None \<Rightarrow> False | Some (a, s) \<Rightarrow> hands_out a \<and> usable s ''rt_FAI'') \<and>
   fst half_written = OAuthError 500 ''server_error'' [] \<and>
   fst (handle_token toy_conf sql_ops (toy_env 7 [21, 1] [21, 2]) True (refresh_form ''rt_Ag'') (snd (snd half_written)))
     = OAuthError 400 ''invalid_grant'' ''refresh token reuse detected; all sessions revoked''"
  by (intro conjI race_facts retry_facts)

text \<open>
  The endpoint that mints pairing codes is the one that breaks the rule about outages: when
  the store cannot be read it answers 401 \<open>invalid_client\<close> to any device credentials, good ones
  included, where the other endpoints for devices answer 503.
\<close>

theorem outage_reads_as_bad_credentials:
  assumes "sq_faults s = Some m # fs" and "CHR '':'' \<in> set raw"
  shows "fst (handle_pairing_code K sql_ops e (''Bearer '' @ raw) s)
      = OAuthError 401 ''invalid_client'' (''credential store unavailable: '' @ m) \<and>
    fst (handle_pair_info K sql_ops e (''Bearer '' @ raw) rid s) = store_failed"
proof -
  obtain secret where "after_byte (CHR '':'') raw = Some secret"
    using assms(2) bytes_simps by (cases "after_byte (CHR '':'') raw") auto
  then obtain s' where "authenticate_device K sql_ops (''Bearer '' @ raw) s = (Inl (DevStore m), s')"
    using assms(1) by (simp add: authenticate_device_def sql_ops_def sql_select_def statement_def)
  then show ?thesis
    by (auto simp: handle_pairing_code_def handle_pair_info_def device_refused_def device_err_text_def)
qed

theorem outage_reads_as_bad_credentials_witness:
  "fst (handle_pairing_code toy_conf sql_ops (toy_env 6 bytes8 []) (''Bearer '' @ ''dev_local:x'') (broken [Some ''locked'']))
     = OAuthError 401 ''invalid_client'' (''credential store unavailable: '' @ ''locked'')"
  by (rule outage_reads_as_bad_credentials [where fs = "[]", THEN conjunct1]) (simp_all add: broken_def)

section \<open>Names for callers\<close>

lemma words_of_chars: "w \<in> set (words_of s) \<Longrightarrow> w \<noteq> [] \<and> set w \<subseteq> set s - {CHR '' ''}"
  using split_on_seg split_on_subset by (fastforce simp: words_of_def)

lemma join_chars: "set (join_with d ws) \<subseteq> set d \<union> (\<Union>w \<in> set ws. set w)"
  by (induction d ws rule: join_with.induct) auto

text \<open>A name made for a notification holds at most 24 characters, all of the safe class, and never says unknown.\<close>

lemma caller_name_is_safe:
  "length (caller_name name) \<le> 24 \<and> list_all caller_char (caller_name name) \<and>
   map lower_byte (caller_name name) \<noteq> ''unknown''"
proof -
  define n where "n = join_with '' '' (words_of (filter caller_char name))"
  define m where "m = (if 24 < length n then trim_space (take 24 n) else n)"
  have "set n \<subseteq> {c. caller_char c}"
  proof -
    have "set w \<subseteq> {c. caller_char c}" if "w \<in> set (words_of (filter caller_char name))" for w
      using words_of_chars [OF that] by auto
    moreover have "caller_char (CHR '' '')"
      by (simp add: caller_char_def)
    ultimately show ?thesis
      using join_chars [of "'' ''" "words_of (filter caller_char name)"] by (fastforce simp: n_def)
  qed
  moreover have "set (trim_space (take 24 n)) \<subseteq> set n"
    using set_trim_space set_take_subset by fast
  ultimately have chars: "list_all caller_char m"
    by (auto simp: m_def list_all_iff)
  have shorter: "length (strip_prefixes ps k s) \<le> length s" for ps k s
    by (induction ps k s rule: strip_prefixes.induct) (auto split: option.splits)
  have trim: "length (trim_space s) \<le> length s" for s
    using shorter [of space_encodings "length s" s]
      shorter [of "map rev space_encodings" _ "rev (strip_prefixes space_encodings (length s) s)"]
    unfolding trim_space_def Let_def by (metis length_rev order_trans)
  have len: "length m \<le> 24"
    using trim [of "take 24 n"] by (auto simp: m_def)
  have "caller_name name = (if map lower_byte m = ''unknown'' then [] else m)"
    by (simp add: caller_name_def n_def m_def Let_def)
  with chars len show ?thesis by auto
qed

end
