(* ===== verification/RateLimit.thy ===== *)
theory RateLimit
  imports Prelude "HOL-Library.AList"
begin

text \<open>
  The limiter of the public surfaces, \<^verbatim>\<open>shared/ratelimit/ratelimit.go\<close>: one token bucket per key.
  The bucket is \<^verbatim>\<open>golang.org/x/time/rate\<close> and enters as two parameters: a full bucket, and what
  a request at an instant does to one.
\<close>

record 'b bucket =
  bk_lim :: 'b
  bk_seen :: time

type_synonym 'b buckets = "(string \<times> 'b bucket) list"

definition max_idle :: time where "max_idle = 10 * minute"
definition sweep_at :: nat where "sweep_at = 4096"

definition sweep_buckets :: "time \<Rightarrow> 'b buckets \<Rightarrow> 'b buckets" where
  "sweep_buckets now bs = filter (\<lambda>(k, b). \<not> now - bk_seen b > max_idle) bs"

text \<open>The bucket of a key, made when it is missing; at capacity the idle ones go first.\<close>

definition with_bucket :: "'b \<Rightarrow> time \<Rightarrow> string \<Rightarrow> 'b buckets \<Rightarrow> 'b \<times> 'b buckets" where
  "with_bucket full now key bs =
     (case map_of bs key of
        Some b \<Rightarrow> (bk_lim b, bs)
      | None \<Rightarrow> (full, if sweep_at \<le> length bs then sweep_buckets now bs else bs))"

definition limit_allow ::
  "'b \<Rightarrow> (time \<Rightarrow> 'b \<Rightarrow> bool \<times> 'b) \<Rightarrow> time \<Rightarrow> string \<Rightarrow> 'b buckets \<Rightarrow> bool \<times> 'b buckets" where
  "limit_allow full spend now key bs =
     (case with_bucket full now key bs of
        (lim, bs') \<Rightarrow> (case spend now lim of
          (ok, lim') \<Rightarrow> (ok, AList.update key \<lparr>bk_lim = lim', bk_seen = now\<rparr> bs')))"

fun limit_run ::
  "'b \<Rightarrow> (time \<Rightarrow> 'b \<Rightarrow> bool \<times> 'b) \<Rightarrow> (time \<times> string) list \<Rightarrow> 'b buckets \<Rightarrow> (string \<times> bool) list \<times> 'b buckets" where
  "limit_run full spend [] bs = ([], bs)"
| "limit_run full spend ((now, key) # calls) bs =
     (case limit_allow full spend now key bs of
        (ok, bs') \<Rightarrow> apfst (Cons (key, ok)) (limit_run full spend calls bs'))"

section \<open>A key has its own budget\<close>

text \<open>The answers a key gets when it is alone.\<close>

fun lone_run :: "(time \<Rightarrow> 'b \<Rightarrow> bool \<times> 'b) \<Rightarrow> time list \<Rightarrow> 'b \<Rightarrow> bool list" where
  "lone_run spend [] lim = []"
| "lone_run spend (now # ts) lim = (case spend now lim of (ok, lim') \<Rightarrow> ok # lone_run spend ts lim')"

text \<open>No call of anyone comes more than the idle time after the key's last one.\<close>

fun kept_busy :: "string \<Rightarrow> time \<Rightarrow> (time \<times> string) list \<Rightarrow> bool" where
  "kept_busy key seen [] = True"
| "kept_busy key seen ((now, k) # calls) \<longleftrightarrow>
     now - seen \<le> max_idle \<and> kept_busy key (if k = key then now else seen) calls"

definition times_of :: "string \<Rightarrow> (time \<times> string) list \<Rightarrow> time list" where
  "times_of key calls = map fst (filter (\<lambda>(t, k). k = key) calls)"

definition answers_of :: "string \<Rightarrow> (string \<times> bool) list \<Rightarrow> bool list" where
  "answers_of key outs = map snd (filter (\<lambda>(k, ok). k = key) outs)"

lemma sweep_keeps:
  "distinct (map fst bs) \<Longrightarrow> map_of bs key = Some b \<Longrightarrow> now - bk_seen b \<le> max_idle \<Longrightarrow>
     map_of (sweep_buckets now bs) key = Some b"
  by (auto simp: sweep_buckets_def distinct_map_filter dest!: map_of_SomeD intro!: map_of_is_SomeI)

lemma sweep_distinct: "distinct (map fst bs) \<Longrightarrow> distinct (map fst (sweep_buckets now bs))"
  by (simp add: sweep_buckets_def distinct_map_filter)

lemma limit_allow_distinct:
  "distinct (map fst bs) \<Longrightarrow> distinct (map fst (snd (limit_allow full spend now key bs)))"
  by (auto simp: limit_allow_def with_bucket_def distinct_update sweep_distinct split: option.splits prod.splits)

lemma limit_allow_other:
  assumes "distinct (map fst bs)" and "map_of bs key = Some b" and "now - bk_seen b \<le> max_idle" and "k \<noteq> key"
  shows "map_of (snd (limit_allow full spend now k bs)) key = Some b"
  using assms by (auto simp: limit_allow_def with_bucket_def update_conv' sweep_keeps split: option.splits prod.splits)

lemma limit_allow_own:
  assumes "map_of bs key = Some b"
  shows "fst (limit_allow full spend now key bs) = fst (spend now (bk_lim b))"
    and "map_of (snd (limit_allow full spend now key bs)) key
      = Some \<lparr>bk_lim = snd (spend now (bk_lim b)), bk_seen = now\<rparr>"
  using assms by (auto simp: limit_allow_def with_bucket_def update_conv' split: prod.splits)

lemma answers_from_bucket:
  assumes "distinct (map fst bs)" and "map_of bs key = Some b" and "kept_busy key (bk_seen b) calls"
  shows "answers_of key (fst (limit_run full spend calls bs)) = lone_run spend (times_of key calls) (bk_lim b)"
  using assms
proof (induction calls arbitrary: bs b)
  case Nil
  then show ?case by (simp add: answers_of_def times_of_def)
next
  case (Cons c calls)
  obtain now k where c: "c = (now, k)" by (cases c)
  obtain ok bs' where r: "limit_allow full spend now k bs = (ok, bs')"
    by (cases "limit_allow full spend now k bs")
  have d: "distinct (map fst bs')"
    using limit_allow_distinct [OF Cons.prems(1), of full spend now k] r by simp
  show ?case
  proof (cases "k = key")
    case True
    note own = limit_allow_own [OF Cons.prems(2), of full spend now]
    have b': "map_of bs' key = Some \<lparr>bk_lim = snd (spend now (bk_lim b)), bk_seen = now\<rparr>" and ok: "ok = fst (spend now (bk_lim b))"
      using own r True by simp_all
    have "kept_busy key (bk_seen \<lparr>bk_lim = snd (spend now (bk_lim b)), bk_seen = now\<rparr>) calls"
      using Cons.prems(3) c True by simp
    from Cons.IH [OF d b' this] show ?thesis
      using r ok True c by (simp add: answers_of_def times_of_def split: prod.splits)
  next
    case False
    have b': "map_of bs' key = Some b"
      using limit_allow_other [OF Cons.prems(1,2) _ False, of now full spend] Cons.prems(3) c r by simp
    have "kept_busy key (bk_seen b) calls"
      using Cons.prems(3) c False by simp
    from Cons.IH [OF d b' this] show ?thesis
      using r False c by (simp add: answers_of_def times_of_def)
  qed
qed

text \<open>From an empty table: the answers a key gets do not depend on the other keys.\<close>

lemma own_budget:
  assumes "kept_busy key t calls"
  shows "answers_of key (fst (limit_run full spend ((t, key) # calls) [])) =
    lone_run spend (t # times_of key calls) full"
proof -
  obtain ok bs where r: "limit_allow full spend t key [] = (ok, bs)"
    by (cases "limit_allow full spend t key []")
  obtain lim where s: "spend t full = (ok, lim)" and bs: "bs = [(key, \<lparr>bk_lim = lim, bk_seen = t\<rparr>)]"
    using r by (auto simp: limit_allow_def with_bucket_def sweep_at_def split: prod.splits)
  have "answers_of key (fst (limit_run full spend calls bs)) = lone_run spend (times_of key calls) lim"
    using answers_from_bucket [of bs key "\<lparr>bk_lim = lim, bk_seen = t\<rparr>" calls full spend] assms bs by simp
  with r s show ?thesis
    by (simp add: answers_of_def)
qed

section \<open>The table is not bounded\<close>

lemma limit_run_grows:
  assumes "distinct ks" and "set ks \<inter> fst ` set bs = {}" and "\<forall>(k, b) \<in> set bs. bk_seen b = t"
  shows "length (snd (limit_run full spend (map (Pair t) ks) bs)) = length ks + length bs"
  using assms
proof (induction ks arbitrary: bs)
  case Nil
  then show ?case by simp
next
  case (Cons k ks)
  obtain ok bs' where r: "limit_allow full spend t k bs = (ok, bs')"
    by (cases "limit_allow full spend t k bs")
  have none: "map_of bs k = None"
    using Cons.prems(2) by (auto simp: map_of_eq_None_iff)
  have "sweep_buckets t bs = bs"
    using Cons.prems(3) by (auto simp: sweep_buckets_def max_idle_def intro!: filter_True)
  then obtain lim where bs': "bs' = AList.update k \<lparr>bk_lim = lim, bk_seen = t\<rparr> bs"
    using r none by (auto simp: limit_allow_def with_bucket_def split: prod.splits if_splits)
  have upd: "AList.update k v bs = bs @ [(k, v)]" for v
    using none by (induction bs) auto
  have "length (snd (limit_run full spend (map (Pair t) ks) bs')) = length ks + length bs'"
    using Cons.prems by (intro Cons.IH) (auto simp: bs' upd)
  then show ?case
    using r by (simp add: bs' upd)
qed

end
