(* ===== verification/PairClaim.thy ===== *)
theory PairClaim
  imports Prelude
begin

text \<open>
  Push pairing on the companion's side, \<^verbatim>\<open>companion/internal/pairclaim/pairclaim.go\<close>. A pending
  claim is an object that outlives its entry of the map: pages wait on it while \<open>Resolve\<close>
  decides it. \<open>Resolve\<close> and \<open>submit\<close> are cut where they let go of the lock; the answers of the
  authorization server (\<open>Info\<close>, \<open>Approve\<close>) come with the step that has them.
\<close>

section \<open>State\<close>

record pair_claim =
  cm_request :: string
  cm_client :: string
  cm_verify :: string
  cm_created :: time

record pend =
  pn_claim :: pair_claim
  pn_closed :: nat
  pn_approved :: bool
  pn_nonce :: string

text \<open>
  \<open>cl_map\<close> is the map of the service, \<open>cl_taken\<close> the objects that running calls of \<open>Resolve\<close> have
  taken out of it, \<open>cl_prompts\<close> the prompts raised (\<open>OnClaim\<close>). \<open>pn_closed\<close> counts how often the
  channel was closed; a second time panics.
\<close>

record claims =
  cl_heap :: "pend list"
  cl_map :: "(string \<times> nat) list"
  cl_taken :: "nat list"
  cl_prompts :: "pair_claim list"

definition no_claims :: claims where
  "no_claims = \<lparr>cl_heap = [], cl_map = [], cl_taken = [], cl_prompts = []\<rparr>"

abbreviation claim_ttl :: time where "claim_ttl \<equiv> 10 * minute"

datatype claim_status = Unknown | StillPending | WasApproved string | WasRejected

section \<open>Steps\<close>

definition change_pend :: "nat \<Rightarrow> (pend \<Rightarrow> pend) \<Rightarrow> claims \<Rightarrow> claims" where
  "change_pend i f st = st\<lparr>cl_heap := (cl_heap st)[i := f (cl_heap st ! i)]\<rparr>"

definition close_pend :: "nat \<Rightarrow> claims \<Rightarrow> claims" where
  "close_pend i = change_pend i (\<lambda>p. p\<lparr>pn_closed := Suc (pn_closed p)\<rparr>)"

definition pending_claims :: "claims \<Rightarrow> pair_claim list" where
  "pending_claims st = map (\<lambda>(k, i). pn_claim (cl_heap st ! i)) (cl_map st)"

text \<open>\<open>Resolve\<close>: the entry goes first, the decision follows without the lock.\<close>

definition resolve_take :: "string \<Rightarrow> claims \<Rightarrow> nat option \<times> claims" where
  "resolve_take rid st =
     (case map_of (cl_map st) rid of
        None \<Rightarrow> (None, st)
      | Some i \<Rightarrow> (Some i, st\<lparr>cl_map := filter (\<lambda>(k, j). k \<noteq> rid) (cl_map st), cl_taken := i # cl_taken st\<rparr>))"

text \<open>
  \<open>answer\<close> is what \<open>Approve\<close> gave, if the user approved; its failure counts as a rejection. The
  second component is the platform the hook \<open>OnApproved\<close> is told of.
\<close>

definition resolve_finish :: "nat \<Rightarrow> bool \<Rightarrow> string option \<Rightarrow> claims \<Rightarrow> string option \<times> claims" where
  "resolve_finish i approved answer st =
     (let st' = st\<lparr>cl_taken := remove1 i (cl_taken st)\<rparr> in
      (case (approved, answer) of
         (True, Some nonce) \<Rightarrow>
           (Some (cm_client (pn_claim (cl_heap st ! i))),
            close_pend i (change_pend i (\<lambda>p. p\<lparr>pn_approved := True, pn_nonce := nonce\<rparr>) st'))
       | _ \<Rightarrow> (None, close_pend i st')))"

definition prune_one :: "time \<Rightarrow> string \<times> nat \<Rightarrow> claims \<Rightarrow> claims" where
  "prune_one now ki st =
     (case ki of (k, i) \<Rightarrow>
        if cm_created (pn_claim (cl_heap st ! i)) < now - claim_ttl
        then close_pend i (st\<lparr>cl_map := filter (\<lambda>(k', j). k' \<noteq> k) (cl_map st)\<rparr>)
        else st)"

definition prune :: "time \<Rightarrow> claims \<Rightarrow> claims" where
  "prune now st = fold (prune_one now) (cl_map st) st"

text \<open>\<open>submit\<close>: an entry that is there is joined; otherwise \<open>Info\<close> is asked and the map looked at again.\<close>

definition submit_look :: "string \<Rightarrow> claims \<Rightarrow> nat option" where
  "submit_look rid st = map_of (cl_map st) rid"

definition submit_insert :: "time \<Rightarrow> string \<Rightarrow> (string \<times> string) option \<Rightarrow> claims \<Rightarrow> nat option \<times> claims" where
  "submit_insert now rid info st =
     (case info of
        None \<Rightarrow> (None, st)
      | Some (name, verify) \<Rightarrow>
         (case map_of (cl_map st) rid of
            Some i \<Rightarrow> (Some i, st)
          | None \<Rightarrow>
              let c = \<lparr>cm_request = rid, cm_client = name, cm_verify = verify, cm_created = now\<rparr>;
                  i = length (cl_heap st);
                  st1 = st\<lparr>cl_heap := cl_heap st @ [\<lparr>pn_claim = c, pn_closed = 0, pn_approved = False, pn_nonce = []\<rparr>],
                           cl_map := cl_map st @ [(rid, i)]\<rparr>;
                  st2 = prune now st1
              in (Some i, st2\<lparr>cl_prompts := c # cl_prompts st2\<rparr>)))"

text \<open>The select at the end of \<open>submit\<close>; \<open>expired\<close> when the budget or the request ran out first.\<close>

definition submit_wait :: "nat \<Rightarrow> bool \<Rightarrow> claims \<Rightarrow> claim_status option" where
  "submit_wait i expired st =
     (let p = cl_heap st ! i in
      if 0 < pn_closed p then Some (if pn_approved p then WasApproved (pn_nonce p) else WasRejected)
      else if expired then Some StillPending
      else None)"

section \<open>The listener\<close>

datatype claim_answer = Forbidden | Preflight | MethodNotAllowed | BadClaim | Canceled | Claim string | Cancel string

text \<open>The gate of the handler: \<open>Claim\<close> and \<open>Cancel\<close> go on to \<open>submit\<close> and to \<open>Resolve\<close> with no.\<close>

definition allowed_origin :: "string \<Rightarrow> string option \<Rightarrow> string" where
  "allowed_origin fixed now = (case now of Some u \<Rightarrow> if u \<noteq> [] then u else fixed | None \<Rightarrow> fixed)"

definition claim_gate :: "string \<Rightarrow> string \<Rightarrow> string \<Rightarrow> (string \<times> bool) option \<Rightarrow> claim_answer" where
  "claim_gate allowed origin meth body =
     (if origin \<noteq> allowed \<or> allowed = [] then Forbidden
      else if meth = ''OPTIONS'' then Preflight
      else if meth \<noteq> ''POST'' then MethodNotAllowed
      else case body of
        None \<Rightarrow> BadClaim
      | Some (rid, cancel) \<Rightarrow> if rid = [] then BadClaim else if cancel then Cancel rid else Claim rid)"

section \<open>Every interleaving\<close>

datatype claim_event =
    SubmitInsert time string "(string \<times> string) option"
  | ResolveTake string
  | ResolveFinish nat bool "string option"

inductive claim_step :: "claims \<Rightarrow> claim_event \<Rightarrow> claims \<Rightarrow> bool" where
  insert: "submit_insert now rid info st = (r, st') \<Longrightarrow> claim_step st (SubmitInsert now rid info) st'"
| take: "resolve_take rid st = (r, st') \<Longrightarrow> claim_step st (ResolveTake rid) st'"
| finish: "i \<in> set (cl_taken st) \<Longrightarrow> resolve_finish i approved answer st = (hook, st') \<Longrightarrow>
     claim_step st (ResolveFinish i approved answer) st'"

inductive claim_run :: "claim_event list \<Rightarrow> claims \<Rightarrow> bool" where
  none: "claim_run [] no_claims"
| more_events: "claim_run es st \<Longrightarrow> claim_step st e st' \<Longrightarrow> claim_run (e # es) st'"

inductive_cases insert_step: "claim_step st (SubmitInsert now rid info) st'"
inductive_cases take_step: "claim_step st (ResolveTake rid) st'"
inductive_cases finish_step: "claim_step st (ResolveFinish i approved answer) st'"

text \<open>
  An object is in the map, in the hands of one \<open>Resolve\<close>, or closed exactly once; only a yes
  of the user that the server answered marks it approved.
\<close>

definition claims_inv :: "claims \<Rightarrow> bool" where
  "claims_inv st \<longleftrightarrow>
     distinct (map fst (cl_map st)) \<and>
     distinct (map snd (cl_map st) @ cl_taken st) \<and>
     (\<forall>i \<in> set (map snd (cl_map st) @ cl_taken st). i < length (cl_heap st) \<and> pn_closed (cl_heap st ! i) = 0) \<and>
     (\<forall>p \<in> set (cl_heap st). pn_closed p \<le> 1)"

lemma change_pend_fields [simp]:
  "cl_map (change_pend i f st) = cl_map st" "cl_taken (change_pend i f st) = cl_taken st"
  "cl_prompts (change_pend i f st) = cl_prompts st" "length (cl_heap (change_pend i f st)) = length (cl_heap st)"
  by (simp_all add: change_pend_def)

lemma change_pend_nth:
  "i < length (cl_heap st) \<Longrightarrow> cl_heap (change_pend i f st) ! j = (if j = i then f (cl_heap st ! i) else cl_heap st ! j)"
  by (simp add: change_pend_def nth_list_update)

definition held :: "claims \<Rightarrow> nat list" where
  "held st = map snd (cl_map st) @ cl_taken st"

lemma claims_inv_alt:
  "claims_inv st \<longleftrightarrow> distinct (map fst (cl_map st)) \<and> distinct (held st) \<and>
     (\<forall>i \<in> set (held st). i < length (cl_heap st) \<and> pn_closed (cl_heap st ! i) = 0) \<and>
     (\<forall>j < length (cl_heap st). pn_closed (cl_heap st ! j) \<le> 1)"
  unfolding claims_inv_def held_def by (auto simp: all_set_conv_all_nth)

text \<open>An object nobody holds any more may be closed.\<close>

lemma close_released:
  assumes inv: "claims_inv st" and held: "i \<in> set (held st)"
    and st': "cl_heap st' = cl_heap st" "distinct (map fst (cl_map st'))" "distinct (held st')"
      "set (held st') \<subseteq> set (held st) - {i}"
    and f: "\<And>p. pn_closed (f p) = pn_closed p"
  shows "claims_inv (close_pend i (change_pend i f st'))"
proof -
  have i: "i < length (cl_heap st)" "pn_closed (cl_heap st ! i) = 0"
    using inv held by (auto simp: claims_inv_alt)
  have h: "held (close_pend i (change_pend i f st')) = held st'"
    by (simp add: held_def close_pend_def)
  show ?thesis
    unfolding claims_inv_alt h
    using inv st' i f by (auto simp: claims_inv_alt close_pend_def change_pend_nth)
qed

lemma change_pend_id [simp]: "change_pend i (\<lambda>p. p) st = st"
  by (simp add: change_pend_def)

lemma snd_unique: "distinct (map snd m) \<Longrightarrow> (k, i) \<in> set m \<Longrightarrow> (k', i) \<in> set m \<Longrightarrow> k = k'"
  by (metis distinct_map inj_onD prod.inject snd_conv)

lemma resolve_take_inv:
  assumes "claims_inv st" and "resolve_take rid st = (r, st')"
  shows "claims_inv st'"
proof (cases "map_of (cl_map st) rid")
  case None
  with assms show ?thesis by (simp add: resolve_take_def)
next
  case (Some i)
  then have mem: "(rid, i) \<in> set (cl_map st)"
    by (rule map_of_SomeD)
  let ?m = "filter (\<lambda>(k, j). k \<noteq> rid) (cl_map st)"
  have st': "cl_map st' = ?m" "cl_taken st' = i # cl_taken st" "cl_heap st' = cl_heap st"
    using assms(2) Some by (auto simp: resolve_take_def)
  have d: "distinct (map fst (cl_map st))" "distinct (held st)"
    using assms(1) by (auto simp: claims_inv_alt)
  have no: "(k, i) \<in> set (cl_map st) \<Longrightarrow> k = rid" for k
    using mem d(2) snd_unique [of "cl_map st" k i rid] by (simp add: held_def)
  have "distinct (map snd ?m)"
    using d(2) by (simp add: held_def distinct_map_filter)
  moreover have "i \<notin> snd ` set ?m"
    using no by fastforce
  moreover have "i \<notin> set (cl_taken st)" "set (map snd (cl_map st)) \<inter> set (cl_taken st) = {}"
    using d(2) mem by (force simp: held_def)+
  ultimately have "distinct (held st')"
    using d(2) by (auto simp: held_def st' simp del: set_filter dest!: set_mp [OF filter_is_subset])
  moreover have "set (held st') \<subseteq> set (held st)"
    using mem by (force simp: held_def st')
  ultimately show ?thesis
    using assms(1) by (auto simp: claims_inv_alt st' distinct_map_filter)
qed

lemma resolve_finish_inv:
  assumes inv: "claims_inv st" and i: "i \<in> set (cl_taken st)" and run: "resolve_finish i approved answer st = (hook, st')"
  shows "claims_inv st'"
proof -
  let ?s = "st\<lparr>cl_taken := remove1 i (cl_taken st)\<rparr>"
  have d: "distinct (held st)" "distinct (map fst (cl_map st))"
    using inv by (auto simp: claims_inv_alt)
  have c: "claims_inv (close_pend i (change_pend i f ?s))" if "\<And>p. pn_closed (f p) = pn_closed p" for f
    by (rule close_released [OF inv _ _ _ _ _ that]) (use i d in \<open>auto simp: held_def\<close>)
  from c [of "\<lambda>p. p"] c [of "\<lambda>p. p\<lparr>pn_approved := True, pn_nonce := the answer\<rparr>"] show ?thesis
    using run by (auto simp: resolve_finish_def Let_def split: bool.splits option.splits)
qed

lemma prune_one_inv:
  assumes inv: "claims_inv st" and mem: "ki \<in> set (cl_map st)"
  shows "claims_inv (prune_one now ki st)"
proof -
  obtain k i where ki: "ki = (k, i)" by (cases ki)
  let ?s = "st\<lparr>cl_map := filter (\<lambda>(k', j). k' \<noteq> k) (cl_map st)\<rparr>"
  have d: "distinct (held st)" "distinct (map fst (cl_map st))"
    using inv by (auto simp: claims_inv_alt)
  have i: "i \<in> set (held st)" and it: "i \<notin> set (cl_taken st)"
    using mem ki d by (force simp: held_def)+
  have no: "(k', i) \<in> set (cl_map st) \<Longrightarrow> k' = k" for k'
    using mem ki d(1) snd_unique [of "cl_map st" k' i k] by (simp add: held_def)
  then have sub: "set (held ?s) \<subseteq> set (held st) - {i}"
    using it by (auto simp: held_def)
  have "claims_inv (close_pend i (change_pend i (\<lambda>p. p) ?s))"
    by (rule close_released [OF inv i]) (use sub d in \<open>auto simp: held_def distinct_map_filter\<close>)
  with inv show ?thesis
    by (simp add: prune_one_def ki)
qed

lemma prune_one_map:
  "set (cl_map (prune_one now ki st)) \<subseteq> set (cl_map st)"
  "(k, i) \<in> set (cl_map st) \<Longrightarrow> k \<noteq> fst ki \<Longrightarrow> (k, i) \<in> set (cl_map (prune_one now ki st))"
  by (auto simp: prune_one_def close_pend_def split: prod.splits)

lemma prune_inv:
  assumes "claims_inv st"
  shows "claims_inv (prune now st)"
proof -
  have "claims_inv (fold (prune_one now) xs st)"
    if "claims_inv st" "distinct (map fst xs)" "set xs \<subseteq> set (cl_map st)" for xs st
    using that
  proof (induction xs arbitrary: st)
    case Nil
    then show ?case by simp
  next
    case (Cons x xs)
    have "set xs \<subseteq> set (cl_map (prune_one now x st))"
    proof
      fix ki assume ki: "ki \<in> set xs"
      then have "fst ki \<in> fst ` set xs" by simp
      moreover have "fst x \<notin> fst ` set xs" using Cons.prems(2) by simp
      ultimately have "fst ki \<noteq> fst x" by metis
      with ki Cons.prems(3) show "ki \<in> set (cl_map (prune_one now x st))"
        using prune_one_map(2) [of "fst ki" "snd ki" st x now] by auto
    qed
    with Cons show ?case
      by (auto intro: prune_one_inv)
  qed
  from this [OF assms, of "cl_map st"] assms show ?thesis
    by (simp add: prune_def claims_inv_alt)
qed

lemma submit_insert_inv:
  assumes inv: "claims_inv st" and run: "submit_insert now rid info st = (r, st')"
  shows "claims_inv st'"
proof (cases "\<exists>name verify. info = Some (name, verify) \<and> map_of (cl_map st) rid = None")
  case False
  with run inv show ?thesis
    by (auto simp: submit_insert_def split: option.splits)
next
  case True
  then obtain name verify where nv: "info = Some (name, verify)" "map_of (cl_map st) rid = None" by blast
  define c where "c = \<lparr>cm_request = rid, cm_client = name, cm_verify = verify, cm_created = now\<rparr>"
  define s1 where "s1 = st\<lparr>cl_heap := cl_heap st @ [\<lparr>pn_claim = c, pn_closed = 0, pn_approved = False, pn_nonce = []\<rparr>],
      cl_map := cl_map st @ [(rid, length (cl_heap st))]\<rparr>"
  have "claims_inv s1"
    using inv nv(2)
    by (force simp: claims_inv_alt s1_def held_def map_of_eq_None_iff nth_append less_Suc_eq)
  then have "claims_inv (prune now s1)" by (rule prune_inv)
  moreover have "st' = prune now s1\<lparr>cl_prompts := c # cl_prompts (prune now s1)\<rparr>"
    using run nv by (simp add: submit_insert_def c_def [symmetric] s1_def [symmetric] Let_def)
  ultimately show ?thesis
    by (simp add: claims_inv_def)
qed

lemma claim_run_inv: "claim_run es st \<Longrightarrow> claims_inv st"
proof (induction rule: claim_run.induct)
  case none
  show ?case by (simp add: claims_inv_def no_claims_def)
next
  case (more_events es st e st')
  from more_events(2,3) show ?case
    by (cases rule: claim_step.cases) (auto intro: submit_insert_inv resolve_take_inv resolve_finish_inv)
qed

section \<open>Who says yes\<close>

definition yes_inv :: "claim_event list \<Rightarrow> claims \<Rightarrow> bool" where
  "yes_inv es st \<longleftrightarrow> (\<forall>i < length (cl_heap st). pn_approved (cl_heap st ! i) \<longrightarrow>
     ResolveFinish i True (Some (pn_nonce (cl_heap st ! i))) \<in> set es)"

lemma yes_inv_change:
  assumes "yes_inv es st" and "length (cl_heap st') = length (cl_heap st)"
    and "\<And>j. j < length (cl_heap st) \<Longrightarrow> pn_approved (cl_heap st' ! j) \<Longrightarrow>
      (pn_approved (cl_heap st ! j) \<and> pn_nonce (cl_heap st' ! j) = pn_nonce (cl_heap st ! j)) \<or>
      e = ResolveFinish j True (Some (pn_nonce (cl_heap st' ! j)))"
  shows "yes_inv (e # es) st'"
  using assms by (fastforce simp: yes_inv_def)

lemma nth_update_any: "xs[i := x] ! j = (if i = j \<and> i < length xs then x else xs ! j)"
  by (cases "i = j") (auto simp: list_update_beyond)

lemma prune_same:
  "length (cl_heap (fold (prune_one now) xs st)) = length (cl_heap st) \<and>
   (\<forall>j < length (cl_heap st). pn_approved (cl_heap (fold (prune_one now) xs st) ! j) = pn_approved (cl_heap st ! j) \<and>
      pn_nonce (cl_heap (fold (prune_one now) xs st) ! j) = pn_nonce (cl_heap st ! j))"
proof (induction xs arbitrary: st)
  case Nil
  show ?case by simp
next
  case (Cons x xs)
  have "length (cl_heap (prune_one now x st)) = length (cl_heap st)"
    by (simp add: prune_one_def close_pend_def split: prod.split)
  moreover have "pn_approved (cl_heap (prune_one now x st) ! j) = pn_approved (cl_heap st ! j) \<and>
      pn_nonce (cl_heap (prune_one now x st) ! j) = pn_nonce (cl_heap st ! j)" if "j < length (cl_heap st)" for j
    using that by (auto simp: prune_one_def close_pend_def change_pend_def nth_update_any split: prod.split)
  ultimately show ?case
    using Cons.IH [of "prune_one now x st"] by simp
qed

lemma yes_inv_step:
  assumes inv: "yes_inv es st" "claims_inv st" and step: "claim_step st e st'"
  shows "yes_inv (e # es) st'"
  using step
proof (cases rule: claim_step.cases)
  case (insert now rid info r)
  show ?thesis
  proof (cases "\<exists>name verify. info = Some (name, verify) \<and> map_of (cl_map st) rid = None")
    case False
    with insert have "st' = st"
      by (auto simp: submit_insert_def split: option.splits)
    with inv(1) show ?thesis by (auto simp: yes_inv_def)
  next
    case True
    then obtain name verify s1 c where nv: "cl_heap st' = cl_heap (prune now s1)"
        "cl_heap s1 = cl_heap st @ [\<lparr>pn_claim = c, pn_closed = 0, pn_approved = False, pn_nonce = []\<rparr>]"
      using insert by (auto simp: submit_insert_def Let_def)
    have "yes_inv (e # es) s1"
      using inv(1) nv(2) by (auto simp: yes_inv_def nth_append less_Suc_eq)
    then show ?thesis
      using prune_same [of now "cl_map s1" s1] by (auto simp: yes_inv_def nv(1) prune_def)
  qed
next
  case (take rid r)
  then have "cl_heap st' = cl_heap st"
    by (auto simp: resolve_take_def split: option.splits)
  with inv(1) show ?thesis by (auto simp: yes_inv_def)
next
  case (finish i approved answer hook)
  have "i < length (cl_heap st)"
    using inv(2) finish(2) by (auto simp: claims_inv_alt held_def)
  then show ?thesis
    using finish(1,3)
    by (intro yes_inv_change [OF inv(1)])
      (auto simp: resolve_finish_def Let_def close_pend_def change_pend_def nth_list_update
        split: bool.splits option.splits if_splits)
qed

lemma claim_run_yes: "claim_run es st \<Longrightarrow> yes_inv es st"
proof (induction rule: claim_run.induct)
  case none
  show ?case by (simp add: yes_inv_def no_claims_def)
next
  case (more_events es st e st')
  then show ?case by (blast intro: yes_inv_step claim_run_inv)
qed

end
