(* ===== verification/DirectServer.thy ===== *)
theory DirectServer
  imports AuthClaims RateLimit PairClaim
begin

text \<open>
  The companion serving its own endpoints, \<^verbatim>\<open>companion/internal/directsrv/directsrv.go\<close>: the
  authorization server with the local device, \<open>/mcp\<close> behind its tokens and a limiter, and push
  pairing (\<open>PairClaim\<close>) answered in process. The MCP handler behind the gate is not part of
  this theory; what it is given is the name of the calling platform.
\<close>

section \<open>The gate of the MCP endpoint\<close>

datatype mcp_answer = McpUnavailable | McpUnauthorized string | McpLimited | McpServed string

text \<open>One bucket for everyone: every caller comes through the same tunnel.\<close>

definition guarded_mcp ::
  "auth_conf \<Rightarrow> 's store_ops \<Rightarrow> 'b \<Rightarrow> (time \<Rightarrow> 'b \<Rightarrow> bool \<times> 'b) \<Rightarrow> auth_env \<Rightarrow> string \<Rightarrow> 'b buckets \<times> 's
     \<Rightarrow> mcp_answer \<times> 'b buckets \<times> 's" where
  "guarded_mcp K S full spend e header st =
     (case st of (bs, s0) \<Rightarrow>
        (case validate_bearer_provider K S e header s0 of
           (Inl (BearerStore m), s) \<Rightarrow> (McpUnavailable, bs, s)
         | (Inl BearerMissing, s) \<Rightarrow> (McpUnauthorized (www_authenticate K), bs, s)
         | (Inl BearerInvalid, s) \<Rightarrow> (McpUnauthorized (www_authenticate K), bs, s)
         | (Inr (dev, provider), s) \<Rightarrow>
             if dev \<noteq> local_device_id then (McpUnauthorized (www_authenticate K), bs, s)
             else (case limit_allow full spend (ev_t2 e) ''mcp'' bs of
               (False, bs') \<Rightarrow> (McpLimited, bs', s)
             | (True, bs') \<Rightarrow> (McpServed provider, bs', s))))"

text \<open>\<open>SetOnRevoked\<close>: which platform is told that its sessions are gone.\<close>

definition revoked_provider :: "auth_conf \<Rightarrow> 's store_ops \<Rightarrow> string \<Rightarrow> 's \<Rightarrow> string option \<times> 's" where
  "revoked_provider K S cid s0 =
     (case so_get_client S cid s0 of
        (Inl err, s) \<Rightarrow> (None, s)
      | (Inr c, s) \<Rightarrow>
          (let p = provider_from_client (af_unicode K) (oc_name c) (oc_uris c)
           in if p = [] \<or> p = ''unknown'' then (None, s) else (Some p, s)))"

definition connector_url :: "string \<Rightarrow> string" where
  "connector_url public = (if public \<noteq> [] then public @ ''/mcp'' else [])"

text \<open>\<open>withIPLimit\<close> in front of the OAuth endpoints: \<open>None\<close> is the 429.\<close>

definition limited_serve ::
  "auth_conf \<Rightarrow> 's store_ops \<Rightarrow> 'b \<Rightarrow> (time \<Rightarrow> 'b \<Rightarrow> bool \<times> 'b) \<Rightarrow> auth_env \<Rightarrow> string \<Rightarrow> auth_call \<Rightarrow> 'b buckets \<times> 's
     \<Rightarrow> auth_reply option \<times> 'b buckets \<times> 's" where
  "limited_serve K S full spend e ip c st =
     (case st of (bs, s) \<Rightarrow>
        (case limit_allow full spend (ev_t4 e) ip bs of
           (False, bs') \<Rightarrow> (None, bs', s)
         | (True, bs') \<Rightarrow> (case serve K S e c s of (reply, s') \<Rightarrow> (Some reply, bs', s'))))"

section \<open>Push pairing in process\<close>

text \<open>\<open>Resolve\<close> and \<open>submit\<close> without a second goroutine between their parts.\<close>

definition resolve_claim ::
  "auth_conf \<Rightarrow> 's store_ops \<Rightarrow> auth_env \<Rightarrow> string \<Rightarrow> bool \<Rightarrow> claims \<times> 's \<Rightarrow> bool \<times> string option \<times> claims \<times> 's" where
  "resolve_claim K S e rid approved st =
     (case st of (cl, s) \<Rightarrow>
        (case resolve_take rid cl of
           (None, cl1) \<Rightarrow> (False, None, cl1, s)
         | (Some i, cl1) \<Rightarrow>
             if approved then
               (case approve_request K S e rid local_device_id s of
                  (Inl err, s') \<Rightarrow> (case resolve_finish i True None cl1 of (hook, cl2) \<Rightarrow> (True, hook, cl2, s'))
                | (Inr nonce, s') \<Rightarrow> (case resolve_finish i True (Some nonce) cl1 of (hook, cl2) \<Rightarrow> (True, hook, cl2, s')))
             else (case resolve_finish i False None cl1 of (hook, cl2) \<Rightarrow> (True, hook, cl2, s))))"

text \<open>One poll of the page: what it waits on, or nothing when the server has no open request.\<close>

definition poll_claim ::
  "'s store_ops \<Rightarrow> auth_env \<Rightarrow> string \<Rightarrow> claims \<times> 's \<Rightarrow> nat option \<times> claims \<times> 's" where
  "poll_claim S e rid st =
     (case st of (cl, s) \<Rightarrow>
        (case submit_look rid cl of
           Some i \<Rightarrow> (Some i, cl, s)
         | None \<Rightarrow>
            (case request_info S e rid s of
               (Inl err, s') \<Rightarrow> (None, cl, s')
             | (Inr info, s') \<Rightarrow> (case submit_insert (ev_t2 e) rid (Some info) cl of (w, cl') \<Rightarrow> (w, cl', s')))))"

definition poll_status :: "nat option \<Rightarrow> bool \<Rightarrow> claims \<Rightarrow> claim_status option" where
  "poll_status w expired cl = (case w of None \<Rightarrow> Some Unknown | Some i \<Rightarrow> submit_wait i expired cl)"

context auth_store begin

lemma approved_row:
  assumes "approve_request K S e rid dev s = (Inr nonce, s')"
  shows "\<exists>q. av_reqs (V s') rid = Some q \<and> aq_device q = dev"
  using assms by (auto simp: approve_request_def Let_def dest!: bind_request split: option.splits prod.splits)

lemma bound_is_hidden:
  assumes "av_reqs (V s) rid = Some q" and "aq_device q \<noteq> []"
  shows "\<exists>err s'. request_info S e rid s = (Inl err, s')"
proof -
  obtain rq s1 where "so_get_request S rid (ev_t1 e) s = (rq, s1)"
    by (cases "so_get_request S rid (ev_t1 e) s")
  with get_request [OF this] assms show ?thesis
    by (auto simp: request_info_def live_law_def split: sum.splits auth_err.splits)
qed

lemma lost_approval:
  assumes res: "resolve_claim K S e rid True (cl, s) = (True, Some name, cl', s')"
    and poll: "poll_claim S e' rid (cl', s') = (w, cl'', s'')"
  shows "w = None \<and> cl'' = cl'"
proof -
  obtain i cl1 where take: "resolve_take rid cl = (Some i, cl1)"
    using res by (auto simp: resolve_claim_def resolve_finish_def Let_def split: prod.splits option.splits)
  then have gone: "map_of (cl_map cl1) rid = None"
    by (auto simp: resolve_take_def map_of_eq_None_iff split: option.splits)
  obtain nonce where app: "approve_request K S e rid local_device_id s = (Inr nonce, s')"
      and fin: "resolve_finish i True (Some nonce) cl1 = (Some name, cl')"
    using res take by (auto simp: resolve_claim_def resolve_finish_def Let_def split: prod.splits sum.splits)
  have "cl_map cl' = cl_map cl1"
    using fin by (auto simp: resolve_finish_def Let_def close_pend_def)
  with gone have look: "submit_look rid cl' = None"
    by (simp add: submit_look_def)
  obtain q where "av_reqs (V s') rid = Some q" "aq_device q = local_device_id"
    using approved_row [OF app] by blast
  then obtain err s2 where "request_info S e' rid s' = (Inl err, s2)"
    using bound_is_hidden [of s' rid q e'] by (auto simp: local_device_id_def)
  with poll look show ?thesis
    by (simp add: poll_claim_def)
qed

lemma waiting_page_is_told:
  assumes inv: "claims_inv cl" and wait: "submit_look rid cl = Some i"
    and res: "resolve_claim K S e rid True (cl, s) = (True, Some name, cl', s')"
  shows "\<exists>nonce. submit_wait i expired cl' = Some (WasApproved nonce) \<and>
    fst (approve_request K S e rid local_device_id s) = Inr nonce"
proof -
  have i: "i < length (cl_heap cl)"
    using wait inv by (force simp: submit_look_def claims_inv_alt held_def dest: map_of_SomeD)
  from res wait i show ?thesis
    by (auto simp: resolve_claim_def submit_look_def resolve_take_def resolve_finish_def Let_def submit_wait_def
        close_pend_def change_pend_def split: prod.splits sum.splits)
qed

lemma served_is_local:
  assumes "guarded_mcp K S full spend e header (bs, s) = (McpServed provider, bs', s')"
  shows "\<exists>t s1. bearer_token K S e header s = (Inr t, s1) \<and> at_device t = local_device_id"
  using assms
  by (auto simp: guarded_mcp_def validate_bearer_provider_def
      split: prod.splits sum.splits bearer_err.splits if_splits bool.splits)

end

section \<open>Claims\<close>

text \<open>
  In direct mode nothing reaches the MCP handler without the desktop app: over every
  history of the endpoints \<^verbatim>\<open>DirectRoutes\<close> registers and the companion's own calls, a request
  that is served carries a token of the local device, and the history holds a call of the
  desktop that minted a pairing code or approved a request.
\<close>

theorem no_entry_without_the_desktop:
  assumes "history K sql_ops db_view s0 tr s" and "db_view s0 = empty_view"
    and "list_all (\<lambda>(e, c, reply). direct_route c) tr"
    and "guarded_mcp K sql_ops full spend e header (bs, s) = (McpServed provider, bs', s')"
  shows "list_ex (\<lambda>(e, c, reply). desktop_call c) tr \<and> (\<exists>cid. authorised K tr cid local_device_id)"
proof -
  obtain t s1 where t: "bearer_token K sql_ops e header s = (Inr t, s1)" and "at_device t = local_device_id"
    using sql.served_is_local [OF assms(4)] by blast
  with sql.accepted_is_authorised [OF assms(1,2) t] have "authorised K tr (at_client t) local_device_id"
    by simp
  with direct_authorised [OF this assms(3)] show ?thesis by blast
qed

text \<open>A bucket of ten requests that is never refilled, for the examples.\<close>

definition toy_spend :: "time \<Rightarrow> nat \<Rightarrow> bool \<times> nat" where
  "toy_spend now n = (if n = 0 then (False, 0) else (True, n - 1))"

lemma entry_facts:
  "list_all (\<lambda>(e, c, reply). direct_route c) (fst paired)"
  "fst (guarded_mcp toy_conf sql_ops 10 toy_spend (toy_env 6 [] []) toy_bearer ([], snd paired)) = McpServed ''c''"
  by code_simp+

theorem no_entry_without_the_desktop_witness: "list_ex (\<lambda>(e, c, reply). desktop_call c) (fst paired)"
proof -
  obtain bs' s' where "guarded_mcp toy_conf sql_ops 10 toy_spend (toy_env 6 [] []) toy_bearer ([], snd paired)
      = (McpServed ''c'', bs', s')"
    using entry_facts(2)
    by (cases "guarded_mcp toy_conf sql_ops 10 toy_spend (toy_env 6 [] []) toy_bearer ([], snd paired)") auto
  from no_entry_without_the_desktop [OF paired_history empty_sql_view entry_facts(1) this] show ?thesis by blast
qed

text \<open>
  A yes that comes between two polls is lost: once \<open>Resolve\<close> has bound the request for a
  claim on which no page is waiting, every later poll is told that the request is unknown, and
  nothing can give out the nonce any more. A page that waits at that moment does get it.
\<close>

theorem approval_between_polls_is_lost:
  assumes "claims_inv cl" and "submit_look rid cl = Some i"
    and res: "resolve_claim K sql_ops e rid True (cl, s) = (True, Some name, cl', s')"
    and poll: "poll_claim sql_ops e' rid (cl', s') = (w, cl'', s'')"
  shows "poll_status w expired cl'' = Some Unknown \<and>
    (\<exists>nonce. submit_wait i expired cl' = Some (WasApproved nonce) \<and>
       fst (approve_request K sql_ops e rid local_device_id s) = Inr nonce)"
  using sql.lost_approval [OF res poll] sql.waiting_page_is_told [OF assms(1,2) res]
  by (simp add: poll_status_def)

definition open_request :: auth_sql where
  "open_request = snd (replay toy_conf sql_ops (take 2 pairing_run) ([], ready_sql))"

definition toy_rid :: string where "toy_rid = ''ar_AAECAwQFBgc''"

definition polled :: "nat option \<times> claims \<times> auth_sql" where
  "polled = poll_claim sql_ops (toy_env 3 [] []) toy_rid (no_claims, open_request)"

definition decided :: "bool \<times> string option \<times> claims \<times> auth_sql" where
  "decided = resolve_claim toy_conf sql_ops (toy_env 4 bytes8 []) toy_rid True (snd polled)"

lemma lost_facts:
  "submit_look toy_rid (fst (snd polled)) = Some 0"
  "fst decided = True" "fst (snd decided) = Some ''c''"
  "claims_inv (fst (snd polled))"
proof -
  have heap: "cl_heap (fst (snd polled)) = [\<lparr>pn_claim = \<lparr>cm_request = toy_rid, cm_client = ''c'', cm_verify = ''23-45'', cm_created = 3\<rparr>,
      pn_closed = 0, pn_approved = False, pn_nonce = []\<rparr>]"
    and "cl_map (fst (snd polled)) = [(toy_rid, 0)]" and "cl_taken (fst (snd polled)) = []"
    by code_simp+
  then show "claims_inv (fst (snd polled))"
    by (simp add: claims_inv_def)
  show "submit_look toy_rid (fst (snd polled)) = Some 0" "fst decided = True" "fst (snd decided) = Some ''c''"
    by code_simp+
qed

theorem approval_between_polls_is_lost_witness:
  "poll_status (fst (poll_claim sql_ops (toy_env 5 [] []) toy_rid (snd (snd decided)))) False
     (fst (snd (poll_claim sql_ops (toy_env 5 [] []) toy_rid (snd (snd decided))))) = Some Unknown"
proof -
  obtain cl' s' where d: "snd (snd decided) = (cl', s')"
    by (cases "snd (snd decided)")
  obtain w cl'' s'' where p: "poll_claim sql_ops (toy_env 5 [] []) toy_rid (cl', s') = (w, cl'', s'')"
    by (cases "poll_claim sql_ops (toy_env 5 [] []) toy_rid (cl', s')")
  have r: "resolve_claim toy_conf sql_ops (toy_env 4 bytes8 []) toy_rid True (fst (snd polled), snd (snd polled))
      = (True, Some ''c'', cl', s')"
    using d lost_facts(2,3) by (simp add: decided_def prod_eq_iff)
  from approval_between_polls_is_lost [OF lost_facts(4,1) r p, of False] d p show ?thesis
    by simp
qed

text \<open>
  In every interleaving of pages, decisions and prunings, the channel of a claim is closed
  at most once, so nothing panics, and a claim counts as approved only if the user said yes to
  it and the server answered with the nonce that is handed on.
\<close>

theorem claims_are_decided_once:
  assumes "claim_run es st"
  shows "list_all (\<lambda>i. pn_closed (cl_heap st ! i) \<le> 1 \<and>
      (if pn_approved (cl_heap st ! i) then List.member es (ResolveFinish i True (Some (pn_nonce (cl_heap st ! i)))) else True))
    [0..<length (cl_heap st)]"
  using claim_run_inv [OF assms] claim_run_yes [OF assms]
  by (auto simp: list_all_iff claims_inv_alt yes_inv_def)

theorem claims_are_decided_once_witness:
  "\<exists>st. claim_run [ResolveFinish 0 True (Some ''n''), ResolveTake ''r'', SubmitInsert 1 ''r'' (Some (''c'', ''v''))] st \<and>
     pn_closed (cl_heap st ! 0) \<le> 1"
proof -
  define st1 where "st1 = snd (submit_insert 1 ''r'' (Some (''c'', ''v'')) no_claims)"
  define st2 where "st2 = snd (resolve_take ''r'' st1)"
  define st3 where "st3 = snd (resolve_finish 0 True (Some ''n'') st2)"
  have "claim_run [SubmitInsert 1 ''r'' (Some (''c'', ''v''))] st1"
    by (rule claim_run.more_events [OF claim_run.none claim_step.insert]) (simp add: st1_def prod_eq_iff)
  then have "claim_run [ResolveTake ''r'', SubmitInsert 1 ''r'' (Some (''c'', ''v''))] st2"
    by (rule claim_run.more_events [OF _ claim_step.take]) (simp add: st2_def prod_eq_iff)
  moreover have "0 \<in> set (cl_taken st2)"
    unfolding st2_def st1_def by code_simp
  ultimately have run: "claim_run [ResolveFinish 0 True (Some ''n''), ResolveTake ''r'', SubmitInsert 1 ''r'' (Some (''c'', ''v''))] st3"
    by (rule claim_run.more_events [OF _ claim_step.finish]) (simp add: st3_def prod_eq_iff)
  have "0 < length (cl_heap st3)"
    unfolding st3_def st2_def st1_def by code_simp
  with claims_are_decided_once [OF run] run show ?thesis
    by (auto simp: list_all_iff)
qed

text \<open>
  Each key of the limiter has its own budget: the answers a key gets are those it would
  get alone, whatever the other keys do, as long as no request of anyone comes more than ten
  minutes after the key's last one. But the table is not bounded: any number of new keys
  within one instant leaves as many buckets, the sweep at 4096 included.
\<close>

theorem limiter_budgets:
  "(if kept_busy key t calls
    then answers_of key (fst (limit_run full spend ((t, key) # calls) [])) = lone_run spend (t # times_of key calls) full
    else True) \<and>
   (if distinct ks then length (snd (limit_run full spend (map (Pair t) ks) [])) = length ks else True)"
  using own_budget [of key t calls full spend] limit_run_grows [of ks "[]" t full spend] by simp

end
