(* ===== verification/TextLines.thy ===== *)
theory TextLines
  imports Prelude
begin

text \<open>
  Text as the editing tools see it: the functions of Go's \<^verbatim>\<open>strings\<close> package that search, count,
  replace and split into lines, the line splitting of \<^verbatim>\<open>mcpserver/edit.go\<close> and \<^verbatim>\<open>patch.go\<close>, and
  the facts about occurrences and lines that the editing proofs share.
\<close>

named_theorems line_simps \<open>facts about texts cut after their line feeds\<close>

abbreviation newline :: char where "newline \<equiv> CHR 0x0A"
abbreviation carriage :: char where "carriage \<equiv> CHR 0x0D"

section \<open>Searching\<close>

text \<open>\<open>strings.Index\<close>; \<open>None\<close> is -1.\<close>

fun text_index :: "string \<Rightarrow> string \<Rightarrow> nat option" where
  "text_index [] p = (if p = [] then Some 0 else None)"
| "text_index (c # s) p = (if has_prefix (c # s) p then Some 0 else map_option Suc (text_index s p))"

lemma text_index_Some:
  "text_index s p = Some i \<Longrightarrow> i + length p \<le> length s \<and> prefix p (drop i s) \<and> (\<forall>j < i. \<not> prefix p (drop j s))"
proof (induction s arbitrary: i)
  case (Cons c s)
  show ?case
  proof (cases "prefix p (c # s)")
    case True
    with Cons.prems show ?thesis by (auto simp: bytes_simps dest: prefix_length_le)
  next
    case False
    then obtain k where k: "text_index s p = Some k" "i = Suc k" using Cons.prems by (auto simp: bytes_simps)
    show ?thesis using Cons.IH [OF k(1)] False k(2) by (auto simp: less_Suc_eq_0_disj)
  qed
qed (auto split: if_splits)

lemma text_index_None: "p \<noteq> [] \<Longrightarrow> text_index s p = None \<longleftrightarrow> (\<forall>j. \<not> prefix p (drop j s))"
proof (induction s)
  case (Cons c s)
  then show ?case
    by (auto simp: bytes_simps) (metis drop0 drop_Cons' drop_Suc_Cons)+
qed simp

text \<open>\<open>strings.Count\<close>: occurrences that do not overlap, from the left.\<close>

function text_count :: "string \<Rightarrow> string \<Rightarrow> nat" where
  "text_count s p =
     (if p = [] then Suc (length (runes s))
      else (case text_index s p of
          None \<Rightarrow> 0
        | Some i \<Rightarrow> Suc (text_count (drop (i + length p) s) p)))"
  by pat_completeness auto
termination
  by (relation "measure (\<lambda>(s, p). length s)") (auto dest!: text_index_Some simp: length_greater_0_conv [symmetric] simp del: length_greater_0_conv)

declare text_count.simps [simp del]

text \<open>\<open>strings.Replace\<close> with the limit 1.\<close>

definition replace_first :: "string \<Rightarrow> string \<Rightarrow> string \<Rightarrow> string" where
  "replace_first s old new =
     (case text_index s old of None \<Rightarrow> s | Some i \<Rightarrow> take i s @ new @ drop (i + length old) s)"

definition occurs_at :: "string \<Rightarrow> string \<Rightarrow> nat \<Rightarrow> bool" where
  "occurs_at s p i = has_prefix (drop i s) p"

lemma text_count_0: "p \<noteq> [] \<Longrightarrow> text_count s p = 0 \<longleftrightarrow> (\<forall>j. \<not> occurs_at s p j)"
  by (simp add: text_count.simps [of s p] occurs_at_def bytes_simps text_index_None [symmetric] split: option.split)

lemma text_count_1:
  assumes "p \<noteq> []"
  shows "text_count s p = 1 \<longleftrightarrow>
    (\<exists>i. text_index s p = Some i \<and> (\<forall>j. occurs_at s p j \<longrightarrow> i \<le> j \<and> j < i + length p))"
proof (cases "text_index s p")
  case None
  then show ?thesis by (simp add: text_count.simps [of s p] assms)
next
  case (Some i)
  have first: "\<not> j < i" if "occurs_at s p j" for j
    using text_index_Some [OF Some] that by (auto simp: occurs_at_def bytes_simps)
  have "text_count s p = 1 \<longleftrightarrow> (\<forall>j. \<not> occurs_at s p (i + length p + j))"
    using Some by (simp add: text_count.simps [of s p] assms text_count_0 occurs_at_def add.commute)
  also have "\<dots> \<longleftrightarrow> (\<forall>j. occurs_at s p j \<longrightarrow> j < i + length p)"
    by (metis le_Suc_ex not_add_less1 not_less)
  finally show ?thesis using first Some by (auto simp: not_less)
qed

section \<open>Lines\<close>

text \<open>\<open>strings.SplitAfter\<close> with a separator of one byte.\<close>

fun split_after :: "char \<Rightarrow> string \<Rightarrow> string list" where
  "split_after c [] = [[]]"
| "split_after c (x # xs) =
     (if x = c then [x] # split_after c xs
      else (case split_after c xs of [] \<Rightarrow> [[x]] | l # ls \<Rightarrow> (x # l) # ls))"

text \<open>\<open>splitAfterLines\<close> and \<open>splitKeepNL\<close>, which have the same body.\<close>

definition split_after_lines :: "string \<Rightarrow> string list" where
  "split_after_lines s =
     (if s = [] then []
      else (let ls = split_after newline s in if last ls = [] then butlast ls else ls))"

definition split_keep_nl :: "string \<Rightarrow> string list" where
  "split_keep_nl s =
     (if s = [] then []
      else (let ls = split_after newline s in if last ls = [] then butlast ls else ls))"

definition trim_nl :: "string \<Rightarrow> string" where
  "trim_nl s = trim_suffix s [newline]"

text \<open>A line is closed when a line feed is its last byte and its only one.\<close>

definition closed_line :: "string \<Rightarrow> bool" where
  "closed_line l \<longleftrightarrow> l \<noteq> [] \<and> last l = newline \<and> newline \<notin> set (butlast l)"

definition open_line :: "string \<Rightarrow> bool" where
  "open_line l \<longleftrightarrow> l \<noteq> [] \<and> newline \<notin> set l"

definition line_list :: "string list \<Rightarrow> bool" where
  "line_list ls \<longleftrightarrow> ls = [] \<or> list_all closed_line (butlast ls) \<and> (closed_line (last ls) \<or> open_line (last ls))"

lemma split_keep_eq: "split_keep_nl = split_after_lines"
  by (rule ext) (simp add: split_keep_nl_def split_after_lines_def)

lemma split_after_not_Nil [simp]: "split_after c s \<noteq> []"
  by (induction s) (auto split: list.splits)

lemma split_after_lines_Nil [simp]: "split_after_lines [] = []"
  by (simp add: split_after_lines_def)

text \<open>The splitting, read from the front.\<close>

lemma split_after_lines_newline [line_simps]: "split_after_lines (newline # s) = [newline] # split_after_lines s"
  by (simp add: split_after_lines_def Let_def)

lemma split_after_lines_byte [line_simps]:
  "c \<noteq> newline \<Longrightarrow> split_after_lines (c # s) =
     (case split_after_lines s of [] \<Rightarrow> [[c]] | l # ls \<Rightarrow> (c # l) # ls)"
  by (cases s; cases "split_after newline s") (auto simp: split_after_lines_def Let_def split: list.splits)

lemma split_after_lines_line [line_simps]:
  "newline \<notin> set l \<Longrightarrow> split_after_lines (l @ newline # s) = (l @ [newline]) # split_after_lines s"
  by (induction l) (auto simp: line_simps)

lemma split_after_lines_open [line_simps]: "newline \<notin> set l \<Longrightarrow> l \<noteq> [] \<Longrightarrow> split_after_lines l = [l]"
proof (induction l)
  case (Cons c l)
  then show ?case by (cases l) (auto simp: line_simps)
qed simp

lemma closed_lineE:
  assumes "closed_line l"
  obtains k where "l = k @ [newline]" and "newline \<notin> set k"
  using assms append_butlast_last_id [of l] unfolding closed_line_def by metis

lemma split_after_lines_closed [line_simps]:
  assumes "closed_line l"
  shows "split_after_lines (l @ s) = l # split_after_lines s"
  using assms by (elim closed_lineE) (simp add: line_simps)

lemma concat_split_after_lines [simp]: "concat (split_after_lines s) = s"
proof (induction s)
  case (Cons c s)
  then show ?case
    by (cases "c = newline"; cases "split_after_lines s") (auto simp: line_simps)
qed simp

lemma line_list_Cons: "line_list (l # ls) \<longleftrightarrow>
    (if ls = [] then closed_line l \<or> open_line l else closed_line l \<and> line_list ls)"
  by (auto simp: line_list_def)

lemma split_after_lines_concat: "line_list ls \<Longrightarrow> split_after_lines (concat ls) = ls"
proof (induction ls)
  case (Cons l ls)
  then show ?case
    by (cases "closed_line l")
       (auto simp: line_list_Cons split_after_lines_closed line_list_def open_line_def split_after_lines_open split: if_splits)
qed simp

lemma line_list_split [simp]: "line_list (split_after_lines s)"
proof (induction s)
  case (Cons c s)
  show ?case
  proof (cases "c = newline")
    case True
    then show ?thesis using Cons
      by (auto simp: split_after_lines_newline line_list_Cons closed_line_def)
  next
    case False
    then show ?thesis using Cons
      by (cases "split_after_lines s")
         (auto simp: split_after_lines_byte line_list_Cons closed_line_def open_line_def split: if_splits)
  qed
qed (simp add: line_list_def)

lemma split_after_lines_append:
  assumes "list_all closed_line ls"
  shows "split_after_lines (concat ls @ s) = ls @ split_after_lines s"
  using assms by (induction ls) (simp_all add: split_after_lines_closed)

lemma line_list_append: "list_all closed_line xs \<Longrightarrow> line_list ys \<Longrightarrow> line_list (xs @ ys)"
  by (induction xs) (auto simp: line_list_Cons)

lemma line_list_take: "line_list ls \<Longrightarrow> n < length ls \<Longrightarrow> list_all closed_line (take n ls)"
proof (induction ls arbitrary: n)
  case (Cons l ls)
  then show ?case by (cases n) (auto simp: line_list_Cons split: if_splits)
qed simp

lemma line_list_drop: "line_list ls \<Longrightarrow> line_list (drop n ls)"
proof (induction ls arbitrary: n)
  case (Cons l ls)
  then show ?case by (cases n) (auto simp: line_list_Cons line_list_def split: if_splits)
qed (simp add: line_list_def)

lemma trim_nl_closed [simp]: "trim_nl (l @ [newline]) = l"
  by (simp add: trim_nl_def trim_suffix_def has_suffix_def)

lemma trim_nl_open: "newline \<notin> set l \<Longrightarrow> trim_nl l = l"
  by (auto simp: trim_nl_def trim_suffix_def bytes_simps suffix_def)

lemma has_suffix_newline: "has_suffix s [newline] \<longleftrightarrow> s \<noteq> [] \<and> last s = newline"
  by (auto simp: bytes_simps suffix_def) (metis append_butlast_last_id)

lemma line_list_no_Nil: "line_list ls \<Longrightarrow> [] \<notin> set ls"
  by (induction ls) (auto simp: line_list_Cons closed_line_def open_line_def split: if_splits)

lemma all_closed_iff: "line_list ls \<Longrightarrow> list_all closed_line ls \<longleftrightarrow> ls = [] \<or> last (concat ls) = newline"
proof (induction ls)
  case (Cons l ls)
  show ?case
  proof (cases ls)
    case Nil
    then show ?thesis using Cons.prems
      by (auto simp: line_list_Cons closed_line_def open_line_def dest: last_in_set)
  next
    case (Cons k ks)
    then have "closed_line l" and ls: "line_list ls" using Cons.prems by (simp_all add: line_list_Cons)
    moreover have rest: "concat ls \<noteq> []" using line_list_no_Nil [OF ls] Cons by auto
    moreover have "last (concat (l # ls)) = last (concat ls)"
      unfolding concat.simps by (rule last_appendR) (fact rest)
    ultimately show ?thesis using Cons.IH Cons by auto
  qed
qed simp

end
