(* ===== verification/TextEdit.thy ===== *)
theory TextEdit
  imports TextLines
begin

text \<open>
  The quick edits of \<^verbatim>\<open>mcpserver/edit.go\<close>: an edit is located by a text that must occur once, or
  by a range of lines, and is applied to the decoded text of the file. Line numbers are Go's
  64-bit \<open>int\<close>; the code only compares them, apart from \<open>StartLine - 1\<close> and the slices, which
  it reaches with a number between 1 and the number of lines.
\<close>

section \<open>Edits\<close>

record edit_op =
  ed_type :: string
  ed_match :: string
  ed_content :: string
  ed_start :: int
  ed_end :: int

datatype edit_error =
    EditContentRequired
  | EditMatchRequired
  | EditNotFound
  | EditOccurs nat
  | EditBadRange int int
  | EditOutOfBounds nat int int
  | EditUnknownType string

definition splice_unique :: "string \<Rightarrow> string \<Rightarrow> string \<Rightarrow> edit_error + string" where
  "splice_unique cur match repl =
     (if match = [] then Inl EditMatchRequired
      else (let n = text_count cur match in
        if n = 0 then Inl EditNotFound
        else if n = 1 then Inr (replace_first cur match repl)
        else Inl (EditOccurs n)))"

text \<open>What \<open>replaceRange\<close> writes in place of the lines: the content, closed with a line feed
  where one is needed.\<close>

definition range_text :: "string \<Rightarrow> nat \<Rightarrow> edit_op \<Rightarrow> string" where
  "range_text cur lines e =
     (if ed_content e \<noteq> [] \<and> \<not> has_suffix (ed_content e) [newline]
         \<and> (ed_end e < int lines \<or> has_suffix cur [newline])
      then ed_content e @ [newline] else ed_content e)"

definition replace_range :: "string \<Rightarrow> edit_op \<Rightarrow> edit_error + string" where
  "replace_range cur e =
     (let lines = split_after_lines cur in
      if ed_start e < 1 \<or> ed_end e < ed_start e then Inl (EditBadRange (ed_start e) (ed_end e))
      else if int (length lines) < ed_end e then Inl (EditOutOfBounds (length lines) (ed_start e) (ed_end e))
      else Inr (concat (take (nat (ed_start e - 1)) lines) @ range_text cur (length lines) e
              @ concat (drop (nat (ed_end e)) lines)))"

definition apply_edit :: "string \<Rightarrow> edit_op \<Rightarrow> edit_error + string" where
  "apply_edit cur e =
     (if ed_type e = ''replace_exact'' then splice_unique cur (ed_match e) (ed_content e)
      else if ed_type e = ''delete_exact'' then splice_unique cur (ed_match e) []
      else if ed_type e = ''insert_before'' then
        (if ed_content e = [] then Inl EditContentRequired
         else splice_unique cur (ed_match e) (ed_content e @ ed_match e))
      else if ed_type e = ''insert_after'' then
        (if ed_content e = [] then Inl EditContentRequired
         else splice_unique cur (ed_match e) (ed_match e @ ed_content e))
      else if ed_type e = ''replace_range'' then replace_range cur e
      else Inl (EditUnknownType (ed_type e)))"

text \<open>The error carries the number of the edit, counted from 1, and its type.\<close>

fun apply_edits_from :: "nat \<Rightarrow> string \<Rightarrow> edit_op list \<Rightarrow> (nat \<times> string \<times> edit_error) + string" where
  "apply_edits_from i text [] = Inr text"
| "apply_edits_from i text (e # es) =
     (case apply_edit text e of
        Inl err \<Rightarrow> Inl (i + 1, ed_type e, err)
      | Inr next \<Rightarrow> apply_edits_from (i + 1) next es)"

definition apply_edits :: "string \<Rightarrow> edit_op list \<Rightarrow> (nat \<times> string \<times> edit_error) + string" where
  "apply_edits text edits = apply_edits_from 0 text edits"

section \<open>Where an edit lands\<close>

text \<open>The place of a splice: the first occurrence, with no other that lies wholly behind it.\<close>

definition lands_at :: "string \<Rightarrow> string \<Rightarrow> nat \<Rightarrow> bool" where
  "lands_at cur match i \<longleftrightarrow>
     occurs_at cur match i \<and> (\<forall>j. occurs_at cur match j \<longrightarrow> i \<le> j \<and> j < i + length match)"

lemma splice_unique_iff:
  "splice_unique cur m repl = Inr text \<longleftrightarrow>
     m \<noteq> [] \<and> (\<exists>i. lands_at cur m i \<and> text = take i cur @ repl @ drop (i + length m) cur)"
  (is "?L \<longleftrightarrow> ?R")
proof (cases "m = []")
  case False
  have "?L \<longleftrightarrow> text_count cur m = 1 \<and> text = replace_first cur m repl"
    by (auto simp: splice_unique_def False Let_def)
  also have "\<dots> \<longleftrightarrow> (\<exists>i. text_index cur m = Some i \<and> (\<forall>j. occurs_at cur m j \<longrightarrow> i \<le> j \<and> j < i + length m)
      \<and> text = take i cur @ repl @ drop (i + length m) cur)"
    by (auto simp: text_count_1 [OF False, unfolded One_nat_def] replace_first_def)
  also have "\<dots> \<longleftrightarrow> (\<exists>i. lands_at cur m i \<and> text = take i cur @ repl @ drop (i + length m) cur)"
  proof -
    have "text_index cur m = Some i \<longleftrightarrow> occurs_at cur m i" if "\<forall>j. occurs_at cur m j \<longrightarrow> i \<le> j" for i
    proof (cases "text_index cur m")
      case None
      then show ?thesis using text_index_None [OF False, of cur] by (simp add: occurs_at_def bytes_simps)
    next
      case (Some k)
      note k = text_index_Some [OF Some]
      then have "occurs_at cur m k" by (simp add: occurs_at_def bytes_simps)
      then have "i \<le> k" using that by blast
      moreover have "\<not> i < k" if "occurs_at cur m i" using k that by (auto simp: occurs_at_def bytes_simps)
      ultimately show ?thesis using Some \<open>occurs_at cur m k\<close> by fastforce
    qed
    then show ?thesis unfolding lands_at_def by blast
  qed
  finally show ?thesis using False by simp
qed (simp add: splice_unique_def)

lemma lands_at_text:
  assumes "lands_at cur m i"
  shows "cur = take i cur @ m @ drop (i + length m) cur"
proof -
  obtain r where "drop i cur = m @ r" using assms by (auto simp: lands_at_def occurs_at_def bytes_simps prefix_def)
  then show ?thesis
    by (metis append_eq_conv_conj append_take_drop_id drop_drop add.commute)
qed

lemma lands_at_unique: "lands_at cur m i \<Longrightarrow> lands_at cur m j \<Longrightarrow> i = j"
  by (auto simp: lands_at_def intro: antisym)

text \<open>An occurrence that another one overlaps: then some end of the text is also its start.\<close>

definition self_overlaps :: "string \<Rightarrow> bool" where
  "self_overlaps m \<longleftrightarrow> (\<exists>k \<in> {1..<length m}. prefix (drop k m) m)"

lemma no_second_occurrence:
  assumes "lands_at cur m i" and "occurs_at cur m j" and "\<not> self_overlaps m"
  shows "j = i"
proof (rule ccontr)
  assume "j \<noteq> i"
  with assms(1,2) have j: "i < j" "j < i + length m" by (auto simp: lands_at_def dest: le_neq_implies_less)
  obtain r r' where r: "drop i cur = m @ r" and r': "drop j cur = m @ r'"
    using assms(1,2) by (auto simp: lands_at_def occurs_at_def bytes_simps prefix_def)
  have "drop (j - i) (m @ r) = m @ r'" using r r' j by (metis drop_drop le_add_diff_inverse2 less_imp_le)
  then have "drop (j - i) m @ r = m @ r'" using j by simp
  then have "prefix (drop (j - i) m) m"
    by (metis diff_le_self length_drop prefixI prefix_length_prefix)
  moreover have "j - i \<in> {1..<length m}" using j by auto
  ultimately show False using assms(3) unfolding self_overlaps_def by blast
qed

text \<open>What stands in place of the match after an edit, and which edits are in order.\<close>

definition edit_text :: "edit_op \<Rightarrow> string option" where
  "edit_text e =
     map_of [(''replace_exact'', ed_content e), (''delete_exact'', []),
             (''insert_before'', ed_content e @ ed_match e), (''insert_after'', ed_match e @ ed_content e)] (ed_type e)"

definition inserts :: "edit_op \<Rightarrow> bool" where
  "inserts e \<longleftrightarrow> ed_type e \<in> {''insert_before'', ''insert_after''}"

text \<open>
  An edit that names a text succeeds exactly when the text is not empty and all its
  occurrences in the file overlap the first one, and an insertion has a content. The result is
  the file with that first occurrence replaced and every byte before and after it kept.
\<close>

theorem edits_land_at_the_match:
  "apply_edit cur e = Inr new \<and> ed_type e \<noteq> ''replace_range'' \<longleftrightarrow>
     ed_match e \<noteq> [] \<and> \<not> (inserts e \<and> ed_content e = [])
     \<and> (\<exists>i repl. edit_text e = Some repl \<and> lands_at cur (ed_match e) i
           \<and> cur = take i cur @ ed_match e @ drop (i + length (ed_match e)) cur
           \<and> new = take i cur @ repl @ drop (i + length (ed_match e)) cur)"
proof -
  have *: "lands_at cur m i \<and> cur = take i cur @ m @ drop (i + length m) cur \<and> P \<longleftrightarrow> lands_at cur m i \<and> P" for m i P
    using lands_at_text by blast
  show ?thesis
    unfolding * unfolding apply_edit_def edit_text_def inserts_def
    by (simp add: splice_unique_iff del: append_eq_append_conv)
qed

text \<open>
  Exactly for a text that overlaps itself there is a file in which it occurs at two places
  and an edit that names it is accepted all the same: the occurrences are counted without
  overlap.
\<close>

theorem overlapping_matches_pass:
  "self_overlaps m \<longleftrightarrow>
     (\<exists>cur repl new i j. splice_unique cur m repl = Inr new \<and> occurs_at cur m i \<and> occurs_at cur m j \<and> i \<noteq> j)"
proof
  assume "self_overlaps m"
  then obtain k where k: "1 \<le> k" "k < length m" "prefix (drop k m) m" by (auto simp: self_overlaps_def)
  define cur where "cur = take k m @ m"
  have "prefix m cur" using k(3) by (metis append_take_drop_id cur_def same_prefix_prefix)
  then have first: "occurs_at cur m 0" by (simp add: occurs_at_def bytes_simps)
  have second: "occurs_at cur m k" using k by (simp add: occurs_at_def bytes_simps cur_def)
  have "j < length m" if "occurs_at cur m j" for j
  proof -
    have "length m \<le> length cur - j"
      using that by (auto simp: occurs_at_def bytes_simps dest: prefix_length_le)
    then show ?thesis using k by (auto simp: cur_def)
  qed
  then have "lands_at cur m 0" using first by (simp add: lands_at_def)
  moreover have "m \<noteq> []" using k by auto
  ultimately have "splice_unique cur m [] = Inr (take 0 cur @ [] @ drop (0 + length m) cur)"
    unfolding splice_unique_iff by blast
  then show "\<exists>cur repl new i j. splice_unique cur m repl = Inr new \<and> occurs_at cur m i \<and> occurs_at cur m j \<and> i \<noteq> j"
    using first second k(1) by (metis not_one_le_zero)
next
  assume "\<exists>cur repl new i j. splice_unique cur m repl = Inr new \<and> occurs_at cur m i \<and> occurs_at cur m j \<and> i \<noteq> j"
  then show "self_overlaps m" unfolding splice_unique_iff using no_second_occurrence by metis
qed

section \<open>What a range replacement leaves\<close>

text \<open>
  A range replacement is accepted exactly when the range lies in the file. Then the lines
  before and after the range are the same lines as before, byte for byte, with the lines of
  the content between them: no line is joined to another, and no line is split.
\<close>

theorem range_replaces_whole_lines:
  "(case replace_range cur e of
      Inl err \<Rightarrow> \<not> (1 \<le> ed_start e \<and> ed_start e \<le> ed_end e \<and> ed_end e \<le> int (length (split_after_lines cur)))
    | Inr text \<Rightarrow>
        1 \<le> ed_start e \<and> ed_start e \<le> ed_end e \<and> ed_end e \<le> int (length (split_after_lines cur))
        \<and> split_after_lines text =
            take (nat (ed_start e - 1)) (split_after_lines cur)
            @ split_after_lines (range_text cur (length (split_after_lines cur)) e)
            @ drop (nat (ed_end e)) (split_after_lines cur)
        \<and> trim_nl (range_text cur (length (split_after_lines cur)) e) = trim_nl (ed_content e))"
proof -
  define ls where "ls = split_after_lines cur"
  define mid where "mid = range_text cur (length ls) e"
  have ls: "line_list ls" by (simp add: ls_def)
  have trim: "trim_nl mid = trim_nl (ed_content e)"
    by (auto simp: mid_def range_text_def trim_nl_def trim_suffix_def has_suffix_def)
  have lines: "split_after_lines (concat (take a ls) @ mid @ concat (drop b ls))
      = take a ls @ split_after_lines mid @ drop b ls"
    if "1 \<le> ed_start e" "ed_start e \<le> ed_end e" "ed_end e \<le> int (length ls)"
      and a: "a = nat (ed_start e - 1)" and b: "b = nat (ed_end e)" for a b
  proof -
    have "a < length ls" using that by linarith
    then have front: "list_all closed_line (take a ls)" by (rule line_list_take [OF ls])
    have tail: "line_list (drop b ls)" by (rule line_list_drop [OF ls])
    show ?thesis
    proof (cases "mid = [] \<or> b = length ls")
      case True
      then show ?thesis
        by (auto simp: split_after_lines_append [OF front] split_after_lines_concat [OF tail])
    next
      case False
      then have "ed_end e < int (length ls)" using that by auto
      then have "has_suffix mid [newline]" using False
        by (auto simp: mid_def range_text_def has_suffix_newline split: if_splits)
      then have "list_all closed_line (split_after_lines mid)"
        by (simp add: all_closed_iff has_suffix_newline)
      then have "split_after_lines (concat (split_after_lines mid) @ concat (drop b ls))
          = split_after_lines mid @ drop b ls"
        by (simp add: split_after_lines_append split_after_lines_concat [OF tail] del: concat_split_after_lines)
      then show ?thesis by (simp add: split_after_lines_append [OF front])
    qed
  qed
  show ?thesis
    using lines trim unfolding replace_range_def Let_def ls_def [symmetric] mid_def [symmetric] by auto
qed

end
