(* ===== verification/TextForm.thy ===== *)
theory TextForm
  imports TextEdit
begin

text \<open>
  How a file stores its text: \<^verbatim>\<open>textenc/textenc.go\<close>, which finds the encoding, and
  \<^verbatim>\<open>mcpserver/preserve.go\<close>, which remembers it and the line ending so that an edit is written
  back in the same form. The converters of \<^verbatim>\<open>golang.org/x/text\<close> for UTF-16 and GBK are the
  parameter \<open>codecs\<close>; UTF-8 is checked by \<open>valid_string\<close>.
\<close>

section \<open>Encodings\<close>

record codecs =
  cd_utf16_decode :: "string \<Rightarrow> string option"
  cd_gbk_decode :: "string \<Rightarrow> string option"
  cd_utf16le_encode :: "string \<Rightarrow> string + string"
  cd_utf16be_encode :: "string \<Rightarrow> string + string"
  cd_gbk_encode :: "string \<Rightarrow> string + string"

definition contains_rune :: "string \<Rightarrow> nat \<Rightarrow> bool" where
  "contains_rune s r = list_ex (\<lambda>x. fst x = r) (runes s)"

definition bom_name :: "string \<Rightarrow> string option" where
  "bom_name bytes =
     (case bytes of
        a # b # rest \<Rightarrow>
          (if a = CHR 0xFF \<and> b = CHR 0xFE then Some ''utf-16le''
           else if a = CHR 0xFE \<and> b = CHR 0xFF then Some ''utf-16be'' else None)
      | _ \<Rightarrow> None)"

definition detect_decode :: "codecs \<Rightarrow> string \<Rightarrow> (string \<times> string) option" where
  "detect_decode K bytes =
     (if bytes = [] then Some ([], ''utf-8'')
      else (case bom_name bytes of
          Some name \<Rightarrow>
            (case cd_utf16_decode K bytes of
               None \<Rightarrow> None
             | Some t \<Rightarrow> if valid_string t then Some (t, name) else None)
        | None \<Rightarrow>
            if contains_byte bytes (CHR 0x00) then None
            else if valid_string bytes then Some (bytes, ''utf-8'')
            else (case cd_gbk_decode K bytes of
                None \<Rightarrow> None
              | Some t \<Rightarrow> if valid_string t \<and> \<not> contains_rune t rune_error then Some (t, ''gbk'') else None)))"

section \<open>Line endings\<close>

text \<open>\<open>strings.ReplaceAll\<close> from CRLF to LF, and from LF to CRLF.\<close>

fun to_lf :: "string \<Rightarrow> string" where
  "to_lf [] = []"
| "to_lf [a] = [a]"
| "to_lf (a # b # s) = (if a = carriage \<and> b = newline then newline # to_lf s else a # to_lf (b # s))"

definition expand_lf :: "string \<Rightarrow> string" where
  "expand_lf s = concat (map (\<lambda>c. if c = newline then [carriage, newline] else [c]) s)"

definition to_crlf :: "string \<Rightarrow> string" where
  "to_crlf s = expand_lf (to_lf s)"

record text_profile =
  tp_encoding :: string
  tp_uniform :: bool
  tp_crlf :: bool

definition decode_text_file :: "codecs \<Rightarrow> string \<Rightarrow> (string \<times> text_profile) option" where
  "decode_text_file K bytes =
     (case detect_decode K bytes of
        None \<Rightarrow> None
      | Some (t, enc) \<Rightarrow>
         (let crlf = text_count t [carriage, newline]; nl = text_count t [newline];
              prof = \<lparr>tp_encoding = enc, tp_uniform = (crlf = 0 \<or> crlf = nl), tp_crlf = (0 < crlf \<and> crlf = nl)\<rparr>
          in Some (if tp_crlf prof then to_lf t else t, prof)))"

definition normalize_input :: "text_profile \<Rightarrow> string \<Rightarrow> string" where
  "normalize_input p s = (if tp_uniform p then to_lf s else s)"

datatype encode_error = EncodeUnrepresentable string string | EncodeUnsupported string

definition encode_with :: "(string \<Rightarrow> string + string) \<Rightarrow> string \<Rightarrow> string \<Rightarrow> encode_error + string" where
  "encode_with enc t name =
     (case enc t of Inl m \<Rightarrow> Inl (EncodeUnrepresentable name m) | Inr out \<Rightarrow> Inr out)"

definition with_ending :: "text_profile \<Rightarrow> string \<Rightarrow> string" where
  "with_ending p t = (if tp_uniform p then (if tp_crlf p then to_crlf (to_lf t) else to_lf t) else t)"

definition encode_text :: "codecs \<Rightarrow> text_profile \<Rightarrow> string \<Rightarrow> encode_error + string" where
  "encode_text K p t =
     (if tp_encoding p \<in> {'''', ''utf-8''} then Inr (with_ending p t)
      else if tp_encoding p = ''utf-16le'' then encode_with (cd_utf16le_encode K) (with_ending p t) (tp_encoding p)
      else if tp_encoding p = ''utf-16be'' then encode_with (cd_utf16be_encode K) (with_ending p t) (tp_encoding p)
      else if tp_encoding p = ''gbk'' then encode_with (cd_gbk_encode K) (with_ending p t) (tp_encoding p)
      else Inl (EncodeUnsupported (tp_encoding p)))"

section \<open>Counting line endings\<close>

lemma text_count_Cons:
  assumes "p \<noteq> []"
  shows "text_count (c # s) p =
    (if prefix p (c # s) then Suc (text_count (drop (length p) (c # s)) p) else text_count s p)"
  using assms by (subst text_count.simps) (auto simp: bytes_simps text_count.simps [of s p] split: option.split)

lemma text_count_Nil [simp]: "p \<noteq> [] \<Longrightarrow> text_count [] p = 0"
  by (simp add: text_count.simps [of "[]"])

lemma text_count_byte [simp]: "text_count s [c] = count_list s c"
  by (induction s) (auto simp: text_count_Cons)

fun crlf_count :: "string \<Rightarrow> nat" where
  "crlf_count [] = 0"
| "crlf_count [a] = 0"
| "crlf_count (a # b # s) = (if a = carriage \<and> b = newline then Suc (crlf_count s) else crlf_count (b # s))"

lemma text_count_crlf [simp]: "text_count s [carriage, newline] = crlf_count s"
  by (induction s rule: crlf_count.induct) (auto simp: text_count_Cons)

lemma crlf_count_le: "crlf_count s \<le> count_list s newline"
  by (induction s rule: crlf_count.induct) auto

lemma length_to_lf: "length (to_lf s) + crlf_count s = length s"
  by (induction s rule: to_lf.induct) auto

lemma count_to_lf [simp]: "count_list (to_lf s) newline = count_list s newline"
  by (induction s rule: to_lf.induct) auto

lemma to_lf_same: "crlf_count s = 0 \<Longrightarrow> to_lf s = s"
  by (induction s rule: to_lf.induct) (auto split: if_splits)

lemma expand_lf_simps [simp]:
  "expand_lf [] = []"
  "expand_lf (c # s) = (if c = newline then carriage # newline # expand_lf s else c # expand_lf s)"
  "expand_lf (s @ t) = expand_lf s @ expand_lf t"
  by (simp_all add: expand_lf_def)

lemma length_expand_lf: "length (expand_lf s) = length s + count_list s newline"
  by (induction s) auto

lemma crlf_count_Cons: "crlf_count (a # s) =
    (if a = carriage \<and> s \<noteq> [] \<and> hd s = newline then Suc (crlf_count (tl s)) else crlf_count s)"
  by (cases s) auto

lemma crlf_count_newline [simp]: "crlf_count (newline # s) = crlf_count s"
  by (cases s) auto

lemma hd_expand_lf: "expand_lf s \<noteq> [] \<Longrightarrow> hd (expand_lf s) \<noteq> newline"
  by (cases s) auto

lemma expand_all_crlf: "crlf_count (expand_lf s) = count_list s newline"
  by (induction s) (auto simp: crlf_count_Cons dest: hd_expand_lf)

lemma expand_to_lf: "crlf_count s = count_list s newline \<Longrightarrow> expand_lf (to_lf s) = s"
proof (induction s rule: to_lf.induct)
  case (3 a b s)
  then show ?case using crlf_count_le [of "b # s"] by (auto split: if_splits)
qed auto

lemma to_lf_crlf_count: "0 < crlf_count (to_lf s) \<longleftrightarrow> sublist [carriage, carriage, newline] s"
proof (induction s rule: to_lf.induct)
  case (3 a b s)
  show ?case
  proof (cases "a = carriage \<and> b = newline")
    case True
    then show ?thesis using 3(1) by (simp add: sublist_Cons_right)
  next
    case False
    note IH = 3(2) [OF False]
    show ?thesis
    proof (cases "a = carriage \<and> b = carriage \<and> s \<noteq> [] \<and> hd s = newline")
      case True
      then show ?thesis by (cases s) (simp_all add: sublist_Cons_right)
    next
      case False
      then have "\<not> (a = carriage \<and> to_lf (b # s) \<noteq> [] \<and> hd (to_lf (b # s)) = newline)"
        using \<open>\<not> (a = carriage \<and> b = newline)\<close> by (cases s) auto
      then have "0 < crlf_count (to_lf (a # b # s)) \<longleftrightarrow> 0 < crlf_count (to_lf (b # s))"
        using \<open>\<not> (a = carriage \<and> b = newline)\<close> by (auto simp: crlf_count_Cons)
      moreover have "\<not> prefix [carriage, carriage, newline] (a # b # s)" using False by (cases s) auto
      ultimately show ?thesis using IH by (auto simp: sublist_Cons_right)
    qed
  qed
qed (auto simp: sublist_Cons_right)

section \<open>Reading and writing a file back\<close>

lemma bom_not_utf8: "bom_name d \<noteq> Some ''utf-8''"
  by (simp add: bom_name_def split: list.split)

lemma detect_utf8: "detect_decode K d = Some (t, ''utf-8'') \<Longrightarrow> t = d"
  using bom_not_utf8 [of d]
  by (cases "bom_name d") (auto simp: detect_decode_def split: if_splits option.splits)

lemma decode_utf8:
  assumes "decode_text_file K d = Some (t, p)" and "tp_encoding p = ''utf-8''"
  shows "t = (if tp_crlf p then to_lf d else d)
    \<and> (tp_uniform p \<longleftrightarrow> crlf_count d = 0 \<or> crlf_count d = count_list d newline)
    \<and> (tp_crlf p \<longleftrightarrow> 0 < crlf_count d \<and> crlf_count d = count_list d newline)"
proof -
  obtain t0 enc where dec: "detect_decode K d = Some (t0, enc)"
    using assms(1) by (auto simp: decode_text_file_def split: option.splits)
  then have "enc = ''utf-8''" using assms by (auto simp: decode_text_file_def Let_def)
  then have "t0 = d" using detect_utf8 dec by simp
  then show ?thesis using assms(1) dec by (auto simp: decode_text_file_def Let_def)
qed

lemma with_ending_crlf: "tp_crlf p \<Longrightarrow> tp_uniform p \<Longrightarrow> with_ending p t = expand_lf (to_lf (to_lf t))"
  by (simp add: with_ending_def to_crlf_def)

text \<open>
  A UTF-8 file that is decoded and written back without a change has the same bytes, unless
  its line breaks are all CRLF and a carriage return stands right before one of them; then it
  never has.
\<close>

theorem unchanged_file_is_written_back:
  assumes "decode_text_file K d = Some (t, p)" and "tp_encoding p = ''utf-8''"
  shows "encode_text K p t = Inr d \<longleftrightarrow> \<not> (tp_crlf p \<and> sublist [carriage, carriage, newline] d)"
proof -
  note d = decode_utf8 [OF assms]
  have out: "encode_text K p t = Inr (with_ending p t)" using assms(2) by (simp add: encode_text_def)
  show ?thesis
  proof (cases "tp_crlf p")
    case False
    then have "with_ending p t = d" using d by (auto simp: with_ending_def to_lf_same)
    then show ?thesis using out False by simp
  next
    case True
    then have t: "t = to_lf d" and n: "crlf_count d = count_list d newline" and u: "tp_uniform p" using d by auto
    note e = with_ending_crlf [OF True u, of t, unfolded t]
    show ?thesis
    proof (cases "sublist [carriage, carriage, newline] d")
      case False
      then have "crlf_count (to_lf d) = 0" using to_lf_crlf_count [of d] by simp
      then have "with_ending p t = d" using e n by (simp add: to_lf_same expand_to_lf t)
      then show ?thesis using out False by simp
    next
      case True
      have "length (with_ending p t) = length (to_lf (to_lf (to_lf d))) + count_list d newline"
        by (simp add: e t length_expand_lf)
      moreover have "length (to_lf (to_lf (to_lf d))) \<le> length (to_lf (to_lf d))"
        using length_to_lf [of "to_lf (to_lf d)"] by linarith
      moreover have "length (to_lf (to_lf d)) < length (to_lf d)"
        using length_to_lf [of "to_lf d"] True to_lf_crlf_count [of d] by linarith
      moreover have "length (to_lf d) + count_list d newline = length d" using length_to_lf [of d] n by simp
      ultimately have "with_ending p t \<noteq> d" by auto
      then show ?thesis using out True \<open>tp_crlf p\<close> by simp
    qed
  qed
qed

text \<open>A file of the witnesses, with a CRLF break, and converters that refuse everything.\<close>

definition no_codecs :: codecs where
  "no_codecs = \<lparr>cd_utf16_decode = (\<lambda>s. None), cd_gbk_decode = (\<lambda>s. None),
     cd_utf16le_encode = (\<lambda>s. Inl ''no''), cd_utf16be_encode = (\<lambda>s. Inl ''no''), cd_gbk_encode = (\<lambda>s. Inl ''no'')\<rparr>"

definition crlf_file :: string where
  "crlf_file = ''one'' @ [carriage, newline] @ ''two'' @ [carriage, newline]"

definition crlf_profile :: text_profile where
  "crlf_profile = \<lparr>tp_encoding = ''utf-8'', tp_uniform = True, tp_crlf = True\<rparr>"

lemma detect_plain: "list_all ascii_byte d \<Longrightarrow> d \<noteq> [] \<Longrightarrow> CHR 0x00 \<notin> set d \<Longrightarrow> detect_decode K d = Some (d, ''utf-8'')"
  by (cases d; cases "tl d")
     (auto simp: detect_decode_def bom_name_def valid_string_ascii ascii_def contains_byte_iff ascii_byte_def of_char_def)

lemma crlf_file_decoded: "decode_text_file no_codecs crlf_file = Some (''one'' @ [newline] @ ''two'' @ [newline], crlf_profile)"
proof -
  have "detect_decode no_codecs crlf_file = Some (crlf_file, ''utf-8'')"
    by (rule detect_plain) (code_simp+)
  moreover have "crlf_count crlf_file = 2" "count_list crlf_file newline = 2" "to_lf crlf_file = ''one'' @ [newline] @ ''two'' @ [newline]"
    by code_simp+
  ultimately show ?thesis by (simp add: decode_text_file_def Let_def crlf_profile_def)
qed

theorem unchanged_file_is_written_back_witness:
  "encode_text no_codecs crlf_profile (''one'' @ [newline] @ ''two'' @ [newline]) = Inr crlf_file"
proof -
  have "\<not> contains crlf_file [carriage, carriage, newline]" by code_simp
  then have "\<not> sublist [carriage, carriage, newline] crlf_file" by (simp only: contains_iff not_False_eq_True)
  moreover have "tp_encoding crlf_profile = ''utf-8''" by (simp add: crlf_profile_def)
  ultimately show ?thesis using unchanged_file_is_written_back [OF crlf_file_decoded] by blast
qed

section \<open>Editing the bytes of a file\<close>

text \<open>The middle of \<open>editFile\<close>: from the bytes read to the bytes handed to the engine.\<close>

datatype edit_file_error = NotEditable | EditFailed nat string edit_error | EditEncode encode_error

definition normalize_edit :: "text_profile \<Rightarrow> edit_op \<Rightarrow> edit_op" where
  "normalize_edit p e = e\<lparr>ed_match := normalize_input p (ed_match e), ed_content := normalize_input p (ed_content e)\<rparr>"

definition edited_bytes :: "codecs \<Rightarrow> string \<Rightarrow> edit_op list \<Rightarrow> edit_file_error + string" where
  "edited_bytes K old edits =
     (case decode_text_file K old of
        None \<Rightarrow> Inl NotEditable
      | Some (t, prof) \<Rightarrow>
         (case apply_edits t (map (normalize_edit prof) edits) of
            Inl (i, ty, err) \<Rightarrow> Inl (EditFailed i ty err)
          | Inr edited \<Rightarrow>
             (case encode_text K prof edited of
                Inl err \<Rightarrow> Inl (EditEncode err)
              | Inr out \<Rightarrow> Inr out)))"

text \<open>A text in the line ending of a file.\<close>

definition file_form :: "text_profile \<Rightarrow> string \<Rightarrow> string" where
  "file_form p s = (if tp_uniform p then (if tp_crlf p then expand_lf (to_lf s) else to_lf s) else s)"

definition no_stray :: "string \<Rightarrow> bool" where
  "no_stray s \<longleftrightarrow> count_list s carriage = crlf_count s"

lemma crlf_le_carriage: "crlf_count s \<le> count_list s carriage"
  by (induction s rule: crlf_count.induct) auto

lemma no_stray_cases:
  "no_stray [] \<and> (no_stray (a # s) \<longleftrightarrow>
     (if a = carriage then s \<noteq> [] \<and> hd s = newline \<and> no_stray (tl s) else no_stray s))"
  using crlf_le_carriage [of s] by (cases s) (auto simp: no_stray_def)

lemma no_stray_append: "no_stray s \<Longrightarrow> to_lf (s @ t) = to_lf s @ to_lf t \<and> carriage \<notin> set (to_lf s)"
proof (induction s rule: to_lf.induct)
  case (2 a)
  then have "a \<noteq> carriage" by (auto simp: no_stray_def split: if_splits)
  then show ?case by (cases t) auto
next
  case (3 a b s)
  have "a = carriage \<Longrightarrow> b = newline" using 3(3) no_stray_cases [of a "b # s"] by auto
  then show ?case
  proof (cases "a = carriage")
    case True
    then have "b = newline" using \<open>a = carriage \<Longrightarrow> b = newline\<close> by simp
    moreover have "no_stray s" using 3(3) no_stray_cases [of a "b # s"] True by auto
    ultimately show ?thesis using 3(1) True by auto
  next
    case False
    then have "no_stray (b # s)" using 3(3) no_stray_cases [of a "b # s"] by auto
    then show ?thesis using 3(2) False by auto
  qed
qed simp

lemma no_carriage_lf: "carriage \<notin> set s \<Longrightarrow> to_lf s = s"
  by (induction s rule: to_lf.induct) auto

lemma edit_text_to_lf:
  assumes "no_stray (ed_match e)" and "no_stray (ed_content e)"
  shows "edit_text (normalize_edit p e) = map_option (normalize_input p) (edit_text e)"
  using no_stray_append [OF assms(1), of "ed_content e"] no_stray_append [OF assms(2), of "ed_match e"]
  by (auto simp: edit_text_def normalize_edit_def normalize_input_def)

lemma edit_text_mixed: "\<not> tp_uniform p \<Longrightarrow> normalize_edit p e = e"
  by (simp add: normalize_edit_def normalize_input_def)

lemma carriage_edit_text:
  assumes "edit_text e = Some r" and "no_stray (ed_match e)" and "no_stray (ed_content e)"
  shows "carriage \<notin> set (to_lf r)"
  using assms no_stray_append [OF assms(2), of "ed_content e"] no_stray_append [OF assms(2), of "[]"]
    no_stray_append [OF assms(3), of "ed_match e"] no_stray_append [OF assms(3), of "[]"]
  by (auto simp: edit_text_def split: if_splits)

text \<open>The ending is applied to the parts of a text that has no carriage return.\<close>

lemma with_ending_parts:
  assumes "carriage \<notin> set a" "carriage \<notin> set b" "carriage \<notin> set c" and "tp_uniform p"
  shows "with_ending p (a @ b @ c) = with_ending p a @ with_ending p b @ with_ending p c"
  using assms by (auto simp: with_ending_def to_crlf_def file_form_def no_carriage_lf)

text \<open>
  One edit that names a text changes the bytes of a UTF-8 file at one place: the file
  before is some bytes, the match in the line ending of the file and more bytes, the file
  after has the same bytes around the new text in that line ending. This asks that carriage
  returns stand only in line breaks, in the file and in the edit, if the line breaks of the
  file are all of one kind; a file with mixed breaks is edited as it is.
\<close>

theorem edit_changes_one_place_in_the_bytes:
  assumes run: "edited_bytes K d [e] = Inr d'"
    and dec: "decode_text_file K d = Some (t, p)" "tp_encoding p = ''utf-8''"
    and kind: "ed_type e \<noteq> ''replace_range''"
    and clean: "tp_uniform p \<Longrightarrow> no_stray d \<and> no_stray (ed_match e) \<and> no_stray (ed_content e)"
  shows "\<exists>pre post repl. edit_text e = Some repl
    \<and> d = pre @ file_form p (ed_match e) @ post \<and> d' = pre @ file_form p repl @ post"
proof -
  define e' where "e' = normalize_edit p e"
  note d = decode_utf8 [OF dec]
  have kind': "ed_type e' \<noteq> ''replace_range''" using kind by (simp add: e'_def normalize_edit_def)
  obtain new where new: "apply_edit t e' = Inr new" and d': "d' = with_ending p new"
    using run dec by (auto simp: edited_bytes_def apply_edits_def encode_text_def e'_def split: sum.splits prod.splits)
  obtain i repl where repl: "edit_text e' = Some repl"
    and t: "t = take i t @ ed_match e' @ drop (i + length (ed_match e')) t"
    and n: "new = take i t @ repl @ drop (i + length (ed_match e')) t"
    using edits_land_at_the_match [of t e' new] new kind' by auto
  define pre post where "pre = take i t" and "post = drop (i + length (ed_match e')) t"
  show ?thesis
  proof (cases "tp_uniform p")
    case False
    then have "e' = e" "t = d" "d' = new" using d d' edit_text_mixed by (auto simp: e'_def with_ending_def)
    then show ?thesis using t n repl False by (auto simp: file_form_def)
  next
    case True
    note clean = clean [OF True]
    obtain r where r: "edit_text e = Some r" and rr: "repl = to_lf r"
      using repl edit_text_to_lf [of e p] clean True by (auto simp: e'_def normalize_input_def)
    have m: "ed_match e' = to_lf (ed_match e)" using True by (simp add: e'_def normalize_edit_def normalize_input_def)
    have "carriage \<notin> set (to_lf d)" using no_stray_append [of d "[]"] clean by simp
    moreover have td: "t = to_lf d" using d True by (auto simp: to_lf_same)
    ultimately have ct: "carriage \<notin> set t" by simp
    have cr: "carriage \<notin> set repl" unfolding rr by (rule carriage_edit_text [OF r]) (use clean in auto)
    have parts: "carriage \<notin> set pre" "carriage \<notin> set post" "carriage \<notin> set (ed_match e')"
      using ct arg_cong [OF t, of set] unfolding pre_def post_def by (metis UnCI set_append)+
    have form: "with_ending p (to_lf s) = file_form p s" if "carriage \<notin> set (to_lf s)" for s
      using that True by (simp add: with_ending_def to_crlf_def file_form_def no_carriage_lf)
    have "d = with_ending p t"
      using d td ct True expand_to_lf [of d] by (auto simp: with_ending_def to_crlf_def no_carriage_lf to_lf_same)
    also have "\<dots> = with_ending p (pre @ ed_match e' @ post)" using t by (simp add: pre_def post_def)
    also have "\<dots> = with_ending p pre @ file_form p (ed_match e) @ with_ending p post"
      using with_ending_parts [OF parts(1,3,2) True] parts(3) form m by simp
    finally have *: "d = with_ending p pre @ file_form p (ed_match e) @ with_ending p post" .
    have "d' = with_ending p (pre @ repl @ post)" using d' n by (simp add: pre_def post_def)
    also have "\<dots> = with_ending p pre @ file_form p r @ with_ending p post"
      using with_ending_parts [OF parts(1) cr parts(2) True] cr form rr by simp
    finally show ?thesis using r * by blast
  qed
qed

definition edit_two :: edit_op where
  "edit_two = \<lparr>ed_type = ''insert_after'', ed_match = ''two'' @ [newline], ed_content = ''three'' @ [newline],
     ed_start = 0, ed_end = 0\<rparr>"

theorem edit_changes_one_place_in_the_bytes_witness:
  "\<exists>pre post repl. edit_text edit_two = Some repl
    \<and> crlf_file = pre @ file_form crlf_profile (ed_match edit_two) @ post
    \<and> crlf_file @ ''three'' @ [carriage, newline] = pre @ file_form crlf_profile repl @ post"
proof (rule edit_changes_one_place_in_the_bytes [OF _ crlf_file_decoded])
  have "normalize_edit crlf_profile edit_two = edit_two" by code_simp
  moreover have "text_count (''one'' @ [newline] @ ''two'' @ [newline]) (''two'' @ [newline]) = 1"
    by (simp add: text_count_Cons)
  moreover have "with_ending crlf_profile (''one'' @ [newline] @ ''two'' @ [newline] @ ''three'' @ [newline])
      = crlf_file @ ''three'' @ [carriage, newline]" by code_simp
  ultimately show "edited_bytes no_codecs crlf_file [edit_two] = Inr (crlf_file @ ''three'' @ [carriage, newline])"
    by (simp add: edited_bytes_def crlf_file_decoded apply_edits_def apply_edit_def edit_two_def splice_unique_def
        replace_first_def encode_text_def crlf_profile_def)
  show "tp_encoding crlf_profile = ''utf-8''" by (simp add: crlf_profile_def)
  show "ed_type edit_two \<noteq> ''replace_range''" by (simp add: edit_two_def)
  show "no_stray crlf_file \<and> no_stray (ed_match edit_two) \<and> no_stray (ed_content edit_two)" by code_simp
qed

end
