(* ===== verification/Patch.thy ===== *)
theory Patch
  imports TextLines
begin

text \<open>
  The application of a unified diff, \<^verbatim>\<open>mcpserver/patch.go\<close>, against a reference: what a diff
  with given hunks makes of a file. The pattern of a hunk header is matched by hand; after a
  run of digits it goes on with a comma or a space, so it never has to give digits back.
\<close>

section \<open>Numbers and headers\<close>

definition is_digit :: "char \<Rightarrow> bool" where
  "is_digit c \<longleftrightarrow> c \<in> set ''0123456789''"

definition cut_digits :: "string \<Rightarrow> (string \<times> string) option" where
  "cut_digits s =
     (if takeWhile is_digit s = [] then None else Some (takeWhile is_digit s, dropWhile is_digit s))"

text \<open>\<open>(?:,\d+)?\<close>\<close>

definition skip_count :: "string \<Rightarrow> string" where
  "skip_count s =
     (case s of
        [] \<Rightarrow> s
      | c # r \<Rightarrow>
         if c = CHR '','' then (case cut_digits r of None \<Rightarrow> s | Some (ds, rest) \<Rightarrow> rest) else s)"

text \<open>The first group of \<open>hunkHeaderRe\<close>, if the line matches.\<close>

definition hunk_header :: "string \<Rightarrow> string option" where
  "hunk_header l =
     (if \<not> has_prefix l ''@@ -'' then None
      else (case cut_digits (drop 4 l) of
          None \<Rightarrow> None
        | Some (ds, r1) \<Rightarrow>
           (if \<not> has_prefix (skip_count r1) '' +'' then None
            else (case cut_digits (drop 2 (skip_count r1)) of
                None \<Rightarrow> None
              | Some (ds2, r2) \<Rightarrow> if has_prefix (skip_count r2) '' @@'' then Some ds else None))))"

definition dec_value :: "string \<Rightarrow> nat" where
  "dec_value ds = foldl (\<lambda>v c. 10 * v + (of_char c - 48)) 0 ds"

text \<open>\<open>strconv.Atoi\<close> on a run of digits.\<close>

definition atoi :: "string \<Rightarrow> nat option" where
  "atoi ds = (if int (dec_value ds) < 9223372036854775808 then Some (dec_value ds) else None)"

section \<open>Application\<close>

record patch_state =
  ps_cursor :: nat
  ps_out :: "string list"
  ps_saw :: bool
  ps_last :: char

datatype patch_error =
    MalformedHeader string
  | HunksOverlap
  | HunkBeyondEnd nat nat
  | EmptyLineMismatch nat
  | BeforeAnyHunk string
  | PatchPastEnd nat string nat
  | PatchMismatch nat string string
  | UnexpectedLine string
  | NoHunks

definition no_kind :: char where "no_kind = CHR 0x00"

definition context_error :: "string list \<Rightarrow> nat \<Rightarrow> string \<Rightarrow> patch_error" where
  "context_error src cursor want =
     (if length src \<le> cursor then PatchPastEnd (cursor + 1) want (length src)
      else PatchMismatch (cursor + 1) (trim_nl (src ! cursor)) want)"

definition line_differs :: "string list \<Rightarrow> nat \<Rightarrow> string \<Rightarrow> bool" where
  "line_differs src cursor want \<longleftrightarrow> length src \<le> cursor \<or> trim_nl (src ! cursor) \<noteq> want"

definition start_hunk :: "string list \<Rightarrow> string \<Rightarrow> patch_state \<Rightarrow> patch_error + patch_state" where
  "start_hunk src l st =
     (case hunk_header l of
        None \<Rightarrow> Inl (MalformedHeader l)
      | Some ds \<Rightarrow>
         (case atoi ds of
            None \<Rightarrow> Inl (MalformedHeader l)
          | Some from_line \<Rightarrow>
             (let start = from_line - 1 in
              if start < ps_cursor st then Inl HunksOverlap
              else if length src < start \<and> ps_cursor st < start then Inl (HunkBeyondEnd from_line (length src))
              else Inr \<lparr>ps_cursor = start,
                        ps_out = ps_out st @ take (start - ps_cursor st) (drop (ps_cursor st) src),
                        ps_saw = True, ps_last = no_kind\<rparr>)))"

definition keep_line :: "string list \<Rightarrow> patch_state \<Rightarrow> patch_state" where
  "keep_line src st = st\<lparr>ps_out := ps_out st @ [src ! ps_cursor st], ps_cursor := ps_cursor st + 1, ps_last := CHR '' ''\<rparr>"

definition content_line :: "string list \<Rightarrow> char \<Rightarrow> string \<Rightarrow> patch_state \<Rightarrow> patch_error + patch_state" where
  "content_line src kind t st =
     (if \<not> ps_saw st then Inl (BeforeAnyHunk (kind # t))
      else if kind = CHR ''+'' then Inr (st\<lparr>ps_out := ps_out st @ [t @ [newline]], ps_last := kind\<rparr>)
      else if line_differs src (ps_cursor st) t then Inl (context_error src (ps_cursor st) t)
      else if kind = CHR ''-'' then Inr (st\<lparr>ps_cursor := ps_cursor st + 1, ps_last := kind\<rparr>)
      else Inr (keep_line src st))"

definition patch_line :: "string list \<Rightarrow> bool \<Rightarrow> string \<Rightarrow> patch_state \<Rightarrow> patch_error + patch_state" where
  "patch_line src at_end l st =
     (if has_prefix l ''--- '' \<or> has_prefix l ''+++ '' then Inr st
      else if has_prefix l ''@@'' then start_hunk src l st
      else (case l of
          [] \<Rightarrow>
            if at_end \<or> \<not> ps_saw st then Inr st
            else if line_differs src (ps_cursor st) [] then Inl (EmptyLineMismatch (ps_cursor st + 1))
            else Inr (keep_line src st)
        | kind # t \<Rightarrow>
            if kind \<in> {CHR '' '', CHR ''-'', CHR ''+''} then content_line src kind t st
            else if kind = CHR 0x5C then
              (if (ps_last st = CHR ''+'' \<or> ps_last st = CHR '' '') \<and> ps_out st \<noteq> []
               then Inr (st\<lparr>ps_out := butlast (ps_out st) @ [trim_nl (last (ps_out st))]\<rparr>) else Inr st)
            else Inl (UnexpectedLine l)))"

fun patch_lines :: "string list \<Rightarrow> string list \<Rightarrow> patch_state \<Rightarrow> patch_error + patch_state" where
  "patch_lines src [] st = Inr st"
| "patch_lines src (l # ls) st =
     (case patch_line src (ls = []) l st of Inl e \<Rightarrow> Inl e | Inr st' \<Rightarrow> patch_lines src ls st')"

definition patch_start :: patch_state where
  "patch_start = \<lparr>ps_cursor = 0, ps_out = [], ps_saw = False, ps_last = no_kind\<rparr>"

definition apply_unified :: "string \<Rightarrow> string \<Rightarrow> patch_error + string" where
  "apply_unified patch before =
     (let src = split_keep_nl before in
      case patch_lines src (split_on newline patch) patch_start of
        Inl e \<Rightarrow> Inl e
      | Inr st \<Rightarrow> if \<not> ps_saw st then Inl NoHunks else Inr (concat (ps_out st @ drop (ps_cursor st) src)))"

section \<open>Nothing but what the patch lists\<close>

text \<open>
  An edit script over lines. \<open>change_lines\<close> are the lines of a patch that delete or add,
  \<open>listed\<close> those a script stands for.
\<close>

datatype script_line = Keep string | Del string | Add string

fun old_lines :: "script_line list \<Rightarrow> string list" where
  "old_lines [] = []"
| "old_lines (Keep l # s) = l # old_lines s"
| "old_lines (Del l # s) = l # old_lines s"
| "old_lines (Add l # s) = old_lines s"

fun new_lines :: "script_line list \<Rightarrow> string list" where
  "new_lines [] = []"
| "new_lines (Keep l # s) = l # new_lines s"
| "new_lines (Del l # s) = new_lines s"
| "new_lines (Add l # s) = l # new_lines s"

fun listed :: "script_line list \<Rightarrow> string list" where
  "listed [] = []"
| "listed (Keep l # s) = listed s"
| "listed (Del l # s) = (CHR ''-'' # trim_nl l) # listed s"
| "listed (Add l # s) = (CHR ''+'' # trim_nl l) # listed s"

definition change_line :: "string \<Rightarrow> bool" where
  "change_line l \<longleftrightarrow> l \<noteq> [] \<and> hd l \<in> {CHR ''-'', CHR ''+''} \<and> \<not> has_prefix l ''--- '' \<and> \<not> has_prefix l ''+++ ''"

definition change_lines :: "string \<Rightarrow> string list" where
  "change_lines patch = filter change_line (split_on newline patch)"

definition no_marker :: "string \<Rightarrow> bool" where
  "no_marker patch \<longleftrightarrow> list_all (\<lambda>l. \<not> has_prefix l [CHR 0x5C]) (split_on newline patch)"

lemma script_append [simp]:
  "old_lines (s @ t) = old_lines s @ old_lines t"
  "new_lines (s @ t) = new_lines s @ new_lines t"
  "listed (s @ t) = listed s @ listed t"
  by (induction s rule: old_lines.induct) simp_all

lemma script_keep [simp]:
  "old_lines (map Keep ls) = ls" "new_lines (map Keep ls) = ls" "listed (map Keep ls) = []"
  by (induction ls) simp_all

text \<open>A state is the outcome of a script that consumed the first lines of the file.\<close>

definition made_by :: "string list \<Rightarrow> patch_state \<Rightarrow> script_line list \<Rightarrow> bool" where
  "made_by src st s \<longleftrightarrow> ps_cursor st \<le> length src \<and> old_lines s = take (ps_cursor st) src \<and> new_lines s = ps_out st"

lemma made_by_keep:
  assumes "made_by src st s" and "ps_cursor st < length src"
  shows "made_by src (keep_line src st) (s @ [Keep (src ! ps_cursor st)])"
  using assms by (simp add: made_by_def keep_line_def take_Suc_conv_app_nth)

lemma start_hunk_made:
  assumes "start_hunk src l st = Inr st'" and "made_by src st s"
  shows "\<exists>k. made_by src st' (s @ map Keep k)"
proof -
  define start where "start = ps_cursor st'"
  have st: "ps_cursor st \<le> start" "start \<le> length src"
    and out: "ps_out st' = ps_out st @ take (start - ps_cursor st) (drop (ps_cursor st) src)"
    using assms by (auto simp: start_hunk_def start_def made_by_def Let_def split: option.splits if_splits)
  have "take start src = take (ps_cursor st) src @ take (start - ps_cursor st) (drop (ps_cursor st) src)"
    using st(1) by (metis le_add_diff_inverse take_add)
  then show ?thesis using assms(2) st out by (auto simp: made_by_def start_def)
qed

lemma patch_line_made:
  assumes "patch_line src at_end l st = Inr st'" and "made_by src st s"
    and "\<not> has_prefix l [CHR 0x5C]" and "newline \<notin> set l"
  shows "\<exists>s'. made_by src st' (s @ s') \<and> listed s' = filter change_line [l]"
proof -
  consider (head) "has_prefix l ''--- '' \<or> has_prefix l ''+++ ''"
    | (hunk) "\<not> (has_prefix l ''--- '' \<or> has_prefix l ''+++ '')" "has_prefix l ''@@''"
    | (nil) "l = []"
    | (line) kind t where "l = kind # t" "\<not> (has_prefix l ''--- '' \<or> has_prefix l ''+++ '')" "\<not> has_prefix l ''@@''"
    by (cases l) auto
  then show ?thesis
  proof cases
    case head
    then have "st' = st" "\<not> change_line l" using assms(1) by (auto simp: patch_line_def change_line_def)
    then show ?thesis using assms(2) by (intro exI [of _ "[]"]) simp
  next
    case hunk
    then have "start_hunk src l st = Inr st'" using assms(1) by (simp add: patch_line_def)
    moreover have "\<not> change_line l" using hunk by (cases l) (auto simp: change_line_def)
    ultimately show ?thesis using start_hunk_made [OF _ assms(2)] by (metis script_keep(3) filter.simps)
  next
    case nil
    then show ?thesis
      using assms(1,2) made_by_keep [OF assms(2)]
      by (auto simp: patch_line_def change_line_def line_differs_def split: if_splits intro: exI [of _ "[]"] exI [of _ "[Keep (src ! ps_cursor st)]"])
  next
    case line
    have k: "kind \<in> {CHR '' '', CHR ''-'', CHR ''+''}" and run: "content_line src kind t st = Inr st'"
      using assms(1,3) line by (auto simp: patch_line_def split: if_splits)
    have t: "newline \<notin> set t" using assms(4) line by simp
    consider "kind = CHR ''+''" | "kind = CHR ''-''" | "kind = CHR '' ''" using k by blast
    then show ?thesis
    proof cases
      case 1
      then show ?thesis using run assms(2) line
        by (intro exI [of _ "[Add (t @ [newline])]"])
           (auto simp: content_line_def made_by_def change_line_def split: if_splits)
    next
      case 2
      then show ?thesis using run assms(2) line
        by (intro exI [of _ "[Del (src ! ps_cursor st)]"])
           (auto simp: content_line_def made_by_def change_line_def line_differs_def take_Suc_conv_app_nth split: if_splits)
    next
      case 3
      then show ?thesis using run assms(2) line made_by_keep [OF assms(2)]
        by (intro exI [of _ "[Keep (src ! ps_cursor st)]"])
           (auto simp: content_line_def change_line_def line_differs_def split: if_splits)
    qed
  qed
qed

lemma patch_lines_made:
  assumes "patch_lines src ls st = Inr st'" and "made_by src st s"
    and "list_all (\<lambda>l. \<not> has_prefix l [CHR 0x5C] \<and> newline \<notin> set l) ls"
  shows "\<exists>s'. made_by src st' (s @ s') \<and> listed s' = filter change_line ls"
  using assms
proof (induction ls arbitrary: st s)
  case (Cons l ls)
  obtain st1 where l: "patch_line src (ls = []) l st = Inr st1" and rest: "patch_lines src ls st1 = Inr st'"
    using Cons.prems(1) by (auto split: sum.splits)
  obtain s1 where s1: "made_by src st1 (s @ s1)" "listed s1 = filter change_line [l]"
    using patch_line_made [OF l Cons.prems(2)] Cons.prems(3) by auto
  obtain s2 where s2: "made_by src st' ((s @ s1) @ s2)" "listed s2 = filter change_line ls"
    using Cons.IH [OF rest s1(1)] Cons.prems(3) by auto
  then show ?case using s1(2) by (intro exI [of _ "s1 @ s2"]) auto
next
  case Nil
  then show ?case by (intro exI [of _ "[]"]) simp
qed

text \<open>
  When a patch applies, the file after is the file before under a script of kept, deleted
  and added lines whose deletions and additions are the minus and plus lines of the patch, each
  once and in order: nothing else of the file changes. (This is for patches without the marker
  of a missing line feed, which edits the line before it.)
\<close>

theorem patch_does_what_it_lists:
  assumes "apply_unified patch before = Inr after" and "no_marker patch"
  shows "\<exists>s. before = concat (old_lines s) \<and> after = concat (new_lines s) \<and> listed s = change_lines patch"
proof -
  define src where "src = split_keep_nl before"
  obtain st where run: "patch_lines src (split_on newline patch) patch_start = Inr st"
    and after: "after = concat (ps_out st @ drop (ps_cursor st) src)"
    using assms(1) by (auto simp: apply_unified_def src_def Let_def split: sum.splits if_splits)
  have start: "made_by src patch_start []" by (simp add: made_by_def patch_start_def)
  moreover have "list_all (\<lambda>l. \<not> has_prefix l [CHR 0x5C] \<and> newline \<notin> set l) (split_on newline patch)"
    using assms(2) split_on_seg by (auto simp: no_marker_def list_all_iff)
  ultimately obtain s where s: "made_by src st s" "listed s = change_lines patch"
    using patch_lines_made [OF run start] by (auto simp: change_lines_def)
  define s' where "s' = s @ map Keep (drop (ps_cursor st) src)"
  have "concat (old_lines s') = concat (take (ps_cursor st) src @ drop (ps_cursor st) src)"
    using s(1) by (simp only: s'_def made_by_def script_append script_keep)
  then have "concat (old_lines s') = before" by (simp add: src_def split_keep_eq)
  moreover have "concat (new_lines s') = after" using s(1) by (simp add: s'_def made_by_def after)
  moreover have "listed s' = change_lines patch" using s(2) by (simp add: s'_def)
  ultimately show ?thesis by blast
qed

section \<open>Every diff of the file applies\<close>

text \<open>
  A diff with texts instead of lines: each hunk skips unchanged lines and then lists kept,
  deleted and added texts. It is printed with the line numbers of the unified format; a hunk
  that has no line of the old file names the line before it.
\<close>

type_synonym hunk = "string list \<times> script_line list"

function decimal :: "nat \<Rightarrow> string" where
  "decimal n = (if n < 10 then [char_of (48 + n)] else decimal (n div 10) @ [char_of (48 + n mod 10)])"
  by pat_completeness auto
termination by (relation "measure (\<lambda>n. n)") auto

declare decimal.simps [simp del]

definition closed :: "string \<Rightarrow> string" where
  "closed t = t @ [newline]"

fun print_line :: "script_line \<Rightarrow> string" where
  "print_line (Keep t) = CHR '' '' # t"
| "print_line (Del t) = CHR ''-'' # t"
| "print_line (Add t) = CHR ''+'' # t"

definition range_of :: "nat \<Rightarrow> nat \<Rightarrow> string" where
  "range_of before n = decimal (if n = 0 then before else before + 1) @ '','' @ decimal n"

definition header :: "nat \<Rightarrow> nat \<Rightarrow> script_line list \<Rightarrow> string" where
  "header i j body = ''@@ -'' @ range_of i (length (old_lines body)) @ '' +'' @ range_of j (length (new_lines body)) @ '' @@''"

fun print_hunks :: "nat \<Rightarrow> nat \<Rightarrow> hunk list \<Rightarrow> string list" where
  "print_hunks i j [] = []"
| "print_hunks i j ((gap, body) # hs) =
     header (i + length gap) (j + length gap) body # map print_line body
     @ print_hunks (i + length gap + length (old_lines body)) (j + length gap + length (new_lines body)) hs"

definition old_file :: "hunk list \<Rightarrow> string list \<Rightarrow> string" where
  "old_file hs rest = concat (map closed (concat (map (\<lambda>(gap, body). gap @ old_lines body) hs) @ rest))"

definition new_file :: "hunk list \<Rightarrow> string list \<Rightarrow> string" where
  "new_file hs rest = concat (map closed (concat (map (\<lambda>(gap, body). gap @ new_lines body) hs) @ rest))"

definition plain_line :: "script_line \<Rightarrow> bool" where
  "plain_line s \<longleftrightarrow> (case s of
       Keep t \<Rightarrow> newline \<notin> set t
     | Del t \<Rightarrow> newline \<notin> set t \<and> \<not> has_prefix t ''-- ''
     | Add t \<Rightarrow> newline \<notin> set t \<and> \<not> has_prefix t ''++ '')"

text \<open>What the code asks of a diff: an old line in every hunk that does not stand at the very
  start, and no deleted or added text that makes the printed line look like a file name.\<close>

definition plain_hunk :: "nat \<Rightarrow> hunk \<Rightarrow> bool" where
  "plain_hunk i h \<longleftrightarrow> list_all (\<lambda>t. newline \<notin> set t) (fst h) \<and> list_all plain_line (snd h)
     \<and> (old_lines (snd h) \<noteq> [] \<or> i + length (fst h) = 0)"

fun plain_hunks :: "nat \<Rightarrow> hunk list \<Rightarrow> bool" where
  "plain_hunks i [] = True"
| "plain_hunks i (h # hs) = (plain_hunk i h \<and> plain_hunks (i + length (fst h) + length (old_lines (snd h))) hs)"

lemma is_digit_of: "n < 10 \<Longrightarrow> is_digit (char_of (48 + n :: nat)) \<and> of_char (char_of (48 + n :: nat)) = (48 + n :: nat)"
proof -
  have "list_all (\<lambda>n. is_digit (char_of (48 + n :: nat)) \<and> of_char (char_of (48 + n :: nat)) = (48 + n :: nat)) [0, 1, 2, 3, 4, 5, 6, 7, 8, 9]"
    by code_simp
  moreover assume "n < 10"
  then have "n \<in> {0, 1, 2, 3, 4, 5, 6, 7, 8, 9}" by auto
  ultimately show ?thesis by (auto simp only: list.pred_inject insert_iff empty_iff)
qed

lemma decimal_digits: "list_all is_digit (decimal n) \<and> decimal n \<noteq> [] \<and> dec_value (decimal n) = n"
proof (induction n rule: decimal.induct)
  case (1 n)
  have "n mod 10 < 10" by simp
  note last = is_digit_of [OF this]
  show ?case
  proof (cases "n < 10")
    case True
    then show ?thesis using is_digit_of [OF True] by (subst (1 2 3) decimal.simps) (simp add: dec_value_def)
  next
    case False
    then show ?thesis using 1 [OF False] last by (subst (1 2 3) decimal.simps) (simp add: dec_value_def)
  qed
qed

lemma cut_decimal [simp]: "\<not> is_digit c \<Longrightarrow> cut_digits (decimal n @ c # s) = Some (decimal n, c # s)"
  using decimal_digits [of n] by (simp add: cut_digits_def takeWhile_append2 dropWhile_append2 list_all_iff)

lemma not_digits [simp]: "\<not> is_digit (CHR '','')" "\<not> is_digit (CHR '' '')"
  by (simp_all add: is_digit_def)

lemma hunk_header_print: "hunk_header (header i j body) = Some (decimal (if old_lines body = [] then i else i + 1))"
proof -
  have cut: "cut_digits (decimal n @ '','' @ s) = Some (decimal n, '','' @ s)" for n s by simp
  have skip: "skip_count ('','' @ decimal n @ CHR '' '' # s) = CHR '' '' # s" for n s by (simp add: skip_count_def)
  show ?thesis
    by (simp add: hunk_header_def header_def range_of_def skip_count_def)
qed

section \<open>Applying a printed diff\<close>

abbreviation state_at :: "nat \<Rightarrow> string list \<Rightarrow> bool \<Rightarrow> char \<Rightarrow> patch_state" where
  "state_at i out saw k \<equiv> \<lparr>ps_cursor = i, ps_out = out, ps_saw = saw, ps_last = k\<rparr>"

lemma trim_closed [simp]: "trim_nl (closed t) = t"
  by (simp add: closed_def)

lemma front_line: "[y] = take 1 (drop i src) \<Longrightarrow> i < length src \<and> src ! i = y"
  by (cases "drop i src") (auto simp: nth_via_drop dest: arg_cong [of _ _ length])

lemma patch_line_print:
  assumes "plain_line x" and "map closed (old_lines [x]) = take (length (old_lines [x])) (drop i src)"
  shows "\<exists>k'. patch_line src b (print_line x) (state_at i out True k) =
    Inr (state_at (i + length (old_lines [x])) (out @ map closed (new_lines [x])) True k')"
proof (cases x)
  case (Keep t)
  then show ?thesis using front_line [of "closed t" i src] assms
    by (auto simp: patch_line_def content_line_def line_differs_def keep_line_def)
next
  case (Del t)
  then show ?thesis using front_line [of "closed t" i src] assms
    by (auto simp: patch_line_def content_line_def line_differs_def plain_line_def)
next
  case (Add t)
  then show ?thesis using assms
    by (auto simp: patch_line_def content_line_def plain_line_def closed_def)
qed

lemma old_lines_Cons: "old_lines (x # s) = old_lines [x] @ old_lines s" "new_lines (x # s) = new_lines [x] @ new_lines s"
  by (cases x; simp)+

lemma patch_body_print:
  assumes "list_all plain_line body" and "prefix (map closed (old_lines body)) (drop i src)"
  shows "\<exists>k'. patch_lines src (map print_line body @ more_lines) (state_at i out True k) =
    patch_lines src more_lines (state_at (i + length (old_lines body)) (out @ map closed (new_lines body)) True k')"
  using assms
proof (induction body arbitrary: i out k)
  case (Cons x body)
  obtain r where r: "drop i src = map closed (old_lines [x]) @ map closed (old_lines body) @ r"
    using Cons.prems(2) unfolding old_lines_Cons(1) [of x body] by (auto simp: prefix_def)
  then have "map closed (old_lines [x]) = take (length (old_lines [x])) (drop i src)" by simp
  with Cons.prems(1) obtain k' where step: "patch_line src (map print_line body @ more_lines = []) (print_line x) (state_at i out True k) =
      Inr (state_at (i + length (old_lines [x])) (out @ map closed (new_lines [x])) True k')"
    using patch_line_print by fastforce
  have "prefix (map closed (old_lines body)) (drop (i + length (old_lines [x])) src)"
    unfolding add.commute [of i] drop_drop [symmetric] r by simp
  from Cons.IH [OF _ this, of "out @ map closed (new_lines [x])" k'] Cons.prems(1) step show ?case
    unfolding old_lines_Cons [of x body] by (simp add: add.assoc)
qed auto

lemma patch_hunk_print:
  assumes "plain_hunk i (gap, body)" and "prefix (map closed (gap @ old_lines body)) (drop i src)"
    and "length src < 2 ^ 63"
  shows "\<exists>k'. patch_lines src (header (i + length gap) j body # map print_line body @ more_lines) (state_at i out saw k) =
    patch_lines src more_lines
      (state_at (i + length gap + length (old_lines body)) (out @ map closed (gap @ new_lines body)) True k')"
proof -
  obtain r where r: "drop i src = map closed gap @ map closed (old_lines body) @ r"
    using assms(2) by (auto simp: prefix_def)
  then have len: "length gap + length (old_lines body) \<le> length src - i"
    by (metis length_append length_drop length_map le_add1 add.assoc)
  define n where "n = (if old_lines body = [] then i + length gap else i + length gap + 1)"
  have n: "n - 1 = i + length gap" using assms(1) by (auto simp: n_def plain_hunk_def)
  have small: "n < 2 ^ 63"
  proof (cases "old_lines body = []")
    case True
    then have "n = 0" using assms(1) by (simp add: n_def plain_hunk_def)
    then show ?thesis by simp
  next
    case False
    then have "0 < length (old_lines body)" by simp
    then have "i + length gap + 1 \<le> length src" using len by linarith
    then have "n \<le> length src" using False by (simp add: n_def)
    then show ?thesis using assms(3) by linarith
  qed
  have le: "i + length gap \<le> length src \<or> length gap = 0" using len by arith
  have at: "take (length gap) (drop i src) = map closed gap" using r by simp
  have "start_hunk src (header (i + length gap) j body) (state_at i out saw k) =
      Inr (state_at (i + length gap) (out @ map closed gap) True no_kind)"
    using small le at n decimal_digits [of n]
    by (auto simp: start_hunk_def hunk_header_print n_def [symmetric] atoi_def Let_def)
  then have step: "patch_line src b (header (i + length gap) j body) (state_at i out saw k) =
      Inr (state_at (i + length gap) (out @ map closed gap) True no_kind)" for b
    by (simp add: patch_line_def header_def)
  have "prefix (map closed (old_lines body)) (drop (i + length gap) src)"
    unfolding add.commute [of i] drop_drop [symmetric] r by simp
  moreover have "list_all plain_line body" using assms(1) by (simp add: plain_hunk_def)
  ultimately obtain k' where "patch_lines src (map print_line body @ more_lines) (state_at (i + length gap) (out @ map closed gap) True no_kind)
      = patch_lines src more_lines (state_at (i + length gap + length (old_lines body)) ((out @ map closed gap) @ map closed (new_lines body)) True k')"
    using patch_body_print by blast
  then show ?thesis by (intro exI [of _ k']) (simp add: step)
qed

lemma patch_hunks_print:
  assumes "plain_hunks i hs" and "drop i src = concat (map (\<lambda>(gap, body). map closed (gap @ old_lines body)) hs) @ r"
    and "length src < 2 ^ 63"
  shows "\<exists>k' saw' i'. patch_lines src (print_hunks i j hs @ ['''']) (state_at i out saw k) =
      Inr (state_at i' (out @ concat (map (\<lambda>(gap, body). map closed (gap @ new_lines body)) hs)) saw' k')
    \<and> drop i' src = r \<and> (saw' \<longleftrightarrow> saw \<or> hs \<noteq> [])"
  using assms(1,2)
proof (induction hs arbitrary: i j out saw k)
  case Nil
  then show ?case by (simp add: patch_line_def)
next
  case (Cons h hs)
  obtain gap body where h: "h = (gap, body)" by (cases h)
  have hunk: "plain_hunk i (gap, body)" "plain_hunks (i + length gap + length (old_lines body)) hs"
    using Cons.prems(1) h by simp_all
  have pre: "prefix (map closed (gap @ old_lines body)) (drop i src)" using Cons.prems(2) h by simp
  have drop: "drop (i + length gap + length (old_lines body)) src
      = concat (map (\<lambda>(gap, body). map closed (gap @ old_lines body)) hs) @ r"
  proof -
    have "drop (length gap + length (old_lines body)) (drop i src)
        = concat (map (\<lambda>(gap, body). map closed (gap @ old_lines body)) hs) @ r"
      unfolding Cons.prems(2) h by simp
    then show ?thesis by (simp add: add.commute add.left_commute)
  qed
  define later where "later = print_hunks (i + length gap + length (old_lines body)) (j + length gap + length (new_lines body)) hs @ ['''']"
  obtain k1 where one: "patch_lines src (header (i + length gap) (j + length gap) body # map print_line body @ later) (state_at i out saw k)
      = patch_lines src later (state_at (i + length gap + length (old_lines body)) (out @ map closed (gap @ new_lines body)) True k1)"
    using patch_hunk_print [OF hunk(1) pre assms(3)] by blast
  have "patch_lines src (print_hunks i j (h # hs) @ ['''']) (state_at i out saw k)
      = patch_lines src later (state_at (i + length gap + length (old_lines body)) (out @ map closed (gap @ new_lines body)) True k1)"
    using one by (simp add: h later_def)
  with Cons.IH [OF hunk(2) drop, of "j + length gap + length (new_lines body)" "out @ map closed (gap @ new_lines body)" True k1]
  show ?case by (simp add: h later_def)
qed

text \<open>The text of a patch: file names, the hunks, and a line feed at the end.\<close>

definition patch_text :: "string list \<Rightarrow> hunk list \<Rightarrow> string" where
  "patch_text names hs = join_with [newline] (names @ print_hunks 0 0 hs @ [''''])"

definition name_line :: "string \<Rightarrow> bool" where
  "name_line l \<longleftrightarrow> newline \<notin> set l \<and> (has_prefix l ''--- '' \<or> has_prefix l ''+++ '')"

lemma digits_no_newline: "newline \<notin> set (decimal n)"
proof -
  have "\<not> is_digit newline" by (simp add: is_digit_def)
  then show ?thesis using decimal_digits [of n] unfolding list_all_iff by blast
qed

lemma print_no_newline: "plain_hunks i hs \<Longrightarrow> l \<in> set (print_hunks i j hs) \<Longrightarrow> newline \<notin> set l"
proof (induction i j hs rule: print_hunks.induct)
  case (2 i j gap body hs)
  have "newline \<notin> set (header (i + length gap) (j + length gap) body)"
    using digits_no_newline by (auto simp: header_def range_of_def)
  moreover have "newline \<notin> set (print_line x)" if "x \<in> set body" for x
    using 2(2) that by (cases x) (auto simp: plain_hunk_def list_all_iff plain_line_def split: script_line.splits)
  ultimately show ?case using 2 by auto
qed simp

lemma patch_names: "list_all name_line names \<Longrightarrow> more_lines \<noteq> [] \<Longrightarrow>
    patch_lines src (names @ more_lines) st = patch_lines src more_lines st"
  by (induction names) (auto simp: patch_line_def name_line_def)

lemma split_patch_text:
  assumes "list_all name_line names" and "plain_hunks 0 hs"
  shows "split_on newline (patch_text names hs) = names @ print_hunks 0 0 hs @ ['''']"
  unfolding patch_text_def
  by (rule split_join) (use assms print_no_newline [OF assms(2)] in \<open>auto simp: name_line_def list_all_iff\<close>)

lemma split_closed: "list_all (\<lambda>t. newline \<notin> set t) ts \<Longrightarrow> split_keep_nl (concat (map closed ts)) = map closed ts"
  unfolding split_keep_eq
  by (induction ts) (auto simp: closed_def split_after_lines_line)

lemma plain_old: "plain_hunks i hs \<Longrightarrow>
    list_all (\<lambda>t. newline \<notin> set t) (concat (map (\<lambda>(gap, body). gap @ old_lines body) hs))"
proof (induction i hs rule: plain_hunks.induct)
  case (2 i h hs)
  have "list_all plain_line b \<Longrightarrow> list_all (\<lambda>t. newline \<notin> set t) (old_lines b)" for b
    by (induction b rule: old_lines.induct) (auto simp: plain_line_def)
  then show ?case using 2 by (cases h) (auto simp: plain_hunk_def)
qed simp

lemma map_concat_pairs: "map f (concat (map (\<lambda>(gap, body). gap @ g body) hs)) = concat (map (\<lambda>(gap, body). map f (gap @ g body)) hs)"
  by (induction hs) auto

text \<open>
  Whatever the old and the new file are, as long as every line ends in a line feed: a
  unified diff between them, with any split into hunks that each have an old line, is applied
  and gives the new file, provided no deleted text starts with two hyphens and a space and no
  added text with two plus signs and a space, and the line numbers fit in 63 bits.
\<close>

theorem every_diff_applies:
  assumes "plain_hunks 0 hs" and "hs \<noteq> []" and "list_all (\<lambda>t. newline \<notin> set t) rest"
    and "list_all name_line names"
    and "length (split_keep_nl (old_file hs rest)) < 2 ^ 63"
  shows "apply_unified (patch_text names hs) (old_file hs rest) = Inr (new_file hs rest)"
proof -
  define ts where "ts = concat (map (\<lambda>(gap, body). gap @ old_lines body) hs) @ rest"
  have "list_all (\<lambda>t. newline \<notin> set t) ts" using plain_old [OF assms(1)] assms(3) by (simp add: ts_def)
  then have src: "split_keep_nl (old_file hs rest) = map closed ts"
    by (simp add: old_file_def ts_def [symmetric] split_closed)
  have "drop 0 (map closed ts) = concat (map (\<lambda>(gap, body). map closed (gap @ old_lines body)) hs) @ map closed rest"
    by (simp add: ts_def map_concat_pairs)
  from patch_hunks_print [OF assms(1) this, of 0 "[]" False no_kind] assms(2,5) src
  obtain k' i' where run: "patch_lines (map closed ts) (print_hunks 0 0 hs @ ['''']) patch_start =
      Inr (state_at i' (concat (map (\<lambda>(gap, body). map closed (gap @ new_lines body)) hs)) True k')"
    and "drop i' (map closed ts) = map closed rest"
    by (auto simp: patch_start_def)
  then show ?thesis
    using patch_names [OF assms(4)]
    by (simp add: apply_unified_def Let_def src split_patch_text [OF assms(4,1)] new_file_def map_concat_pairs)
qed

definition sample_hunks :: "hunk list" where
  "sample_hunks = [([''a''], [Keep ''b'', Del ''c'', Add ''d'']), ([''e''], [Del ''f''])]"

lemma sample_patched:
  "old_file sample_hunks [''g''] = concat (map closed [''a'', ''b'', ''c'', ''e'', ''f'', ''g''])"
  "new_file sample_hunks [''g''] = concat (map closed [''a'', ''b'', ''d'', ''e'', ''g''])"
  by (simp_all add: old_file_def new_file_def sample_hunks_def)

theorem every_diff_applies_witness:
  "apply_unified (patch_text [''--- a'', ''+++ b''] sample_hunks) (concat (map closed [''a'', ''b'', ''c'', ''e'', ''f'', ''g'']))
    = Inr (concat (map closed [''a'', ''b'', ''d'', ''e'', ''g'']))"
proof -
  have "plain_hunks 0 sample_hunks" "sample_hunks \<noteq> []" "list_all (\<lambda>t. newline \<notin> set t) [''g'']"
    "list_all name_line [''--- a'', ''+++ b'']" by code_simp+
  moreover have "length (split_keep_nl (old_file sample_hunks [''g''])) < 2 ^ 63"
  proof -
    have "split_keep_nl (old_file sample_hunks [''g'']) = map closed [''a'', ''b'', ''c'', ''e'', ''f'', ''g'']"
      unfolding sample_patched by (rule split_closed) simp
    then show ?thesis by simp
  qed
  ultimately show ?thesis using every_diff_applies [of sample_hunks "[''g'']" "[''--- a'', ''+++ b'']"] by (simp only: sample_patched simp_thms)
qed

theorem patch_does_what_it_lists_witness:
  "\<exists>s. ''a'' @ [newline] = concat (old_lines s) \<and> ''b'' @ [newline] = concat (new_lines s)
    \<and> listed s = change_lines (join_with [newline] [''@@ -1 +1 @@'', ''-a'', ''+b''])"
  by (rule patch_does_what_it_lists) code_simp+

section \<open>Where the code and the format part\<close>

lemma small_decimals: "decimal 0 = ''0''" "decimal (Suc 0) = ''1''" "decimal (Suc (Suc 0)) = ''2''"
  "decimal (Suc (Suc (Suc 0))) = ''3''"
proof -
  have "map char_of [48, 49, 50, 51 :: nat] = ''0123''" by code_simp
  then show "decimal 0 = ''0''" "decimal (Suc 0) = ''1''" "decimal (Suc (Suc 0)) = ''2''"
    "decimal (Suc (Suc (Suc 0))) = ''3''"
    by (simp_all add: decimal.simps)
qed

text \<open>
  Three kinds of patches are accepted and do something else. A deletion of the only line of
  a file, a text that starts with two hyphens and a space, leaves it there. An insertion
  between two lines that is printed without context, as the format has it, lands one line too
  early. The marker of a missing line feed after a context line in the middle of a file joins
  that line to the next.
\<close>

theorem patches_that_land_elsewhere:
  "apply_unified (patch_text [] [([], [Del (''-- note'')])]) (closed ''-- note'') = Inr (closed ''-- note'')
   \<and> apply_unified (patch_text [] [([''a'', ''b''], [Add ''c''])]) (old_file [([''a'', ''b''], [Add ''c''])] [''d''])
       = Inr (concat (map closed [''a'', ''c'', ''b'', ''d'']))
   \<and> new_file [([''a'', ''b''], [Add ''c''])] [''d''] = concat (map closed [''a'', ''b'', ''c'', ''d''])
   \<and> apply_unified (join_with [newline] [''@@ -1 +1 @@'', '' a'', [CHR 0x5C]]) (concat (map closed [''a'', ''b''])) = Inr (''ab'' @ [newline])"
proof (intro conjI)
  have one: "patch_text [] [([], [Del (''-- note'')])] = join_with [newline] [''@@ -1,1 +0,0 @@'', ''--- note'', '''']"
    and two: "patch_text [] [([''a'', ''b''], [Add ''c''])] = join_with [newline] [''@@ -2,0 +3,1 @@'', ''+c'', '''']"
    by (simp_all add: patch_text_def header_def range_of_def small_decimals)
  show "apply_unified (patch_text [] [([], [Del (''-- note'')])]) (closed ''-- note'') = Inr (closed ''-- note'')"
    unfolding one by code_simp
  show "apply_unified (patch_text [] [([''a'', ''b''], [Add ''c''])]) (old_file [([''a'', ''b''], [Add ''c''])] [''d''])
       = Inr (concat (map closed [''a'', ''c'', ''b'', ''d'']))"
    unfolding two by code_simp
qed code_simp+

end
