(* ===== verification/RouteRule.thy ===== *)
theory RouteRule
  imports GoPath
begin

text \<open>
  The table that decides where a saved answer lands, \<^verbatim>\<open>routerule/rule.go\<close>: what a usable rule
  is, which rule wins, where the file goes, and which rules are reported as never matching.
\<close>

section \<open>Rules\<close>

record route_rule =
  rr_id :: string
  rr_source :: string
  rr_patterns :: "string list"
  rr_dest :: string
  rr_action :: string
  rr_uses :: int

abbreviation source_any :: string where "source_any \<equiv> ''ANY''"
abbreviation action_route :: string where "action_route \<equiv> ''route''"
abbreviation action_ask :: string where "action_ask \<equiv> ''ask''"

datatype dest_error = DestRequired | DestBackslash | DestAbsolute | DestLeaves

datatype route_error =
    RouteIdRequired
  | RouteSourceRequired
  | RoutePatternRequired
  | RouteEmptyPattern
  | RouteInvalidPattern string
  | RouteAskHasDest
  | RouteBadDest dest_error
  | RouteUnknownAction string

definition validate_dest :: "string \<Rightarrow> dest_error option" where
  "validate_dest dest =
     (if dest = [] then Some DestRequired
      else if contains_byte dest backslash then Some DestBackslash
      else if has_prefix dest [slash] then Some DestAbsolute
      else if 2 \<le> length dest \<and> dest ! 1 = CHR '':'' then Some DestAbsolute
      else if list_ex (\<lambda>seg. seg = dotdot) (split_on slash dest) then Some DestLeaves
      else None)"

definition validate_pattern :: "string \<Rightarrow> route_error option" where
  "validate_pattern p =
     (if trim_space p = [] then Some RouteEmptyPattern
      else (case path_match p ''probe'' of Inl e \<Rightarrow> Some (RouteInvalidPattern p) | Inr b \<Rightarrow> None))"

definition validate_route :: "route_rule \<Rightarrow> route_error option" where
  "validate_route r =
     (if rr_id r = [] then Some RouteIdRequired
      else if rr_source r = [] then Some RouteSourceRequired
      else if rr_patterns r = [] then Some RoutePatternRequired
      else (case first_some validate_pattern (rr_patterns r) of
          Some e \<Rightarrow> Some e
        | None \<Rightarrow>
            if rr_action r = action_ask then (if rr_dest r \<noteq> [] then Some RouteAskHasDest else None)
            else if rr_action r = action_route then map_option RouteBadDest (validate_dest (rr_dest r))
            else Some (RouteUnknownAction (rr_action r))))"

definition route_matches :: "unicode \<Rightarrow> route_rule \<Rightarrow> string \<Rightarrow> string \<Rightarrow> bool" where
  "route_matches u r provider name =
     (if \<not> equal_fold u (rr_source r) source_any \<and> \<not> equal_fold u (rr_source r) provider then False
      else list_ex (\<lambda>p. path_match p name = Inr True) (rr_patterns r))"

section \<open>Shadowed rules\<close>

definition pattern_covered :: "string list \<Rightarrow> string \<Rightarrow> bool" where
  "pattern_covered earlier later =
     list_ex (\<lambda>e. e = later \<or> e = ''*''
        \<or> has_prefix e ''*.'' \<and> \<not> list_ex (\<lambda>c. contains_byte (drop 2 e) c) ''*?[''
          \<and> has_prefix later ''*.'' \<and> e = later) earlier"

definition shadows :: "unicode \<Rightarrow> route_rule \<Rightarrow> route_rule \<Rightarrow> bool" where
  "shadows u earlier later =
     (if \<not> equal_fold u (rr_source earlier) source_any \<and> \<not> equal_fold u (rr_source earlier) (rr_source later)
      then False
      else list_all (pattern_covered (rr_patterns earlier)) (rr_patterns later))"

text \<open>For each rule the index of the first earlier rule that shadows it; \<open>None\<close> is -1.\<close>

definition shadowed_by :: "unicode \<Rightarrow> route_rule list \<Rightarrow> nat option list" where
  "shadowed_by u rules =
     map (\<lambda>i. List.find (\<lambda>j. shadows u (rules ! j) (rules ! i)) [0..<i]) [0..<length rules]"

section \<open>Application\<close>

record route_outcome =
  ro_path :: string
  ro_ask :: bool
  ro_rule :: string

fun apply_rules :: "unicode \<Rightarrow> route_rule list \<Rightarrow> string \<Rightarrow> string \<Rightarrow> route_outcome" where
  "apply_rules u [] provider requested = \<lparr>ro_path = requested, ro_ask = False, ro_rule = []\<rparr>"
| "apply_rules u (r # rules) provider requested =
     (if \<not> route_matches u r provider (path_base requested) then apply_rules u rules provider requested
      else if rr_action r = action_ask then \<lparr>ro_path = requested, ro_ask = True, ro_rule = rr_id r\<rparr>
      else if rr_action r = action_route then
        (if validate_dest (rr_dest r) \<noteq> None then apply_rules u rules provider requested
         else \<lparr>ro_path = path_join [rr_dest r, path_base requested], ro_ask = False, ro_rule = rr_id r\<rparr>)
      else apply_rules u rules provider requested)"

fun count_use :: "route_rule list \<Rightarrow> string \<Rightarrow> bool \<times> route_rule list" where
  "count_use [] k = (False, [])"
| "count_use (r # rules) k =
     (if rr_id r = k then (True, r\<lparr>rr_uses := rr_uses r + 1\<rparr> # rules)
      else (case count_use rules k of (b, rules') \<Rightarrow> (b, r # rules')))"

section \<open>Where a routed file lands\<close>

lemma clean_segs_no_up:
  "dotdot \<notin> set xs \<Longrightarrow> clean_segs r st xs = rev st @ filter (\<lambda>x. x \<noteq> [] \<and> x \<noteq> dot) xs"
  by (induction xs arbitrary: st) auto

lemma path_base_segment: "slash \<notin> set (path_base p) \<or> path_base p = [slash]"
proof -
  have "slash \<notin> set (last (split_on slash q))" for q
    by (rule split_on_seg [of _ slash q]) simp
  then show ?thesis by (simp add: path_base_def Let_def)
qed

lemma split_on_concat: "split_on c (s @ c # t) = split_on c s @ split_on c t"
  by (induction s) (auto split: list.split)

lemma join_dest:
  assumes "validate_dest dest = None" and "plain_seg base"
  shows "path_join [dest, base] =
    join_with [slash] (filter (\<lambda>x. x \<noteq> [] \<and> x \<noteq> dot) (split_on slash dest) @ [base])"
proof -
  have d: "dest \<noteq> []" "\<not> has_prefix dest [slash]" "dotdot \<notin> set (split_on slash dest)"
    using assms(1) by (auto simp: validate_dest_def list_ex_iff split: if_splits)
  then obtain c s where c: "dest = c # s" "c \<noteq> slash" by (cases dest) auto
  have segs: "split_on slash (dest @ slash # base) = split_on slash dest @ [base]"
    using assms(2) by (simp add: split_on_concat split_on_no_sep plain_seg_def)
  have "clean_segs False [] (split_on slash (dest @ slash # base)) =
      filter (\<lambda>x. x \<noteq> [] \<and> x \<noteq> dot) (split_on slash dest) @ [base]"
    unfolding segs by (subst clean_segs_no_up) (use d(3) assms(2) in \<open>auto simp: plain_seg_def\<close>)
  then have "clean (dest @ slash # base) =
      join_with [slash] (filter (\<lambda>x. x \<noteq> [] \<and> x \<noteq> dot) (split_on slash dest) @ [base])"
    using c by (simp add: clean_def Let_def)
  then show ?thesis using d(1) by (simp add: path_join_def)
qed

text \<open>
  For a requested path whose last element is a file name: the file stays where it was asked
  for, or lands under plain directories below the workspace, without an empty, dot or dot-dot
  element and without a leading slash, under its own name. The table may have been edited by
  hand: no rule of it has to be valid.
\<close>

theorem routes_stay_inside:
  assumes "plain_seg (path_base requested)"
  shows "ro_path (apply_rules u rules provider requested) = requested
    \<or> (\<exists>dirs. list_all plain_seg dirs
         \<and> ro_path (apply_rules u rules provider requested) = join_with [slash] (dirs @ [path_base requested]))"
proof (induction rules)
  case (Cons r rules)
  show ?case
  proof (cases "validate_dest (rr_dest r)")
    case None
    then have "dotdot \<notin> set (split_on slash (rr_dest r))"
      by (auto simp: validate_dest_def list_ex_iff split: if_splits)
    then have "list_all plain_seg (filter (\<lambda>x. x \<noteq> [] \<and> x \<noteq> dot) (split_on slash (rr_dest r)))"
      using split_on_seg by (auto simp: list_all_iff plain_seg_def)
    with join_dest [OF None assms] Cons show ?thesis by auto
  qed (use Cons in auto)
qed simp

definition docs_rule :: route_rule where
  "docs_rule = \<lparr>rr_id = ''r1'', rr_source = ''any'', rr_patterns = [''*.md''], rr_dest = ''docs/./notes'',
     rr_action = action_route, rr_uses = 0\<rparr>"

lemma docs_route: "ro_path (apply_rules plain_unicode [docs_rule] ''claude'' ''tmp/a.md'') = ''docs/notes/a.md''"
proof -
  have "glob_ok ''*.md'' ''a.md''"
    by (subst glob_ok_star_literal) (auto simp: literal_byte_def intro: exI [of _ "''a''"])
  then have "path_match ''*.md'' ''a.md'' = Inr True" by (simp add: glob_ok_def)
  moreover have "path_base ''tmp/a.md'' = ''a.md''" by code_simp
  moreover have "equal_fold plain_unicode ''any'' source_any" by code_simp
  moreover have "validate_dest ''docs/./notes'' = None" "path_join [''docs/./notes'', ''a.md''] = ''docs/notes/a.md''" by code_simp+
  ultimately show ?thesis by (simp add: docs_rule_def route_matches_def)
qed

theorem routes_stay_inside_witness:
  "''docs/notes/a.md'' = ''tmp/a.md''
    \<or> (\<exists>dirs. list_all plain_seg dirs \<and> ''docs/notes/a.md'' = join_with [slash] (dirs @ [path_base ''tmp/a.md'']))"
proof -
  have "plain_seg (path_base ''tmp/a.md'')" by code_simp
  from routes_stay_inside [OF this, of plain_unicode "[docs_rule]" "''claude''"] show ?thesis unfolding docs_route .
qed

section \<open>A shadowed rule never decides\<close>

text \<open>What is used of \<open>strings.EqualFold\<close> beyond ASCII: it compares folded texts.\<close>

definition fold_law :: "unicode \<Rightarrow> bool" where
  "fold_law u \<longleftrightarrow> equivp (equal_fold u)"

lemma path_match_star: "path_match ''*'' t = Inr (slash \<notin> set t)"
proof -
  have "scan_chunk ''*'' = (True, [], [])" by (simp add: scan_chunk_def)
  then show ?thesis by (subst path_match.simps) (simp add: contains_byte_iff)
qed

lemma shadows_sound:
  assumes "fold_law u" and "shadows u a b" and "route_matches u b provider name" and "slash \<notin> set name"
  shows "route_matches u a provider name"
proof -
  note fold = equivp_symp equivp_transp [of "equal_fold u"]
  have trans: "equal_fold u x z" if "equal_fold u x y" "equal_fold u y z" for x y z
    using assms(1) that unfolding fold_law_def by (rule equivp_transp)
  have "equal_fold u (rr_source a) source_any \<or> equal_fold u (rr_source a) provider"
    using assms(2,3) trans by (auto simp: shadows_def route_matches_def split: if_splits)
  moreover obtain p where p: "p \<in> set (rr_patterns b)" "path_match p name = Inr True"
    using assms(3) by (auto simp: route_matches_def list_ex_iff split: if_splits)
  moreover have "pattern_covered (rr_patterns a) p"
    using assms(2) p(1) by (auto simp: shadows_def list_all_iff split: if_splits)
  then have "\<exists>e \<in> set (rr_patterns a). path_match e name = Inr True"
    using p(2) assms(4) path_match_star [of name] by (auto simp: pattern_covered_def list_ex_iff)
  ultimately show ?thesis by (auto simp: route_matches_def list_ex_iff)
qed

text \<open>The rule that decides is the first that matches and can act.\<close>

definition decides :: "unicode \<Rightarrow> string \<Rightarrow> string \<Rightarrow> route_rule \<Rightarrow> bool" where
  "decides u provider requested r \<longleftrightarrow> route_matches u r provider (path_base requested)
     \<and> (rr_action r = action_ask \<or> rr_action r = action_route \<and> validate_dest (rr_dest r) = None)"

definition outcome_of :: "string \<Rightarrow> route_rule option \<Rightarrow> route_outcome" where
  "outcome_of requested w =
     (case w of
        None \<Rightarrow> \<lparr>ro_path = requested, ro_ask = False, ro_rule = []\<rparr>
      | Some r \<Rightarrow>
          if rr_action r = action_ask then \<lparr>ro_path = requested, ro_ask = True, ro_rule = rr_id r\<rparr>
          else \<lparr>ro_path = path_join [rr_dest r, path_base requested], ro_ask = False, ro_rule = rr_id r\<rparr>)"

lemma apply_rules_find: "apply_rules u rules provider requested = outcome_of requested (List.find (decides u provider requested) rules)"
  by (induction rules) (auto simp: outcome_of_def decides_def)

lemma find_append: "List.find P (xs @ ys) = (case List.find P xs of Some x \<Rightarrow> Some x | None \<Rightarrow> List.find P ys)"
  by (induction xs) auto

text \<open>
  A rule that is reported as never matching may be deleted: whatever is saved, the outcome
  is the same without it, if the rule that shadows it is a valid one. So the badge is never
  wrong.
\<close>

theorem shadowed_rules_never_decide:
  assumes "fold_law u" and "i < length rules" and "shadowed_by u rules ! i = Some j"
    and "validate_route (rules ! j) = None" and "path_base requested \<noteq> [slash]"
  shows "apply_rules u (take i rules @ drop (Suc i) rules) provider requested = apply_rules u rules provider requested"
proof -
  let ?P = "decides u provider requested"
  have "List.find (\<lambda>j. shadows u (rules ! j) (rules ! i)) [0..<i] = Some j"
    using assms(2,3) by (simp add: shadowed_by_def)
  then have j: "j < i" "shadows u (rules ! j) (rules ! i)" by (auto dest!: find_SomeD)
  have acts: "rr_action (rules ! j) = action_ask \<or> rr_action (rules ! j) = action_route \<and> validate_dest (rr_dest (rules ! j)) = None"
    using assms(4) by (auto simp: validate_route_def split: if_splits option.splits)
  have "slash \<notin> set (path_base requested)" using path_base_segment assms(5) by blast
  then have imp: "?P (rules ! j)" if "?P (rules ! i)"
    using that shadows_sound [OF assms(1) j(2)] acts by (auto simp: decides_def)
  have "rules ! j \<in> set (take i rules)" using j(1) assms(2) by (auto simp: in_set_conv_nth intro!: exI [of _ j])
  then have early: "List.find ?P (take i rules) \<noteq> None" if "?P (rules ! i)"
    using imp [OF that] by (auto simp: find_None_iff)
  have "rules = take i rules @ rules ! i # drop (Suc i) rules" using assms(2) by (rule id_take_nth_drop)
  then have "List.find ?P rules = List.find ?P (take i rules @ rules ! i # drop (Suc i) rules)" by simp
  also have "\<dots> = List.find ?P (take i rules @ drop (Suc i) rules)"
    using early by (auto simp: find_append split: option.splits)
  finally show ?thesis by (simp add: apply_rules_find)
qed

lemma plain_fold_law: "fold_law plain_unicode"
  by (auto simp: fold_law_def equal_fold_def plain_unicode_def intro!: equivpI reflpI sympI transpI split: if_splits)

definition late_rule :: route_rule where
  "late_rule = docs_rule\<lparr>rr_id := ''r2'', rr_source := ''claude'', rr_dest := ''other''\<rparr>"

theorem shadowed_rules_never_decide_witness:
  "apply_rules plain_unicode [docs_rule] ''claude'' ''a.md'' = apply_rules plain_unicode [docs_rule, late_rule] ''claude'' ''a.md''"
proof -
  have "path_match ''*.md'' ''probe'' = Inr (\<exists>a. slash \<notin> set a \<and> ''probe'' = a @ ''.md'')"
    by (rule path_match_star_literal) (simp_all add: literal_byte_def)
  then have "validate_pattern ''*.md'' = None"
    by (simp add: validate_pattern_def trim_space_def) code_simp
  moreover have "validate_dest ''docs/./notes'' = None" by code_simp
  ultimately have "validate_route docs_rule = None" by (simp add: validate_route_def docs_rule_def)
  moreover have "shadowed_by plain_unicode [docs_rule, late_rule] ! 1 = Some 0" by code_simp
  moreover have "path_base ''a.md'' \<noteq> [slash]" by code_simp
  ultimately show ?thesis
    using shadowed_rules_never_decide [OF plain_fold_law, of 1 "[docs_rule, late_rule]" 0 "''a.md''" "''claude''"] by simp
qed

end
