(* ===== verification/Workspaces.thy ===== *)
theory Workspaces
  imports Workspace TimeText "HOL-Library.Product_Lexorder"
begin

text \<open>
  The registered workspaces: the rows of \<^verbatim>\<open>store/workspace.go\<close> and the manager of
  \<^verbatim>\<open>workspace/manager.go\<close>, which keeps their status and the one that is selected. Every
  operation is cut at its database statements, so that calls can be interleaved; a statement
  or a file operation can be made to fail (\<open>wt_faults\<close>). Instants are nanoseconds since Go's
  zero time, which stands for NULL.
\<close>

section \<open>Rows\<close>

record stored_ws = workspace_row +
  sw_created :: time
  sw_last_used :: time

abbreviation st_active :: string where "st_active \<equiv> ''active''"
abbreviation st_paused :: string where "st_paused \<equiv> ''paused''"
abbreviation st_revoked :: string where "st_revoked \<equiv> ''revoked''"
abbreviation net_allow :: string where "net_allow \<equiv> ''allow''"
abbreviation net_deny :: string where "net_deny \<equiv> ''deny''"

datatype row_fault = MissingId | MissingName | MissingRoot | InvalidMode string | MissingStatus | InvalidNetwork string

definition validate_row :: "stored_ws \<Rightarrow> row_fault option" where
  "validate_row w =
     (if wr_id w = [] then Some MissingId
      else if wr_name w = [] then Some MissingName
      else if wr_root w = [] then Some MissingRoot
      else (case wr_mode w of
          OtherMode m \<Rightarrow> Some (InvalidMode m)
        | mode \<Rightarrow>
            if wr_status w = [] then Some MissingStatus
            else if wr_network w \<noteq> [] \<and> wr_network w \<noteq> net_allow \<and> wr_network w \<noteq> net_deny
            then Some (InvalidNetwork (wr_network w))
            else None))"

definition network_of :: "string \<Rightarrow> string" where
  "network_of v = (if v = net_deny then net_deny else net_allow)"

text \<open>The selection file: absent, with an identifier, or not decodable.\<close>

datatype state_file = NoState | Selected string | BadState

record ws_state =
  wt_rows :: "stored_ws list"
  wt_select :: state_file
  wt_faults :: "string option list"

datatype ws_error =
    WsNotFound
  | WsPaused
  | WsRevoked
  | WsNoCurrent
  | WsDuplicate string
  | WsStatus string string
  | WsInvalid row_fault
  | WsRoot root_error
  | WsFailed string

definition operation :: "ws_state \<Rightarrow> ws_error option \<times> ws_state" where
  "operation st =
     (case wt_faults st of
        [] \<Rightarrow> (None, st)
      | f # fs \<Rightarrow> (map_option WsFailed f, st\<lparr>wt_faults := fs\<rparr>))"

definition row_at :: "string \<Rightarrow> stored_ws list \<Rightarrow> stored_ws option" where
  "row_at k rows = List.find (\<lambda>w. wr_id w = k) rows"

text \<open>\<open>scanWorkspace\<close>: a row as it is read.\<close>

definition scan_workspace :: "stored_ws \<Rightarrow> stored_ws" where
  "scan_workspace w = w\<lparr>wr_network := network_of (wr_network w)\<rparr>"

definition create_workspace :: "time \<Rightarrow> stored_ws \<Rightarrow> ws_state \<Rightarrow> ws_error option \<times> ws_state" where
  "create_workspace now w st0 =
     (case validate_row w of
        Some f \<Rightarrow> (Some (WsInvalid f), st0)
      | None \<Rightarrow>
         (let w' = w\<lparr>sw_created := if sw_created w = 0 then now else sw_created w,
                     wr_network := network_of (wr_network w)\<rparr>
          in case operation st0 of
               (Some e, st) \<Rightarrow> (Some e, st)
             | (None, st) \<Rightarrow>
                 if row_at (wr_id w) (wt_rows st) \<noteq> None then (Some (WsFailed ''UNIQUE constraint failed''), st)
                 else (None, st\<lparr>wt_rows := wt_rows st @ [w']\<rparr>)))"

definition change_row :: "string \<Rightarrow> (stored_ws \<Rightarrow> stored_ws) \<Rightarrow> ws_state \<Rightarrow> ws_error option \<times> ws_state" where
  "change_row k f st0 =
     (case operation st0 of
        (Some e, st) \<Rightarrow> (Some e, st)
      | (None, st) \<Rightarrow>
          if row_at k (wt_rows st) = None then (Some WsNotFound, st)
          else (None, st\<lparr>wt_rows := map (\<lambda>w. if wr_id w = k then f w else w) (wt_rows st)\<rparr>))"

text \<open>Every column but the identifier and the time of creation.\<close>

definition update_workspace :: "stored_ws \<Rightarrow> ws_state \<Rightarrow> ws_error option \<times> ws_state" where
  "update_workspace w st =
     (case validate_row w of
        Some f \<Rightarrow> (Some (WsInvalid f), st)
      | None \<Rightarrow> change_row (wr_id w)
          (\<lambda>r. w\<lparr>sw_created := sw_created r, wr_network := network_of (wr_network w)\<rparr>) st)"

definition touch_workspace :: "string \<Rightarrow> time \<Rightarrow> ws_state \<Rightarrow> ws_error option \<times> ws_state" where
  "touch_workspace k now st = change_row k (\<lambda>r. r\<lparr>sw_last_used := now\<rparr>) st"

definition get_workspace :: "string \<Rightarrow> ws_state \<Rightarrow> (ws_error + stored_ws) \<times> ws_state" where
  "get_workspace k st0 =
     (case operation st0 of
        (Some e, st) \<Rightarrow> (Inl e, st)
      | (None, st) \<Rightarrow>
         (case row_at k (wt_rows st) of
            None \<Rightarrow> (Inl WsNotFound, st)
          | Some w \<Rightarrow> (Inr (scan_workspace w), st)))"

definition list_workspaces :: "ws_state \<Rightarrow> (ws_error + stored_ws list) \<times> ws_state" where
  "list_workspaces st0 =
     (case operation st0 of
        (Some e, st) \<Rightarrow> (Inl e, st)
      | (None, st) \<Rightarrow>
          (Inr (map scan_workspace (sort_key (\<lambda>w. (format_time (sw_created w), wr_id w)) (wt_rows st))), st))"

text \<open>\<open>DeleteWorkspace\<close>; \<open>referenced\<close> is whether a row of another table names the workspace.\<close>

definition delete_workspace :: "bool \<Rightarrow> string \<Rightarrow> ws_state \<Rightarrow> ws_error option \<times> ws_state" where
  "delete_workspace referenced k st0 =
     (case operation st0 of
        (Some e, st) \<Rightarrow> (Some e, st)
      | (None, st) \<Rightarrow>
          if row_at k (wt_rows st) = None then (Some WsNotFound, st)
          else if referenced then (Some (WsFailed ''FOREIGN KEY constraint failed''), st)
          else (None, st\<lparr>wt_rows := filter (\<lambda>w. wr_id w \<noteq> k) (wt_rows st)\<rparr>))"

section \<open>The selection file\<close>

definition read_state :: "ws_state \<Rightarrow> (ws_error + string) \<times> ws_state" where
  "read_state st0 =
     (case operation st0 of
        (Some e, st) \<Rightarrow> (Inl e, st)
      | (None, st) \<Rightarrow>
         (case wt_select st of
            NoState \<Rightarrow> (Inr [], st)
          | Selected k \<Rightarrow> (Inr k, st)
          | BadState \<Rightarrow> (Inl (WsFailed ''decoding workspace state''), st)))"

text \<open>The temporary file is written, then renamed.\<close>

definition write_state :: "string \<Rightarrow> ws_state \<Rightarrow> ws_error option \<times> ws_state" where
  "write_state k st0 =
     (case operation st0 of
        (Some e, st) \<Rightarrow> (Some e, st)
      | (None, st1) \<Rightarrow>
         (case operation st1 of
            (Some e, st) \<Rightarrow> (Some e, st)
          | (None, st) \<Rightarrow> (None, st\<lparr>wt_select := Selected k\<rparr>)))"

section \<open>The manager\<close>

text \<open>\<open>Add\<close>: the listing and the test come first, the insert is a second statement.\<close>

definition add_check :: "machine \<Rightarrow> disk \<Rightarrow> string \<Rightarrow> ws_state \<Rightarrow> (ws_error + string) \<times> ws_state" where
  "add_check m d root st0 =
     (case resolve_root m d root of
        Inl e \<Rightarrow> (Inl (WsRoot e), st0)
      | Inr real \<Rightarrow>
         (case list_workspaces st0 of
            (Inl e, st) \<Rightarrow> (Inl e, st)
          | (Inr ws, st) \<Rightarrow>
             (case List.find (\<lambda>w. wr_root w = real \<and> wr_status w \<noteq> st_revoked) ws of
                Some w \<Rightarrow> (Inl (WsDuplicate (wr_id w)), st)
              | None \<Rightarrow> (Inr real, st))))"

definition new_row :: "string \<Rightarrow> string \<Rightarrow> stored_ws" where
  "new_row k real =
     \<lparr>wr_id = k, wr_name = path_base real, wr_root = real, wr_mode = ReadWrite,
      wr_exclude = default_exclude_rules, wr_sensitive = default_sensitive_rules,
      wr_status = st_active, wr_network = [], sw_created = 0, sw_last_used = 0\<rparr>"

definition add_workspace ::
  "machine \<Rightarrow> disk \<Rightarrow> string \<Rightarrow> time \<Rightarrow> string \<Rightarrow> ws_state \<Rightarrow> (ws_error + string) \<times> ws_state" where
  "add_workspace m d k now root st0 =
     (case add_check m d root st0 of
        (Inl e, st) \<Rightarrow> (Inl e, st)
      | (Inr real, st) \<Rightarrow>
         (case create_workspace now (new_row k real) st of
            (Some e, st') \<Rightarrow> (Inl e, st')
          | (None, st') \<Rightarrow> (Inr k, st')))"

definition list_live :: "ws_state \<Rightarrow> (ws_error + stored_ws list) \<times> ws_state" where
  "list_live st0 =
     (case list_workspaces st0 of
        (Inl e, st) \<Rightarrow> (Inl e, st)
      | (Inr ws, st) \<Rightarrow> (Inr (filter (\<lambda>w. wr_status w \<noteq> st_revoked) ws), st))"

definition open_workspace ::
  "machine \<Rightarrow> disk \<Rightarrow> time \<Rightarrow> string \<Rightarrow> ws_state \<Rightarrow> (ws_error + workspace) \<times> ws_state" where
  "open_workspace m d now k st0 =
     (case get_workspace k st0 of
        (Inl e, st) \<Rightarrow> (Inl e, st)
      | (Inr rec, st) \<Rightarrow>
          if wr_status rec = st_paused then (Inl WsPaused, st)
          else if wr_status rec = st_revoked then (Inl WsRevoked, st)
          else (case from_record m d (workspace_row.truncate rec) of
              Inl e \<Rightarrow> (Inl (WsRoot e), st)
            | Inr ws \<Rightarrow>
               (case touch_workspace k now st of
                  (Some e, st') \<Rightarrow> (Inl e, st')
                | (None, st') \<Rightarrow> (Inr ws, st'))))"

text \<open>
  \<open>Pause\<close>, \<open>Resume\<close>, \<open>SetNetwork\<close> and \<open>Revoke\<close> read the row, judge and change the copy, and
  write all of it back.
\<close>

definition set_status :: "string \<Rightarrow> string \<Rightarrow> stored_ws \<Rightarrow> ws_error + stored_ws" where
  "set_status from to rec =
     (if wr_status rec = st_revoked then Inl WsRevoked
      else if wr_status rec \<noteq> from then Inl (WsStatus (wr_status rec) from)
      else Inr (rec\<lparr>wr_status := to\<rparr>))"

definition set_network :: "bool \<Rightarrow> stored_ws \<Rightarrow> ws_error + stored_ws" where
  "set_network allow rec =
     (if wr_status rec = st_revoked then Inl WsRevoked
      else Inr (rec\<lparr>wr_network := if allow then net_allow else net_deny\<rparr>))"

definition set_revoked_status :: "stored_ws \<Rightarrow> ws_error + stored_ws" where
  "set_revoked_status rec = Inr (rec\<lparr>wr_status := st_revoked\<rparr>)"

definition edit_read :: "(stored_ws \<Rightarrow> ws_error + stored_ws) \<Rightarrow> string \<Rightarrow> ws_state \<Rightarrow> (ws_error + stored_ws) \<times> ws_state" where
  "edit_read f k st0 =
     (case get_workspace k st0 of (Inl e, st) \<Rightarrow> (Inl e, st) | (Inr rec, st) \<Rightarrow> (f rec, st))"

definition edit_row :: "(stored_ws \<Rightarrow> ws_error + stored_ws) \<Rightarrow> string \<Rightarrow> ws_state \<Rightarrow> ws_error option \<times> ws_state" where
  "edit_row f k st0 =
     (case edit_read f k st0 of
        (Inl e, st) \<Rightarrow> (Some e, st)
      | (Inr rec, st) \<Rightarrow> update_workspace rec st)"

definition pause :: "string \<Rightarrow> ws_state \<Rightarrow> ws_error option \<times> ws_state" where
  "pause = edit_row (set_status st_active st_paused)"

definition resume :: "string \<Rightarrow> ws_state \<Rightarrow> ws_error option \<times> ws_state" where
  "resume = edit_row (set_status st_paused st_active)"

definition change_network :: "bool \<Rightarrow> string \<Rightarrow> ws_state \<Rightarrow> ws_error option \<times> ws_state" where
  "change_network allow = edit_row (set_network allow)"

definition clear_selection :: "string \<Rightarrow> ws_state \<Rightarrow> ws_error option \<times> ws_state" where
  "clear_selection k st0 =
     (case read_state st0 of
        (Inl e, st) \<Rightarrow> (Some e, st)
      | (Inr current, st) \<Rightarrow> if current = k then write_state [] st else (None, st))"

definition revoke :: "string \<Rightarrow> ws_state \<Rightarrow> ws_error option \<times> ws_state" where
  "revoke k st0 =
     (case edit_row set_revoked_status k st0 of
        (Some e, st) \<Rightarrow> (Some e, st)
      | (None, st) \<Rightarrow> clear_selection k st)"

definition set_current :: "time \<Rightarrow> string \<Rightarrow> ws_state \<Rightarrow> ws_error option \<times> ws_state" where
  "set_current now k st0 =
     (case get_workspace k st0 of
        (Inl e, st) \<Rightarrow> (Some e, st)
      | (Inr rec, st) \<Rightarrow>
          if wr_status rec = st_revoked then (Some WsRevoked, st)
          else (case touch_workspace k now st of
              (Some e, st') \<Rightarrow> (Some e, st')
            | (None, st') \<Rightarrow> write_state k st'))"

definition current_workspace :: "ws_state \<Rightarrow> (ws_error + stored_ws) \<times> ws_state" where
  "current_workspace st0 =
     (case read_state st0 of
        (Inl e, st) \<Rightarrow> (Inl e, st)
      | (Inr k, st) \<Rightarrow>
          if k = [] then (Inl WsNoCurrent, st)
          else (case get_workspace k st of
              (Inl WsNotFound, st') \<Rightarrow> (Inl WsNoCurrent, st')
            | (Inl e, st') \<Rightarrow> (Inl e, st')
            | (Inr rec, st') \<Rightarrow> if wr_status rec = st_revoked then (Inl WsNoCurrent, st') else (Inr rec, st')))"

section \<open>Calls that overlap\<close>

text \<open>
  What a call in progress still has to write. The manager holds no lock around its database
  statements, and the control surface serves each request in a goroutine of its own, so the
  pieces of two calls may interleave in any order. Reads that write nothing only use up
  failures, which the environment may set as it likes.
\<close>

datatype ws_pending = PutRow stored_ws | PutNew time stored_ws

datatype edit_kind = Pausing | Resuming | Networking bool | Revoking

fun edit_of :: "edit_kind \<Rightarrow> stored_ws \<Rightarrow> ws_error + stored_ws" where
  "edit_of Pausing = set_status st_active st_paused"
| "edit_of Resuming = set_status st_paused st_active"
| "edit_of (Networking allow) = set_network allow"
| "edit_of Revoking = set_revoked_status"

inductive ws_step :: "ws_state \<times> ws_pending list \<Rightarrow> ws_state \<times> ws_pending list \<Rightarrow> bool" where
  fault: "ws_step (st, ps) (st\<lparr>wt_faults := fs\<rparr>, ps)"
| edit_started: "edit_read (edit_of e) k st = (Inr rec, st') \<Longrightarrow> ws_step (st, ps) (st', PutRow rec # ps)"
| edit_refused: "edit_read (edit_of e) k st = (Inl err, st') \<Longrightarrow> ws_step (st, ps) (st', ps)"
| edit_written: "update_workspace rec st = (r, st') \<Longrightarrow> PutRow rec \<in> set ps \<Longrightarrow>
    ws_step (st, ps) (st', remove1 (PutRow rec) ps)"
| add_started: "add_check m d root st = (Inr real, st') \<Longrightarrow> k \<noteq> [] \<Longrightarrow>
    ws_step (st, ps) (st', PutNew now (new_row k real) # ps)"
| add_refused: "add_check m d root st = (Inl err, st') \<Longrightarrow> ws_step (st, ps) (st', ps)"
| add_written: "create_workspace now w st = (r, st') \<Longrightarrow> PutNew now w \<in> set ps \<Longrightarrow>
    ws_step (st, ps) (st', remove1 (PutNew now w) ps)"
| touched: "touch_workspace k now st = (r, st') \<Longrightarrow> ws_step (st, ps) (st', ps)"
| selected: "write_state k st = (r, st') \<Longrightarrow> ws_step (st, ps) (st', ps)"

inductive_cases ws_stepE: "ws_step (st, ps) (st', ps')"

abbreviation ws_run :: "ws_state \<times> ws_pending list \<Rightarrow> ws_state \<times> ws_pending list \<Rightarrow> bool" where
  "ws_run \<equiv> ws_step\<^sup>*\<^sup>*"

text \<open>What the operations do to the rows.\<close>

lemma operation_rows: "operation st = (r, st') \<Longrightarrow> wt_rows st' = wt_rows st \<and> wt_select st' = wt_select st"
  by (auto simp: operation_def split: list.splits)

lemma row_atD: "row_at k rows = Some w \<Longrightarrow> w \<in> set rows \<and> wr_id w = k"
  by (auto simp: row_at_def dest: find_SomeD)

lemma row_at_None: "row_at k rows = None \<longleftrightarrow> (\<forall>w \<in> set rows. wr_id w \<noteq> k)"
  by (auto simp: row_at_def find_None_iff)

lemma get_workspace_rows:
  "get_workspace k st = (r, st') \<Longrightarrow> wt_rows st' = wt_rows st
     \<and> (\<forall>w. r = Inr w \<longrightarrow> (\<exists>w0. row_at k (wt_rows st) = Some w0 \<and> w = scan_workspace w0))"
  by (auto simp: get_workspace_def dest: operation_rows split: prod.splits option.splits)

lemma change_row_rows:
  "change_row k f st = (r, st') \<Longrightarrow>
     wt_rows st' = (if r = None then map (\<lambda>w. if wr_id w = k then f w else w) (wt_rows st) else wt_rows st)"
  by (auto simp: change_row_def dest: operation_rows split: prod.splits option.splits if_splits)

lemma update_workspace_rows:
  "update_workspace rec st = (r, st') \<Longrightarrow>
     wt_rows st' = (if r = None then map (\<lambda>w. if wr_id w = wr_id rec
         then rec\<lparr>sw_created := sw_created w, wr_network := network_of (wr_network rec)\<rparr> else w) (wt_rows st)
       else wt_rows st) \<and> (r = None \<longrightarrow> validate_row rec = None)"
  by (auto simp: update_workspace_def dest: change_row_rows split: option.splits)

lemma create_workspace_rows:
  assumes "create_workspace now w st = (r, st')"
  shows "wt_rows st' = wt_rows st \<or>
    validate_row w = None \<and> row_at (wr_id w) (wt_rows st) = None
    \<and> wt_rows st' = wt_rows st @ [w\<lparr>sw_created := if sw_created w = 0 then now else sw_created w,
         wr_network := network_of (wr_network w)\<rparr>]"
  using assms
  by (auto simp: create_workspace_def Let_def dest: operation_rows split: prod.splits option.splits if_splits)

lemma list_workspaces_rows:
  "list_workspaces st = (r, st') \<Longrightarrow> wt_rows st' = wt_rows st
     \<and> (\<forall>ws. r = Inr ws \<longrightarrow> set ws = scan_workspace ` set (wt_rows st))"
  by (auto simp: list_workspaces_def dest: operation_rows split: prod.splits option.splits)

lemma add_check_rows:
  assumes "add_check m d root st = (r, st')"
  shows "wt_rows st' = wt_rows st \<and>
    (\<forall>real. r = Inr real \<longrightarrow> resolve_root m d root = Inr real
       \<and> (\<forall>w \<in> set (wt_rows st). wr_root w = real \<longrightarrow> wr_status w = st_revoked))"
  using assms list_workspaces_rows [of st]
  by (fastforce simp: add_check_def find_None_iff scan_workspace_def split: sum.splits prod.splits option.splits)

lemma write_state_rows: "write_state k st = (r, st') \<Longrightarrow> wt_rows st' = wt_rows st"
  by (auto simp: write_state_def dest!: operation_rows split: prod.splits option.splits)

lemma edit_read_rows:
  assumes "edit_read f k st = (r, st')"
  shows "wt_rows st' = wt_rows st
    \<and> (\<forall>rec. r = Inr rec \<longrightarrow> (\<exists>w. row_at k (wt_rows st) = Some w \<and> f (scan_workspace w) = Inr rec))"
  using assms get_workspace_rows [of k st]
  by (fastforce simp: edit_read_def split: sum.splits prod.splits)

section \<open>Rows keep their types\<close>

definition row_ok :: "stored_ws \<Rightarrow> bool" where
  "row_ok w \<longleftrightarrow> wr_id w \<noteq> [] \<and> wr_name w \<noteq> [] \<and> clean_abs (wr_root w)
     \<and> (wr_mode w = ReadOnly \<or> wr_mode w = ReadWrite)
     \<and> wr_status w \<in> {st_active, st_paused, st_revoked}
     \<and> wr_network w \<in> {net_allow, net_deny}"

definition table_ok :: "stored_ws list \<Rightarrow> bool" where
  "table_ok rows \<longleftrightarrow> distinct (map wr_id rows) \<and> list_all row_ok rows"

definition pending_ok :: "ws_pending \<Rightarrow> bool" where
  "pending_ok p \<longleftrightarrow> (case p of PutRow w \<Rightarrow> row_ok w | PutNew now w \<Rightarrow> row_ok (w\<lparr>wr_network := net_allow\<rparr>) \<and> wr_network w = [])"

lemma clean_abs_not_Nil: "clean_abs p \<Longrightarrow> p \<noteq> []"
  by (auto simp: clean_abs_def is_abs_def)

lemma path_base_not_Nil: "path_base p \<noteq> []"
proof -
  have strip: "q = [] \<or> hd q \<noteq> slash" if "q = strip_slashes s" for q s
    using that by (induction s arbitrary: q) auto
  have "last (split_on slash q) \<noteq> []" if "q \<noteq> []" "last q \<noteq> slash" for q
    using that
  proof (induction q)
    case (Cons c q)
    show ?case
    proof (cases "q = []")
      case False
      then have "last (split_on slash q) \<noteq> []" using Cons by simp
      then show ?thesis by (cases "split_on slash q") auto
    qed (use Cons in simp)
  qed simp
  moreover have "last (rev q) \<noteq> slash" if "q = strip_slashes s" "rev q \<noteq> []" for q s
    using strip [OF that(1)] that(2) by (simp add: last_rev)
  ultimately show ?thesis by (auto simp: path_base_def Let_def)
qed

lemma edit_keeps_row:
  assumes "edit_of e (scan_workspace w) = Inr rec" and "row_ok w"
  shows "row_ok rec \<and> wr_id rec = wr_id w \<and> wr_root rec = wr_root w
    \<and> (wr_status w = st_revoked \<longrightarrow> wr_status rec = st_revoked)"
  using assms
  by (cases e) (auto simp: set_status_def set_network_def set_revoked_status_def scan_workspace_def row_ok_def
      network_of_def split: if_splits)

lemma table_ok_map:
  assumes "table_ok rows" and "\<And>w. wr_id (f w) = wr_id w" and "\<And>w. w \<in> set rows \<Longrightarrow> row_ok (f w)"
  shows "table_ok (map f rows)"
  using assms by (simp add: table_ok_def list_all_iff comp_def)

lemma update_ok:
  assumes "update_workspace rec st = (r, st')" and "table_ok (wt_rows st)" and "row_ok rec"
  shows "table_ok (wt_rows st')"
proof -
  have "table_ok (map (\<lambda>w. if wr_id w = wr_id rec
      then rec\<lparr>sw_created := sw_created w, wr_network := network_of (wr_network rec)\<rparr> else w) (wt_rows st))"
    by (rule table_ok_map) (use assms in \<open>auto simp: row_ok_def network_of_def table_ok_def list_all_iff\<close>)
  then show ?thesis using update_workspace_rows [OF assms(1)] assms(2) by simp
qed

lemma create_ok:
  assumes "create_workspace now w st = (r, st')" and "table_ok (wt_rows st)" and "pending_ok (PutNew now w)"
  shows "table_ok (wt_rows st')"
proof -
  have "row_ok (w\<lparr>sw_created := c, wr_network := network_of (wr_network w)\<rparr>)" for c
    using assms(3) by (auto simp: pending_ok_def row_ok_def network_of_def)
  then show ?thesis using create_workspace_rows [OF assms(1)] assms(2)
    by (fastforce simp: table_ok_def row_at_None)
qed

lemma touch_ok:
  assumes "touch_workspace k now st = (r, st')" and "table_ok (wt_rows st)"
  shows "table_ok (wt_rows st')"
proof -
  have "table_ok (map (\<lambda>w. if wr_id w = k then w\<lparr>sw_last_used := now\<rparr> else w) (wt_rows st))"
    by (rule table_ok_map) (use assms in \<open>auto simp: row_ok_def table_ok_def list_all_iff\<close>)
  then show ?thesis using change_row_rows [OF assms(1) [unfolded touch_workspace_def]] assms(2) by simp
qed

lemma edit_started_ok:
  assumes "edit_read (edit_of e) k st = (Inr rec, st')" and "table_ok (wt_rows st)"
  shows "row_ok rec \<and> wr_id rec = k"
proof -
  obtain w where w: "row_at k (wt_rows st) = Some w" "edit_of e (scan_workspace w) = Inr rec"
    using edit_read_rows [OF assms(1)] by blast
  then have "row_ok w" "wr_id w = k" using row_atD [OF w(1)] assms(2) by (auto simp: table_ok_def list_all_iff)
  then show ?thesis using edit_keeps_row [OF w(2)] by simp
qed

lemma add_started_ok:
  assumes "add_check m d root st = (Inr real, st')" and "k \<noteq> []"
  shows "pending_ok (PutNew now (new_row k real))"
proof -
  have "clean_abs real" using add_check_rows [OF assms(1)] resolve_root_real(1) by blast
  then show ?thesis using assms(2) path_base_not_Nil by (simp add: pending_ok_def row_ok_def new_row_def)
qed

lemma pending_ok_remove1: "list_all pending_ok ps \<Longrightarrow> list_all pending_ok (remove1 p ps)"
  by (auto simp: list_all_iff dest: set_remove1_subset [THEN subsetD])

lemma ws_step_ok:
  assumes "ws_step s s'" and "table_ok (wt_rows (fst s))" and "list_all pending_ok (snd s)"
  shows "table_ok (wt_rows (fst s')) \<and> list_all pending_ok (snd s')"
  using assms
proof (cases rule: ws_step.cases)
  case (edit_started e k st rec st' ps)
  then show ?thesis using assms(2,3) edit_started_ok [OF edit_started(3)] edit_read_rows [OF edit_started(3)]
    by (simp add: pending_ok_def)
next
  case (edit_refused e k st err st' ps)
  then show ?thesis using assms(2,3) edit_read_rows [OF edit_refused(3)] by simp
next
  case (edit_written rec st r st' ps)
  have "row_ok rec" using assms(3) edit_written by (auto simp: list_all_iff pending_ok_def)
  then show ?thesis using assms(2,3) edit_written update_ok pending_ok_remove1 by simp
next
  case (add_started m d root st real st' k ps now)
  then show ?thesis using assms(2,3) add_started_ok [OF add_started(3,4)] add_check_rows [OF add_started(3)] by simp
next
  case (add_refused m d root st err st' ps)
  then show ?thesis using assms(2,3) add_check_rows [OF add_refused(3)] by simp
next
  case (add_written now w st r st' ps)
  have "pending_ok (PutNew now w)" using assms(3) add_written by (auto simp: list_all_iff)
  then show ?thesis using assms(2,3) add_written create_ok pending_ok_remove1 by simp
next
  case (touched k now st r st' ps)
  then show ?thesis using assms(2,3) touch_ok by simp
next
  case (selected k st r st' ps)
  then show ?thesis using assms(2,3) write_state_rows by simp
qed simp

definition no_workspaces :: ws_state where
  "no_workspaces = \<lparr>wt_rows = [], wt_select = NoState, wt_faults = []\<rparr>"

lemma ws_run_ok:
  assumes "ws_run s s'" and "table_ok (wt_rows (fst s))" and "list_all pending_ok (snd s)"
  shows "table_ok (wt_rows (fst s')) \<and> list_all pending_ok (snd s')"
  using assms by (induction rule: rtranclp_induct) (auto dest: ws_step_ok)

text \<open>
  From an empty database, however the calls of the manager overlap and whichever statements
  fail: identifiers are unique, every row has a name, a clean absolute root, one of the two
  modes, one of the three statuses and one of the two network settings, and so has every row
  that a call read and is about to write.
\<close>

theorem rows_stay_well_typed:
  assumes "ws_run (no_workspaces, []) (st, ps)"
  shows "table_ok (wt_rows st) \<and> list_all pending_ok ps"
  using ws_run_ok [OF assms] by (simp add: no_workspaces_def table_ok_def)

section \<open>Revocation\<close>

text \<open>A workspace is revoked for good when no call that read its row before is still to write it.\<close>

definition revoked_for_good :: "string \<Rightarrow> ws_state \<times> ws_pending list \<Rightarrow> bool" where
  "revoked_for_good k s \<longleftrightarrow>
     (\<exists>w. row_at k (wt_rows (fst s)) = Some w \<and> wr_status w = st_revoked)
     \<and> (\<forall>rec. PutRow rec \<in> set (snd s) \<longrightarrow> wr_id rec = k \<longrightarrow> wr_status rec = st_revoked)"

lemma row_at_map:
  assumes "\<And>w. wr_id (f w) = wr_id w"
  shows "row_at k (map f rows) = map_option f (row_at k rows)"
  by (induction rows) (auto simp: row_at_def assms)

lemma row_at_append: "row_at k rows = Some w \<Longrightarrow> row_at k (rows @ new) = Some w"
  by (induction rows) (auto simp: row_at_def split: if_splits)

lemma revoked_step:
  assumes "ws_step s s'" and "revoked_for_good k s"
  shows "revoked_for_good k s'"
proof -
  obtain w where w: "row_at k (wt_rows (fst s)) = Some w" "wr_status w = st_revoked"
    and pend: "\<And>rec. PutRow rec \<in> set (snd s) \<Longrightarrow> wr_id rec = k \<Longrightarrow> wr_status rec = st_revoked"
    using assms(2) by (auto simp: revoked_for_good_def)
  from assms(1) show ?thesis
  proof (cases rule: ws_step.cases)
    case (fault st ps fs)
    then show ?thesis using assms(2) by (simp add: revoked_for_good_def)
  next
    case (edit_started e j st rec st' ps)
    obtain w' where w': "row_at j (wt_rows st) = Some w'" "edit_of e (scan_workspace w') = Inr rec"
      using edit_read_rows [OF edit_started(3)] by blast
    have "wr_id rec = k \<Longrightarrow> wr_status rec = st_revoked"
    proof -
      assume "wr_id rec = k"
      moreover have "wr_id rec = wr_id w'" using w'(2)
        by (cases e) (auto simp: set_status_def set_network_def set_revoked_status_def scan_workspace_def split: if_splits)
      ultimately have "w' = w" using row_atD [OF w'(1)] w'(1) w(1) edit_started by simp
      then show ?thesis using w'(2) w(2)
        by (cases e) (auto simp: set_status_def set_network_def set_revoked_status_def scan_workspace_def split: if_splits)
    qed
    then show ?thesis using edit_started w pend edit_read_rows [OF edit_started(3)] by (auto simp: revoked_for_good_def)
  next
    case (edit_refused e j st err st' ps)
    then show ?thesis using w pend edit_read_rows [OF edit_refused(3)] by (auto simp: revoked_for_good_def)
  next
    case (edit_written rec st r st' ps)
    have "wr_id rec = k \<Longrightarrow> wr_status rec = st_revoked" using pend edit_written by simp
    moreover have "row_at k (map (\<lambda>w. if wr_id w = wr_id rec
        then rec\<lparr>sw_created := sw_created w, wr_network := network_of (wr_network rec)\<rparr> else w) (wt_rows st))
        = Some (if wr_id w = wr_id rec
            then rec\<lparr>sw_created := sw_created w, wr_network := network_of (wr_network rec)\<rparr> else w)"
      by (subst row_at_map) (use w edit_written in auto)
    moreover have "wr_id w = k" using row_atD [OF w(1)] by simp
    ultimately show ?thesis using edit_written w pend update_workspace_rows [OF edit_written(3)]
      by (auto simp: revoked_for_good_def dest: set_remove1_subset [THEN subsetD])
  next
    case (add_started m d root st real st' j ps now)
    then show ?thesis using w pend add_check_rows [OF add_started(3)] by (auto simp: revoked_for_good_def)
  next
    case (add_refused m d root st err st' ps)
    then show ?thesis using w pend add_check_rows [OF add_refused(3)] by (auto simp: revoked_for_good_def)
  next
    case (add_written now v st r st' ps)
    then show ?thesis using w pend create_workspace_rows [OF add_written(3)]
      by (auto simp: revoked_for_good_def row_at_append dest: set_remove1_subset [THEN subsetD])
  next
    case (touched j now st r st' ps)
    have "row_at k (map (\<lambda>w. if wr_id w = j then w\<lparr>sw_last_used := now\<rparr> else w) (wt_rows st))
        = Some (if wr_id w = j then w\<lparr>sw_last_used := now\<rparr> else w)"
      by (subst row_at_map) (use w touched in auto)
    then show ?thesis using w pend touched change_row_rows [OF touched(3) [unfolded touch_workspace_def]]
      by (auto simp: revoked_for_good_def)
  next
    case (selected j st r st' ps)
    then show ?thesis using w pend write_state_rows [OF selected(3)] by (auto simp: revoked_for_good_def)
  qed
qed

text \<open>
  Once a workspace is revoked and no call that read its row before is still to write it,
  nothing brings it back, in any interleaving of any later calls: it is never opened, paused,
  resumed, changed, selected or given as the current one, and the listing leaves it out.
\<close>

theorem revocation_is_final:
  assumes "ws_run (no_workspaces, []) s" and "revoked_for_good k s" and "ws_run s (st, ps)"
  shows "(\<forall>m d now ws. fst (open_workspace m d now k st) \<noteq> Inr ws)
    \<and> (\<forall>e. e = Revoking \<or> fst (edit_row (edit_of e) k st) \<noteq> None)
    \<and> (\<forall>now. fst (set_current now k st) \<noteq> None)
    \<and> (\<forall>w. fst (current_workspace st) = Inr w \<longrightarrow> wr_id w \<noteq> k)
    \<and> (\<forall>ws. fst (list_live st) = Inr ws \<longrightarrow> k \<notin> wr_id ` set ws)"
proof -
  have "revoked_for_good k (st, ps)"
    using assms(3,2) by (induction rule: rtranclp_induct) (auto intro: revoked_step)
  then obtain w where w: "row_at k (wt_rows st) = Some w" "wr_status w = st_revoked"
    by (auto simp: revoked_for_good_def)
  have "ws_run (no_workspaces, []) (st, ps)" using assms(1,3) by (rule rtranclp_trans)
  then have "table_ok (wt_rows st)" using ws_run_ok by (fastforce simp: no_workspaces_def table_ok_def)
  then have inj: "v = w" if "v \<in> set (wt_rows st)" "wr_id v = k" for v
    using that row_atD [OF w(1)] by (auto simp: table_ok_def distinct_map inj_on_def)
  have get: "wr_id v = j \<and> (j = k \<longrightarrow> wr_status v = st_revoked)" if "get_workspace j st1 = (Inr v, st')" "wt_rows st1 = wt_rows st" for j v st1 st'
    using get_workspace_rows [OF that(1)] w that(2) by (auto simp: scan_workspace_def dest: row_atD)
  have read: "wt_rows st1 = wt_rows st" if "read_state st = (r, st1)" for r st1
    using that by (auto simp: read_state_def dest: operation_rows split: prod.splits option.splits state_file.splits)
  show ?thesis
  proof (intro conjI allI impI)
    fix m d now ws
    show "fst (open_workspace m d now k st) \<noteq> Inr ws"
      using get [of k st] by (auto simp: open_workspace_def split: prod.splits sum.splits)
  next
    fix e
    show "e = Revoking \<or> fst (edit_row (edit_of e) k st) \<noteq> None"
      using get [of k st] by (cases e) (auto simp: edit_row_def edit_read_def set_status_def set_network_def split: prod.splits sum.splits)
  next
    fix now
    show "fst (set_current now k st) \<noteq> None"
      using get [of k st] by (auto simp: set_current_def split: prod.splits sum.splits)
  next
    fix v assume "fst (current_workspace st) = Inr v"
    then obtain j st1 st2 where "read_state st = (Inr j, st1)" "get_workspace j st1 = (Inr v, st2)" "wr_status v \<noteq> st_revoked"
      by (auto simp: current_workspace_def split: prod.splits sum.splits if_splits ws_error.splits)
    then show "wr_id v \<noteq> k" using get read by metis
  next
    fix ws assume "fst (list_live st) = Inr ws"
    then obtain all st1 where "list_workspaces st = (Inr all, st1)" "ws = filter (\<lambda>w. wr_status w \<noteq> st_revoked) all"
      by (auto simp: list_live_def split: prod.splits sum.splits)
    then show "k \<notin> wr_id ` set ws"
      using list_workspaces_rows [of st] inj w(2) by (fastforce simp: scan_workspace_def)
  qed
qed

section \<open>What overlapping calls can do\<close>

definition first_ws :: stored_ws where
  "first_ws = (new_row ''ws_1'' ''/w'')\<lparr>wr_network := net_allow, sw_created := 1\<rparr>"

definition one_ws :: ws_state where
  "one_ws = \<lparr>wt_rows = [first_ws], wt_select = NoState, wt_faults = []\<rparr>"

definition gone_ws :: ws_state where
  "gone_ws = one_ws\<lparr>wt_rows := [first_ws\<lparr>wr_status := st_revoked\<rparr>]\<rparr>"

lemma sample_resolved: "resolve_root sample_machine sample_disk ''/w'' = Inr ''/w''"
  by code_simp

lemma first_added: "ws_run (no_workspaces, []) (one_ws, [])"
proof -
  have "add_check sample_machine sample_disk ''/w'' no_workspaces = (Inr ''/w'', no_workspaces)"
    by (simp add: add_check_def sample_resolved list_workspaces_def operation_def no_workspaces_def)
  then have "ws_step (no_workspaces, []) (no_workspaces, [PutNew 1 (new_row ''ws_1'' ''/w'')])"
    by (rule ws_step.add_started) simp
  moreover have "create_workspace 1 (new_row ''ws_1'' ''/w'') no_workspaces = (None, one_ws)" by code_simp
  then have "ws_step (no_workspaces, [PutNew 1 (new_row ''ws_1'' ''/w'')]) (one_ws, [])"
    using ws_step.add_written [of 1 "new_row ''ws_1'' ''/w''" no_workspaces None one_ws "[PutNew 1 (new_row ''ws_1'' ''/w'')]"] by simp
  ultimately show ?thesis by (meson converse_rtranclp_into_rtranclp rtranclp.rtrancl_refl)
qed

lemma first_revoked: "ws_run (one_ws, []) (gone_ws, [])"
proof -
  have "edit_read (edit_of Revoking) ''ws_1'' one_ws = (Inr (first_ws\<lparr>wr_status := st_revoked\<rparr>), one_ws)" by code_simp
  then have "ws_step (one_ws, []) (one_ws, [PutRow (first_ws\<lparr>wr_status := st_revoked\<rparr>)])" by (rule ws_step.edit_started)
  moreover have "update_workspace (first_ws\<lparr>wr_status := st_revoked\<rparr>) one_ws = (None, gone_ws)" by code_simp
  then have "ws_step (one_ws, [PutRow (first_ws\<lparr>wr_status := st_revoked\<rparr>)]) (gone_ws, [])"
    using ws_step.edit_written [of "first_ws\<lparr>wr_status := st_revoked\<rparr>" one_ws None gone_ws "[PutRow (first_ws\<lparr>wr_status := st_revoked\<rparr>)]"] by simp
  ultimately show ?thesis by (meson converse_rtranclp_into_rtranclp rtranclp.rtrancl_refl)
qed

theorem rows_stay_well_typed_witness: "table_ok (wt_rows gone_ws) \<and> list_all pending_ok []"
  by (rule rows_stay_well_typed [OF rtranclp_trans [OF first_added first_revoked]])

theorem revocation_is_final_witness: "fst (open_workspace sample_machine sample_disk 2 ''ws_1'' gone_ws) \<noteq> Inr sample_ws"
proof -
  have "revoked_for_good ''ws_1'' (gone_ws, [])"
    by (simp add: revoked_for_good_def gone_ws_def one_ws_def row_at_def first_ws_def new_row_def)
  from revocation_is_final [OF rtranclp_trans [OF first_added first_revoked] this rtranclp.rtrancl_refl]
  show ?thesis by blast
qed

text \<open>
  A change of the network setting (a pause does the same) that reads the row before a
  revocation writes it, and writes it back afterwards, undoes the revocation, although that was
  reported as done and the workspace could not be opened any more: the row has the status it
  had before. This holds for every workspace that is not revoked.
\<close>

theorem overlapping_edit_undoes_revocation:
  assumes "wt_faults st = []" and "wt_select st \<noteq> BadState" and "row_at k (wt_rows st) = Some w"
    and "row_ok w" and "wr_status w \<noteq> st_revoked"
  shows "\<exists>rec st1 st2 v. edit_read (set_network allow) k st = (Inr rec, st) \<and> revoke k st = (None, st1)
    \<and> fst (open_workspace m d now k st1) = Inl WsRevoked
    \<and> update_workspace rec st1 = (None, st2) \<and> row_at k (wt_rows st2) = Some v \<and> wr_status v = wr_status w"
proof -
  define rec where "rec = (scan_workspace w)\<lparr>wr_network := if allow then net_allow else net_deny\<rparr>"
  define gone where "gone = (scan_workspace w)\<lparr>wr_status := st_revoked\<rparr>"
  define put where "put r = map (\<lambda>w. if wr_id w = k then r\<lparr>sw_created := sw_created w\<rparr> else w)" for r :: stored_ws
  have k: "wr_id w = k" using row_atD [OF assms(3)] by simp
  have ids: "wr_id rec = k" "wr_id gone = k" by (simp_all add: rec_def gone_def k scan_workspace_def)
  have ok: "validate_row rec = None" "validate_row gone = None"
    using assms(4) clean_abs_not_Nil
    by (auto simp: rec_def gone_def validate_row_def row_ok_def scan_workspace_def network_of_def)
  have net: "network_of (wr_network rec) = wr_network rec" "network_of (wr_network gone) = wr_network gone"
    by (simp_all add: rec_def gone_def scan_workspace_def network_of_def)
  have same: "r\<lparr>sw_created := c, wr_network := wr_network r\<rparr> = r\<lparr>sw_created := c\<rparr>" for r :: stored_ws and c by simp
  have upd: "update_workspace r s = (None, s\<lparr>wt_rows := put r (wt_rows s)\<rparr>)"
    if "validate_row r = None" "wr_id r = k" "network_of (wr_network r) = wr_network r" "wt_faults s = []" "row_at k (wt_rows s) \<noteq> None" for r s
    using that by (simp add: update_workspace_def change_row_def operation_def put_def)
  have row: "row_at k (put r rows) = map_option (\<lambda>w. r\<lparr>sw_created := sw_created w\<rparr>) (row_at k rows)" if "wr_id r = k" for r rows
    using that by (induction rows) (auto simp: put_def row_at_def)
  have get: "get_workspace k st = (Inr (scan_workspace w), st)" using assms by (simp add: get_workspace_def operation_def)
  define st0 where "st0 = st\<lparr>wt_rows := put gone (wt_rows st)\<rparr>"
  have "edit_row set_revoked_status k st = (None, st0)"
    using upd [OF ok(2) ids(2) net(2) assms(1)] assms(3)
    by (simp add: edit_row_def edit_read_def get set_revoked_status_def gone_def [symmetric] st0_def)
  then have rev: "revoke k st = clear_selection k st0" by (simp add: revoke_def)
  have f0: "wt_faults st0 = []" "wt_select st0 = wt_select st" using assms(1) by (simp_all add: st0_def)
  obtain sel where st1: "clear_selection k st0 = (None, st0\<lparr>wt_select := sel\<rparr>)"
  proof (cases "wt_select st")
    case (Selected j)
    then show ?thesis using that [of "Selected []"] that [of "Selected j"] f0
      by (cases "j = k") (auto simp: clear_selection_def read_state_def write_state_def operation_def)
  next
    case NoState
    then show ?thesis using that [of "Selected []"] that [of NoState] f0
      by (cases "k = []") (auto simp: clear_selection_def read_state_def write_state_def operation_def)
  qed (use assms(2) in simp)
  define st1 where "st1 = st0\<lparr>wt_select := sel\<rparr>"
  have r1: "row_at k (wt_rows st1) = Some (gone\<lparr>sw_created := sw_created w\<rparr>)" "wt_faults st1 = []"
    using row [OF ids(2), of "wt_rows st"] assms(3) f0 by (simp_all add: st1_def st0_def)
  have "fst (open_workspace m d now k st1) = Inl WsRevoked"
    using r1 by (simp add: open_workspace_def get_workspace_def operation_def scan_workspace_def gone_def)
  moreover have "edit_read (set_network allow) k st = (Inr rec, st)"
    using assms(5) by (simp add: edit_read_def get set_network_def rec_def scan_workspace_def)
  moreover have "update_workspace rec st1 = (None, st1\<lparr>wt_rows := put rec (wt_rows st1)\<rparr>)"
    using upd [OF ok(1) ids(1) net(1) r1(2)] r1(1) by simp
  moreover have "row_at k (put rec (wt_rows st1)) = Some (rec\<lparr>sw_created := sw_created w\<rparr>)"
    using row [OF ids(1), of "wt_rows st1"] r1(1) by simp
  moreover have "wr_status rec = wr_status w" by (simp add: rec_def scan_workspace_def)
  ultimately show ?thesis using rev st1 unfolding st1_def by (intro exI conjI) (assumption | simp)+
qed

theorem overlapping_edit_undoes_revocation_witness:
  "\<exists>rec st1 st2 v. edit_read (set_network False) ''ws_1'' one_ws = (Inr rec, one_ws) \<and> revoke ''ws_1'' one_ws = (None, st1)
    \<and> fst (open_workspace sample_machine sample_disk 2 ''ws_1'' st1) = Inl WsRevoked
    \<and> update_workspace rec st1 = (None, st2) \<and> row_at ''ws_1'' (wt_rows st2) = Some v \<and> wr_status v = st_active"
proof -
  have "row_ok first_ws" using ws_run_ok [OF first_added] by (simp add: no_workspaces_def one_ws_def table_ok_def)
  then have "\<exists>rec st1 st2 v. edit_read (set_network False) ''ws_1'' one_ws = (Inr rec, one_ws) \<and> revoke ''ws_1'' one_ws = (None, st1)
    \<and> fst (open_workspace sample_machine sample_disk 2 ''ws_1'' st1) = Inl WsRevoked
    \<and> update_workspace rec st1 = (None, st2) \<and> row_at ''ws_1'' (wt_rows st2) = Some v \<and> wr_status v = wr_status first_ws"
    by (intro overlapping_edit_undoes_revocation) (simp_all add: one_ws_def row_at_def first_ws_def new_row_def)
  then show ?thesis by (simp add: first_ws_def new_row_def)
qed

section \<open>Calls one after the other\<close>

datatype ws_call =
    CallAdd machine disk string time string
  | CallEdit edit_kind string
  | CallRevoke string
  | CallOpen machine disk time string
  | CallSelect time string
  | CallFaults "string option list"

fun ws_do :: "ws_call \<Rightarrow> ws_state \<Rightarrow> ws_state" where
  "ws_do (CallAdd m d k now root) st = (if k = [] then st else snd (add_workspace m d k now root st))"
| "ws_do (CallEdit e k) st = snd (edit_row (edit_of e) k st)"
| "ws_do (CallRevoke k) st = snd (revoke k st)"
| "ws_do (CallOpen m d now k) st = snd (open_workspace m d now k st)"
| "ws_do (CallSelect now k) st = snd (set_current now k st)"
| "ws_do (CallFaults fs) st = st\<lparr>wt_faults := fs\<rparr>"

text \<open>The roots of the rows that are not revoked.\<close>

definition live_roots :: "stored_ws list \<Rightarrow> string list" where
  "live_roots rows = map wr_root (filter (\<lambda>w. wr_status w \<noteq> st_revoked) rows)"

definition roots_ok :: "stored_ws list \<Rightarrow> bool" where
  "roots_ok rows \<longleftrightarrow> distinct (live_roots rows) \<and> table_ok rows"

lemma live_roots_map:
  assumes "\<And>w. w \<in> set rows \<Longrightarrow> wr_root (f w) = wr_root w \<and> (wr_status w = st_revoked \<longrightarrow> wr_status (f w) = st_revoked)"
    and "distinct (live_roots rows)"
  shows "distinct (live_roots (map f rows)) \<and> set (live_roots (map f rows)) \<subseteq> set (live_roots rows)"
  using assms
proof (induction rows)
  case (Cons w rows)
  have IH: "distinct (live_roots (map f rows)) \<and> set (live_roots (map f rows)) \<subseteq> set (live_roots rows)"
    by (rule Cons.IH) (use Cons.prems in \<open>auto simp: live_roots_def split: if_splits\<close>)
  have w: "wr_root (f w) = wr_root w" "wr_status w = st_revoked \<Longrightarrow> wr_status (f w) = st_revoked"
    using Cons.prems(1) [of w] by auto
  have cons: "live_roots (v # vs) = (if wr_status v = st_revoked then live_roots vs else wr_root v # live_roots vs)" for v vs
    by (simp add: live_roots_def)
  show ?case using IH w Cons.prems(2) by (auto simp: cons split: if_splits)
qed (simp add: live_roots_def)

lemma edit_row_roots:
  assumes "edit_row (edit_of e) k st = (r, st')" and "roots_ok (wt_rows st)"
  shows "roots_ok (wt_rows st')"
proof -
  obtain q st1 where read: "edit_read (edit_of e) k st = (q, st1)" by (cases "edit_read (edit_of e) k st")
  note rows = edit_read_rows [OF read]
  show ?thesis
  proof (cases q)
    case (Inl err)
    then show ?thesis using assms rows read by (simp add: edit_row_def)
  next
    case (Inr rec)
    then obtain w where w: "row_at k (wt_rows st) = Some w" "edit_of e (scan_workspace w) = Inr rec"
      using rows by blast
    have wok: "row_ok w" using row_atD [OF w(1)] assms(2) by (auto simp: roots_ok_def table_ok_def list_all_iff)
    note kept = edit_keeps_row [OF w(2) wok]
    have upd: "update_workspace rec st1 = (r, st')" using assms(1) read Inr by (simp add: edit_row_def)
    have "table_ok (wt_rows st')" using update_ok [OF upd] kept assms(2) rows by (simp add: roots_ok_def)
    moreover have "distinct (live_roots (wt_rows st'))"
    proof -
      let ?f = "\<lambda>w. if wr_id w = wr_id rec
          then rec\<lparr>sw_created := sw_created w, wr_network := network_of (wr_network rec)\<rparr> else w"
      have "v = w" if "v \<in> set (wt_rows st)" "wr_id v = wr_id rec" for v
        using that row_atD [OF w(1)] kept assms(2) by (auto simp: roots_ok_def table_ok_def distinct_map inj_on_def)
      then have "distinct (live_roots (map ?f (wt_rows st)))"
        using kept assms(2) by (intro live_roots_map [THEN conjunct1]) (auto simp: roots_ok_def)
      then show ?thesis using update_workspace_rows [OF upd] rows assms(2) by (auto simp: roots_ok_def split: if_splits)
    qed
    ultimately show ?thesis by (simp add: roots_ok_def)
  qed
qed

lemma touch_roots:
  assumes "touch_workspace k now st = (r, st')" and "roots_ok (wt_rows st)"
  shows "roots_ok (wt_rows st')"
proof -
  have "distinct (live_roots (map (\<lambda>w. if wr_id w = k then w\<lparr>sw_last_used := now\<rparr> else w) (wt_rows st)))"
    using assms(2) by (intro live_roots_map [THEN conjunct1]) (auto simp: roots_ok_def)
  then show ?thesis
    using change_row_rows [OF assms(1) [unfolded touch_workspace_def]] touch_ok [OF assms(1)] assms(2)
    by (auto simp: roots_ok_def split: if_splits)
qed

lemma add_roots:
  assumes "add_workspace m d k now root st = (r, st')" and "roots_ok (wt_rows st)" and "k \<noteq> []"
  shows "roots_ok (wt_rows st')"
proof -
  obtain q st1 where chk: "add_check m d root st = (q, st1)" by (cases "add_check m d root st")
  note rows = add_check_rows [OF chk]
  show ?thesis
  proof (cases q)
    case (Inl err)
    then show ?thesis using assms rows chk by (simp add: add_workspace_def)
  next
    case (Inr real)
    obtain r1 where new: "create_workspace now (new_row k real) st1 = (r1, st')"
      using assms(1) chk Inr by (auto simp: add_workspace_def split: prod.splits option.splits)
    have "real \<notin> set (live_roots (wt_rows st))" using rows Inr by (auto simp: live_roots_def)
    then have "distinct (live_roots (wt_rows st'))"
      using create_workspace_rows [OF new] rows assms(2) by (auto simp: roots_ok_def live_roots_def new_row_def)
    moreover have "table_ok (wt_rows st')"
      using create_ok [OF new] rows assms(2) add_started_ok [OF chk [unfolded Inr] assms(3)] by (simp add: roots_ok_def)
    ultimately show ?thesis by (simp add: roots_ok_def)
  qed
qed

lemma selection_rows:
  "read_state st = (r, st') \<Longrightarrow> wt_rows st' = wt_rows st"
  "clear_selection k st = (q, st') \<Longrightarrow> wt_rows st' = wt_rows st"
proof -
  have read: "wt_rows st' = wt_rows st" if "read_state st = (r, st')" for r st st'
    using that by (auto simp: read_state_def dest: operation_rows split: prod.splits option.splits state_file.splits)
  show "read_state st = (r, st') \<Longrightarrow> wt_rows st' = wt_rows st" by (rule read)
  show "clear_selection k st = (q, st') \<Longrightarrow> wt_rows st' = wt_rows st"
    using read [of st] by (auto simp: clear_selection_def dest!: write_state_rows split: prod.splits sum.splits if_splits)
qed

lemma ws_do_roots:
  assumes "roots_ok (wt_rows st)"
  shows "roots_ok (wt_rows (ws_do c st))"
proof (cases c)
  case (CallAdd m d k now root)
  then show ?thesis using assms add_roots by (cases "add_workspace m d k now root st") auto
next
  case (CallEdit e k)
  then show ?thesis using assms edit_row_roots by (cases "edit_row (edit_of e) k st") auto
next
  case (CallRevoke k)
  obtain r st1 where e: "edit_row (edit_of Revoking) k st = (r, st1)" by (cases "edit_row (edit_of Revoking) k st")
  then have "roots_ok (wt_rows st1)" using assms by (rule edit_row_roots)
  moreover have "wt_rows (snd (clear_selection k st1)) = wt_rows st1"
    by (cases "clear_selection k st1") (simp add: selection_rows(2))
  ultimately show ?thesis using CallRevoke e by (simp add: revoke_def split: option.splits)
next
  case (CallOpen m d now k)
  obtain r st1 where g: "get_workspace k st = (r, st1)" by (cases "get_workspace k st")
  obtain q st2 where t: "touch_workspace k now st1 = (q, st2)" by (cases "touch_workspace k now st1")
  have "roots_ok (wt_rows st1)" using get_workspace_rows [OF g] assms by simp
  moreover from this have "roots_ok (wt_rows st2)" by (rule touch_roots [OF t])
  ultimately show ?thesis using CallOpen g t by (simp add: open_workspace_def split: sum.split option.split)
next
  case (CallSelect now k)
  obtain r st1 where g: "get_workspace k st = (r, st1)" by (cases "get_workspace k st")
  obtain q st2 where t: "touch_workspace k now st1 = (q, st2)" by (cases "touch_workspace k now st1")
  obtain p st3 where s: "write_state k st2 = (p, st3)" by (cases "write_state k st2")
  have "roots_ok (wt_rows st1)" using get_workspace_rows [OF g] assms by simp
  moreover from this have "roots_ok (wt_rows st2)" by (rule touch_roots [OF t])
  moreover from this have "roots_ok (wt_rows st3)" using write_state_rows [OF s] by simp
  ultimately show ?thesis using CallSelect g t s by (simp add: set_current_def split: sum.split option.split)
qed (use assms in simp)

text \<open>
  When the calls come one after the other, whatever fails in between, no two rows that are
  not revoked have the same root. Two calls of \<open>Add\<close> that both look before either inserts
  register the directory twice.
\<close>

theorem one_live_row_per_root:
  "distinct (live_roots (wt_rows (fold ws_do calls no_workspaces)))
   \<and> (\<exists>st. ws_run (no_workspaces, []) (st, []) \<and> live_roots (wt_rows st) = [''/w'', ''/w''])"
proof
  have "roots_ok (wt_rows (fold ws_do calls st))" if "roots_ok (wt_rows st)" for st
    using that by (induction calls arbitrary: st) (simp_all add: ws_do_roots)
  then show "distinct (live_roots (wt_rows (fold ws_do calls no_workspaces)))"
    by (simp add: roots_ok_def no_workspaces_def live_roots_def table_ok_def)
next
  let ?one = "PutNew 1 (new_row ''ws_1'' ''/w'')" and ?two = "PutNew 1 (new_row ''ws_2'' ''/w'')"
  define both where "both = one_ws\<lparr>wt_rows := [first_ws, first_ws\<lparr>wr_id := ''ws_2''\<rparr>]\<rparr>"
  have look: "add_check sample_machine sample_disk ''/w'' no_workspaces = (Inr ''/w'', no_workspaces)"
    by (simp add: add_check_def sample_resolved list_workspaces_def operation_def no_workspaces_def)
  have "ws_step (no_workspaces, []) (no_workspaces, [?one])" by (rule ws_step.add_started [OF look]) simp
  moreover have "ws_step (no_workspaces, [?one]) (no_workspaces, [?two, ?one])" by (rule ws_step.add_started [OF look]) simp
  moreover have "create_workspace 1 (new_row ''ws_1'' ''/w'') no_workspaces = (None, one_ws)" by code_simp
  then have "ws_step (no_workspaces, [?two, ?one]) (one_ws, [?two])"
    using ws_step.add_written [of 1 "new_row ''ws_1'' ''/w''" no_workspaces None one_ws "[?two, ?one]"] by (simp add: new_row_def)
  moreover have "create_workspace 1 (new_row ''ws_2'' ''/w'') one_ws = (None, both)" unfolding both_def by code_simp
  then have "ws_step (one_ws, [?two]) (both, [])"
    using ws_step.add_written [of 1 "new_row ''ws_2'' ''/w''" one_ws None both "[?two]"] by simp
  ultimately have "ws_run (no_workspaces, []) (both, [])" by (meson converse_rtranclp_into_rtranclp rtranclp.rtrancl_refl)
  moreover have "live_roots (wt_rows both) = [''/w'', ''/w'']" unfolding both_def by code_simp
  ultimately show "\<exists>st. ws_run (no_workspaces, []) (st, []) \<and> live_roots (wt_rows st) = [''/w'', ''/w'']" by blast
qed

end
