(* ===== verification/WriteTools.thy ===== *)
theory WriteTools
  imports RunCommand GatedWrites TxnRollback Workspaces TextForm Patch RouteRule
begin

text \<open>
  The write tools of \<^verbatim>\<open>mcpserver/write.go\<close> and \<^verbatim>\<open>edit.go\<close>, with the opening of a workspace in
  \<^verbatim>\<open>tools.go\<close> and \<open>changeStep\<close> of \<^verbatim>\<open>next.go\<close>: they read the target, compute the new content and
  hand a change set to the transaction engine. The state is the engine's and the manager's.
  Other programs may change the disk between the reading of the target and the call of the
  engine (\<open>ts_meanwhile\<close>).
\<close>

section \<open>The toolset\<close>

record toolset =
  ts_engine :: "engine option"
  ts_unicode :: unicode
  ts_codecs :: codecs
  ts_sha :: "string \<Rightarrow> string"
  ts_rules :: "route_rule list option option"
    \<comment> \<open>\<open>None\<close> without a rule source, \<open>Some None\<close> when the rules cannot be loaded\<close>
  ts_provider :: string
  ts_machine :: machine
  ts_now :: time
  ts_meanwhile :: "disk \<Rightarrow> disk"

type_synonym tool_state = "engine_state \<times> ws_state"

datatype tool_error =
    NoWorkspaceSelected
  | UnknownWorkspace string
  | OpenFailed ws_error
  | NoEngine
  | EngineFailed txn_error
  | RollbackFailed rollback_error
  | NoEdits
  | PathFailed path_error
  | ReadFailed string os_error
  | NotText string
  | EditDoesNotApply string nat string edit_error
  | PatchDoesNotApply string patch_error
  | EncodeFailed encode_error
  | ActionRequires string string
  | UnknownAction string

text \<open>The workspace a call names, or the current one.\<close>

definition named_workspace :: "string \<Rightarrow> ws_state \<Rightarrow> string option \<times> ws_state" where
  "named_workspace k st0 =
     (if k \<noteq> [] then (Some k, st0)
      else (case current_workspace st0 of
          (Inl e, st) \<Rightarrow> (None, st)
        | (Inr rec, st) \<Rightarrow> (Some (wr_id rec), st)))"

definition open_tool :: "toolset \<Rightarrow> string \<Rightarrow> tool_state \<Rightarrow> (tool_error + workspace) \<times> tool_state" where
  "open_tool T k s0 =
     (case s0 of (es, st0) \<Rightarrow>
        (case named_workspace k st0 of
           (None, st) \<Rightarrow> (Inl NoWorkspaceSelected, es, st)
         | (Some j, st) \<Rightarrow>
            (case open_workspace (ts_machine T) (es_disk es) (ts_now T) j st of
               (Inl e, st') \<Rightarrow> (Inl (if e = WsNotFound then UnknownWorkspace j else OpenFailed e), es, st')
             | (Inr w, st') \<Rightarrow> (Inr w, es, st'))))"

section \<open>Results\<close>

definition change_step :: "txn_result \<Rightarrow> next_step option" where
  "change_step res =
     (case rs_status res of
        Applied \<Rightarrow> None
      | Pended \<Rightarrow> Some NextAskUser
      | Denied \<Rightarrow> Some NextStop
      | Failed \<Rightarrow> Some NextReobserve
      | Conflicted \<Rightarrow>
          (case rs_conflict res of
             Some c \<Rightarrow> if cf_reason c = ''base_hash_mismatch'' then Some NextReconcile else Some NextFixInput
           | None \<Rightarrow> Some NextFixInput)
      | RolledBack \<Rightarrow> None)"

text \<open>The sentences of \<open>failedAction\<close>, by what they name. Every effect of the model is a valid one.\<close>

datatype failed_text =
    FailedFallback
  | NothingLeftBehind
  | LeftChanged "string list"
  | Undetermined "string list"
  | ChangedAndUndetermined "string list" "string list"

definition failed_action :: "(string \<times> effect) list \<Rightarrow> failed_text" where
  "failed_action effects =
     (if effects = [] then FailedFallback
      else (let unknown = map fst (filter (\<lambda>e. snd e = OutcomeUnknown) effects);
                changed = map fst (filter (\<lambda>e. snd e = StateChanged) effects) in
        if unknown = [] \<and> changed = [] then NothingLeftBehind
        else if unknown = [] then LeftChanged changed
        else if changed = [] then Undetermined unknown
        else ChangedAndUndetermined changed unknown))"

datatype change_action = NoAction | AskAgain | ConflictAction conflict | FailedAction failed_text

record change_output =
  ch_result :: txn_result
  ch_action :: change_action
  ch_next :: "next_step option"

definition to_change_output :: "txn_result \<Rightarrow> change_output" where
  "to_change_output res =
     \<lparr>ch_result = res,
      ch_action = (case rs_status res of
          Pended \<Rightarrow> AskAgain
        | Conflicted \<Rightarrow> (case rs_conflict res of Some c \<Rightarrow> ConflictAction c | None \<Rightarrow> NoAction)
        | Failed \<Rightarrow> FailedAction (failed_action (rs_effects res))
        | _ \<Rightarrow> NoAction),
      ch_next = change_step res\<rparr>"

text \<open>A rollback has its own result; the answer carries it as it is.\<close>

datatype tool_answer = Changed change_output | RolledBackAs rollback_result

section \<open>The funnel\<close>

definition rule_target :: "operation \<Rightarrow> string" where
  "rule_target op = (if op_kind op = Move then op_to op else op_path op)"

definition must_ask :: "toolset \<Rightarrow> operation list \<Rightarrow> bool" where
  "must_ask T ops =
     (case ts_rules T of
        None \<Rightarrow> False
      | Some None \<Rightarrow> False
      | Some (Some rules) \<Rightarrow>
          list_ex (\<lambda>op. ro_ask (apply_rules (ts_unicode T) rules (ts_provider T) (rule_target op))) ops)"

definition tool_request :: "toolset \<Rightarrow> string \<Rightarrow> operation list \<Rightarrow> txn_request" where
  "tool_request T cid ops = \<lparr>rq_id = cid, rq_provider = ts_provider T, rq_operations = ops, rq_must_ask = must_ask T ops\<rparr>"

definition execute_tool :: "toolset \<Rightarrow> string \<Rightarrow> string \<Rightarrow> operation list \<Rightarrow> tool_state \<Rightarrow> (tool_error + tool_answer) \<times> tool_state" where
  "execute_tool T k cid ops s0 =
     (case ts_engine T of
        None \<Rightarrow> (Inl NoEngine, s0)
      | Some en \<Rightarrow>
         (case open_tool T k s0 of
            (Inl e, s) \<Rightarrow> (Inl e, s)
          | (Inr w, es, st) \<Rightarrow>
             (case execute en w (tool_request T cid ops) es of
                (Inl e, es') \<Rightarrow> (Inl (EngineFailed e), es', st)
              | (Inr res, es') \<Rightarrow> (Inr (Changed (to_change_output res)), es', st))))"

definition blank_operation_of :: "op_type \<Rightarrow> operation" where
  "blank_operation_of t = \<lparr>op_kind = t, op_path = [], op_from = [], op_to = [], op_content = [], op_expected = [], op_recursive = False\<rparr>"

section \<open>change_manage\<close>

record manage_input =
  mi_action :: string
  mi_workspace :: string
  mi_from :: string
  mi_to :: string
  mi_path :: string
  mi_recursive :: bool
  mi_expected :: string
  mi_operations :: "operation list"
  mi_change_set :: string

definition change_manage :: "toolset \<Rightarrow> manage_input \<Rightarrow> tool_state \<Rightarrow> (tool_error + tool_answer) \<times> tool_state" where
  "change_manage T i s0 =
     (if mi_action i = ''move'' then
        (if mi_from i = [] \<or> mi_to i = [] then (Inl (ActionRequires ''move'' ''from and to''), s0)
         else execute_tool T (mi_workspace i) (mi_change_set i)
           [(blank_operation_of Move)\<lparr>op_from := mi_from i, op_to := mi_to i, op_expected := mi_expected i\<rparr>] s0)
      else if mi_action i = ''delete'' then
        (if mi_path i = [] then (Inl (ActionRequires ''delete'' ''path''), s0)
         else execute_tool T (mi_workspace i) (mi_change_set i)
           [(blank_operation_of Delete)\<lparr>op_path := mi_path i, op_recursive := mi_recursive i, op_expected := mi_expected i\<rparr>] s0)
      else if mi_action i = ''rollback'' then
        (case ts_engine T of
           None \<Rightarrow> (Inl NoEngine, s0)
         | Some en \<Rightarrow>
             if mi_change_set i = [] then (Inl (ActionRequires ''rollback'' ''change_set_id''), s0)
             else (case open_tool T (mi_workspace i) s0 of
                 (Inl e, s) \<Rightarrow> (Inl e, s)
               | (Inr w, es, st) \<Rightarrow>
                  (case rollback en (ts_now T) w (mi_change_set i) es of
                     (Inl e, es') \<Rightarrow> (Inl (RollbackFailed e), es', st)
                   | (Inr res, es') \<Rightarrow> (Inr (RolledBackAs res), es', st))))
      else if mi_action i = ''apply_change_set'' then
        (if mi_operations i = [] then (Inl (ActionRequires ''apply_change_set'' ''operations''), s0)
         else execute_tool T (mi_workspace i) (mi_change_set i) (mi_operations i) s0)
      else (Inl (UnknownAction (mi_action i)), s0))"

section \<open>write_file, apply_patch, edit_file\<close>

record file_input =
  fi_workspace :: string
  fi_path :: string
  fi_expected :: string
  fi_change_set :: string

definition match_target_convention :: "toolset \<Rightarrow> file_input \<Rightarrow> string \<Rightarrow> tool_state \<Rightarrow> string \<times> tool_state" where
  "match_target_convention T i content s0 =
     (case open_tool T (fi_workspace i) s0 of
        (Inl e, s) \<Rightarrow> (content, s)
      | (Inr w, es, st) \<Rightarrow>
         (case ws_resolve (ts_unicode T) (es_disk es) w (fi_path i) OpWrite of
            Inl e \<Rightarrow> (content, es, st)
          | Inr (full, canon) \<Rightarrow>
             (case read_file (es_disk es) (segs full) of
                Inl e \<Rightarrow> (content, es, st)
              | Inr bytes \<Rightarrow>
                 (case decode_text_file (ts_codecs T) bytes of
                    None \<Rightarrow> (content, es, st)
                  | Some (t, prof) \<Rightarrow>
                     (case encode_text (ts_codecs T) prof (normalize_input prof content) of
                        Inl e \<Rightarrow> (content, es, st)
                      | Inr out \<Rightarrow> (out, es, st))))))"

definition meanwhile :: "toolset \<Rightarrow> tool_state \<Rightarrow> tool_state" where
  "meanwhile T s = (case s of (es, st) \<Rightarrow> (es\<lparr>es_disk := ts_meanwhile T (es_disk es)\<rparr>, st))"

definition write_file :: "toolset \<Rightarrow> file_input \<Rightarrow> string \<Rightarrow> tool_state \<Rightarrow> (tool_error + tool_answer) \<times> tool_state" where
  "write_file T i content s0 =
     (if fi_expected i = [] then
        execute_tool T (fi_workspace i) (fi_change_set i)
          [(blank_operation_of Create)\<lparr>op_path := fi_path i, op_content := content\<rparr>] s0
      else (case match_target_convention T i content s0 of
          (out, s) \<Rightarrow> execute_tool T (fi_workspace i) (fi_change_set i)
            [(blank_operation_of Update)\<lparr>op_path := fi_path i, op_content := out, op_expected := fi_expected i\<rparr>]
            (meanwhile T s)))"

text \<open>\<open>loadPatchBase\<close>: the bytes of the target, a conflict, or an error.\<close>

definition load_patch_base :: "toolset \<Rightarrow> disk \<Rightarrow> string \<Rightarrow> string \<Rightarrow> string \<Rightarrow> tool_error + (conflict + string)" where
  "load_patch_base T d full canon expected =
     (if expected = [] then Inr (Inl \<lparr>cf_path = canon, cf_reason = ''expected_sha256_missing'', cf_current = []\<rparr>)
      else (case read_file d (segs full) of
          Inl ENOENT \<Rightarrow> Inr (Inl \<lparr>cf_path = canon, cf_reason = ''target_missing'', cf_current = []\<rparr>)
        | Inl e \<Rightarrow> Inl (ReadFailed canon e)
        | Inr bytes \<Rightarrow>
            if \<not> equal_fold (ts_unicode T) expected (ts_sha T bytes)
            then Inr (Inl \<lparr>cf_path = canon, cf_reason = ''base_hash_mismatch'', cf_current = ts_sha T bytes\<rparr>)
            else Inr (Inr bytes)))"

text \<open>
  What \<open>applyPatch\<close> and \<open>editFile\<close> share: open, resolve, read the base, compute the new
  bytes, and submit them as one update. \<open>compute\<close> is given the canonical path and the bytes.
\<close>

definition change_file ::
  "toolset \<Rightarrow> file_input \<Rightarrow> (string \<Rightarrow> string \<Rightarrow> tool_error + string) \<Rightarrow> tool_state \<Rightarrow> (tool_error + tool_answer) \<times> tool_state" where
  "change_file T i compute s0 =
     (case open_tool T (fi_workspace i) s0 of
        (Inl e, s) \<Rightarrow> (Inl e, s)
      | (Inr w, es, st) \<Rightarrow>
         (case ws_resolve (ts_unicode T) (es_disk es) w (fi_path i) OpWrite of
            Inl e \<Rightarrow> (Inl (PathFailed e), es, st)
          | Inr (full, canon) \<Rightarrow>
             (case load_patch_base T (es_disk es) full canon (fi_expected i) of
                Inl e \<Rightarrow> (Inl e, es, st)
              | Inr (Inl c) \<Rightarrow>
                  (Inr (Changed (to_change_output ((plain_result Conflicted [])\<lparr>rs_conflict := Some c\<rparr>))), es, st)
              | Inr (Inr old) \<Rightarrow>
                 (case compute canon old of
                    Inl e \<Rightarrow> (Inl e, es, st)
                  | Inr encoded \<Rightarrow>
                      execute_tool T (fi_workspace i) (fi_change_set i)
                        [(blank_operation_of Update)\<lparr>op_path := fi_path i, op_content := encoded, op_expected := fi_expected i\<rparr>]
                        (meanwhile T (es, st))))))"

definition patched_bytes :: "toolset \<Rightarrow> string \<Rightarrow> string \<Rightarrow> string \<Rightarrow> tool_error + string" where
  "patched_bytes T patch canon old =
     (case decode_text_file (ts_codecs T) old of
        None \<Rightarrow> Inl (NotText canon)
      | Some (t, prof) \<Rightarrow>
         (case apply_unified (normalize_input prof patch) t of
            Inl e \<Rightarrow> Inl (PatchDoesNotApply canon e)
          | Inr patched \<Rightarrow>
             (case encode_text (ts_codecs T) prof patched of Inl e \<Rightarrow> Inl (EncodeFailed e) | Inr out \<Rightarrow> Inr out)))"

definition apply_patch :: "toolset \<Rightarrow> file_input \<Rightarrow> string \<Rightarrow> tool_state \<Rightarrow> (tool_error + tool_answer) \<times> tool_state" where
  "apply_patch T i patch s = change_file T i (patched_bytes T patch) s"

definition edited_content :: "toolset \<Rightarrow> edit_op list \<Rightarrow> string \<Rightarrow> string \<Rightarrow> tool_error + string" where
  "edited_content T edits canon old =
     (case edited_bytes (ts_codecs T) old edits of
        Inl NotEditable \<Rightarrow> Inl (NotText canon)
      | Inl (EditFailed n ty e) \<Rightarrow> Inl (EditDoesNotApply canon n ty e)
      | Inl (EditEncode e) \<Rightarrow> Inl (EncodeFailed e)
      | Inr out \<Rightarrow> Inr out)"

definition edit_file :: "toolset \<Rightarrow> file_input \<Rightarrow> edit_op list \<Rightarrow> tool_state \<Rightarrow> (tool_error + tool_answer) \<times> tool_state" where
  "edit_file T i edits s =
     (if edits = [] then (Inl NoEdits, s) else change_file T i (edited_content T edits) s)"

section \<open>Opening\<close>

lemma open_tool_keeps: "open_tool T k (es, st) = (r, s') \<Longrightarrow> fst s' = es"
  by (auto simp: open_tool_def split: prod.splits sum.splits option.splits)

text \<open>The identifiers and statuses of the rows, which opening a workspace does not change.\<close>

definition statuses :: "ws_state \<Rightarrow> (string \<times> string) list" where
  "statuses st = map (\<lambda>w. (wr_id w, wr_status w)) (wt_rows st)"

lemma statuses_row: "row_at k (wt_rows st) = Some w \<Longrightarrow> map_of (statuses st) k = Some (wr_status w)"
proof -
  have "row_at k rows = Some w \<Longrightarrow> map_of (map (\<lambda>w. (wr_id w, wr_status w)) rows) k = Some (wr_status w)" for rows
    by (induction rows) (auto simp: row_at_def split: if_splits)
  then show "row_at k (wt_rows st) = Some w \<Longrightarrow> ?thesis" by (simp add: statuses_def)
qed

lemma statuses_rows: "wt_rows st' = wt_rows st \<Longrightarrow> statuses st' = statuses st"
  by (simp add: statuses_def)

lemma get_statuses: "statuses (snd (get_workspace k st)) = statuses st"
  using get_workspace_rows [of k st] by (cases "get_workspace k st") (simp add: statuses_def)

lemma touch_statuses: "statuses (snd (touch_workspace k now st)) = statuses st"
  using change_row_rows [of k "\<lambda>r. r\<lparr>sw_last_used := now\<rparr>" st]
  by (cases "touch_workspace k now st") (auto simp: touch_workspace_def statuses_def)

lemma open_statuses: "statuses (snd (open_workspace m d now k st)) = statuses st"
proof -
  obtain r st1 where g: "get_workspace k st = (r, st1)" by (cases "get_workspace k st")
  obtain q st2 where t: "touch_workspace k now st1 = (q, st2)" by (cases "touch_workspace k now st1")
  show ?thesis using get_statuses [of k st] touch_statuses [of k now st1] g t
    by (simp add: open_workspace_def split: sum.split option.split)
qed

lemma current_statuses: "statuses (snd (current_workspace st)) = statuses st"
proof -
  obtain r st1 where r: "read_state st = (r, st1)" by (cases "read_state st")
  then have st1: "statuses st1 = statuses st" by (intro statuses_rows selection_rows(1))
  show ?thesis
  proof (cases r)
    case (Inr k)
    obtain v st2 where g: "get_workspace k st1 = (v, st2)" by (cases "get_workspace k st1")
    then have "statuses st2 = statuses st1" using get_statuses [of k st1] by simp
    then show ?thesis using r Inr g st1
      by (cases v) (simp_all add: current_workspace_def split: ws_error.split)
  qed (use r st1 in \<open>simp add: current_workspace_def\<close>)
qed

lemma named_statuses: "statuses (snd (named_workspace k st)) = statuses st"
  using current_statuses [of st] by (auto simp: named_workspace_def split: prod.split sum.split)

lemma open_tool_statuses:
  assumes "open_tool T k (es, st) = (r, es', st')"
  shows "statuses st' = statuses st"
proof -
  obtain q st1 where n: "named_workspace k st = (q, st1)" by (cases "named_workspace k st")
  have "statuses st1 = statuses st" using named_statuses [of k st] n by simp
  moreover have "statuses (snd (open_workspace (ts_machine T) (es_disk es) (ts_now T) j st1)) = statuses st1" for j
    by (rule open_statuses)
  ultimately show ?thesis using assms n
    by (auto simp: open_tool_def split: prod.splits sum.splits option.splits) (metis snd_conv)+
qed

text \<open>A handle that a tool gets belongs to a row that was active when it was read.\<close>

definition usable :: "ws_state \<Rightarrow> string \<Rightarrow> bool" where
  "usable st k \<longleftrightarrow> (\<exists>s. map_of (statuses st) k = Some s \<and> s \<noteq> st_revoked \<and> s \<noteq> st_paused)"

lemma open_usable:
  assumes "open_workspace m d now j st = (Inr w, st')"
  shows "usable st j \<and> ws_id w = j"
proof -
  obtain rec st1 where g: "get_workspace j st = (Inr rec, st1)" "wr_status rec \<noteq> st_revoked" "wr_status rec \<noteq> st_paused"
    and h: "from_record m d (workspace_row.truncate rec) = Inr w"
    using assms by (auto simp: open_workspace_def split: prod.splits sum.splits option.splits if_splits)
  obtain w0 where w0: "row_at j (wt_rows st) = Some w0" "rec = scan_workspace w0"
    using get_workspace_rows [OF g(1)] by auto
  have "ws_id w = j" using h row_atD [OF w0(1)] w0(2)
    by (auto simp: from_record_def workspace_row.truncate_def scan_workspace_def split: sum.splits)
  then show ?thesis using statuses_row [OF w0(1)] w0(2) g(2,3) by (simp add: usable_def scan_workspace_def)
qed

lemma open_tool_usable:
  assumes "open_tool T k (es, st) = (Inr w, s')"
  shows "usable st (ws_id w)"
proof -
  obtain q st1 where n: "named_workspace k st = (q, st1)" by (cases "named_workspace k st")
  have st1: "statuses st1 = statuses st" using named_statuses [of k st] n by simp
  obtain j st2 where o: "open_workspace (ts_machine T) (es_disk es) (ts_now T) j st1 = (Inr w, st2)"
    using assms n by (auto simp: open_tool_def split: prod.splits sum.splits option.splits)
  then show ?thesis using open_usable [OF o] st1 by (simp add: usable_def)
qed

lemma open_tool_named:
  assumes "open_tool T k (es, st) = (Inr w, s')"
  shows "k = [] \<or> ws_id w = k"
proof -
  obtain q st1 where n: "named_workspace k st = (q, st1)" by (cases "named_workspace k st")
  then have q: "k = [] \<or> q = Some k" by (auto simp: named_workspace_def split: if_splits)
  obtain j st2 where "q = Some j" "open_workspace (ts_machine T) (es_disk es) (ts_now T) j st1 = (Inr w, st2)"
    using assms n by (auto simp: open_tool_def split: prod.splits sum.splits option.splits)
  then show ?thesis using q open_usable by auto
qed

section \<open>Every write goes through the engine\<close>

datatype tool_call =
    WriteFile file_input string
  | ApplyPatch file_input string
  | EditFile file_input "edit_op list"
  | ChangeManage manage_input

fun run_tool :: "toolset \<Rightarrow> tool_call \<Rightarrow> tool_state \<Rightarrow> (tool_error + tool_answer) \<times> tool_state" where
  "run_tool T (WriteFile i content) s = write_file T i content s"
| "run_tool T (ApplyPatch i patch) s = apply_patch T i patch s"
| "run_tool T (EditFile i edits) s = edit_file T i edits s"
| "run_tool T (ChangeManage i) s = change_manage T i s"

text \<open>
  What a call of a tool may do to the state of the engine: nothing, one transaction or one
  rollback in a workspace it is given, on the disk found or on what other programs make of it
  after the target was read.
\<close>

inductive engine_effect :: "toolset \<Rightarrow> engine_state \<Rightarrow> workspace option \<Rightarrow> engine_state \<Rightarrow> bool" where
  untouched: "e0 = es \<or> e0 = es\<lparr>es_disk := ts_meanwhile T (es_disk es)\<rparr> \<Longrightarrow> engine_effect T es None e0"
| transaction: "ts_engine T = Some en \<Longrightarrow> e0 = es \<or> e0 = es\<lparr>es_disk := ts_meanwhile T (es_disk es)\<rparr> \<Longrightarrow>
    engine_effect T es (Some w) (snd (execute en w (tool_request T cid ops) e0))"
| taken_back: "ts_engine T = Some en \<Longrightarrow> engine_effect T es (Some w) (snd (rollback en (ts_now T) w cid es))"

definition allowed_effect :: "toolset \<Rightarrow> tool_state \<Rightarrow> engine_state \<Rightarrow> bool" where
  "allowed_effect T s e1 \<longleftrightarrow>
     (\<exists>target. engine_effect T (fst s) target e1
        \<and> (case target of None \<Rightarrow> True | Some w \<Rightarrow> usable (snd s) (ws_id w)))"

lemma execute_tool_effect:
  assumes "execute_tool T k cid ops (e0, st0) = (r, e1, st1)" and "statuses st0 = statuses st"
    and "e0 = es \<or> e0 = es\<lparr>es_disk := ts_meanwhile T (es_disk es)\<rparr>"
  shows "allowed_effect T (es, st) e1"
proof (cases "ts_engine T")
  case (Some en)
  obtain q e st' where o: "open_tool T k (e0, st0) = (q, e, st')" by (cases "open_tool T k (e0, st0)") auto
  then have e: "e = e0" using open_tool_keeps [OF o] by simp
  show ?thesis
  proof (cases q)
    case (Inl err)
    then show ?thesis using assms Some o e engine_effect.untouched [OF assms(3)]
      by (auto simp: execute_tool_def allowed_effect_def intro!: exI [of _ None])
  next
    case (Inr w)
    then have "usable st (ws_id w)" using open_tool_usable [OF o [unfolded Inr]] assms(2) by (simp add: usable_def)
    moreover have "e1 = snd (execute en w (tool_request T cid ops) e0)"
      using assms(1) Some o e Inr by (auto simp: execute_tool_def split: sum.splits prod.splits)
    ultimately show ?thesis using engine_effect.transaction [OF Some assms(3)]
      by (auto simp: allowed_effect_def intro!: exI [of _ "Some w"])
  qed
next
  case None
  then show ?thesis using assms engine_effect.untouched [OF assms(3)]
    by (auto simp: execute_tool_def allowed_effect_def intro!: exI [of _ None])
qed

lemma untouched_effect: "allowed_effect T (es, st) es"
  by (auto simp: allowed_effect_def intro!: exI [of _ None] engine_effect.untouched)

lemma meanwhile_pair: "meanwhile T (es, st) = (es\<lparr>es_disk := ts_meanwhile T (es_disk es)\<rparr>, st)"
  by (simp add: meanwhile_def)

lemma change_file_effect:
  assumes "change_file T i compute (es, st) = (r, e1, st1)"
  shows "allowed_effect T (es, st) e1"
proof -
  obtain q e st' where o: "open_tool T (fi_workspace i) (es, st) = (q, e, st')" by (cases "open_tool T (fi_workspace i) (es, st)") auto
  then have e: "e = es" using open_tool_keeps [OF o] by simp
  have run: "allowed_effect T (es, st) a" if "execute_tool T k cid ops (meanwhile T (es, st')) = (x, a, b)" for k cid ops x a b
    using execute_tool_effect [OF that [unfolded meanwhile_pair]] open_tool_statuses [OF o] by simp
  show ?thesis using assms o e untouched_effect [of T es st]
    by (auto simp: change_file_def split: prod.splits sum.splits intro: run)
qed

lemma write_file_effect:
  assumes "write_file T i content (es, st) = (r, e1, st1)"
  shows "allowed_effect T (es, st) e1"
proof -
  obtain out e st' where m: "match_target_convention T i content (es, st) = (out, e, st')"
    by (cases "match_target_convention T i content (es, st)") auto
  have "e = es \<and> statuses st' = statuses st"
    using m by (auto simp: match_target_convention_def split: prod.splits sum.splits option.splits
        dest: open_tool_keeps open_tool_statuses)
  then show ?thesis using assms m
    by (auto simp: write_file_def meanwhile_pair intro: execute_tool_effect split: if_splits)
qed

lemma change_manage_effect:
  assumes "change_manage T i (es, st) = (r, e1, st1)"
  shows "allowed_effect T (es, st) e1"
proof -
  have run: "allowed_effect T (es, st) a" if "execute_tool T k cid ops (es, st) = (x, a, b)" for k cid ops x a b
    using that by (rule execute_tool_effect) simp_all
  have undone: "allowed_effect T (es, st) (snd (rollback en (ts_now T) w cid es))"
    if "ts_engine T = Some en" "open_tool T k (es, st) = (Inr w, s')" for en w cid k s'
    using engine_effect.taken_back [OF that(1)] open_tool_usable [OF that(2)]
    by (auto simp: allowed_effect_def intro!: exI [of _ "Some w"])
  consider "mi_action i = ''rollback''" | "mi_action i \<noteq> ''rollback''" by blast
  then show ?thesis
  proof cases
    case 1
    obtain q e st' where o: "open_tool T (mi_workspace i) (es, st) = (q, e, st')" by (cases "open_tool T (mi_workspace i) (es, st)") auto
    then have "e = es" using open_tool_keeps [OF o] by simp
    then show ?thesis using assms 1 o undone [of _ "mi_workspace i"] untouched_effect [of T es st]
      by (cases q) (auto simp: change_manage_def split: option.splits if_splits sum.splits prod.splits, (metis snd_conv)+)
  next
    case 2
    then show ?thesis using assms run untouched_effect [of T es st]
      by (auto simp: change_manage_def split: if_splits)
  qed
qed

text \<open>
  Whatever a write tool is called with, the engine's state after it is the one before, or
  the outcome of one transaction or one rollback that the engine ran in a workspace whose row
  was neither paused nor revoked when the call read it; no tool touches the disk by itself.
\<close>

theorem tools_write_by_the_engine_only:
  "allowed_effect T s (fst (snd (run_tool T c s)))"
proof -
  obtain es st where s: "s = (es, st)" by (cases s)
  obtain r e1 st1 where run: "run_tool T c (es, st) = (r, e1, st1)" by (cases "run_tool T c (es, st)") auto
  have "allowed_effect T (es, st) e1"
  proof (cases c)
    case (WriteFile i content)
    then show ?thesis using run write_file_effect by simp
  next
    case (ApplyPatch i patch)
    then show ?thesis using run change_file_effect by (simp add: apply_patch_def)
  next
    case (EditFile i edits)
    then show ?thesis using run change_file_effect untouched_effect by (auto simp: edit_file_def split: if_splits)
  next
    case (ChangeManage i)
    then show ?thesis using run change_manage_effect by simp
  qed
  then show ?thesis using run s by simp
qed

section \<open>A file is changed from what was read\<close>

text \<open>The plan of a single update.\<close>

lemma plan_update_single:
  assumes "call_plan en w rq es = Some ps" and "rq_operations rq = [op]" and "op_kind op = Update"
  shows "\<exists>full canon data m. ws_resolve (en_unicode en) (es_disk es) w (op_path op) OpWrite = Inr (full, canon)
    \<and> read_file (es_disk es) (segs full) = Inr data
    \<and> equal_fold (en_unicode en) (op_expected op) (en_sha en data)
    \<and> ps = [(blank_op op canon (segs full))\<lparr>po_old_data := data, po_old_mode := m, po_before := en_sha en data,
        po_after := en_sha en (op_content op), po_status := Updated,
        po_preview := preview Update canon [] (sensitive (en_unicode en) w canon) False\<rparr>]"
proof -
  obtain p where p: "plan_update en (es_disk es) w op = Inr (Inr p)" "ps = [p]"
    using assms by (auto simp: call_plan_def plan_def plan_op_def map_sum_def Let_def split: sum.splits if_splits)
  then obtain full canon where r: "ws_resolve (en_unicode en) (es_disk es) w (op_path op) OpWrite = Inr (full, canon)"
    by (auto simp: plan_update_def split: sum.splits)
  then obtain data m digest where b: "load_base en (es_disk es) op (segs full) canon = Inr (Inr (data, m, digest))"
    using p(1) by (auto simp: plan_update_def split: sum.splits)
  then have "read_file (es_disk es) (segs full) = Inr data \<and> digest = en_sha en data
      \<and> equal_fold (en_unicode en) (op_expected op) (en_sha en data)"
    by (auto simp: load_base_def Let_def split: sum.splits os_error.splits node.splits if_splits)
  then show ?thesis using p r b by (auto simp: plan_update_def)
qed

lemma verify_update:
  "op_kind op = Update \<Longrightarrow> verify_op en d ((blank_op op canon p)\<lparr>po_old_data := data, po_old_mode := m, po_before := b,
     po_after := a, po_status := s, po_preview := v\<rparr>) \<longleftrightarrow> hash_file (en_sha en) d p = a"
  by (simp add: verify_op_def blank_op_def)

definition freshly_applied :: "tool_error + tool_answer \<Rightarrow> bool" where
  "freshly_applied r =
     (case r of Inr (Changed out) \<Rightarrow> rs_status (ch_result out) = Applied \<and> \<not> rs_replayed (ch_result out) | _ \<Rightarrow> False)"

lemma execute_tool_applied:
  assumes "execute_tool T k cid ops (es, st) = (r, es', st')" and "freshly_applied r" and "ts_engine T = Some en"
  shows "\<exists>w. es' = snd (execute en w (tool_request T cid ops) es) \<and> fresh_applied (execute en w (tool_request T cid ops) es)
    \<and> usable st (ws_id w) \<and> (k = [] \<or> ws_id w = k)"
proof -
  obtain q e st1 where o: "open_tool T k (es, st) = (q, e, st1)" by (cases "open_tool T k (es, st)") auto
  then have e: "e = es" using open_tool_keeps [OF o] by simp
  obtain w where q: "q = Inr w" using assms o by (cases q) (auto simp: execute_tool_def freshly_applied_def)
  obtain x e1 where x: "execute en w (tool_request T cid ops) es = (x, e1)" by (cases "execute en w (tool_request T cid ops) es")
  have "fresh_applied (x, e1) \<and> es' = e1"
    using assms o e q x by (cases x) (auto simp: execute_tool_def freshly_applied_def fresh_applied_def to_change_output_def)
  then show ?thesis using x open_tool_usable [OF o [unfolded q]] open_tool_named [OF o [unfolded q]]
    by (intro exI [of _ w]) simp
qed

text \<open>The change set that \<open>change_file\<close> submits.\<close>

definition update_op :: "file_input \<Rightarrow> string \<Rightarrow> operation" where
  "update_op i content =
     (blank_operation_of Update)\<lparr>op_path := fi_path i, op_content := content, op_expected := fi_expected i\<rparr>"

definition update_request :: "toolset \<Rightarrow> file_input \<Rightarrow> string \<Rightarrow> txn_request" where
  "update_request T i content = tool_request T (fi_change_set i) [update_op i content]"

text \<open>
  C11. When \<open>edit_file\<close> or \<open>apply_patch\<close> is answered as freshly applied: the content was computed
  from bytes that were read under the path and have the expected hash, the file still had these
  bytes when the plan was made, whatever other programs did in between, the approver said yes
  to the one update, and the file ends with the hash of the computed bytes. (\<open>computes\<close> is what
  the tool computes from the bytes; the last hypothesis says that no two contents have the
  expected hash.)
\<close>

theorem edits_apply_to_what_was_read:
  assumes "change_file T i computes (es, st) = (r, es', st')" and "freshly_applied r"
    and "ts_engine T = Some en" and "rows_named es"
    and "\<And>a b. equal_fold (ts_unicode T) (fi_expected i) (ts_sha T a) \<Longrightarrow>
           equal_fold (en_unicode en) (fi_expected i) (en_sha en b) \<Longrightarrow> a = b"
  shows "\<exists>w full canon old name new ps. let es1 = es\<lparr>es_disk := ts_meanwhile T (es_disk es)\<rparr>; rq = update_request T i new in
    usable st (ws_id w) \<and> (fi_workspace i = [] \<or> ws_id w = fi_workspace i)
    \<and> ws_resolve (en_unicode en) (es_disk es1) w (fi_path i) OpWrite = Inr (full, canon)
    \<and> read_file (es_disk es1) (segs full) = Inr old \<and> computes name old = Inr new
    \<and> call_plan en w rq es1 = Some ps \<and> map (\<lambda>p. pv_path (po_preview p)) ps = [canon]
    \<and> says_yes (call_answer en w rq (call_id en rq) ps es1)
    \<and> hash_file (en_sha en) (es_disk es') (segs full) = en_sha en new"
proof -
  obtain q e st1 where o: "open_tool T (fi_workspace i) (es, st) = (q, e, st1)" by (cases "open_tool T (fi_workspace i) (es, st)") auto
  then have e: "e = es" using open_tool_keeps [OF o] by simp
  obtain w0 where q: "q = Inr w0" using assms(1,2) o by (cases q) (auto simp: change_file_def freshly_applied_def)
  obtain full0 canon0 where r0: "ws_resolve (ts_unicode T) (es_disk es) w0 (fi_path i) OpWrite = Inr (full0, canon0)"
    using assms(1,2) o e q by (auto simp: change_file_def freshly_applied_def split: sum.splits)
  obtain old where old: "load_patch_base T (es_disk es) full0 canon0 (fi_expected i) = Inr (Inr old)"
    using assms(1,2) o e q r0
    by (auto simp: change_file_def freshly_applied_def to_change_output_def plain_result_def split: sum.splits)
  obtain new where enc: "computes canon0 old = Inr new"
    using assms(1,2) o e q r0 old by (auto simp: change_file_def freshly_applied_def split: sum.splits)
  define es1 where "es1 = es\<lparr>es_disk := ts_meanwhile T (es_disk es)\<rparr>"
  let ?rq = "update_request T i new"
  have "execute_tool T (fi_workspace i) (fi_change_set i) [update_op i new] (es1, st1) = (r, es', st')"
    using assms(1) o e q r0 old enc by (simp add: change_file_def meanwhile_pair update_op_def es1_def)
  from execute_tool_applied [OF this assms(2,3)] obtain w where es': "es' = snd (execute en w ?rq es1)"
    and fa: "fresh_applied (execute en w ?rq es1)" and us: "usable st1 (ws_id w)"
    and named: "fi_workspace i = [] \<or> ws_id w = fi_workspace i"
    unfolding update_request_def by blast
  have "rows_named es1" using assms(4) by (simp add: rows_named_def es1_def)
  from execute_outcome [OF this, of en w ?rq] fa obtain ps where ps: "call_plan en w ?rq es1 = Some ps"
    and yes: "says_yes (call_answer en w ?rq (call_id en ?rq) ps es1)" and ver: "list_all (verify_op en (es_disk es')) ps"
    unfolding es' by (auto split: if_splits)
  have op: "op_kind (update_op i new) = Update" "op_path (update_op i new) = fi_path i"
    "op_expected (update_op i new) = fi_expected i" "op_content (update_op i new) = new"
    by (simp_all add: update_op_def blank_operation_of_def)
  have "rq_operations ?rq = [update_op i new]" by (simp add: update_request_def tool_request_def)
  from plan_update_single [OF ps this op(1)] obtain full canon data m where
    res: "ws_resolve (en_unicode en) (es_disk es1) w (fi_path i) OpWrite = Inr (full, canon)"
    and data: "read_file (es_disk es1) (segs full) = Inr data" "equal_fold (en_unicode en) (fi_expected i) (en_sha en data)"
    and p: "ps = [(blank_op (update_op i new) canon (segs full))\<lparr>po_old_data := data, po_old_mode := m, po_before := en_sha en data,
        po_after := en_sha en new, po_status := Updated,
        po_preview := preview Update canon [] (sensitive (en_unicode en) w canon) False\<rparr>]"
    unfolding op by blast
  have "equal_fold (ts_unicode T) (fi_expected i) (ts_sha T old)"
    using old by (auto simp: load_patch_base_def split: if_splits sum.splits os_error.splits)
  then have same: "data = old" using assms(5) data(2) by blast
  have "hash_file (en_sha en) (es_disk es') (segs full) = en_sha en new"
    using ver unfolding p by (simp add: verify_update [OF op(1)])
  moreover have "usable st (ws_id w)" using us open_tool_statuses [OF o] by (simp add: usable_def)
  moreover have "map (\<lambda>p. pv_path (po_preview p)) ps = [canon]" by (simp add: p preview_def)
  moreover have "read_file (es_disk es1) (segs full) = Inr old" using data(1) same by simp
  ultimately show ?thesis
    using res enc ps yes named unfolding Let_def es1_def [symmetric]
    by (intro exI [of _ w] exI [of _ full] exI [of _ canon] exI [of _ old] exI [of _ canon0] exI [of _ new]
        exI [of _ ps] conjI)
qed

section \<open>Rules that ask\<close>

text \<open>
  With the approval service as approver, at any point of any history and in every mode: a
  change set of a tool that an ask rule matches is applied only after the user's recorded yes
  under its identifier; no policy lets it pass.
\<close>

theorem ask_rules_need_a_person:
  assumes "new_service m b' = Inr s0" and "history b s0 w0" and "rows_named es"
    and "en_approver en = asked b w0 evs" and "must_ask T ops"
    and "fresh_applied (execute en w (tool_request T cid ops) es)"
  shows "\<exists>ps d. call_plan en w (tool_request T cid ops) es = Some ps \<and> ad_approved d
    \<and> (call_id en (tool_request T cid ops), d) \<in> set (w_verdicts (play b
         (Call (write_request w (tool_request T cid ops) (call_id en (tool_request T cid ops)) ps) # evs) w0))"
proof -
  let ?rq = "tool_request T cid ops"
  from execute_outcome [OF assms(3), of en w ?rq] assms(6) obtain ps where
    ps: "call_plan en w ?rq es = Some ps" "says_yes (call_answer en w ?rq (call_id en ?rq) ps es)"
    by (auto split: if_splits)
  let ?req = "write_request w ?rq (call_id en ?rq) ps"
  let ?w' = "play b (Call ?req # evs) w0"
  from ps(2) assms(4) have yes: "ad_approved (answer_to ?req w0 ?w')"
    by (simp add: call_answer_def asked_def says_yes_def)
  have "world_inv ?w'" using history_inv [OF history_play [OF assms(2)] assms(1)] .
  then have "answer_ok (w_verdicts ?w') (?req, answer_to ?req w0 ?w')"
    using answer_to_logged [OF yes] by (auto simp: world_inv_def)
  moreover have "\<not> may_pass ?req" using assms(5) by (simp add: may_pass_def write_request_def tool_request_def)
  ultimately show ?thesis using yes ps(1) by (auto simp: answer_ok_def write_request_def)
qed

definition ask_rule :: route_rule where
  "ask_rule = \<lparr>rr_id = ''r1'', rr_source = ''ANY'', rr_patterns = [''b.go''], rr_dest = [], rr_action = action_ask, rr_uses = 0\<rparr>"

definition sample_tools :: "engine \<Rightarrow> toolset" where
  "sample_tools en = \<lparr>ts_engine = Some en, ts_unicode = plain_unicode, ts_codecs = no_codecs, ts_sha = (\<lambda>s. s),
     ts_rules = Some (Some [ask_rule]), ts_provider = ''claude'', ts_machine = sample_machine, ts_now = 2,
     ts_meanwhile = (\<lambda>d. d)\<rparr>"

lemma sample_tools_sel [simp]:
  "ts_engine (sample_tools en) = Some en" "ts_unicode (sample_tools en) = plain_unicode"
  "ts_codecs (sample_tools en) = no_codecs" "ts_sha (sample_tools en) = (\<lambda>s. s)"
  "ts_rules (sample_tools en) = Some (Some [ask_rule])" "ts_provider (sample_tools en) = ''claude''"
  "ts_machine (sample_tools en) = sample_machine" "ts_now (sample_tools en) = 2" "ts_meanwhile (sample_tools en) = (\<lambda>d. d)"
  by (simp_all add: sample_tools_def)

lemma ask_rule_sel [simp]:
  "rr_source ask_rule = source_any" "rr_patterns ask_rule = [''b.go'']" "rr_action ask_rule = action_ask"
  by (simp_all add: ask_rule_def)

lemma ask_rule_matches: "ro_ask (apply_rules plain_unicode [ask_rule] ''claude'' p) \<longleftrightarrow> path_base p = ''b.go''"
proof -
  have "path_match ''b.go'' name = Inr (name = ''b.go'')" for name
    by (rule path_match_literal) (simp add: literal_byte_def)
  moreover have "equal_fold plain_unicode source_any source_any" by code_simp
  ultimately have "route_matches plain_unicode ask_rule ''claude'' name \<longleftrightarrow> name = ''b.go''" for name
    by (simp add: route_matches_def)
  then show ?thesis by simp
qed

abbreviation asked_ops :: "operation list" where
  "asked_ops \<equiv> rq_operations create_b"

abbreviation asked_rq :: txn_request where
  "asked_rq \<equiv> create_b\<lparr>rq_must_ask := True\<rparr>"

lemma sample_must_ask: "must_ask (sample_tools en) asked_ops" "tool_request (sample_tools en) ''chg_1'' asked_ops = asked_rq"
proof -
  have "path_base ''src/b.go'' = ''b.go''" by code_simp
  then show "must_ask (sample_tools en) asked_ops"
    by (simp add: must_ask_def ask_rule_matches create_b_def rule_target_def blank_operation_def del: apply_rules.simps)
  then show "tool_request (sample_tools en) ''chg_1'' asked_ops = asked_rq"
    by (simp add: tool_request_def create_b_def)
qed

lemma asked_answer:
  "answer_to (write_request plain_ws asked_rq ''chg_1'' [planned_b]) (start_world 0 safe_service)
     (play default_budgets (Call (write_request plain_ws asked_rq ''chg_1'' [planned_b]) # yes_to_first) (start_world 0 safe_service)) = yes_dec"
  by code_simp

abbreviation asked_engine :: engine where
  "asked_engine \<equiv> open_engine (asked default_budgets (start_world 0 safe_service) yes_to_first)"

lemma asked_applied: "fresh_applied (execute asked_engine plain_ws asked_rq (fresh_state sample_disk))"
proof -
  let ?f = "asked default_budgets (start_world 0 safe_service) yes_to_first"
  let ?dir = "backup_dir asked_engine (rq_id asked_rq)"
  obtain d3 where d3: "apply_plan asked_engine ?dir [planned_b] sample_disk = (None, d3)"
    using apply_create_b [of ?f ?dir] by (cases "apply_plan asked_engine ?dir [planned_b] sample_disk") simp
  have "en_approver asked_engine (write_request plain_ws asked_rq (rq_id asked_rq) [planned_b]) sample_disk = (Inr yes_dec, sample_disk)"
    using asked_answer by (simp add: asked_def)
  from execute_first [OF _ _ _ _ _ _ this backup_b d3] show ?thesis
    using plan_b [of ?f] by (simp add: max_ops_def)
qed

theorem ask_rules_need_a_person_witness:
  "\<exists>d. ad_approved d \<and> (''chg_1'', d) \<in> set (w_verdicts (play default_budgets
     (Call (write_request plain_ws asked_rq ''chg_1'' [planned_b]) # yes_to_first) (start_world 0 safe_service)))"
proof -
  have p: "call_plan asked_engine plain_ws asked_rq (fresh_state sample_disk) = Some [planned_b]"
    using plan_b by (simp add: call_plan_def fresh_state_def)
  have c: "call_id asked_engine asked_rq = ''chg_1''" by (simp add: call_id_def)
  show ?thesis
    using ask_rules_need_a_person [OF safe_service_new history.start rows_named_fresh open_engine_sel(5) sample_must_ask(1),
        where w = plain_ws and cid = "''chg_1''", unfolded sample_must_ask(2), OF asked_applied]
    unfolding p c by auto
qed

definition spelled :: "string \<Rightarrow> operation" where
  "spelled p = blank_operation\<lparr>op_path := p, op_content := ''y''\<rparr>"

abbreviation dot_spelling :: string where "dot_spelling \<equiv> ''src/b.go/.''"
abbreviation backslash_spelling :: string where "backslash_spelling \<equiv> ''src'' @ [backslash] @ ''b.go''"

lemma spelled_must_ask: "must_ask (sample_tools en) [spelled p] \<longleftrightarrow> path_base p = ''b.go''"
  by (simp add: must_ask_def ask_rule_matches spelled_def rule_target_def del: apply_rules.simps)

lemma spellings_cleaned:
  "clean_path plain_unicode dot_spelling = Inr ''src/b.go''" "clean_path plain_unicode backslash_spelling = Inr ''src/b.go''"
proof -
  have "clean dot_spelling = ''src/b.go''" by code_simp
  then show "clean_path plain_unicode dot_spelling = Inr ''src/b.go''"
    by (simp add: clean_path_def max_path_len_def replace_byte_def backslash_def nul_def
        contains_byte_iff is_windows_drive_path_def clean_b more_names)
  show "clean_path plain_unicode backslash_spelling = Inr ''src/b.go''"
    by (simp add: clean_path_def max_path_len_def replace_byte_def backslash_def nul_def
        contains_byte_iff is_windows_drive_path_def clean_b more_names)
qed

lemma spellings_resolved:
  assumes "clean_path plain_unicode p = Inr ''src/b.go''"
  shows "ws_resolve plain_unicode sample_disk plain_ws p OpWrite = Inr (''/w/src/b.go'', ''src/b.go'')"
  by (simp add: ws_resolve_def plain_ws_def resolve_def assms clean_b walk_b max_abs_path_len_def Let_def
      del: inspect.simps segs_slash)

text \<open>
  A rule looks at the last component of the path as the call spells it; the sandbox cleans
  the path afterwards. Under the rule that asks for every \<open>b.go\<close>, the spelling \<open>src/b.go/.\<close> and
  the one with a backslash name the same file to the engine, and neither sets the flag.
\<close>

theorem ask_rules_miss_other_spellings:
  "must_ask (sample_tools en) [spelled ''src/b.go'']
   \<and> list_all (\<lambda>p. ws_resolve plain_unicode sample_disk plain_ws p OpWrite = Inr (''/w/src/b.go'', ''src/b.go''))
       [''src/b.go'', dot_spelling, backslash_spelling]
   \<and> list_all (\<lambda>p. \<not> rq_must_ask (tool_request (sample_tools en) cid [spelled p])) [dot_spelling, backslash_spelling]"
proof -
  have "path_base ''src/b.go'' = ''b.go''" "path_base dot_spelling = ''.''" "path_base backslash_spelling = backslash_spelling"
    by code_simp+
  moreover have "backslash_spelling \<noteq> ''b.go''" by simp
  ultimately show ?thesis
    using spellings_resolved [OF clean_path_b] spellings_resolved [OF spellings_cleaned(1)] spellings_resolved [OF spellings_cleaned(2)]
    by (simp add: spelled_must_ask tool_request_def)
qed

section \<open>An edit, step by step\<close>

definition edit_disk :: disk where
  "edit_disk = sample_disk\<lparr>nodes := [([''w''], Dir), ([''w'', ''src''], Dir), ([''w'', ''src'', ''a.go''], File ''1'' 420)]\<rparr>"

definition edit_one :: edit_op where
  "edit_one = \<lparr>ed_type = ''replace_exact'', ed_match = ''1'', ed_content = ''y'', ed_start = 0, ed_end = 0\<rparr>"

definition edit_input :: file_input where
  "edit_input = \<lparr>fi_workspace = ''ws_1'', fi_path = ''src/./a.go'', fi_expected = ''1'', fi_change_set = ''chg_1''\<rparr>"

lemma edit_input_sel [simp]:
  "fi_workspace edit_input = ''ws_1''" "fi_path edit_input = ''src/./a.go''" "fi_expected edit_input = ''1''"
  "fi_change_set edit_input = ''chg_1''"
  by (simp_all add: edit_input_def)

definition edit_ws :: workspace where
  "edit_ws = sample_ws\<lparr>ws_name := ''w''\<rparr>"

lemma edit_ws_sel [simp]: "ws_id edit_ws = ''ws_1''" "ws_writable edit_ws" "ws_root edit_ws = ''/w''"
  by (simp_all add: edit_ws_def sample_ws_def)

abbreviation used_ws :: ws_state where
  "used_ws \<equiv> one_ws\<lparr>wt_rows := [first_ws\<lparr>sw_last_used := 2\<rparr>]\<rparr>"

abbreviation edit_tools :: toolset where
  "edit_tools \<equiv> (sample_tools (open_engine accept))\<lparr>ts_rules := None\<rparr>"

lemma edit_opened: "open_workspace sample_machine edit_disk 2 ''ws_1'' one_ws = (Inr edit_ws, used_ws)"
  by code_simp

lemma edit_opened_again: "open_workspace sample_machine edit_disk 2 ''ws_1'' used_ws = (Inr edit_ws, used_ws)"
  by code_simp

lemma edit_walk:
  "inspect edit_disk ''/w'' [''src'', ''a.go''] = None"
  "verify_real_path edit_disk ''/w'' [''w'', ''src'', ''a.go''] = None"
  by code_simp+

lemma edit_resolved: "ws_resolve plain_unicode edit_disk edit_ws ''src/./a.go'' OpWrite = Inr (''/w/src/a.go'', ''src/a.go'')"
  by (simp add: ws_resolve_def resolve_def sample_clean_path sample_clean sample_walk edit_walk max_abs_path_len_def Let_def
      del: inspect.simps segs_slash)

lemma edit_read: "read_file edit_disk [''w'', ''src'', ''a.go''] = Inr ''1''" "lstat edit_disk [''w'', ''src'', ''a.go''] = Inr (File ''1'' 420)"
  "equal_fold plain_unicode ''1'' ''1''"
  by code_simp+

lemma edit_computed: "edited_content edit_tools [edit_one] ''src/a.go'' ''1'' = Inr ''y''"
proof -
  have "detect_decode no_codecs ''1'' = Some (''1'', ''utf-8'')"
    by (rule detect_plain) (code_simp+)
  then have d: "decode_text_file no_codecs ''1'' = Some (''1'', \<lparr>tp_encoding = ''utf-8'', tp_uniform = True, tp_crlf = False\<rparr>)"
    by (simp add: decode_text_file_def text_count_Cons)
  have "normalize_edit \<lparr>tp_encoding = ''utf-8'', tp_uniform = True, tp_crlf = False\<rparr> edit_one = edit_one" by code_simp
  then have "edited_bytes no_codecs ''1'' [edit_one] = Inr ''y''"
    by (simp add: edited_bytes_def d apply_edits_def apply_edit_def edit_one_def splice_unique_def text_count_Cons
        replace_first_def encode_text_def with_ending_def)
  then show ?thesis by (simp add: edited_content_def)
qed

definition planned_a :: "bool \<Rightarrow> planned_op" where
  "planned_a s = (blank_op (update_op edit_input ''y'') ''src/a.go'' [''w'', ''src'', ''a.go''])
     \<lparr>po_old_data := ''1'', po_old_mode := 420, po_before := ''1'', po_after := ''y'', po_status := Updated,
      po_preview := preview Update ''src/a.go'' [] s False\<rparr>"

abbreviation a_planned :: planned_op where "a_planned \<equiv> planned_a (sensitive plain_unicode edit_ws ''src/a.go'')"

lemma update_op_sel [simp]:
  "op_kind (update_op i c) = Update" "op_path (update_op i c) = fi_path i" "op_content (update_op i c) = c"
  "op_expected (update_op i c) = fi_expected i"
  by (simp_all add: update_op_def blank_operation_of_def)

lemma planned_a_sel [simp]: "po_canonical (planned_a s) = ''src/a.go''" "po_to_canonical (planned_a s) = []"
  by (simp_all add: planned_a_def blank_op_def)

lemma plan_update_a: "plan_update (open_engine f) edit_disk edit_ws (update_op edit_input ''y'') = plans a_planned"
  by (simp add: plan_update_def edit_resolved sample_walk load_base_def edit_read max_op_content_bytes_def planned_a_def Let_def
      del: segs_slash)

lemma planned_update: "plan (open_engine f) edit_disk edit_ws [update_op edit_input ''y''] = Inr (Inr [a_planned])"
  by (simp add: plan_def plan_op_def plan_update_a max_op_content_bytes_def)

lemma backup_a: "fst (backup [''b'', ''chg_1''] [planned_a s] edit_disk) = None"
  by code_simp

lemma apply_a: "fst (apply_plan (open_engine accept) [''b'', ''chg_1''] [planned_a s]
    (snd (backup [''b'', ''chg_1''] [planned_a s] edit_disk))) = None"
  by code_simp

abbreviation edit_request :: txn_request where
  "edit_request \<equiv> \<lparr>rq_id = ''chg_1'', rq_provider = ''claude'', rq_operations = [update_op edit_input ''y''], rq_must_ask = False\<rparr>"

lemma edit_applied: "fresh_applied (execute (open_engine accept) edit_ws edit_request (fresh_state edit_disk))"
proof -
  obtain d2 where bk: "backup [''b'', ''chg_1''] [a_planned] edit_disk = (None, d2)"
    using backup_a by (cases "backup [''b'', ''chg_1''] [a_planned] edit_disk") (metis fst_conv)
  obtain d3 where ap: "apply_plan (open_engine accept) [''b'', ''chg_1''] [a_planned] d2 = (None, d3)"
    using apply_a [of "sensitive plain_unicode edit_ws ''src/a.go''"] bk
    by (cases "apply_plan (open_engine accept) [''b'', ''chg_1''] [a_planned] d2") simp
  show ?thesis
    using execute_first [of edit_ws edit_request "open_engine accept" edit_disk "[a_planned]" edit_disk d2 d3]
      planned_update [of accept] apply_b(2) bk ap by (simp add: max_ops_def)
qed

lemma fresh_disk [simp]: "es_disk (fresh_state d) = d"
  by (simp add: fresh_state_def)

lemma edit_run:
  "freshly_applied (fst (edit_file edit_tools edit_input [edit_one] (fresh_state edit_disk, one_ws)))"
  "snd (edit_file edit_tools edit_input [edit_one] (fresh_state edit_disk, one_ws))
     = (snd (execute (open_engine accept) edit_ws edit_request (fresh_state edit_disk)), used_ws)"
proof -
  obtain r es' where x: "execute (open_engine accept) edit_ws edit_request (fresh_state edit_disk) = (r, es')"
    by (cases "execute (open_engine accept) edit_ws edit_request (fresh_state edit_disk)")
  have m: "(fresh_state edit_disk)\<lparr>es_disk := edit_disk\<rparr> = fresh_state edit_disk" by (simp add: fresh_state_def)
  have o: "open_tool edit_tools ''ws_1'' (fresh_state edit_disk, one_ws) = (Inr edit_ws, fresh_state edit_disk, used_ws)"
    by (simp add: open_tool_def named_workspace_def edit_opened)
  have o': "open_tool edit_tools ''ws_1'' (fresh_state edit_disk, used_ws) = (Inr edit_ws, fresh_state edit_disk, used_ws)"
    by (simp add: open_tool_def named_workspace_def edit_opened_again)
  have rq: "tool_request edit_tools ''chg_1'' [update_op edit_input ''y''] = edit_request"
    by (simp add: tool_request_def must_ask_def)
  have e: "execute_tool edit_tools ''ws_1'' ''chg_1'' [update_op edit_input ''y''] (fresh_state edit_disk, used_ws)
      = (case r of Inl e \<Rightarrow> Inl (EngineFailed e) | Inr res \<Rightarrow> Inr (Changed (to_change_output res)), es', used_ws)"
    by (simp add: execute_tool_def o' rq x split: sum.split)
  have l: "load_patch_base edit_tools edit_disk ''/w/src/a.go'' ''src/a.go'' ''1'' = Inr (Inr ''1'')"
    by (simp add: load_patch_base_def sample_walk edit_read del: segs_slash)
  have run: "edit_file edit_tools edit_input [edit_one] (fresh_state edit_disk, one_ws)
      = (case r of Inl e \<Rightarrow> Inl (EngineFailed e) | Inr res \<Rightarrow> Inr (Changed (to_change_output res)), es', used_ws)"
    using e by (simp add: edit_file_def change_file_def o edit_resolved l edit_computed meanwhile_pair m update_op_def)
  then show "snd (edit_file edit_tools edit_input [edit_one] (fresh_state edit_disk, one_ws))
     = (snd (execute (open_engine accept) edit_ws edit_request (fresh_state edit_disk)), used_ws)" using x by simp
  show "freshly_applied (fst (edit_file edit_tools edit_input [edit_one] (fresh_state edit_disk, one_ws)))"
    using run x edit_applied
    by (cases r) (simp_all add: fresh_applied_def freshly_applied_def to_change_output_def)
qed

lemma one_is_caseless: "equal_fold plain_unicode ''1'' a \<Longrightarrow> a = ''1''"
proof -
  assume f: "equal_fold plain_unicode ''1'' a"
  have l: "c = CHR ''1''" if "lower_byte c = CHR ''1''" for c
  proof (rule ccontr)
    assume "c \<noteq> CHR ''1''"
    then have n: "65 \<le> (of_char c :: nat)" "(of_char c :: nat) \<le> 90" "char_of ((of_char c :: nat) + 32) = CHR ''1''"
      using that by (auto simp: lower_byte_def Let_def split: if_splits)
    then have "((of_char c :: nat) + 32) mod 256 = of_char (CHR ''1'')" by (metis of_char_of)
    then show False using n(1,2) by simp
  qed
  have "lower_byte (CHR ''1'') = CHR ''1''" by code_simp
  moreover have "map lower_byte ''1'' = map lower_byte a \<or> a = ''1''"
    using f by (auto simp: equal_fold_def plain_unicode_def split: if_splits)
  ultimately show "a = ''1''" using l by (auto simp: map_eq_Cons_conv)
qed

theorem edits_apply_to_what_was_read_witness:
  "\<exists>w full canon old new. ws_id w = ''ws_1''
    \<and> ws_resolve plain_unicode edit_disk w ''src/./a.go'' OpWrite = Inr (full, canon)
    \<and> read_file edit_disk (segs full) = Inr old \<and> (\<exists>name. edited_content edit_tools [edit_one] name old = Inr new)
    \<and> hash_file (\<lambda>s. s) (es_disk (fst (snd (edit_file edit_tools edit_input [edit_one] (fresh_state edit_disk, one_ws)))))
         (segs full) = new"
proof -
  obtain r es' st' where run: "edit_file edit_tools edit_input [edit_one] (fresh_state edit_disk, one_ws) = (r, es', st')"
    by (cases "edit_file edit_tools edit_input [edit_one] (fresh_state edit_disk, one_ws)") auto
  then have c: "change_file edit_tools edit_input (edited_content edit_tools [edit_one]) (fresh_state edit_disk, one_ws) = (r, es', st')"
    by (simp add: edit_file_def)
  have r: "freshly_applied r" using edit_run(1) run by simp
  have same: "a = b" if "equal_fold plain_unicode ''1'' a" "equal_fold plain_unicode ''1'' b" for a b
    using that one_is_caseless by metis
  show ?thesis
    using edits_apply_to_what_was_read [OF c r, of "open_engine accept"] same rows_named_fresh run
    by (simp add: Let_def) blast
qed

end
