(* ===== verification/ReadPages.thy ===== *)
theory ReadPages
  imports TextForm
begin

text \<open>
  How much of a text a read gives at once: \<open>sliceLines\<close>, \<open>truncateUTF8\<close> and the end of \<open>readOne\<close>
  in \<^verbatim>\<open>mcpserver/tools.go\<close>, and the loop of a caller that goes on at \<open>next_start_line\<close> until
  nothing is cut off.
\<close>

section \<open>Slices and cuts\<close>

definition slice_lines :: "string \<Rightarrow> int \<Rightarrow> int \<Rightarrow> string" where
  "slice_lines s start end_line =
     (let lines = split_after_lines s;
          first = if start \<le> 0 then 1 else start;
          final = if end_line \<le> 0 \<or> int (length lines) < end_line then int (length lines) else end_line
      in if int (length lines) < first then []
         else concat (drop (nat (first - 1)) (take (nat final) lines)))"

definition rune_start :: "char \<Rightarrow> bool" where
  "rune_start c = ((of_char c :: nat) < 128 \<or> 192 \<le> (of_char c :: nat))"

fun cut_back :: "string \<Rightarrow> nat \<Rightarrow> nat" where
  "cut_back s 0 = 0"
| "cut_back s (Suc n) = (if rune_start (s ! Suc n) then Suc n else cut_back s n)"

definition truncate_utf8 :: "string \<Rightarrow> nat \<Rightarrow> string" where
  "truncate_utf8 s n = (if length s \<le> n then s else take (cut_back s n) s)"

text \<open>The content of an answer and, when it was cut, the line to go on with.\<close>

definition page :: "nat \<Rightarrow> string \<Rightarrow> int \<Rightarrow> int \<Rightarrow> string \<times> int option" where
  "page budget full start end_line =
     (let content = (if 0 < start \<or> 0 < end_line then slice_lines full start end_line else full) in
      if budget < length content
      then (let cut = truncate_utf8 content budget
            in (cut, Some ((if start < 1 then 1 else start) + int (count_list cut newline))))
      else (content, None))"

text \<open>
  A caller keeps the whole lines of a cut answer and asks again from the line that was cut; the
  number bounds its calls.
\<close>

definition whole_lines :: "string \<Rightarrow> string" where
  "whole_lines c = concat (take (count_list c newline) (split_after_lines c))"

fun read_pages :: "nat \<Rightarrow> (int \<Rightarrow> string \<times> int option) \<Rightarrow> int \<Rightarrow> string option" where
  "read_pages 0 ask s = None"
| "read_pages (Suc k) ask s =
     (case ask s of
        (c, None) \<Rightarrow> Some c
      | (c, Some s') \<Rightarrow> map_option ((@) (whole_lines c)) (read_pages k ask s'))"

section \<open>Where a cut falls\<close>

lemma cut_back_le: "cut_back s n \<le> n"
  by (induction n) auto

lemma cut_back_ge: "i \<le> n \<Longrightarrow> rune_start (s ! i) \<Longrightarrow> i \<le> cut_back s n"
  by (induction n) (auto simp: le_Suc_eq)

lemma closed_line_count: "closed_line l \<Longrightarrow> count_list l newline = 1"
  by (elim closed_lineE) (simp add: count_notin)

lemma no_newline_take: "closed_line l \<or> open_line l \<Longrightarrow> m < length l \<Longrightarrow> newline \<notin> set (take m l)"
  by (elim disjE closed_lineE) (auto simp: open_line_def take_Cons' dest: in_set_takeD)

lemma take_of_lines:
  assumes "line_list ls" and "m < length (concat ls)"
  shows "\<exists>k. count_list (take m (concat ls)) newline = k \<and> whole_lines (take m (concat ls)) = concat (take k ls)
    \<and> k < length ls \<and> length (concat (take k ls)) \<le> m \<and> (k = 0 \<longleftrightarrow> m < length (hd ls))"
  using assms
proof (induction ls arbitrary: m)
  case (Cons l ls)
  show ?case
  proof (cases "m < length l")
    case True
    moreover have "closed_line l \<or> open_line l" using Cons.prems(1) by (auto simp: line_list_Cons split: if_splits)
    ultimately have "newline \<notin> set (take m l)" by (intro no_newline_take)
    then show ?thesis using True by (simp add: whole_lines_def)
  next
    case False
    then have "ls \<noteq> []" using Cons.prems(2) by auto
    then have l: "closed_line l" "line_list ls" using Cons.prems(1) by (simp_all add: line_list_Cons)
    have "m - length l < length (concat ls)" using False Cons.prems(2) by simp
    from Cons.IH [OF l(2) this] obtain k where
      k: "count_list (take (m - length l) (concat ls)) newline = k"
        "whole_lines (take (m - length l) (concat ls)) = concat (take k ls)"
        "k < length ls" "length (concat (take k ls)) \<le> m - length l" by blast
    have "take m (concat (l # ls)) = l @ take (m - length l) (concat ls)" using False by simp
    then show ?thesis using k l False
      by (simp add: whole_lines_def split_after_lines_closed closed_line_count)
  qed
qed simp

section \<open>Text that starts its lines with a rune\<close>

text \<open>What a well-formed encoding at the front of a string takes.\<close>

lemma decode_rune_front:
  assumes "decode_rune s = (r, n)" and "s \<noteq> []" and "\<not> (r = rune_error \<and> n = 1)"
  shows "rune_start (hd s) \<and> (n = 1 \<or> newline \<notin> set (take n s))"
proof -
  have low: "(of_char c :: nat) = 10" if "c = newline" for c using that by simp
  obtain c t where s: "s = c # t" using assms(2) by (cases s) auto
  show ?thesis
    using assms(1,3) low unfolding s
    by (cases t; cases "tl t"; cases "tl (tl t)")
       (auto simp: decode_rune_def rune_start_def in_range_def take_Cons' split: if_splits)
qed

definition rune_lines :: "string \<Rightarrow> bool" where
  "rune_lines s \<longleftrightarrow> list_all (\<lambda>l. rune_start (hd l)) (split_after_lines s)"

lemma split_after_lines_front:
  "newline \<notin> set p \<Longrightarrow> p \<noteq> [] \<Longrightarrow> split_after_lines (p @ s) = (case split_after_lines s of [] \<Rightarrow> [p] | l # ls \<Rightarrow> (p @ l) # ls)"
proof (induction p)
  case (Cons c p)
  then show ?case
    by (cases "p = []") (auto simp: split_after_lines_byte split: list.splits)
qed simp

lemma valid_rune_lines: "valid_string s \<Longrightarrow> rune_lines s"
proof (induction s rule: runes.induct)
  case (1 s)
  show ?case
  proof (cases "s = []")
    case False
    obtain r n where d: "decode_rune s = (r, n)" by (cases "decode_rune s")
    have v: "\<not> (r = rune_error \<and> n = 1)" "valid_string (drop n s)"
      using "1.prems" False d by (simp_all add: valid_string_def runes.simps [of s])
    have rest: "rune_lines (drop n s)" using "1.IH" [OF False] v(2) d by simp
    have n: "0 < n" using decode_rune_width [OF False] d by simp
    note front = decode_rune_front [OF d False v(1)]
    obtain c t where s: "s = c # t" using False by (cases s) auto
    show ?thesis
    proof (cases "newline \<in> set (take n s)")
      case True
      then have one: "n = 1" using front by blast
      then have "c = newline" using True s by simp
      then show ?thesis using rest front one s by (simp add: rune_lines_def split_after_lines_newline)
    next
      case out: False
      have "take n s \<noteq> []" "hd (take n s) = hd s" using n s by (cases n; simp)+
      then show ?thesis
        using split_after_lines_front [OF out, of "drop n s"] rest front
        by (auto simp: rune_lines_def split: list.splits)
    qed
  qed (simp add: rune_lines_def)
qed

section \<open>Reading a text to its end\<close>

text \<open>One call that starts at a line, in terms of the lines that remain.\<close>

lemma page_at:
  assumes "rune_lines full" and "rest = drop j (split_after_lines full)"
  shows "if length (concat rest) \<le> budget then page budget full (int j + 1) 0 = (concat rest, None)
    else \<exists>c k. page budget full (int j + 1) 0 = (c, Some (int (j + k) + 1)) \<and> whole_lines c = concat (take k rest)
      \<and> k < length rest \<and> length (concat (take k rest)) \<le> budget \<and> (k = 0 \<longleftrightarrow> budget < length (hd rest))"
proof -
  have slice: "slice_lines full (int j + 1) 0 = concat rest"
    by (auto simp: slice_lines_def Let_def assms(2) nat_add_distrib)
  show ?thesis
  proof (cases "length (concat rest) \<le> budget")
    case False
    let ?m = "cut_back (concat rest) budget"
    have m: "?m \<le> budget" by (rule cut_back_le)
    have "line_list rest" unfolding assms(2) by (intro line_list_drop line_list_split)
    moreover have "?m < length (concat rest)" using m False by simp
    ultimately obtain k where
      k: "count_list (take ?m (concat rest)) newline = k" "whole_lines (take ?m (concat rest)) = concat (take k rest)"
        "k < length rest" "length (concat (take k rest)) \<le> ?m" "k = 0 \<longleftrightarrow> ?m < length (hd rest)"
      using take_of_lines by blast
    have "?m < length (hd rest) \<longleftrightarrow> budget < length (hd rest)"
    proof
      assume short: "?m < length (hd rest)"
      show "budget < length (hd rest)"
      proof (rule ccontr)
        assume "\<not> budget < length (hd rest)"
        then have fits: "length (hd rest) \<le> budget" by simp
        obtain l ls where rest: "rest = l # ls" using k(3) by (cases rest) auto
        then obtain l2 ls2 where ls: "ls = l2 # ls2" using fits False by (cases ls) auto
        have "l2 \<in> set (split_after_lines full)" using assms(2) rest ls by (metis in_set_dropD list.set_intros)
        then have "rune_start (hd l2)" "l2 \<noteq> []"
          using assms(1) line_list_no_Nil [OF line_list_split, of full] by (auto simp: rune_lines_def list_all_iff)
        then have "rune_start (concat rest ! length l)" using rest ls by (cases l2) (simp_all add: nth_append)
        from cut_back_ge [OF _ this, of budget] fits rest short show False by simp
      qed
    qed (use m in simp)
    then show ?thesis using False k m
      by (auto simp: page_def slice truncate_utf8_def Let_def intro!: exI [of _ k])
  qed (simp add: page_def slice)
qed

lemma length_concat_member: "l \<in> set ls \<Longrightarrow> length l \<le> length (concat ls)"
  by (induction ls) auto

lemma read_pages_fit:
  assumes "rune_lines full" and "list_all (\<lambda>l. length l \<le> budget) (split_after_lines full)"
  shows "\<exists>f. read_pages f (\<lambda>s. page budget full s 0) (int j + 1) = Some (concat (drop j (split_after_lines full)))"
proof (induction "length (split_after_lines full) - j" arbitrary: j rule: less_induct)
  case less
  let ?rest = "drop j (split_after_lines full)"
  note at = page_at [OF assms(1) refl, of j budget]
  show ?case
  proof (cases "length (concat ?rest) \<le> budget")
    case True
    then have "read_pages 1 (\<lambda>s. page budget full s 0) (int j + 1) = Some (concat ?rest)" using at by simp
    then show ?thesis by blast
  next
    case False
    then obtain c k where p: "page budget full (int j + 1) 0 = (c, Some (int (j + k) + 1))"
      "whole_lines c = concat (take k ?rest)" "k < length ?rest" "k = 0 \<longleftrightarrow> budget < length (hd ?rest)"
      using at by auto
    have "hd ?rest \<in> set (split_after_lines full)" 
      by (rule in_set_dropD [OF hd_in_set]) (use p(3) in force)
    then have "0 < k" using p(4) assms(2) by (fastforce simp: list_all_iff)
    then have "length (split_after_lines full) - (j + k) < length (split_after_lines full) - j" using p(3) by simp
    from less [OF this] obtain f where
      "read_pages f (\<lambda>s. page budget full s 0) (int (j + k) + 1) = Some (concat (drop (j + k) (split_after_lines full)))"
      by blast
    then have "read_pages (Suc f) (\<lambda>s. page budget full s 0) (int j + 1)
        = Some (concat (take k ?rest) @ concat (drop k ?rest))"
      using p(1,2) by (simp add: add.commute)
    then show ?thesis by (metis append_take_drop_id concat_append)
  qed
qed

lemma read_pages_stuck:
  assumes "rune_lines full" and "\<exists>l \<in> set (drop j (split_after_lines full)). budget < length l"
  shows "read_pages f (\<lambda>s. page budget full s 0) (int j + 1) = None"
  using assms(2)
proof (induction f arbitrary: j)
  case (Suc f)
  let ?rest = "drop j (split_after_lines full)"
  obtain l where l: "l \<in> set ?rest" "budget < length l" using Suc.prems by blast
  have "length l \<le> length (concat ?rest)" using l(1) by (rule length_concat_member)
  then have "\<not> length (concat ?rest) \<le> budget" using l(2) by simp
  then obtain c k where p: "page budget full (int j + 1) 0 = (c, Some (int (j + k) + 1))"
    "length (concat (take k ?rest)) \<le> budget"
    using page_at [OF assms(1) refl, of j budget] by auto
  have "l \<notin> set (take k ?rest)"
  proof
    assume "l \<in> set (take k ?rest)"
    then have "length l \<le> length (concat (take k ?rest))" by (rule length_concat_member)
    then show False using p(2) l(2) by simp
  qed
  then have "l \<in> set (drop (j + k) (split_after_lines full))"
    using l(1) by (metis Un_iff add.commute append_take_drop_id drop_drop set_append)
  then show ?case using Suc.IH [of "j + k"] l(2) p(1) by auto
qed simp

text \<open>
  A caller that goes on at \<open>next_start_line\<close> reads any valid text to its end, and gets it byte
  for byte, exactly if every line fits into one answer; otherwise it asks for the same line for
  ever.
\<close>

theorem paging_ends:
  assumes "valid_string full"
  shows "if list_all (\<lambda>l. length l \<le> budget) (split_after_lines full)
    then \<exists>f. read_pages f (\<lambda>s. page budget full s 0) 1 = Some full
    else \<forall>f. read_pages f (\<lambda>s. page budget full s 0) 1 = None"
proof -
  note r = valid_rune_lines [OF assms]
  show ?thesis
    using read_pages_fit [OF r, of budget 0] read_pages_stuck [OF r, of 0 budget]
    by (auto simp: list_all_iff list_ex_iff not_le)
qed

theorem paging_ends_witness:
  "\<exists>f. read_pages f (\<lambda>s. page 3 (''ab'' @ [newline] @ ''c'') s 0) 1 = Some (''ab'' @ [newline] @ ''c'')"
proof -
  have "valid_string (''ab'' @ [newline] @ ''c'')" by (intro valid_string_ascii) (simp add: ascii_byte_def)
  moreover have "list_all (\<lambda>l. length l \<le> 3) (split_after_lines (''ab'' @ [newline] @ ''c''))" by code_simp
  ultimately show ?thesis using paging_ends [of "''ab'' @ [newline] @ ''c''" 3] by simp
qed

end
