(* ===== verification/ReadTools.thy ===== *)
theory ReadTools
  imports WriteTools ReadPages
begin

text \<open>
  The tools that read: \<open>checkReadable\<close> and \<open>readOne\<close> of \<^verbatim>\<open>mcpserver/tools.go\<close>, \<open>read_file\<close> and
  \<open>list_directory\<close> of \<^verbatim>\<open>list_read.go\<close>. A sensitive file is asked about before each read, and
  other programs may change the disk while the prompt is open, so the approver is the same
  function of a request and the disk as the engine's.
\<close>

section \<open>Limits\<close>

record reader =
  rd_approver :: "(approval_request \<Rightarrow> disk \<Rightarrow> (string + approval_decision) \<times> disk) option"
  rd_inline :: int

definition max_read_bytes :: int where "max_read_bytes = 1048576"
definition max_file_bytes :: int where "max_file_bytes = 67108864"
definition max_list_entries :: nat where "max_list_entries = 2000"
definition max_list_depth :: int where "max_list_depth = 10"
definition max_batch_files :: nat where "max_batch_files = 20"
definition max_batch_bytes :: int where "max_batch_bytes = 4194304"

definition inline_budgets :: "(string \<times> int) list" where
  "inline_budgets = [(''claude'', 3145728), (''chatgpt'', 98304), (''grok'', 24576)]"

definition inline_budget :: "reader \<Rightarrow> string \<Rightarrow> int" where
  "inline_budget R provider =
     (if 0 < rd_inline R then rd_inline R
      else (case map_of inline_budgets provider of Some b \<Rightarrow> b | None \<Rightarrow> max_read_bytes))"

datatype read_error =
    ReadRefused path_error
  | PathNotFound string
  | NoConfirmation string
  | ConfirmFailed string string
  | AwaitsUser string
  | RejectedLocally string
  | BadLineRange
  | ReadOs string os_error
  | IsDirectory string
  | OverReadLimit string
  | NotRegularOrDir string
  | BadDepth
  | PathOrPaths
  | NoPaths
  | RangeNeedsPath
  | TooManyPaths
  | NotOpened tool_error

section \<open>Reading one file\<close>

definition check_readable :: "toolset \<Rightarrow> reader \<Rightarrow> workspace \<Rightarrow> string \<Rightarrow> disk \<Rightarrow> read_error option \<times> disk" where
  "check_readable T R w canon d =
     (if excluded (ts_unicode T) d w canon False then (Some (PathNotFound canon), d)
      else if \<not> sensitive (ts_unicode T) w canon then (None, d)
      else (case rd_approver R of
          None \<Rightarrow> (Some (NoConfirmation canon), d)
        | Some approve \<Rightarrow>
           (case approve (read_request (ts_provider T) (ws_id w) canon) d of
              (Inl e, d') \<Rightarrow> (Some (ConfirmFailed canon e), d')
            | (Inr dec, d') \<Rightarrow>
                if ad_approved dec then (None, d')
                else if ad_pending dec then (Some (AwaitsUser canon), d')
                else (Some (RejectedLocally canon), d'))))"

record file_answer =
  fa_path :: string
  fa_content :: string
  fa_sha :: string
  fa_encoding :: string
  fa_truncated :: bool
  fa_lines :: int
  fa_size :: int
  fa_next :: "int option"
  fa_uri :: "(string \<times> string) option"
    \<comment> \<open>workspace and path of the \<^verbatim>\<open>fylane\<close> resource\<close>

definition total_lines :: "string \<Rightarrow> int" where
  "total_lines full =
     int (count_list full newline) + (if full \<noteq> [] \<and> \<not> has_suffix full [newline] then 1 else 0)"

text \<open>What \<open>readOne\<close> makes of the bytes.\<close>

definition read_answer :: "toolset \<Rightarrow> reader \<Rightarrow> workspace \<Rightarrow> string \<Rightarrow> int \<Rightarrow> int \<Rightarrow> string \<Rightarrow> int \<Rightarrow> file_answer" where
  "read_answer T R w canon start end_line data bytes =
     (case detect_decode (ts_codecs T) data of
        None \<Rightarrow>
          \<lparr>fa_path = canon, fa_content = [], fa_sha = ts_sha T data, fa_encoding = ''binary'', fa_truncated = False,
           fa_lines = 0, fa_size = bytes, fa_next = None, fa_uri = None\<rparr>
      | Some (full, enc) \<Rightarrow>
          (case page (nat (inline_budget R (ts_provider T))) full start end_line of (content, nxt) \<Rightarrow>
            \<lparr>fa_path = canon, fa_content = content, fa_sha = ts_sha T data, fa_encoding = enc,
             fa_truncated = (nxt \<noteq> None), fa_lines = total_lines full, fa_size = bytes, fa_next = nxt,
             fa_uri = (if nxt \<noteq> None then Some (ws_id w, canon) else None)\<rparr>))"

text \<open>\<open>Size\<close> of an \<open>os.FileInfo\<close> that is not a directory.\<close>

definition file_bytes :: "node \<Rightarrow> int" where
  "file_bytes n = (case n of File c m \<Rightarrow> int (length c) | _ \<Rightarrow> 0)"

definition read_one ::
  "toolset \<Rightarrow> reader \<Rightarrow> workspace \<Rightarrow> string \<Rightarrow> int \<Rightarrow> int \<Rightarrow> disk \<Rightarrow> (read_error + file_answer) \<times> disk" where
  "read_one T R w rel start end_line d0 =
     (case ws_resolve (ts_unicode T) d0 w rel OpRead of
        Inl e \<Rightarrow> (Inl (ReadRefused e), d0)
      | Inr (full, canon) \<Rightarrow>
         (case check_readable T R w canon d0 of
            (Some e, d) \<Rightarrow> (Inl e, d)
          | (None, d) \<Rightarrow>
              if start < 0 \<or> end_line < 0 \<or> (0 < end_line \<and> end_line < start) then (Inl BadLineRange, d)
              else (case follow d (segs full) of
                  Inl ENOENT \<Rightarrow> (Inl (PathNotFound canon), d)
                | Inl e \<Rightarrow> (Inl (ReadOs canon e), d)
                | Inr (q, Dir) \<Rightarrow> (Inl (IsDirectory canon), d)
                | Inr (q, n) \<Rightarrow>
                    if max_file_bytes < file_bytes n then (Inl (OverReadLimit canon), d)
                    else (case read_file d (segs full) of
                        Inl e \<Rightarrow> (Inl (ReadOs canon e), d)
                      | Inr data \<Rightarrow> (Inr (read_answer T R w canon start end_line data (file_bytes n)), d)))))"

section \<open>read_file\<close>

record read_input =
  ri_workspace :: string
  ri_path :: string
  ri_paths :: "string list"
  ri_start :: int
  ri_end :: int

datatype read_entry = FileRead file_answer | FileFailed string read_error | OverBudget string

fun read_batch ::
  "toolset \<Rightarrow> reader \<Rightarrow> workspace \<Rightarrow> bool \<Rightarrow> int \<Rightarrow> int \<Rightarrow> int \<Rightarrow> string list \<Rightarrow> disk
     \<Rightarrow> (read_error + read_entry list) \<times> disk" where
  "read_batch T R w single start end_line used [] d = (Inr [], d)"
| "read_batch T R w single start end_line used (p # ps) d =
     (if max_batch_bytes \<le> used
      then map_prod (map_sum id ((#) (OverBudget p))) id (read_batch T R w single start end_line used ps d)
      else (case read_one T R w p start end_line d of
          (Inl e, d') \<Rightarrow>
            if single then (Inl e, d')
            else map_prod (map_sum id ((#) (FileFailed p e))) id (read_batch T R w single start end_line used ps d')
        | (Inr one, d') \<Rightarrow>
            map_prod (map_sum id ((#) (FileRead one))) id
              (read_batch T R w single start end_line (used + int (length (fa_content one))) ps d')))"

definition read_files :: "toolset \<Rightarrow> reader \<Rightarrow> read_input \<Rightarrow> tool_state \<Rightarrow> (read_error + read_entry list) \<times> tool_state" where
  "read_files T R i s0 =
     (let single = (ri_path i \<noteq> []) in
      if single \<and> ri_paths i \<noteq> [] then (Inl PathOrPaths, s0)
      else if \<not> single \<and> ri_paths i = [] then (Inl NoPaths, s0)
      else if \<not> single \<and> (0 < ri_start i \<or> 0 < ri_end i) then (Inl RangeNeedsPath, s0)
      else if \<not> single \<and> max_batch_files < length (ri_paths i) then (Inl TooManyPaths, s0)
      else (case open_tool T (ri_workspace i) s0 of
          (Inl e, s) \<Rightarrow> (Inl (NotOpened e), s)
        | (Inr w, es, st) \<Rightarrow>
           (case read_batch T R w single (ri_start i) (ri_end i) 0 (if single then [ri_path i] else ri_paths i) (es_disk es) of
              (r, d) \<Rightarrow> (r, es\<lparr>es_disk := d\<rparr>, st))))"

section \<open>The same file as a resource\<close>

text \<open>A parsed address: \<open>url.Parse\<close> is a parameter, \<open>pu_query\<close> is \<open>Query().Get\<close>.\<close>

record parsed_uri =
  pu_scheme :: string
  pu_host :: string
  pu_path :: string
  pu_query :: "string \<Rightarrow> string"

datatype resource_error = NoSuchResource | ResourceNotOpened tool_error | ResourceRead read_error

text \<open>\<open>strconv.Atoi\<close>\<close>

definition signed_atoi :: "string \<Rightarrow> int option" where
  "signed_atoi s =
     (let negative = has_prefix s ''-'';
          digits = (if negative \<or> has_prefix s ''+'' then drop 1 s else s);
          v = (if negative then - int (dec_value digits) else int (dec_value digits))
      in if digits = [] \<or> \<not> list_all is_digit digits then None
         else if v < - 9223372036854775808 \<or> 9223372036854775807 < v then None else Some v)"

definition query_line :: "parsed_uri \<Rightarrow> string \<Rightarrow> int option" where
  "query_line v key =
     (if pu_query v key = [] then Some 0
      else (case signed_atoi (pu_query v key) of None \<Rightarrow> None | Some n \<Rightarrow> if n < 1 then None else Some n))"

definition read_resource ::
  "toolset \<Rightarrow> reader \<Rightarrow> (string \<Rightarrow> parsed_uri option) \<Rightarrow> string \<Rightarrow> tool_state \<Rightarrow> (resource_error + string) \<times> tool_state" where
  "read_resource T R parse uri s0 =
     (case parse uri of
        None \<Rightarrow> (Inl NoSuchResource, s0)
      | Some v \<Rightarrow>
         (let rel = (if has_prefix (pu_path v) [slash] then drop 1 (pu_path v) else pu_path v) in
          if pu_scheme v \<noteq> ''fylane'' \<or> pu_host v = [] \<or> rel = [] then (Inl NoSuchResource, s0)
          else (case (query_line v ''start_line'', query_line v ''end_line'') of
              (Some start, Some end_line) \<Rightarrow>
                (case open_tool T (pu_host v) s0 of
                   (Inl e, s) \<Rightarrow> (Inl (ResourceNotOpened e), s)
                 | (Inr w, es, st) \<Rightarrow>
                    (case read_one T R w rel start end_line (es_disk es) of
                       (Inl e, d) \<Rightarrow> (Inl (ResourceRead e), es\<lparr>es_disk := d\<rparr>, st)
                     | (Inr out, d) \<Rightarrow> (Inr (fa_content out), es\<lparr>es_disk := d\<rparr>, st)))
            | _ \<Rightarrow> (Inl NoSuchResource, s0))))"

section \<open>list_directory\<close>

record dir_entry =
  de_path :: string
  de_dir :: bool
  de_size :: int
  de_sha :: "string option"

record listing =
  li_path :: string
  li_entries :: "dir_entry list"
  li_truncated :: bool

text \<open>\<open>os.ReadDir\<close>: the names in order, each with what it is there.\<close>

definition dir_entries :: "disk \<Rightarrow> path \<Rightarrow> os_error + (string \<times> node option) list" where
  "dir_entries d p =
     (case follow d p of
        Inl e \<Rightarrow> Inl e
      | Inr (q, Dir) \<Rightarrow> Inr (map (\<lambda>n. (n, node_at (nodes d) (q @ [n]))) (sort (children (nodes d) q)))
      | Inr (q, _) \<Rightarrow> Inl ENOTDIR)"

definition add_entry :: "dir_entry \<Rightarrow> listing \<Rightarrow> listing" where
  "add_entry e out =
     (if max_list_entries \<le> length (li_entries out) then out\<lparr>li_truncated := True\<rparr>
      else out\<lparr>li_entries := li_entries out @ [e]\<rparr>)"

fun list_names ::
  "(string \<times> node option \<Rightarrow> listing \<Rightarrow> read_error option \<times> listing) \<Rightarrow> (string \<times> node option) list \<Rightarrow> listing
     \<Rightarrow> read_error option \<times> listing" where
  "list_names f [] out = (None, out)"
| "list_names f (e # es) out =
     (if li_truncated out then (None, out)
      else (case f e out of
          (Some err, out') \<Rightarrow> (Some err, out')
        | (None, out') \<Rightarrow> list_names f es out'))"

definition list_entry ::
  "(string \<Rightarrow> string \<Rightarrow> listing \<Rightarrow> read_error option \<times> listing) \<Rightarrow> unicode \<Rightarrow> disk \<Rightarrow> workspace \<Rightarrow> string \<Rightarrow> string
     \<Rightarrow> string \<times> node option \<Rightarrow> listing \<Rightarrow> read_error option \<times> listing" where
  "list_entry sub_dir u d w abs_dir rel_dir e out =
     (case e of (name, n) \<Rightarrow>
        (let rel = path_join [rel_dir, name] in
         if excluded u d w rel (n = Some Dir) \<or> sensitive u w rel then (None, out)
         else (case n of
             Some Dir \<Rightarrow>
               (let out' = add_entry \<lparr>de_path = rel, de_dir = True, de_size = 0, de_sha = None\<rparr> out in
                if li_truncated out' then (None, out')
                else sub_dir (path_join [abs_dir, name]) rel out')
           | Some (File c m) \<Rightarrow>
               (case lstat d (segs abs_dir @ [name]) of
                  Inl err \<Rightarrow> (None, out)
                | Inr info \<Rightarrow> (None, add_entry \<lparr>de_path = rel, de_dir = False, de_size = file_bytes info, de_sha = None\<rparr> out))
           | _ \<Rightarrow> (None, out))))"

fun list_into :: "nat \<Rightarrow> unicode \<Rightarrow> disk \<Rightarrow> workspace \<Rightarrow> string \<Rightarrow> string \<Rightarrow> listing \<Rightarrow> read_error option \<times> listing" where
  "list_into 0 u d w abs_dir rel_dir out = (None, out)"
| "list_into (Suc depth) u d w abs_dir rel_dir out =
     (case dir_entries d (segs abs_dir) of
        Inl e \<Rightarrow> (Some (ReadOs rel_dir e), out)
      | Inr es \<Rightarrow> list_names (list_entry (list_into depth u d w) u d w abs_dir rel_dir) es out)"

record list_input =
  in_workspace :: string
  in_path :: string
  in_depth :: int

definition list_at :: "toolset \<Rightarrow> workspace \<Rightarrow> nat \<Rightarrow> string \<Rightarrow> string \<Rightarrow> disk \<Rightarrow> read_error + listing" where
  "list_at T w depth full canon d =
     (let out = \<lparr>li_path = canon, li_entries = [], li_truncated = False\<rparr> in
      case follow d (segs full) of
        Inl ENOENT \<Rightarrow> Inl (PathNotFound canon)
      | Inl e \<Rightarrow> Inl (ReadOs canon e)
      | Inr (q, Dir) \<Rightarrow>
          (case list_into depth (ts_unicode T) d w full canon out of
             (Some e, _) \<Rightarrow> Inl e
           | (None, out') \<Rightarrow> Inr out')
      | Inr (q, File c m) \<Rightarrow>
          (let e = \<lparr>de_path = canon, de_dir = False, de_size = int (length c), de_sha = None\<rparr> in
           if int (length c) \<le> max_file_bytes
           then (case read_file d (segs full) of
               Inl err \<Rightarrow> Inl (ReadOs canon err)
             | Inr data \<Rightarrow> Inr (out\<lparr>li_entries := [e\<lparr>de_sha := Some (ts_sha T data)\<rparr>]\<rparr>))
           else Inr (out\<lparr>li_entries := [e]\<rparr>))
      | Inr (q, _) \<Rightarrow> Inl (NotRegularOrDir canon))"

definition list_directory :: "toolset \<Rightarrow> reader \<Rightarrow> list_input \<Rightarrow> tool_state \<Rightarrow> (read_error + listing) \<times> tool_state" where
  "list_directory T R i s0 =
     (case open_tool T (in_workspace i) s0 of
        (Inl e, s) \<Rightarrow> (Inl (NotOpened e), s)
      | (Inr w, es, st) \<Rightarrow>
         (let depth = (if in_depth i = 0 then 1 else in_depth i); d = es_disk es in
          if depth < 0 \<or> max_list_depth < depth then (Inl BadDepth, es, st)
          else if in_path i = [] \<or> in_path i = dot then (list_at T w (nat depth) (ws_root w) [] d, es, st)
          else (case ws_resolve (ts_unicode T) d w (in_path i) OpRead of
              Inl e \<Rightarrow> (Inl (ReadRefused e), es, st)
            | Inr (full, canon) \<Rightarrow>
               (case check_readable T R w canon d of
                  (Some e, d') \<Rightarrow> (Inl e, es\<lparr>es_disk := d'\<rparr>, st)
                | (None, d') \<Rightarrow> (list_at T w (nat depth) full canon d', es\<lparr>es_disk := d'\<rparr>, st)))))"

section \<open>Sensitive files\<close>

lemma read_one_checked:
  assumes "read_one T R w rel start end_line d = (Inr out, d')"
  shows "\<exists>full. ws_resolve (ts_unicode T) d w rel OpRead = Inr (full, fa_path out)
    \<and> check_readable T R w (fa_path out) d = (None, d')
    \<and> (\<exists>data n. read_file d' (segs full) = Inr data \<and> fa_sha out = ts_sha T data
         \<and> out = read_answer T R w (fa_path out) start end_line data (file_bytes n))"
proof -
  obtain full canon where r: "ws_resolve (ts_unicode T) d w rel OpRead = Inr (full, canon)"
    using assms by (auto simp: read_one_def split: sum.splits)
  obtain d1 where c: "check_readable T R w canon d = (None, d1)"
    using assms r by (auto simp: read_one_def split: prod.splits option.splits)
  obtain q n where f: "follow d1 (segs full) = Inr (q, n)"
    using assms r c by (auto simp: read_one_def split: if_splits sum.splits os_error.splits)
  then obtain data where data: "read_file d1 (segs full) = Inr data"
    "(out, d') = (read_answer T R w canon start end_line data (file_bytes n), d1)"
    using assms r c by (auto simp: read_one_def split: if_splits sum.splits node.splits)
  have "fa_path out = canon" "fa_sha out = ts_sha T data"
    using data(2) by (simp_all add: read_answer_def split: option.split prod.split)
  then show ?thesis using r c data by auto
qed

text \<open>
  With the approval service behind it, at any point of any history and in every mode, a read
  gives the content of a sensitive file only after the user's recorded yes to that file, for
  that platform and workspace; with no approver, never. Excluded files are not read at all.
\<close>

theorem sensitive_reads_need_a_yes:
  assumes "new_service m b' = Inr s0" and "history b s0 w0"
    and "\<And>approve. rd_approver R = Some approve \<Longrightarrow> approve = asked b w0 evs"
    and "read_one T R w rel start end_line d = (Inr out, d')"
  shows "\<not> excluded (ts_unicode T) d w (fa_path out) False \<and>
    (if sensitive (ts_unicode T) w (fa_path out)
     then \<exists>dec. ad_approved dec \<and> (let req = read_request (ts_provider T) (ws_id w) (fa_path out) in
       (ar_change_set req, dec) \<in> set (w_verdicts (play b (Call req # evs) w0)))
     else d' = d)"
proof -
  let ?c = "fa_path out" and ?u = "ts_unicode T"
  let ?req = "read_request (ts_provider T) (ws_id w) ?c"
  let ?w' = "play b (Call ?req # evs) w0"
  from read_one_checked [OF assms(4)] have ck: "check_readable T R w ?c d = (None, d')" by blast
  show ?thesis
  proof (cases "sensitive ?u w ?c")
    case True
    then obtain approve where a: "rd_approver R = Some approve"
      using ck by (auto simp: check_readable_def split: if_splits option.splits)
    then have "approve = asked b w0 evs" by (rule assms(3))
    then have yes: "ad_approved (answer_to ?req w0 ?w')"
      using ck True a by (auto simp: check_readable_def asked_def split: if_splits)
    have "world_inv ?w'" using history_inv [OF history_play [OF assms(2)] assms(1)] .
    then have "answer_ok (w_verdicts ?w') (?req, answer_to ?req w0 ?w')"
      using answer_to_logged [OF yes] by (auto simp: world_inv_def)
    moreover have "\<not> may_pass ?req" by (simp add: may_pass_def read_request_def Let_def)
    ultimately show ?thesis using True yes ck
      by (auto simp: answer_ok_def Let_def check_readable_def split: if_splits)
  qed (use ck in \<open>auto simp: check_readable_def split: if_splits\<close>)
qed

section \<open>What a listing shows\<close>

text \<open>Names on the disk are single components.\<close>

definition names_ok :: "nodes \<Rightarrow> bool" where
  "names_ok ns \<longleftrightarrow> list_all (\<lambda>(p, n). list_all plain_seg p) ns"

definition place :: "workspace \<Rightarrow> string \<Rightarrow> path" where
  "place w rel = segs (ws_root w) @ split_on slash rel"

definition open_name :: "unicode \<Rightarrow> disk \<Rightarrow> workspace \<Rightarrow> nat \<Rightarrow> dir_entry \<Rightarrow> bool" where
  "open_name u d w depth e \<longleftrightarrow>
     \<not> excluded u d w (de_path e) (de_dir e) \<and> \<not> sensitive u w (de_path e)
     \<and> list_all plain_seg (split_on slash (de_path e)) \<and> length (split_on slash (de_path e)) \<le> depth
     \<and> real_dir (nodes d) (butlast (place w (de_path e)))
     \<and> (if de_dir e then map_of (nodes d) (place w (de_path e)) = Some Dir
        else \<exists>c m. map_of (nodes d) (place w (de_path e)) = Some (File c m) \<and> de_size e = int (length c))"

text \<open>The directory that the walk is in, by its name and by its place on the disk.\<close>

definition dir_at :: "disk \<Rightarrow> workspace \<Rightarrow> string \<Rightarrow> string \<Rightarrow> string list \<Rightarrow> bool" where
  "dir_at d w abs_dir rel_dir rs \<longleftrightarrow> list_all plain_seg rs \<and> rel_dir = join_with [slash] rs \<and> clean_abs abs_dir
     \<and> segs abs_dir = segs (ws_root w) @ rs \<and> real_dir (nodes d) (segs abs_dir)"

lemma dir_entries_real:
  assumes "real_dir (nodes d) p" and "names_ok (nodes d)" and "dir_entries d p = Inr es" and "(name, n) \<in> set es"
  shows "plain_seg name \<and> map_of (nodes d) (p @ [name]) = n \<and> n \<noteq> None"
proof -
  have "follow d p = Inl EACCES \<or> follow d p = Inr (p, Dir)"
    using walk_real_dir [OF assms(1), of kernel_links "[]"] real_dir_node [OF assms(1)]
    by (auto simp: follow_def node_at_def)
  then have es: "es = map (\<lambda>n. (n, node_at (nodes d) (p @ [n]))) (sort (children (nodes d) p))"
    using assms(3) by (auto simp: dir_entries_def)
  then obtain q k where q: "(q, k) \<in> set (nodes d)" "q \<noteq> []" "butlast q = p" "last q = name"
    and n: "n = map_of (nodes d) (p @ [name])"
    using assms(4) by (auto simp: children_def List.map_filter_def node_at_def split: if_splits)
  then have pq: "q = p @ [name]" by (metis append_butlast_last_id)
  have "list_all plain_seg q" using q(1) assms(2) by (auto simp: names_ok_def list_all_iff)
  moreover have "map_of (nodes d) q \<noteq> None" using q(1) by (simp add: map_of_eq_None_iff) force
  ultimately show ?thesis using pq n by simp
qed

lemma join_snoc: "list_all plain_seg rs \<Longrightarrow> plain_seg name \<Longrightarrow> path_join [join_with [slash] rs, name] = join_with [slash] (rs @ [name])"
proof -
  assume a: "list_all plain_seg rs" "plain_seg name"
  then have c: "clean (join_with [slash] (rs @ [name])) = join_with [slash] (rs @ [name])"
    by (intro clean_join_plain) simp_all
  show ?thesis
  proof (cases "rs = []")
    case False
    then have "join_with [slash] rs \<noteq> []" using a by (cases rs rule: list.exhaust; cases "tl rs") (auto simp: plain_seg_def)
    then show ?thesis using c a False by (simp add: path_join_def join_with_append plain_seg_def)
  qed (use c a in \<open>simp add: path_join_def plain_seg_def\<close>)
qed

lemma split_join_plain: "list_all plain_seg rs \<Longrightarrow> rs \<noteq> [] \<Longrightarrow> split_on slash (join_with [slash] rs) = rs"
  by (intro split_join) (auto simp: list_all_iff plain_seg_def)

lemma dir_atD:
  assumes "dir_at d w abs_dir rel_dir rs"
  shows "list_all plain_seg rs" and "rel_dir = join_with [slash] rs" and "clean_abs abs_dir"
    and "segs abs_dir = segs (ws_root w) @ rs" and "real_dir (nodes d) (segs abs_dir)"
  using assms unfolding dir_at_def by blast+

lemma dir_at_step:
  assumes "dir_at d w abs_dir rel_dir rs" and "plain_seg name"
  shows "path_join [rel_dir, name] = join_with [slash] (rs @ [name])"
    and "split_on slash (path_join [rel_dir, name]) = rs @ [name]"
    and "place w (path_join [rel_dir, name]) = segs abs_dir @ [name]"
    and "map_of (nodes d) (segs abs_dir @ [name]) = Some Dir \<Longrightarrow>
           dir_at d w (path_join [abs_dir, name]) (path_join [rel_dir, name]) (rs @ [name])"
proof -
  show j: "path_join [rel_dir, name] = join_with [slash] (rs @ [name])"
    using assms by (simp add: dir_at_def join_snoc)
  show s: "split_on slash (path_join [rel_dir, name]) = rs @ [name]"
    unfolding j using assms by (intro split_join_plain) (simp_all add: dir_at_def)
  show "place w (path_join [rel_dir, name]) = segs abs_dir @ [name]"
    unfolding place_def s using assms(1) by (simp add: dir_at_def)
  have abs: "segs (path_join [abs_dir, name]) = segs abs_dir @ [name]" "clean_abs (path_join [abs_dir, name])"
    using join_below [of abs_dir "[name]"] assms dir_atD(3) [OF assms(1)] by simp_all
  assume "map_of (nodes d) (segs abs_dir @ [name]) = Some Dir"
  then have "real_dir (nodes d) (segs (path_join [abs_dir, name]))"
    unfolding abs real_dir_snoc using dir_atD(5) [OF assms(1)] assms(2) by blast
  moreover have "segs (path_join [abs_dir, name]) = segs (ws_root w) @ rs @ [name]"
    unfolding abs using dir_atD(4) [OF assms(1)] by simp
  ultimately show "dir_at d w (path_join [abs_dir, name]) (path_join [rel_dir, name]) (rs @ [name])"
    unfolding dir_at_def using abs(2) j dir_atD(1) [OF assms(1)] assms(2) by simp
qed


definition tidy :: "unicode \<Rightarrow> disk \<Rightarrow> workspace \<Rightarrow> nat \<Rightarrow> listing \<Rightarrow> bool" where
  "tidy u d w depth out \<longleftrightarrow> list_all (open_name u d w depth) (li_entries out) \<and> length (li_entries out) \<le> max_list_entries"

lemma tidy_add: "tidy u d w depth out \<Longrightarrow> open_name u d w depth e \<Longrightarrow> tidy u d w depth (add_entry e out)"
  by (simp add: tidy_def add_entry_def)

lemma tidy_deeper: "tidy u d w depth out \<Longrightarrow> depth \<le> depth' \<Longrightarrow> tidy u d w depth' out"
  by (auto simp: tidy_def list_all_iff open_name_def)

lemma list_names_inv:
  assumes "\<And>e x. e \<in> set es \<Longrightarrow> I x \<Longrightarrow> I (snd (f e x))" and "I out"
  shows "I (snd (list_names f es out))"
  using assms
proof (induction es arbitrary: out)
  case (Cons e es)
  obtain r out' where r: "f e out = (r, out')" by (cases "f e out")
  then have "I out'" using Cons.prems(1) [of e out] Cons.prems(2) by simp
  moreover have "I (snd (list_names f es out'))" if "I out'" using Cons.IH [OF Cons.prems(1) that] by simp
  ultimately show ?case using r Cons.prems(2) by (auto split: option.split)
qed simp

lemma list_entry_tidy:
  assumes at: "dir_at d w abs_dir rel_dir rs" and e: "plain_seg name" "map_of (nodes d) (segs abs_dir @ [name]) = n" "n \<noteq> None"
    and sub_dir: "\<And>a r rs' x. dir_at d w a r rs' \<Longrightarrow> length rs' = Suc (length rs) \<Longrightarrow> tidy u d w depth x \<Longrightarrow>
       tidy u d w depth (snd (sub_dir a r x))"
    and out: "tidy u d w depth out" and depth: "length rs < depth"
  shows "tidy u d w depth (snd (list_entry sub_dir u d w abs_dir rel_dir (name, n) out))"
proof -
  note step = dir_at_step [OF at e(1)]
  note real = dir_atD(5) [OF at]
  have plain: "list_all plain_seg (rs @ [name])" using dir_atD(1) [OF at] e(1) by simp
  have shown: "open_name u d w depth \<lparr>de_path = path_join [rel_dir, name], de_dir = b, de_size = z, de_sha = None\<rparr>"
    if "\<not> excluded u d w (path_join [rel_dir, name]) b" "\<not> sensitive u w (path_join [rel_dir, name])"
      "if b then n = Some Dir else \<exists>c m. n = Some (File c m) \<and> z = int (length c)" for b z
    using that e(2) real plain depth unfolding open_name_def by (auto simp: step(2,3) split: if_splits)
  show ?thesis
  proof (cases n)
    case (Some v)
    have same: "lstat d (segs abs_dir @ [name]) = Inr info \<Longrightarrow> info = v" for info
      using locate_dirs [of "nodes d" "segs abs_dir @ [name]"] real e(1,2) Some
      by (auto simp: lstat_def dirs_to_snoc node_at_def split: if_splits)
    show ?thesis
    proof (cases v)
      case Dir
      then have "dir_at d w (path_join [abs_dir, name]) (path_join [rel_dir, name]) (rs @ [name])"
        using step(4) e(2) Some by simp
      note deeper = sub_dir [OF this, simplified]
      show ?thesis
        using Dir Some out shown [of True 0]
        by (auto simp: list_entry_def Let_def intro!: tidy_add deeper)
    next
      case (File c m)
      then show ?thesis
        using Some out shown [of False "int (length c)"] same
        by (auto simp: list_entry_def Let_def file_bytes_def intro!: tidy_add split: sum.split)
    qed (use Some out in \<open>auto simp: list_entry_def Let_def\<close>)
  qed (use e(3) in simp)
qed

lemma list_into_tidy:
  assumes "names_ok (nodes d)" and "dir_at d w abs_dir rel_dir rs" and "tidy u d w (length rs + depth) out"
  shows "tidy u d w (length rs + depth) (snd (list_into depth u d w abs_dir rel_dir out))"
  using assms(2,3)
proof (induction depth arbitrary: abs_dir rel_dir rs out)
  case (Suc depth)
  note real = dir_atD(5) [OF Suc.prems(1)]
  show ?case
  proof (cases "dir_entries d (segs abs_dir)")
    case (Inr es)
    have "tidy u d w (length rs + Suc depth) (snd (list_entry (list_into depth u d w) u d w abs_dir rel_dir e x'))"
      if "e \<in> set es" "tidy u d w (length rs + Suc depth) x'" for e x'
    proof (cases e)
      case (Pair name n)
      note en = dir_entries_real [OF real assms(1) Inr that(1) [unfolded Pair]]
      have "tidy u d w (length rs + Suc depth) (snd (list_into depth u d w a r y'))"
        if "dir_at d w a r rs'" "length rs' = Suc (length rs)" "tidy u d w (length rs + Suc depth) y'" for a r rs' y'
        using Suc.IH [OF that(1), of y'] that(2,3) by simp
      then show ?thesis unfolding Pair
        using en by (intro list_entry_tidy [OF Suc.prems(1) _ _ _ _ that(2)]) auto
    qed
    then show ?thesis using Inr Suc.prems(2) by (auto intro: list_names_inv)
  qed (use Suc.prems in simp)
qed simp

lemma open_tool_real:
  assumes "open_tool T k (es, st) = (Inr w, s')"
  shows "clean_abs (ws_root w)" and "real_dir (nodes (es_disk es)) (segs (ws_root w))"
proof -
  obtain j st1 s1 where "open_workspace (ts_machine T) (es_disk es) (ts_now T) j st1 = (Inr w, s1)"
    using assms by (auto simp: open_tool_def split: prod.splits sum.splits option.splits)
  then obtain rec where "from_record (ts_machine T) (es_disk es) rec = Inr w"
    by (auto simp: open_workspace_def split: prod.splits sum.splits option.splits if_splits)
  then obtain root where "resolve_root (ts_machine T) (es_disk es) root = Inr (ws_root w)"
    by (auto simp: from_record_def split: sum.splits)
  from resolve_root_real [OF this] show "clean_abs (ws_root w)" "real_dir (nodes (es_disk es)) (segs (ws_root w))"
    by blast+
qed

lemma list_at_tidy:
  assumes "list_at T w depth full canon d = Inr out" and "names_ok (nodes d)"
    and "\<And>q. follow d (segs full) = Inr (q, Dir) \<Longrightarrow> dir_at d w full canon rs"
  shows "li_path out = canon \<and> length (li_entries out) \<le> max_list_entries
    \<and> list_all (\<lambda>e. if de_path e = canon then True else open_name (ts_unicode T) d w (length rs + depth) e) (li_entries out)"
proof -
  define empty where "empty = \<lparr>li_path = canon, li_entries = [], li_truncated = False\<rparr>"
  obtain q n where f: "follow d (segs full) = Inr (q, n)"
    using assms(1) by (auto simp: list_at_def Let_def split: sum.splits os_error.splits)
  show ?thesis
  proof (cases n)
    case Dir
    have path: "li_path (snd (list_names g es x)) = li_path x" if "\<And>e x. li_path (snd (g e x)) = li_path x" for g es x
      using list_names_inv [of es "\<lambda>y. li_path y = li_path x" g x] that by simp
    have entry: "li_path (snd (list_entry g u d' w' a r e x)) = li_path x" if "\<And>a r x. li_path (snd (g a r x)) = li_path x" for g u d' w' a r e x
      by (cases e) (auto simp: list_entry_def add_entry_def Let_def that split: option.splits node.splits sum.splits)
    have "li_path (snd (list_into k u d' w' a r x)) = li_path x" for k u d' w' a r x
      by (induction k arbitrary: a r x) (simp_all add: path entry split: sum.split)
    moreover have "tidy (ts_unicode T) d w (length rs + depth) (snd (list_into depth (ts_unicode T) d w full canon empty))"
      using assms(3) f Dir by (intro list_into_tidy [OF assms(2)]) (auto simp: tidy_def empty_def)
    moreover have "out = snd (list_into depth (ts_unicode T) d w full canon empty)"
      using assms(1) f Dir by (auto simp: list_at_def Let_def empty_def split: prod.splits option.splits)
    ultimately show ?thesis by (auto simp: tidy_def empty_def list_all_iff)
  qed (use assms(1) f in \<open>auto simp: list_at_def Let_def max_list_entries_def split: if_splits sum.splits\<close>)
qed

text \<open>
  On a well-formed disk that no other program changes during the call: a listing has at most
  2000 entries, and each of them but the path asked for itself is an entry that is neither
  excluded nor sensitive, lies below the root at most ten levels under that path, is reached
  through real directories, and is itself a directory or a regular file of the size it is
  shown with, never a link.
\<close>

theorem listings_hide:
  assumes "list_directory T R i (es, st) = (Inr out, s')" and "open_tool T (in_workspace i) (es, st) = (Inr w, s1)"
    and "nodes_ok (nodes (es_disk es))" and "names_ok (nodes (es_disk es))"
    and "\<And>approve req d. rd_approver R = Some approve \<Longrightarrow> snd (approve req d) = d"
  shows "length (li_entries out) \<le> max_list_entries
    \<and> list_all (\<lambda>e. if de_path e = li_path out then True
        else open_name (ts_unicode T) (es_disk es) w (length (split_on slash (li_path out)) + nat max_list_depth) e) (li_entries out)"
proof -
  let ?d = "es_disk es" and ?u = "ts_unicode T"
  define depth where "depth = nat (if in_depth i = 0 then 1 else in_depth i)"
  note real = open_tool_real [OF assms(2)]
  obtain st1 where s1: "s1 = (es, st1)" using open_tool_keeps [OF assms(2)] by (cases s1) simp
  have d: "depth \<le> nat max_list_depth"
    using assms(1,2) s1 by (auto simp: list_directory_def depth_def max_list_depth_def Let_def split: if_splits)
  have "\<exists>full rs. list_at T w depth full (li_path out) ?d = Inr out \<and> length rs \<le> length (split_on slash (li_path out))
      \<and> (\<forall>q. follow ?d (segs full) = Inr (q, Dir) \<longrightarrow> dir_at ?d w full (li_path out) rs)"
  proof (cases "in_path i = [] \<or> in_path i = dot")
    case True
    have at: "dir_at ?d w (ws_root w) [] []" using real by (simp add: dir_at_def)
    moreover have l: "list_at T w depth (ws_root w) [] ?d = Inr out"
      using assms(1,2) s1 True by (auto simp: list_directory_def depth_def Let_def split: if_splits)
    moreover have "li_path out = []" using list_at_tidy [OF l assms(4) at] by simp
    ultimately show ?thesis by (intro exI [of _ "ws_root w"] exI [of _ "[]"]) simp
  next
    case False
    then obtain full canon where r: "ws_resolve ?u ?d w (in_path i) OpRead = Inr (full, canon)"
      using assms(1,2) s1 by (auto simp: list_directory_def Let_def split: if_splits sum.splits)
    then have res: "resolve ?u ?d (ws_root w) (in_path i) OpRead = Inr (full, canon)" by (simp add: ws_resolve_def)
    obtain d' where c: "check_readable T R w canon ?d = (None, d')"
      using assms(1,2) s1 False r by (auto simp: list_directory_def Let_def split: if_splits prod.splits option.splits)
    have "snd (check_readable T R w canon ?d) = ?d"
      using assms(5) by (auto simp: check_readable_def split: option.split sum.split prod.split) (metis snd_conv)+
    then have d': "d' = ?d" using c by simp
    have l: "list_at T w depth full canon ?d = Inr out"
      using assms(1,2) s1 False r c d' by (auto simp: list_directory_def depth_def Let_def split: if_splits)
    note s = resolve_segs [OF res real(1)] and own = resolve_opens_itself [OF res real assms(3)]
    have at: "dir_at ?d w full canon (split_on slash canon)" if f: "follow ?d (segs full) = Inr (q, Dir)" for q
    proof -
      have "walk (nodes ?d) kernel_links [] (segs full) = Inr q"
        using f by (auto simp: follow_def split: sum.splits if_splits option.splits)
      moreover have "walk (nodes ?d) kernel_links [] (segs full) = Inr (segs full) \<or> walk (nodes ?d) kernel_links [] (segs full) = Inl ENOENT"
        using own unfolding opens_itself_def by blast
      ultimately have q: "q = segs full" by auto
      have "segs full \<noteq> []" using s(1) by simp
      then have n: "map_of (nodes ?d) (segs full) = Some Dir" using f q by (auto simp: follow_def node_at_def split: sum.splits if_splits option.splits)
      have "list_all plain_seg (segs full)" using map_of_SomeD [OF n] assms(4) by (auto simp: names_ok_def list_all_iff)
      then have "real_dir (nodes ?d) (segs full)"
        using n assms(3) by (auto simp: real_dir_def nodes_ok_def le_less)
      then show ?thesis using s canonical_segs [OF s(3)] by (simp add: dir_at_def canonical_def)
    qed
    moreover have "li_path out = canon" using list_at_tidy [OF l assms(4), of "split_on slash canon"] at by blast
    ultimately show ?thesis using l by (intro exI [of _ full] exI [of _ "split_on slash canon"]) auto
  qed
  then obtain full rs where l: "list_at T w depth full (li_path out) ?d = Inr out"
    and rs: "length rs \<le> length (split_on slash (li_path out))"
    and at: "\<And>q. follow ?d (segs full) = Inr (q, Dir) \<Longrightarrow> dir_at ?d w full (li_path out) rs" by blast
  have "length rs + depth \<le> length (split_on slash (li_path out)) + nat max_list_depth" using rs d by simp
  moreover have "length (li_entries out) \<le> max_list_entries
    \<and> list_all (\<lambda>e. if de_path e = li_path out then True else open_name ?u ?d w (length rs + depth) e) (li_entries out)"
    using list_at_tidy [OF l assms(4), of rs] at by blast
  ultimately show ?thesis
    by (auto simp: list_all_iff open_name_def split: if_splits)
qed

end
