(* ===== verification/SearchTools.thy ===== *)
theory SearchTools
  imports ReadTools
begin

text \<open>
  \<open>search_files\<close> of \<^verbatim>\<open>mcpserver/search.go\<close>: the walk over the workspace, the scan of a file and the
  name patterns. Go's regular expressions are a parameter, and so is the moment at which the
  time budget runs out: the number of times the walk still finds it unexpired.
\<close>

section \<open>Input and matcher\<close>

definition max_search_files :: nat where "max_search_files = 20000"
definition max_search_file_bytes :: int where "max_search_file_bytes = 4194304"
definition max_search_results :: int where "max_search_results = 1000"
definition default_search_results :: int where "default_search_results = 100"
definition max_context_lines :: int where "max_context_lines = 5"
definition max_match_line_len :: nat where "max_match_line_len = 500"

record search_input =
  si_workspace :: string
  si_query :: string
  si_glob :: string
  si_regex :: bool
  si_case :: bool
  si_max :: int
  si_context :: int

datatype search_error =
    NothingToFind
  | BadMaxResults
  | BadContextLines
  | InvalidGlob string
  | InvalidRegex
  | SearchNotOpened tool_error

fun single_stars :: "string \<Rightarrow> string" where
  "single_stars [] = []"
| "single_stars [a] = [a]"
| "single_stars (a # b # s) =
     (if a = CHR ''*'' \<and> b = CHR ''*'' then CHR ''*'' # single_stars s else a # single_stars (b # s))"

type_synonym matcher = "string \<Rightarrow> bool"

definition line_matcher :: "(string \<Rightarrow> matcher option) \<Rightarrow> unicode \<Rightarrow> search_input \<Rightarrow> search_error + matcher option" where
  "line_matcher compile u i =
     (if si_query i = [] then Inr None
      else if si_regex i then
        (case compile (if si_case i then si_query i else ''(?i)'' @ si_query i) of
           None \<Rightarrow> Inl InvalidRegex
         | Some m \<Rightarrow> Inr (Some m))
      else if si_case i then Inr (Some (\<lambda>line. contains line (si_query i)))
      else (let lower = to_lower u (si_query i) in Inr (Some (\<lambda>line. contains (to_lower u line) lower))))"

fun segs_match :: "string list \<Rightarrow> string list \<Rightarrow> bool" where
  "segs_match [] segments = (segments = [])"
| "segs_match (p # ps) segments =
     (if p = ''**'' then list_ex (\<lambda>i. segs_match ps (drop i segments)) [0..<Suc (length segments)]
      else (case segments of
          [] \<Rightarrow> False
        | s # ss \<Rightarrow> (case path_match p s of Inl e \<Rightarrow> False | Inr ok \<Rightarrow> if ok then segs_match ps ss else False)))"

definition glob_match :: "string \<Rightarrow> string \<Rightarrow> bool" where
  "glob_match pattern rel =
     (if \<not> contains pattern [slash] \<and> \<not> contains pattern ''**''
      then (case path_match pattern (path_base rel) of Inl e \<Rightarrow> False | Inr ok \<Rightarrow> ok)
      else segs_match (split_on slash pattern) (split_on slash rel))"

section \<open>One file\<close>

record search_hit =
  sh_path :: string
  sh_line :: nat
    \<comment> \<open>0 for a match of the name\<close>
  sh_text :: string
  sh_context :: "string list"

record searching =
  sc_hits :: "search_hit list"
  sc_truncated :: bool
  sc_scanned :: nat
  sc_checks :: "nat option"

text \<open>The lines \<open>bufio.Scanner\<close> gives with a buffer of at most 2 MiB.\<close>

definition max_search_token :: int where "max_search_token = 2097152"

definition scan_text :: "string \<Rightarrow> string list" where
  "scan_text content =
     (let ls = split_on newline content;
          ls' = (if last ls = [] then butlast ls else ls)
      in map drop_cr (takeWhile (\<lambda>l. int (length l) < max_search_token) ls'))"

text \<open>How many lines are read, and the numbers of those that match.\<close>

fun scan_hits :: "matcher \<Rightarrow> nat \<Rightarrow> nat \<Rightarrow> nat list \<Rightarrow> string list \<Rightarrow> nat \<times> nat list" where
  "scan_hits match room no pend [] = (no, pend)"
| "scan_hits match room no pend (l # ls) =
     (if match l then
        (if room \<le> length (pend @ [Suc no]) then (Suc no, pend @ [Suc no])
         else scan_hits match room (Suc no) (pend @ [Suc no]) ls)
      else scan_hits match room (Suc no) pend ls)"

definition context_of :: "nat \<Rightarrow> string list \<Rightarrow> nat \<Rightarrow> string list" where
  "context_of n lines no =
     map (\<lambda>i. truncate_utf8 (lines ! i) max_match_line_len)
       (filter (\<lambda>i. i \<noteq> no - 1) [no - 1 - n..<min (no + n) (length lines)])"

fun emit_hits :: "search_input \<Rightarrow> string \<Rightarrow> string list \<Rightarrow> nat list \<Rightarrow> searching \<Rightarrow> searching" where
  "emit_hits i rel lines [] st = st"
| "emit_hits i rel lines (no # pend) st =
     (if nat (si_max i) \<le> length (sc_hits st) then st\<lparr>sc_truncated := True\<rparr>
      else emit_hits i rel lines pend
        (st\<lparr>sc_hits := sc_hits st @ [\<lparr>sh_path = rel, sh_line = no, sh_text = truncate_utf8 (lines ! (no - 1)) max_match_line_len,
           sh_context = (if 0 < si_context i then context_of (nat (si_context i)) lines no else [])\<rparr>]\<rparr>))"

definition search_file :: "disk \<Rightarrow> search_input \<Rightarrow> matcher \<Rightarrow> path \<Rightarrow> string \<Rightarrow> searching \<Rightarrow> searching" where
  "search_file d i match p rel st0 =
     (case follow d p of
        Inl e \<Rightarrow> st0
      | Inr (q, n) \<Rightarrow>
          if max_search_file_bytes < file_bytes n then st0
          else (case read_file d p of
              Inl e \<Rightarrow> st0
            | Inr content \<Rightarrow>
                (let st = st0\<lparr>sc_scanned := sc_scanned st0 + 1\<rparr> in
                 if contains_byte (take 8192 content) nul then st
                 else (case scan_hits match (nat (si_max i) - length (sc_hits st)) 0 [] (scan_text content) of
                     (no, pend) \<Rightarrow> emit_hits i rel (take no (scan_text content)) pend st))))"

section \<open>The walk\<close>

definition time_over :: "searching \<Rightarrow> bool \<times> searching" where
  "time_over st =
     (case sc_checks st of
        None \<Rightarrow> (False, st)
      | Some 0 \<Rightarrow> (True, st)
      | Some (Suc k) \<Rightarrow> (False, st\<lparr>sc_checks := Some k\<rparr>))"

definition budget_left :: "search_input \<Rightarrow> searching \<Rightarrow> bool" where
  "budget_left i st = (length (sc_hits st) < nat (si_max i) \<and> sc_scanned st < max_search_files)"

text \<open>The loop over a directory; the first component is whether the time ran out.\<close>

fun search_names ::
  "search_input \<Rightarrow> (string \<times> node option \<Rightarrow> searching \<Rightarrow> bool \<times> searching) \<Rightarrow> (string \<times> node option) list \<Rightarrow> searching
     \<Rightarrow> bool \<times> searching" where
  "search_names i f [] st = (False, st)"
| "search_names i f (e # es) st =
     (if \<not> budget_left i st then (False, st\<lparr>sc_truncated := True\<rparr>)
      else (case time_over st of
          (True, st') \<Rightarrow> (True, st')
        | (False, st') \<Rightarrow>
            (case f e st' of
               (True, st'') \<Rightarrow> (True, st'')
             | (False, st'') \<Rightarrow> search_names i f es st'')))"

definition search_entry ::
  "(string \<Rightarrow> string \<Rightarrow> searching \<Rightarrow> bool \<times> searching) \<Rightarrow> unicode \<Rightarrow> disk \<Rightarrow> workspace \<Rightarrow> search_input \<Rightarrow> matcher option
     \<Rightarrow> string \<Rightarrow> string \<Rightarrow> string \<times> node option \<Rightarrow> searching \<Rightarrow> bool \<times> searching" where
  "search_entry walk_dir u d w i matcher abs_dir rel_dir e st =
     (case e of (name, n) \<Rightarrow>
        (let rel = path_join [rel_dir, name] in
         if excluded u d w rel (n = Some Dir) \<or> sensitive u w rel then (False, st)
         else (case n of
             Some Dir \<Rightarrow> walk_dir (path_join [abs_dir, name]) rel st
           | Some (File c m) \<Rightarrow>
               if si_glob i \<noteq> [] \<and> \<not> glob_match (si_glob i) rel then (False, st)
               else (case matcher of
                   None \<Rightarrow> (False, st\<lparr>sc_hits := sc_hits st @ [\<lparr>sh_path = rel, sh_line = 0, sh_text = [], sh_context = []\<rparr>]\<rparr>)
                 | Some match \<Rightarrow> (False, search_file d i match (segs (path_join [abs_dir, name])) rel st))
           | _ \<Rightarrow> (False, st))))"

text \<open>\<open>fuel\<close> bounds the depth; \<open>deep_enough\<close> is never exceeded.\<close>

fun search_walk ::
  "nat \<Rightarrow> unicode \<Rightarrow> disk \<Rightarrow> workspace \<Rightarrow> search_input \<Rightarrow> matcher option \<Rightarrow> string \<Rightarrow> string \<Rightarrow> searching \<Rightarrow> bool \<times> searching" where
  "search_walk 0 u d w i matcher abs_dir rel_dir st = (False, st)"
| "search_walk (Suc fuel) u d w i matcher abs_dir rel_dir st =
     (case time_over st of
        (True, st') \<Rightarrow> (True, st')
      | (False, st') \<Rightarrow>
         (case dir_entries d (segs abs_dir) of
            Inl e \<Rightarrow> (False, st')
          | Inr es \<Rightarrow> search_names i (search_entry (search_walk fuel u d w i matcher) u d w i matcher abs_dir rel_dir) es st'))"

definition deep_enough :: "disk \<Rightarrow> nat" where
  "deep_enough d = Suc (Max (insert 0 (set (map (length \<circ> fst) (nodes d)))))"

definition search_from :: "toolset \<Rightarrow> search_input \<Rightarrow> matcher option \<Rightarrow> nat option \<Rightarrow> workspace \<Rightarrow> disk \<Rightarrow> searching" where
  "search_from T i matcher checks w d =
     (case search_walk (deep_enough d) (ts_unicode T) d w i matcher (ws_root w) []
         \<lparr>sc_hits = [], sc_truncated = False, sc_scanned = 0, sc_checks = checks\<rparr> of
        (over, st) \<Rightarrow> if over \<or> fst (time_over st) then st\<lparr>sc_truncated := True\<rparr> else st)"

definition search_files ::
  "toolset \<Rightarrow> (string \<Rightarrow> matcher option) \<Rightarrow> nat option \<Rightarrow> search_input \<Rightarrow> tool_state \<Rightarrow> (search_error + searching) \<times> tool_state" where
  "search_files T compile checks i0 s0 =
     (if si_query i0 = [] \<and> si_glob i0 = [] then (Inl NothingToFind, s0)
      else if si_max i0 < 0 \<or> max_search_results < si_max i0 then (Inl BadMaxResults, s0)
      else (let i = (if si_max i0 = 0 then i0\<lparr>si_max := default_search_results\<rparr> else i0) in
        if si_context i < 0 \<or> max_context_lines < si_context i then (Inl BadContextLines, s0)
        else if si_glob i \<noteq> [] \<and> (case path_match (single_stars (si_glob i)) ''probe'' of Inl e \<Rightarrow> True | Inr ok \<Rightarrow> False)
        then (Inl (InvalidGlob (si_glob i)), s0)
        else (case line_matcher compile (ts_unicode T) i of
            Inl e \<Rightarrow> (Inl e, s0)
          | Inr matcher \<Rightarrow>
             (case open_tool T (si_workspace i) s0 of
                (Inl e, s) \<Rightarrow> (Inl (SearchNotOpened e), s)
              | (Inr w, es, st) \<Rightarrow> (Inr (search_from T i matcher checks w (es_disk es)), es, st)))))"

section \<open>Name patterns\<close>

text \<open>The same matcher as the one of ignore files, written a second time in the source.\<close>

lemma segs_match_eq: "segs_match ps ss = match_segments ps ss"
  by (induction ps ss rule: segs_match.induct) (auto simp: glob_ok_def list_ex_iff split: list.split sum.split)

section \<open>What a hit is\<close>

definition hit_ok :: "unicode \<Rightarrow> disk \<Rightarrow> workspace \<Rightarrow> search_input \<Rightarrow> matcher option \<Rightarrow> search_hit \<Rightarrow> bool" where
  "hit_ok u d w i matcher h \<longleftrightarrow>
     \<not> excluded u d w (sh_path h) False \<and> \<not> sensitive u w (sh_path h)
     \<and> list_all plain_seg (split_on slash (sh_path h)) \<and> real_dir (nodes d) (butlast (place w (sh_path h)))
     \<and> (si_glob i = [] \<or> glob_match (si_glob i) (sh_path h))
     \<and> (\<exists>c m. map_of (nodes d) (place w (sh_path h)) = Some (File c m)
          \<and> (case matcher of None \<Rightarrow> sh_line h = 0
             | Some match \<Rightarrow> 0 < sh_line h \<and> sh_line h \<le> length (scan_text c) \<and> match (scan_text c ! (sh_line h - 1))
                 \<and> sh_text h = truncate_utf8 (scan_text c ! (sh_line h - 1)) max_match_line_len))"

lemma scan_hits_found:
  assumes "scan_hits match room no pend ls = (no', pend')"
  shows "no \<le> no' \<and> no' \<le> no + length ls \<and>
    list_all (\<lambda>k. k \<in> set pend \<or> no < k \<and> k \<le> no' \<and> match (ls ! (k - Suc no))) pend'"
  using assms
proof (induction match room no pend ls rule: scan_hits.induct)
  case (2 match room no pend l ls)
  let ?rest = "list_all (\<lambda>k. k \<in> set pend \<or> no < k \<and> k \<le> no' \<and> match ((l # ls) ! (k - Suc no))) pend'"
  have lift: ?rest if "list_all (\<lambda>k. k \<in> set p \<or> Suc no < k \<and> k \<le> no' \<and> match (ls ! (k - Suc (Suc no)))) pend'"
    "p = pend \<or> p = pend @ [Suc no] \<and> match l" "Suc no \<le> no'" for p
    using that by (auto simp: list_all_iff nth_Cons' Suc_diff_Suc)
  consider (stop) "match l" "room \<le> length (pend @ [Suc no])" | (hit) "match l" "\<not> room \<le> length (pend @ [Suc no])" | (pass) "\<not> match l"
    by blast
  then show ?case
  proof cases
    case stop
    then show ?thesis using "2.prems" by (auto simp: list_all_iff)
  next
    case hit
    then show ?thesis using "2.IH"(1) "2.prems" lift [of "pend @ [Suc no]"] by auto
  next
    case pass
    then show ?thesis using "2.IH"(2) "2.prems" lift [of pend] by auto
  qed
qed (auto simp: list_all_iff)

lemma emit_hits_all:
  assumes "list_all P (sc_hits st)" and "length (sc_hits st) \<le> nat (si_max i)"
    and "\<And>no ctx. no \<in> set pend \<Longrightarrow>
      P \<lparr>sh_path = rel, sh_line = no, sh_text = truncate_utf8 (lines ! (no - 1)) max_match_line_len, sh_context = ctx\<rparr>"
  shows "list_all P (sc_hits (emit_hits i rel lines pend st)) \<and> length (sc_hits (emit_hits i rel lines pend st)) \<le> nat (si_max i)"
  using assms by (induction pend arbitrary: st) (auto simp: not_le)

text \<open>The hits of a search, all good and not too many.\<close>

definition good_hits :: "unicode \<Rightarrow> disk \<Rightarrow> workspace \<Rightarrow> search_input \<Rightarrow> matcher option \<Rightarrow> searching \<Rightarrow> bool" where
  "good_hits u d w i matcher st \<longleftrightarrow> list_all (hit_ok u d w i matcher) (sc_hits st) \<and> length (sc_hits st) \<le> nat (si_max i)"

lemma good_hits_same: "sc_hits st' = sc_hits st \<Longrightarrow> good_hits u d w i m st' = good_hits u d w i m st"
  by (simp add: good_hits_def)

lemma time_over_hits [simp]: "sc_hits (snd (time_over st)) = sc_hits st"
  by (simp add: time_over_def split: option.split nat.split)

lemma search_names_good:
  assumes "\<And>e x. e \<in> set es \<Longrightarrow> good_hits u d w i m x \<Longrightarrow> length (sc_hits x) < nat (si_max i) \<Longrightarrow> good_hits u d w i m (snd (f e x))"
    and "good_hits u d w i m st"
  shows "good_hits u d w i m (snd (search_names i f es st))"
  using assms
proof (induction es arbitrary: st)
  case (Cons e es)
  show ?case
  proof (cases "budget_left i st")
    case True
    obtain b st1 where x: "time_over st = (b, st1)" by (cases "time_over st")
    have h: "sc_hits st1 = sc_hits st" using time_over_hits [of st] x by simp
    obtain c st2 where f: "f e st1 = (c, st2)" by (cases "f e st1")
    have "good_hits u d w i m st2"
      using Cons.prems(1) [of e st1] Cons.prems(2) h f True by (simp add: good_hits_def budget_left_def)
    moreover have "good_hits u d w i m (snd (search_names i f es st2))" if "good_hits u d w i m st2"
      using Cons.IH [OF Cons.prems(1) that] by simp
    ultimately show ?thesis using True x f Cons.prems(2) h good_hits_same [OF h] by (auto split: bool.split)
  qed (use Cons.prems in \<open>simp add: good_hits_def\<close>)
qed simp

lemma search_file_good:
  assumes at: "dir_at d w abs_dir rel_dir rs" and name: "plain_seg name" "map_of (nodes d) (segs abs_dir @ [name]) = Some (File c m)"
    and vis: "\<not> excluded u d w (path_join [rel_dir, name]) False" "\<not> sensitive u w (path_join [rel_dir, name])"
    and glob: "si_glob i = [] \<or> glob_match (si_glob i) (path_join [rel_dir, name])"
    and st: "good_hits u d w i (Some match) st"
  shows "good_hits u d w i (Some match) (search_file d i match (segs (path_join [abs_dir, name])) (path_join [rel_dir, name]) st)"
proof -
  let ?p = "segs (path_join [abs_dir, name])" and ?rel = "path_join [rel_dir, name]"
  have p: "?p = segs abs_dir @ [name]"
    using join_below [of abs_dir "[name]"] dir_atD(3) [OF at] name(1) by simp
  note step = dir_at_step [OF at name(1)]
  have "walk (nodes d) kernel_links [] ?p = Inr ?p"
    unfolding p by (rule walk_last [OF dir_atD(5) [OF at] name(1,2)]) simp
  then have content: "read_file d ?p = Inr x \<Longrightarrow> x = c" for x
    using name(2) p by (auto simp: read_file_def follow_def node_at_def split: sum.splits if_splits)
  have ok: "hit_ok u d w i (Some match) \<lparr>sh_path = ?rel, sh_line = k, sh_text = truncate_utf8 (take no (scan_text c) ! (k - 1)) max_match_line_len, sh_context = ctx\<rparr>"
    if "scan_hits match room 0 [] (scan_text c) = (no, pend)" "k \<in> set pend" for k no pend room ctx
  proof -
    have "0 < k" "k \<le> no" "match (scan_text c ! (k - 1))" "no \<le> length (scan_text c)"
      using scan_hits_found [OF that(1)] that(2) by (auto simp: list_all_iff)
    moreover have "list_all plain_seg (rs @ [name])" using dir_atD(1) [OF at] name(1) by simp
    ultimately show ?thesis
      using vis glob name(2) dir_atD(5) [OF at] unfolding hit_ok_def by (auto simp: step(2,3))
  qed
  show ?thesis
  proof (cases "read_file d ?p")
    case (Inr x)
    then have x: "x = c" by (rule content)
    obtain no pend where sc: "scan_hits match (nat (si_max i) - length (sc_hits st)) 0 [] (scan_text c) = (no, pend)"
      by (cases "scan_hits match (nat (si_max i) - length (sc_hits st)) 0 [] (scan_text c)")
    have "good_hits u d w i (Some match) (emit_hits i ?rel (take no (scan_text c)) pend (st\<lparr>sc_scanned := sc_scanned st + 1\<rparr>))"
      using emit_hits_all [of "hit_ok u d w i (Some match)" "st\<lparr>sc_scanned := sc_scanned st + 1\<rparr>" i pend ?rel "take no (scan_text c)"]
        ok [OF sc] st by (simp add: good_hits_def)
    then show ?thesis using st Inr x sc
      by (auto simp: search_file_def Let_def good_hits_def split: sum.split)
  qed (use st in \<open>auto simp: search_file_def split: sum.split\<close>)
qed

lemma search_entry_good:
  assumes at: "dir_at d w abs_dir rel_dir rs" and e: "plain_seg name" "map_of (nodes d) (segs abs_dir @ [name]) = n"
    and walk_dir: "\<And>a r rs' x. dir_at d w a r rs' \<Longrightarrow> good_hits u d w i m x \<Longrightarrow> good_hits u d w i m (snd (walk_dir a r x))"
    and st: "good_hits u d w i m st" "length (sc_hits st) < nat (si_max i)"
  shows "good_hits u d w i m (snd (search_entry walk_dir u d w i m abs_dir rel_dir (name, n) st))"
proof -
  note step = dir_at_step [OF at e(1)]
  show ?thesis
  proof (cases n)
    case (Some v)
    show ?thesis
    proof (cases v)
      case Dir
      then show ?thesis using walk_dir [OF step(4)] e(2) Some st(1) by (simp add: search_entry_def Let_def)
    next
      case (File c k)
      note there = e(2) [unfolded Some File]
      have "hit_ok u d w i None \<lparr>sh_path = path_join [rel_dir, name], sh_line = 0, sh_text = [], sh_context = []\<rparr>"
        if "\<not> excluded u d w (path_join [rel_dir, name]) False" "\<not> sensitive u w (path_join [rel_dir, name])"
          "si_glob i = [] \<or> glob_match (si_glob i) (path_join [rel_dir, name])"
      proof -
        have "list_all plain_seg (rs @ [name])" using dir_atD(1) [OF at] e(1) by simp
        then show ?thesis using that there dir_atD(5) [OF at] unfolding hit_ok_def by (auto simp: step(2,3))
      qed
      then show ?thesis
        using st search_file_good [OF at e(1) there] Some File
        by (cases m) (auto simp: search_entry_def Let_def good_hits_def)
    qed (use st Some in \<open>simp_all add: search_entry_def Let_def\<close>)
  qed (use st in \<open>simp add: search_entry_def Let_def\<close>)
qed

lemma search_walk_good:
  assumes "names_ok (nodes d)" and "dir_at d w abs_dir rel_dir rs" and "good_hits u d w i m st"
  shows "good_hits u d w i m (snd (search_walk fuel u d w i m abs_dir rel_dir st))"
  using assms(2,3)
proof (induction fuel arbitrary: abs_dir rel_dir rs st)
  case (Suc fuel)
  note real = dir_atD(5) [OF Suc.prems(1)]
  obtain b st1 where x: "time_over st = (b, st1)" by (cases "time_over st")
  have st1: "good_hits u d w i m st1" using time_over_hits [of st] x Suc.prems(2) good_hits_same [of st1 st] by simp
  show ?case
  proof (cases "dir_entries d (segs abs_dir)")
    case (Inr es)
    have "good_hits u d w i m (snd (search_entry (search_walk fuel u d w i m) u d w i m abs_dir rel_dir e y))"
      if "e \<in> set es" "good_hits u d w i m y" "length (sc_hits y) < nat (si_max i)" for e y
    proof (cases e)
      case (Pair name n)
      note en = dir_entries_real [OF real assms(1) Inr that(1) [unfolded Pair]]
      then show ?thesis unfolding Pair
        using Suc.IH that(2,3) by (intro search_entry_good [OF Suc.prems(1)]) auto
    qed
    from search_names_good [OF this st1] show ?thesis using x Inr st1 by (simp split: bool.split)
  qed (use st1 x in \<open>simp split: bool.split\<close>)
qed simp

text \<open>
  On a well-formed disk a search returns at most the asked number of hits, and each is in a
  regular file below the root that is reached through real directories, is neither excluded
  nor sensitive and is named as the glob asks; a hit with a line number is that line of the
  file, and it matches.
\<close>

theorem searches_hide:
  assumes "open_tool T k (es, st) = (Inr w, s1)" and "names_ok (nodes (es_disk es))"
  shows "good_hits (ts_unicode T) (es_disk es) w i matcher (search_from T i matcher checks w (es_disk es))"
proof -
  have at: "dir_at (es_disk es) w (ws_root w) [] []" using open_tool_real [OF assms(1)] by (simp add: dir_at_def)
  let ?s0 = "\<lparr>sc_hits = [], sc_truncated = False, sc_scanned = 0, sc_checks = checks\<rparr>"
  obtain b x where x: "search_walk (deep_enough (es_disk es)) (ts_unicode T) (es_disk es) w i matcher (ws_root w) [] ?s0 = (b, x)"
    by (cases "search_walk (deep_enough (es_disk es)) (ts_unicode T) (es_disk es) w i matcher (ws_root w) [] ?s0")
  have "good_hits (ts_unicode T) (es_disk es) w i matcher x"
    using search_walk_good [OF assms(2) at, of "ts_unicode T" i matcher ?s0 "deep_enough (es_disk es)"] x
    by (simp add: good_hits_def)
  then show ?thesis using x good_hits_same [of "x\<lparr>sc_truncated := True\<rparr>" x] by (simp add: search_from_def)
qed

section \<open>The walk ends\<close>

lemma deep_enough_member: "map_of (nodes d) p = Some n \<Longrightarrow> length p < deep_enough d"
  by (auto simp: deep_enough_def less_Suc_eq_le dest!: map_of_SomeD intro!: Max_ge) (metis fst_conv image_eqI)

lemma search_names_cong: "(\<And>e x. e \<in> set es \<Longrightarrow> f e x = g e x) \<Longrightarrow> search_names i f es st = search_names i g es st"
proof (induction es arbitrary: st)
  case (Cons e es)
  then have "search_names i f es x = search_names i g es x" and "f e x = g e x" for x by simp_all
  then show ?case by (simp split: prod.split bool.split)
qed simp

text \<open>
  The depth given to the walk is never the reason for it to stop: with any greater one it does
  the same, so the unbounded recursion of the source ends, with this result.
\<close>

theorem search_ends:
  assumes "open_tool T k (es, st) = (Inr w, s1)" and "names_ok (nodes (es_disk es))"
  shows "search_walk (deep_enough (es_disk es) + n) u (es_disk es) w i m (ws_root w) [] sc
    = search_walk (deep_enough (es_disk es)) u (es_disk es) w i m (ws_root w) [] sc"
proof -
  let ?d = "es_disk es"
  have same: "search_walk (fuel + n) u ?d w i m a r x = search_walk fuel u ?d w i m a r x"
    if "dir_at ?d w a r rs" "deep_enough ?d \<le> length (segs a) + fuel" "0 < fuel" for fuel a r rs x
    using that
  proof (induction fuel arbitrary: a r rs x)
    case (Suc fuel)
    note at = Suc.prems(1)
    have "search_entry (search_walk (fuel + n) u ?d w i m) u ?d w i m a r e y = search_entry (search_walk fuel u ?d w i m) u ?d w i m a r e y"
      if es': "dir_entries ?d (segs a) = Inr es'" and "e \<in> set es'" for e y es'
    proof (cases e)
      case (Pair name v)
      note en = dir_entries_real [OF dir_atD(5) [OF at] assms(2) es' that(2) [unfolded Pair]]
      show ?thesis
      proof (cases "v = Some Dir")
        case True
        note step = dir_at_step [OF at, of name]
        have sub: "dir_at ?d w (path_join [a, name]) (path_join [r, name]) (rs @ [name])" using step(4) en True by blast
        have "length (segs a @ [name]) < deep_enough ?d" using deep_enough_member en True by blast
        moreover have "length (segs (path_join [a, name])) = Suc (length (segs a))"
          using dir_atD(4) [OF sub] dir_atD(4) [OF at] by simp
        ultimately have "search_walk (fuel + n) u ?d w i m (path_join [a, name]) (path_join [r, name]) z
            = search_walk fuel u ?d w i m (path_join [a, name]) (path_join [r, name]) z" for z
          using Suc.prems(2) by (intro Suc.IH [OF sub]) simp_all
        then show ?thesis using Pair True by (simp add: search_entry_def Let_def)
      qed (use Pair in \<open>simp add: search_entry_def Let_def split: option.split node.split\<close>)
    qed
    then show ?case by (simp cong: search_names_cong split: sum.split prod.split bool.split)
  qed simp
  have "dir_at ?d w (ws_root w) [] []" using open_tool_real [OF assms(1)] by (simp add: dir_at_def)
  from same [OF this, of "deep_enough ?d"] show ?thesis by (simp add: deep_enough_def)
qed

end
