(* ===== verification/ReadRuns.thy ===== *)
theory ReadRuns
  imports SearchTools
begin

text \<open>
  Runs of the reading and searching tools on a disk with one sensitive file: the instances at which the claims
  of \<open>ReadTools\<close> and \<open>SearchTools\<close> are applied, two runs that give a file away, and a search
  that is cut off without saying so.
\<close>

section \<open>A workspace with one secret\<close>

definition secret_disk :: disk where
  "secret_disk = \<lparr>nodes = [([''w''], Dir), ([''w'', ''.env''], File ''s'' 384), ([''w'', ''b.go''], File ''x'' 420),
      ([''etc''], Dir), ([''etc'', ''key''], File ''k'' 384)],
     denied = (\<lambda>p. False), faults = []\<rparr>"

definition secret_ws :: workspace where
  "secret_ws = \<lparr>ws_id = ''ws_1'', ws_name = ''w'', ws_root = ''/w'', ws_writable = True,
     ws_exclude = [], ws_sensitive = [''.env''], ws_network = True\<rparr>"

lemma secret_ws_sel [simp]: "ws_id secret_ws = ''ws_1''" "ws_root secret_ws = ''/w''"
  by (simp_all add: secret_ws_def)

definition secret_tools :: toolset where
  "secret_tools = \<lparr>ts_engine = None, ts_unicode = plain_unicode, ts_codecs = no_codecs, ts_sha = (\<lambda>s. s),
     ts_rules = None, ts_provider = ''claude'', ts_machine = sample_machine, ts_now = 2, ts_meanwhile = (\<lambda>d. d)\<rparr>"

lemma secret_tools_sel [simp]:
  "ts_unicode secret_tools = plain_unicode" "ts_codecs secret_tools = no_codecs" "ts_sha secret_tools = (\<lambda>s. s)"
  "ts_provider secret_tools = ''claude''"
  by (simp_all add: secret_tools_def)

lemma secret_names:
  "validate_component plain_unicode ''.env'' = None"
  by (subst validate_component_ascii, code_simp, code_simp)

lemma secret_facts:
  "clean ''.env'' = ''.env''" "split_on slash ''.env'' = [''.env'']" "split_on slash ''b.go'' = [''b.go'']"
  "inspect secret_disk ''/w'' [''.env''] = None" "segs ''/w/.env'' = [''w'', ''.env'']"
  "verify_real_path secret_disk ''/w'' [''w'', ''.env''] = None" "path_join [''/w'', ''.env''] = ''/w/.env''"
  by code_simp+

lemma secret_clean: "clean_path plain_unicode ''.env'' = Inr ''.env''"
  by (simp add: clean_path_def max_path_len_def replace_byte_def backslash_def nul_def
      contains_byte_iff is_windows_drive_path_def secret_facts secret_names)

lemma secret_resolved: "ws_resolve plain_unicode secret_disk secret_ws ''.env'' OpRead = Inr (''/w/.env'', ''.env'')"
  by (simp add: ws_resolve_def resolve_def secret_clean secret_facts max_abs_path_len_def Let_def
      del: inspect.simps segs_slash)

lemma secret_rules: "fold_for_match plain_unicode (trim_space ''.env'') = ''.env''" "fold_for_match plain_unicode ''.env'' = ''.env''"
  "fold_for_match plain_unicode ''b.go'' = ''b.go''"
  by code_simp+

lemma secret_sensitive:
  "sensitive plain_unicode secret_ws ''.env''" "\<not> sensitive plain_unicode secret_ws ''b.go''"
  by (simp_all add: sensitive_def secret_ws_def matches_any_def secret_rules rule_matches_segment secret_facts
      glob_ok_literal [OF literal_bytes(4)])

lemma not_ignored:
  assumes "split_on slash rel = [rel]" and "parent_of rel = None" and "dir_rules u d root [] = []"
  shows "\<not> ignored u (dir_rules u d root) rel b"
  by (subst ignored.simps) (simp add: assms ignore_verdict_def apply_patterns_def)

lemma secret_shown:
  "\<not> excluded plain_unicode secret_disk secret_ws ''.env'' b" "\<not> excluded plain_unicode secret_disk secret_ws ''b.go'' b"
proof -
  have "read_file secret_disk (segs (path_join [path_join [''/w''], ''.gitignore''])) = Inl ENOENT" by code_simp
  then have r: "dir_rules plain_unicode secret_disk ''/w'' [] = []" by (simp add: dir_rules_def read_ignore_file_def)
  have p: "parent_of ''.env'' = None" "parent_of ''b.go'' = None" by code_simp+
  show "\<not> excluded plain_unicode secret_disk secret_ws ''.env'' b" "\<not> excluded plain_unicode secret_disk secret_ws ''b.go'' b"
    using not_ignored [OF secret_facts(2) p(1) r, of b] not_ignored [OF secret_facts(3) p(2) r, of b]
    by (simp_all add: excluded_def secret_ws_def matches_any_def)
qed

section \<open>A yes to something else\<close>

abbreviation secret_request :: approval_request where
  "secret_request \<equiv> read_request ''claude'' ''ws_1'' ''.env''"

abbreviation harmless_request :: approval_request where
  "harmless_request \<equiv> write_request plain_ws disguised (rq_id disguised) [planned_b]"

definition said_yes :: world where
  "said_yes = play default_budgets
     [Call harmless_request, CallerGone 0, Lookup (rq_id disguised) True [], Decide 0, Filed 0] (start_world 0 safe_service)"

lemma harmless_prompt:
  "map pd_request (pending_list (w_service (play default_budgets [Call harmless_request] (start_world 0 safe_service)))) = [harmless_request]"
  unfolding disguised_sel by code_simp

lemma secret_answer: "answer_to secret_request said_yes (play default_budgets [Call secret_request, Answered 0] said_yes) = yes_dec"
  unfolding said_yes_def disguised_sel by code_simp


definition yes_reader :: reader where
  "yes_reader = \<lparr>rd_approver = Some (asked default_budgets said_yes [Answered 0]), rd_inline = 0\<rparr>"

definition secret_answer_given :: file_answer where
  "secret_answer_given = read_answer secret_tools yes_reader secret_ws ''.env'' 0 0 ''s'' 1"

lemma secret_content: "fa_content secret_answer_given = ''s''" "fa_path secret_answer_given = ''.env''"
proof -
  have "detect_decode no_codecs ''s'' = Some (''s'', ''utf-8'')"
    by (rule detect_plain) (code_simp+)
  moreover have "inline_budget yes_reader ''claude'' = 3145728" by code_simp
  ultimately show "fa_content secret_answer_given = ''s''" "fa_path secret_answer_given = ''.env''"
    by (simp_all add: secret_answer_given_def read_answer_def page_def)
qed

lemma secret_read:
  assumes "rd_approver R = Some approve" and "approve secret_request secret_disk = (Inr yes_dec, d')"
    and "follow d' [''w'', ''.env''] = Inr (q, File [c] m)" and "read_file d' [''w'', ''.env''] = Inr data"
  shows "read_one secret_tools R secret_ws ''.env'' 0 0 secret_disk =
    (Inr (read_answer secret_tools R secret_ws ''.env'' 0 0 data 1), d')"
proof -
  have "check_readable secret_tools R secret_ws ''.env'' secret_disk = (None, d')"
    using assms(1,2) secret_shown(1) secret_sensitive(1) by (simp add: check_readable_def)
  then show ?thesis using assms(3,4)
    by (simp add: read_one_def secret_resolved secret_facts file_bytes_def max_file_bytes_def del: segs_slash)
qed

lemma secret_given_away: "read_one secret_tools yes_reader secret_ws ''.env'' 0 0 secret_disk = (Inr secret_answer_given, secret_disk)"
proof -
  have a: "asked default_budgets said_yes [Answered 0] secret_request secret_disk = (Inr yes_dec, secret_disk)"
    using secret_answer by (simp add: asked_def)
  have f: "follow secret_disk [''w'', ''.env''] = Inr ([''w'', ''.env''], File ''s'' 384)" "read_file secret_disk [''w'', ''.env''] = Inr ''s''"
    by code_simp+
  show ?thesis
    using secret_read [where R = yes_reader and approve = "asked default_budgets said_yes [Answered 0]", OF _ a f] by (simp add: yes_reader_def secret_answer_given_def)
qed

text \<open>
  A platform may name a change set as it likes. It hands in a change set that creates a source
  file under the key of the read it is after, gives up waiting, and the user says yes to the one
  prompt there is, which shows the new file and nothing else. The read of the secret then finds
  that decision under its key and gives the content, in safe mode and without a prompt of its own.
\<close>

theorem harmless_yes_discloses:
  "map pd_request (pending_list (w_service (play default_budgets [Call harmless_request] (start_world 0 safe_service)))) = [harmless_request]
   \<and> map pv_path (ar_operations harmless_request) = [''src/b.go'']
   \<and> sensitive plain_unicode secret_ws ''.env'' \<and> w_waiters said_yes = [] \<and> w_found said_yes = []
   \<and> (\<exists>out. read_one secret_tools yes_reader secret_ws ''.env'' 0 0 secret_disk = (Inr out, secret_disk)
        \<and> fa_path out = ''.env'' \<and> fa_content out = ''s'')"
proof -
  have "w_waiters said_yes = []" "w_found said_yes = []" unfolding said_yes_def disguised_sel by code_simp+
  moreover have "map pv_path (ar_operations harmless_request) = [''src/b.go'']" unfolding disguised_sel by code_simp
  ultimately show ?thesis
    using harmless_prompt secret_sensitive(1) secret_given_away secret_content by blast
qed

lemma said_yes_history: "history default_budgets safe_service said_yes"
  unfolding said_yes_def by (intro history_play history.start)

theorem sensitive_reads_need_a_yes_witness:
  "\<exists>dec. ad_approved dec \<and> (''read:claude:ws_1:.env'', dec) \<in> set (w_verdicts (play default_budgets (Call secret_request # [Answered 0]) said_yes))"
proof -
  have k: "ar_change_set secret_request = ''read:claude:ws_1:.env''" by code_simp
  show ?thesis
    using sensitive_reads_need_a_yes [OF safe_service_new said_yes_history _ secret_given_away, where evs = "[Answered 0]"]
      secret_content(2) secret_sensitive(1) k
    by (simp add: yes_reader_def Let_def)
qed

section \<open>A file that changes while the prompt is open\<close>

text \<open>
  The absolute path is resolved before the user is asked and opened after. When the file becomes
  a link in between, the read answers with what the link points to, outside the workspace,
  under the name the user agreed to.
\<close>

definition relinked_disk :: disk where
  "relinked_disk = secret_disk\<lparr>nodes := AList.update [''w'', ''.env''] (Link ''/etc/key'') (nodes secret_disk)\<rparr>"

definition slow_reader :: reader where
  "slow_reader = \<lparr>rd_approver = Some (\<lambda>req d. (Inr yes_dec, relinked_disk)), rd_inline = 0\<rparr>"

theorem read_follows_a_late_link:
  "\<exists>out. read_one secret_tools slow_reader secret_ws ''.env'' 0 0 secret_disk = (Inr out, relinked_disk)
     \<and> fa_path out = ''.env'' \<and> fa_sha out = ''k'' \<and> read_file secret_disk [''etc'', ''key''] = Inr ''k''"
proof -
  have f: "follow relinked_disk [''w'', ''.env''] = Inr ([''etc'', ''key''], File ''k'' 384)"
    "read_file relinked_disk [''w'', ''.env''] = Inr ''k''" "read_file secret_disk [''etc'', ''key''] = Inr ''k''"
    by code_simp+
  then have "read_one secret_tools slow_reader secret_ws ''.env'' 0 0 secret_disk =
      (Inr (read_answer secret_tools slow_reader secret_ws ''.env'' 0 0 ''k'' 1), relinked_disk)"
    using secret_read [where R = slow_reader and approve = "\<lambda>req d. (Inr yes_dec, relinked_disk)", OF _ refl f(1,2)] by (simp add: slow_reader_def)
  moreover have "fa_sha (read_answer secret_tools slow_reader secret_ws ''.env'' 0 0 ''k'' 1) = ''k''"
    "fa_path (read_answer secret_tools slow_reader secret_ws ''.env'' 0 0 ''k'' 1) = ''.env''"
    by (simp_all add: read_answer_def split: option.split prod.split)
  ultimately show ?thesis using f(3) by blast
qed


section \<open>A listing\<close>

definition bare_ws :: ws_state where
  "bare_ws = one_ws\<lparr>wt_rows := [first_ws\<lparr>wr_exclude := [], wr_sensitive := [''.env'']\<rparr>]\<rparr>"

abbreviation bare_used :: ws_state where
  "bare_used \<equiv> one_ws\<lparr>wt_rows := [first_ws\<lparr>wr_exclude := [], wr_sensitive := [''.env''], sw_last_used := 2\<rparr>]\<rparr>"

lemma bare_opened: "open_workspace sample_machine secret_disk 2 ''ws_1'' bare_ws = (Inr secret_ws, bare_used)"
  by code_simp

definition list_root :: list_input where
  "list_root = \<lparr>in_workspace = ''ws_1'', in_path = [], in_depth = 0\<rparr>"

abbreviation no_reader :: reader where
  "no_reader \<equiv> \<lparr>rd_approver = None, rd_inline = 0\<rparr>"

definition root_listing :: listing where
  "root_listing = \<lparr>li_path = [], li_entries = [\<lparr>de_path = ''b.go'', de_dir = False, de_size = 1, de_sha = None\<rparr>], li_truncated = False\<rparr>"

lemma root_opened: "open_tool secret_tools ''ws_1'' (fresh_state secret_disk, bare_ws) = (Inr secret_ws, fresh_state secret_disk, bare_used)"
  by (simp add: open_tool_def named_workspace_def secret_tools_def bare_opened)

lemma root_listed: "list_directory secret_tools no_reader list_root (fresh_state secret_disk, bare_ws) = (Inr root_listing, fresh_state secret_disk, bare_used)"
proof -
  have e: "dir_entries secret_disk (segs ''/w'') = Inr [(''.env'', Some (File ''s'' 384)), (''b.go'', Some (File ''x'' 420))]"
    "follow secret_disk (segs ''/w'') = Inr ([''w''], Dir)"
    "path_join [[], ''.env''] = ''.env''" "path_join [[], ''b.go''] = ''b.go''"
    "lstat secret_disk (segs ''/w'' @ [''b.go'']) = Inr (File ''x'' 420)"
    by code_simp+
  have "list_into 1 plain_unicode secret_disk secret_ws ''/w'' [] \<lparr>li_path = [], li_entries = [], li_truncated = False\<rparr> = (None, root_listing)"
    by (simp add: e list_entry_def secret_sensitive secret_shown add_entry_def max_list_entries_def file_bytes_def root_listing_def
        del: segs_slash)
  then have "list_at secret_tools secret_ws 1 ''/w'' [] secret_disk = Inr root_listing"
    by (simp add: list_at_def e del: segs_slash list_into.simps)
  then show ?thesis
    by (simp add: list_directory_def list_root_def root_opened max_list_depth_def)
qed

theorem listings_hide_witness:
  "list_all (\<lambda>e. if de_path e = [] then True else open_name plain_unicode secret_disk secret_ws 11 e) (li_entries root_listing)
   \<and> map de_path (li_entries root_listing) = [''b.go'']"
proof -
  have "nodes_ok (nodes secret_disk)" "names_ok (nodes secret_disk)"
    by (auto simp: nodes_ok_def names_ok_def secret_disk_def plain_seg_def take_Cons' split: if_splits)
  moreover have "open_tool secret_tools (in_workspace list_root) (fresh_state secret_disk, bare_ws) = (Inr secret_ws, fresh_state secret_disk, bare_used)"
    using root_opened by (simp add: list_root_def)
  ultimately show ?thesis
    using listings_hide [OF root_listed] by (simp add: root_listing_def max_list_depth_def)
qed


section \<open>A search\<close>

definition find_x :: search_input where
  "find_x = \<lparr>si_workspace = ''ws_1'', si_query = ''x'', si_glob = [], si_regex = False, si_case = True, si_max = 1, si_context = 1\<rparr>"

abbreviation has_x :: "matcher option" where
  "has_x \<equiv> Some (\<lambda>line. contains line ''x'')"

lemma secret_names_ok: "nodes_ok (nodes secret_disk)" "names_ok (nodes secret_disk)"
  by (auto simp: nodes_ok_def names_ok_def secret_disk_def plain_seg_def take_Cons' split: if_splits)

theorem searches_hide_witness:
  "good_hits plain_unicode secret_disk secret_ws find_x has_x (search_from secret_tools find_x has_x None secret_ws secret_disk)"
  using searches_hide [OF root_opened, of find_x has_x None] secret_names_ok by simp

theorem search_ends_witness:
  "search_walk (deep_enough secret_disk + 7) plain_unicode secret_disk secret_ws find_x has_x ''/w'' []
      \<lparr>sc_hits = [], sc_truncated = False, sc_scanned = 0, sc_checks = None\<rparr>
    = search_walk (deep_enough secret_disk) plain_unicode secret_disk secret_ws find_x has_x ''/w'' []
      \<lparr>sc_hits = [], sc_truncated = False, sc_scanned = 0, sc_checks = None\<rparr>"
  using search_ends [OF root_opened, of 7 plain_unicode find_x has_x] secret_names_ok by simp

definition lines_disk :: disk where
  "lines_disk = \<lparr>nodes = [([''w''], Dir), ([''w'', ''b.go''], File (''x'' @ [newline] @ ''x'') 420)],
     denied = (\<lambda>p. False), faults = []\<rparr>"

lemma lines_shown: "\<not> excluded plain_unicode lines_disk secret_ws ''b.go'' b"
proof -
  have "read_file lines_disk (segs (path_join [path_join [''/w''], ''.gitignore''])) = Inl ENOENT" by code_simp
  then have "dir_rules plain_unicode lines_disk ''/w'' [] = []" by (simp add: dir_rules_def read_ignore_file_def)
  moreover have "parent_of ''b.go'' = None" by code_simp
  ultimately show ?thesis
    using not_ignored [OF secret_facts(3), of plain_unicode lines_disk "''/w''" b] by (simp add: excluded_def secret_ws_def matches_any_def)
qed

lemma lines_searched:
  "search_from secret_tools find_x has_x None secret_ws lines_disk =
     \<lparr>sc_hits = [\<lparr>sh_path = ''b.go'', sh_line = 1, sh_text = ''x'', sh_context = []\<rparr>],
      sc_truncated = False, sc_scanned = 1, sc_checks = None\<rparr>"
proof -
  let ?text = "''x'' @ [newline] @ ''x''"
  have deep: "deep_enough lines_disk = Suc (Suc (Suc 0))" by (simp add: deep_enough_def lines_disk_def)
  have e: "dir_entries lines_disk (segs ''/w'') = Inr [(''b.go'', Some (File ?text 420))]"
    "path_join [[], ''b.go''] = ''b.go''" "segs (path_join [''/w'', ''b.go'']) = [''w'', ''b.go'']"
    "follow lines_disk [''w'', ''b.go''] = Inr ([''w'', ''b.go''], File ?text 420)"
    "read_file lines_disk [''w'', ''b.go''] = Inr ?text"
    "\<not> contains_byte (take 8192 ?text) nul" "scan_text ?text = [''x'', ''x'']"
    by code_simp+
  have h: "contains ''x'' ''x''" "truncate_utf8 ''x'' max_match_line_len = ''x''"
    by code_simp (simp add: truncate_utf8_def max_match_line_len_def)
  have "search_file lines_disk find_x (\<lambda>line. contains line ''x'') [''w'', ''b.go''] ''b.go''
      \<lparr>sc_hits = [], sc_truncated = False, sc_scanned = 0, sc_checks = None\<rparr>
    = \<lparr>sc_hits = [\<lparr>sh_path = ''b.go'', sh_line = 1, sh_text = ''x'', sh_context = []\<rparr>], sc_truncated = False, sc_scanned = 1, sc_checks = None\<rparr>"
    unfolding search_file_def e Let_def
    using e(6,7) h by (simp add: max_search_file_bytes_def file_bytes_def find_x_def context_of_def)
  then show ?thesis
    by (simp add: search_from_def deep e time_over_def search_entry_def lines_shown secret_sensitive budget_left_def max_search_files_def
        find_x_def del: segs_slash)
qed

text \<open>
  A search whose limit is reached in the last file of the walk says that nothing was cut off,
  although a further line matches; and the last hit has no lines after it as context, because
  they were not read. The file has two lines, both match, and one line of context was asked for.
\<close>

theorem search_cut_is_silent:
  "let out = search_from secret_tools find_x has_x None secret_ws lines_disk in
     \<not> sc_truncated out \<and> map sh_line (sc_hits out) = [1] \<and> map sh_context (sc_hits out) = [[]]
     \<and> filter (\<lambda>line. contains line ''x'') (scan_text (''x'' @ [newline] @ ''x'')) = [''x'', ''x'']"
proof -
  have "filter (\<lambda>line. contains line ''x'') (scan_text (''x'' @ [newline] @ ''x'')) = [''x'', ''x'']" by code_simp
  then show ?thesis by (simp add: lines_searched)
qed

end
