(* ===== verification/MemoryStore.thy ===== *)
theory MemoryStore
  imports TextLines
begin

text \<open>
  What a workspace remembers between conversations: the tables of \<^verbatim>\<open>store/memory.go\<close> and
  migrations 0008 and 0009. Every database statement is one step, can be made to fail
  (\<open>md_faults\<close>) and is atomic; the statements of a transaction take effect together or not
  at all. Row identifiers are SQLite's \<^verbatim>\<open>AUTOINCREMENT\<close>: greater than any the table ever held.
  A stored instant is the instant, a page the page that was encoded.
\<close>

section \<open>Rows\<close>

definition memory_goal_bytes :: nat where "memory_goal_bytes = 300"
definition memory_progress_bytes :: nat where "memory_progress_bytes = 800"
definition memory_next_bytes :: nat where "memory_next_bytes = 800"
definition memory_list_items :: nat where "memory_list_items = 8"
definition memory_item_bytes :: nat where "memory_item_bytes = 200"
definition memory_title_bytes :: nat where "memory_title_bytes = 120"
definition memory_body_bytes :: nat where "memory_body_bytes = 2000"
definition memory_ref_bytes :: nat where "memory_ref_bytes = 64"
definition memory_plan_steps :: nat where "memory_plan_steps = 20"
definition step_title_bytes :: nat where "step_title_bytes = 200"
definition step_note_bytes :: nat where "step_note_bytes = 500"

abbreviation step_todo :: string where "step_todo \<equiv> ''todo''"
abbreviation step_doing :: string where "step_doing \<equiv> ''doing''"
abbreviation step_blocked :: string where "step_blocked \<equiv> ''blocked''"
abbreviation step_done :: string where "step_done \<equiv> ''done''"

definition valid_step_state :: "string \<Rightarrow> bool" where
  "valid_step_state s = (s = step_todo \<or> s = step_doing \<or> s = step_blocked \<or> s = step_done)"

record memory_page =
  mp_goal :: string
  mp_progress :: string
  mp_next :: string
  mp_decisions :: "string list"
  mp_open :: "string list"

record memory_state =
  ms_workspace :: string
  ms_page :: memory_page
  ms_provider :: string
  ms_updated :: time

record memory_note =
  mn_id :: int
  mn_workspace :: string
  mn_provider :: string
  mn_title :: string
  mn_body :: string
  mn_change_set :: string
  mn_run :: string
  mn_archived :: bool
  mn_created :: time

record memory_step =
  mst_id :: int
  mst_position :: int
  mst_title :: string
  mst_state :: string
  mst_note :: string
  mst_provider :: string
  mst_updated :: time

text \<open>A row of \<open>memory_plan_steps\<close> has two columns more than the struct that is read from it.\<close>

record plan_row = memory_step +
  pr_workspace :: string
  pr_created :: time

text \<open>
  \<open>md_open_first\<close> is the order in which the range over the two lists of a page comes, which Go
  leaves open; it only decides which of two faults is reported.
\<close>

record memory_db =
  md_states :: "memory_state list"
  md_notes :: "memory_note list"
  md_note_seq :: int
  md_steps :: "plan_row list"
  md_step_seq :: int
  md_faults :: "string option list"
  md_open_first :: bool

datatype bound_fault =
    TooLong string nat nat
  | NotUtf8 string
  | TooManyItems string nat nat
  | StepNeedsTitle
  | BadStepState string
  | TooManySteps nat nat

datatype memory_error =
    MemBounds bound_fault
  | MemMissing string
  | MemNotFound
  | MemEmptyQuery
  | MemFailed string

definition mem_call :: "memory_db \<Rightarrow> memory_error option \<times> memory_db" where
  "mem_call db =
     (case md_faults db of
        [] \<Rightarrow> (None, db)
      | f # fs \<Rightarrow> (map_option MemFailed f, db\<lparr>md_faults := fs\<rparr>))"

text \<open>The statements of a transaction up to the first that fails.\<close>

fun mem_calls :: "nat \<Rightarrow> memory_db \<Rightarrow> memory_error option \<times> memory_db" where
  "mem_calls 0 db = (None, db)"
| "mem_calls (Suc n) db =
     (case mem_call db of
        (Some e, db') \<Rightarrow> (Some e, db')
      | (None, db') \<Rightarrow> mem_calls n db')"

section \<open>Bounds\<close>

definition within_bytes :: "string \<Rightarrow> string \<Rightarrow> nat \<Rightarrow> bound_fault option" where
  "within_bytes name v limit =
     (if limit < length v then Some (TooLong name (length v) limit)
      else if \<not> valid_string v then Some (NotUtf8 name)
      else None)"

definition validate_items :: "string \<Rightarrow> string list \<Rightarrow> bound_fault option" where
  "validate_items name items =
     (if memory_list_items < length items then Some (TooManyItems name (length items) memory_list_items)
      else first_some (\<lambda>i. within_bytes (name @ '' item'') i memory_item_bytes) items)"

definition validate_page :: "bool \<Rightarrow> memory_page \<Rightarrow> bound_fault option" where
  "validate_page open_first p =
     (case within_bytes ''goal'' (mp_goal p) memory_goal_bytes of
        Some e \<Rightarrow> Some e
      | None \<Rightarrow>
         (case within_bytes ''progress'' (mp_progress p) memory_progress_bytes of
            Some e \<Rightarrow> Some e
          | None \<Rightarrow>
             (case within_bytes ''next'' (mp_next p) memory_next_bytes of
                Some e \<Rightarrow> Some e
              | None \<Rightarrow>
                  first_some (\<lambda>(name, items). validate_items name items)
                    ((if open_first then rev else id) [(''decisions'', mp_decisions p), (''open'', mp_open p)]))))"

definition validate_step :: "'a memory_step_scheme \<Rightarrow> bound_fault option" where
  "validate_step s =
     (if trim_space (mst_title s) = [] then Some StepNeedsTitle
      else (case within_bytes ''step title'' (mst_title s) step_title_bytes of
          Some e \<Rightarrow> Some e
        | None \<Rightarrow>
           (case within_bytes ''step note'' (mst_note s) step_note_bytes of
              Some e \<Rightarrow> Some e
            | None \<Rightarrow> if valid_step_state (mst_state s) then None else Some (BadStepState (mst_state s)))))"

section \<open>The page\<close>

definition stamp_of :: "time \<Rightarrow> time \<Rightarrow> time" where
  "stamp_of now at = (if at = 0 then now else at)"

definition upsert_state :: "memory_state \<Rightarrow> memory_state list \<Rightarrow> memory_state list" where
  "upsert_state r rows =
     (if list_ex (\<lambda>q. ms_workspace q = ms_workspace r) rows
      then map (\<lambda>q. if ms_workspace q = ms_workspace r then r else q) rows
      else rows @ [r])"

definition save_memory_state ::
  "time \<Rightarrow> string \<Rightarrow> string \<Rightarrow> memory_page \<Rightarrow> time \<Rightarrow> memory_db \<Rightarrow> memory_error option \<times> memory_db" where
  "save_memory_state now ws prov p at db0 =
     (if ws = [] then (Some (MemMissing ''workspace id''), db0)
      else (case validate_page (md_open_first db0) p of
          Some f \<Rightarrow> (Some (MemBounds f), db0)
        | None \<Rightarrow>
           (case mem_call db0 of
              (Some e, db) \<Rightarrow> (Some e, db)
            | (None, db) \<Rightarrow>
                (None, db\<lparr>md_states := upsert_state
                   \<lparr>ms_workspace = ws, ms_page = p, ms_provider = prov, ms_updated = stamp_of now at\<rparr> (md_states db)\<rparr>))))"

definition get_memory_state :: "string \<Rightarrow> memory_db \<Rightarrow> (memory_error + memory_state) \<times> memory_db" where
  "get_memory_state ws db0 =
     (case mem_call db0 of
        (Some e, db) \<Rightarrow> (Inl e, db)
      | (None, db) \<Rightarrow>
         (case List.find (\<lambda>r. ms_workspace r = ws) (md_states db) of
            None \<Rightarrow> (Inl MemNotFound, db)
          | Some r \<Rightarrow> (Inr r, db)))"

section \<open>The trail\<close>

definition max_row_id :: int where "max_row_id = 9223372036854775807"

definition validate_note :: "memory_note \<Rightarrow> memory_error option" where
  "validate_note n =
     (if mn_workspace n = [] then Some (MemMissing ''workspace id'')
      else if trim_space (mn_title n) = [] then Some (MemMissing ''title'')
      else map_option MemBounds (first_some (\<lambda>(name, v, limit). within_bytes name v limit)
        [(''title'', mn_title n, memory_title_bytes), (''body'', mn_body n, memory_body_bytes),
         (''change_set_id'', mn_change_set n, memory_ref_bytes), (''run_id'', mn_run n, memory_ref_bytes)]))"

definition add_memory_note :: "time \<Rightarrow> memory_note \<Rightarrow> memory_db \<Rightarrow> (memory_error + memory_note) \<times> memory_db" where
  "add_memory_note now n db0 =
     (case validate_note n of
        Some e \<Rightarrow> (Inl e, db0)
      | None \<Rightarrow>
         (let n' = n\<lparr>mn_created := stamp_of now (mn_created n), mn_id := md_note_seq db0 + 1\<rparr> in
          case mem_call db0 of
            (Some e, db) \<Rightarrow> (Inl e, db)
          | (None, db) \<Rightarrow>
              if max_row_id \<le> md_note_seq db then (Inl (MemFailed ''database or disk is full''), db)
              else (Inr n', db\<lparr>md_notes := md_notes db @ [n'\<lparr>mn_archived := False\<rparr>], md_note_seq := mn_id n'\<rparr>)))"

text \<open>\<open>ORDER BY id ASC LIMIT n\<close> and \<open>ORDER BY id DESC LIMIT n\<close>.\<close>

definition oldest_first :: "int \<Rightarrow> memory_note list \<Rightarrow> memory_note list" where
  "oldest_first n ns = take (nat n) (sort_key mn_id ns)"

definition newest_first :: "int \<Rightarrow> memory_note list \<Rightarrow> memory_note list" where
  "newest_first n ns = take (nat n) (rev (sort_key mn_id ns))"

definition or_limit :: "int \<Rightarrow> int \<Rightarrow> int" where
  "or_limit n d = (if n \<le> 0 then d else n)"

definition query_notes :: "(memory_note list \<Rightarrow> memory_note list) \<Rightarrow> memory_db \<Rightarrow> (memory_error + memory_note list) \<times> memory_db" where
  "query_notes q db0 =
     (case mem_call db0 of
        (Some e, db) \<Rightarrow> (Inl e, db)
      | (None, db) \<Rightarrow> (Inr (q (md_notes db)), db))"

definition notes_matching :: "string \<Rightarrow> bool \<Rightarrow> int \<Rightarrow> int \<Rightarrow> memory_note list \<Rightarrow> memory_note list" where
  "notes_matching ws archived before limit ns =
     newest_first (or_limit limit 20)
       (filter (\<lambda>n. mn_workspace n = ws \<and> mn_archived n = archived \<and> (0 < before \<longrightarrow> mn_id n < before)) ns)"

definition list_memory_notes :: "string \<Rightarrow> int \<Rightarrow> int \<Rightarrow> memory_db \<Rightarrow> (memory_error + memory_note list) \<times> memory_db" where
  "list_memory_notes ws before limit db = query_notes (notes_matching ws False before limit) db"

definition list_archived_notes :: "string \<Rightarrow> int \<Rightarrow> int \<Rightarrow> memory_db \<Rightarrow> (memory_error + memory_note list) \<times> memory_db" where
  "list_archived_notes ws before limit db = query_notes (notes_matching ws True before limit) db"

definition get_memory_notes :: "string \<Rightarrow> int list \<Rightarrow> memory_db \<Rightarrow> (memory_error + memory_note list) \<times> memory_db" where
  "get_memory_notes ws ids db =
     (if ids = [] then (Inr [], db)
      else query_notes (\<lambda>ns. rev (sort_key mn_id (filter (\<lambda>n. mn_workspace n = ws \<and> mn_id n \<in> set ids) ns))) db)"

definition count_memory_notes :: "string \<Rightarrow> memory_db \<Rightarrow> (memory_error + nat \<times> nat) \<times> memory_db" where
  "count_memory_notes ws db0 =
     (case mem_call db0 of
        (Some e, db) \<Rightarrow> (Inl e, db)
      | (None, db) \<Rightarrow>
          (Inr (length (filter (\<lambda>n. mn_workspace n = ws \<and> \<not> mn_archived n) (md_notes db)),
                length (filter (\<lambda>n. mn_workspace n = ws \<and> mn_archived n) (md_notes db))), db))"

definition delete_memory_note :: "string \<Rightarrow> int \<Rightarrow> memory_db \<Rightarrow> memory_error option \<times> memory_db" where
  "delete_memory_note ws i db0 =
     (case mem_call db0 of
        (Some e, db) \<Rightarrow> (Some e, db)
      | (None, db) \<Rightarrow>
          if list_ex (\<lambda>n. mn_workspace n = ws \<and> mn_id n = i) (md_notes db)
          then (None, db\<lparr>md_notes := filter (\<lambda>n. \<not> (mn_workspace n = ws \<and> mn_id n = i)) (md_notes db)\<rparr>)
          else (Some MemNotFound, db))"

text \<open>Begin, three deletions and commit.\<close>

definition delete_memory :: "string \<Rightarrow> memory_db \<Rightarrow> memory_error option \<times> memory_db" where
  "delete_memory ws db0 =
     (case mem_calls 5 db0 of
        (Some e, db) \<Rightarrow> (Some e, db)
      | (None, db) \<Rightarrow>
          (None, db\<lparr>md_steps := filter (\<lambda>s. pr_workspace s \<noteq> ws) (md_steps db),
                    md_notes := filter (\<lambda>n. mn_workspace n \<noteq> ws) (md_notes db),
                    md_states := filter (\<lambda>r. ms_workspace r \<noteq> ws) (md_states db)\<rparr>))"

definition oldest_memory_notes :: "string \<Rightarrow> int \<Rightarrow> memory_db \<Rightarrow> (memory_error + memory_note list) \<times> memory_db" where
  "oldest_memory_notes ws limit db =
     query_notes (\<lambda>ns. oldest_first (or_limit limit 20) (filter (\<lambda>n. mn_workspace n = ws \<and> \<not> mn_archived n) ns)) db"

definition to_archive :: "string \<Rightarrow> int \<Rightarrow> memory_note \<Rightarrow> bool" where
  "to_archive ws through n = (mn_workspace n = ws \<and> \<not> mn_archived n \<and> mn_id n \<le> through)"

definition archive_memory_notes :: "string \<Rightarrow> int \<Rightarrow> memory_db \<Rightarrow> (memory_error + nat) \<times> memory_db" where
  "archive_memory_notes ws through db0 =
     (case mem_call db0 of
        (Some e, db) \<Rightarrow> (Inl e, db)
      | (None, db) \<Rightarrow>
          (Inr (length (filter (to_archive ws through) (md_notes db))),
           db\<lparr>md_notes := map (\<lambda>n. if to_archive ws through n then n\<lparr>mn_archived := True\<rparr> else n) (md_notes db)\<rparr>))"

section \<open>Search\<close>

text \<open>\<open>strings.Fields\<close>: the pieces between white space, gathered in reverse.\<close>

fun fields_from :: "nat \<Rightarrow> string \<Rightarrow> string \<Rightarrow> string list" where
  "fields_from 0 cur s = (if cur = [] then [] else [rev cur])"
| "fields_from (Suc n) cur s =
     (case s of
        [] \<Rightarrow> (if cur = [] then [] else [rev cur])
      | c # t \<Rightarrow>
         (case List.find (has_prefix s) space_encodings of
            None \<Rightarrow> fields_from n (c # cur) t
          | Some p \<Rightarrow> (if cur = [] then [] else [rev cur]) @ fields_from n [] (drop (length p) s)))"

definition fields_of :: "string \<Rightarrow> string list" where
  "fields_of s = fields_from (length s) [] s"

definition like_escape :: "string \<Rightarrow> string" where
  "like_escape s = concat (map (\<lambda>c. if c \<in> {CHR 0x5C, CHR ''%'', CHR ''_''} then [CHR 0x5C, c] else [c]) s)"

text \<open>
  \<^verbatim>\<open>x LIKE pattern ESCAPE '\'\<close> as SQLite documents it: a percent sign stands for any
  characters, an underscore for one, what follows the escape and every other character for
  itself, without regard to the case of ASCII letters. SQLite leaves NUL characters undefined.
\<close>

fun sql_like :: "string \<Rightarrow> string \<Rightarrow> bool" where
  "sql_like [] x = (x = [])"
| "sql_like (p # ps) x =
     (if p = CHR 0x5C then
        (case (ps, x) of
           (q # qs, c # cs) \<Rightarrow> lower_byte c = lower_byte q \<and> sql_like qs cs
         | _ \<Rightarrow> False)
      else if p = CHR ''%'' then list_ex (\<lambda>k. sql_like ps (drop k x)) [0..<Suc (length x)]
      else if p = CHR ''_'' then x \<noteq> [] \<and> sql_like ps (drop (snd (decode_rune x)) x)
      else (case x of [] \<Rightarrow> False | c # cs \<Rightarrow> lower_byte c = lower_byte p \<and> sql_like ps cs))"

definition word_found :: "string \<Rightarrow> memory_note \<Rightarrow> bool" where
  "word_found w n =
     (let pattern = ''%'' @ like_escape w @ ''%'' in sql_like pattern (mn_title n) \<or> sql_like pattern (mn_body n))"

definition search_memory_notes :: "string \<Rightarrow> string \<Rightarrow> int \<Rightarrow> memory_db \<Rightarrow> (memory_error + memory_note list) \<times> memory_db" where
  "search_memory_notes ws query limit db =
     (let words = fields_of query in
      if words = [] then (Inl MemEmptyQuery, db)
      else query_notes
        (\<lambda>ns. newest_first (or_limit limit 10)
          (filter (\<lambda>n. mn_workspace n = ws \<and> list_all (\<lambda>w. word_found w n) words) ns)) db)"

section \<open>The plan\<close>

text \<open>What the loop of \<open>SaveMemoryPlan\<close> makes of a step before it is validated.\<close>

definition tidy_step :: "memory_step \<Rightarrow> memory_step" where
  "tidy_step s =
     (let s' = s\<lparr>mst_title := trim_space (mst_title s)\<rparr>
      in if mst_state s' = [] then s'\<lparr>mst_state := step_todo\<rparr> else s')"

definition plan_rows :: "string \<Rightarrow> string \<Rightarrow> time \<Rightarrow> int \<Rightarrow> memory_step list \<Rightarrow> plan_row list" where
  "plan_rows ws prov stamp seq steps =
     map (\<lambda>(i, s). \<lparr>mst_id = seq + int i + 1, mst_position = int i + 1, mst_title = mst_title s,
           mst_state = mst_state s, mst_note = mst_note s, mst_provider = prov, mst_updated = stamp,
           pr_workspace = ws, pr_created = stamp\<rparr>)
       (zip [0..<length steps] steps)"

definition step_of_row :: "plan_row \<Rightarrow> memory_step" where
  "step_of_row r =
     \<lparr>mst_id = mst_id r, mst_position = mst_position r, mst_title = mst_title r, mst_state = mst_state r,
      mst_note = mst_note r, mst_provider = mst_provider r, mst_updated = mst_updated r\<rparr>"

definition plan_of :: "string \<Rightarrow> memory_db \<Rightarrow> memory_step list" where
  "plan_of ws db = map step_of_row (sort_key mst_position (filter (\<lambda>r. pr_workspace r = ws) (md_steps db)))"

definition list_memory_plan :: "string \<Rightarrow> memory_db \<Rightarrow> (memory_error + memory_step list) \<times> memory_db" where
  "list_memory_plan ws db0 =
     (case mem_call db0 of
        (Some e, db) \<Rightarrow> (Inl e, db)
      | (None, db) \<Rightarrow> (Inr (plan_of ws db), db))"

text \<open>Begin, the deletion, one insertion per step and commit.\<close>

definition replace_plan :: "time \<Rightarrow> string \<Rightarrow> string \<Rightarrow> memory_step list \<Rightarrow> memory_db \<Rightarrow> memory_error option \<times> memory_db" where
  "replace_plan stamp ws prov steps db0 =
     (case mem_calls (length steps + 3) db0 of
        (Some e, db) \<Rightarrow> (Some e, db)
      | (None, db) \<Rightarrow>
          if max_row_id < md_step_seq db + int (length steps) then (Some (MemFailed ''database or disk is full''), db)
          else (None, db\<lparr>md_steps := filter (\<lambda>r. pr_workspace r \<noteq> ws) (md_steps db)
                            @ plan_rows ws prov stamp (md_step_seq db) steps,
                         md_step_seq := md_step_seq db + int (length steps)\<rparr>))"

definition save_memory_plan ::
  "time \<Rightarrow> string \<Rightarrow> string \<Rightarrow> memory_step list \<Rightarrow> time \<Rightarrow> memory_db \<Rightarrow> (memory_error + memory_step list) \<times> memory_db" where
  "save_memory_plan now ws prov steps at db0 =
     (if ws = [] then (Inl (MemMissing ''workspace id''), db0)
      else if memory_plan_steps < length steps
      then (Inl (MemBounds (TooManySteps (length steps) memory_plan_steps)), db0)
      else (let tidy = map tidy_step steps in
        case first_some validate_step tidy of
          Some f \<Rightarrow> (Inl (MemBounds f), db0)
        | None \<Rightarrow>
           (case replace_plan (stamp_of now at) ws prov tidy db0 of
              (Some e, db) \<Rightarrow> (Inl e, db)
            | (None, db) \<Rightarrow> list_memory_plan ws db)))"

definition move_row :: "time \<Rightarrow> string \<Rightarrow> string \<Rightarrow> string option \<Rightarrow> string option \<Rightarrow> plan_row \<Rightarrow> plan_row" where
  "move_row stamp prov state title note r =
     r\<lparr>mst_state := state, mst_provider := prov, mst_updated := stamp,
       mst_title := (case title of None \<Rightarrow> mst_title r | Some t \<Rightarrow> t),
       mst_note := (case note of None \<Rightarrow> mst_note r | Some t \<Rightarrow> t)\<rparr>"

definition validate_move :: "string \<Rightarrow> string option \<Rightarrow> string option \<Rightarrow> bound_fault option" where
  "validate_move state title note =
     (if \<not> valid_step_state state then Some (BadStepState state)
      else if (case title of None \<Rightarrow> False | Some t \<Rightarrow> trim_space t = []) then Some StepNeedsTitle
      else (case Option.bind title (\<lambda>t. within_bytes ''step title'' t step_title_bytes) of
          Some f \<Rightarrow> Some f
        | None \<Rightarrow> Option.bind note (\<lambda>t. within_bytes ''step note'' t step_note_bytes)))"

definition update_memory_step ::
  "time \<Rightarrow> string \<Rightarrow> string \<Rightarrow> int \<Rightarrow> string \<Rightarrow> string option \<Rightarrow> string option \<Rightarrow> time \<Rightarrow> memory_db
     \<Rightarrow> memory_error option \<times> memory_db" where
  "update_memory_step now ws prov i state title note at db0 =
     (case validate_move state title note of
        Some f \<Rightarrow> (Some (MemBounds f), db0)
      | None \<Rightarrow>
         (case mem_call db0 of
            (Some e, db) \<Rightarrow> (Some e, db)
          | (None, db) \<Rightarrow>
              if list_ex (\<lambda>r. pr_workspace r = ws \<and> mst_id r = i) (md_steps db)
              then (None, db\<lparr>md_steps := map (\<lambda>r. if pr_workspace r = ws \<and> mst_id r = i
                     then move_row (stamp_of now at) prov state title note r else r) (md_steps db)\<rparr>)
              else (Some MemNotFound, db)))"

end
