(* ===== verification/MemoryFacts.thy ===== *)
theory MemoryFacts
  imports MemoryStore
begin

text \<open>
  What holds of the memory tables over every interleaving of database statements: the rows
  stay within their bounds, identifiers are not used again, an archived note stays archived,
  and a plan that was replaced is gone. The search is compared with plain containment.
\<close>

section \<open>Histories\<close>

datatype mem_event =
    MSave time string string memory_page time
  | MAdd time memory_note
  | MArchive string int
  | MDropNote string int
  | MDropAll string
  | MPlan time string string "memory_step list" time
  | MStep time string string int string "string option" "string option" time
  | MQuery

fun mem_do :: "mem_event \<Rightarrow> memory_db \<Rightarrow> memory_db" where
  "mem_do (MSave now ws prov p at) db = snd (save_memory_state now ws prov p at db)"
| "mem_do (MAdd now n) db = snd (add_memory_note now n db)"
| "mem_do (MArchive ws through) db = snd (archive_memory_notes ws through db)"
| "mem_do (MDropNote ws i) db = snd (delete_memory_note ws i db)"
| "mem_do (MDropAll ws) db = snd (delete_memory ws db)"
| "mem_do (MPlan now ws prov steps at) db = snd (save_memory_plan now ws prov steps at db)"
| "mem_do (MStep now ws prov i state title note at) db = snd (update_memory_step now ws prov i state title note at db)"
| "mem_do MQuery db = snd (mem_call db)"

definition mem_run :: "mem_event list \<Rightarrow> memory_db \<Rightarrow> memory_db" where
  "mem_run es db = fold mem_do es db"

definition empty_memory :: "string option list \<Rightarrow> bool \<Rightarrow> memory_db" where
  "empty_memory faults open_first =
     \<lparr>md_states = [], md_notes = [], md_note_seq = 0, md_steps = [], md_step_seq = 0, md_faults = faults,
      md_open_first = open_first\<rparr>"

lemma mem_run_simps [simp]: "mem_run [] db = db" "mem_run (e # es) db = mem_run es (mem_do e db)"
  by (simp_all add: mem_run_def)

lemma mem_run_append: "mem_run (es @ fs) db = mem_run fs (mem_run es db)"
  by (simp add: mem_run_def)

text \<open>A rule holds along a history if every event keeps it.\<close>

lemma mem_run_keeps: "(\<And>e db. P db \<Longrightarrow> P (mem_do e db)) \<Longrightarrow> P db \<Longrightarrow> P (mem_run es db)"
  by (induction es arbitrary: db) auto

section \<open>What a statement changes\<close>

lemma mem_call_rows:
  "mem_call db = (r, db') \<Longrightarrow> md_states db' = md_states db \<and> md_notes db' = md_notes db \<and> md_note_seq db' = md_note_seq db
     \<and> md_steps db' = md_steps db \<and> md_step_seq db' = md_step_seq db \<and> md_open_first db' = md_open_first db"
  by (auto simp: mem_call_def split: list.splits)

lemma mem_calls_rows:
  "mem_calls n db = (r, db') \<Longrightarrow> md_states db' = md_states db \<and> md_notes db' = md_notes db \<and> md_note_seq db' = md_note_seq db
     \<and> md_steps db' = md_steps db \<and> md_step_seq db' = md_step_seq db \<and> md_open_first db' = md_open_first db"
  by (induction n db rule: mem_calls.induct)
    (auto split: prod.splits option.splits dest!: mem_call_rows)

lemma mem_call_quiet: "md_faults db = [] \<Longrightarrow> mem_call db = (None, db)"
  by (simp add: mem_call_def)

lemma mem_calls_quiet: "md_faults db = [] \<Longrightarrow> mem_calls n db = (None, db)"
  by (induction n) (simp_all add: mem_call_quiet)

lemma query_rows:
  "query_notes q db = (r, db') \<Longrightarrow> md_states db' = md_states db \<and> md_notes db' = md_notes db \<and> md_note_seq db' = md_note_seq db
     \<and> md_steps db' = md_steps db \<and> md_step_seq db' = md_step_seq db \<and> (\<forall>ns. r = Inr ns \<longrightarrow> ns = q (md_notes db))"
  by (auto simp: query_notes_def split: prod.splits option.splits dest!: mem_call_rows)

lemmas mem_defs = save_memory_state_def add_memory_note_def archive_memory_notes_def delete_memory_note_def
  delete_memory_def save_memory_plan_def replace_plan_def list_memory_plan_def update_memory_step_def Let_def

text \<open>The notes after an event: the old ones with some archived or removed, and at most one new.\<close>

definition kept_note :: "memory_note \<Rightarrow> memory_note \<Rightarrow> bool" where
  "kept_note n n' = (n' = n \<or> n' = n\<lparr>mn_archived := True\<rparr>)"

lemma validate_note_update [simp]:
  "validate_note (n\<lparr>mn_archived := b\<rparr>) = validate_note n" "validate_note (n\<lparr>mn_created := t\<rparr>) = validate_note n"
  "validate_note (n\<lparr>mn_id := i\<rparr>) = validate_note n"
  by (simp_all add: validate_note_def del: first_some.simps)

lemma kept_note_facts: "kept_note n n' \<Longrightarrow> mn_id n' = mn_id n \<and> mn_workspace n' = mn_workspace n \<and> (mn_archived n \<longrightarrow> mn_archived n')
    \<and> validate_note n' = validate_note n"
  by (auto simp: kept_note_def)

lemma mem_do_notes:
  "(\<exists>P f. md_notes (mem_do e db) = map f (filter P (md_notes db)) \<and> (\<forall>n. kept_note n (f n)) \<and> md_note_seq (mem_do e db) = md_note_seq db)
   \<or> (\<exists>n. md_notes (mem_do e db) = md_notes db @ [n] \<and> mn_id n = md_note_seq db + 1 \<and> md_note_seq (mem_do e db) = mn_id n
        \<and> \<not> mn_archived n \<and> validate_note n = None \<and> mn_id n \<le> max_row_id)"
proof -
  have same: ?thesis if "md_notes (mem_do e db) = md_notes db" "md_note_seq (mem_do e db) = md_note_seq db"
    by (rule disjI1, rule exI [of _ "\<lambda>_. True"], rule exI [of _ id]) (simp add: that kept_note_def)
  have filtered: ?thesis if "md_notes (mem_do e db) = filter P (md_notes db)" "md_note_seq (mem_do e db) = md_note_seq db" for P
    by (rule disjI1, rule exI [of _ P], rule exI [of _ id]) (simp add: that kept_note_def)
  have mapped: ?thesis if "md_notes (mem_do e db) = map f (md_notes db)" "\<forall>n. kept_note n (f n)" "md_note_seq (mem_do e db) = md_note_seq db" for f
    by (rule disjI1, rule exI [of _ "\<lambda>_. True"], rule exI [of _ f]) (simp add: that)
  show ?thesis
  proof (cases e)
    case (MAdd now n)
    show ?thesis
    proof (cases "md_notes (mem_do e db) = md_notes db")
      case True
      then show ?thesis using MAdd
        by (intro same) (auto simp: add_memory_note_def Let_def split: option.splits prod.splits dest!: mem_call_rows)
    next
      case False
      then show ?thesis using MAdd
        by (intro disjI2)
          (auto simp: add_memory_note_def Let_def split: option.splits prod.splits if_splits dest!: mem_call_rows)
    qed
  next
    case (MArchive ws through)
    show ?thesis
    proof (cases "md_notes (mem_do e db) = md_notes db")
      case True
      then show ?thesis using MArchive
        by (intro same) (auto simp: archive_memory_notes_def split: option.splits prod.splits dest!: mem_call_rows)
    next
      case False
      then show ?thesis using MArchive
        by (intro mapped [of "\<lambda>n. if to_archive ws through n then n\<lparr>mn_archived := True\<rparr> else n"])
          (auto simp: archive_memory_notes_def kept_note_def split: option.splits prod.splits dest!: mem_call_rows)
    qed
  next
    case (MDropNote ws i)
    show ?thesis
    proof (cases "md_notes (mem_do e db) = md_notes db")
      case True
      then show ?thesis using MDropNote
        by (intro same) (auto simp: delete_memory_note_def split: option.splits prod.splits dest!: mem_call_rows)
    next
      case False
      then show ?thesis using MDropNote
        by (intro filtered [of "\<lambda>n. \<not> (mn_workspace n = ws \<and> mn_id n = i)"])
          (auto simp: delete_memory_note_def split: option.splits prod.splits if_splits dest!: mem_call_rows)
    qed
  next
    case (MDropAll ws)
    show ?thesis
    proof (cases "md_notes (mem_do e db) = md_notes db")
      case True
      then show ?thesis using MDropAll
        by (intro same) (auto simp: delete_memory_def split: option.splits prod.splits dest!: mem_calls_rows)
    next
      case False
      then show ?thesis using MDropAll
        by (intro filtered [of "\<lambda>n. mn_workspace n \<noteq> ws"])
          (auto simp: delete_memory_def split: option.splits prod.splits dest!: mem_calls_rows)
    qed
  next
    case MQuery
    then show ?thesis by (intro same) (cases "mem_call db"; auto dest: mem_call_rows)+
  qed (rule same; auto simp: mem_defs split: option.splits prod.splits if_splits dest!: mem_call_rows mem_calls_rows)+
qed


text \<open>The rows of plans after an event.\<close>

definition kept_step :: "plan_row \<Rightarrow> plan_row \<Rightarrow> bool" where
  "kept_step r r' \<longleftrightarrow> mst_id r' = mst_id r \<and> pr_workspace r' = pr_workspace r \<and> mst_position r' = mst_position r
     \<and> (validate_step r = None \<longrightarrow> validate_step r' = None)"

lemma kept_step_refl: "kept_step r r"
  by (simp add: kept_step_def)

lemma validate_move_step:
  "validate_move state title note = None \<Longrightarrow> kept_step r (move_row stamp prov state title note r)"
  by (auto simp: validate_move_def validate_step_def move_row_def kept_step_def split: if_splits option.splits)

lemma mem_do_steps:
  "(\<exists>Q f. md_steps (mem_do e db) = map f (filter (\<lambda>r. Q (pr_workspace r)) (md_steps db)) \<and> (\<forall>r. kept_step r (f r))
      \<and> md_step_seq (mem_do e db) = md_step_seq db)
   \<or> (\<exists>ws prov stamp steps. md_steps (mem_do e db)
          = filter (\<lambda>r. pr_workspace r \<noteq> ws) (md_steps db) @ plan_rows ws prov stamp (md_step_seq db) steps
        \<and> md_step_seq (mem_do e db) = md_step_seq db + int (length steps) \<and> md_step_seq (mem_do e db) \<le> max_row_id
        \<and> length steps \<le> memory_plan_steps \<and> ws \<noteq> [] \<and> first_some validate_step steps = None)"
proof -
  have same: ?thesis if "md_steps (mem_do e db) = md_steps db" "md_step_seq (mem_do e db) = md_step_seq db"
    by (rule disjI1, rule exI [of _ "\<lambda>_. True"], rule exI [of _ id]) (simp add: that kept_step_refl)
  show ?thesis
  proof (cases e)
    case (MStep now ws prov i state t nt given)
    show ?thesis
    proof (cases "md_steps (mem_do e db) = md_steps db")
      case True
      then show ?thesis using MStep
        by (intro same) (auto simp: update_memory_step_def split: option.splits prod.splits dest!: mem_call_rows)
    next
      case False
      let ?f = "\<lambda>r. if pr_workspace r = ws \<and> mst_id r = i then move_row (stamp_of now given) prov state t nt r else r"
      have "validate_move state t nt = None"
        using False MStep by (auto simp: update_memory_step_def split: option.splits prod.splits)
      then have "\<forall>r. kept_step r (?f r)" by (simp add: validate_move_step kept_step_refl)
      then show ?thesis using False MStep
        by (intro disjI1 exI [of _ "\<lambda>_. True"] exI [of _ ?f])
          (auto simp: update_memory_step_def split: option.splits prod.splits if_splits dest!: mem_call_rows)
    qed
  next
    case (MDropAll ws)
    show ?thesis
    proof (cases "md_steps (mem_do e db) = md_steps db")
      case True
      then show ?thesis using MDropAll
        by (intro same) (auto simp: delete_memory_def split: option.splits prod.splits dest!: mem_calls_rows)
    next
      case False
      then show ?thesis using MDropAll
        by (intro disjI1 exI [of _ "\<lambda>v. v \<noteq> ws"] exI [of _ id])
          (auto simp: delete_memory_def kept_step_refl split: option.splits prod.splits dest!: mem_calls_rows)
    qed
  next
    case (MPlan now ws prov steps given)
    show ?thesis
    proof (cases "md_steps (mem_do e db) = md_steps db \<and> md_step_seq (mem_do e db) = md_step_seq db")
      case True
      then show ?thesis by (intro same) auto
    next
      case False
      let ?tidy = "map tidy_step steps"
      have ok: "ws \<noteq> []" "length steps \<le> memory_plan_steps" "first_some validate_step ?tidy = None"
        using False MPlan by (auto simp: save_memory_plan_def Let_def split: option.splits if_splits)
      obtain r db' where r: "replace_plan (stamp_of now given) ws prov ?tidy db = (r, db')" by (cases "replace_plan (stamp_of now given) ws prov ?tidy db")
      have "mem_do e db = snd (case r of None \<Rightarrow> list_memory_plan ws db' | Some x \<Rightarrow> (Inl x, db'))"
        using MPlan ok r by (simp add: save_memory_plan_def Let_def del: first_some_None split: option.splits)
      then have rows: "md_steps (mem_do e db) = md_steps db'" "md_step_seq (mem_do e db) = md_step_seq db'"
        by (auto simp: list_memory_plan_def split: option.splits prod.splits dest!: mem_call_rows)
      have "r = None" using False rows r
        by (auto simp: replace_plan_def split: option.splits prod.splits if_splits dest!: mem_calls_rows)
      then have "md_steps db' = filter (\<lambda>r. pr_workspace r \<noteq> ws) (md_steps db) @ plan_rows ws prov (stamp_of now given) (md_step_seq db) ?tidy
        \<and> md_step_seq db' = md_step_seq db + int (length ?tidy) \<and> md_step_seq db' \<le> max_row_id"
        using r by (auto simp: replace_plan_def split: option.splits prod.splits if_splits dest!: mem_calls_rows)
      then show ?thesis using ok rows by (intro disjI2) (metis length_map)
    qed
  next
    case MQuery
    then show ?thesis by (intro same) (cases "mem_call db"; auto dest: mem_call_rows)+
  qed (rule same; auto simp: mem_defs split: option.splits prod.splits if_splits dest!: mem_call_rows mem_calls_rows)+
qed

section \<open>Rows stay within their bounds\<close>

definition states_ok :: "memory_db \<Rightarrow> bool" where
  "states_ok db \<longleftrightarrow> distinct (map ms_workspace (md_states db))
     \<and> list_all (\<lambda>r. ms_workspace r \<noteq> [] \<and> validate_page False (ms_page r) = None) (md_states db)"

definition notes_ok :: "memory_db \<Rightarrow> bool" where
  "notes_ok db \<longleftrightarrow> sorted_wrt (<) (map mn_id (md_notes db))
     \<and> list_all (\<lambda>n. 0 < mn_id n \<and> mn_id n \<le> md_note_seq db \<and> validate_note n = None) (md_notes db)
     \<and> 0 \<le> md_note_seq db \<and> md_note_seq db \<le> max_row_id"

definition plan_positions :: "string \<Rightarrow> plan_row list \<Rightarrow> int list" where
  "plan_positions ws rows = map mst_position (filter (\<lambda>r. pr_workspace r = ws) rows)"

definition whole_plan :: "int list \<Rightarrow> bool" where
  "whole_plan ps \<longleftrightarrow> length ps \<le> memory_plan_steps \<and> ps = map int [1..<Suc (length ps)]"

definition steps_ok :: "memory_db \<Rightarrow> bool" where
  "steps_ok db \<longleftrightarrow> sorted_wrt (<) (map mst_id (md_steps db))
     \<and> list_all (\<lambda>r. 0 < mst_id r \<and> mst_id r \<le> md_step_seq db \<and> validate_step r = None) (md_steps db)
     \<and> (\<forall>ws. whole_plan (plan_positions ws (md_steps db)))
     \<and> 0 \<le> md_step_seq db \<and> md_step_seq db \<le> max_row_id"

lemma validate_page_order: "validate_page b p = None \<longleftrightarrow> validate_page False p = None"
  by (cases b) (auto simp: validate_page_def split: option.splits)

lemma upsert_keys: "map ms_workspace (upsert_state r rows)
    = (if ms_workspace r \<in> set (map ms_workspace rows) then map ms_workspace rows else map ms_workspace rows @ [ms_workspace r])"
proof (cases "list_ex (\<lambda>q. ms_workspace q = ms_workspace r) rows")
  case True
  then have "ms_workspace r \<in> set (map ms_workspace rows)" by (auto simp: list_ex_iff intro: rev_image_eqI)
  then show ?thesis using True by (simp add: upsert_state_def comp_def cong: if_cong)
next
  case False
  then have "ms_workspace r \<notin> set (map ms_workspace rows)" by (auto simp: list_ex_iff)
  then show ?thesis using False by (simp add: upsert_state_def)
qed

lemma plan_keeps_states: "md_states (snd (save_memory_plan now ws prov steps given db)) = md_states db"
proof -
  have "md_states db' = md_states db" if "replace_plan t ws prov ss db = (r, db')" for t ss r db'
    using that by (auto simp: replace_plan_def split: option.splits prod.splits if_splits dest!: mem_calls_rows)
  moreover have "md_states (snd (list_memory_plan ws d)) = md_states d" for d
    by (auto simp: list_memory_plan_def split: option.splits prod.splits dest!: mem_call_rows)
  ultimately show ?thesis by (auto simp: save_memory_plan_def Let_def split: option.splits prod.splits)
qed

lemma mem_do_states:
  "md_states (mem_do e db) = md_states db
   \<or> (\<exists>ws. md_states (mem_do e db) = filter (\<lambda>r. ms_workspace r \<noteq> ws) (md_states db))
   \<or> (\<exists>r. md_states (mem_do e db) = upsert_state r (md_states db) \<and> ms_workspace r \<noteq> [] \<and> validate_page False (ms_page r) = None)"
proof (cases e)
  case (MSave now ws prov p given)
  show ?thesis
  proof (cases "md_states (mem_do e db) = md_states db")
    case False
    let ?r = "\<lparr>ms_workspace = ws, ms_page = p, ms_provider = prov, ms_updated = stamp_of now given\<rparr>"
    have "md_states (mem_do e db) = upsert_state ?r (md_states db)" "ws \<noteq> []" "validate_page (md_open_first db) p = None"
      using False MSave by (auto simp: save_memory_state_def split: option.splits prod.splits if_splits dest!: mem_call_rows)
    then show ?thesis using validate_page_order by (metis memory_state.select_convs(1,2))
  qed simp
next
  case (MAdd now n)
  then show ?thesis by (auto simp: add_memory_note_def Let_def split: option.splits prod.splits dest!: mem_call_rows)
next
  case (MArchive ws through)
  then show ?thesis by (auto simp: archive_memory_notes_def split: option.splits prod.splits dest!: mem_call_rows)
next
  case (MDropNote ws i)
  then show ?thesis by (auto simp: delete_memory_note_def split: option.splits prod.splits dest!: mem_call_rows)
next
  case (MDropAll ws)
  then show ?thesis by (auto simp: delete_memory_def split: option.splits prod.splits dest!: mem_calls_rows)
next
  case (MPlan now ws prov steps given)
  then show ?thesis by (simp add: plan_keeps_states)
next
  case (MStep now ws prov i state t nt given)
  then show ?thesis by (auto simp: update_memory_step_def split: option.splits prod.splits dest!: mem_call_rows)
next
  case MQuery
  then show ?thesis by (cases "mem_call db") (auto dest: mem_call_rows)
qed

lemma states_ok_do: "states_ok db \<Longrightarrow> states_ok (mem_do e db)"
proof -
  assume ok: "states_ok db"
  from mem_do_states [of e db] show ?thesis
  proof (elim disjE exE conjE)
    fix ws
    assume "md_states (mem_do e db) = filter (\<lambda>r. ms_workspace r \<noteq> ws) (md_states db)"
    then show ?thesis using ok by (auto simp: states_ok_def list_all_iff distinct_map inj_on_def)
  next
    fix r
    assume r: "md_states (mem_do e db) = upsert_state r (md_states db)" "ms_workspace r \<noteq> []" "validate_page False (ms_page r) = None"
    have "set (upsert_state r (md_states db)) \<subseteq> insert r (set (md_states db))" by (auto simp: upsert_state_def)
    then have "list_all (\<lambda>r. ms_workspace r \<noteq> [] \<and> validate_page False (ms_page r) = None) (md_states (mem_do e db))"
      using ok r by (auto simp: states_ok_def list_all_iff)
    moreover have "distinct (map ms_workspace (md_states (mem_do e db)))"
      using ok r(1) upsert_keys [of r "md_states db"] by (simp add: states_ok_def)
    ultimately show ?thesis by (simp add: states_ok_def)
  qed (use ok in \<open>simp add: states_ok_def\<close>)
qed

lemma sorted_wrt_map_filter: "sorted_wrt (<) (map f xs) \<Longrightarrow> sorted_wrt (<) (map f (filter P xs))" for f :: "'a \<Rightarrow> int"
  by (induction xs) auto

lemma notes_ok_do: "notes_ok db \<Longrightarrow> notes_ok (mem_do e db)"
proof -
  assume ok: "notes_ok db"
  from mem_do_notes [of e db] show ?thesis
  proof (elim disjE exE conjE)
    fix P f
    assume f: "md_notes (mem_do e db) = map f (filter P (md_notes db))" "\<forall>n. kept_note n (f n)"
      "md_note_seq (mem_do e db) = md_note_seq db"
    have kept: "mn_id (f n) = mn_id n" "validate_note (f n) = validate_note n" for n
      using f(2) kept_note_facts by blast+
    have "map mn_id (map f (filter P (md_notes db))) = map mn_id (filter P (md_notes db))" by (simp add: kept)
    then show ?thesis using ok f(1,3)
      by (auto simp: notes_ok_def list_all_iff sorted_wrt_map_filter kept simp del: map_map)
  next
    fix n
    assume "md_notes (mem_do e db) = md_notes db @ [n]" "mn_id n = md_note_seq db + 1" "md_note_seq (mem_do e db) = mn_id n"
      "validate_note n = None" "mn_id n \<le> max_row_id"
    then show ?thesis using ok by (fastforce simp: notes_ok_def list_all_iff sorted_wrt_append)
  qed
qed

lemma plan_positions_map: "\<forall>r. kept_step r (f r) \<Longrightarrow> plan_positions ws (map f rows) = plan_positions ws rows"
  by (induction rows) (auto simp: plan_positions_def kept_step_def)

lemma plan_positions_filter: "plan_positions ws (filter (\<lambda>r. Q (pr_workspace r)) rows) = (if Q ws then plan_positions ws rows else [])"
  by (induction rows) (auto simp: plan_positions_def)

lemma plan_positions_append: "plan_positions ws (xs @ ys) = plan_positions ws xs @ plan_positions ws ys"
  by (simp add: plan_positions_def)

lemma validate_step_cong:
  "mst_title r = mst_title s \<Longrightarrow> mst_note r = mst_note s \<Longrightarrow> mst_state r = mst_state s \<Longrightarrow> validate_step r = validate_step s"
  by (simp add: validate_step_def split: option.splits)

lemma plan_rows_facts:
  "map mst_id (plan_rows ws prov stamp k steps) = map (\<lambda>i. k + int i + 1) [0..<length steps]"
  "plan_positions ws' (plan_rows ws prov stamp k steps) = (if ws' = ws then map int [1..<Suc (length steps)] else [])"
  "r \<in> set (plan_rows ws prov stamp k steps) \<Longrightarrow> pr_workspace r = ws \<and> (\<exists>s \<in> set steps. validate_step r = validate_step s)"
proof -
  have zip: "map (\<lambda>(i, s). g i) (zip [0..<length steps] steps) = map g [0..<length steps]" for g :: "nat \<Rightarrow> int"
    by (rule nth_equalityI) simp_all
  show "map mst_id (plan_rows ws prov stamp k steps) = map (\<lambda>i. k + int i + 1) [0..<length steps]"
    using zip [of "\<lambda>i. k + int i + 1"] by (simp add: plan_rows_def comp_def case_prod_unfold)
  have "filter (\<lambda>r. pr_workspace r = ws') (plan_rows ws prov stamp k steps) = (if ws' = ws then plan_rows ws prov stamp k steps else [])"
    by (auto simp: plan_rows_def filter_map comp_def case_prod_unfold)
  moreover have "map mst_position (plan_rows ws prov stamp k steps) = map int [1..<Suc (length steps)]"
    using zip [of "\<lambda>i. int i + 1"] map_Suc_upt [of 0 "length steps", symmetric]
    by (simp add: plan_rows_def comp_def case_prod_unfold add.commute del: map_Suc_upt upt_Suc)
  ultimately show "plan_positions ws' (plan_rows ws prov stamp k steps) = (if ws' = ws then map int [1..<Suc (length steps)] else [])"
    by (simp add: plan_positions_def)
  show "pr_workspace r = ws \<and> (\<exists>s \<in> set steps. validate_step r = validate_step s)"
    if row: "r \<in> set (plan_rows ws prov stamp k steps)"
  proof -
    obtain i s where "(i, s) \<in> set (zip [0..<length steps] steps)" and r: "mst_title r = mst_title s" "mst_note r = mst_note s"
      "mst_state r = mst_state s" "pr_workspace r = ws"
      using row by (auto simp: plan_rows_def)
    then have "s \<in> set steps" by (auto dest: set_zip_rightD)
    with validate_step_cong [OF r(1,2,3)] show ?thesis using r(4) by blast
  qed
qed

lemma steps_ok_do: "steps_ok db \<Longrightarrow> steps_ok (mem_do e db)"
proof -
  assume ok: "steps_ok db"
  from mem_do_steps [of e db] show ?thesis
  proof (elim disjE exE conjE)
    fix Q f
    assume f: "md_steps (mem_do e db) = map f (filter (\<lambda>r. Q (pr_workspace r)) (md_steps db))" "\<forall>r. kept_step r (f r)"
      "md_step_seq (mem_do e db) = md_step_seq db"
    have kept: "mst_id (f r) = mst_id r" "validate_step r = None \<Longrightarrow> validate_step (f r) = None" for r
      using f(2) by (auto simp: kept_step_def)
    have "map mst_id (md_steps (mem_do e db)) = map mst_id (filter (\<lambda>r. Q (pr_workspace r)) (md_steps db))"
      by (simp add: kept f(1))
    moreover have "plan_positions ws (md_steps (mem_do e db)) = (if Q ws then plan_positions ws (md_steps db) else [])" for ws
      unfolding f(1) plan_positions_map [OF f(2)] plan_positions_filter ..
    moreover have "whole_plan []" by (simp add: whole_plan_def)
    moreover have "list_all (\<lambda>r. 0 < mst_id r \<and> mst_id r \<le> md_step_seq db \<and> validate_step r = None) (md_steps (mem_do e db))"
      using ok f(1) by (auto simp: steps_ok_def list_all_iff kept)
    ultimately show ?thesis using ok f(3)
      by (simp add: steps_ok_def sorted_wrt_map_filter)
  next
    fix ws prov stamp steps
    assume p: "md_steps (mem_do e db) = filter (\<lambda>r. pr_workspace r \<noteq> ws) (md_steps db) @ plan_rows ws prov stamp (md_step_seq db) steps"
      "md_step_seq (mem_do e db) = md_step_seq db + int (length steps)" "md_step_seq (mem_do e db) \<le> max_row_id"
      "length steps \<le> memory_plan_steps" "first_some validate_step steps = None"
    let ?new = "plan_rows ws prov stamp (md_step_seq db) steps"
    have new: "md_step_seq db < mst_id r \<and> mst_id r \<le> md_step_seq (mem_do e db) \<and> validate_step r = None" if "r \<in> set ?new" for r
    proof -
      have "mst_id r \<in> set (map mst_id ?new)" using that by simp
      then show ?thesis
        using plan_rows_facts(1) [of ws prov stamp "md_step_seq db" steps] plan_rows_facts(3) [OF that] p(2,5)
        by auto
    qed
    have "sorted_wrt (<) (map mst_id ?new)" unfolding plan_rows_facts by (auto simp: sorted_wrt_map intro!: sorted_wrt_mono_rel [OF _ sorted_wrt_upt])
    then have "sorted_wrt (<) (map mst_id (md_steps (mem_do e db)))"
      using ok new sorted_wrt_map_filter unfolding p(1)
      by (fastforce simp: steps_ok_def sorted_wrt_append list_all_iff)
    moreover have "plan_positions v (md_steps (mem_do e db)) = (if v = ws then map int [1..<Suc (length steps)] else plan_positions v (md_steps db))" for v
      unfolding p(1) plan_positions_append plan_rows_facts using plan_positions_filter [of v "\<lambda>v. v \<noteq> ws"] by simp
    moreover have "whole_plan (map int [1..<Suc (length steps)])" using p(4) by (simp add: whole_plan_def del: upt_Suc)
    moreover have "list_all (\<lambda>r. 0 < mst_id r \<and> mst_id r \<le> md_step_seq (mem_do e db) \<and> validate_step r = None) (md_steps (mem_do e db))"
      using ok new p(1,2) by (fastforce simp: steps_ok_def list_all_iff)
    ultimately show ?thesis using ok p(2,3)
      by (simp add: steps_ok_def del: upt_Suc)
  qed
qed

lemma memory_ok_run:
  "notes_ok db \<Longrightarrow> notes_ok (mem_run es db)" "steps_ok db \<Longrightarrow> steps_ok (mem_run es db)" "states_ok db \<Longrightarrow> states_ok (mem_run es db)"
  using mem_run_keeps [of notes_ok, OF notes_ok_do] mem_run_keeps [of steps_ok, OF steps_ok_do]
    mem_run_keeps [of states_ok, OF states_ok_do] by blast+

lemma note_rows_ok: "notes_ok (mem_run es (empty_memory faults b))"
  by (rule memory_ok_run) (simp add: notes_ok_def empty_memory_def max_row_id_def)

lemma step_rows_ok: "steps_ok (mem_run es (empty_memory faults b))"
  by (rule memory_ok_run) (simp add: steps_ok_def empty_memory_def max_row_id_def plan_positions_def whole_plan_def)

text \<open>
  Over every interleaving of statements, whichever of them fail, each workspace has at most
  one page and every page is within its bounds; every note has an identifier of its own, in the
  order of insertion, a workspace, a title that is not blank and texts of valid UTF-8 within
  their bounds; every step a title, one of the four states and a bounded note; and the steps of
  each workspace are numbered from one without a gap, up to twenty.
\<close>

theorem memory_stays_bounded:
  "states_ok (mem_run es (empty_memory faults b)) \<and> notes_ok (mem_run es (empty_memory faults b))
     \<and> steps_ok (mem_run es (empty_memory faults b))"
proof (intro conjI)
  show "states_ok (mem_run es (empty_memory faults b))"
    by (rule memory_ok_run) (simp add: states_ok_def empty_memory_def)
qed (rule note_rows_ok step_rows_ok)+

section \<open>Old rows\<close>

lemma kept_note_trans: "kept_note n m \<Longrightarrow> kept_note m k \<Longrightarrow> kept_note n k"
  by (auto simp: kept_note_def)

lemma note_seq_mono: "md_note_seq db \<le> md_note_seq (mem_run es db)"
proof (induction es arbitrary: db)
  case (Cons e es)
  have "md_note_seq db \<le> md_note_seq (mem_do e db)" using mem_do_notes [of e db] by auto
  with Cons [of "mem_do e db"] show ?case by simp
qed simp

lemma old_notes_do:
  assumes "n \<in> set (md_notes (mem_do e db))" and "mn_id n \<le> md_note_seq db"
  shows "\<exists>m \<in> set (md_notes db). kept_note m n"
  using mem_do_notes [of e db]
proof (elim disjE exE conjE)
  fix P f
  assume "md_notes (mem_do e db) = map f (filter P (md_notes db))" "\<forall>n. kept_note n (f n)"
  then show ?thesis using assms(1) by auto
next
  fix k
  assume "md_notes (mem_do e db) = md_notes db @ [k]" "mn_id k = md_note_seq db + 1"
  then show ?thesis using assms by (auto intro!: bexI [of _ n] simp: kept_note_def)
qed

text \<open>A note with an identifier that was given out is one of the notes there were, archived or not.\<close>

lemma old_notes_run:
  "n \<in> set (md_notes (mem_run es db)) \<Longrightarrow> mn_id n \<le> md_note_seq db \<Longrightarrow> \<exists>m \<in> set (md_notes db). kept_note m n"
proof (induction es arbitrary: db)
  case (Cons e es)
  have mono: "md_note_seq db \<le> md_note_seq (mem_do e db)" using note_seq_mono [of db "[e]"] by simp
  from Cons.IH [of "mem_do e db"] Cons.prems mono obtain m where
    m: "m \<in> set (md_notes (mem_do e db))" "kept_note m n" by auto
  then have "mn_id m \<le> md_note_seq db" using Cons.prems(2) kept_note_facts by metis
  from old_notes_do [OF m(1) this] obtain k where "k \<in> set (md_notes db)" "kept_note k m" by blast
  then show ?case using m(2) kept_note_trans by blast
qed (auto simp: kept_note_def)

lemma step_seq_mono: "md_step_seq db \<le> md_step_seq (mem_run es db)"
proof (induction es arbitrary: db)
  case (Cons e es)
  have "md_step_seq db \<le> md_step_seq (mem_do e db)" using mem_do_steps [of e db] by auto
  with Cons [of "mem_do e db"] show ?case by simp
qed simp

lemma old_steps_run:
  "r \<in> set (md_steps (mem_run es db)) \<Longrightarrow> mst_id r \<le> md_step_seq db
     \<Longrightarrow> \<exists>q \<in> set (md_steps db). mst_id q = mst_id r \<and> pr_workspace q = pr_workspace r"
proof (induction es arbitrary: db)
  case (Cons e es)
  have mono: "md_step_seq db \<le> md_step_seq (mem_do e db)" using step_seq_mono [of db "[e]"] by simp
  from Cons.IH [of "mem_do e db"] Cons.prems mono obtain m where
    m: "m \<in> set (md_steps (mem_do e db))" "mst_id m = mst_id r" "pr_workspace m = pr_workspace r" by auto
  have "\<exists>q \<in> set (md_steps db). mst_id q = mst_id m \<and> pr_workspace q = pr_workspace m"
    using mem_do_steps [of e db]
  proof (elim disjE exE conjE)
    fix Q f
    assume "md_steps (mem_do e db) = map f (filter (\<lambda>r. Q (pr_workspace r)) (md_steps db))" "\<forall>r. kept_step r (f r)"
    then show ?thesis using m(1) by (auto simp: kept_step_def)
  next
    fix ws prov stamp steps
    assume rows: "md_steps (mem_do e db) = filter (\<lambda>r. pr_workspace r \<noteq> ws) (md_steps db) @ plan_rows ws prov stamp (md_step_seq db) steps"
    have "m \<notin> set (plan_rows ws prov stamp (md_step_seq db) steps)"
    proof
      assume "m \<in> set (plan_rows ws prov stamp (md_step_seq db) steps)"
      then have "mst_id m \<in> set (map mst_id (plan_rows ws prov stamp (md_step_seq db) steps))" by simp
      then show False unfolding plan_rows_facts using m(2) Cons.prems(2) by auto
    qed
    then show ?thesis using m(1) rows by auto
  qed
  then show ?case using m by auto
qed auto

section \<open>Plans that were replaced\<close>

lemma saved_plan:
  assumes "save_memory_plan now ws prov steps given db = (Inr plan, db1)"
  shows "plan = plan_of ws db1"
    "md_steps db1 = filter (\<lambda>r. pr_workspace r \<noteq> ws) (md_steps db)
       @ plan_rows ws prov (stamp_of now given) (md_step_seq db) (map tidy_step steps)"
    "md_step_seq db1 = md_step_seq db + int (length steps)"
proof -
  obtain r db' where r: "replace_plan (stamp_of now given) ws prov (map tidy_step steps) db = (r, db')"
    by (cases "replace_plan (stamp_of now given) ws prov (map tidy_step steps) db")
  from assms r have r2: "r = None" "list_memory_plan ws db' = (Inr plan, db1)"
    by (auto simp: save_memory_plan_def Let_def split: if_splits option.splits)
  from r2(2) have same: "plan = plan_of ws db1" "md_steps db1 = md_steps db'" "md_step_seq db1 = md_step_seq db'"
    by (auto simp: list_memory_plan_def plan_of_def split: option.splits prod.splits dest!: mem_call_rows)
  have rows: "md_steps db' = filter (\<lambda>r. pr_workspace r \<noteq> ws) (md_steps db)
       @ plan_rows ws prov (stamp_of now given) (md_step_seq db) (map tidy_step steps)"
    "md_step_seq db' = md_step_seq db + int (length steps)"
    using r r2(1) by (auto simp: replace_plan_def split: option.splits prod.splits if_splits dest!: mem_calls_rows)
  show "plan = plan_of ws db1" by (rule same)
  show "md_steps db1 = filter (\<lambda>r. pr_workspace r \<noteq> ws) (md_steps db)
       @ plan_rows ws prov (stamp_of now given) (md_step_seq db) (map tidy_step steps)"
    using same rows by simp
  show "md_step_seq db1 = md_step_seq db + int (length steps)" using same rows by simp
qed

lemma plan_of_member: "s \<in> set (plan_of ws db) \<longleftrightarrow> (\<exists>r \<in> set (md_steps db). pr_workspace r = ws \<and> s = step_of_row r)"
  by (auto simp: plan_of_def)

text \<open>
  Once a plan has been replaced, a move of one of its old steps is refused in every later
  history, whatever happened in between, and moves nothing: identifiers are not used again.
\<close>

theorem stale_steps_are_refused:
  assumes "s \<in> set (plan_of ws (mem_run es (empty_memory faults b)))"
    and "save_memory_plan now ws prov steps given (mem_run es (empty_memory faults b)) = (Inr plan, db1)"
  shows "fst (update_memory_step now' ws prov' (mst_id s) state title text given' (mem_run es' db1)) \<noteq> None
    \<and> md_steps (snd (update_memory_step now' ws prov' (mst_id s) state title text given' (mem_run es' db1)))
      = md_steps (mem_run es' db1)"
proof -
  let ?db = "mem_run es (empty_memory faults b)"
  note saved = saved_plan [OF assms(2)]
  have "mst_id s \<le> md_step_seq ?db"
    using assms(1) step_rows_ok [of es faults b]
    by (auto simp: plan_of_member steps_ok_def list_all_iff step_of_row_def)
  then have old: "mst_id s < mst_id q" if "q \<in> set (md_steps db1)" "pr_workspace q = ws" for q
  proof -
    have "q \<in> set (plan_rows ws prov (stamp_of now given) (md_step_seq ?db) (map tidy_step steps))" using that saved(2) by auto
    then have "mst_id q \<in> set (map mst_id (plan_rows ws prov (stamp_of now given) (md_step_seq ?db) (map tidy_step steps)))" by simp
    then show ?thesis using \<open>mst_id s \<le> md_step_seq ?db\<close> unfolding plan_rows_facts by auto
  qed
  have gone: "\<not> list_ex (\<lambda>r. pr_workspace r = ws \<and> mst_id r = mst_id s) (md_steps (mem_run es' db1))"
  proof
    assume "list_ex (\<lambda>r. pr_workspace r = ws \<and> mst_id r = mst_id s) (md_steps (mem_run es' db1))"
    then obtain r where r: "r \<in> set (md_steps (mem_run es' db1))" "pr_workspace r = ws" "mst_id r = mst_id s"
      by (auto simp: list_ex_iff)
    have "mst_id r \<le> md_step_seq db1" using r(3) \<open>mst_id s \<le> md_step_seq ?db\<close> saved(3) by simp
    from old_steps_run [OF r(1) this] old r show False by force
  qed
  then show ?thesis
    by (auto simp: update_memory_step_def split: option.splits prod.splits dest!: mem_call_rows)
qed

text \<open>One plan saved over another: the first step of the old one.\<close>

definition plain_step :: "string \<Rightarrow> memory_step" where
  "plain_step t = \<lparr>mst_id = 0, mst_position = 0, mst_title = t, mst_state = [], mst_note = [], mst_provider = [], mst_updated = 0\<rparr>"

lemma plain_trim: "trim_space ''a'' = ''a''" "trim_space ''b'' = ''b''"
  by (simp_all add: trim_space_def space_encodings_def)

lemma plain_tidy: "tidy_step (plain_step t) = (plain_step (trim_space t))\<lparr>mst_state := step_todo\<rparr>"
  by (simp add: tidy_step_def plain_step_def Let_def)

lemma plain_valid: "valid_string ''a''" "valid_string ''b''" "valid_string []"
  by (simp_all add: valid_string_ascii ascii_byte_def)

lemma plain_saved:
  assumes "t \<in> {''a'', ''b''}" and "md_faults db = []" and "md_step_seq db < 100"
  shows "save_memory_plan now ''w'' ''p'' [plain_step t] 0 db
    = (let db1 = db\<lparr>md_steps := filter (\<lambda>r. pr_workspace r \<noteq> ''w'') (md_steps db)
           @ plan_rows ''w'' ''p'' now (md_step_seq db) [(plain_step t)\<lparr>mst_state := step_todo\<rparr>],
         md_step_seq := md_step_seq db + 1\<rparr> in (Inr (plan_of ''w'' db1), db1))"
proof -
  have t: "trim_space t = t" "valid_string t" "t \<noteq> []" "\<not> 200 < length t"
    using assms(1) by (auto simp: plain_trim plain_valid)
  have "validate_step ((plain_step t)\<lparr>mst_state := step_todo\<rparr>) = None"
    by (simp add: validate_step_def plain_step_def t plain_valid within_bytes_def step_title_bytes_def valid_step_state_def)
  then show ?thesis
    using assms(2,3)
    by (simp add: save_memory_plan_def replace_plan_def list_memory_plan_def mem_calls_quiet mem_call_quiet plain_tidy t
      memory_plan_steps_def max_row_id_def stamp_of_def Let_def)
qed

theorem stale_steps_are_refused_witness:
  "\<exists>s plan db1.
     s \<in> set (plan_of ''w'' (mem_run [MPlan 1 ''w'' ''p'' [plain_step ''a''] 0] (empty_memory [] False)))
   \<and> save_memory_plan 2 ''w'' ''p'' [plain_step ''b''] 0
       (mem_run [MPlan 1 ''w'' ''p'' [plain_step ''a''] 0] (empty_memory [] False)) = (Inr plan, db1)
   \<and> fst (update_memory_step 3 ''w'' ''p'' (mst_id s) step_done None None 0 (mem_run [MQuery] db1)) \<noteq> None
   \<and> mst_id s = 1 \<and> map mst_id plan = [2]"
proof -
  let ?db = "mem_run [MPlan 1 ''w'' ''p'' [plain_step ''a''] 0] (empty_memory [] False)"
  have first: "md_steps ?db = plan_rows ''w'' ''p'' 1 0 [(plain_step ''a'')\<lparr>mst_state := step_todo\<rparr>]"
    "md_faults ?db = []" "md_step_seq ?db = 1"
    by (simp_all add: plain_saved Let_def empty_memory_def)
  obtain s where s: "s \<in> set (plan_of ''w'' ?db)" "mst_id s = 1"
    using first(1) by (auto simp: plan_of_member plan_rows_def step_of_row_def simp del: mem_run_simps)
  obtain plan db1 where saved: "save_memory_plan 2 ''w'' ''p'' [plain_step ''b''] 0 ?db = (Inr plan, db1)" "map mst_id plan = [2]"
    using plain_saved [of "''b''" ?db 2] first
    by (simp add: Let_def plan_of_def plan_rows_def step_of_row_def)
  from stale_steps_are_refused [OF s(1) saved(1), of 3 "''p''" step_done None None 0 "[MQuery]"]
  have "fst (update_memory_step 3 ''w'' ''p'' (mst_id s) step_done None None 0 (mem_run [MQuery] db1)) \<noteq> None" by (rule conjunct1)
  with s saved show ?thesis by (intro exI [of _ s] exI [of _ plan] exI [of _ db1] conjI)
qed

section \<open>What a search finds\<close>

definition caseless :: "string \<Rightarrow> string" where
  "caseless s = map lower_byte s"

text \<open>The search as its comment describes it: every word in the title or in the body.\<close>

definition holds_words :: "string list \<Rightarrow> memory_note \<Rightarrow> bool" where
  "holds_words words n = list_all (\<lambda>w. contains (caseless (mn_title n)) (caseless w) \<or> contains (caseless (mn_body n)) (caseless w)) words"

definition plain_search :: "string \<Rightarrow> string list \<Rightarrow> int \<Rightarrow> memory_note list \<Rightarrow> memory_note list" where
  "plain_search ws words limit ns = newest_first (or_limit limit 10) (filter (\<lambda>n. mn_workspace n = ws \<and> holds_words words n) ns)"

lemma caseless_simps [simp]: "caseless [] = []" "caseless (c # s) = lower_byte c # caseless s" "caseless (s @ t) = caseless s @ caseless t"
  by (simp_all add: caseless_def)

lemma like_escape_simps [simp]: "like_escape [] = []"
  "like_escape (c # w) = (if c \<in> {CHR 0x5C, CHR ''%'', CHR ''_''} then [CHR 0x5C, c] else [c]) @ like_escape w"
  by (simp_all add: like_escape_def)

lemma like_word: "sql_like (like_escape w @ ps) x \<longleftrightarrow> (\<exists>u v. x = u @ v \<and> caseless u = caseless w \<and> sql_like ps v)"
proof (induction w arbitrary: x)
  case Nil
  then show ?case by (auto simp: caseless_def)
next
  case (Cons c w)
  have front: "sql_like (like_escape (c # w) @ ps) x
      = (case x of [] \<Rightarrow> False | y # ys \<Rightarrow> lower_byte y = lower_byte c \<and> sql_like (like_escape w @ ps) ys)"
    by (cases x) auto
  show ?case
  proof (cases x)
    case Nil
    then show ?thesis unfolding front by (simp add: caseless_def)
  next
    case (Cons y ys)
    have "(\<exists>u v. x = u @ v \<and> caseless u = caseless (c # w) \<and> sql_like ps v)
        \<longleftrightarrow> lower_byte y = lower_byte c \<and> (\<exists>u v. ys = u @ v \<and> caseless u = caseless w \<and> sql_like ps v)"
    proof (intro iffI; elim exE conjE)
      fix u v
      assume "x = u @ v" "caseless u = caseless (c # w)" "sql_like ps v"
      then show "lower_byte y = lower_byte c \<and> (\<exists>u v. ys = u @ v \<and> caseless u = caseless w \<and> sql_like ps v)"
        using Cons by (cases u) auto
    next
      fix u v
      assume "lower_byte y = lower_byte c" "ys = u @ v" "caseless u = caseless w" "sql_like ps v"
      then have "x = (y # u) @ v" "caseless (y # u) = caseless (c # w)" using Cons by simp_all
      then show "\<exists>u v. x = u @ v \<and> caseless u = caseless (c # w) \<and> sql_like ps v" using \<open>sql_like ps v\<close> by blast
    qed
    then show ?thesis unfolding front using Cons Cons.IH by simp
  qed
qed

lemma like_all: "sql_like ''%'' x"
  by (auto simp: list_ex_iff intro!: bexI [of _ "length x"])

lemma like_around: "sql_like (''%'' @ like_escape w @ ''%'') x \<longleftrightarrow> contains (caseless x) (caseless w)"
proof -
  have "sql_like (''%'' @ like_escape w @ ''%'') x \<longleftrightarrow> (\<exists>k \<le> length x. sql_like (like_escape w @ ''%'') (drop k x))"
    by (auto simp: list_ex_iff less_Suc_eq_le simp del: upt_Suc)
  also have "\<dots> \<longleftrightarrow> (\<exists>a u v. x = a @ u @ v \<and> caseless u = caseless w)"
  proof (intro iffI; elim exE conjE)
    fix k
    assume "sql_like (like_escape w @ ''%'') (drop k x)"
    then obtain u v where "drop k x = u @ v" "caseless u = caseless w" unfolding like_word by blast
    then have "x = take k x @ u @ v" by (metis append_take_drop_id)
    then show "\<exists>a u v. x = a @ u @ v \<and> caseless u = caseless w" using \<open>caseless u = caseless w\<close> by blast
  next
    fix a u v
    assume x: "x = a @ u @ v" "caseless u = caseless w"
    have "sql_like (like_escape w @ ''%'') (u @ v)" unfolding like_word using x(2) like_all by blast
    then show "\<exists>k \<le> length x. sql_like (like_escape w @ ''%'') (drop k x)"
      using x(1) by (intro exI [of _ "length a"]) simp
  qed
  also have "\<dots> \<longleftrightarrow> contains (caseless x) (caseless w)"
  proof (intro iffI; (elim exE conjE)?)
    assume "contains (caseless x) (caseless w)"
    then obtain a b where "caseless x = a @ caseless w @ b" unfolding contains_iff sublist_def by blast
    then show "\<exists>a u v. x = a @ u @ v \<and> caseless u = caseless w"
      unfolding caseless_def map_eq_append_conv append_eq_map_conv by (metis (no_types))
  qed (auto simp: contains_iff sublist_def)
  finally show ?thesis .
qed

lemma word_found_iff:
  "word_found w n \<longleftrightarrow> contains (caseless (mn_title n)) (caseless w) \<or> contains (caseless (mn_body n)) (caseless w)"
  unfolding word_found_def Let_def like_around ..

text \<open>
  A search gives the newest notes of the workspace, archived ones among them, that hold
  every word of the query in the title or in the body without regard to the case of ASCII
  letters, and nothing in a word has a meaning of its own to the pattern it becomes.
\<close>

theorem search_is_containment:
  "search_memory_notes ws query limit db
    = (if fields_of query = [] then (Inl MemEmptyQuery, db)
       else query_notes (plain_search ws (fields_of query) limit) db)"
  by (simp add: search_memory_notes_def plain_search_def [abs_def] holds_words_def word_found_iff Let_def)

end
