(* ===== verification/MemoryTools.thy ===== *)
theory MemoryTools
  imports WriteTools ReadTools MemoryFacts
begin

text \<open>
  The tool \<open>memory\<close> with its branches: \<^verbatim>\<open>mcpserver/memorytool.go\<close>, \<^verbatim>\<open>memory.go\<close>, \<^verbatim>\<open>plan.go\<close> and
  \<^verbatim>\<open>compact.go\<close>. A branch is a sequence of steps over the manager of the workspaces, the memory
  tables, the journal of runs and the change sets; the first that fails ends it. Answers are
  data: the sentences of hints and errors are constructors with what they name.
\<close>

section \<open>State and steps\<close>

record memory_world =
  mw_tools :: tool_state
  mw_memory :: memory_db
  mw_runs :: exec_store

record memory_tools =
  mt_tools :: toolset
  mt_reader :: reader
  mt_memory :: bool
  mt_compacts :: bool
  mt_has_runs :: bool

datatype memory_tool_error =
    NoMemory
  | NothingToRemember
  | MemNotOpened tool_error
  | MemStore memory_error
  | NotIssued string
  | UnknownRef string string
  | RefFailed
  | RefRuns store_error
  | RunsUnchecked
  | QueryRequired
  | QueryTooLong nat
  | LimitNegative
  | LimitOver int
  | TooManyIds nat
  | BeforeNegative
  | PlanEmpty
  | NotAState string
  | StepIdRequired
  | NoSuchStep int
  | NoCompactor
  | NeedsBoth
  | SummaryTooLong nat
  | NothingToCompact
  | WrongThrough int int
  | MemActionRequired
  | UnknownMemAction string
  | SlicePanic

type_synonym 'a memory_act = "memory_world \<Rightarrow> (memory_tool_error + 'a) \<times> memory_world"

definition mem_ret :: "'a \<Rightarrow> 'a memory_act" where
  "mem_ret x w = (Inr x, w)"

definition mem_fail :: "memory_tool_error \<Rightarrow> 'a memory_act" where
  "mem_fail e w = (Inl e, w)"

definition mem_then :: "'a memory_act \<Rightarrow> ('a \<Rightarrow> 'b memory_act) \<Rightarrow> 'b memory_act" where
  "mem_then m k w = (case m w of (Inl e, w') \<Rightarrow> (Inl e, w') | (Inr x, w') \<Rightarrow> k x w')"

definition mem_query :: "(memory_db \<Rightarrow> (memory_error + 'a) \<times> memory_db) \<Rightarrow> 'a memory_act" where
  "mem_query q w = (case q (mw_memory w) of (r, db) \<Rightarrow> (map_sum MemStore id r, w\<lparr>mw_memory := db\<rparr>))"

definition mem_exec :: "(memory_db \<Rightarrow> memory_error option \<times> memory_db) \<Rightarrow> unit memory_act" where
  "mem_exec q w =
     (case q (mw_memory w) of
        (None, db) \<Rightarrow> (Inr (), w\<lparr>mw_memory := db\<rparr>)
      | (Some e, db) \<Rightarrow> (Inl (MemStore e), w\<lparr>mw_memory := db\<rparr>))"

definition mem_open :: "memory_tools \<Rightarrow> string \<Rightarrow> workspace memory_act" where
  "mem_open M k w = (case open_tool (mt_tools M) k (mw_tools w) of (r, s) \<Rightarrow> (map_sum MemNotOpened id r, w\<lparr>mw_tools := s\<rparr>))"

abbreviation mt_now :: "memory_tools \<Rightarrow> time" where "mt_now M \<equiv> ts_now (mt_tools M)"
abbreviation mt_provider :: "memory_tools \<Rightarrow> string" where "mt_provider M \<equiv> ts_provider (mt_tools M)"
abbreviation mt_unicode :: "memory_tools \<Rightarrow> unicode" where "mt_unicode M \<equiv> ts_unicode (mt_tools M)"
abbreviation mt_budget :: "memory_tools \<Rightarrow> int" where "mt_budget M \<equiv> inline_budget (mt_reader M) (mt_provider M)"

section \<open>Cutting what is too long\<close>

definition bound_text :: "string \<Rightarrow> nat \<Rightarrow> string \<times> bool" where
  "bound_text s limit = (if length s \<le> limit then (s, False) else (truncate_utf8 s limit, True))"

text \<open>The loop of \<open>boundList\<close> with the number of items it has.\<close>

fun bound_items :: "nat \<Rightarrow> string list \<Rightarrow> string list \<times> bool" where
  "bound_items k [] = ([], False)"
| "bound_items k (i # is) =
     (let t = trim_space i in
      if t = [] then bound_items k is
      else if k = memory_list_items then ([], True)
      else (case bound_text t memory_item_bytes of
          (v, was) \<Rightarrow> (case bound_items (Suc k) is of (vs, clip) \<Rightarrow> (v # vs, was \<or> clip))))"

definition bound_list :: "string list \<Rightarrow> string list \<times> bool" where
  "bound_list items = bound_items 0 items"

definition bound_page :: "memory_page \<Rightarrow> memory_page \<times> string list" where
  "bound_page p =
     (let (g, cg) = bound_text (trim_space (mp_goal p)) memory_goal_bytes;
          (s, cs) = bound_text (trim_space (mp_progress p)) memory_progress_bytes;
          (n, cn) = bound_text (trim_space (mp_next p)) memory_next_bytes;
          (d, cd) = bound_list (mp_decisions p);
          (q, cq) = bound_list (mp_open p)
      in (\<lparr>mp_goal = g, mp_progress = s, mp_next = n, mp_decisions = d, mp_open = q\<rparr>,
          (if cg then [''page.goal''] else []) @ (if cs then [''page.progress''] else [])
            @ (if cn then [''page.next''] else []) @ (if cd then [''page.decisions''] else [])
            @ (if cq then [''page.open''] else [])))"

definition bound_limit :: "int \<Rightarrow> int \<Rightarrow> int \<Rightarrow> memory_tool_error + int" where
  "bound_limit n dflt most =
     (if n < 0 then Inl LimitNegative
      else if n = 0 then Inr dflt
      else if most < n then Inl (LimitOver most)
      else Inr n)"

definition mem_lift :: "memory_tool_error + 'a \<Rightarrow> 'a memory_act" where
  "mem_lift r w = (r, w)"

section \<open>note\<close>

record memory_input =
  mq_workspace :: string
  mq_title :: string
  mq_body :: string
  mq_change_set :: string
  mq_run :: string
  mq_page :: "memory_page option"
  mq_query :: string
  mq_ids :: "int list"
  mq_before :: int
  mq_limit :: int
  mq_steps :: "(string \<times> string \<times> string) list"
    \<comment> \<open>title, state and note of each step\<close>
  mq_step :: int
  mq_state :: string
  mq_note :: string
  mq_summary :: string
  mq_through :: int

definition get_change_set :: "string \<Rightarrow> change_set option option memory_act" where
  "get_change_set cid w =
     (case mw_tools w of (es, st) \<Rightarrow>
        (case db_call es of
           (ok, es') \<Rightarrow> (Inr (if ok then Some (map_of (es_sets es') cid) else None), w\<lparr>mw_tools := (es', st)\<rparr>)))"

definition mem_find_run :: "string \<Rightarrow> exec_event option memory_act" where
  "mem_find_run run w = (case find_run run (mw_runs w) of (r, xs) \<Rightarrow> (map_sum RefRuns id r, w\<lparr>mw_runs := xs\<rparr>))"

definition change_set_ref :: "string \<Rightarrow> string \<Rightarrow> unit memory_act" where
  "change_set_ref ws cid =
     (if cid = [] then mem_ret ()
      else if memory_ref_bytes < length cid then mem_fail (NotIssued ''change_set_id'')
      else mem_then (get_change_set cid) (\<lambda>r. case r of
          None \<Rightarrow> mem_fail RefFailed
        | Some None \<Rightarrow> mem_fail (UnknownRef ''change_set_id'' cid)
        | Some (Some c) \<Rightarrow> if cs_workspace c \<noteq> ws then mem_fail (UnknownRef ''change_set_id'' cid) else mem_ret ()))"

definition run_ref :: "memory_tools \<Rightarrow> string \<Rightarrow> string \<Rightarrow> unit memory_act" where
  "run_ref M ws run =
     (if run = [] then mem_ret ()
      else if memory_ref_bytes < length run then mem_fail (NotIssued ''run_id'')
      else if \<not> mt_has_runs M then mem_fail RunsUnchecked
      else mem_then (mem_find_run run) (\<lambda>r. case r of
          None \<Rightarrow> mem_fail (UnknownRef ''run_id'' run)
        | Some e \<Rightarrow> if ee_workspace e \<noteq> ws then mem_fail (UnknownRef ''run_id'' run) else mem_ret ()))"

definition memory_refs :: "memory_tools \<Rightarrow> string \<Rightarrow> string \<Rightarrow> string \<Rightarrow> unit memory_act" where
  "memory_refs M ws cid run = mem_then (change_set_ref ws cid) (\<lambda>_. run_ref M ws run)"

record note_answer =
  na_note :: int
  na_page_updated :: bool
  na_cut :: "string list"
  na_notes :: nat

definition note_of_input :: "memory_tools \<Rightarrow> string \<Rightarrow> memory_input \<Rightarrow> memory_note" where
  "note_of_input M ws i =
     \<lparr>mn_id = 0, mn_workspace = ws, mn_provider = mt_provider M,
      mn_title = fst (bound_text (trim_space (mq_title i)) memory_title_bytes),
      mn_body = fst (bound_text (trim_space (mq_body i)) memory_body_bytes),
      mn_change_set = mq_change_set i, mn_run = mq_run i, mn_archived = False, mn_created = 0\<rparr>"

definition note_page :: "memory_tools \<Rightarrow> string \<Rightarrow> memory_input \<Rightarrow> (string list \<times> bool) memory_act" where
  "note_page M ws i =
     (case mq_page i of
        None \<Rightarrow> mem_ret ([], False)
      | Some p \<Rightarrow>
         (case bound_page p of
            (p', clip) \<Rightarrow> mem_then (mem_exec (save_memory_state (mt_now M) ws (mt_provider M) p' 0)) (\<lambda>_. mem_ret (clip, True))))"

definition note_added :: "memory_tools \<Rightarrow> string \<Rightarrow> memory_input \<Rightarrow> (int \<times> string list) memory_act" where
  "note_added M ws i =
     (if trim_space (mq_title i) = [] then mem_ret (0, [])
      else mem_then (memory_refs M ws (mq_change_set i) (mq_run i)) (\<lambda>_.
        mem_then (mem_query (add_memory_note (mt_now M) (note_of_input M ws i))) (\<lambda>n.
          mem_ret (mn_id n,
            (if snd (bound_text (trim_space (mq_title i)) memory_title_bytes) then [''title''] else [])
              @ (if snd (bound_text (trim_space (mq_body i)) memory_body_bytes) then [''body''] else [])))))"

definition memory_note_tool :: "memory_tools \<Rightarrow> memory_input \<Rightarrow> note_answer memory_act" where
  "memory_note_tool M i =
     (if \<not> mt_memory M then mem_fail NoMemory
      else if trim_space (mq_title i) = [] \<and> mq_page i = None then mem_fail NothingToRemember
      else mem_then (mem_open M (mq_workspace i)) (\<lambda>ws.
        mem_then (note_page M (ws_id ws) i) (\<lambda>(clip, updated).
          mem_then (note_added M (ws_id ws) i) (\<lambda>(nid, clip').
            mem_then (mem_query (count_memory_notes (ws_id ws))) (\<lambda>(live, archived).
              mem_ret \<lparr>na_note = nid, na_page_updated = updated, na_cut = clip @ clip', na_notes = live\<rparr>)))))"

section \<open>plan and step\<close>

text \<open>What \<open>planHint\<close> says: how many steps are done, of how many, how many are blocked, and the live one.\<close>

datatype live_step = InFlight memory_step | NextUp memory_step | NothingLeft

record plan_hint =
  ph_done :: nat
  ph_of :: nat
  ph_blocked :: nat
  ph_live :: live_step

definition plan_hint_of :: "memory_step list \<Rightarrow> plan_hint option" where
  "plan_hint_of steps =
     (if steps = [] then None
      else Some \<lparr>ph_done = length (filter (\<lambda>s. mst_state s = step_done) steps), ph_of = length steps,
        ph_blocked = length (filter (\<lambda>s. mst_state s = step_blocked) steps),
        ph_live = (case List.find (\<lambda>s. mst_state s = step_doing) steps of
            Some s \<Rightarrow> InFlight s
          | None \<Rightarrow> (case List.find (\<lambda>s. mst_state s = step_todo) steps of
              Some s \<Rightarrow> NextUp s
            | None \<Rightarrow> NothingLeft))\<rparr>)"

definition wanted_state :: "memory_tools \<Rightarrow> string \<Rightarrow> string" where
  "wanted_state M s = to_lower (mt_unicode M) (trim_space s)"

text \<open>The loop of \<open>planSteps\<close>: the steps, and whether a title or a note was cut.\<close>

fun plan_inputs :: "memory_tools \<Rightarrow> (string \<times> string \<times> string) list \<Rightarrow> memory_tool_error + memory_step list \<times> bool \<times> bool" where
  "plan_inputs M [] = Inr ([], False, False)"
| "plan_inputs M ((title, state, remark) # is) =
     (let (t, ct) = bound_text (trim_space title) step_title_bytes;
          (n, cn) = bound_text (trim_space remark) step_note_bytes;
          lowered = wanted_state M state;
          st = (if lowered = [] then step_todo else lowered)
      in if \<not> valid_step_state st then Inl (NotAState state)
         else (case plan_inputs M is of
             Inl e \<Rightarrow> Inl e
           | Inr (ss, cts, cns) \<Rightarrow>
               Inr (\<lparr>mst_id = 0, mst_position = 0, mst_title = t, mst_state = st, mst_note = n, mst_provider = [], mst_updated = 0\<rparr> # ss,
                    ct \<or> cts, cn \<or> cns)))"

definition plan_steps_tool :: "memory_tools \<Rightarrow> memory_input \<Rightarrow> (memory_step list \<times> string list) memory_act" where
  "plan_steps_tool M i =
     (if mq_steps i = [] then mem_fail PlanEmpty
      else mem_then (mem_open M (mq_workspace i)) (\<lambda>ws.
        mem_then (mem_lift (plan_inputs M (take memory_plan_steps (mq_steps i)))) (\<lambda>(steps, ct, cn).
          mem_then (mem_query (save_memory_plan (mt_now M) (ws_id ws) (mt_provider M) steps 0)) (\<lambda>saved.
            mem_ret (saved, (if memory_plan_steps < length (mq_steps i) then [''steps''] else [])
              @ (if ct then [''step titles''] else []) @ (if cn then [''step notes''] else []))))))"

definition move_step :: "memory_tools \<Rightarrow> string \<Rightarrow> int \<Rightarrow> string \<Rightarrow> string option \<Rightarrow> unit memory_act" where
  "move_step M ws k state given w =
     (case update_memory_step (mt_now M) ws (mt_provider M) k state None given 0 (mw_memory w) of
        (None, db) \<Rightarrow> (Inr (), w\<lparr>mw_memory := db\<rparr>)
      | (Some e, db) \<Rightarrow> (Inl (if e = MemNotFound then NoSuchStep k else MemStore e), w\<lparr>mw_memory := db\<rparr>))"

definition plan_step_tool :: "memory_tools \<Rightarrow> memory_input \<Rightarrow> (memory_step list \<times> string list) memory_act" where
  "plan_step_tool M i =
     (if mq_step i \<le> 0 then mem_fail StepIdRequired
      else mem_then (mem_open M (mq_workspace i)) (\<lambda>ws.
        let state = wanted_state M (mq_state i);
            (remark, clip) = bound_text (trim_space (mq_note i)) step_note_bytes
        in if \<not> valid_step_state state then mem_fail (NotAState state)
           else mem_then (move_step M (ws_id ws) (mq_step i) state (if mq_note i \<noteq> [] then Some remark else None)) (\<lambda>_.
             mem_then (mem_query (list_memory_plan (ws_id ws))) (\<lambda>steps.
               mem_ret (steps, if mq_note i \<noteq> [] \<and> clip then [''note''] else [])))))"

section \<open>recall and the preview\<close>

record note_head =
  nh_id :: int
  nh_at :: time
  nh_provider :: string
  nh_title :: string
  nh_change_set :: string
  nh_run :: string

definition head_of :: "memory_note \<Rightarrow> note_head" where
  "head_of n = \<lparr>nh_id = mn_id n, nh_at = mn_created n, nh_provider = mn_provider n, nh_title = mn_title n,
     nh_change_set = mn_change_set n, nh_run = mn_run n\<rparr>"

datatype recall_hint = NothingRemembered | HowToRead "nat option"
  \<comment> \<open>the number of notes when a compaction is due\<close>

record recall_answer =
  ra_state :: "memory_state option"
  ra_plan :: "memory_step list"
  ra_notes :: "note_head list"
  ra_count :: nat
  ra_archived :: nat
  ra_hint :: recall_hint
  ra_live :: "plan_hint option"

definition memory_compact_at :: nat where "memory_compact_at = 200"

definition compact_due :: "nat \<Rightarrow> nat option" where
  "compact_due live = (if live \<le> memory_compact_at then None else Some live)"

text \<open>The page, or none when none was ever saved.\<close>

definition saved_state :: "string \<Rightarrow> memory_state option memory_act" where
  "saved_state ws w =
     (case get_memory_state ws (mw_memory w) of
        (Inr r, db) \<Rightarrow> (Inr (Some r), w\<lparr>mw_memory := db\<rparr>)
      | (Inl MemNotFound, db) \<Rightarrow> (Inr None, w\<lparr>mw_memory := db\<rparr>)
      | (Inl e, db) \<Rightarrow> (Inl (MemStore e), w\<lparr>mw_memory := db\<rparr>))"

definition memory_recall_tool :: "memory_tools \<Rightarrow> memory_input \<Rightarrow> recall_answer memory_act" where
  "memory_recall_tool M i =
     (if \<not> mt_memory M then mem_fail NoMemory
      else mem_then (mem_open M (mq_workspace i)) (\<lambda>ws.
        mem_then (mem_lift (bound_limit (mq_limit i) 10 30)) (\<lambda>limit.
          mem_then (saved_state (ws_id ws)) (\<lambda>st.
            mem_then (mem_query (list_memory_notes (ws_id ws) 0 limit)) (\<lambda>notes.
              mem_then (mem_query (count_memory_notes (ws_id ws))) (\<lambda>(live, archived).
                mem_then (mem_query (list_memory_plan (ws_id ws))) (\<lambda>steps.
                  mem_ret \<lparr>ra_state = st, ra_plan = steps, ra_notes = map head_of notes, ra_count = live,
                    ra_archived = archived,
                    ra_hint = (if st = None \<and> live = 0 \<and> steps = [] then NothingRemembered else HowToRead (compact_due live)),
                    ra_live = plan_hint_of steps\<rparr>)))))))"

definition memory_hint_bytes :: nat where "memory_hint_bytes = 200"

record preview_answer =
  pv_updated :: "time option"
  pv_goal :: string
  pv_next :: string
  pv_notes :: nat
  pv_plan :: "plan_hint option"

definition memory_preview :: "memory_tools \<Rightarrow> string \<Rightarrow> preview_answer option memory_act" where
  "memory_preview M ws =
     (if \<not> mt_memory M then mem_ret None
      else mem_then (mem_query (count_memory_notes ws)) (\<lambda>(live, archived).
        mem_then (saved_state ws) (\<lambda>st.
          mem_then (mem_query (list_memory_plan ws)) (\<lambda>steps.
            mem_ret (if st = None \<and> live + archived = 0 \<and> steps = [] then None
              else Some \<lparr>pv_updated = map_option ms_updated st,
                pv_goal = (case st of None \<Rightarrow> [] | Some r \<Rightarrow> fst (bound_text (mp_goal (ms_page r)) memory_hint_bytes)),
                pv_next = (case st of None \<Rightarrow> [] | Some r \<Rightarrow> fst (bound_text (mp_next (ms_page r)) memory_hint_bytes)),
                pv_notes = live + archived, pv_plan = plan_hint_of steps\<rparr>)))))"

section \<open>search\<close>

definition memory_query_bytes :: nat where "memory_query_bytes = 200"
definition memory_snippet_bytes :: nat where "memory_snippet_bytes = 160"
definition ellipsis :: string where "ellipsis = [CHR 0xE2, CHR 0x80, CHR 0xA6]"

text \<open>The loop that moves the start of a snippet back to the start of a rune.\<close>

fun start_back :: "string \<Rightarrow> nat \<Rightarrow> nat" where
  "start_back s 0 = 0"
| "start_back s (Suc n) = (if Suc n < length s \<and> \<not> rune_start (s ! Suc n) then start_back s n else Suc n)"

text \<open>\<open>None\<close> is the panic of a slice whose start lies beyond the body.\<close>

definition snippet_of :: "unicode \<Rightarrow> string \<Rightarrow> string \<Rightarrow> string option" where
  "snippet_of u body word =
     (let found = (case text_index (to_lower u body) (to_lower u word) of None \<Rightarrow> 0 | Some i \<Rightarrow> i);
          start = start_back body (found - memory_snippet_bytes div 3)
      in if length body < start then None
         else (let piece = truncate_utf8 (drop start body) memory_snippet_bytes;
                   piece' = (if 0 < start then ellipsis @ piece else piece)
               in Some (if start + length piece' < length body then piece' @ ellipsis else piece')))"

record memory_match =
  mm_id :: int
  mm_at :: time
  mm_title :: string
  mm_snippet :: string
  mm_archived :: bool

fun matches_of :: "unicode \<Rightarrow> string \<Rightarrow> memory_note list \<Rightarrow> memory_match list option" where
  "matches_of u word [] = Some []"
| "matches_of u word (n # ns) =
     (case snippet_of u (mn_body n) word of
        None \<Rightarrow> None
      | Some s \<Rightarrow> map_option ((#) \<lparr>mm_id = mn_id n, mm_at = mn_created n, mm_title = mn_title n, mm_snippet = s,
          mm_archived = mn_archived n\<rparr>) (matches_of u word ns))"

definition memory_search_tool :: "memory_tools \<Rightarrow> memory_input \<Rightarrow> memory_match list memory_act" where
  "memory_search_tool M i =
     (if \<not> mt_memory M then mem_fail NoMemory
      else (let query = trim_space (mq_query i) in
        if query = [] then mem_fail QueryRequired
        else if memory_query_bytes < length query then mem_fail (QueryTooLong (length query))
        else mem_then (mem_open M (mq_workspace i)) (\<lambda>ws.
          mem_then (mem_lift (bound_limit (mq_limit i) 10 30)) (\<lambda>limit.
            mem_then (mem_query (search_memory_notes (ws_id ws) query limit)) (\<lambda>notes.
              case matches_of (mt_unicode M) (hd (fields_of query)) notes of
                None \<Rightarrow> mem_fail SlicePanic
              | Some ms \<Rightarrow> mem_ret ms)))))"

section \<open>read\<close>

definition note_size :: "memory_note \<Rightarrow> int" where
  "note_size n = int (length (mn_title n)) + int (length (mn_body n))"

text \<open>The notes that fit into what is left; the flag of the caller forces the first.\<close>

fun fit_notes :: "int \<Rightarrow> int \<Rightarrow> bool \<Rightarrow> memory_note list \<Rightarrow> memory_note list" where
  "fit_notes budget used first [] = []"
| "fit_notes budget used first (n # ns) =
     (if \<not> first \<and> budget < used + note_size n then []
      else n # fit_notes budget (used + note_size n) False ns)"

record read_page =
  rp_notes :: "memory_note list"
  rp_next :: int
    \<comment> \<open>0 when nothing remains\<close>

definition memory_read_ids :: nat where "memory_read_ids = 10"

text \<open>What \<open>memoryRead\<close> makes of the rows.\<close>

definition read_page_of :: "int \<Rightarrow> bool \<Rightarrow> int \<Rightarrow> memory_note list \<Rightarrow> read_page" where
  "read_page_of budget paging limit ns =
     (let beyond = (paging \<and> limit < int (length ns));
          ns' = (if beyond then take (nat limit) ns else ns);
          out = fit_notes budget 0 True ns';
          again = (if length out < length ns' then paging else beyond)
      in \<lparr>rp_notes = out, rp_next = (if again \<and> out \<noteq> [] then mn_id (List.last out) else 0)\<rparr>)"

definition read_notes :: "memory_tools \<Rightarrow> string \<Rightarrow> int list \<Rightarrow> int \<Rightarrow> int \<Rightarrow> read_page memory_act" where
  "read_notes M ws ids before lim =
     (if ids = [] then
        mem_then (mem_lift (bound_limit lim 5 20)) (\<lambda>limit.
          if before < 0 then mem_fail BeforeNegative
          else mem_then (mem_query (list_memory_notes ws before (limit + 1))) (\<lambda>ns.
            mem_ret (read_page_of (mt_budget M) True limit ns)))
      else mem_then (mem_query (get_memory_notes ws ids)) (\<lambda>ns.
        mem_ret (read_page_of (mt_budget M) False 0 ns)))"

definition memory_read_tool :: "memory_tools \<Rightarrow> memory_input \<Rightarrow> read_page memory_act" where
  "memory_read_tool M i =
     (if \<not> mt_memory M then mem_fail NoMemory
      else if memory_read_ids < length (mq_ids i) then mem_fail (TooManyIds (length (mq_ids i)))
      else mem_then (mem_open M (mq_workspace i)) (\<lambda>ws.
        read_notes M (ws_id ws) (mq_ids i) (mq_before i) (mq_limit i)))"

text \<open>A caller that pages through the trail; the number bounds its calls.\<close>

fun read_trail :: "nat \<Rightarrow> memory_tools \<Rightarrow> string \<Rightarrow> int \<Rightarrow> int \<Rightarrow> memory_world \<Rightarrow> memory_note list option" where
  "read_trail 0 M ws lim before w = None"
| "read_trail (Suc k) M ws lim before w =
     (case read_notes M ws [] before lim w of
        (Inl e, w') \<Rightarrow> None
      | (Inr p, w') \<Rightarrow>
          if rp_next p = 0 then Some (rp_notes p)
          else map_option ((@) (rp_notes p)) (read_trail k M ws lim (rp_next p) w'))"

section \<open>compact\<close>

definition memory_compact_batch :: int where "memory_compact_batch = 40"
definition memory_summary_bytes :: nat where "memory_summary_bytes = 1500"

definition compact_batch :: "memory_tools \<Rightarrow> string \<Rightarrow> memory_note list memory_act" where
  "compact_batch M ws =
     mem_then (mem_query (oldest_memory_notes ws memory_compact_batch)) (\<lambda>ns.
       mem_ret (fit_notes (mt_budget M) 0 True ns))"

datatype compact_hint = NothingToDo | OneNote | Summarize nat int | Folded bool
  \<comment> \<open>whether the trail is still long\<close>

record compact_answer =
  ca_notes :: "memory_note list"
  ca_through :: int
  ca_archived :: nat
  ca_summary :: int
  ca_live :: nat
  ca_hint :: compact_hint

definition compact_offer :: "string \<Rightarrow> memory_note list \<Rightarrow> compact_answer memory_act" where
  "compact_offer ws batch =
     mem_then (mem_query (count_memory_notes ws)) (\<lambda>(live, archived).
       let none = \<lparr>ca_notes = [], ca_through = 0, ca_archived = 0, ca_summary = 0, ca_live = live, ca_hint = NothingToDo\<rparr> in
       if batch = [] then mem_ret none
       else if length batch = 1 \<and> live = 1 then mem_ret (none\<lparr>ca_hint := OneNote\<rparr>)
       else let through = mn_id (List.last batch) in
         mem_ret (none\<lparr>ca_notes := batch, ca_through := through, ca_hint := Summarize (length batch) through\<rparr>))"

definition summary_note :: "memory_tools \<Rightarrow> string \<Rightarrow> memory_note \<Rightarrow> string \<Rightarrow> int \<Rightarrow> memory_note" where
  "summary_note M ws first summary through =
     \<lparr>mn_id = 0, mn_workspace = ws, mn_provider = mt_provider M,
      mn_title = ''Summary of notes up to #'' @ decimal (nat through) @ '' (from '' @ take 10 (format_time (mn_created first)) @ '')'',
      mn_body = summary, mn_change_set = [], mn_run = [], mn_archived = False, mn_created = 0\<rparr>"

definition compact_fold :: "memory_tools \<Rightarrow> string \<Rightarrow> memory_note list \<Rightarrow> string \<Rightarrow> int \<Rightarrow> compact_answer memory_act" where
  "compact_fold M ws batch summary through =
     (if summary = [] \<or> through = 0 then mem_fail NeedsBoth
      else if memory_summary_bytes < length summary then mem_fail (SummaryTooLong (length summary))
      else if batch = [] then mem_fail NothingToCompact
      else if mn_id (List.last batch) < through \<or> through < mn_id (hd batch)
      then mem_fail (WrongThrough through (mn_id (List.last batch)))
      else mem_then (mem_query (add_memory_note (mt_now M) (summary_note M ws (hd batch) summary through))) (\<lambda>n.
        mem_then (mem_query (archive_memory_notes ws through)) (\<lambda>archived.
          mem_then (mem_query (count_memory_notes ws)) (\<lambda>(live, folded).
            mem_ret \<lparr>ca_notes = [], ca_through = 0, ca_archived = archived, ca_summary = mn_id n, ca_live = live,
              ca_hint = Folded (memory_compact_at < live)\<rparr>))))"

definition memory_compact_tool :: "memory_tools \<Rightarrow> memory_input \<Rightarrow> compact_answer memory_act" where
  "memory_compact_tool M i =
     (if \<not> mt_memory M \<or> \<not> mt_compacts M then mem_fail NoCompactor
      else mem_then (mem_open M (mq_workspace i)) (\<lambda>ws.
        mem_then (compact_batch M (ws_id ws)) (\<lambda>batch.
          let summary = trim_space (mq_summary i) in
          if summary = [] \<and> mq_through i = 0 then compact_offer (ws_id ws) batch
          else compact_fold M (ws_id ws) batch summary (mq_through i))))"

section \<open>The tool\<close>

datatype memory_answer =
    Recalled recall_answer
  | Noted note_answer
  | Found "memory_match list"
  | ReadBack read_page
  | Planned "memory_step list" "string list" "plan_hint option"
  | Compacted compact_answer

definition mem_map :: "('a \<Rightarrow> 'b) \<Rightarrow> 'a memory_act \<Rightarrow> 'b memory_act" where
  "mem_map f m = mem_then m (\<lambda>x. mem_ret (f x))"

definition memory_tool :: "memory_tools \<Rightarrow> string \<Rightarrow> memory_input \<Rightarrow> memory_answer memory_act" where
  "memory_tool M action i =
     (let a = to_lower (mt_unicode M) (trim_space action);
          planned = (\<lambda>(steps, clip). Planned steps clip (plan_hint_of steps))
      in if \<not> mt_memory M then mem_fail NoMemory
         else if a = ''recall'' then mem_map Recalled (memory_recall_tool M i)
         else if a = ''note'' then mem_map Noted (memory_note_tool M i)
         else if a = ''search'' then mem_map Found (memory_search_tool M i)
         else if a = ''read'' then mem_map ReadBack (memory_read_tool M i)
         else if a = ''plan'' then mem_map planned (plan_steps_tool M i)
         else if a = ''step'' then mem_map planned (plan_step_tool M i)
         else if a = ''compact'' then mem_map Compacted (memory_compact_tool M i)
         else if a = [] then mem_fail MemActionRequired
         else mem_fail (UnknownMemAction action))"

end
