(* ===== verification/MemoryRuns.thy ===== *)
theory MemoryRuns
  imports MemoryTools
begin

text \<open>
  What the branches of the tool \<open>memory\<close> keep to: a compaction hides only what it has shown,
  paging reaches every note once, and no text is refused for its length because the tool cuts
  it first. The last section shows where a search fails.
\<close>

section \<open>Steps of a branch\<close>

named_theorems mem_steps \<open>the combinators of a branch, applied to a state\<close>

lemma mem_ret_run [mem_steps]: "mem_ret x w = (Inr x, w)"
  by (simp add: mem_ret_def)

lemma mem_fail_run [mem_steps]: "mem_fail e w = (Inl e, w)"
  by (simp add: mem_fail_def)

lemma mem_lift_run [mem_steps]: "mem_lift r w = (r, w)"
  by (simp add: mem_lift_def)

lemma mem_then_Inr: "m w = (Inr x, w') \<Longrightarrow> mem_then m k w = k x w'"
  by (simp add: mem_then_def)

lemma mem_then_Inl: "m w = (Inl e, w') \<Longrightarrow> mem_then m k w = (Inl e, w')"
  by (simp add: mem_then_def)

lemma mem_then_run: "mem_then m k w = (r, w'') \<longleftrightarrow>
    (\<exists>e. m w = (Inl e, w'') \<and> r = Inl e) \<or> (\<exists>x w'. m w = (Inr x, w') \<and> k x w' = (r, w''))"
  by (auto simp: mem_then_def split: prod.splits sum.splits)

lemma mem_query_quiet: "md_faults (mw_memory w) = [] \<Longrightarrow> mem_query (query_notes q) w = (Inr (q (md_notes (mw_memory w))), w)"
  by (simp add: mem_query_def query_notes_def mem_call_quiet)

lemma map_sum_Inr: "map_sum f id x = Inr y \<longleftrightarrow> x = Inr y"
  by (cases x) auto

lemma mem_query_rows:
  assumes "mem_query (query_notes q) w = (Inr ns, w')"
  shows "ns = q (md_notes (mw_memory w))" "md_notes (mw_memory w') = md_notes (mw_memory w)"
    "md_note_seq (mw_memory w') = md_note_seq (mw_memory w)"
proof -
  obtain r db where q: "query_notes q (mw_memory w) = (r, db)" by (cases "query_notes q (mw_memory w)")
  then have "r = Inr ns" "w' = w\<lparr>mw_memory := db\<rparr>" using assms by (simp_all add: mem_query_def map_sum_Inr)
  with query_rows [OF q] show "ns = q (md_notes (mw_memory w))" "md_notes (mw_memory w') = md_notes (mw_memory w)"
    "md_note_seq (mw_memory w') = md_note_seq (mw_memory w)" by simp_all
qed

section \<open>Sorted notes\<close>

lemma sort_key_same: "sorted_wrt (<) (map f xs) \<Longrightarrow> sort_key f xs = xs" for f :: "'a \<Rightarrow> int"
  by (induction xs) (auto simp: insort_is_Cons order_less_imp_le)

lemma oldest_sorted: "sorted_wrt (<) (map mn_id ns) \<Longrightarrow> oldest_first k (filter P ns) = take (nat k) (filter P ns)"
  by (simp add: oldest_first_def sort_key_same sorted_wrt_map_filter)

lemma newest_sorted: "sorted_wrt (<) (map mn_id ns) \<Longrightarrow> newest_first k (filter P ns) = take (nat k) (rev (filter P ns))"
  by (simp add: newest_first_def sort_key_same sorted_wrt_map_filter)

lemma fit_notes_take: "\<exists>j. fit_notes budget used first ns = take j ns \<and> (first \<and> ns \<noteq> [] \<longrightarrow> 0 < j) \<and> j \<le> length ns"
proof (induction ns arbitrary: used first)
  case (Cons n ns)
  show ?case
  proof (cases "\<not> first \<and> budget < used + note_size n")
    case False
    obtain j where "fit_notes budget (used + note_size n) False ns = take j ns" "j \<le> length ns" using Cons by blast
    then show ?thesis using False by (intro exI [of _ "Suc j"]) simp
  qed (auto intro: exI [of _ 0])
qed simp

section \<open>A compaction hides what it has shown\<close>

definition live_in :: "string \<Rightarrow> memory_note \<Rightarrow> bool" where
  "live_in ws n \<longleftrightarrow> mn_workspace n = ws \<and> \<not> mn_archived n"

lemma batch_prefix:
  assumes "compact_batch M ws w = (Inr batch, w1)" and "notes_ok (mw_memory w)"
  shows "\<exists>j. batch = take j (filter (live_in ws) (md_notes (mw_memory w)))"
    and "md_notes (mw_memory w1) = md_notes (mw_memory w)" and "md_note_seq (mw_memory w1) = md_note_seq (mw_memory w)"
proof -
  from assms(1) obtain ns where q: "mem_query (oldest_memory_notes ws memory_compact_batch) w = (Inr ns, w1)"
    and batch: "batch = fit_notes (mt_budget M) 0 True ns"
    by (auto simp: compact_batch_def mem_then_run mem_steps)
  note rows = mem_query_rows [OF q [unfolded oldest_memory_notes_def]]
  have "ns = take 40 (filter (live_in ws) (md_notes (mw_memory w)))"
    using rows(1) oldest_sorted assms(2)
    by (simp add: notes_ok_def or_limit_def memory_compact_batch_def live_in_def [abs_def])
  moreover obtain j where "fit_notes (mt_budget M) 0 True ns = take j ns" using fit_notes_take by blast
  ultimately show "\<exists>j. batch = take j (filter (live_in ws) (md_notes (mw_memory w)))"
    unfolding batch by (metis take_take)
  show "md_notes (mw_memory w1) = md_notes (mw_memory w)" "md_note_seq (mw_memory w1) = md_note_seq (mw_memory w)"
    by (fact rows)+
qed



section \<open>Paging reaches every note\<close>

text \<open>The notes a page is taken from, newest first.\<close>

definition trail :: "string \<Rightarrow> int \<Rightarrow> memory_note list \<Rightarrow> memory_note list" where
  "trail ws before ns = rev (filter (\<lambda>n. live_in ws n \<and> (0 < before \<longrightarrow> mn_id n < before)) ns)"

lemma matching_trail:
  assumes "sorted_wrt (<) (map mn_id ns)" and "0 < k"
  shows "notes_matching ws False before k ns = take (nat k) (trail ws before ns)"
proof -
  have "(\<lambda>n. mn_workspace n = ws \<and> mn_archived n = False \<and> (0 < before \<longrightarrow> mn_id n < before))
      = (\<lambda>n. live_in ws n \<and> (0 < before \<longrightarrow> mn_id n < before))" by (auto simp: live_in_def)
  then show ?thesis unfolding notes_matching_def trail_def
    using assms newest_sorted by (simp add: or_limit_def)
qed

lemma sorted_trail: "sorted_wrt (<) (map mn_id ns) \<Longrightarrow> sorted_wrt (>) (map mn_id (trail ws before ns))"
  by (simp add: trail_def rev_map [symmetric] sorted_wrt_rev sorted_wrt_map_filter)

text \<open>Going on below a note of the trail leaves what comes after it.\<close>

lemma trail_below:
  assumes "sorted_wrt (<) (map mn_id ns)" and "\<forall>n \<in> set ns. 0 < mn_id n" and "j < length (trail ws before ns)"
  shows "trail ws (mn_id (trail ws before ns ! j)) ns = drop (Suc j) (trail ws before ns)"
proof -
  let ?t = "trail ws before ns"
  let ?i = "mn_id (?t ! j)"
  have member: "?t ! j \<in> set ns" using nth_mem [OF assms(3)] by (auto simp: trail_def)
  have early: "?i \<le> mn_id (?t ! i)" if "i < Suc j" for i
    using sorted_wrt_nth_less [OF sorted_trail [OF assms(1)], of i j ws before] assms(3) that by (cases "i = j") auto
  have "trail ws ?i ns = filter (\<lambda>n. mn_id n < ?i) ?t"
    using assms(2) member nth_mem [OF assms(3)] by (auto simp: trail_def rev_filter intro!: filter_cong)
  also have "\<dots> = filter (\<lambda>n. mn_id n < ?i) (take (Suc j) ?t) @ filter (\<lambda>n. mn_id n < ?i) (drop (Suc j) ?t)"
    by (metis append_take_drop_id filter_append)
  also have "filter (\<lambda>n. mn_id n < ?i) (take (Suc j) ?t) = []"
    using early by (auto simp: filter_empty_conv in_set_conv_nth not_less)
  also have "filter (\<lambda>n. mn_id n < ?i) (drop (Suc j) ?t) = drop (Suc j) ?t"
    using sorted_trail [OF assms(1)] assms(3)
    by (auto simp: filter_id_conv in_set_conv_nth sorted_wrt_iff_nth_less)
  finally show ?thesis by simp
qed

lemma read_page_front:
  assumes "0 < limit"
  shows "\<exists>j. rp_notes (read_page_of budget True limit (take (nat (limit + 1)) t)) = take j t \<and> j \<le> length t
    \<and> (t \<noteq> [] \<longrightarrow> 0 < j) \<and> rp_next (read_page_of budget True limit (take (nat (limit + 1)) t))
        = (if j < length t then mn_id (t ! (j - 1)) else 0)"
proof -
  let ?ns = "take (nat (limit + 1)) t"
  let ?beyond = "limit < int (length ?ns)"
  have beyond: "?beyond \<longleftrightarrow> nat limit < length t" using assms by auto
  define ns' where "ns' = (if ?beyond then take (nat limit) ?ns else ?ns)"
  have ns': "ns' = take (nat limit) t" using assms beyond by (auto simp: ns'_def min_def nat_add_distrib)
  obtain j where j: "fit_notes budget 0 True ns' = take j ns'" "ns' \<noteq> [] \<longrightarrow> 0 < j" "j \<le> length ns'"
    using fit_notes_take [of budget 0 True ns'] by blast
  have len: "length ns' = min (length t) (nat limit)" unfolding ns' by simp
  then have out: "take j ns' = take j t" "length (take j ns') = j" 
  proof -
    have "j \<le> length t" "j \<le> nat limit" using j(3) len by simp_all
    then show "take j ns' = take j t" "length (take j ns') = j" unfolding ns' by (simp_all add: min.absorb1)
  qed
  have more: "(if j < length ns' then True else ?beyond) \<longleftrightarrow> j < length t"
    using beyond len j(3) by auto
  have "read_page_of budget True limit ?ns = \<lparr>rp_notes = take j t,
      rp_next = (if (if j < length ns' then True else ?beyond) \<and> take j t \<noteq> [] then mn_id (List.last (take j t)) else 0)\<rparr>"
    by (simp only: read_page_of_def Let_def simp_thms ns'_def [symmetric] j(1) out out(2) [unfolded out(1)])
  then have p: "rp_notes (read_page_of budget True limit ?ns) = take j t"
    "rp_next (read_page_of budget True limit ?ns)
      = (if (if j < length ns' then True else ?beyond) \<and> take j t \<noteq> [] then mn_id (List.last (take j t)) else 0)"
    by (simp_all only: read_page.select_convs)
  have pos: "t \<noteq> [] \<longrightarrow> 0 < j" using j(2) assms unfolding ns' by (cases t) auto
  have "List.last (take j t) = t ! (j - 1)" if "j < length t"
    using pos that by (subst last_conv_nth) auto
  moreover have "j \<le> length t" using j(3) len by simp
  moreover have "take j t \<noteq> []" if "j < length t" using pos that by auto
  ultimately show ?thesis unfolding p(2) more using p(1) pos
    by (intro exI [of _ j]) auto
qed

lemma trail_pages:
  assumes "notes_ok (mw_memory w)" and "md_faults (mw_memory w) = []" and "0 \<le> lim" and "lim \<le> 20" and "0 \<le> before"
    and "length (trail ws before (md_notes (mw_memory w))) < k"
  shows "read_trail k M ws lim before w = Some (trail ws before (md_notes (mw_memory w)))"
  using assms(5,6)
proof (induction k arbitrary: before)
  case (Suc k)
  let ?ns = "md_notes (mw_memory w)" and ?t = "trail ws before (md_notes (mw_memory w))"
  have ns: "sorted_wrt (<) (map mn_id ?ns)" "\<forall>n \<in> set ?ns. 0 < mn_id n"
    using assms(1) by (auto simp: notes_ok_def list_all_iff)
  obtain limit where limit: "bound_limit lim 5 20 = Inr limit" "0 < limit"
    using assms(3,4) by (cases "lim = 0") (auto simp: bound_limit_def)
  let ?p = "read_page_of (mt_budget M) True limit (take (nat (limit + 1)) ?t)"
  have read: "read_notes M ws [] before lim w = (Inr ?p, w)"
    using Suc.prems(1) limit matching_trail [OF ns(1), of "limit + 1" ws before]
    by (simp add: read_notes_def list_memory_notes_def [abs_def] mem_then_def mem_steps mem_query_quiet [OF assms(2)])
  obtain j where j: "rp_notes ?p = take j ?t" "j \<le> length ?t" "?t \<noteq> [] \<longrightarrow> 0 < j"
    "rp_next ?p = (if j < length ?t then mn_id (?t ! (j - 1)) else 0)"
    using read_page_front [OF limit(2)] by blast
  show ?case
  proof (cases "j < length ?t")
    case True
    then have j1: "j - 1 < length ?t" "0 < j" using j(3) by auto
    have "?t ! (j - 1) \<in> set ?ns" using nth_mem [OF j1(1)] by (auto simp: trail_def)
    then have next_pos: "0 < rp_next ?p" using ns(2) j(4) True by auto
    have rest: "trail ws (rp_next ?p) ?ns = drop j ?t" using trail_below [OF ns j1(1)] j(4) True j1(2) by simp
    have "read_trail k M ws lim (rp_next ?p) w = Some (drop j ?t)"
      using Suc.IH [of "rp_next ?p"] next_pos Suc.prems(2) j1 unfolding rest by simp
    then show ?thesis using next_pos j(1) by (simp add: read)
  qed (use read j in simp)
qed simp

text \<open>
  A caller that starts at the newest note and goes on at \<open>next_before_id\<close>, whatever limit
  the tool accepts and however small the budget of an answer, is given every live note of the
  workspace once, newest first, in no more calls than there are notes and one.
\<close>

theorem pages_cover_the_trail:
  assumes "mw_memory w = (mem_run es (empty_memory fs b))\<lparr>md_faults := []\<rparr>" and "0 \<le> lim" and "lim \<le> 20"
  shows "read_trail (Suc (length (filter (live_in ws) (md_notes (mw_memory w))))) M ws lim 0 w
    = Some (rev (filter (live_in ws) (md_notes (mw_memory w))))"
proof -
  have ok: "notes_ok (mw_memory w)" using note_rows_ok [of es fs b] assms(1) by (simp add: notes_ok_def)
  have t: "trail ws 0 (md_notes (mw_memory w)) = rev (filter (live_in ws) (md_notes (mw_memory w)))"
    by (simp add: trail_def)
  show ?thesis unfolding t [symmetric]
    by (rule trail_pages) (use ok assms t in simp_all)
qed

section \<open>Cutting keeps text well formed\<close>

text \<open>A well-formed encoding at the front: its bytes after the first start no rune, and they alone decide.\<close>

lemma decode_rune_shape:
  assumes "decode_rune s = (r, n)" and "s \<noteq> []" and "\<not> (r = rune_error \<and> n = 1)"
  shows "\<exists>u t. s = u @ t \<and> length u = n \<and> list_all (\<lambda>c. \<not> rune_start c) (tl u) \<and> (\<forall>t'. decode_rune (u @ t') = (r, n))"
proof -
  obtain c t where s: "s = c # t" using assms(2) by (cases s) auto
  let ?b = "of_char c :: nat"
  consider "?b < 0x80" | "in_range 0xC2 0xDF ?b" | "in_range 0xE0 0xEF ?b" | "in_range 0xF0 0xF4 ?b"
    | "\<not> ?b < 0x80" "\<not> in_range 0xC2 0xDF ?b" "\<not> in_range 0xE0 0xEF ?b" "\<not> in_range 0xF0 0xF4 ?b" by blast
  then show ?thesis
  proof cases
    case 1
    then have "\<forall>t'. decode_rune ([c] @ t') = (r, n)" "n = 1" using assms(1) by (auto simp: s decode_rune_def)
    then show ?thesis using s by (intro exI [of _ "[c]"] exI [of _ t]) simp
  next
    case 2
    then have b: "\<not> ?b < 0x80" by (simp add: in_range_def)
    obtain c1 t1 where t: "t = c1 # t1" "in_range 0x80 0xBF (of_char c1 :: nat)"
      using assms(1,3) 2 b by (cases t) (auto simp: s decode_rune_def split: if_splits)
    then have "\<forall>t'. decode_rune ([c, c1] @ t') = (r, n)" "n = 2" using assms(1) 2 b by (auto simp: s decode_rune_def)
    moreover have "\<not> rune_start c1" using t(2) by (auto simp: in_range_def rune_start_def)
    ultimately show ?thesis using s t by (intro exI [of _ "[c, c1]"] exI [of _ t1]) simp
  next
    case 3
    then have b: "\<not> ?b < 0x80" "\<not> in_range 0xC2 0xDF ?b" by (simp_all add: in_range_def)
    let ?lo = "if ?b = 0xE0 then 0xA0 else 0x80" and ?hi = "if ?b = 0xED then 0x9F else 0xBF"
    obtain c1 c2 t2 where t: "t = c1 # c2 # t2" "in_range ?lo ?hi (of_char c1 :: nat)" "in_range 0x80 0xBF (of_char c2 :: nat)"
      using assms(1,3) 3 b by (cases t; cases "tl t") (auto simp: s decode_rune_def simp del: of_char_of split: if_splits)
    then have "\<forall>t'. decode_rune ([c, c1, c2] @ t') = (r, n)" "n = 3" using assms(1) 3 b by (auto simp: s decode_rune_def)
    moreover have "\<not> rune_start c1" "\<not> rune_start c2" using t(2,3) by (auto simp: in_range_def rune_start_def split: if_splits)
    ultimately show ?thesis using s t by (intro exI [of _ "[c, c1, c2]"] exI [of _ t2]) simp
  next
    case 4
    then have b: "\<not> ?b < 0x80" "\<not> in_range 0xC2 0xDF ?b" "\<not> in_range 0xE0 0xEF ?b" by (simp_all add: in_range_def)
    let ?lo = "if ?b = 0xF0 then 0x90 else 0x80" and ?hi = "if ?b = 0xF4 then 0x8F else 0xBF"
    obtain c1 c2 c3 t3 where t: "t = c1 # c2 # c3 # t3" "in_range ?lo ?hi (of_char c1 :: nat)"
      "in_range 0x80 0xBF (of_char c2 :: nat)" "in_range 0x80 0xBF (of_char c3 :: nat)"
      using assms(1,3) 4 b by (cases t; cases "tl t"; cases "tl (tl t)") (auto simp: s decode_rune_def split: if_splits)
    then have "\<forall>t'. decode_rune ([c, c1, c2, c3] @ t') = (r, n)" "n = 4" using assms(1) 4 b by (auto simp: s decode_rune_def)
    moreover have "\<not> rune_start c1" "\<not> rune_start c2" "\<not> rune_start c3"
      using t(2,3,4) by (auto simp: in_range_def rune_start_def split: if_splits)
    ultimately show ?thesis using s t by (intro exI [of _ "[c, c1, c2, c3]"] exI [of _ t3]) simp
  next
    case 5
    then show ?thesis using assms(1,3) by (auto simp: s decode_rune_def)
  qed
qed

lemma decode_rune_inside:
  assumes "decode_rune s = (r, n)" and "s \<noteq> []" and "\<not> (r = rune_error \<and> n = 1)"
  shows "n \<le> length s" and "\<And>i. 0 < i \<Longrightarrow> i < n \<Longrightarrow> \<not> rune_start (s ! i)"
proof -
  obtain u t where u: "s = u @ t" "length u = n" "list_all (\<lambda>c. \<not> rune_start c) (tl u)" using decode_rune_shape [OF assms] by blast
  show "n \<le> length s" using u by simp
  show "\<not> rune_start (s ! i)" if "0 < i" "i < n" for i
  proof -
    have "s ! i = tl u ! (i - 1)" "i - 1 < length (tl u)" using that u by (simp_all add: nth_append nth_tl)
    then show ?thesis using u(3) by (metis list_all_length)
  qed
qed

lemma decode_rune_prefix:
  assumes "decode_rune (a @ b) = (r, n)" and "a \<noteq> []" and "n \<le> length a" and "\<not> (r = rune_error \<and> n = 1)"
  shows "decode_rune a = (r, n)"
proof -
  obtain u t where u: "a @ b = u @ t" "length u = n" "\<forall>t'. decode_rune (u @ t') = (r, n)"
    using decode_rune_shape [OF assms(1) _ assms(4)] assms(2) by blast
  then have "a = u @ drop n a" using assms(3) by (metis append_eq_append_conv_if append_take_drop_id)
  then show ?thesis using u(3) by metis
qed

lemma valid_string_rest: "s \<noteq> [] \<Longrightarrow> valid_string s \<longleftrightarrow> \<not> (fst (decode_rune s) = rune_error \<and> snd (decode_rune s) = 1) \<and> valid_string (drop (snd (decode_rune s)) s)"
  by (simp add: valid_string_def runes.simps [of s] case_prod_unfold)

text \<open>A valid text may be cut before any byte that starts a rune.\<close>

lemma valid_string_cut:
  "valid_string (a @ b) \<Longrightarrow> b = [] \<or> rune_start (hd b) \<Longrightarrow> valid_string a \<and> valid_string b"
proof (induction "length a" arbitrary: a rule: less_induct)
  case less
  show ?case
  proof (cases "a = []")
    case False
    obtain r n where d: "decode_rune (a @ b) = (r, n)" by (cases "decode_rune (a @ b)")
    have v: "\<not> (r = rune_error \<and> n = 1)" "valid_string (drop n (a @ b))"
      using less.prems(1) False valid_string_rest [of "a @ b"] d by auto
    note inside = decode_rune_inside [OF d _ v(1)]
    have n: "0 < n" using decode_rune_width [of "a @ b"] d False by simp
    have "n \<le> length a"
    proof (rule ccontr)
      assume far: "\<not> n \<le> length a"
      then have "b \<noteq> []" using inside(1) False by auto
      then show False using inside(2) [of "length a"] far False less.prems(2) by (simp add: nth_append hd_conv_nth)
    qed
    then have "valid_string (drop n a @ b)" using v(2) by simp
    from less.hyps [OF _ this less.prems(2)] have rest: "valid_string (drop n a)" "valid_string b" using n False by auto
    have "decode_rune a = (r, n)" by (rule decode_rune_prefix [OF d False \<open>n \<le> length a\<close> v(1)])
    then show ?thesis using rest v(1) False valid_string_rest [of a] by simp
  qed (use less.prems in \<open>simp add: valid_string_def\<close>)
qed

lemma cut_back_start: "cut_back s n = 0 \<or> rune_start (s ! cut_back s n)"
  by (induction n) auto

lemma valid_truncate: "valid_string s \<Longrightarrow> valid_string (truncate_utf8 s n)"
proof (cases "length s \<le> n")
  case False
  assume v: "valid_string s"
  let ?c = "cut_back s n"
  show ?thesis
  proof (cases "?c = 0")
    case True
    then show ?thesis using False by (simp add: truncate_utf8_def valid_string_def)
  next
    case pos: False
    have "?c < length s" using cut_back_le [of s n] False by simp
    then have "rune_start (hd (drop ?c s))" using cut_back_start [of s n] pos by (simp add: hd_drop_conv_nth)
    then show ?thesis using valid_string_cut [of "take ?c s" "drop ?c s"] v False by (simp add: truncate_utf8_def)
  qed
qed (simp add: truncate_utf8_def)

lemma length_truncate: "length (truncate_utf8 s n) \<le> n"
  using cut_back_le [of s n] by (auto simp: truncate_utf8_def)

lemma space_decodes: "e \<in> set space_encodings \<Longrightarrow> snd (decode_rune (e @ t)) = length e \<and> rune_start (hd e) \<and> e \<noteq> []"
  by (auto simp: space_encodings_def decode_rune_def in_range_def rune_start_def)

lemma valid_strip: "valid_string s \<Longrightarrow> valid_string (strip_prefixes space_encodings n s)"
proof (induction n arbitrary: s)
  case (Suc n)
  show ?case
  proof (cases "List.find (has_prefix s) space_encodings")
    case (Some e)
    then have e: "e \<in> set space_encodings" "has_prefix s e" by (auto simp: find_Some_iff)
    then obtain t where s: "s = e @ t" by (auto simp: bytes_simps prefix_def)
    have "valid_string t" using Suc.prems valid_string_rest [of s] space_decodes [OF e(1), of t] unfolding s by simp
    then show ?thesis using Some Suc.IH unfolding s by simp
  qed (use Suc.prems in simp)
qed simp

lemma valid_strip_back: "valid_string (rev s) \<Longrightarrow> valid_string (rev (strip_prefixes (map rev space_encodings) n s))"
proof (induction n arbitrary: s)
  case (Suc n)
  show ?case
  proof (cases "List.find (has_prefix s) (map rev space_encodings)")
    case (Some p)
    then obtain e where e: "e \<in> set space_encodings" "p = rev e" "has_prefix s p"
      using find_SomeD by fastforce
    then obtain t where s: "s = rev e @ t" by (auto simp: bytes_simps prefix_def)
    have "valid_string (rev t)"
      using valid_string_cut [of "rev t" e] Suc.prems space_decodes [OF e(1)] unfolding s by simp
    then show ?thesis using Some Suc.IH e(2) unfolding s by simp
  qed (use Suc.prems in simp)
qed simp

lemma valid_trim: "valid_string s \<Longrightarrow> valid_string (trim_space s)"
  unfolding trim_space_def Let_def by (intro valid_strip_back) (simp add: valid_strip)

lemma length_strip: "length (strip_prefixes ps n s) \<le> length s"
proof (induction n arbitrary: s)
  case (Suc n)
  show ?case
  proof (cases "List.find (has_prefix s) ps")
    case (Some p)
    have "length (strip_prefixes ps n (drop (length p) s)) \<le> length (drop (length p) s)" by (rule Suc)
    then show ?thesis using Some by simp
  qed simp
qed simp

lemma length_trim: "length (trim_space s) \<le> length s"
  unfolding trim_space_def Let_def using length_strip by (metis length_rev order_trans)

text \<open>A text that was cut is within its limit.\<close>

lemma cut_text_fits: "valid_string s \<Longrightarrow> within_bytes name (fst (bound_text (trim_space s) limit)) limit = None"
  using valid_truncate [OF valid_trim] valid_trim length_truncate
  by (auto simp: within_bytes_def bound_text_def not_less)

section \<open>No text is refused for its length\<close>

text \<open>The bound a result names, if that is its error.\<close>

definition refused_for :: "memory_tool_error + 'a \<Rightarrow> bound_fault option" where
  "refused_for r = (case r of Inl (MemStore (MemBounds f)) \<Rightarrow> Some f | _ \<Rightarrow> None)"

lemma refused_for_simps [simp]:
  "refused_for (Inr x) = None" "refused_for (map_sum MemNotOpened id r) = None" "refused_for (map_sum RefRuns id q) = None"
  "refused_for (map_sum MemStore id t) = (case t of Inl (MemBounds f) \<Rightarrow> Some f | _ \<Rightarrow> None)"
  by (simp_all add: refused_for_def map_sum.simps split: sum.splits memory_error.splits) ((cases r; simp), (cases q; simp))

definition fits_in :: "memory_world \<Rightarrow> 'a memory_act \<Rightarrow> bool" where
  "fits_in w m \<longleftrightarrow> refused_for (fst (m w)) = None \<or> refused_for (fst (m w)) = Some StepNeedsTitle"

definition fits :: "'a memory_act \<Rightarrow> bool" where
  "fits m \<longleftrightarrow> (\<forall>w. fits_in w m)"

named_theorems fit_rules \<open>branches that are not refused for a length\<close>

lemma fits_in_then: "fits_in w m \<Longrightarrow> (\<And>x w'. m w = (Inr x, w') \<Longrightarrow> fits_in w' (k x)) \<Longrightarrow> fits_in w (mem_then m k)"
  by (auto simp: fits_in_def mem_then_def refused_for_def split: prod.splits sum.splits)

lemma fits_then [fit_rules]: "fits m \<Longrightarrow> (\<And>x. fits (k x)) \<Longrightarrow> fits (mem_then m k)"
  by (auto simp: fits_def intro: fits_in_then)

lemma fits_map [fit_rules]: "fits m \<Longrightarrow> fits (mem_map f m)"
  unfolding mem_map_def by (intro fits_then) (simp_all add: fits_def fits_in_def mem_ret_def refused_for_def)

lemma fits_ret [fit_rules]: "fits (mem_ret x)"
  by (simp add: fits_def fits_in_def mem_ret_def refused_for_def)

lemma fits_in_ret [simp]: "fits_in w (mem_ret x)"
  by (simp add: fits_in_def mem_ret_def)

lemma fits_fail [fit_rules]: "(\<And>f. e \<noteq> MemStore (MemBounds f)) \<Longrightarrow> fits (mem_fail e)"
  by (auto simp: fits_def fits_in_def mem_fail_def refused_for_def split: memory_tool_error.splits memory_error.splits)

lemma fits_limit [fit_rules]: "fits (mem_lift (bound_limit n d m))"
  by (simp add: fits_def fits_in_def mem_lift_def bound_limit_def refused_for_def)

lemma fits_open [fit_rules]: "fits (mem_open M k)"
  by (auto simp: fits_def fits_in_def mem_open_def split: prod.splits)

lemma mem_call_error: "mem_call db = (Some e, db') \<Longrightarrow> \<exists>x. e = MemFailed x"
  by (auto simp: mem_call_def split: list.splits)

lemma mem_calls_error: "mem_calls n db = (Some e, db') \<Longrightarrow> \<exists>x. e = MemFailed x"
  by (induction n db rule: mem_calls.induct) (auto split: prod.splits option.splits dest!: mem_call_error)

text \<open>A query of the tables that is not refused for a bound.\<close>

lemma fits_in_query: "(\<And>f db. q (mw_memory w) = (Inl (MemBounds f), db) \<Longrightarrow> f = StepNeedsTitle) \<Longrightarrow> fits_in w (mem_query q)"
  by (auto simp: fits_in_def mem_query_def split: prod.splits sum.splits memory_error.splits)

lemma fits_query: "(\<And>db f db'. q db = (Inl (MemBounds f), db') \<Longrightarrow> f = StepNeedsTitle) \<Longrightarrow> fits (mem_query q)"
  by (auto simp: fits_def intro: fits_in_query)

lemma fits_queries [fit_rules]:
  "fits (mem_query (list_memory_notes ws before k))" "fits (mem_query (get_memory_notes ws ids))"
  "fits (mem_query (search_memory_notes ws query k))" "fits (mem_query (count_memory_notes ws))"
  "fits (mem_query (oldest_memory_notes ws k))" "fits (mem_query (archive_memory_notes ws through))"
  "fits (mem_query (list_memory_plan ws))"
  by (rule fits_query, force simp: list_memory_notes_def get_memory_notes_def search_memory_notes_def count_memory_notes_def
      oldest_memory_notes_def archive_memory_notes_def list_memory_plan_def query_notes_def Let_def
      split: prod.splits option.splits if_splits dest!: mem_call_error)+

lemma fits_saved_state [fit_rules]: "fits (saved_state ws)"
  by (auto simp: fits_def fits_in_def saved_state_def get_memory_state_def refused_for_def
      split: prod.splits option.splits sum.splits memory_error.splits dest!: mem_call_error)

lemma fits_refs [fit_rules]: "fits (memory_refs M ws cid run)"
proof -
  have "fits (get_change_set cid)"
    by (auto simp: fits_def fits_in_def get_change_set_def refused_for_def split: prod.splits)
  then have "fits (change_set_ref ws cid)"
    unfolding change_set_ref_def by (auto intro!: fit_rules split: option.splits)
  moreover have "fits (mem_find_run run)"
    by (auto simp: fits_def fits_in_def mem_find_run_def split: prod.splits)
  then have "fits (run_ref M ws run)"
    unfolding run_ref_def by (auto intro!: fit_rules split: option.splits)
  ultimately show ?thesis unfolding memory_refs_def by (intro fit_rules)
qed

text \<open>The texts of a call are valid UTF-8, as decoded from JSON.\<close>

definition page_texts :: "memory_page \<Rightarrow> string list" where
  "page_texts p = [mp_goal p, mp_progress p, mp_next p] @ mp_decisions p @ mp_open p"

definition utf8_input :: "memory_input \<Rightarrow> bool" where
  "utf8_input i \<longleftrightarrow> list_all valid_string
     ([mq_title i, mq_body i, mq_change_set i, mq_run i, mq_note i, mq_summary i]
      @ (case mq_page i of None \<Rightarrow> [] | Some p \<Rightarrow> page_texts p)
      @ concat (map (\<lambda>(t, s, n). [t, n]) (mq_steps i)))"

lemma bound_items_fit:
  "list_all valid_string items \<Longrightarrow> k \<le> memory_list_items \<Longrightarrow>
     length (fst (bound_items k items)) + k \<le> memory_list_items
     \<and> list_all (\<lambda>v. within_bytes name v memory_item_bytes = None) (fst (bound_items k items))"
proof (induction k items rule: bound_items.induct)
  case (2 k i "is")
  show ?case
  proof (cases "trim_space i = [] \<or> k = memory_list_items")
    case True
    then show ?thesis using 2 by (auto simp: Let_def)
  next
    case False
    obtain v was where v: "bound_text (trim_space i) memory_item_bytes = (v, was)" by (cases "bound_text (trim_space i) memory_item_bytes")
    have fit: "within_bytes name v memory_item_bytes = None" using cut_text_fits [of i name memory_item_bytes] "2.prems"(1) v by simp
    obtain vs was' where vs: "bound_items (Suc k) is = (vs, was')" by (cases "bound_items (Suc k) is")
    have "length vs + Suc k \<le> memory_list_items \<and> list_all (\<lambda>v. within_bytes name v memory_item_bytes = None) vs"
      using "2.IH"(2) [OF refl _ _ v [symmetric]] False "2.prems" vs by simp
    then show ?thesis using False v vs fit by (simp add: Let_def)
  qed
qed simp

lemma bound_page_fits: "list_all valid_string (page_texts p) \<Longrightarrow> validate_page b (fst (bound_page p)) = None"
proof -
  assume v: "list_all valid_string (page_texts p)"
  have items: "validate_items name (fst (bound_list l)) = None" if "list_all valid_string l" for name l
    using bound_items_fit [OF that, of 0 "name @ '' item''"]
    by (simp add: validate_items_def bound_list_def list_all_iff)
  show ?thesis
    using v items cut_text_fits
    by (simp add: page_texts_def bound_page_def Let_def case_prod_unfold validate_page_def)
qed

lemma fits_exec: "(\<And>db f db'. q db = (Some (MemBounds f), db') \<Longrightarrow> f = StepNeedsTitle) \<Longrightarrow> fits (mem_exec q)"
  by (auto simp: fits_def fits_in_def mem_exec_def refused_for_def split: prod.splits option.splits memory_error.splits)

lemma refs_bound:
  "memory_refs M ws cid run w = (Inr x, w') \<Longrightarrow> length cid \<le> memory_ref_bytes \<and> length run \<le> memory_ref_bytes"
  by (auto simp: memory_refs_def change_set_ref_def run_ref_def mem_then_run mem_steps memory_ref_bytes_def
      split: if_splits option.splits)

lemma add_note_bound: "add_memory_note now n db = (Inl (MemBounds f), db') \<Longrightarrow> validate_note n = Some (MemBounds f)"
  by (auto simp: add_memory_note_def Let_def split: option.splits prod.splits if_splits dest!: mem_call_error)

lemma note_tool_fits: "utf8_input i \<Longrightarrow> fits (memory_note_tool M i)"
proof -
  assume v: "utf8_input i"
  have "fits (note_page M ws i)" for ws
  proof (cases "mq_page i")
    case (Some p)
    have ok: "validate_page b (fst (bound_page p)) = None" for b
      using v Some bound_page_fits by (simp add: utf8_input_def)
    have "fits (mem_exec (save_memory_state now ws prov (fst (bound_page p)) 0))" for now prov
      by (rule fits_exec) (auto simp: save_memory_state_def ok split: if_splits prod.splits option.splits dest!: mem_call_error)
    then show ?thesis using Some by (auto simp: note_page_def split: prod.splits intro!: fit_rules) 
  qed (simp add: note_page_def fit_rules)
  moreover have "fits (note_added M ws i)" for ws
  proof -
    let ?n = "note_of_input M ws i"
    have "fits_in w' (mem_query (add_memory_note (mt_now M) ?n))"
      if "memory_refs M ws (mq_change_set i) (mq_run i) w = (Inr x, w')" for w x w'
    proof (rule fits_in_query)
      fix f db
      assume "add_memory_note (mt_now M) ?n (mw_memory w') = (Inl (MemBounds f), db)"
      moreover have "validate_note ?n \<noteq> Some (MemBounds f)"
        using v cut_text_fits refs_bound [OF that]
        by (auto simp: validate_note_def note_of_input_def utf8_input_def within_bytes_def [of "''change_set_id''"] within_bytes_def [of "''run_id''"])
      ultimately show "f = StepNeedsTitle" using add_note_bound by blast
    qed
    then show ?thesis unfolding note_added_def
      by (auto simp: fits_def intro!: fits_in_then fits_refs [unfolded fits_def, rule_format] fits_ret [unfolded fits_def, rule_format])
  qed
  ultimately show ?thesis
    unfolding memory_note_tool_def by (auto intro!: fit_rules)
qed

text \<open>The steps of a plan after the loop of the tool.\<close>

lemma plan_inputs_fit:
  "list_all valid_string (concat (map (\<lambda>(t, s, n). [t, n]) is)) \<Longrightarrow>
    (case plan_inputs M is of
       Inl e \<Rightarrow> (\<exists>s. e = NotAState s)
     | Inr (ss, r) \<Rightarrow> length ss = length is
         \<and> list_all (\<lambda>s. validate_step (tidy_step s) = None \<or> validate_step (tidy_step s) = Some StepNeedsTitle) ss)"
proof (induction "is")
  case (Cons x "is")
  obtain title state remark where x: "x = (title, state, remark)" by (cases x)
  let ?t = "fst (bound_text (trim_space title) step_title_bytes)" and ?n = "fst (bound_text (trim_space remark) step_note_bytes)"
  have v: "valid_string title" "valid_string remark" "list_all valid_string (concat (map (\<lambda>(t, s, n). [t, n]) is))"
    using Cons.prems by (simp_all add: x)
  have tv: "valid_string ?t" "length ?t \<le> step_title_bytes"
    using cut_text_fits [OF v(1), of "[]" step_title_bytes] by (auto simp: within_bytes_def split: if_splits)
  then have t: "within_bytes name (trim_space ?t) step_title_bytes = None" for name
    using valid_trim length_trim [of ?t] by (auto simp: within_bytes_def)
  have n: "within_bytes name ?n step_note_bytes = None" for name by (rule cut_text_fits [OF v(2)])
  have step: "validate_step (tidy_step s) = None \<or> validate_step (tidy_step s) = Some StepNeedsTitle"
    if "mst_title s = ?t" "mst_note s = ?n" "valid_step_state (mst_state s)" for s :: memory_step
    using that t n by (auto simp: validate_step_def tidy_step_def Let_def valid_step_state_def)
  show ?case
    using Cons.IH [OF v(3)] step by (auto simp: x Let_def case_prod_unfold split: sum.splits)
qed simp

lemma first_some_member: "first_some f xs = Some y \<Longrightarrow> \<exists>x \<in> set xs. f x = Some y"
  by (induction xs) (auto split: option.splits)

lemma save_plan_bound:
  "save_memory_plan now ws prov steps given db = (Inl (MemBounds f), db') \<Longrightarrow>
     memory_plan_steps < length steps \<or> (\<exists>s \<in> set steps. validate_step (tidy_step s) = Some f)"
proof -
  assume saved: "save_memory_plan now ws prov steps given db = (Inl (MemBounds f), db')"
  have "replace_plan t ws prov ss d \<noteq> (Some (MemBounds f), d')" for t ss d d'
    by (auto simp: replace_plan_def split: prod.splits option.splits if_splits dest!: mem_calls_error)
  moreover have "list_memory_plan ws d \<noteq> (Inl (MemBounds f), d')" for d d'
    by (auto simp: list_memory_plan_def split: prod.splits option.splits dest!: mem_call_error)
  ultimately show ?thesis using saved
    by (auto simp: save_memory_plan_def Let_def split: if_splits option.splits prod.splits dest!: first_some_member)
qed

lemma plan_tool_fits: "utf8_input i \<Longrightarrow> fits (plan_steps_tool M i)"
proof -
  assume v: "utf8_input i"
  let ?is = "take memory_plan_steps (mq_steps i)"
  have vs: "list_all valid_string (concat (map (\<lambda>(t, s, n). [t, n]) ?is))"
    using v by (fastforce simp: utf8_input_def list_all_iff dest: in_set_takeD)
  note inputs = plan_inputs_fit [OF vs, of M]
  have lifted: "fits_in w (mem_lift (plan_inputs M ?is))" for w
    using inputs by (auto simp: fits_in_def mem_lift_def refused_for_def split: sum.splits)
  have saved: "fits (mem_query (save_memory_plan now ws prov steps 0))" if "plan_inputs M ?is = Inr (steps, r)" for now ws prov steps r
  proof (rule fits_query)
    fix db f db'
    assume "save_memory_plan now ws prov steps 0 db = (Inl (MemBounds f), db')"
    from save_plan_bound [OF this] show "f = StepNeedsTitle"
      using inputs that by (force simp: list_all_iff)
  qed
  have body: "fits (mem_then (mem_lift (plan_inputs M ?is)) k)"
    if "\<And>x. plan_inputs M ?is = Inr x \<Longrightarrow> fits (k x)" for k :: "memory_step list \<times> bool \<times> bool \<Rightarrow> (memory_step list \<times> string list) memory_act"
    using that lifted unfolding fits_def by (auto intro!: fits_in_then simp: mem_lift_def)
  show ?thesis
  proof (cases "mq_steps i = []")
    case False
    show ?thesis unfolding plan_steps_tool_def if_not_P [OF False]
    proof (rule fits_then [OF fits_open], rule body, clarify)
      fix ws steps ct cn
      assume "plan_inputs M ?is = Inr (steps, ct, cn)"
      from saved [OF this] show "fits (mem_then (mem_query (save_memory_plan (mt_now M) (ws_id ws) (mt_provider M) steps 0)) (\<lambda>saved.
            mem_ret (saved, (if memory_plan_steps < length (mq_steps i) then [''steps''] else [])
              @ (if ct then [''step titles''] else []) @ (if cn then [''step notes''] else []))))"
        by (intro fits_then fits_ret)
    qed
  qed (simp add: plan_steps_tool_def fits_fail)
qed

lemma step_tool_fits: "utf8_input i \<Longrightarrow> fits (plan_step_tool M i)"
proof -
  assume v: "utf8_input i"
  let ?n = "fst (bound_text (trim_space (mq_note i)) step_note_bytes)"
  have n: "within_bytes name ?n step_note_bytes = None" for name
    using v by (intro cut_text_fits) (simp add: utf8_input_def)
  have move: "fst (update_memory_step now ws prov k st None given 0 db) \<noteq> Some (MemBounds f)"
    if "valid_step_state st" "given = None \<or> given = Some ?n" for now ws prov k st given db f
    using that n by (auto simp: update_memory_step_def validate_move_def split: prod.splits option.splits if_splits dest!: mem_call_error)
  have "fits (move_step M ws k st given)" if "valid_step_state st" "given = None \<or> given = Some ?n" for ws k st given
    unfolding fits_def fits_in_def
  proof
    fix w :: memory_world
    obtain r db where u: "update_memory_step (mt_now M) ws (mt_provider M) k st None given 0 (mw_memory w) = (r, db)"
      by (cases "update_memory_step (mt_now M) ws (mt_provider M) k st None given 0 (mw_memory w)")
    have "r \<noteq> Some (MemBounds f)" for f using move [OF that, of "mt_now M" ws "mt_provider M" k "mw_memory w" f] u by simp
    then show "refused_for (fst (move_step M ws k st given w)) = None \<or> refused_for (fst (move_step M ws k st given w)) = Some StepNeedsTitle"
      using u by (auto simp: move_step_def refused_for_def split: option.splits memory_error.splits)
  qed
  then show ?thesis unfolding plan_step_tool_def
    by (auto simp: Let_def case_prod_unfold intro!: fit_rules)
qed

section \<open>The title of a summary\<close>

lemma decimal_short: "n < 10 ^ k \<Longrightarrow> 0 < k \<Longrightarrow> length (decimal n) \<le> k"
proof (induction k arbitrary: n)
  case (Suc k)
  show ?case
  proof (cases "n < 10")
    case False
    then have "0 < k" using Suc.prems by (cases k) auto
    moreover have "n div 10 < 10 ^ k" using Suc.prems(1) by (simp add: less_mult_imp_div_less mult.commute)
    ultimately have "length (decimal (n div 10)) \<le> k" using Suc.IH by blast
    then show ?thesis using False by (subst decimal.simps) simp
  qed (subst decimal.simps, simp)
qed simp

lemma decimal_ascii: "ascii (decimal n)"
proof -
  have "ascii_byte c" if "is_digit c" for c using that by (auto simp: is_digit_def ascii_byte_def)
  then show ?thesis using conjunct1 [OF decimal_digits [of n]] by (simp add: ascii_def list_all_iff)
qed

lemma ascii_digits: "ascii (digits_of w n)"
proof (induction w n rule: digits_of.induct)
  case (2 w n)
  have "list_all (\<lambda>k. ascii_byte (char_of (48 + k :: int))) [0, 1, 2, 3, 4, 5, 6, 7, 8, 9]"
    by (simp add: ascii_byte_def char_of_def)
  moreover have "n mod 10 \<in> set [0, 1, 2, 3, 4, 5, 6, 7, 8, 9]" by auto presburger
  ultimately have "ascii_byte (char_of (48 + n mod 10))" unfolding list_all_iff by blast
  then show ?case using 2 by simp
qed simp

lemma ascii_take: "ascii s \<Longrightarrow> ascii (take n s)"
  by (auto simp: ascii_def list_all_iff dest: in_set_takeD)

lemma ascii_format_date: "ascii (take 10 (format_time t))"
proof -
  have "ascii (strip_zeros (digits_of 9 n))" for n
    using ascii_digits [of 9 n] by (auto simp: ascii_def list_all_iff strip_zeros_def dest!: set_dropWhileD)
  then have "ascii (frac_text n)" for n by (simp add: frac_text_def Let_def ascii_byte_def)
  then show ?thesis by (intro ascii_take) (simp add: format_time_def Let_def case_prod_unfold ascii_digits ascii_byte_def)
qed

lemma summary_title_fits:
  "0 \<le> through \<Longrightarrow> through \<le> max_row_id \<Longrightarrow>
     within_bytes name (mn_title (summary_note M ws n summary through)) memory_title_bytes = None"
proof -
  assume t: "0 \<le> through" "through \<le> max_row_id"
  have "length (decimal (nat through)) \<le> 19" using t by (intro decimal_short) (simp_all add: max_row_id_def)
  moreover have "length (take 10 (format_time (mn_created n))) \<le> 10" by simp
  moreover have "ascii (mn_title (summary_note M ws n summary through))"
    by (simp add: summary_note_def decimal_ascii ascii_format_date ascii_byte_def)
  ultimately show ?thesis
    by (simp add: within_bytes_def valid_string_ascii memory_title_bytes_def summary_note_def)
qed

lemma compact_tool_fits:
  assumes "utf8_input i" and "mw_memory w = mem_run es (empty_memory fs b)"
  shows "fits_in w (memory_compact_tool M i)"
proof (cases "mt_memory M \<and> mt_compacts M")
  case True
  have fold: "fits_in w1 (compact_fold M ws batch (trim_space (mq_summary i)) (mq_through i))"
    if pre: "compact_batch M ws w0 = (Inr batch, w1)" "notes_ok (mw_memory w0)" for ws batch w0 w1
  proof (cases "batch = [] \<or> mn_id (List.last batch) < mq_through i \<or> mq_through i < mn_id (hd batch)
      \<or> trim_space (mq_summary i) = [] \<or> mq_through i = 0 \<or> memory_summary_bytes < length (trim_space (mq_summary i))")
    case True
    then show ?thesis by (auto simp: compact_fold_def fits_in_def mem_fail_def refused_for_def)
  next
    case False
    obtain j where j: "batch = take j (filter (live_in ws) (md_notes (mw_memory w0)))" using batch_prefix(1) [OF pre] by blast
    then have members: "set batch \<subseteq> set (md_notes (mw_memory w0))" by (auto dest: in_set_takeD)
    have "hd batch \<in> set batch" "List.last batch \<in> set batch" using False by simp_all
    then have ids: "0 \<le> mq_through i" "mq_through i \<le> max_row_id"
      using members pre(2) False by (fastforce simp: notes_ok_def list_all_iff)+
    let ?n = "summary_note M ws (hd batch) (trim_space (mq_summary i)) (mq_through i)"
    have body: "within_bytes name (trim_space (mq_summary i)) memory_body_bytes = None" for name
      using False valid_trim assms(1) by (simp add: within_bytes_def memory_body_bytes_def memory_summary_bytes_def utf8_input_def)
    have "validate_note ?n \<noteq> Some (MemBounds f)" for f
      using summary_title_fits [OF ids] body
      by (auto simp: validate_note_def) (auto simp: summary_note_def within_bytes_def valid_string_ascii)
    then have "fits_in w (mem_query (add_memory_note (mt_now M) ?n))" for w
      using add_note_bound by (intro fits_in_query) blast
    then show ?thesis using False unfolding compact_fold_def
      by (auto intro!: fits_in_then simp: fits_queries [unfolded fits_def, rule_format])
  qed
  have offer: "fits (compact_offer ws batch)" for ws batch
    unfolding compact_offer_def by (auto simp: Let_def case_prod_unfold intro!: fit_rules)
  have batch: "fits (compact_batch M ws)" for ws unfolding compact_batch_def by (intro fit_rules)
  have opened: "notes_ok (mw_memory w0)" if "mem_open M k w = (Inr x, w0)" for k x w0
  proof -
    have "mw_memory w0 = mw_memory w" using that by (auto simp: mem_open_def split: prod.splits)
    then show ?thesis using assms(2) note_rows_ok by simp
  qed
  show ?thesis
    unfolding memory_compact_tool_def
    using True fold offer batch opened fits_open
    by (auto simp: Let_def fits_def intro!: fits_in_then)
qed (auto simp: memory_compact_tool_def fits_in_def mem_fail_def refused_for_def)

text \<open>
  Whatever the tool is asked with texts of valid UTF-8, over any reachable tables: the tables
  never refuse it for a bound, except a plan for a step whose title is blank. What is too long
  is cut first, a list or a plan with too many entries too, and a summary has a title that fits.
\<close>

theorem no_text_is_refused_for_its_length:
  assumes "utf8_input i" and "mw_memory w = mem_run es (empty_memory fs b)"
    and "fst (memory_tool M action i w) = Inl (MemStore (MemBounds f))"
  shows "f = StepNeedsTitle"
proof -
  have r: "fits (memory_recall_tool M i)"
    unfolding memory_recall_tool_def by (auto simp: case_prod_unfold intro!: fit_rules)
  have s: "fits (memory_search_tool M i)"
    unfolding memory_search_tool_def Let_def by (auto intro!: fit_rules split: option.splits)
  have d: "fits (memory_read_tool M i)"
    unfolding memory_read_tool_def read_notes_def by (auto intro!: fit_rules)
  note branches = r s d note_tool_fits [OF assms(1), of M] plan_tool_fits [OF assms(1), of M] step_tool_fits [OF assms(1), of M]
  have branch: "fits_in w (if P then a else b)" if "fits_in w a" "fits_in w b" for P and a b :: "memory_answer memory_act"
    using that by simp
  have other: "fits_in w (mem_map g m)" if "fits_in w m" for g :: "'b \<Rightarrow> memory_answer" and m :: "'b memory_act"
    unfolding mem_map_def using that by (intro fits_in_then) simp_all
  have "fits_in w (memory_tool M action i)"
    unfolding memory_tool_def Let_def
    by (intro branch other compact_tool_fits [OF assms(1,2)] branches [unfolded fits_def, rule_format]
        fits_fail [unfolded fits_def, rule_format]) simp_all
  then show ?thesis using assms(3) by (auto simp: fits_in_def refused_for_def)
qed

section \<open>Sample calls\<close>

definition short_note :: memory_note where
  "short_note = \<lparr>mn_id = 0, mn_workspace = ''ws_1'', mn_provider = ''claude'', mn_title = ''a'', mn_body = ''b'',
     mn_change_set = [], mn_run = [], mn_archived = False, mn_created = 0\<rparr>"

definition note_world :: memory_world where
  "note_world = \<lparr>mw_tools = (fresh_state edit_disk, one_ws), mw_memory = mem_run [MAdd 1 short_note] (empty_memory [] False),
     mw_runs = \<lparr>xs_rows = [], xs_faults = []\<rparr>\<rparr>"

definition memo_tools :: memory_tools where
  "memo_tools = \<lparr>mt_tools = edit_tools, mt_reader = \<lparr>rd_approver = None, rd_inline = 0\<rparr>, mt_memory = True,
     mt_compacts = True, mt_has_runs = True\<rparr>"

lemma memo_tools_sel [simp]: "mt_tools memo_tools = edit_tools" "mt_memory memo_tools" "mt_compacts memo_tools"
  by (simp_all add: memo_tools_def)

abbreviation first_note :: memory_note where
  "first_note \<equiv> short_note\<lparr>mn_id := 1, mn_created := 1\<rparr>"

lemma note_world_rows:
  "md_notes (mw_memory note_world) = [first_note]" "md_faults (mw_memory note_world) = []"
  "mw_memory note_world = mem_run [MAdd 1 short_note] (empty_memory [] False)"
  "mw_tools note_world = (fresh_state edit_disk, one_ws)"
proof -
  have "validate_note short_note = None"
    by (simp add: validate_note_def short_note_def plain_trim plain_valid within_bytes_def memory_title_bytes_def
      memory_body_bytes_def memory_ref_bytes_def)
  then show "md_notes (mw_memory note_world) = [first_note]" "md_faults (mw_memory note_world) = []"
    by (simp_all add: note_world_def add_memory_note_def empty_memory_def mem_call_def max_row_id_def stamp_of_def short_note_def Let_def)
qed (simp_all add: note_world_def)

lemma first_note_sel: "mn_workspace first_note = ''ws_1''" "\<not> mn_archived first_note" "mn_id first_note = 1"
  by (simp_all add: short_note_def)



theorem pages_cover_the_trail_witness:
  "read_trail 2 memo_tools ''ws_1'' 1 0 note_world = Some [first_note]"
proof -
  have "mw_memory note_world = (mem_run [MAdd 1 short_note] (empty_memory [] False))\<lparr>md_faults := []\<rparr>"
    using note_world_rows(2,3) by simp
  from pages_cover_the_trail [OF this, of 1 "''ws_1''" memo_tools] show ?thesis
    by (simp add: note_world_rows(1) live_in_def first_note_sel numeral_2_eq_2 del: read_trail.simps)
qed

definition blank_plan :: memory_input where
  "blank_plan = \<lparr>mq_workspace = ''ws_1'', mq_title = [], mq_body = [], mq_change_set = [], mq_run = [], mq_page = None,
     mq_query = [], mq_ids = [], mq_before = 0, mq_limit = 0, mq_steps = [([], [], [])], mq_step = 0, mq_state = [],
     mq_note = [], mq_summary = [], mq_through = 0\<rparr>"

lemma blank_refused: "fst (memory_tool memo_tools ''plan'' blank_plan note_world) = Inl (MemStore (MemBounds StepNeedsTitle))"
proof -
  have opened: "mem_open memo_tools ''ws_1'' note_world = (Inr edit_ws, note_world\<lparr>mw_tools := (fresh_state edit_disk, used_ws)\<rparr>)"
    by (simp add: mem_open_def open_tool_def named_workspace_def edit_opened note_world_rows(4))
  have t: "trim_space ''plan'' = ''plan''" "trim_space [] = []" by (simp_all add: trim_space_def space_encodings_def)
  have a: "to_lower plain_unicode ''plan'' = ''plan''" "wanted_state memo_tools [] = []"
    by (simp_all add: to_lower_def wanted_state_def t ascii_byte_def lower_byte_def)
  have "save_memory_plan now ''ws_1'' prov
      [\<lparr>mst_id = 0, mst_position = 0, mst_title = [], mst_state = step_todo, mst_note = [], mst_provider = [], mst_updated = 0\<rparr>] 0 db
    = (Inl (MemBounds StepNeedsTitle), db)" for now prov db
    by (simp add: save_memory_plan_def tidy_step_def validate_step_def t memory_plan_steps_def Let_def)
  then have "fst (plan_steps_tool memo_tools blank_plan note_world) = Inl (MemStore (MemBounds StepNeedsTitle))"
    by (simp add: plan_steps_tool_def blank_plan_def mem_then_def opened mem_steps memory_plan_steps_def Let_def t a
        bound_text_def valid_step_state_def mem_query_def)
  then show ?thesis
    by (cases "plan_steps_tool memo_tools blank_plan note_world") (simp add: memory_tool_def Let_def t a mem_map_def mem_then_def)
qed

theorem no_text_is_refused_for_its_length_witness:
  "utf8_input blank_plan \<and> fst (memory_tool memo_tools ''plan'' blank_plan note_world) = Inl (MemStore (MemBounds StepNeedsTitle))
    \<and> StepNeedsTitle = (THE f. fst (memory_tool memo_tools ''plan'' blank_plan note_world) = Inl (MemStore (MemBounds f)))"
proof -
  have "utf8_input blank_plan" by (simp add: utf8_input_def blank_plan_def plain_valid)
  note only = no_text_is_refused_for_its_length [OF this note_world_rows(3), of memo_tools "''plan''"]
  show ?thesis using \<open>utf8_input blank_plan\<close> blank_refused by (auto intro!: the_equality [symmetric] only)
qed

section \<open>A search that fails\<close>

text \<open>
  \<^verbatim>\<open>strings.ToLower\<close> may make a text longer: U+023A takes two bytes, its lower case U+2C65 three.
  The place of the word in the lowered body then lies behind the end of the body.
\<close>

definition wide :: "nat \<Rightarrow> string" where
  "wide k = concat (replicate k [CHR 0xC8, CHR 0xBA])"

definition wider :: "nat \<Rightarrow> string" where
  "wider k = concat (replicate k [CHR 0xE2, CHR 0xB1, CHR 0xA5])"

lemma wide_facts: "length (wide k) = 2 * k" "length (wider k) = 3 * k" "set (wider k) \<subseteq> {CHR 0xE2, CHR 0xB1, CHR 0xA5}"
  "0 < k \<Longrightarrow> \<not> ascii (wide k)"
  by (induction k) (auto simp: wide_def wider_def ascii_byte_def)

lemma wide_valid: "valid_string (wide k @ ''word'')"
proof (induction k)
  case (Suc k)
  have "decode_rune (wide (Suc k) @ ''word'') = (0x23A, 2)" by (simp add: wide_def decode_rune_def in_range_def)
  then show ?case using Suc valid_string_rest [of "wide (Suc k) @ ''word''"] by (simp add: wide_def)
qed (simp add: wide_def valid_string_ascii ascii_byte_def)

lemma text_index_skip: "set s \<inter> {hd p} = {} \<Longrightarrow> p \<noteq> [] \<Longrightarrow> text_index (s @ p @ t) p = Some (length s)"
proof (induction s)
  case Nil
  then show ?case by (cases p) (simp_all add: bytes_simps)
next
  case (Cons c s)
  then have "\<not> has_prefix ((c # s) @ p @ t) p" by (cases p) (auto simp: bytes_simps)
  then show ?case using Cons by simp
qed

lemma start_back_beyond: "length s < n \<Longrightarrow> start_back s n = n"
  by (cases n) simp_all

text \<open>
  A note that passes every bound makes each search panic that finds it by a word behind a
  text whose lower case is longer: the start of its snippet lies beyond its body.
\<close>

theorem a_note_can_break_the_search:
  assumes "\<And>k. u_lower u (wide k @ ''word'') = wider k @ ''word''" and "200 \<le> k" and "k \<le> 998"
  shows "snippet_of u (wide k @ ''word'') ''word'' = None \<and> within_bytes ''body'' (wide k @ ''word'') memory_body_bytes = None"
proof -
  have low: "to_lower u (wide k @ ''word'') = wider k @ ''word''" "to_lower u ''word'' = ''word''"
    using assms wide_facts(4) [of k] by (auto simp: to_lower_def ascii_byte_def lower_byte_def)
  have "text_index (wider k @ ''word'') ''word'' = Some (3 * k)"
    using text_index_skip [of "wider k" "''word''" "[]"] wide_facts(2,3) [of k] by auto
  then have start: "snippet_of u (wide k @ ''word'') ''word'' = (let start = start_back (wide k @ ''word'') (3 * k - 53) in
      if 2 * k + 4 < start then None else snippet_of u (wide k @ ''word'') ''word'')"
    unfolding snippet_of_def low by (simp add: memory_snippet_bytes_def Let_def wide_facts)
  have "start_back (wide k @ ''word'') (3 * k - 53) = 3 * k - 53"
    using assms(2) by (intro start_back_beyond) (simp add: wide_facts)
  then have "snippet_of u (wide k @ ''word'') ''word'' = None"
  proof -
    have "2 * k + 4 < 3 * k - 53" using assms(2) by linarith
    then show ?thesis using \<open>start_back (wide k @ ''word'') (3 * k - 53) = 3 * k - 53\<close> by (subst start) simp
  qed
  moreover have "within_bytes ''body'' (wide k @ ''word'') memory_body_bytes = None"
    using assms(3) wide_valid by (simp add: wide_facts memory_body_bytes_def within_bytes_def)
  ultimately show ?thesis by simp
qed


text \<open>A table of cases with these two runes.\<close>

fun widen :: "string \<Rightarrow> string" where
  "widen (a # b # s) = (if a = CHR 0xC8 \<and> b = CHR 0xBA then [CHR 0xE2, CHR 0xB1, CHR 0xA5] @ widen s else a # widen (b # s))"
| "widen s = s"

lemma widen_wide: "widen (wide k @ ''word'') = wider k @ ''word''"
  by (induction k) (simp_all add: wide_def wider_def)

theorem a_note_can_break_the_search_witness:
  "snippet_of (plain_unicode\<lparr>u_lower := widen\<rparr>) (wide 200 @ ''word'') ''word'' = None
    \<and> within_bytes ''body'' (wide 200 @ ''word'') memory_body_bytes = None"
  by (rule a_note_can_break_the_search) (simp_all add: widen_wide)

end
